(* ===== verification/Prelude.thy ===== *)
theory Prelude
  imports Main "HOL-Library.List_Lexorder" "HOL-Library.Char_ord"
begin

text \<open>
  Shared vocabulary of the development: Python's strings, truthiness, dictionaries and error
  values as the components use them, and the generic lemmas about them.

  \<^item> A Python \<open>str\<close> is a \<open>string\<close> (a \<open>char list\<close>); the order of strings is the lexicographic
    order of \<open>List_Lexorder\<close>, which is Python's order on code points.
  \<^item> \<open>str | None\<close> is \<open>string option\<close>; \<open>truthy\<close> is Python's \<open>bool(x)\<close> on it (\<open>None\<close> and the
    empty string are false) and \<open>por\<close> is Python's \<open>or\<close>.
  \<^item> Instants and durations are integers in microseconds, the resolution of \<open>datetime\<close>.
  \<^item> A raised exception is an \<open>Inl\<close> value of the sum type, with the exception's class (and its
    static message where callers tell messages apart).
\<close>

named_theorems key_simps \<open>shape facts of the colon/slash separated keys\<close>
named_theorems inv_intros \<open>preservation of component invariants\<close>

type_synonym instant = int
type_synonym duration = int

definition secs :: "int \<Rightarrow> duration" where
  "secs n = n * 1000000"

definition days :: "int \<Rightarrow> duration" where
  "days n = n * 86400000000"

lemma secs_mono: "a \<le> b \<Longrightarrow> secs a \<le> secs b"
  by (simp add: secs_def)

lemma secs_pos: "0 < n \<Longrightarrow> 0 < secs n"
  by (simp add: secs_def)

subsection \<open>Truthiness and \<open>or\<close>\<close>

definition truthy :: "string option \<Rightarrow> bool" where
  "truthy x \<longleftrightarrow> x \<noteq> None \<and> x \<noteq> Some []"

definition por :: "string option \<Rightarrow> string option \<Rightarrow> string option" where
  "por a b = (if truthy a then a else b)"

definition or_empty :: "string option \<Rightarrow> string" where
  "or_empty x = (case x of None \<Rightarrow> [] | Some v \<Rightarrow> v)"

lemma truthy_simps [simp]:
  "\<not> truthy None" "\<not> truthy (Some [])" "truthy (Some (c # cs))"
  by (simp_all add: truthy_def)

lemma truthy_Some: "truthy x \<Longrightarrow> \<exists>v. x = Some v \<and> v \<noteq> []"
  by (cases x) (auto simp: truthy_def)

lemma truthy_Some_iff [simp]: "truthy (Some v) \<longleftrightarrow> v \<noteq> []"
  by (simp add: truthy_def)

lemma or_empty_simps [simp]: "or_empty None = []" "or_empty (Some v) = v"
  by (simp_all add: or_empty_def)

lemma truthy_collapse [simp]: "truthy x \<Longrightarrow> Some (or_empty x) = x"
  by (cases x) simp_all

lemma por_simps [simp]: "por None b = b" "truthy a \<Longrightarrow> por a b = a" "\<not> truthy a \<Longrightarrow> por a b = b"
  by (simp_all add: por_def)

subsection \<open>Strings\<close>

text \<open>\<open>s.partition(c)\<close>: what precedes the first \<open>c\<close>, whether there is one, what follows it.\<close>

definition py_partition :: "char \<Rightarrow> string \<Rightarrow> string \<times> bool \<times> string" where
  "py_partition c s =
     (case dropWhile (\<lambda>x. x \<noteq> c) s of
        [] \<Rightarrow> (s, False, [])
      | _ # t \<Rightarrow> (takeWhile (\<lambda>x. x \<noteq> c) s, True, t))"

definition startswith :: "string \<Rightarrow> string \<Rightarrow> bool" where
  "startswith p s \<longleftrightarrow> take (length p) s = p"

text \<open>\<open>items[start:stop]\<close>: negative indices count from the end, and both are clamped.\<close>

definition py_index :: "nat \<Rightarrow> int \<Rightarrow> nat" where
  "py_index n i = (if i < 0 then nat (max 0 (int n + i)) else min (nat i) n)"

definition py_slice :: "int \<Rightarrow> int \<Rightarrow> 'a list \<Rightarrow> 'a list" where
  "py_slice start stop xs = drop (py_index (length xs) start) (take (py_index (length xs) stop) xs)"

fun py_join :: "string \<Rightarrow> string list \<Rightarrow> string" where
  "py_join sep [] = []"
| "py_join sep [x] = x"
| "py_join sep (x # y # ys) = x @ sep @ py_join sep (y # ys)"

lemma startswith_append [simp]: "startswith p (p @ s)"
  by (simp add: startswith_def)

lemma startswith_iff: "startswith p s \<longleftrightarrow> (\<exists>t. s = p @ t)"
proof
  assume "startswith p s"
  then have "s = p @ drop (length p) s"
    by (metis append_take_drop_id startswith_def)
  then show "\<exists>t. s = p @ t" ..
qed auto

lemma takeWhile_sep: "c \<notin> set a \<Longrightarrow> takeWhile (\<lambda>x. x \<noteq> c) (a @ c # b) = a"
  by (induction a) auto

lemma dropWhile_sep: "c \<notin> set a \<Longrightarrow> dropWhile (\<lambda>x. x \<noteq> c) (a @ c # b) = c # b"
  by (induction a) auto

lemma dropWhile_nosep: "c \<notin> set a \<Longrightarrow> dropWhile (\<lambda>x. x \<noteq> c) a = []"
  by (induction a) auto

lemma partition_sep [key_simps]: "c \<notin> set a \<Longrightarrow> py_partition c (a @ c # b) = (a, True, b)"
  by (simp add: py_partition_def takeWhile_sep dropWhile_sep)

lemma partition_nosep: "c \<notin> set a \<Longrightarrow> py_partition c a = (a, False, [])"
  by (simp add: py_partition_def dropWhile_nosep)

lemma partition_found:
  assumes "py_partition c s = (a, True, b)"
  shows "s = a @ c # b \<and> c \<notin> set a"
proof (cases "dropWhile (\<lambda>x. x \<noteq> c) s")
  case Nil
  with assms show ?thesis by (simp add: py_partition_def)
next
  case (Cons d t)
  then have "d = c" using hd_dropWhile [of "\<lambda>x. x \<noteq> c" s] by simp
  moreover have "a = takeWhile (\<lambda>x. x \<noteq> c) s" "b = t"
    using assms Cons by (simp_all add: py_partition_def)
  moreover have "s = takeWhile (\<lambda>x. x \<noteq> c) s @ dropWhile (\<lambda>x. x \<noteq> c) s" by simp
  ultimately show ?thesis using Cons by (auto dest: set_takeWhileD)
qed

text \<open>A separator that does not occur in the first component makes the pairing injective.\<close>

lemma sep_inject:
  assumes "(c::char) \<notin> set a" and "c \<notin> set a'"
  shows "a @ c # b = a' @ c # b' \<longleftrightarrow> a = a' \<and> b = b'"
proof
  assume eq: "a @ c # b = a' @ c # b'"
  have "py_partition c (a @ c # b) = (a, True, b)" by (rule partition_sep [OF assms(1)])
  moreover have "py_partition c (a @ c # b) = (a', True, b')"
    unfolding eq by (rule partition_sep [OF assms(2)])
  ultimately show "a = a' \<and> b = b'" by simp
qed simp

subsection \<open>\<open>dict.fromkeys\<close>: duplicates removed, first occurrences kept in order\<close>

fun fromkeys :: "'a list \<Rightarrow> 'a list" where
  "fromkeys [] = []"
| "fromkeys (x # xs) = x # filter (\<lambda>y. y \<noteq> x) (fromkeys xs)"

lemma set_fromkeys [simp]: "set (fromkeys xs) = set xs"
  by (induction xs) auto

lemma distinct_fromkeys [simp]: "distinct (fromkeys xs)"
  by (induction xs) auto

subsection \<open>Decimal numerals (\<open>str(n)\<close>)\<close>

definition digit_char :: "nat \<Rightarrow> char" where
  "digit_char d = char_of (48 + d)"

fun show_nat :: "nat \<Rightarrow> string" where
  "show_nat n = (if n < 10 then [digit_char n] else show_nat (n div 10) @ [digit_char (n mod 10)])"

declare show_nat.simps [simp del]

definition digit_val :: "char \<Rightarrow> nat" where
  "digit_val c = of_char c - 48"

definition read_nat :: "string \<Rightarrow> nat" where
  "read_nat s = foldl (\<lambda>n c. 10 * n + digit_val c) 0 s"

lemma digit_val_char [simp]: "d < 10 \<Longrightarrow> digit_val (digit_char d) = d"
  by (simp add: digit_val_def digit_char_def of_char_of)

lemma read_show_nat [simp]: "read_nat (show_nat n) = n"
proof (induction n rule: show_nat.induct)
  case (1 n)
  show ?case
  proof (cases "n < 10")
    case True
    then show ?thesis by (simp add: show_nat.simps [of n] read_nat_def)
  next
    case False
    with "1.IH" have "read_nat (show_nat (n div 10)) = n div 10" by simp
    then show ?thesis using False by (simp add: show_nat.simps [of n] read_nat_def)
  qed
qed

lemma show_nat_inject [simp]: "show_nat m = show_nat n \<longleftrightarrow> m = n"
  by (metis read_show_nat)

lemma digit_char_code: "d < 10 \<Longrightarrow> of_char (digit_char d) = (48 + d :: nat)"
  by (simp add: digit_char_def of_char_of)

lemma show_nat_digits: "c \<in> set (show_nat n) \<Longrightarrow> of_char c \<in> {48..57::nat}"
proof (induction n rule: show_nat.induct)
  case (1 n)
  show ?case
  proof (cases "n < 10")
    case True
    with "1.prems" show ?thesis by (simp add: show_nat.simps [of n] digit_char_code)
  next
    case False
    then have "c \<in> set (show_nat (n div 10)) \<or> c = digit_char (n mod 10)"
      using "1.prems" by (auto simp: show_nat.simps [of n])
    then show ?thesis using "1.IH" False by (auto simp: digit_char_code)
  qed
qed

lemma show_nat_nonempty [simp]: "show_nat n \<noteq> []"
  by (simp add: show_nat.simps [of n])

subsection \<open>Association lists as ordered tables\<close>

fun assoc_put :: "'k \<Rightarrow> 'v \<Rightarrow> ('k \<times> 'v) list \<Rightarrow> ('k \<times> 'v) list" where
  "assoc_put k v [] = [(k, v)]"
| "assoc_put k v ((a, b) # xs) = (if a = k then (k, v) # xs else (a, b) # assoc_put k v xs)"

definition assoc_del :: "'k \<Rightarrow> ('k \<times> 'v) list \<Rightarrow> ('k \<times> 'v) list" where
  "assoc_del k xs = filter (\<lambda>(a, _). a \<noteq> k) xs"

lemma map_of_assoc_put [simp]: "map_of (assoc_put k v xs) = (map_of xs)(k \<mapsto> v)"
  by (induction k v xs rule: assoc_put.induct) (auto simp: fun_upd_twist)

lemma assoc_put_keys [simp]: "fst ` set (assoc_put k v xs) = insert k (fst ` set xs)"
  by (induction k v xs rule: assoc_put.induct) auto

lemma fold_assoc_put_keys:
  "fst ` set (fold (\<lambda>(k, v) m. assoc_put k v m) kvs m) = fst ` set kvs \<union> fst ` set m"
proof (induction kvs arbitrary: m)
  case (Cons kv kvs)
  obtain k v where "kv = (k, v)" by fastforce
  with Cons.IH [of "assoc_put k v m"] show ?case by simp
qed simp

lemma map_of_assoc_del [simp]: "map_of (assoc_del k xs) = (map_of xs)(k := None)"
  unfolding assoc_del_def by (induction xs) (auto simp: fun_eq_iff)

subsection \<open>Results\<close>

text \<open>Python's sequencing of statements that may raise.\<close>

definition rbind :: "'e + 'a \<Rightarrow> ('a \<Rightarrow> 'e + 'b) \<Rightarrow> 'e + 'b" where
  "rbind r f = (case r of Inl e \<Rightarrow> Inl e | Inr a \<Rightarrow> f a)"

lemma rbind_simps [simp]: "rbind (Inl e) f = Inl e" "rbind (Inr a) f = f a"
  by (simp_all add: rbind_def)

lemma rbind_Inr: "rbind r f = Inr b \<longleftrightarrow> (\<exists>a. r = Inr a \<and> f a = Inr b)"
  by (cases r) auto

lemma rbind_Inl: "rbind r f = Inl e \<longleftrightarrow> r = Inl e \<or> (\<exists>a. r = Inr a \<and> f a = Inl e)"
  by (cases r) auto

text \<open>A comprehension whose body may raise: the first failure, in order, is the result.\<close>

fun mapM :: "('a \<Rightarrow> 'e + 'b) \<Rightarrow> 'a list \<Rightarrow> 'e + 'b list" where
  "mapM f [] = Inr []"
| "mapM f (x # xs) = rbind (f x) (\<lambda>y. rbind (mapM f xs) (\<lambda>ys. Inr (y # ys)))"

lemma mapM_cong [fundef_cong]:
  "xs = ys \<Longrightarrow> (\<And>x. x \<in> set ys \<Longrightarrow> f x = g x) \<Longrightarrow> mapM f xs = mapM g ys"
  by (induction ys arbitrary: xs) auto

lemma mapM_Inr_iff: "mapM f xs = Inr ys \<longleftrightarrow> list_all2 (\<lambda>x y. f x = Inr y) xs ys"
  by (induction f xs arbitrary: ys rule: mapM.induct) (auto simp: rbind_Inr list_all2_Cons1)

lemma mapM_set: "mapM f xs = Inr ys \<Longrightarrow> y \<in> set ys \<longleftrightarrow> (\<exists>x \<in> set xs. f x = Inr y)"
  by (induction f xs arbitrary: ys rule: mapM.induct) (auto simp: rbind_Inr)

lemma mapM_total: "mapM f xs = Inr ys \<Longrightarrow> x \<in> set xs \<Longrightarrow> \<exists>y. f x = Inr y"
  by (induction f xs arbitrary: ys rule: mapM.induct) (auto simp: rbind_Inr)

text \<open>The same for operations that also change a state.\<close>

definition sbind :: "('s \<Rightarrow> ('e + 'a) \<times> 's) \<Rightarrow> ('a \<Rightarrow> 's \<Rightarrow> ('e + 'b) \<times> 's) \<Rightarrow> 's \<Rightarrow> ('e + 'b) \<times> 's" where
  "sbind f g s = (case f s of (Inl e, s') \<Rightarrow> (Inl e, s') | (Inr a, s') \<Rightarrow> g a s')"

lemma sbind_run: "f s = (Inr a, s') \<Longrightarrow> sbind f g s = g a s'" "f s = (Inl e, s') \<Longrightarrow> sbind f g s = (Inl e, s')"
  by (simp_all add: sbind_def)

lemma sbind_Inr: "sbind f g s = (Inr b, s') \<longleftrightarrow> (\<exists>a s1. f s = (Inr a, s1) \<and> g a s1 = (Inr b, s'))"
  by (auto simp: sbind_def split: prod.splits sum.splits)

end
