(* ===== verification/Errors.thy ===== *)
theory Errors
  imports Prelude
begin

text \<open>
  The closed vocabularies of \<open>domain/enums.py\<close> that the modelled components use, as datatypes
  with the source's constructors, and the exception hierarchy of \<open>domain/errors.py\<close> with the
  error code, HTTP status and retry flag each class carries.
\<close>

subsection \<open>Enumerations\<close>

datatype Lifetime = EPHEMERAL | SHORT_TERM | LONG_TERM | ARCHIVAL

datatype MemoryType =
    MT_WORKING | MT_CONVERSATION | MT_EPISODIC | MT_SEMANTIC | MT_PROCEDURAL | MT_USER
  | MT_PREFERENCE | MT_AGENT | MT_SHARED | MT_TASK | MT_WORK | MT_TOOL | MT_SKILL | MT_DECISION
  | MT_FAILURE | MT_OUTCOME | MT_ARTIFACT | MT_KNOWLEDGE_RAG | MT_SUMMARY | MT_DERIVED
  | MT_POLICY | MT_OBSERVATION | MT_BELIEF | MT_ENTITY_SUMMARY | MT_CUSTOM

datatype Visibility =
    V_PRIVATE | V_USER | V_AGENT_GROUP | V_RUN | V_THREAD | V_WORKSPACE | V_TENANT

datatype ScopeLevel =
    L_AGENT | L_AGENT_GROUP | L_THREAD | L_USER | L_WORKSPACE | L_TENANT

datatype TemporalStatus =
    TS_CURRENT | TS_SUPERSEDED | TS_EXPIRED | TS_CONTRADICTED | TS_RETRACTED | TS_ARCHIVED

datatype MessageKind = VISIBLE | INTERNAL

datatype ArchiveStatus = AS_STAGED | AS_ARCHIVING | AS_ARCHIVED | AS_PURGED

datatype ErrorCode =
    EC_VALIDATION | EC_AUTHENTICATION | EC_AUTHORIZATION | EC_SCOPE_DENIED | EC_NOT_FOUND
  | EC_CONFLICT | EC_PAYLOAD_TOO_LARGE | EC_RATE_LIMIT | EC_DEPENDENCY_UNAVAILABLE | EC_TIMEOUT
  | EC_CORRUPT_SOURCE | EC_INTERNAL

text \<open>\<open>f"{level}"\<close> of a \<open>StrEnum\<close> member is its value.\<close>

fun level_value :: "ScopeLevel \<Rightarrow> string" where
  "level_value L_AGENT = ''AGENT''"
| "level_value L_AGENT_GROUP = ''AGENT_GROUP''"
| "level_value L_THREAD = ''THREAD''"
| "level_value L_USER = ''USER''"
| "level_value L_WORKSPACE = ''WORKSPACE''"
| "level_value L_TENANT = ''TENANT''"

subsection \<open>Exceptions\<close>

text \<open>
  One constructor per class of \<open>domain/errors.py\<close> (plus Python's own \<open>ValueError\<close>, \<open>IndexError\<close>, \<open>KeyError\<close>, \<open>OverflowError\<close>, \<open>LookupError\<close> and \<open>AssertionError\<close>, the
  driver's untranslated \<open>IntegrityError\<close>, the cache port's \<open>CacheUnavailable\<close>, the exceptions of
  \<open>ports/blob.py\<close>, \<open>ConnectionError\<close> and the \<open>ZstdError\<close> of a corrupt segment, which the modelled code raises
  and catches). The
  authentication and authorization failures carry their message, since the code promises that
  callers cannot tell credential failures apart; a \<open>Conflict\<close> carries its message and its
  \<open>retryable\<close> attribute, which the idempotency service overrides on the instance.
\<close>

datatype service_error =
    ValidationFailed
  | AuthenticationFailed string
  | AuthorizationFailed string
  | ScopeDenied string
  | NotFound
  | PayloadTooLarge
  | Conflict string bool
  | DependencyUnavailable
  | OperationTimedOut
  | CorruptSource
  | ProviderNotConfigured
  | ValueError
  | CacheUnavailable
  | IndexError
  | IntegrityError
  | AssertionError
  | ConnectionError
  | BlobNotFound
  | BlobAlreadyExists
  | BlobChecksumMismatch
  | ZstdError
  | KeyError
  | OverflowError
  | LookupError

fun error_code :: "service_error \<Rightarrow> ErrorCode" where
  "error_code ValidationFailed = EC_VALIDATION"
| "error_code (AuthenticationFailed _) = EC_AUTHENTICATION"
| "error_code (AuthorizationFailed _) = EC_AUTHORIZATION"
| "error_code (ScopeDenied _) = EC_SCOPE_DENIED"
| "error_code NotFound = EC_NOT_FOUND"
| "error_code PayloadTooLarge = EC_PAYLOAD_TOO_LARGE"
| "error_code (Conflict _ _) = EC_CONFLICT"
| "error_code DependencyUnavailable = EC_DEPENDENCY_UNAVAILABLE"
| "error_code OperationTimedOut = EC_TIMEOUT"
| "error_code CorruptSource = EC_CORRUPT_SOURCE"
| "error_code ProviderNotConfigured = EC_DEPENDENCY_UNAVAILABLE"
| "error_code ValueError = EC_INTERNAL"
| "error_code CacheUnavailable = EC_DEPENDENCY_UNAVAILABLE"
| "error_code IndexError = EC_INTERNAL"
| "error_code IntegrityError = EC_INTERNAL"
| "error_code AssertionError = EC_INTERNAL"
| "error_code ConnectionError = EC_INTERNAL"
| "error_code BlobNotFound = EC_INTERNAL"
| "error_code BlobAlreadyExists = EC_INTERNAL"
| "error_code BlobChecksumMismatch = EC_INTERNAL"
| "error_code ZstdError = EC_INTERNAL"
| "error_code KeyError = EC_INTERNAL"
| "error_code OverflowError = EC_INTERNAL"
| "error_code LookupError = EC_INTERNAL"

fun http_status :: "service_error \<Rightarrow> nat" where
  "http_status ValidationFailed = 422"
| "http_status (AuthenticationFailed _) = 401"
| "http_status (AuthorizationFailed _) = 403"
| "http_status (ScopeDenied _) = 403"
| "http_status NotFound = 404"
| "http_status PayloadTooLarge = 413"
| "http_status (Conflict _ _) = 409"
| "http_status DependencyUnavailable = 503"
| "http_status OperationTimedOut = 504"
| "http_status CorruptSource = 422"
| "http_status ProviderNotConfigured = 503"
| "http_status ValueError = 500"
| "http_status CacheUnavailable = 503"
| "http_status IndexError = 500"
| "http_status IntegrityError = 500"
| "http_status AssertionError = 500"
| "http_status ConnectionError = 500"
| "http_status BlobNotFound = 500"
| "http_status BlobAlreadyExists = 500"
| "http_status BlobChecksumMismatch = 500"
| "http_status ZstdError = 500"
| "http_status KeyError = 500"
| "http_status OverflowError = 500"
| "http_status LookupError = 500"

fun retryable :: "service_error \<Rightarrow> bool" where
  "retryable DependencyUnavailable = True"
| "retryable OperationTimedOut = True"
| "retryable ProviderNotConfigured = True"
| "retryable CacheUnavailable = True"
| "retryable (Conflict _ r) = r"
| "retryable _ = False"

lemma retryable_status: "retryable e \<Longrightarrow> http_status e \<in> {409, 503, 504}"
  by (cases e) auto

end
