(* ===== verification/Ids.thy ===== *)
theory Ids
  imports Errors
begin

text \<open>
  Identifiers (\<open>domain/ids.py\<close>): the accepted pattern, the prefixes of generated ids and the
  derived session and turn ids. \<open>ULID()\<close> and the hash functions are third-party code, so a
  fresh ULID and the digest \<open>stable_key\<close> computes are parameters.
\<close>

definition id_alnum :: "char \<Rightarrow> bool" where
  "id_alnum c \<longleftrightarrow>
     (let n = of_char c :: nat in
      (65 \<le> n \<and> n \<le> 90) \<or> (97 \<le> n \<and> n \<le> 122) \<or> (48 \<le> n \<and> n \<le> 57))"

definition id_char :: "char \<Rightarrow> bool" where
  "id_char c \<longleftrightarrow> id_alnum c \<or> c = CHR ''.'' \<or> c = CHR ''_'' \<or> c = CHR '':'' \<or> c = CHR ''-''"

text \<open>\<open>ID_PATTERN.fullmatch(value)\<close>: one alphanumeric, then up to 199 of \<open>[A-Za-z0-9._:-]\<close>.\<close>

definition is_valid_id :: "string \<Rightarrow> bool" where
  "is_valid_id value =
     (case value of [] \<Rightarrow> False
      | c # cs \<Rightarrow> id_alnum c \<and> list_all id_char cs \<and> length cs \<le> 199)"

definition PREFIXES :: "(string \<times> string) list" where
  "PREFIXES =
    [(''thread'', ''thr''), (''session'', ''ses''), (''turn'', ''trn''), (''message'', ''msg''),
     (''attachment'', ''att''), (''agent_run'', ''run''), (''observation'', ''obs''),
     (''memory'', ''mem''), (''tool'', ''tol''), (''tool_invocation'', ''tiv''),
     (''procedure'', ''prc''), (''pull'', ''pul''), (''evidence'', ''evd''),
     (''document'', ''doc''), (''document_version'', ''dcv''), (''node'', ''nod''),
     (''chunk'', ''chk''), (''entity'', ''ent''), (''relation'', ''rel''), (''job'', ''job''),
     (''segment'', ''seg''), (''manifest'', ''man''), (''request'', ''req''), (''work'', ''wrk''),
     (''task'', ''tsk''), (''import'', ''imp''), (''summary'', ''sum''), (''tenant'', ''tnt''),
     (''workspace'', ''wsp''), (''feedback'', ''fb'')]"

definition new_id :: "string \<Rightarrow> string \<Rightarrow> service_error + string" where
  "new_id ulid kind =
     (case map_of PREFIXES kind of None \<Rightarrow> Inl ValueError
      | Some prefix \<Rightarrow> Inr (prefix @ ''_'' @ ulid))"

text \<open>\<open>stable_key(*parts)\<close> joins the parts with U+001F and hashes the result.\<close>

definition stable_key :: "(string \<Rightarrow> string) \<Rightarrow> string list \<Rightarrow> string" where
  "stable_key blake2b parts = blake2b (py_join [CHR 0x1F] parts)"

definition thread_session_id :: "(string \<Rightarrow> string) \<Rightarrow> string \<Rightarrow> string \<Rightarrow> string" where
  "thread_session_id blake2b tenant_id thread_id =
     ''ses'' @ ''_'' @ stable_key blake2b [tenant_id, thread_id]"

definition thread_turn_id :: "(string \<Rightarrow> string) \<Rightarrow> string \<Rightarrow> string \<Rightarrow> nat \<Rightarrow> string" where
  "thread_turn_id blake2b tenant_id thread_id sequence =
     ''trn'' @ ''_'' @ stable_key blake2b [tenant_id, thread_id, show_nat sequence]"

subsection \<open>What validity excludes\<close>

lemma valid_id_nonempty: "is_valid_id v \<Longrightarrow> v \<noteq> []"
  by (auto simp: is_valid_id_def)

lemma valid_id_truthy [simp]: "is_valid_id v \<Longrightarrow> truthy (Some v)"
  by (simp add: valid_id_nonempty)

lemma valid_id_chars: "is_valid_id v \<Longrightarrow> c \<in> set v \<Longrightarrow> id_char c"
  by (auto simp: is_valid_id_def list_all_iff id_char_def split: list.splits)

lemma id_char_slash [simp]: "\<not> id_char (CHR ''/'')"
  by (simp add: id_char_def id_alnum_def)

lemma id_char_hash [simp]: "\<not> id_char (CHR ''#'')"
  by (simp add: id_char_def id_alnum_def)

lemma id_char_sep [simp]: "\<not> id_char (CHR 0x1F)"
  by (simp add: id_char_def id_alnum_def)

lemma valid_id_no_slash [simp]: "is_valid_id v \<Longrightarrow> CHR ''/'' \<notin> set v"
  using valid_id_chars id_char_slash by blast

lemma valid_id_no_hash [simp]: "is_valid_id v \<Longrightarrow> CHR ''#'' \<notin> set v"
  using valid_id_chars id_char_hash by blast

lemma valid_id_no_sep: "is_valid_id v \<Longrightarrow> CHR 0x1F \<notin> set v"
  using valid_id_chars id_char_sep by blast

lemma id_char_comma [simp]: "\<not> id_char (CHR '','')"
  by (simp add: id_char_def id_alnum_def)

lemma valid_id_no_comma: "is_valid_id v \<Longrightarrow> CHR '','' \<notin> set v"
  using valid_id_chars id_char_comma by blast

lemma valid_id_length: "is_valid_id v \<Longrightarrow> 1 \<le> length v \<and> length v \<le> 200"
  by (auto simp: is_valid_id_def split: list.splits)

text \<open>Joining valid ids (or empty placeholders) with U+001F loses nothing.\<close>

lemma py_join_sep_inject:
  assumes "length xs = length ys"
    and "\<And>x. x \<in> set xs \<union> set ys \<Longrightarrow> (c::char) \<notin> set x"
    and "py_join [c] xs = py_join [c] ys"
  shows "xs = ys"
  using assms
proof (induction xs ys rule: list_induct2)
  case Nil
  then show ?case by simp
next
  case (Cons x xs y ys)
  show ?case
  proof (cases xs)
    case Nil
    with Cons show ?thesis by simp
  next
    case (Cons a as)
    then obtain b bs where ys: "ys = b # bs" using Cons.hyps by (cases ys) auto
    have "x @ c # py_join [c] xs = y @ c # py_join [c] ys"
      using Cons.prems(2) Cons ys by simp
    then have "x = y \<and> py_join [c] xs = py_join [c] ys"
      using Cons.prems(1) by (simp add: sep_inject)
    then show ?thesis using Cons.IH Cons.prems(1) by auto
  qed
qed

lemma PREFIXES_alpha: "map_of PREFIXES k = Some p \<Longrightarrow> list_all id_alnum p \<and> p \<noteq> [] \<and> length p \<le> 3"
proof -
  have "list_all (\<lambda>(_, p). list_all id_alnum p \<and> p \<noteq> [] \<and> length p \<le> 3) PREFIXES"
    by (simp add: PREFIXES_def id_alnum_def)
  then show "map_of PREFIXES k = Some p \<Longrightarrow> ?thesis"
    by (auto dest!: map_of_SomeD simp: list_all_iff)
qed

text \<open>A generated id is itself an accepted id, given that a ULID is 26 alphanumerics.\<close>

lemma new_id_valid:
  assumes "new_id ulid kind = Inr v" and "list_all id_alnum ulid" and "length ulid = 26"
  shows "is_valid_id v"
proof -
  obtain p where p: "map_of PREFIXES kind = Some p" and v: "v = p @ ''_'' @ ulid"
    using assms(1) by (auto simp: new_id_def split: option.splits)
  obtain c cs where "p = c # cs" using PREFIXES_alpha [OF p] by (cases p) auto
  then show ?thesis
    using PREFIXES_alpha [OF p] v assms(2,3)
    by (auto simp: is_valid_id_def list_all_iff id_char_def)
qed

end
