(* ===== verification/Exec_Context.thy ===== *)
theory Exec_Context
  imports Ids
begin

text \<open>
  The per-request execution context (\<open>domain/context.py\<close>): its fields, the validators pydantic
  runs when one is built, the acting principal derived from it, the lineage a stored row copies,
  and the digest that keys every sensitive cache entry.
\<close>

record exec_context =
  ctx_tenant_id :: string
  ctx_workspace_id :: "string option"
  ctx_user_id :: "string option"
  ctx_thread_id :: "string option"
  ctx_session_id :: "string option"
  ctx_turn_id :: "string option"
  ctx_work_id :: "string option"
  ctx_task_id :: "string option"
  ctx_agent_id :: "string option"
  ctx_agent_group_id :: "string option"
  ctx_agent_run_id :: "string option"
  ctx_parent_agent_run_id :: "string option"
  ctx_request_id :: string
  ctx_correlation_id :: string
  ctx_causation_id :: "string option"
  ctx_trace_id :: string
  ctx_custom_metadata :: "(string \<times> string) list"

definition SECURITY_FIELDS :: "string list" where
  "SECURITY_FIELDS = [''tenant_id'', ''workspace_id'', ''user_id'', ''principal_id'', ''principal_type'']"

definition LINEAGE_FIELDS :: "string list" where
  "LINEAGE_FIELDS = [''thread_id'', ''session_id'', ''turn_id'', ''work_id'', ''task_id'',
     ''agent_id'', ''agent_group_id'', ''agent_run_id'', ''parent_agent_run_id'']"

definition CORRELATION_FIELDS :: "string list" where
  "CORRELATION_FIELDS = [''request_id'', ''correlation_id'', ''causation_id'', ''trace_id'']"

definition RESERVED_METADATA_KEYS :: "string list" where
  "RESERVED_METADATA_KEYS = SECURITY_FIELDS @ LINEAGE_FIELDS @ CORRELATION_FIELDS"

definition validate_optional_id :: "string option \<Rightarrow> bool" where
  "validate_optional_id value = (case value of None \<Rightarrow> True | Some v \<Rightarrow> is_valid_id v)"

definition ids_are_valid :: "exec_context \<Rightarrow> bool" where
  "ids_are_valid c \<longleftrightarrow>
     is_valid_id (ctx_tenant_id c) \<and> is_valid_id (ctx_request_id c) \<and>
     is_valid_id (ctx_correlation_id c) \<and> is_valid_id (ctx_trace_id c) \<and>
     list_all validate_optional_id
       [ctx_workspace_id c, ctx_user_id c, ctx_thread_id c, ctx_session_id c, ctx_turn_id c,
        ctx_work_id c, ctx_task_id c, ctx_agent_id c, ctx_agent_group_id c, ctx_agent_run_id c,
        ctx_parent_agent_run_id c, ctx_causation_id c]"

definition metadata_cannot_override_security :: "exec_context \<Rightarrow> bool" where
  "metadata_cannot_override_security c \<longleftrightarrow>
     (\<forall>k \<in> set (map fst (ctx_custom_metadata c)). k \<notin> set RESERVED_METADATA_KEYS) \<and>
     (ctx_agent_run_id c \<noteq> None \<longrightarrow> ctx_agent_id c \<noteq> None) \<and>
     (ctx_session_id c \<noteq> None \<longrightarrow> ctx_thread_id c \<noteq> None) \<and>
     (ctx_turn_id c \<noteq> None \<longrightarrow> ctx_session_id c \<noteq> None)"

definition valid_context :: "exec_context \<Rightarrow> bool" where
  "valid_context c \<longleftrightarrow> ids_are_valid c \<and> metadata_cannot_override_security c"

text \<open>Building the model: pydantic's \<open>ValidationError\<close> is a \<open>ValueError\<close>.\<close>

definition build :: "exec_context \<Rightarrow> service_error + exec_context" where
  "build c = (if valid_context c then Inr c else Inl ValueError)"

definition is_agent :: "exec_context \<Rightarrow> bool" where
  "is_agent c \<longleftrightarrow> ctx_agent_id c \<noteq> None"

definition principal_id :: "exec_context \<Rightarrow> string" where
  "principal_id c =
     (case ctx_agent_id c of
        Some a \<Rightarrow> (case ctx_user_id c of
            Some u \<Rightarrow> ''agent:'' @ u @ ''/'' @ a
          | None \<Rightarrow> ''agent:'' @ a)
      | None \<Rightarrow> (case ctx_user_id c of
            Some u \<Rightarrow> ''user:'' @ u
          | None \<Rightarrow> ''service:anonymous''))"

definition PROVENANCE_FIELDS :: "string list" where
  "PROVENANCE_FIELDS =
     [''tenant_id'', ''workspace_id'', ''user_id'', ''thread_id'', ''session_id'', ''turn_id'',
      ''work_id'', ''task_id'', ''agent_id'', ''agent_group_id'', ''agent_run_id'',
      ''parent_agent_run_id'', ''principal_id'', ''trace_id'']"

text \<open>\<open>getattr(self, name)\<close> for the names the context answers to.\<close>

definition ctx_getattr :: "exec_context \<Rightarrow> string \<Rightarrow> string option" where
  "ctx_getattr c name = Option.bind
     (map_of
       [(''tenant_id'', Some (ctx_tenant_id c)), (''workspace_id'', ctx_workspace_id c),
        (''user_id'', ctx_user_id c), (''thread_id'', ctx_thread_id c),
        (''session_id'', ctx_session_id c), (''turn_id'', ctx_turn_id c),
        (''work_id'', ctx_work_id c), (''task_id'', ctx_task_id c),
        (''agent_id'', ctx_agent_id c), (''agent_group_id'', ctx_agent_group_id c),
        (''agent_run_id'', ctx_agent_run_id c),
        (''parent_agent_run_id'', ctx_parent_agent_run_id c),
        (''principal_id'', Some (principal_id c)), (''trace_id'', Some (ctx_trace_id c)),
        (''request_id'', Some (ctx_request_id c)),
        (''correlation_id'', Some (ctx_correlation_id c))] name) id"

definition provenance :: "exec_context \<Rightarrow> (string \<times> string option) list" where
  "provenance c = map (\<lambda>name. (name, ctx_getattr c name)) PROVENANCE_FIELDS"

text \<open>
  \<open>child_agent\<close> copies the context (\<open>model_copy\<close> runs no validator); \<open>fresh_run\<close> and
  \<open>fresh_request\<close> are the two ids \<open>new_id\<close> generates.
\<close>

definition child_agent ::
    "string \<Rightarrow> string \<Rightarrow> exec_context \<Rightarrow> string \<Rightarrow> string option \<Rightarrow> string option \<Rightarrow> string option \<Rightarrow>
     (string \<times> string) list \<Rightarrow> exec_context" where
  "child_agent fresh_run fresh_request c agent_id agent_run_id agent_group_id task_id metadata =
     c\<lparr> ctx_agent_id := Some agent_id,
        ctx_agent_group_id := por agent_group_id (ctx_agent_group_id c),
        ctx_agent_run_id := por agent_run_id (Some fresh_run),
        ctx_parent_agent_run_id := ctx_agent_run_id c,
        ctx_task_id := por task_id (ctx_task_id c),
        ctx_request_id := fresh_request,
        ctx_causation_id := Some (ctx_request_id c),
        ctx_custom_metadata :=
          fold (\<lambda>(k, v) m. assoc_put k v m) metadata (ctx_custom_metadata c) \<rparr>"

definition scope_parts :: "exec_context \<Rightarrow> string list" where
  "scope_parts c =
     [ctx_tenant_id c, or_empty (ctx_workspace_id c), or_empty (ctx_user_id c),
      or_empty (ctx_agent_id c), or_empty (ctx_agent_group_id c), or_empty (ctx_agent_run_id c),
      or_empty (ctx_parent_agent_run_id c)]"

definition scope_fingerprint :: "(string \<Rightarrow> string) \<Rightarrow> exec_context \<Rightarrow> string" where
  "scope_fingerprint blake2b c = stable_key blake2b (scope_parts c)"

definition log_fields :: "exec_context \<Rightarrow> (string \<times> string) list" where
  "log_fields c =
     [(''tenant_id'', ctx_tenant_id c), (''trace_id'', ctx_trace_id c)] @
     concat (map (\<lambda>name. case ctx_getattr c name of
                 Some v \<Rightarrow> (if v = [] then [] else [(name, v)]) | None \<Rightarrow> [])
       [''thread_id'', ''session_id'', ''turn_id'', ''agent_run_id'', ''request_id'',
        ''correlation_id''])"

subsection \<open>Validity facts\<close>

lemma validate_optional_id_simps [simp]:
  "validate_optional_id None" "validate_optional_id (Some v) = is_valid_id v"
  by (simp_all add: validate_optional_id_def)

lemma valid_context_ids [simp]:
  assumes "valid_context c"
  shows "is_valid_id (ctx_tenant_id c)" and "validate_optional_id (ctx_user_id c)"
    and "validate_optional_id (ctx_agent_id c)" and "validate_optional_id (ctx_workspace_id c)"
    and "validate_optional_id (ctx_thread_id c)" and "validate_optional_id (ctx_agent_group_id c)"
    and "validate_optional_id (ctx_agent_run_id c)"
    and "validate_optional_id (ctx_parent_agent_run_id c)"
  using assms by (simp_all add: valid_context_def ids_are_valid_def)

lemma valid_context_run_agent: "valid_context c \<Longrightarrow> ctx_agent_run_id c \<noteq> None \<Longrightarrow> is_agent c"
  by (auto simp: valid_context_def metadata_cannot_override_security_def is_agent_def)

lemma validate_optional_id_iff:
  "validate_optional_id x \<longleftrightarrow> (\<forall>v. x = Some v \<longrightarrow> is_valid_id v)"
  by (cases x) (auto simp: validate_optional_id_def)

lemma optional_id_no_slash: "validate_optional_id x \<Longrightarrow> x = Some v \<Longrightarrow> CHR ''/'' \<notin> set v"
  by simp

lemma or_empty_no_sep: "validate_optional_id x \<Longrightarrow> CHR 0x1F \<notin> set (or_empty x)"
  by (cases x) (simp_all add: valid_id_no_sep)

lemma or_empty_inject:
  "validate_optional_id x \<Longrightarrow> validate_optional_id y \<Longrightarrow> or_empty x = or_empty y \<longleftrightarrow> x = y"
  by (cases x; cases y) (auto dest: valid_id_nonempty)

subsection \<open>Identity\<close>

text \<open>The three forms of a principal never collide: an agent's id holds no slash.\<close>

definition principal_of :: "string option \<Rightarrow> string option \<Rightarrow> string" where
  "principal_of a u =
     (case a of
        Some x \<Rightarrow> (case u of Some y \<Rightarrow> ''agent:'' @ y @ ''/'' @ x | None \<Rightarrow> ''agent:'' @ x)
      | None \<Rightarrow> (case u of Some y \<Rightarrow> ''user:'' @ y | None \<Rightarrow> ''service:anonymous''))"

lemma principal_id_eq: "principal_id c = principal_of (ctx_agent_id c) (ctx_user_id c)"
  by (simp add: principal_id_def principal_of_def)

lemma append_slash_neq: "CHR ''/'' \<notin> set z \<Longrightarrow> x @ CHR ''/'' # y \<noteq> z"
  by auto

lemma principal_of_inject:
  assumes "\<forall>x. a = Some x \<longrightarrow> CHR ''/'' \<notin> set x" "\<forall>x. a' = Some x \<longrightarrow> CHR ''/'' \<notin> set x"
    and "\<forall>x. u = Some x \<longrightarrow> CHR ''/'' \<notin> set x" "\<forall>x. u' = Some x \<longrightarrow> CHR ''/'' \<notin> set x"
  shows "principal_of a u = principal_of a' u' \<longleftrightarrow> a = a' \<and> u = u'"
  using assms unfolding principal_of_def
  by (cases a; cases u; cases a'; cases u')
    (simp_all add: sep_inject append_slash_neq append_slash_neq [symmetric], auto)

lemma principal_id_inject_ids:
  assumes "valid_context c" and "valid_context d"
  shows "principal_id c = principal_id d \<longleftrightarrow>
    ctx_agent_id c = ctx_agent_id d \<and> ctx_user_id c = ctx_user_id d"
  unfolding principal_id_eq using assms
  by (intro principal_of_inject) (auto dest: optional_id_no_slash [rotated])

lemma scope_parts_no_sep:
  "valid_context c \<Longrightarrow> x \<in> set (scope_parts c) \<Longrightarrow> CHR 0x1F \<notin> set x"
  by (auto simp: scope_parts_def or_empty_no_sep valid_id_no_sep)

lemma scope_parts_inject:
  assumes "valid_context c" and "valid_context d" and "scope_parts c = scope_parts d"
  shows "ctx_tenant_id c = ctx_tenant_id d \<and> ctx_workspace_id c = ctx_workspace_id d \<and>
    ctx_user_id c = ctx_user_id d \<and> ctx_agent_id c = ctx_agent_id d \<and>
    ctx_agent_group_id c = ctx_agent_group_id d \<and> ctx_agent_run_id c = ctx_agent_run_id d \<and>
    ctx_parent_agent_run_id c = ctx_parent_agent_run_id d"
  using assms by (simp add: scope_parts_def or_empty_inject)

lemma stable_key_inject:
  assumes "inj blake2b" and "length xs = length ys"
    and "\<And>x. x \<in> set xs \<union> set ys \<Longrightarrow> CHR 0x1F \<notin> set x"
    and "stable_key blake2b xs = stable_key blake2b ys"
  shows "xs = ys"
  using assms by (auto simp: stable_key_def dest!: injD intro: py_join_sep_inject)

lemma scope_fingerprint_inject:
  assumes "inj blake2b" and "valid_context c" and "valid_context d"
    and "scope_fingerprint blake2b c = scope_fingerprint blake2b d"
  shows "scope_parts c = scope_parts d"
proof (rule stable_key_inject [OF assms(1)])
  show "length (scope_parts c) = length (scope_parts d)" by (simp add: scope_parts_def)
  show "stable_key blake2b (scope_parts c) = stable_key blake2b (scope_parts d)"
    using assms(4) by (simp add: scope_fingerprint_def)
qed (use assms(2,3) scope_parts_no_sep in auto)

subsection \<open>Children\<close>

lemma por_valid:
  "validate_optional_id x \<Longrightarrow> validate_optional_id y \<Longrightarrow> validate_optional_id (por x y)"
  by (simp add: por_def)

lemma child_agent_valid:
  assumes "valid_context c" and "is_valid_id agent_id" and "is_valid_id fresh_run"
    and "is_valid_id fresh_request" and "validate_optional_id agent_run_id"
    and "validate_optional_id grp" and "validate_optional_id task"
    and "\<forall>k \<in> fst ` set metadata. k \<notin> set RESERVED_METADATA_KEYS"
  shows "valid_context
    (child_agent fresh_run fresh_request c agent_id agent_run_id grp task metadata)"
proof -
  let ?d = "child_agent fresh_run fresh_request c agent_id agent_run_id grp task metadata"
  from assms(1) have c: "ids_are_valid c" "metadata_cannot_override_security c"
    by (simp_all add: valid_context_def)
  have "ids_are_valid ?d"
    using c(1) assms(2-7) unfolding ids_are_valid_def child_agent_def
    by (simp add: por_valid del: por_simps)
  moreover have "metadata_cannot_override_security ?d"
    using c(2) assms(8)
    by (auto simp: metadata_cannot_override_security_def child_agent_def fold_assoc_put_keys)
  ultimately show ?thesis by (simp add: valid_context_def)
qed

subsection \<open>A concrete context\<close>

text \<open>A request of tenant \<open>acme\<close>, used to evaluate the development at a concrete input.\<close>

definition demo_context :: "string \<Rightarrow> string option \<Rightarrow> exec_context" where
  "demo_context user agent =
     \<lparr> ctx_tenant_id = ''acme'', ctx_workspace_id = None, ctx_user_id = Some user,
       ctx_thread_id = None, ctx_session_id = None, ctx_turn_id = None, ctx_work_id = None,
       ctx_task_id = None, ctx_agent_id = agent, ctx_agent_group_id = None,
       ctx_agent_run_id = None, ctx_parent_agent_run_id = None, ctx_request_id = ''req_1'',
       ctx_correlation_id = ''req_1'', ctx_causation_id = None, ctx_trace_id = ''trace1'',
       ctx_custom_metadata = [] \<rparr>"

end
