(* ===== verification/Tenancy_Domain.thy ===== *)
theory Tenancy_Domain
  imports Exec_Context
begin

text \<open>
  The platform's own records (\<open>domain/tenancy.py\<close>): tenants, workspaces, API keys, who a key may
  act for, and the token a caller presents. The random choices of \<open>mint_token\<close> and the SHA-256
  of \<open>content_hash\<close> are library code and are parameters.
\<close>

definition KEY_PREFIX :: string where "KEY_PREFIX = ''mk''"
definition KEY_ID_LENGTH :: nat where "KEY_ID_LENGTH = 16"
definition MAX_KEYS_PER_TENANT :: nat where "MAX_KEYS_PER_TENANT = 1000"
definition PRINCIPAL_KINDS :: "string list" where "PRINCIPAL_KINDS = [''user'', ''agent'']"
definition ANY_PRINCIPAL :: string where "ANY_PRINCIPAL = ''*''"
definition MAY_ACT_AS_MAX :: nat where "MAY_ACT_AS_MAX = 100"
definition PLATFORM_SCOPE :: string where "PLATFORM_SCOPE = ''platform''"
definition RESERVED_TENANT_IDS :: "string list" where "RESERVED_TENANT_IDS = [PLATFORM_SCOPE]"

datatype MemberRole = M_admin | M_member | M_viewer

fun role_name :: "MemberRole \<Rightarrow> string" where
  "role_name M_admin = ''admin''"
| "role_name M_member = ''member''"
| "role_name M_viewer = ''viewer''"

datatype TenantStatus = T_active | T_suspended

datatype KeyRole = K_PLATFORM | K_ADMIN | K_SERVICE

definition key_id_char :: "char \<Rightarrow> bool" where
  "key_id_char c \<longleftrightarrow> (let n = of_char c :: nat in (97 \<le> n \<and> n \<le> 122) \<or> (48 \<le> n \<and> n \<le> 57))"

text \<open>\<open>_KEY_ID.fullmatch\<close>: sixteen lower-case letters or digits.\<close>

definition is_key_id :: "string \<Rightarrow> bool" where
  "is_key_id s \<longleftrightarrow> length s = KEY_ID_LENGTH \<and> list_all key_id_char s"

record Tenant =
  tn_tenant_id :: string
  tn_name :: string
  tn_status :: TenantStatus
  tn_retention_days :: "nat option"
  tn_rate_limit :: "nat option"
  tn_admission_gate :: bool
  tn_created_at :: instant
  tn_updated_at :: instant

record ApiKey =
  ak_key_id :: string
  ak_tenant_id :: string
  ak_role :: KeyRole
  ak_name :: string
  ak_workspace_id :: "string option"
  ak_secret_hash :: string
  ak_created_by :: string
  ak_created_at :: instant
  ak_expires_at :: "instant option"
  ak_revoked_at :: "instant option"
  ak_last_used_at :: "instant option"
  ak_may_act_as :: "string list"

definition key_principal :: "ApiKey \<Rightarrow> string" where
  "key_principal k = ''key:'' @ ak_key_id k"

definition usable_at :: "ApiKey \<Rightarrow> instant \<Rightarrow> bool" where
  "usable_at k now \<longleftrightarrow> ak_revoked_at k = None \<and>
     (case ak_expires_at k of None \<Rightarrow> True | Some e \<Rightarrow> now < e)"

record Workspace =
  ws_workspace_id :: string
  ws_tenant_id :: string
  ws_name :: string
  ws_created_at :: instant
  ws_deleted_at :: "instant option"

record WorkspaceMember =
  wm_tenant_id :: string
  wm_workspace_id :: string
  wm_principal :: string
  wm_role :: MemberRole
  wm_added_by :: string
  wm_added_at :: instant

definition is_valid_tenant_id :: "string \<Rightarrow> bool" where
  "is_valid_tenant_id v \<longleftrightarrow>
     is_valid_id v \<and> CHR '':'' \<notin> set v \<and> v \<notin> set RESERVED_TENANT_IDS"

definition parse_principal :: "string \<Rightarrow> service_error + (string \<times> string)" where
  "parse_principal p =
     (case py_partition (CHR '':'') p of (kind, sep, ident) \<Rightarrow>
        if \<not> sep \<or> kind \<notin> set PRINCIPAL_KINDS \<or> \<not> is_valid_id ident then Inl ValueError
        else Inr (kind, ident))"

definition acting_principals :: "string list \<Rightarrow> service_error + string list" where
  "acting_principals values =
     (if length values > MAY_ACT_AS_MAX then Inl ValueError
      else if list_ex (\<lambda>p. p \<noteq> ANY_PRINCIPAL \<and> parse_principal p = Inl ValueError) values
        then Inl ValueError
      else Inr (fromkeys values))"

subsection \<open>Tokens\<close>

definition secret_matches :: "(string \<Rightarrow> string) \<Rightarrow> string \<Rightarrow> string \<Rightarrow> bool" where
  "secret_matches content_hash secret secret_hash \<longleftrightarrow> content_hash secret = secret_hash"

definition mint_token :: "(string \<Rightarrow> string) \<Rightarrow> string \<Rightarrow> string \<Rightarrow> string \<times> string \<times> string" where
  "mint_token content_hash key_id secret =
     (key_id, KEY_PREFIX @ ''_'' @ key_id @ ''.'' @ secret, content_hash secret)"

definition py_space :: "char \<Rightarrow> bool" where
  "py_space c \<longleftrightarrow> (let n = of_char c :: nat in (9 \<le> n \<and> n \<le> 13) \<or> (28 \<le> n \<and> n \<le> 32) \<or> n = 133 \<or> n = 160)"

definition strip :: "string \<Rightarrow> string" where
  "strip s = rev (dropWhile py_space (rev (dropWhile py_space s)))"

definition lower_char :: "char \<Rightarrow> char" where
  "lower_char c = (let n = of_char c :: nat in if 65 \<le> n \<and> n \<le> 90 then char_of (n + 32) else c)"

definition bare_credential :: "string \<Rightarrow> string" where
  "bare_credential credential =
     (case py_partition (CHR '' '') credential of (scheme, _, rest) \<Rightarrow>
        if map lower_char scheme = ''bearer'' then strip rest else credential)"

definition parse_token :: "string \<Rightarrow> (string \<times> string) option" where
  "parse_token token =
     (case py_partition (CHR ''_'') token of (prefix, sep, rest) \<Rightarrow>
        if \<not> sep \<or> prefix \<noteq> KEY_PREFIX then None
        else case py_partition (CHR ''.'') rest of (key_id, sep2, secret) \<Rightarrow>
          if \<not> sep2 \<or> \<not> is_key_id key_id \<or> secret = [] then None else Some (key_id, secret))"

subsection \<open>Facts\<close>

lemma parse_principal_iff:
  "parse_principal p = Inr (kind, ident) \<longleftrightarrow>
     kind \<in> set PRINCIPAL_KINDS \<and> is_valid_id ident \<and> p = kind @ '':'' @ ident"
proof
  assume p: "parse_principal p = Inr (kind, ident)"
  then have "py_partition (CHR '':'') p = (kind, True, ident)"
    by (auto simp: parse_principal_def split: prod.splits if_splits)
  from partition_found [OF this] p show "kind \<in> set PRINCIPAL_KINDS \<and> is_valid_id ident \<and> p = kind @ '':'' @ ident"
    by (auto simp: parse_principal_def split: prod.splits if_splits)
next
  assume a: "kind \<in> set PRINCIPAL_KINDS \<and> is_valid_id ident \<and> p = kind @ '':'' @ ident"
  then have "CHR '':'' \<notin> set kind" by (auto simp: PRINCIPAL_KINDS_def)
  with a show "parse_principal p = Inr (kind, ident)"
    by (simp add: parse_principal_def partition_sep)
qed

lemma parse_principal_error: "parse_principal p = Inl e \<Longrightarrow> e = ValueError"
  by (auto simp: parse_principal_def split: prod.splits if_splits)

lemma acting_principals_error: "acting_principals ps = Inl e \<Longrightarrow> e = ValueError"
  by (auto simp: acting_principals_def split: if_splits)

lemma acting_principals_ok:
  assumes "acting_principals ps = Inr qs"
  shows "set qs = set ps" and "distinct qs" and "length qs \<le> MAY_ACT_AS_MAX"
    and "\<And>p. p \<in> set qs \<Longrightarrow> p = ANY_PRINCIPAL \<or> (\<exists>r. parse_principal p = Inr r)"
proof -
  have qs: "qs = fromkeys ps" and len: "length ps \<le> MAY_ACT_AS_MAX"
    and all: "\<not> list_ex (\<lambda>p. p \<noteq> ANY_PRINCIPAL \<and> parse_principal p = Inl ValueError) ps"
    using assms by (auto simp: acting_principals_def split: if_splits)
  show "set qs = set ps" "distinct qs" by (simp_all add: qs)
  have "length qs = card (set ps)" by (metis qs distinct_fromkeys set_fromkeys distinct_card)
  also have "\<dots> \<le> length ps" by (rule card_length)
  finally show "length qs \<le> MAY_ACT_AS_MAX" using len by simp
  fix p assume p: "p \<in> set qs"
  show "p = ANY_PRINCIPAL \<or> (\<exists>r. parse_principal p = Inr r)"
  proof (cases "parse_principal p")
    case (Inl e)
    then show ?thesis using all p qs parse_principal_error [OF Inl] by (auto simp: list_ex_iff)
  qed auto
qed

lemma key_id_no_dot: "is_key_id k \<Longrightarrow> CHR ''.'' \<notin> set k"
  by (auto simp: is_key_id_def list_all_iff key_id_char_def Let_def)

lemma parse_minted:
  assumes "is_key_id key_id" and "secret \<noteq> []"
  shows "parse_token (KEY_PREFIX @ ''_'' @ key_id @ ''.'' @ secret) = Some (key_id, secret)"
proof -
  have "py_partition (CHR ''_'') (''mk'' @ CHR ''_'' # (key_id @ CHR ''.'' # secret)) =
      (''mk'', True, key_id @ CHR ''.'' # secret)"
    by (rule partition_sep) simp
  moreover have "py_partition (CHR ''.'') (key_id @ CHR ''.'' # secret) = (key_id, True, secret)"
    by (rule partition_sep [OF key_id_no_dot [OF assms(1)]])
  ultimately show ?thesis using assms by (simp add: parse_token_def KEY_PREFIX_def)
qed

text \<open>C31: minting and parsing are inverse. A minted token parses to its key id and secret, and
  every token that parses is the minted spelling of what it parses to, so no other string
  names a key.\<close>

theorem token_roundtrip:
  "parse_token token = Some (key_id, secret) \<longleftrightarrow>
     is_key_id key_id \<and> secret \<noteq> [] \<and> token = fst (snd (mint_token content_hash key_id secret))"
  (is "?l = ?r")
proof
  assume ?r
  then show ?l using parse_minted by (simp add: mint_token_def)
next
  assume l: ?l
  obtain prefix sep rest where p: "py_partition (CHR ''_'') token = (prefix, sep, rest)"
    by (cases "py_partition (CHR ''_'') token")
  obtain k sep2 s where q: "py_partition (CHR ''.'') rest = (k, sep2, s)"
    by (cases "py_partition (CHR ''.'') rest")
  have "sep" "prefix = ''mk''" "sep2" "is_key_id k" "s \<noteq> []" "k = key_id" "s = secret"
    using l p q by (auto simp: parse_token_def KEY_PREFIX_def split: if_splits)
  moreover have "token = ''mk'' @ CHR ''_'' # rest" "rest = key_id @ CHR ''.'' # secret"
    using calculation p q partition_found [of "CHR ''_''" token "''mk''" rest]
      partition_found [of "CHR ''.''" rest key_id secret] by simp_all
  ultimately show ?r by (simp add: mint_token_def KEY_PREFIX_def)
qed

end
