(* ===== verification/Tenancy_Store.thy ===== *)
theory Tenancy_Store
  imports Tenancy_Domain "HOL-Library.Product_Lexorder"
begin

text \<open>
  The platform's tables (\<open>adapters/db/tenancy_repository.py\<close>): tenants, API keys, workspaces and
  their members. A table is the list of its rows, in no particular order, with the primary key
  unique; a query is a filter, a sort by the query's order and a limit. \<open>func.now()\<close> is the
  argument \<open>now\<close>. An insert that meets an existing primary key is a \<open>Conflict\<close>; values a column
  cannot hold (the driver's \<open>DataError\<close>) are outside the model.
\<close>

record tenancy_db =
  db_tenants :: "Tenant list"
  db_keys :: "ApiKey list"
  db_workspaces :: "Workspace list"
  db_members :: "WorkspaceMember list"

definition already_exists :: service_error where
  "already_exists = Conflict ''already exists'' False"

subsection \<open>Tenants\<close>

definition tenants_get :: "tenancy_db \<Rightarrow> string \<Rightarrow> Tenant option" where
  "tenants_get db t = List.find (\<lambda>r. tn_tenant_id r = t) (db_tenants db)"

definition tenants_add :: "Tenant \<Rightarrow> tenancy_db \<Rightarrow> service_error + tenancy_db" where
  "tenants_add r db = (if tenants_get db (tn_tenant_id r) \<noteq> None then Inl already_exists
     else Inr (db\<lparr>db_tenants := db_tenants db @ [r]\<rparr>))"

definition tenants_list :: "tenancy_db \<Rightarrow> string \<Rightarrow> nat \<Rightarrow> Tenant list" where
  "tenants_list db after lim =
     take lim (sort_key tn_tenant_id (filter (\<lambda>r. after < tn_tenant_id r) (db_tenants db)))"

definition tenants_update :: "string \<Rightarrow> (Tenant \<Rightarrow> Tenant) \<Rightarrow> tenancy_db \<Rightarrow> tenancy_db" where
  "tenants_update t changes db =
     db\<lparr>db_tenants := map (\<lambda>r. if tn_tenant_id r = t then changes r else r) (db_tenants db)\<rparr>"

definition suspended_tenants :: "tenancy_db \<Rightarrow> string list" where
  "suspended_tenants db = map tn_tenant_id (filter (\<lambda>r. tn_status r = T_suspended) (db_tenants db))"

definition rate_limits :: "tenancy_db \<Rightarrow> (string \<times> nat) list" where
  "rate_limits db = List.map_filter (\<lambda>r. map_option (\<lambda>n. (tn_tenant_id r, n)) (tn_rate_limit r)) (db_tenants db)"

definition retention_policies :: "tenancy_db \<Rightarrow> (string \<times> nat) list" where
  "retention_policies db = List.map_filter (\<lambda>r. map_option (\<lambda>n. (tn_tenant_id r, n)) (tn_retention_days r))
     (filter (\<lambda>r. tn_status r = T_active) (db_tenants db))"

subsection \<open>API keys\<close>

definition keys_get :: "tenancy_db \<Rightarrow> string \<Rightarrow> ApiKey option" where
  "keys_get db k = List.find (\<lambda>r. ak_key_id r = k) (db_keys db)"

definition keys_add :: "ApiKey \<Rightarrow> tenancy_db \<Rightarrow> service_error + tenancy_db" where
  "keys_add r db = (if keys_get db (ak_key_id r) \<noteq> None then Inl already_exists
     else Inr (db\<lparr>db_keys := db_keys db @ [r]\<rparr>))"

definition key_order :: "ApiKey \<Rightarrow> instant \<times> string" where
  "key_order r = (ak_created_at r, ak_key_id r)"

definition keys_list :: "tenancy_db \<Rightarrow> string \<Rightarrow> (instant \<times> string) option \<Rightarrow> nat \<Rightarrow> ApiKey list" where
  "keys_list db t after lim =
     take lim (sort_key key_order (filter (\<lambda>r. ak_tenant_id r = t \<and>
       (case after of None \<Rightarrow> True | Some a \<Rightarrow> a < key_order r)) (db_keys db)))"

text \<open>The default page of \<open>list\<close>.\<close>

definition KEYS_LIST_LIMIT :: nat where "KEYS_LIST_LIMIT = 100"

definition keys_revoke :: "string \<Rightarrow> string \<Rightarrow> instant \<Rightarrow> tenancy_db \<Rightarrow> bool \<times> tenancy_db" where
  "keys_revoke t k at db =
     (let hit = (\<lambda>r. ak_key_id r = k \<and> ak_tenant_id r = t \<and> ak_revoked_at r = None) in
      (list_ex hit (db_keys db),
       db\<lparr>db_keys := map (\<lambda>r. if hit r then r\<lparr>ak_revoked_at := Some at\<rparr> else r) (db_keys db)\<rparr>))"

definition keys_set_may_act_as :: "string \<Rightarrow> string \<Rightarrow> string list \<Rightarrow> tenancy_db \<Rightarrow> ApiKey option \<times> tenancy_db" where
  "keys_set_may_act_as t k principals db =
     (let hit = (\<lambda>r. ak_key_id r = k \<and> ak_tenant_id r = t);
          keys = map (\<lambda>r. if hit r then r\<lparr>ak_may_act_as := principals\<rparr> else r) (db_keys db)
      in (List.find hit keys, db\<lparr>db_keys := keys\<rparr>))"

definition keys_touch :: "string \<Rightarrow> instant \<Rightarrow> tenancy_db \<Rightarrow> tenancy_db" where
  "keys_touch k at db =
     db\<lparr>db_keys := map (\<lambda>r. if ak_key_id r = k then r\<lparr>ak_last_used_at := Some at\<rparr> else r) (db_keys db)\<rparr>"

definition row_live :: "instant \<Rightarrow> ApiKey \<Rightarrow> bool" where
  "row_live now r \<longleftrightarrow> ak_revoked_at r = None \<and>
     (case ak_expires_at r of None \<Rightarrow> True | Some e \<Rightarrow> e > now)"

definition count_live :: "tenancy_db \<Rightarrow> instant \<Rightarrow> string \<Rightarrow> nat" where
  "count_live db now t = length (filter (\<lambda>r. ak_tenant_id r = t \<and> row_live now r) (db_keys db))"

definition key_tenants :: "tenancy_db \<Rightarrow> instant \<Rightarrow> string list \<Rightarrow> (string \<times> string) list" where
  "key_tenants db now ts = map (\<lambda>r. (ak_key_id r, ak_tenant_id r))
     (filter (\<lambda>r. ak_tenant_id r \<in> set ts \<and> row_live now r) (db_keys db))"

subsection \<open>Workspaces and members\<close>

definition ws_row :: "tenancy_db \<Rightarrow> string \<Rightarrow> string \<Rightarrow> Workspace option" where
  "ws_row db t w = List.find (\<lambda>r. ws_tenant_id r = t \<and> ws_workspace_id r = w) (db_workspaces db)"

definition ws_get :: "tenancy_db \<Rightarrow> string \<Rightarrow> string \<Rightarrow> Workspace option" where
  "ws_get db t w = (case ws_row db t w of None \<Rightarrow> None
     | Some r \<Rightarrow> if ws_deleted_at r = None then Some r else None)"

definition ws_ever_existed :: "tenancy_db \<Rightarrow> string \<Rightarrow> string \<Rightarrow> bool" where
  "ws_ever_existed db t w \<longleftrightarrow> ws_row db t w \<noteq> None"

definition ws_add :: "Workspace \<Rightarrow> tenancy_db \<Rightarrow> service_error + tenancy_db" where
  "ws_add r db = (if ws_row db (ws_tenant_id r) (ws_workspace_id r) \<noteq> None then Inl already_exists
     else Inr (db\<lparr>db_workspaces := db_workspaces db @ [r]\<rparr>))"

definition ws_list :: "tenancy_db \<Rightarrow> string \<Rightarrow> string \<Rightarrow> nat \<Rightarrow> Workspace list" where
  "ws_list db t after lim = take lim (sort_key ws_workspace_id
     (filter (\<lambda>r. ws_tenant_id r = t \<and> ws_deleted_at r = None \<and> after < ws_workspace_id r) (db_workspaces db)))"

definition ws_soft_delete :: "string \<Rightarrow> string \<Rightarrow> instant \<Rightarrow> tenancy_db \<Rightarrow> bool \<times> tenancy_db" where
  "ws_soft_delete t w at db =
     (let hit = (\<lambda>r. ws_tenant_id r = t \<and> ws_workspace_id r = w \<and> ws_deleted_at r = None) in
      (list_ex hit (db_workspaces db),
       db\<lparr>db_workspaces := map (\<lambda>r. if hit r then r\<lparr>ws_deleted_at := Some at\<rparr> else r) (db_workspaces db)\<rparr>))"

definition same_member :: "string \<Rightarrow> string \<Rightarrow> string \<Rightarrow> WorkspaceMember \<Rightarrow> bool" where
  "same_member t w p r \<longleftrightarrow> wm_tenant_id r = t \<and> wm_workspace_id r = w \<and> wm_principal r = p"

definition ws_put_member :: "WorkspaceMember \<Rightarrow> tenancy_db \<Rightarrow> MemberRole option \<times> tenancy_db" where
  "ws_put_member m db =
     (let hit = same_member (wm_tenant_id m) (wm_workspace_id m) (wm_principal m) in
      case List.find hit (db_members db) of
        None \<Rightarrow> (None, db\<lparr>db_members := db_members db @ [m]\<rparr>)
      | Some old \<Rightarrow> (Some (wm_role old), db\<lparr>db_members :=
          map (\<lambda>r. if hit r then r\<lparr>wm_role := wm_role m, wm_added_by := wm_added_by m, wm_added_at := wm_added_at m\<rparr> else r)
            (db_members db)\<rparr>))"

definition ws_remove_member :: "string \<Rightarrow> string \<Rightarrow> string \<Rightarrow> tenancy_db \<Rightarrow> bool \<times> tenancy_db" where
  "ws_remove_member t w p db =
     (list_ex (same_member t w p) (db_members db),
      db\<lparr>db_members := filter (\<lambda>r. \<not> same_member t w p r) (db_members db)\<rparr>)"

definition ws_members :: "tenancy_db \<Rightarrow> string \<Rightarrow> string \<Rightarrow> string \<Rightarrow> nat option \<Rightarrow> WorkspaceMember list" where
  "ws_members db t w after lim =
     (let rows = sort_key wm_principal (filter (\<lambda>r. wm_tenant_id r = t \<and> wm_workspace_id r = w \<and>
           after < wm_principal r) (db_members db))
      in case lim of None \<Rightarrow> rows | Some n \<Rightarrow> take n rows)"

subsection \<open>The invariant: primary keys\<close>

definition db_ok :: "tenancy_db \<Rightarrow> bool" where
  "db_ok db \<longleftrightarrow> distinct (map tn_tenant_id (db_tenants db)) \<and> distinct (map ak_key_id (db_keys db)) \<and>
     distinct (map (\<lambda>r. (ws_tenant_id r, ws_workspace_id r)) (db_workspaces db)) \<and>
     distinct (map (\<lambda>r. (wm_tenant_id r, wm_workspace_id r, wm_principal r)) (db_members db))"

lemma find_None_map: "List.find (\<lambda>r. f r = x) xs = None \<longleftrightarrow> x \<notin> f ` set xs"
  by (auto simp: find_None_iff)

lemma find_Some_distinct:
  "distinct (map f xs) \<Longrightarrow> List.find (\<lambda>r. f r = x) xs = Some r \<longleftrightarrow> r \<in> set xs \<and> f r = x"
  by (induction xs) force+

lemma keys_get_Some: "db_ok db \<Longrightarrow> keys_get db k = Some r \<longleftrightarrow> r \<in> set (db_keys db) \<and> ak_key_id r = k"
  by (simp add: keys_get_def db_ok_def find_Some_distinct)

lemma tenants_get_Some: "db_ok db \<Longrightarrow> tenants_get db t = Some r \<longleftrightarrow> r \<in> set (db_tenants db) \<and> tn_tenant_id r = t"
  by (simp add: tenants_get_def db_ok_def find_Some_distinct)

lemma key_ifs:
  "ak_key_id (if P then r\<lparr>ak_revoked_at := x\<rparr> else r) = ak_key_id r"
  "ak_key_id (if P then r\<lparr>ak_last_used_at := x\<rparr> else r) = ak_key_id r"
  "ak_key_id (if P then r\<lparr>ak_may_act_as := ps\<rparr> else r) = ak_key_id r"
  "ws_tenant_id (if P then w\<lparr>ws_deleted_at := x\<rparr> else w) = ws_tenant_id w"
  "ws_workspace_id (if P then w\<lparr>ws_deleted_at := x\<rparr> else w) = ws_workspace_id w"
  "wm_tenant_id (if P then m\<lparr>wm_role := a, wm_added_by := b, wm_added_at := c\<rparr> else m) = wm_tenant_id m"
  "wm_workspace_id (if P then m\<lparr>wm_role := a, wm_added_by := b, wm_added_at := c\<rparr> else m) = wm_workspace_id m"
  "wm_principal (if P then m\<lparr>wm_role := a, wm_added_by := b, wm_added_at := c\<rparr> else m) = wm_principal m"
  by simp_all

lemma update_keeps_key:
  assumes "\<And>r. tn_tenant_id (f r) = tn_tenant_id r"
  shows "map (tn_tenant_id \<circ> (\<lambda>r. if P r then f r else r)) rs = map tn_tenant_id rs"
  using assms by simp

lemma tenants_add_ok [inv_intros]: "db_ok db \<Longrightarrow> tenants_add r db = Inr db' \<Longrightarrow> db_ok db'"
  by (auto simp: tenants_add_def tenants_get_def db_ok_def find_None_map split: if_splits)

lemma keys_add_ok [inv_intros]: "db_ok db \<Longrightarrow> keys_add r db = Inr db' \<Longrightarrow> db_ok db'"
  by (auto simp: keys_add_def keys_get_def db_ok_def find_None_map split: if_splits)

lemma ws_add_ok [inv_intros]: "db_ok db \<Longrightarrow> ws_add r db = Inr db' \<Longrightarrow> db_ok db'"
  by (auto simp: ws_add_def ws_row_def db_ok_def find_None_iff split: if_splits; blast)

lemma tenants_update_ok [inv_intros]:
  "db_ok db \<Longrightarrow> (\<And>r. tn_tenant_id (f r) = tn_tenant_id r) \<Longrightarrow> db_ok (tenants_update t f db)"
  by (simp add: db_ok_def tenants_update_def update_keeps_key)

lemma keys_revoke_ok [inv_intros]: "db_ok db \<Longrightarrow> db_ok (snd (keys_revoke t k at db))"
  by (simp add: db_ok_def keys_revoke_def Let_def comp_def key_ifs)

lemma keys_touch_ok [inv_intros]: "db_ok db \<Longrightarrow> db_ok (keys_touch k at db)"
  by (simp add: db_ok_def keys_touch_def comp_def key_ifs)

lemma keys_set_ok [inv_intros]: "db_ok db \<Longrightarrow> db_ok (snd (keys_set_may_act_as t k ps db))"
  by (simp add: db_ok_def keys_set_may_act_as_def Let_def comp_def key_ifs)

lemma ws_soft_delete_ok [inv_intros]: "db_ok db \<Longrightarrow> db_ok (snd (ws_soft_delete t w at db))"
  by (simp add: db_ok_def ws_soft_delete_def Let_def comp_def key_ifs)

lemma ws_put_member_ok [inv_intros]: "db_ok db \<Longrightarrow> db_ok (snd (ws_put_member m db))"
  by (auto simp: db_ok_def ws_put_member_def Let_def comp_def same_member_def find_None_iff key_ifs
      split: option.split)

lemma ws_remove_member_ok [inv_intros]: "db_ok db \<Longrightarrow> db_ok (snd (ws_remove_member t w p db))"
  by (simp add: db_ok_def ws_remove_member_def distinct_map_filter)

subsection \<open>Pages\<close>

lemma set_keys_list: "r \<in> set (keys_list db t after lim) \<Longrightarrow> r \<in> set (db_keys db) \<and> ak_tenant_id r = t"
  by (auto simp: keys_list_def dest!: in_set_takeD)

lemma keys_list_all:
  assumes "length (filter (\<lambda>r. ak_tenant_id r = t) (db_keys db)) \<le> lim"
  shows "set (keys_list db t None lim) = {r \<in> set (db_keys db). ak_tenant_id r = t}"
  using assms by (auto simp: keys_list_def)

lemma keys_revoke_get:
  assumes "db_ok db"
  shows "keys_get (snd (keys_revoke t k at db)) j =
    map_option (\<lambda>r. if ak_key_id r = k \<and> ak_tenant_id r = t \<and> ak_revoked_at r = None
      then r\<lparr>ak_revoked_at := Some at\<rparr> else r) (keys_get db j)"
proof -
  have "List.find (\<lambda>r. ak_key_id r = j) (map (\<lambda>r. if P r then r\<lparr>ak_revoked_at := Some at\<rparr> else r) xs) =
    map_option (\<lambda>r. if P r then r\<lparr>ak_revoked_at := Some at\<rparr> else r) (List.find (\<lambda>r. ak_key_id r = j) xs)" for P xs
    by (induction xs) auto
  then show ?thesis by (simp add: keys_revoke_def keys_get_def Let_def)
qed

lemma row_live_usable: "row_live now r = usable_at r now"
  by (simp add: row_live_def usable_at_def split: option.split)

end
