(* ===== verification/Registry.thy ===== *)
theory Registry
  imports Tenancy_Store
begin

text \<open>
  The in-process tenant registry (\<open>modules/tenancy/registry.py\<close>): quotas, the keys metered under
  them, the suspended tenants and the key ids seen live. Dictionaries are association lists (last
  write wins), the ordered set of live keys is a list with the oldest first. A step of the
  asynchronous refresh sees the stores it reads as arguments, so a local change that lands during
  a read is a change of the generation between its start and its end.
\<close>

definition MAX_KNOWN_KEYS :: nat where "MAX_KNOWN_KEYS = 100000"

record registry =
  rg_limits :: "(string \<times> nat) list"
  rg_key_tenants :: "(string \<times> string) list"
  rg_suspended :: "string list"
  rg_live_keys :: "string list"
  rg_generation :: nat
  rg_origin :: string

definition quota_for :: "registry \<Rightarrow> string option \<Rightarrow> string option \<Rightarrow> string \<times> nat option" where
  "quota_for rg tenant_id credential =
     (let parsed = (if truthy credential then parse_token (bare_credential (or_empty credential)) else None);
          keyed = (case parsed of None \<Rightarrow> None | Some (k, _) \<Rightarrow> map_of (rg_key_tenants rg) k);
          tenant = por keyed tenant_id
      in if \<not> truthy tenant then (''-'', None)
         else (or_empty tenant, map_of (rg_limits rg) (or_empty tenant)))"

definition is_suspended :: "registry \<Rightarrow> string \<Rightarrow> bool" where
  "is_suspended rg t \<longleftrightarrow> t \<in> set (rg_suspended rg)"

definition knows_key :: "registry \<Rightarrow> string \<Rightarrow> bool" where
  "knows_key rg k \<longleftrightarrow> k \<in> set (rg_live_keys rg) \<or> map_of (rg_key_tenants rg) k \<noteq> None"

text \<open>\<open>move_to_end\<close>, then the oldest dropped while there are too many.\<close>

definition remember_key :: "string \<Rightarrow> registry \<Rightarrow> registry" where
  "remember_key k rg =
     (let keys = filter (\<lambda>x. x \<noteq> k) (rg_live_keys rg) @ [k]
      in rg\<lparr>rg_live_keys := drop (length keys - MAX_KNOWN_KEYS) keys\<rparr>)"

definition observe :: "instant \<Rightarrow> tenancy_db \<Rightarrow> Tenant \<Rightarrow> registry \<Rightarrow> registry" where
  "observe now db t rg =
     (let rg1 = rg\<lparr>rg_generation := rg_generation rg + 1,
                   rg_suspended := (if tn_status t = T_suspended
                      then List.insert (tn_tenant_id t) (rg_suspended rg)
                      else removeAll (tn_tenant_id t) (rg_suspended rg))\<rparr> in
      case tn_rate_limit t of
        None \<Rightarrow> rg1\<lparr>rg_limits := assoc_del (tn_tenant_id t) (rg_limits rg1),
                    rg_key_tenants := filter (\<lambda>(_, x). x \<noteq> tn_tenant_id t) (rg_key_tenants rg1)\<rparr>
      | Some n \<Rightarrow> rg1\<lparr>rg_limits := assoc_put (tn_tenant_id t) n (rg_limits rg1),
                      rg_key_tenants := fold (\<lambda>(k, v) m. assoc_put k v m)
                        (key_tenants db now [tn_tenant_id t]) (rg_key_tenants rg1)\<rparr>)"

definition observe_key :: "string \<Rightarrow> string \<Rightarrow> registry \<Rightarrow> registry" where
  "observe_key k t rg =
     (let rg1 = remember_key k (rg\<lparr>rg_generation := rg_generation rg + 1\<rparr>) in
      if map_of (rg_limits rg1) t \<noteq> None then rg1\<lparr>rg_key_tenants := assoc_put k t (rg_key_tenants rg1)\<rparr>
      else rg1)"

definition forget_key :: "string \<Rightarrow> registry \<Rightarrow> registry" where
  "forget_key k rg = rg\<lparr>rg_generation := rg_generation rg + 1,
     rg_live_keys := removeAll k (rg_live_keys rg),
     rg_key_tenants := assoc_del k (rg_key_tenants rg)\<rparr>"

text \<open>One read of \<open>refresh\<close>: what the store said, and the generation when the read ended (local
  changes may have landed since it began).\<close>

definition load_maps :: "instant \<Rightarrow> tenancy_db \<Rightarrow> (string \<times> nat) list \<times> (string \<times> string) list \<times> string list" where
  "load_maps now db =
     (let limits = rate_limits db in
      (limits, if limits = [] then [] else key_tenants db now (map fst limits), suspended_tenants db))"

definition apply_maps :: "(string \<times> nat) list \<times> (string \<times> string) list \<times> string list \<Rightarrow> registry \<Rightarrow> registry" where
  "apply_maps m rg = (case m of (limits, kts, susp) \<Rightarrow>
     rg\<lparr>rg_limits := limits, rg_key_tenants := kts, rg_suspended := susp\<rparr>)"

text \<open>The attempts of \<open>refresh\<close>: each reads the store at its own instant while the local changes
  listed for it happen; the first read during which nothing changed ends the loop, and the last
  read is applied in any case.\<close>

fun refresh_loop :: "(instant \<times> tenancy_db \<times> (registry \<Rightarrow> registry)) list \<Rightarrow>
    (string \<times> nat) list \<times> (string \<times> string) list \<times> string list \<Rightarrow> bool \<Rightarrow> registry \<Rightarrow> bool \<times> registry" where
  "refresh_loop [] m clean rg = (clean, apply_maps m rg)"
| "refresh_loop ((now, db, local_changes) # reads) m clean rg =
     (let rg' = local_changes rg; m' = load_maps now db in
      if rg_generation rg' = rg_generation rg then (clean, apply_maps m' rg')
      else refresh_loop reads m' False rg')"

definition refresh :: "(instant \<times> tenancy_db \<times> (registry \<Rightarrow> registry)) list \<Rightarrow> registry \<Rightarrow> bool \<times> registry" where
  "refresh reads rg = refresh_loop reads ([], [], []) True rg"

datatype registry_event =
    E_tenant string string
  | E_key_issued string string string
  | E_key_revoked string string
  | E_other

text \<open>\<open>apply\<close> on a decoded event; the first component of an event is its origin.\<close>

definition apply_event :: "instant \<Rightarrow> tenancy_db \<Rightarrow> registry_event \<Rightarrow> registry \<Rightarrow> registry" where
  "apply_event now db ev rg =
     (case ev of
        E_tenant origin t \<Rightarrow>
          if origin = rg_origin rg then rg
          else (case tenants_get db t of None \<Rightarrow> rg | Some r \<Rightarrow> observe now db r rg)
      | E_key_issued origin k t \<Rightarrow> if origin = rg_origin rg then rg else observe_key k t rg
      | E_key_revoked origin k \<Rightarrow> if origin = rg_origin rg then rg else forget_key k rg
      | E_other \<Rightarrow> rg)"

subsection \<open>The bound, and what is known\<close>

definition registry_ok :: "registry \<Rightarrow> bool" where
  "registry_ok rg \<longleftrightarrow> distinct (rg_live_keys rg) \<and> length (rg_live_keys rg) \<le> MAX_KNOWN_KEYS"

lemma remember_ok [inv_intros]: "registry_ok rg \<Longrightarrow> registry_ok (remember_key k rg)"
  by (auto simp: registry_ok_def remember_key_def Let_def MAX_KNOWN_KEYS_def
      intro!: distinct_drop dest: in_set_dropD)

lemma remember_knows: "knows_key (remember_key k rg) k"
proof -
  have "drop (length (xs @ [k]) - MAX_KNOWN_KEYS) (xs @ [k]) = drop (length (xs @ [k]) - MAX_KNOWN_KEYS) xs @ [k]"
    for xs :: "string list"
    by (simp add: MAX_KNOWN_KEYS_def)
  then show ?thesis by (simp add: remember_key_def knows_key_def Let_def)
qed

lemma forget_unknown: "\<not> knows_key (forget_key k rg) k"
  by (simp add: forget_key_def knows_key_def)

lemma forget_ok [inv_intros]: "registry_ok rg \<Longrightarrow> registry_ok (forget_key k rg)"
  by (auto simp: registry_ok_def forget_key_def distinct_removeAll removeAll_filter_not_eq
      intro: order_trans [OF length_filter_le])

lemma observe_live [simp]: "rg_live_keys (observe now db t rg) = rg_live_keys rg"
  by (simp add: observe_def Let_def split: option.split)

lemma observe_key_ok [inv_intros]: "registry_ok rg \<Longrightarrow> registry_ok (observe_key k t rg)"
  using remember_ok [of "rg\<lparr>rg_generation := rg_generation rg + 1\<rparr>" k]
  by (simp add: registry_ok_def observe_key_def Let_def)

lemma apply_event_ok [inv_intros]: "registry_ok rg \<Longrightarrow> registry_ok (apply_event now db ev rg)"
  by (simp add: apply_event_def observe_key_ok forget_ok split: registry_event.split option.split)
    (simp add: registry_ok_def)

text \<open>A suspension observed is a suspension in force, and lifting it lifts it. After a tenant's
  record is observed, the registry says suspended exactly when the record does, and says of every
  other tenant what it said before.\<close>

lemma observe_suspension:
  "is_suspended (observe now db t rg) x \<longleftrightarrow>
     (if x = tn_tenant_id t then tn_status t = T_suspended else is_suspended rg x)"
  by (auto simp: is_suspended_def observe_def Let_def split: option.split)

lemma map_of_fold_put:
  "map_of (fold (\<lambda>(k, v) m. assoc_put k v m) kvs m) k =
     (case map_of (rev kvs) k of Some v \<Rightarrow> Some v | None \<Rightarrow> map_of m k)"
  by (induction kvs arbitrary: m) (auto simp: map_add_def split: option.splits)

text \<open>The key's own tenant decides the quota. A caller whose token names a key the registry
  meters is counted against that key's tenant and its limit, whatever tenant header it sends.\<close>

lemma quota_not_chosen_by_header:
  assumes "parse_token token = Some (k, secret)" and "map_of (rg_key_tenants rg) k = Some t" and "t \<noteq> []"
    and "bare_credential credential = token" and "credential \<noteq> []"
  shows "quota_for rg header (Some credential) = (t, map_of (rg_limits rg) t)"
  using assms by (simp add: quota_for_def)

text \<open>A refresh never erases a local change that landed during its read. When some attempt ran
  without a local change, the maps applied are the ones that attempt read, and the changes made
  during earlier attempts preceded it; the live keys are kept throughout.\<close>

theorem refresh_applies_a_quiet_read:
  assumes "reads = noisy @ (now, db, f) # rest"
    and "\<And>r. rg_generation (f r) = rg_generation r"
    and "\<And>now' db' g r. (now', db', g) \<in> set noisy \<Longrightarrow> rg_generation (g r) \<noteq> rg_generation r"
  shows "refresh reads rg =
    (noisy = [], apply_maps (load_maps now db) (f (fold (\<lambda>(_, _, g) r. g r) noisy rg)))"
proof -
  have "refresh_loop (noisy @ (now, db, f) # rest) m clean rg =
    (clean \<and> noisy = [], apply_maps (load_maps now db) (f (fold (\<lambda>(_, _, g) r. g r) noisy rg)))" for m clean
    using assms(3)
  proof (induction noisy arbitrary: m clean rg)
    case Nil
    then show ?case by (simp add: Let_def assms(2))
  next
    case (Cons x xs)
    obtain now' db' g where x: "x = (now', db', g)" by (cases x)
    have "rg_generation (g rg) \<noteq> rg_generation rg" using Cons.prems [of now' db' g] x by simp
    moreover have "refresh_loop (xs @ (now, db, f) # rest) (load_maps now' db') False (g rg) =
      (False \<and> xs = [], apply_maps (load_maps now db) (f (fold (\<lambda>(_, _, g) r. g r) xs (g rg))))"
      by (rule Cons.IH) (use Cons.prems in auto)
    ultimately show ?case by (simp add: Let_def x)
  qed
  then show ?thesis by (simp add: refresh_def assms(1))
qed

definition no_db :: tenancy_db where
  "no_db = \<lparr>db_tenants = [], db_keys = [], db_workspaces = [], db_members = []\<rparr>"

definition demo_registry :: registry where
  "demo_registry = \<lparr>rg_limits = [(''acme'', 30)], rg_key_tenants = [(''k234567890123456'', ''acme'')],
     rg_suspended = [], rg_live_keys = [], rg_generation = 0, rg_origin = ''1''\<rparr>"

theorem quota_not_chosen_by_header_witness:
  "quota_for demo_registry (Some ''other'') (Some ''mk_k234567890123456.s'') = (''acme'', Some 30)"
proof -
  have "parse_token ''mk_k234567890123456.s'' = Some (''k234567890123456'', ''s'')"
    "bare_credential ''mk_k234567890123456.s'' = ''mk_k234567890123456.s''" by code_simp+
  from quota_not_chosen_by_header [OF this(1) _ _ this(2), of demo_registry "''acme''" "Some ''other''"]
  show ?thesis by (simp add: demo_registry_def)
qed

theorem refresh_applies_a_quiet_read_witness:
  "refresh [(0, no_db, forget_key ''k''), (1, no_db, \<lambda>r. r)] demo_registry =
     (False, apply_maps (load_maps 1 no_db) (forget_key ''k'' demo_registry))"
  using refresh_applies_a_quiet_read [of "[(0, no_db, forget_key ''k''), (1, no_db, \<lambda>r. r)]"
      "[(0, no_db, forget_key ''k'')]" 1 no_db "\<lambda>r. r" "[]" demo_registry]
  by (simp add: forget_key_def)

end
