(* ===== verification/Cache.thy ===== *)
theory Cache
  imports Errors
begin

text \<open>
  The cache port (\<open>ports/cache.py\<close>) and the in-process provider
  (\<open>adapters/cache/memory_cache.py\<close>). \<open>time.monotonic()\<close> is the argument \<open>now\<close> (microseconds);
  an entry carries its value and, when a TTL was given, the instant it expires. The type of the
  values is a parameter, so each client states what the bytes it stores decode to.

  The interface a client relies on is the locale \<open>cache_provider\<close>: what a lookup returns after a
  write and after a set-if-absent. Its client lemma is the one the key verifier's
  tombstones rest on: an entry written with a TTL cannot be displaced by any sequence of
  set-if-absent writes while it lives.
\<close>

record 'v cache =
  c_data :: "string \<rightharpoonup> 'v \<times> instant option"
  c_lists :: "string \<rightharpoonup> 'v list \<times> instant option"
  c_available :: bool
  c_ops :: nat

type_synonym ('v, 'r) cache_op = "'v cache \<Rightarrow> (service_error + 'r) \<times> 'v cache"

definition c_check :: "('v, unit) cache_op" where
  "c_check s = (if c_available s then Inr () else Inl CacheUnavailable, s\<lparr>c_ops := c_ops s + 1\<rparr>)"

definition expiry :: "instant \<Rightarrow> nat option \<Rightarrow> instant option" where
  "expiry now ttl = (case ttl of None \<Rightarrow> None
     | Some n \<Rightarrow> if n = 0 then None else Some (now + secs (int n)))"

definition expired :: "instant \<Rightarrow> instant option \<Rightarrow> bool" where
  "expired now e = (case e of None \<Rightarrow> False | Some x \<Rightarrow> x < now)"

text \<open>\<open>_live\<close>: the value, dropping the entry when it has expired.\<close>

definition live :: "instant \<Rightarrow> string \<Rightarrow> 'v cache \<Rightarrow> 'v option \<times> 'v cache" where
  "live now key s =
     (case c_data s key of
        None \<Rightarrow> (None, s)
      | Some (v, e) \<Rightarrow>
          if expired now e then (None, s\<lparr>c_data := (c_data s)(key := None)\<rparr>) else (Some v, s))"

definition guarded :: "('v cache \<Rightarrow> 'r \<times> 'v cache) \<Rightarrow> ('v, 'r) cache_op" where
  "guarded f s = (case c_check s of (Inl e, s') \<Rightarrow> (Inl e, s')
     | (Inr _, s') \<Rightarrow> (case f s' of (r, s'') \<Rightarrow> (Inr r, s'')))"

definition c_get :: "instant \<Rightarrow> string \<Rightarrow> ('v, 'v option) cache_op" where
  "c_get now key = guarded (live now key)"

definition store :: "instant \<Rightarrow> string \<Rightarrow> 'v \<Rightarrow> nat option \<Rightarrow> 'v cache \<Rightarrow> 'v cache" where
  "store now key v ttl s = s\<lparr>c_data := (c_data s)(key \<mapsto> (v, expiry now ttl))\<rparr>"

definition c_set :: "instant \<Rightarrow> string \<Rightarrow> 'v \<Rightarrow> nat option \<Rightarrow> ('v, unit) cache_op" where
  "c_set now key v ttl = guarded (\<lambda>s. ((), store now key v ttl s))"

definition c_set_if_absent :: "instant \<Rightarrow> string \<Rightarrow> 'v \<Rightarrow> nat option \<Rightarrow> ('v, bool) cache_op" where
  "c_set_if_absent now key v ttl s =
     (case c_check s of (Inl e, s1) \<Rightarrow> (Inl e, s1)
      | (Inr _, s1) \<Rightarrow>
        (case live now key s1 of
           (Some _, s2) \<Rightarrow> (Inr False, s2)
         | (None, s2) \<Rightarrow>
             (case c_set now key v ttl s2 of (Inl e, s3) \<Rightarrow> (Inl e, s3) | (Inr _, s3) \<Rightarrow> (Inr True, s3))))"

fun delete_loop :: "string list \<Rightarrow> 'v cache \<Rightarrow> nat \<times> 'v cache" where
  "delete_loop [] s = (0, s)"
| "delete_loop (k # ks) s =
     (if c_data s k \<noteq> None \<or> c_lists s k \<noteq> None
      then (case delete_loop ks (s\<lparr>c_data := (c_data s)(k := None), c_lists := (c_lists s)(k := None)\<rparr>)
            of (n, s') \<Rightarrow> (Suc n, s'))
      else delete_loop ks s)"

definition c_delete :: "string list \<Rightarrow> ('v, nat) cache_op" where
  "c_delete ks = guarded (delete_loop ks)"

text \<open>\<open>incr_window\<close> keeps the counter as decimal digits.\<close>

definition c_incr_window :: "instant \<Rightarrow> string \<Rightarrow> nat \<Rightarrow> (string, nat) cache_op" where
  "c_incr_window now key ttl = guarded (\<lambda>s.
     case live now key s of (v, s1) \<Rightarrow>
       let current = read_nat (case v of None \<Rightarrow> ''0'' | Some d \<Rightarrow> if d = [] then ''0'' else d) + 1
       in (current, s1\<lparr>c_data := (c_data s1)(key \<mapsto> (show_nat current, Some (now + secs (int ttl))))\<rparr>))"

fun mget_loop :: "instant \<Rightarrow> string list \<Rightarrow> 'v cache \<Rightarrow> 'v option list \<times> 'v cache" where
  "mget_loop now [] s = ([], s)"
| "mget_loop now (k # ks) s =
     (case live now k s of (v, s1) \<Rightarrow> (case mget_loop now ks s1 of (vs, s2) \<Rightarrow> (v # vs, s2)))"

definition c_mget :: "instant \<Rightarrow> string list \<Rightarrow> ('v, 'v option list) cache_op" where
  "c_mget now ks = guarded (mget_loop now ks)"

fun mset_loop :: "instant \<Rightarrow> (string \<times> 'v) list \<Rightarrow> nat option \<Rightarrow> ('v, unit) cache_op" where
  "mset_loop now [] ttl s = (Inr (), s)"
| "mset_loop now ((k, v) # kvs) ttl s =
     (case c_set now k v ttl s of (Inl e, s1) \<Rightarrow> (Inl e, s1) | (Inr _, s1) \<Rightarrow> mset_loop now kvs ttl s1)"

definition c_mset :: "instant \<Rightarrow> (string \<times> 'v) list \<Rightarrow> nat option \<Rightarrow> ('v, unit) cache_op" where
  "c_mset now kvs ttl s =
     (case c_check s of (Inl e, s1) \<Rightarrow> (Inl e, s1) | (Inr _, s1) \<Rightarrow> mset_loop now kvs ttl s1)"

definition keep_last :: "nat option \<Rightarrow> 'a list \<Rightarrow> 'a list" where
  "keep_last m xs = (case m of None \<Rightarrow> xs | Some n \<Rightarrow> if n = 0 then xs else drop (length xs - n) xs)"

definition c_list_push :: "instant \<Rightarrow> string \<Rightarrow> 'v list \<Rightarrow> nat option \<Rightarrow> nat option \<Rightarrow> ('v, nat) cache_op" where
  "c_list_push now key vs max_len ttl = guarded (\<lambda>s.
     let items = keep_last max_len ((case c_lists s key of None \<Rightarrow> [] | Some (xs, _) \<Rightarrow> xs) @ vs)
     in (length items, s\<lparr>c_lists := (c_lists s)(key \<mapsto> (items, expiry now ttl))\<rparr>))"

definition c_list_range :: "instant \<Rightarrow> string \<Rightarrow> int \<Rightarrow> int \<Rightarrow> ('v, 'v list) cache_op" where
  "c_list_range now key start stop = guarded (\<lambda>s.
     case c_lists s key of None \<Rightarrow> ([], s)
     | Some (items, e) \<Rightarrow>
        if expired now e then ([], s\<lparr>c_lists := (c_lists s)(key := None)\<rparr>)
        else (py_slice start (if stop = -1 then int (length items) else stop + 1) items, s))"

subsection \<open>The interface\<close>

text \<open>What clients rely on: \<open>look\<close> is what a read at an instant would return, \<open>put\<close> and
  \<open>put_absent\<close> the states after the two writes.\<close>

locale cache_provider =
  fixes look :: "'s \<Rightarrow> instant \<Rightarrow> string \<Rightarrow> 'v option"
    and put :: "instant \<Rightarrow> string \<Rightarrow> 'v \<Rightarrow> nat option \<Rightarrow> 's \<Rightarrow> 's"
    and put_absent :: "instant \<Rightarrow> string \<Rightarrow> 'v \<Rightarrow> nat option \<Rightarrow> 's \<Rightarrow> 's"
    and up :: "'s \<Rightarrow> bool"
  assumes look_put: "up s \<Longrightarrow> look (put now k v ttl s) now' k' =
      (if k' = k then (if expired now' (expiry now ttl) then None else Some v) else look s now' k')"
    and look_put_absent: "up s \<Longrightarrow> look s now k = None \<Longrightarrow> now \<le> now' \<Longrightarrow>
      look (put_absent now k v ttl s) now' k' =
      (if k' = k then (if expired now' (expiry now ttl) then None else Some v) else look s now' k')"
    and look_put_present: "up s \<Longrightarrow> look s now k \<noteq> None \<Longrightarrow>
      look (put_absent now k v ttl s) now' k' = look s now' k'"
    and look_expires: "now \<le> now' \<Longrightarrow> look s now' k = Some v \<Longrightarrow> look s now k = Some v"
    and up_put: "up (put now k v ttl s) = up s"
    and up_put_absent: "up (put_absent now k v ttl s) = up s"
begin

text \<open>A sequence of writes to one key: each has its instant, value and TTL and either overwrites or
  is a set-if-absent.\<close>

primrec writes :: "string \<Rightarrow> (instant \<times> 'v \<times> nat option \<times> bool) list \<Rightarrow> 's \<Rightarrow> 's" where
  "writes k [] s = s"
| "writes k (w # ws) s = writes k ws
     (case w of (now, v, ttl, overwrite) \<Rightarrow> (if overwrite then put else put_absent) now k v ttl s)"

lemma up_writes: "up (writes k ws s) = up s"
  by (induction ws arbitrary: s) (auto simp: up_put up_put_absent split: prod.splits)

text \<open>While an entry satisfying \<open>P\<close> lives, set-if-absent writes cannot displace it, and overwriting
  writes that themselves satisfy \<open>P\<close> keep \<open>P\<close>: at \<open>T\<close> the key still holds such an entry.\<close>

lemma guarded_key:
  assumes "up s" and "\<exists>v. look s T k = Some v \<and> P v"
    and "\<forall>(now, v, ttl, overwrite) \<in> set ws. now \<le> T \<and> (overwrite \<longrightarrow> P v \<and> \<not> expired T (expiry now ttl))"
  shows "\<exists>v. look (writes k ws s) T k = Some v \<and> P v"
  using assms
proof (induction ws arbitrary: s)
  case (Cons w ws)
  obtain now v ttl overwrite where w: "w = (now, v, ttl, overwrite)" by (cases w)
  let ?s = "(if overwrite then put else put_absent) now k v ttl s"
  have now: "now \<le> T" and ow: "overwrite \<Longrightarrow> P v \<and> \<not> expired T (expiry now ttl)"
    using Cons.prems(3) w by auto
  obtain x where x: "look s T k = Some x" "P x" using Cons.prems(2) by blast
  have "\<exists>v. look ?s T k = Some v \<and> P v"
  proof (cases overwrite)
    case True
    then show ?thesis using ow look_put [OF Cons.prems(1)] by simp
  next
    case False
    have "look s now k \<noteq> None" using look_expires [OF now x(1)] by simp
    then show ?thesis using False x look_put_present [OF Cons.prems(1)] by simp
  qed
  moreover have "up ?s" using Cons.prems(1) by (simp add: up_put up_put_absent)
  ultimately show ?case using Cons.IH [of ?s] Cons.prems(3) by (simp add: w)
qed simp

end

definition c_look :: "'v cache \<Rightarrow> instant \<Rightarrow> string \<Rightarrow> 'v option" where
  "c_look s now k = (case c_data s k of None \<Rightarrow> None | Some (v, e) \<Rightarrow> if expired now e then None else Some v)"

definition put_st :: "instant \<Rightarrow> string \<Rightarrow> 'v \<Rightarrow> nat option \<Rightarrow> 'v cache \<Rightarrow> 'v cache" where
  "put_st now k v ttl s = snd (c_set now k v ttl s)"

definition put_absent_st :: "instant \<Rightarrow> string \<Rightarrow> 'v \<Rightarrow> nat option \<Rightarrow> 'v cache \<Rightarrow> 'v cache" where
  "put_absent_st now k v ttl s = snd (c_set_if_absent now k v ttl s)"

lemmas cache_defs = guarded_def c_check_def live_def c_get_def c_set_def c_set_if_absent_def
  store_def c_look_def put_st_def put_absent_st_def

lemma c_get_look: "c_available s \<Longrightarrow> fst (c_get now k s) = Inr (c_look s now k)"
  by (auto simp: cache_defs split: option.splits)

lemma expired_mono: "now \<le> now' \<Longrightarrow> expired now e \<Longrightarrow> expired now' e"
  by (auto simp: expired_def split: option.splits)

lemma c_look_get:
  "now \<le> now' \<Longrightarrow> c_look (snd (c_get now k s)) now' k' = c_look s now' k'"
  by (auto simp: cache_defs dest: expired_mono split: option.splits)

interpretation memc: cache_provider c_look put_st put_absent_st c_available
proof
  show "c_look (put_absent_st now k v ttl s) now' k' =
      (if k' = k then if expired now' (expiry now ttl) then None else Some v else c_look s now' k')"
    if "c_available s" "c_look s now k = None" "now \<le> now'"
    for s :: "'a cache" and now now' k k' v ttl
    using that by (auto simp: cache_defs split: option.splits if_splits)
qed (auto simp: cache_defs dest: expired_mono split: option.splits if_splits)

subsection \<open>Deletes and windows\<close>

lemma delete_loop_data:
  "c_data (snd (delete_loop ks s)) k = (if k \<in> set ks then None else c_data s k)"
  by (induction ks s rule: delete_loop.induct)
    (auto simp del: not_None_eq split: prod.splits)

lemma delete_available [simp]: "c_available (snd (delete_loop ks s)) = c_available s"
  by (induction ks s rule: delete_loop.induct) (auto split: prod.splits)

lemma c_delete_look:
  "c_available s \<Longrightarrow> c_look (snd (c_delete ks s)) now k = (if k \<in> set ks then None else c_look s now k)"
  using delete_loop_data [of ks "s\<lparr>c_ops := c_ops s + 1\<rparr>" k]
  by (auto simp: c_delete_def guarded_def c_check_def c_look_def split: prod.splits)

lemma incr_window_counts:
  assumes "c_available s" and "c_look s now key = v"
  shows "fst (c_incr_window now key ttl s) =
      Inr (read_nat (case v of None \<Rightarrow> ''0'' | Some d \<Rightarrow> if d = [] then ''0'' else d) + 1)"
    and "c_data (snd (c_incr_window now key ttl s)) key =
      Some (show_nat (read_nat (case v of None \<Rightarrow> ''0'' | Some d \<Rightarrow> if d = [] then ''0'' else d) + 1),
            Some (now + secs (int ttl)))"
    and "c_available (snd (c_incr_window now key ttl s))"
  using assms by (auto simp: c_incr_window_def cache_defs Let_def split: option.splits prod.splits if_splits)

end
