(* ===== verification/Api_Keys.thy ===== *)
theory Api_Keys
  imports Registry Cache
begin

text \<open>
  The API key verifier (\<open>modules/auth/keys.py\<close>): a parsed token is checked against the stored hash
  through a short shared cache of records, tombstones and "missing" markers. The cached bytes are
  modelled by what they decode to (\<open>KE_Unreadable\<close> for an entry that does not decode). The
  verifier's \<open>known\<close> and \<open>remember\<close> callbacks are the tenant registry's. One instant \<open>now\<close> stands
  for the clock during a call; \<open>content_hash\<close> is the digest of \<open>hash_secret\<close>.
\<close>

record cached_key =
  ck_key :: ApiKey
  ck_tenant_status :: TenantStatus

datatype key_entry = KE_TOMBSTONE | KE_MISSING | KE_Record cached_key | KE_Unreadable

definition MISSING_TTL_SECONDS :: nat where "MISSING_TTL_SECONDS = 5"
definition MAX_TOUCH_MEMO :: nat where "MAX_TOUCH_MEMO = 10000"
definition UNKNOWN_IDS_PER_MINUTE :: nat where "UNKNOWN_IDS_PER_MINUTE = 600"

record VerifiedKey =
  vk_key_id :: string
  vk_tenant_id :: string
  vk_role :: KeyRole
  vk_workspace_id :: "string option"
  vk_may_act_as :: "string list"

record verifier =
  vf_db :: tenancy_db
  vf_cache :: "key_entry cache option"
  vf_ttl :: nat
  vf_touch_every :: duration
  vf_registry :: "registry option"
  vf_touched :: "(string \<times> instant) list"
  vf_missing :: "(string \<times> instant) list"
  vf_unknown_window :: "int \<times> nat"

definition key_cache_key :: "string \<Rightarrow> string" where
  "key_cache_key k = ''apikey:'' @ k"

definition minute_of :: "instant \<Rightarrow> int" where
  "minute_of now = now div secs 60"

definition invalid_key :: service_error where
  "invalid_key = AuthenticationFailed ''Missing or invalid API key''"

definition suspended :: service_error where
  "suspended = AuthorizationFailed ''tenant is suspended''"

subsection \<open>The cache\<close>

definition cached_raw :: "instant \<Rightarrow> string \<Rightarrow> verifier \<Rightarrow> key_entry option \<times> verifier" where
  "cached_raw now k v =
     (case vf_cache v of None \<Rightarrow> (None, v)
      | Some c \<Rightarrow> (case c_get now (key_cache_key k) c of
          (Inl _, c') \<Rightarrow> (None, v\<lparr>vf_cache := Some c'\<rparr>) | (Inr r, c') \<Rightarrow> (r, v\<lparr>vf_cache := Some c'\<rparr>)))"

definition key_put :: "instant \<Rightarrow> string \<Rightarrow> key_entry \<Rightarrow> nat \<Rightarrow> bool \<Rightarrow> verifier \<Rightarrow> verifier" where
  "key_put now k e ttl overwrite v =
     (case vf_cache v of None \<Rightarrow> v
      | Some c \<Rightarrow> v\<lparr>vf_cache := Some
          (if overwrite then snd (c_set now (key_cache_key k) e (Some ttl) c)
           else snd (c_set_if_absent now (key_cache_key k) e (Some ttl) c))\<rparr>)"

definition invalidate :: "instant \<Rightarrow> bool \<Rightarrow> string \<Rightarrow> verifier \<Rightarrow> (service_error + unit) \<times> verifier" where
  "invalidate now strict k v =
     (case vf_cache v of None \<Rightarrow> (Inr (), v)
      | Some c \<Rightarrow> (case c_set now (key_cache_key k) KE_TOMBSTONE (Some (2 * vf_ttl v)) c of
          (r, c') \<Rightarrow> (if strict then r else Inr (), v\<lparr>vf_cache := Some c'\<rparr>)))"

definition forget_missing :: "string \<Rightarrow> verifier \<Rightarrow> verifier" where
  "forget_missing k v =
     (let v1 = v\<lparr>vf_missing := assoc_del k (vf_missing v)\<rparr> in
      case vf_cache v1 of None \<Rightarrow> v1
      | Some c \<Rightarrow> v1\<lparr>vf_cache := Some (snd (c_delete [key_cache_key k] c))\<rparr>)"

fun invalidate_all :: "instant \<Rightarrow> bool \<Rightarrow> string list \<Rightarrow> verifier \<Rightarrow> (service_error + unit) \<times> verifier" where
  "invalidate_all now strict [] v = (Inr (), v)"
| "invalidate_all now strict (k # ks) v =
     (case invalidate now strict k v of (Inl e, v') \<Rightarrow> (Inl e, v') | (Inr _, v') \<Rightarrow> invalidate_all now strict ks v')"

definition invalidate_tenant :: "instant \<Rightarrow> bool \<Rightarrow> string \<Rightarrow> verifier \<Rightarrow> (service_error + unit) \<times> verifier" where
  "invalidate_tenant now strict t v =
     invalidate_all now strict (map ak_key_id (keys_list (vf_db v) t None KEYS_LIST_LIMIT)) v"

subsection \<open>Loading and verifying\<close>

definition unknown :: "string \<Rightarrow> verifier \<Rightarrow> bool" where
  "unknown k v = (case vf_registry v of None \<Rightarrow> False
     | Some rg \<Rightarrow> map_of (vf_touched v) k = None \<and> \<not> knows_key rg k)"

definition unknown_budget_left :: "instant \<Rightarrow> verifier \<Rightarrow> bool" where
  "unknown_budget_left now v \<longleftrightarrow>
     (case vf_unknown_window v of (m, n) \<Rightarrow> m \<noteq> minute_of now \<or> n < UNKNOWN_IDS_PER_MINUTE)"

definition note_unknown :: "string \<Rightarrow> instant \<Rightarrow> verifier \<Rightarrow> verifier" where
  "note_unknown k now v =
     (case vf_unknown_window v of (m, n) \<Rightarrow>
        v\<lparr>vf_unknown_window := (minute_of now, if m = minute_of now then n + 1 else 1),
          vf_missing := assoc_put k (now + secs (int MISSING_TTL_SECONDS))
            (if length (vf_missing v) \<ge> MAX_TOUCH_MEMO then [] else vf_missing v)\<rparr>)"

definition stored_record :: "tenancy_db \<Rightarrow> ApiKey \<Rightarrow> cached_key" where
  "stored_record db r = \<lparr>ck_key = r, ck_tenant_status =
     (case tenants_get db (ak_tenant_id r) of None \<Rightarrow> T_suspended | Some t \<Rightarrow> tn_status t)\<rparr>"

definition read_store :: "instant \<Rightarrow> string \<Rightarrow> bool \<Rightarrow> verifier \<Rightarrow> cached_key option \<times> verifier" where
  "read_store now k behind_tombstone v =
     (case keys_get (vf_db v) k of
        None \<Rightarrow> (None, key_put now k KE_MISSING MISSING_TTL_SECONDS behind_tombstone (note_unknown k now v))
      | Some r \<Rightarrow>
          (let cached = stored_record (vf_db v) r; irreversible = \<not> usable_at r now in
           (Some cached,
            if \<not> behind_tombstone \<or> irreversible
            then key_put now k (KE_Record cached) (vf_ttl v) irreversible v else v)))"

definition load :: "instant \<Rightarrow> string \<Rightarrow> verifier \<Rightarrow> cached_key option \<times> verifier" where
  "load now k v =
     (if (case map_of (vf_missing v) k of None \<Rightarrow> now | Some t \<Rightarrow> t) > now then (None, v)
      else case cached_raw now k v of (raw, v1) \<Rightarrow>
        (case raw of
           Some KE_MISSING \<Rightarrow> (None, v1)
         | Some (KE_Record c) \<Rightarrow> (Some c, v1)
         | Some KE_TOMBSTONE \<Rightarrow> read_store now k True v1
         | Some KE_Unreadable \<Rightarrow> read_store now k True v1
         | None \<Rightarrow> if unknown k v1 \<and> \<not> unknown_budget_left now v1 then (None, v1)
                   else read_store now k False v1))"

definition touch :: "string \<Rightarrow> instant \<Rightarrow> verifier \<Rightarrow> verifier" where
  "touch k now v = v\<lparr>vf_db := keys_touch k now (vf_db v),
     vf_touched := assoc_put k now
       (if length (vf_touched v) \<ge> MAX_TOUCH_MEMO then [] else vf_touched v)\<rparr>"

definition verified :: "ApiKey \<Rightarrow> VerifiedKey" where
  "verified r = \<lparr>vk_key_id = ak_key_id r, vk_tenant_id = ak_tenant_id r, vk_role = ak_role r,
     vk_workspace_id = ak_workspace_id r, vk_may_act_as = ak_may_act_as r\<rparr>"

definition verify :: "(string \<Rightarrow> string) \<Rightarrow> instant \<Rightarrow> string \<Rightarrow> verifier \<Rightarrow>
    (service_error + VerifiedKey) \<times> verifier" where
  "verify content_hash now token v =
     (case parse_token token of
        None \<Rightarrow> (Inl invalid_key, v)
      | Some (k, secret) \<Rightarrow>
        (case load now k v of
           (None, v1) \<Rightarrow> (Inl invalid_key, v1)
         | (Some c, v1) \<Rightarrow>
            if \<not> usable_at (ck_key c) now \<or> \<not> secret_matches content_hash secret (ak_secret_hash (ck_key c))
            then (Inl invalid_key, v1)
            else if ck_tenant_status c \<noteq> T_active then (Inl suspended, v1)
            else let v2 = v1\<lparr>vf_registry := map_option (remember_key k) (vf_registry v1)\<rparr>;
                     last = (case map_of (vf_touched v2) k of Some t \<Rightarrow> Some t | None \<Rightarrow> ak_last_used_at (ck_key c));
                     v3 = (case last of None \<Rightarrow> touch k now v2
                           | Some t \<Rightarrow> if now - t > vf_touch_every v2 then touch k now v2 else v2)
                 in (Inr (verified (ck_key c)), v3)))"

subsection \<open>What verification establishes\<close>

text \<open>The records a load may answer with: the store's, or the cache's live entry.\<close>

definition cache_look :: "verifier \<Rightarrow> instant \<Rightarrow> string \<Rightarrow> key_entry option" where
  "cache_look v now k = (case vf_cache v of None \<Rightarrow> None
     | Some c \<Rightarrow> if c_available c then c_look c now (key_cache_key k) else None)"

lemma cached_raw_result: "fst (cached_raw now k v) = cache_look v now k"
  by (auto simp: cached_raw_def cache_look_def cache_defs split: option.split)

lemma cached_raw_db [simp]: "vf_db (snd (cached_raw now k v)) = vf_db v"
  by (simp add: cached_raw_def split: option.split prod.split sum.split)

lemma load_result:
  assumes "load now k v = (Some c, v')"
  shows "cache_look v now k = Some (KE_Record c) \<or>
    (cache_look v now k \<in> {None, Some KE_TOMBSTONE, Some KE_Unreadable} \<and>
     (\<exists>r. keys_get (vf_db v) k = Some r \<and> c = stored_record (vf_db v) r))"
proof -
  obtain raw v1 where r: "cached_raw now k v = (raw, v1)" by fastforce
  have raw: "raw = cache_look v now k" and db: "vf_db v1 = vf_db v"
    using r cached_raw_result [of now k v] cached_raw_db [of now k v] by simp_all
  have rs: "\<exists>r. keys_get (vf_db v) k = Some r \<and> c = stored_record (vf_db v) r"
    if "read_store now k b v1 = (Some c, v')" for b
    using that by (auto simp: read_store_def db Let_def split: option.splits)
  show ?thesis
    using assms r rs unfolding raw
    by (auto simp: load_def split: if_splits option.splits key_entry.splits)
qed

text \<open>C30: a key verifies only as itself. A successful verification means the token is the minted
  spelling of a key id and secret, that the record answering for that id (the live cache entry,
  or the stored row) is unrevoked, unexpired, carries the digest of that secret and belongs to an
  active tenant, and that the identity returned is that record's.\<close>

theorem verify_sound:
  assumes "verify content_hash now token v = (Inr vk, v')"
  shows "\<exists>k secret c. parse_token token = Some (k, secret) \<and>
    (cache_look v now k = Some (KE_Record c) \<or>
     (\<exists>r. keys_get (vf_db v) k = Some r \<and> c = stored_record (vf_db v) r)) \<and>
    usable_at (ck_key c) now \<and> content_hash secret = ak_secret_hash (ck_key c) \<and>
    ck_tenant_status c = T_active \<and> vk = verified (ck_key c)"
proof -
  obtain k secret where p: "parse_token token = Some (k, secret)"
    using assms by (auto simp: verify_def split: option.splits)
  obtain oc v1 where l: "load now k v = (oc, v1)" by fastforce
  with assms p obtain c where c: "oc = Some c" by (auto simp: verify_def split: option.splits)
  have "usable_at (ck_key c) now" "content_hash secret = ak_secret_hash (ck_key c)"
    "ck_tenant_status c = T_active" "vk = verified (ck_key c)"
    using assms p l c by (auto simp: verify_def secret_matches_def Let_def split: if_splits)
  then show ?thesis using p load_result [of now k v c v1] l c by blast
qed

text \<open>Every credential failure looks the same. A refusal is either the one authentication error,
  whatever the reason (malformed, unknown, wrong secret, expired, revoked), or the suspension
  answer, which is given only to a caller that presented the right secret of a usable key.\<close>

theorem verify_error_uniform:
  "fst (verify content_hash now token v) = Inl e \<Longrightarrow>
   e = invalid_key \<or>
   e = suspended \<and> (\<exists>k secret c. parse_token token = Some (k, secret) \<and> fst (load now k v) = Some c \<and>
     usable_at (ck_key c) now \<and> content_hash secret = ak_secret_hash (ck_key c))"
  by (auto simp: verify_def secret_matches_def Let_def split: option.splits prod.splits if_splits)

subsection \<open>Revocation\<close>

text \<open>A cache entry that cannot let a key in: everything but a record usable at the instant.\<close>

definition blocked :: "instant \<Rightarrow> key_entry \<Rightarrow> bool" where
  "blocked now e = (case e of KE_Record c \<Rightarrow> \<not> usable_at (ck_key c) now | _ \<Rightarrow> True)"

lemma unusable_stays: "\<not> usable_at r now \<Longrightarrow> now \<le> now' \<Longrightarrow> \<not> usable_at r now'"
  by (auto simp: usable_at_def split: option.splits)

lemma refused_when_blocked:
  assumes "\<And>r. keys_get (vf_db v) k = Some r \<Longrightarrow> \<not> usable_at r now"
    and "\<And>e. cache_look v now k = Some e \<Longrightarrow> blocked now e"
    and "parse_token token = Some (k, secret)"
  shows "fst (verify content_hash now token v) = Inl invalid_key"
proof -
  obtain oc v1 where l: "load now k v = (oc, v1)" by fastforce
  have "\<not> usable_at (ck_key c) now" if "oc = Some c" for c
    using load_result [of now k v c v1] l that assms(1,2)
    by (auto simp: stored_record_def blocked_def split: key_entry.splits)
  then show ?thesis using l assms(3) by (cases oc) (auto simp: verify_def)
qed

text \<open>A reader that completes now a store read it began earlier: the row it caches comes from the
  snapshot \<open>old\<close> it read, and it had seen a tombstone or not.\<close>

definition late_read :: "string \<Rightarrow> instant \<times> tenancy_db \<times> bool \<Rightarrow> verifier \<Rightarrow> verifier" where
  "late_read k rd v = (case rd of (now, old, behind) \<Rightarrow>
     (snd (read_store now k behind (v\<lparr>vf_db := old\<rparr>)))\<lparr>vf_db := vf_db v\<rparr>)"

lemma key_put_frame [simp]:
  "vf_db (key_put now k e ttl ow v) = vf_db v" "vf_ttl (key_put now k e ttl ow v) = vf_ttl v"
  by (simp_all add: key_put_def split: option.split)

lemma late_read_cache:
  assumes "keys_get old k = Some r" and "vf_cache v = Some c"
  shows "\<exists>ws. vf_cache (late_read k (now, old, behind) v) = Some (memc.writes (key_cache_key k) ws c) \<and>
    (\<forall>(n, e, ttl, ow) \<in> set ws. n = now \<and> (ow \<longrightarrow> blocked now e \<and> ttl = Some (vf_ttl v)))"
proof (cases "\<not> behind \<or> \<not> usable_at r now")
  case True
  let ?w = "(now, KE_Record (stored_record old r), Some (vf_ttl v), \<not> usable_at r now)"
  have "vf_cache (late_read k (now, old, behind) v) = Some (memc.writes (key_cache_key k) [?w] c)"
    using assms True
    by (auto simp: late_read_def read_store_def key_put_def put_st_def put_absent_st_def Let_def)
  then show ?thesis by (intro exI [of _ "[?w]"]) (simp add: blocked_def stored_record_def)
next
  case False
  then have "vf_cache (late_read k (now, old, behind) v) = Some (memc.writes (key_cache_key k) [] c)"
    using assms by (auto simp: late_read_def read_store_def Let_def)
  then show ?thesis by (intro exI [of _ "[]"]) simp
qed

lemma late_read_frame [simp]:
  "vf_db (late_read k rd v) = vf_db v" "vf_ttl (late_read k rd v) = vf_ttl v"
  by (simp_all add: late_read_def read_store_def note_unknown_def Let_def split: prod.split option.split)

lemma late_reads_blocked:
  assumes "vf_cache v = Some c" and "c_available c"
    and "\<exists>e. c_look c T (key_cache_key k) = Some e \<and> blocked T e"
    and "\<forall>(now, old, behind) \<in> set rds. t0 \<le> now \<and> now \<le> T \<and> keys_get old k \<noteq> None"
    and "T \<le> t0 + secs (int (vf_ttl v))"
  shows "\<exists>c' e. vf_cache (fold (late_read k) rds v) = Some c' \<and> c_available c' \<and>
    c_look c' T (key_cache_key k) = Some e \<and> blocked T e"
  using assms
proof (induction rds arbitrary: v c)
  case (Cons rd rds)
  obtain now old behind where rd: "rd = (now, old, behind)" by (cases rd)
  obtain r where r: "keys_get old k = Some r" using Cons.prems(4) rd by auto
  obtain ws where ws: "vf_cache (late_read k rd v) = Some (memc.writes (key_cache_key k) ws c)"
    "\<forall>(n, e, ttl, ow) \<in> set ws. n = now \<and> (ow \<longrightarrow> blocked now e \<and> ttl = Some (vf_ttl v))"
    using late_read_cache [OF r Cons.prems(1)] rd by blast
  have now: "t0 \<le> now" "now \<le> T" using Cons.prems(4) rd by auto
  have ok: "blocked T e" if "blocked now e" for e
    using that now(2) unusable_stays by (auto simp: blocked_def split: key_entry.splits)
  have live: "\<not> expired T (expiry now (Some (vf_ttl v)))"
    using Cons.prems(5) now by (simp add: expiry_def expired_def)
  have all: "\<forall>(n, e, ttl, ow) \<in> set ws. n \<le> T \<and> (ow \<longrightarrow> blocked T e \<and> \<not> expired T (expiry n ttl))"
    using ws(2) now ok live by auto
  from memc.guarded_key [OF Cons.prems(2,3) all]
  have "\<exists>e. c_look (memc.writes (key_cache_key k) ws c) T (key_cache_key k) = Some e \<and> blocked T e" .
  moreover have "c_available (memc.writes (key_cache_key k) ws c)"
    using Cons.prems(2) by (simp add: memc.up_writes)
  ultimately show ?case
    using Cons.IH [OF ws(1)] Cons.prems(4,5) by simp
next
  case Nil
  then show ?case by auto
qed

text \<open>C3: a revoked key stays refused. Once the row is unusable and the key was invalidated, then for
  the whole life of a cached record no reader can bring the key back: whatever store reads begun
  before or after the revocation complete meanwhile, each caching the row it happened to see,
  every token of that key is refused.\<close>

theorem revocation_sticks:
  assumes "vf_cache v = Some c" and "c_available c"
    and "\<And>r. keys_get (vf_db v) k = Some r \<Longrightarrow> \<not> usable_at r t0"
    and "invalidate t0 strict k v = (res, v1)"
    and "\<forall>(now, old, behind) \<in> set rds. t0 \<le> now \<and> now \<le> T \<and> keys_get old k \<noteq> None"
    and "t0 \<le> T" and "T \<le> t0 + secs (int (vf_ttl v))"
    and "parse_token token = Some (k, secret)"
  shows "fst (verify content_hash T token (fold (late_read k) rds v1)) = Inl invalid_key"
proof -
  let ?c = "snd (c_set t0 (key_cache_key k) KE_TOMBSTONE (Some (2 * vf_ttl v)) c)"
  have v1: "v1 = v\<lparr>vf_cache := Some ?c\<rparr>"
    using assms(1,4) by (auto simp: invalidate_def split: prod.splits)
  have "\<not> expired T (expiry t0 (Some (2 * vf_ttl v)))"
    using assms(6,7) by (auto simp: expiry_def expired_def secs_def)
  then have tomb: "\<exists>e. c_look ?c T (key_cache_key k) = Some e \<and> blocked T e"
    using assms(2) by (auto simp: cache_defs blocked_def)
  have av: "c_available ?c" using assms(2) by (simp add: cache_defs)
  have db: "vf_db (fold (late_read k) rds v1) = vf_db v" for rds
    by (induction rds rule: rev_induct) (simp_all add: v1)
  obtain c' e where c': "vf_cache (fold (late_read k) rds v1) = Some c'" "c_available c'"
    "c_look c' T (key_cache_key k) = Some e" "blocked T e"
    using late_reads_blocked [of v1 ?c T k rds t0] av tomb assms(5,7) by (auto simp: v1)
  show ?thesis
  proof (rule refused_when_blocked [OF _ _ assms(8)])
    show "\<not> usable_at r T" if "keys_get (vf_db (fold (late_read k) rds v1)) k = Some r" for r
      using that assms(3,6) unusable_stays by (auto simp: db)
    show "blocked T e'" if "cache_look (fold (late_read k) rds v1) T k = Some e'" for e'
      using that c' by (simp add: cache_look_def)
  qed
qed

definition demo_key :: "string \<Rightarrow> ApiKey" where
  "demo_key k = \<lparr>ak_key_id = k, ak_tenant_id = ''acme'', ak_role = K_SERVICE, ak_name = ''svc'',
     ak_workspace_id = None, ak_secret_hash = ''s'', ak_created_by = ''platform'', ak_created_at = 0,
     ak_expires_at = None, ak_revoked_at = None, ak_last_used_at = None, ak_may_act_as = [''*'']\<rparr>"

definition demo_tenant :: Tenant where
  "demo_tenant = \<lparr>tn_tenant_id = ''acme'', tn_name = ''Acme'', tn_status = T_active,
     tn_retention_days = None, tn_rate_limit = None, tn_admission_gate = False, tn_created_at = 0,
     tn_updated_at = 0\<rparr>"

definition demo_db :: "ApiKey list \<Rightarrow> tenancy_db" where
  "demo_db ks = \<lparr>db_tenants = [demo_tenant], db_keys = ks, db_workspaces = [], db_members = []\<rparr>"

definition demo_verifier :: "tenancy_db \<Rightarrow> verifier" where
  "demo_verifier db = \<lparr>vf_db = db,
     vf_cache = Some \<lparr>c_data = Map.empty, c_lists = Map.empty, c_available = True, c_ops = 0\<rparr>,
     vf_ttl = 60, vf_touch_every = secs 60, vf_registry = None, vf_touched = [], vf_missing = [],
     vf_unknown_window = (0, 0)\<rparr>"

definition demo_id :: string where "demo_id = ''k234567890123456''"

lemma demo_token: "parse_token (''mk_'' @ demo_id @ ''.s'') = Some (demo_id, ''s'')"
  by code_simp

lemmas demo_defs = demo_key_def demo_tenant_def demo_db_def demo_verifier_def

theorem verify_sound_witness:
  "fst (verify (\<lambda>x. x) 1 (''mk_'' @ demo_id @ ''.s'') (demo_verifier (demo_db [demo_key demo_id]))) =
     Inr (verified (demo_key demo_id)) \<and>
   usable_at (demo_key demo_id) 1"
proof -
  let ?v = "demo_verifier (demo_db [demo_key demo_id])"
  obtain r v' where ver: "verify (\<lambda>x. x) 1 (''mk_'' @ demo_id @ ''.s'') ?v = (r, v')" by fastforce
  have look: "cache_look ?v 1 demo_id = None" by (simp add: cache_look_def demo_defs c_look_def)
  have "fst (load 1 demo_id ?v) = Some (stored_record (vf_db ?v) (demo_key demo_id))"
    by (simp add: load_def cached_raw_def cache_defs read_store_def unknown_def keys_get_def demo_defs Let_def)
  then have r: "r = Inr (verified (demo_key demo_id))"
    using ver unfolding verify_def demo_token
    by (cases "load 1 demo_id ?v")
      (auto simp: stored_record_def usable_at_def secret_matches_def tenants_get_def demo_defs Let_def split: if_splits)
  with ver look show ?thesis
    using verify_sound [of "\<lambda>x. x" 1 "''mk_'' @ demo_id @ ''.s''" ?v "verified (demo_key demo_id)" v'] demo_token
    by (auto simp: keys_get_def demo_defs stored_record_def split: if_splits)
qed

theorem verify_error_uniform_witness:
  "fst (verify (\<lambda>x. x) 1 ''garbage'' (demo_verifier (demo_db []))) = Inl invalid_key \<and> invalid_key \<noteq> suspended"
proof -
  have p: "parse_token ''garbage'' = None" by code_simp
  then have e: "fst (verify (\<lambda>x. x) 1 ''garbage'' (demo_verifier (demo_db []))) = Inl invalid_key"
    by (simp add: verify_def)
  from verify_error_uniform [OF e] p have "invalid_key = invalid_key" by blast
  with e show ?thesis by (simp add: invalid_key_def suspended_def)
qed

theorem revocation_sticks_witness:
  "fst (verify (\<lambda>x. x) (secs 30) (''mk_'' @ demo_id @ ''.s'')
     (fold (late_read demo_id) [(secs 10, demo_db [demo_key demo_id], False)]
       (snd (invalidate 5 True demo_id
          (demo_verifier (demo_db [(demo_key demo_id)\<lparr>ak_revoked_at := Some 4\<rparr>])))))) = Inl invalid_key"
proof -
  let ?v = "demo_verifier (demo_db [(demo_key demo_id)\<lparr>ak_revoked_at := Some 4\<rparr>])"
  obtain res v1 where i: "invalidate 5 True demo_id ?v = (res, v1)" by fastforce
  have "fst (verify (\<lambda>x. x) (secs 30) (''mk_'' @ demo_id @ ''.s'')
      (fold (late_read demo_id) [(secs 10, demo_db [demo_key demo_id], False)] v1)) = Inl invalid_key"
    by (rule revocation_sticks [OF _ _ _ i _ _ _ demo_token, where
          c = "\<lparr>c_data = Map.empty, c_lists = Map.empty, c_available = True, c_ops = 0\<rparr>"])
      (auto simp: demo_defs keys_get_def usable_at_def secs_def split: if_splits)
  then show ?thesis by (simp add: i)
qed

subsection \<open>What a tenant-wide invalidation reaches\<close>

lemma invalidate_other:
  assumes "k \<noteq> j"
  shows "cache_look (snd (invalidate now strict k v)) t j = cache_look v t j"
  using assms by (auto simp: invalidate_def cache_look_def key_cache_key_def cache_defs split: option.splits)

lemma invalidate_all_other:
  "j \<notin> set ks \<Longrightarrow> cache_look (snd (invalidate_all now strict ks v)) t j = cache_look v t j"
proof (induction now strict ks v rule: invalidate_all.induct)
  case (2 now strict k ks v)
  obtain r v' where i: "invalidate now strict k v = (r, v')" by fastforce
  have "cache_look v' t j = cache_look v t j"
    using invalidate_other [of k j now strict v t] 2 i by auto
  then show ?case using 2 i by (cases r) auto
qed simp

lemma pigeonhole_rows:
  assumes "distinct (map f xs)" and "length ys < length xs"
  shows "\<exists>x \<in> set xs. f x \<notin> set ys"
proof (rule ccontr)
  assume "\<not> ?thesis"
  then have "set (map f xs) \<subseteq> set ys" by auto
  then have "card (set (map f xs)) \<le> card (set ys)" by (rule card_mono [rotated]) simp
  then show False using assms card_length [of ys] by (simp only: distinct_card length_map)
qed

text \<open>Invalidating a tenant reaches at most its first hundred keys. When a tenant has more key
  rows than the default page of the listing, some key of the tenant keeps whatever the cache held
  for it, although every key is meant to re-read the store.\<close>

theorem invalidate_tenant_misses_keys:
  assumes "db_ok (vf_db v)"
    and "length (filter (\<lambda>r. ak_tenant_id r = t) (db_keys (vf_db v))) > KEYS_LIST_LIMIT"
  shows "\<exists>r \<in> set (db_keys (vf_db v)). ak_tenant_id r = t \<and>
    (\<forall>now'. cache_look (snd (invalidate_tenant now strict t v)) now' (ak_key_id r) =
            cache_look v now' (ak_key_id r))"
proof -
  let ?rows = "filter (\<lambda>r. ak_tenant_id r = t) (db_keys (vf_db v))"
  let ?page = "map ak_key_id (keys_list (vf_db v) t None KEYS_LIST_LIMIT)"
  have "length ?page \<le> KEYS_LIST_LIMIT" by (simp add: keys_list_def)
  moreover have "distinct (map ak_key_id ?rows)" using assms(1) by (simp add: db_ok_def distinct_map_filter)
  ultimately obtain r where "r \<in> set ?rows" "ak_key_id r \<notin> set ?page"
    using pigeonhole_rows [of ak_key_id ?rows ?page] assms(2) by auto
  then show ?thesis using invalidate_all_other by (auto simp: invalidate_tenant_def)
qed

theorem invalidate_tenant_misses_keys_witness:
  "\<exists>r \<in> set (map (\<lambda>i. demo_key (show_nat i)) [0..<101]). ak_tenant_id r = ''acme'' \<and>
    (\<forall>now'. cache_look (snd (invalidate_tenant 0 True ''acme''
        (demo_verifier (demo_db (map (\<lambda>i. demo_key (show_nat i)) [0..<101]))))) now' (ak_key_id r) =
      cache_look (demo_verifier (demo_db (map (\<lambda>i. demo_key (show_nat i)) [0..<101]))) now' (ak_key_id r))"
proof -
  let ?ks = "map (\<lambda>i. demo_key (show_nat i)) [0..<101]"
  have "distinct (map ak_key_id ?ks)"
    by (simp add: comp_def demo_key_def distinct_map inj_on_def del: upt_Suc)
  then have ok: "db_ok (vf_db (demo_verifier (demo_db ?ks)))"
    by (simp add: db_ok_def demo_verifier_def demo_db_def del: upt_Suc map_map)
  have "filter (\<lambda>r. ak_tenant_id r = ''acme'') ?ks = ?ks"
    by (rule filter_True) (simp add: demo_key_def del: upt_Suc)
  then have "length (filter (\<lambda>r. ak_tenant_id r = ''acme'') (db_keys (vf_db (demo_verifier (demo_db ?ks))))) > KEYS_LIST_LIMIT"
    by (simp add: demo_verifier_def demo_db_def KEYS_LIST_LIMIT_def del: upt_Suc)
  from invalidate_tenant_misses_keys [OF ok this, of 0 True] show ?thesis
    by (simp only: demo_verifier_def demo_db_def verifier.simps tenancy_db.simps)
qed

end
