(* ===== verification/Authentication.thy ===== *)
theory Authentication
  imports Api_Keys
begin

text \<open>
  Service authentication (\<open>modules/auth/authentication.py\<close>): which service is calling, by one of
  three modes. Request headers are a map from lower-cased names to values. The claims of an
  issuer's token are whatever the issuer wrote, so a claim is a string, a number or a list of
  strings; \<open>py_str\<close> stands for Python's \<open>str\<close> on the last two, \<open>sha256_hex\<close> for the digest of a
  development key, and \<open>jwks\<close> for the third-party verification of a token's signature (\<open>None\<close>
  when it raises).
\<close>

datatype claim = C_str string | C_num int | C_list "string list"

type_synonym claims = "(string \<times> claim) list"

fun claim_truthy :: "claim \<Rightarrow> bool" where
  "claim_truthy (C_str s) = (s \<noteq> [])"
| "claim_truthy (C_num n) = (n \<noteq> 0)"
| "claim_truthy (C_list xs) = (xs \<noteq> [])"

fun claim_str :: "(claim \<Rightarrow> string) \<Rightarrow> claim \<Rightarrow> string" where
  "claim_str py_str (C_str s) = s"
| "claim_str py_str c = py_str c"

datatype auth_mode = trusted_dev | jwt | api_key

record ServicePrincipal =
  sp_service_id :: string
  sp_mode :: auth_mode
  sp_claims :: claims

record auth_settings =
  au_mode :: auth_mode
  au_trusted_dev_api_keys :: "string list"
  au_bootstrap_admin_key :: "string option"
  au_jwt_issuer :: "string option"
  au_jwt_audience :: "string option"

type_synonym headers = "string \<rightharpoonup> string"

fun key_role_value :: "KeyRole \<Rightarrow> string" where
  "key_role_value K_PLATFORM = ''platform''"
| "key_role_value K_ADMIN = ''admin''"
| "key_role_value K_SERVICE = ''service''"

definition bearer_prefix :: "string \<Rightarrow> bool" where
  "bearer_prefix auth \<longleftrightarrow> map lower_char (take 7 auth) = ''bearer ''"

definition presented_token :: "headers \<Rightarrow> string" where
  "presented_token h =
     (case h ''x-api-key'' of
        Some (c # cs) \<Rightarrow> c # cs
      | _ \<Rightarrow> (let auth = (case h ''authorization'' of None \<Rightarrow> [] | Some a \<Rightarrow> a)
              in if bearer_prefix auth then bare_credential auth else []))"

definition platform_principal :: ServicePrincipal where
  "platform_principal = \<lparr>sp_service_id = PLATFORM_SCOPE, sp_mode = api_key,
     sp_claims = [(''role'', C_str (key_role_value K_PLATFORM))]\<rparr>"

definition optional_claim :: "string \<Rightarrow> string option \<Rightarrow> claims" where
  "optional_claim name x = (case x of None \<Rightarrow> [] | Some v \<Rightarrow> [(name, C_str v)])"

definition key_service_principal :: "VerifiedKey \<Rightarrow> ServicePrincipal" where
  "key_service_principal k = \<lparr>sp_service_id = ''key:'' @ vk_key_id k, sp_mode = api_key,
     sp_claims = [(''role'', C_str (key_role_value (vk_role k))), (''tenant'', C_str (vk_tenant_id k))] @
       optional_claim ''workspace'' (vk_workspace_id k) @
       [(''key_id'', C_str (vk_key_id k)), (''may_act_as'', C_list (vk_may_act_as k))]\<rparr>"

text \<open>\<open>verifier\<close> is \<open>None\<close> when the authenticator was built without a key store.\<close>

definition auth_api_key :: "(string \<Rightarrow> string) \<Rightarrow> instant \<Rightarrow> auth_settings \<Rightarrow> headers \<Rightarrow> verifier option \<Rightarrow>
    (service_error + ServicePrincipal) \<times> verifier option" where
  "auth_api_key content_hash now cfg h vo =
     (let token = presented_token h in
      if token = [] then (Inl invalid_key, vo)
      else if au_bootstrap_admin_key cfg = Some token then (Inr platform_principal, vo)
      else case vo of None \<Rightarrow> (Inl DependencyUnavailable, vo)
        | Some v \<Rightarrow> (case verify content_hash now token v of
            (Inl e, v') \<Rightarrow> (Inl e, Some v') | (Inr k, v') \<Rightarrow> (Inr (key_service_principal k), Some v')))"

definition auth_trusted_dev :: "(string \<Rightarrow> string) \<Rightarrow> auth_settings \<Rightarrow> headers \<Rightarrow> ServicePrincipal option" where
  "auth_trusted_dev sha256_hex cfg h =
     (case h ''x-api-key'' of None \<Rightarrow> None
      | Some k \<Rightarrow> if k = [] \<or> k \<notin> set (au_trusted_dev_api_keys cfg) then None
                 else Some \<lparr>sp_service_id = ''dev:'' @ take 8 (sha256_hex k), sp_mode = trusted_dev, sp_claims = []\<rparr>)"

definition bearer_token :: "headers \<Rightarrow> service_error + string" where
  "bearer_token h =
     (let auth = (case h ''authorization'' of None \<Rightarrow> [] | Some a \<Rightarrow> a) in
      case py_partition (CHR '' '') auth of (scheme, _, token) \<Rightarrow>
        if map lower_char scheme \<noteq> ''bearer'' \<or> token = [] then Inl (AuthenticationFailed ''Missing bearer token'')
        else Inr (strip token))"

definition claim_expired :: "instant \<Rightarrow> claims \<Rightarrow> service_error + bool" where
  "claim_expired now cs = (case map_of cs ''exp'' of None \<Rightarrow> Inr False
     | Some (C_num n) \<Rightarrow> Inr (secs n < now) | Some _ \<Rightarrow> Inl ValueError)"

definition audience_ok :: "auth_settings \<Rightarrow> claims \<Rightarrow> bool" where
  "audience_ok cfg cs = (case au_jwt_audience cfg of None \<Rightarrow> True
     | Some a \<Rightarrow> a = [] \<or> (case map_of cs ''aud'' of
         Some (C_list xs) \<Rightarrow> a \<in> set xs | Some (C_str s) \<Rightarrow> a = s | _ \<Rightarrow> False))"

definition issuer_ok :: "auth_settings \<Rightarrow> claims \<Rightarrow> bool" where
  "issuer_ok cfg cs = (case au_jwt_issuer cfg of None \<Rightarrow> True
     | Some i \<Rightarrow> i = [] \<or> map_of cs ''iss'' = Some (C_str i))"

definition subject_of :: "(claim \<Rightarrow> string) \<Rightarrow> claims \<Rightarrow> string" where
  "subject_of py_str cs =
     (case filter claim_truthy (List.map_filter (map_of cs) [''sub'', ''client_id'']) of
        [] \<Rightarrow> [] | c # _ \<Rightarrow> claim_str py_str c)"

definition auth_jwt :: "(claim \<Rightarrow> string) \<Rightarrow> (string \<Rightarrow> claims option) \<Rightarrow> instant \<Rightarrow> auth_settings \<Rightarrow> headers \<Rightarrow>
    service_error + ServicePrincipal" where
  "auth_jwt py_str jwks now cfg h =
     rbind (bearer_token h) (\<lambda>token.
       case jwks token of None \<Rightarrow> Inl (AuthenticationFailed ''Invalid token'')
       | Some cs \<Rightarrow> rbind (claim_expired now cs) (\<lambda>ex.
           if ex then Inl (AuthenticationFailed ''Token expired'')
           else if \<not> issuer_ok cfg cs then Inl (AuthenticationFailed ''Unexpected issuer'')
           else if \<not> audience_ok cfg cs then Inl (AuthenticationFailed ''Unexpected audience'')
           else let sub = subject_of py_str cs in
             if sub = [] then Inl (AuthenticationFailed ''Token has no subject'')
             else Inr \<lparr>sp_service_id = sub, sp_mode = jwt, sp_claims = cs\<rparr>))"

record auth_env =
  ae_content_hash :: "string \<Rightarrow> string"
  ae_sha256_hex :: "string \<Rightarrow> string"
  ae_py_str :: "claim \<Rightarrow> string"
  ae_jwks :: "string \<Rightarrow> claims option"

definition authenticate :: "auth_env \<Rightarrow> instant \<Rightarrow> auth_settings \<Rightarrow> headers \<Rightarrow> verifier option \<Rightarrow>
    (service_error + ServicePrincipal) \<times> verifier option" where
  "authenticate env now cfg h vo =
     (case au_mode cfg of
        trusted_dev \<Rightarrow>
          (case auth_trusted_dev (ae_sha256_hex env) cfg h of
             Some p \<Rightarrow> (Inr p, vo)
           | None \<Rightarrow> (case vo of None \<Rightarrow> (Inl invalid_key, vo)
               | Some _ \<Rightarrow> auth_api_key (ae_content_hash env) now cfg h vo))
      | jwt \<Rightarrow> (auth_jwt (ae_py_str env) (ae_jwks env) now cfg h, vo)
      | api_key \<Rightarrow> auth_api_key (ae_content_hash env) now cfg h vo)"

subsection \<open>What a mode means\<close>

definition is_platform :: "ServicePrincipal \<Rightarrow> bool" where
  "is_platform p \<longleftrightarrow> sp_mode p = api_key \<and> sp_service_id p = PLATFORM_SCOPE"

lemma key_principal_not_platform [simp]: "\<not> is_platform (key_service_principal k)"
  by (simp add: is_platform_def key_service_principal_def PLATFORM_SCOPE_def)

lemma jwt_mode: "auth_jwt f j now cfg h = Inr p \<Longrightarrow> sp_mode p = jwt"
  unfolding auth_jwt_def Let_def
  by (cases "bearer_token h"; simp split: option.split_asm;
      cases "claim_expired now (the (j (projr (bearer_token h))))"; simp split: if_split_asm)
    (hypsubst, simp)+

lemma dev_mode: "auth_trusted_dev f cfg h = Some p \<Longrightarrow> sp_mode p = trusted_dev \<and> sp_claims p = []"
  by (auto simp: auth_trusted_dev_def split: option.splits if_splits)

text \<open>The platform operator is whoever holds the bootstrap secret, and nobody else. In every mode,
  an authenticated principal is the platform exactly when the presented token is the configured
  bootstrap secret and the key path was taken; an issuer's token, whatever its subject or role
  claim, and an issued key, whatever its row says, never are.\<close>

theorem platform_needs_bootstrap_secret:
  assumes "fst (authenticate env now cfg h vo) = Inr p" and "is_platform p"
  shows "au_bootstrap_admin_key cfg = Some (presented_token h) \<and> presented_token h \<noteq> [] \<and>
    p = platform_principal \<and> au_mode cfg \<noteq> jwt"
proof -
  have key: "au_bootstrap_admin_key cfg = Some (presented_token h) \<and> presented_token h \<noteq> [] \<and> p = platform_principal"
    if "fst (auth_api_key (ae_content_hash env) now cfg h vo) = Inr p"
    using that assms(2)
    by (auto simp: auth_api_key_def Let_def split: if_splits option.splits prod.splits sum.splits)
  show ?thesis
  proof (cases "au_mode cfg")
    case trusted_dev
    then show ?thesis
      using assms key dev_mode [of "ae_sha256_hex env" cfg h]
      by (auto simp: authenticate_def is_platform_def split: option.splits)
  next
    case jwt
    then show ?thesis using assms jwt_mode [of "ae_py_str env" "ae_jwks env" now cfg h p]
      by (simp add: authenticate_def is_platform_def)
  next
    case api_key
    then show ?thesis using assms key by (simp add: authenticate_def)
  qed
qed

theorem platform_needs_bootstrap_secret_witness:
  "au_bootstrap_admin_key \<lparr>au_mode = api_key, au_trusted_dev_api_keys = [], au_bootstrap_admin_key = Some ''root'',
     au_jwt_issuer = None, au_jwt_audience = None\<rparr> = Some (presented_token [''x-api-key'' \<mapsto> ''root''])"
proof -
  let ?cfg = "\<lparr>au_mode = api_key, au_trusted_dev_api_keys = [], au_bootstrap_admin_key = Some ''root'',
     au_jwt_issuer = None, au_jwt_audience = None\<rparr>"
  let ?env = "\<lparr>ae_content_hash = (\<lambda>x. x), ae_sha256_hex = (\<lambda>x. x), ae_py_str = (\<lambda>_. []), ae_jwks = (\<lambda>_. None)\<rparr>"
  have a: "fst (authenticate ?env 0 ?cfg [''x-api-key'' \<mapsto> ''root''] None) = Inr platform_principal"
    by (simp add: authenticate_def auth_api_key_def presented_token_def)
  have "is_platform platform_principal" by (simp add: is_platform_def platform_principal_def)
  from platform_needs_bootstrap_secret [OF a this] show ?thesis by blast
qed

end
