(* ===== verification/Idempotency.thy ===== *)
theory Idempotency
  imports Cache Ids
begin

text \<open>
  Idempotent writes: \<open>modules/idempotency/service.py\<close>, \<open>SqlIdempotencyRepository\<close> of
  \<open>adapters/db/repositories.py\<close> and \<open>run_idempotent\<close> of \<open>api/idempotent.py\<close>.

  A request carries the digest of its payload (\<open>request_hash\<close>, a parameter). The service's state
  is the idempotency table, the rest of the database (of any type: what a handler changes) and
  the cache. A unit of work is a transaction: an exception inside it leaves the database as it
  was. A handler returns a status, a body and an optional action to run after the commit; the clock is
  read when the key is reserved (\<open>rq_now\<close>) and again when the cache is warmed (\<open>rq_done\<close>). The
  type of JSON bodies is a parameter, \<open>eb\<close> is the body \<open>{}\<close>.
\<close>

record 'b idem_row =
  ir_request_hash :: string
  ir_status :: "nat option"
  ir_body :: "'b option"
  ir_expires_at :: instant

record 'b idem_entry =
  ie_request_hash :: string
  ie_status :: nat
  ie_body :: 'b

type_synonym 'b idem_table = "(string \<times> string) \<rightharpoonup> 'b idem_row"

record ('w, 'b) service =
  sv_rows :: "'b idem_table"
  sv_app :: 'w
  sv_cache :: "'b idem_entry cache option"

type_synonym ('w, 'b) handler =
  "'w \<Rightarrow> (service_error + nat \<times> 'b \<times> ('w \<Rightarrow> (service_error + unit) \<times> 'w) option) \<times> 'w"

subsection \<open>The repository\<close>

definition idem_reserve :: "string \<Rightarrow> string \<Rightarrow> 'b idem_row \<Rightarrow> 'b idem_table \<Rightarrow> bool \<times> 'b idem_table" where
  "idem_reserve t k r rows = (if rows (t, k) = None then (True, rows((t, k) \<mapsto> r)) else (False, rows))"

definition idem_complete :: "string \<Rightarrow> string \<Rightarrow> nat \<Rightarrow> 'b \<Rightarrow> 'b idem_table \<Rightarrow> 'b idem_table" where
  "idem_complete t k status body rows =
     (case rows (t, k) of None \<Rightarrow> rows
      | Some r \<Rightarrow> rows((t, k) \<mapsto> r\<lparr>ir_status := Some status, ir_body := Some body\<rparr>))"

text \<open>\<open>purge_expired\<close> deletes up to \<open>limit\<close> expired rows, in whatever order the database returns
  them: \<open>ids\<close> is that selection.\<close>

definition purge_selects :: "instant \<Rightarrow> nat \<Rightarrow> 'b idem_table \<Rightarrow> (string \<times> string) list \<Rightarrow> bool" where
  "purge_selects now lim rows ids \<longleftrightarrow> distinct ids \<and> length ids \<le> lim \<and>
     list_all (\<lambda>i. case rows i of None \<Rightarrow> False | Some r \<Rightarrow> ir_expires_at r < now) ids"

definition purge_expired :: "(string \<times> string) list \<Rightarrow> 'b idem_table \<Rightarrow> 'b idem_table" where
  "purge_expired ids rows = fold (\<lambda>i m. m(i := None)) ids rows"

subsection \<open>The service\<close>

definition idem_cache_key :: "string \<Rightarrow> string \<Rightarrow> string" where
  "idem_cache_key t k = ''idem:'' @ t @ '':'' @ k"

definition reused :: service_error where
  "reused = Conflict ''Idempotency-Key reused with a different payload'' False"

definition lookup_cached :: "instant \<Rightarrow> string \<Rightarrow> string \<Rightarrow> string \<Rightarrow> 'b idem_entry cache option \<Rightarrow>
    (service_error + (nat \<times> 'b) option) \<times> 'b idem_entry cache option" where
  "lookup_cached now t k h co =
     (case co of None \<Rightarrow> (Inr None, None)
      | Some c \<Rightarrow>
        (case c_get now (idem_cache_key t k) c of
           (Inl _, c') \<Rightarrow> (Inr None, Some c')
         | (Inr None, c') \<Rightarrow> (Inr None, Some c')
         | (Inr (Some e), c') \<Rightarrow>
             (if ie_request_hash e \<noteq> h then Inl reused else Inr (Some (ie_status e, ie_body e)), Some c')))"

definition idem_begin :: "'b \<Rightarrow> nat \<Rightarrow> instant \<Rightarrow> string \<Rightarrow> string \<Rightarrow> string \<Rightarrow> 'b idem_table \<Rightarrow>
    (service_error + (nat \<times> 'b) option) \<times> 'b idem_table" where
  "idem_begin eb window now t k h rows =
     (let rec0 = \<lparr>ir_request_hash = h, ir_status = None, ir_body = None,
                    ir_expires_at = now + secs (int window)\<rparr> in
      case idem_reserve t k rec0 rows of
        (True, rows1) \<Rightarrow> (Inr None, rows1)
      | (False, rows1) \<Rightarrow>
        (case rows1 (t, k) of
           None \<Rightarrow>
             (case idem_reserve t k rec0 rows1 of
                (True, rows2) \<Rightarrow> (Inr None, rows2)
              | (False, rows2) \<Rightarrow> (Inl (Conflict ''Idempotency-Key is being processed'' False), rows2))
         | Some existing \<Rightarrow>
             if ir_expires_at existing < now then
               (Inl (Conflict ''Idempotency-Key expired; retry with a new key'' False),
                idem_complete t k 0 eb rows1)
             else if ir_request_hash existing \<noteq> h then (Inl reused, rows1)
             else case (ir_status existing, ir_body existing) of
                 (Some st, Some b) \<Rightarrow> (Inr (Some (st, b)), rows1)
               | _ \<Rightarrow> (Inl (Conflict ''Idempotency-Key is being processed'' True), rows1)))"

definition warm_cache :: "nat \<Rightarrow> instant \<Rightarrow> string \<Rightarrow> string \<Rightarrow> string \<Rightarrow> nat \<Rightarrow> 'b \<Rightarrow>
    'b idem_entry cache option \<Rightarrow> 'b idem_entry cache option" where
  "warm_cache window now t k h status body co =
     (case co of None \<Rightarrow> None
      | Some c \<Rightarrow> Some (snd (c_set now (idem_cache_key t k)
          \<lparr>ie_request_hash = h, ie_status = status, ie_body = body\<rparr> (Some window) c)))"

subsection \<open>The route helper\<close>

definition NO_CONTENT :: nat where "NO_CONTENT = 204"

record 'b response =
  rs_status :: nat
  rs_body :: "'b option"
  rs_replayed :: bool
  rs_location :: "string option"

definition respond :: "string \<Rightarrow> ('b \<Rightarrow> string option) option \<Rightarrow> bool \<Rightarrow> nat \<Rightarrow> 'b \<Rightarrow> 'b response" where
  "respond root_path location replayed status body =
     (let loc = (case location of None \<Rightarrow> None | Some f \<Rightarrow> f body) in
      \<lparr> rs_status = status, rs_body = (if status = NO_CONTENT then None else Some body),
        rs_replayed = replayed,
        rs_location = (if truthy loc then Some (root_path @ or_empty loc) else None) \<rparr>)"

definition default_idempotency_key :: "(string \<Rightarrow> string) \<Rightarrow> string \<Rightarrow> string option list \<Rightarrow> string list \<Rightarrow> string" where
  "default_idempotency_key blake2b tenant_id lineage parts =
     ''auto-'' @ stable_key blake2b (tenant_id # map or_empty lineage @ parts)"

record ('w, 'b) idem_request =
  rq_now :: instant
  rq_done :: instant
  rq_tenant :: string
  rq_key :: "string option"
  rq_hash :: string
  rq_handler :: "('w, 'b) handler"
  rq_stored_body :: "('b \<Rightarrow> 'b) option"
  rq_location :: "('b \<Rightarrow> string option) option"

definition run_after :: "('w \<Rightarrow> (service_error + unit) \<times> 'w) option \<Rightarrow> 'b response \<Rightarrow>
    ('w, 'b) service \<Rightarrow> (service_error + 'b response) \<times> ('w, 'b) service" where
  "run_after after resp s =
     (case after of None \<Rightarrow> (Inr resp, s)
      | Some f \<Rightarrow> (case f (sv_app s) of
          (Inl e, w) \<Rightarrow> (Inl e, s\<lparr>sv_app := w\<rparr>) | (Inr _, w) \<Rightarrow> (Inr resp, s\<lparr>sv_app := w\<rparr>)))"

definition run_idempotent :: "'b \<Rightarrow> nat \<Rightarrow> string \<Rightarrow> ('w, 'b) idem_request \<Rightarrow> ('w, 'b) service \<Rightarrow>
    (service_error + 'b response) \<times> ('w, 'b) service" where
  "run_idempotent eb window root rq s =
     (case rq_key rq of
        None \<Rightarrow>
          (case rq_handler rq (sv_app s) of
             (Inl e, _) \<Rightarrow> (Inl e, s)
           | (Inr (status, body, after), w) \<Rightarrow>
               run_after after (respond root (rq_location rq) False status body) (s\<lparr>sv_app := w\<rparr>))
      | Some k \<Rightarrow>
        (case lookup_cached (rq_now rq) (rq_tenant rq) k (rq_hash rq) (sv_cache s) of
           (Inl e, c) \<Rightarrow> (Inl e, s\<lparr>sv_cache := c\<rparr>)
         | (Inr (Some (status, body)), c) \<Rightarrow>
             (Inr (respond root (rq_location rq) True status body), s\<lparr>sv_cache := c\<rparr>)
         | (Inr None, c) \<Rightarrow>
           (let s1 = s\<lparr>sv_cache := c\<rparr> in
            case idem_begin eb window (rq_now rq) (rq_tenant rq) k (rq_hash rq) (sv_rows s1) of
              (Inl e, _) \<Rightarrow> (Inl e, s1)
            | (Inr (Some (status, body)), _) \<Rightarrow>
                (Inr (respond root (rq_location rq) True status body), s1)
            | (Inr None, rows) \<Rightarrow>
              (case rq_handler rq (sv_app s1) of
                 (Inl e, _) \<Rightarrow> (Inl e, s1)
               | (Inr (status, body, after), w) \<Rightarrow>
                   let kept = (case rq_stored_body rq of None \<Rightarrow> body | Some f \<Rightarrow> f body);
                       s2 = s1\<lparr>sv_rows := idem_complete (rq_tenant rq) k status kept rows, sv_app := w,
                               sv_cache := warm_cache window (rq_done rq) (rq_tenant rq) k (rq_hash rq)
                                 status kept c\<rparr>
                   in run_after after (respond root (rq_location rq) False status body) s2))))"

text \<open>What can happen to the service: a request, or the purge of expired rows.\<close>

datatype ('w, 'b) idem_event = Call "('w, 'b) idem_request" | Purge instant "(string \<times> string) list"

fun event_time :: "('w, 'b) idem_event \<Rightarrow> instant" where
  "event_time (Call rq) = rq_now rq"
| "event_time (Purge now _) = now"

fun do_event :: "'b \<Rightarrow> nat \<Rightarrow> string \<Rightarrow> nat \<Rightarrow> ('w, 'b) idem_event \<Rightarrow> ('w, 'b) service \<Rightarrow> ('w, 'b) service" where
  "do_event eb window root lim (Call rq) s = snd (run_idempotent eb window root rq s)"
| "do_event eb window root lim (Purge now ids) s =
     (if purge_selects now lim (sv_rows s) ids then s\<lparr>sv_rows := purge_expired ids (sv_rows s)\<rparr> else s)"

subsection \<open>Exactly once\<close>

text \<open>A request whose handler ran and committed with this status, body and kept body.\<close>

definition executes :: "'b \<Rightarrow> nat \<Rightarrow> ('w, 'b) idem_request \<Rightarrow> string \<Rightarrow> ('w, 'b) service \<Rightarrow> nat \<Rightarrow> 'b \<Rightarrow> bool" where
  "executes eb window rq k s status kept \<longleftrightarrow>
     rq_key rq = Some k \<and>
     fst (lookup_cached (rq_now rq) (rq_tenant rq) k (rq_hash rq) (sv_cache s)) = Inr None \<and>
     fst (idem_begin eb window (rq_now rq) (rq_tenant rq) k (rq_hash rq) (sv_rows s)) = Inr None \<and>
     (\<exists>body after. fst (rq_handler rq (sv_app s)) = Inr (status, body, after) \<and>
        kept = (case rq_stored_body rq of None \<Rightarrow> body | Some f \<Rightarrow> f body))"

text \<open>The response of (tenant, key) is on record until \<open>exp\<close>, and the cache does not contradict it.\<close>

definition on_record :: "string \<Rightarrow> string \<Rightarrow> string \<Rightarrow> nat \<Rightarrow> 'b \<Rightarrow> instant \<Rightarrow> ('w, 'b) service \<Rightarrow> bool" where
  "on_record t k h st b exp s \<longleftrightarrow>
     sv_rows s (t, k) = Some \<lparr>ir_request_hash = h, ir_status = Some st, ir_body = Some b, ir_expires_at = exp\<rparr> \<and>
     (\<forall>c. sv_cache s = Some c \<and> c_available c \<longrightarrow>
        (\<forall>e x. c_data c (idem_cache_key t k) = Some (e, x) \<longrightarrow>
           e = \<lparr>ie_request_hash = h, ie_status = st, ie_body = b\<rparr>))"

lemma idem_cache_key_inject:
  assumes "CHR '':'' \<notin> set t" and "CHR '':'' \<notin> set t'"
  shows "idem_cache_key t k = idem_cache_key t' k' \<longleftrightarrow> t = t' \<and> k = k'"
  using sep_inject [OF assms, of k k'] by (simp add: idem_cache_key_def)

lemma c_get_unfold:
  "c_get now k c =
     (if c_available c
      then (case c_data c k of None \<Rightarrow> (Inr None, c\<lparr>c_ops := c_ops c + 1\<rparr>)
            | Some (v, e) \<Rightarrow> if expired now e
                then (Inr None, c\<lparr>c_ops := c_ops c + 1, c_data := (c_data c)(k := None)\<rparr>)
                else (Inr (Some v), c\<lparr>c_ops := c_ops c + 1\<rparr>))
      else (Inl CacheUnavailable, c\<lparr>c_ops := c_ops c + 1\<rparr>))"
  by (simp add: c_get_def guarded_def c_check_def live_def split: option.split prod.split)

lemma c_get_available: "c_available (snd (c_get now k c)) = c_available c"
  by (simp add: c_get_unfold split: option.split prod.split)

lemma c_get_data: "c_data (snd (c_get now k c)) j = Some y \<Longrightarrow> c_data c j = Some y"
  by (simp add: c_get_unfold split: option.split_asm prod.split_asm if_split_asm)

lemma c_get_value: "fst (c_get now k c) = Inr (Some v) \<Longrightarrow> c_available c \<and> (\<exists>x. c_data c k = Some (v, x))"
  by (simp add: c_get_unfold split: option.split_asm prod.split_asm if_split_asm)

lemmas c_get_facts = c_get_available c_get_data c_get_value

lemma c_set_facts:
  "c_available (snd (c_set now k v ttl c)) = c_available c"
  "c_available c \<Longrightarrow> c_data (snd (c_set now k v ttl c)) j = (if j = k then Some (v, expiry now ttl) else c_data c j)"
  by (simp_all add: c_set_def guarded_def c_check_def store_def)

lemma lookup_cached_result:
  assumes "on_record t k h st b exp s"
  shows "fst (lookup_cached now t k h' (sv_cache s)) =
      (if h' = h then Inr (Some (st, b)) else Inl reused) \<or>
    fst (lookup_cached now t k h' (sv_cache s)) = Inr None"
proof (cases "sv_cache s")
  case (Some c)
  obtain r c' where g: "c_get now (idem_cache_key t k) c = (r, c')" by fastforce
  have e: "e = \<lparr>ie_request_hash = h, ie_status = st, ie_body = b\<rparr>" if "r = Inr (Some e)" for e
    using c_get_facts(3) [of now "idem_cache_key t k" c e] assms Some g that
    by (auto simp: on_record_def)
  then show ?thesis
  proof (cases r)
    case (Inr o')
    then show ?thesis
      using Some g e by (cases o') (simp_all add: lookup_cached_def)
  qed (simp add: lookup_cached_def Some g)
qed (simp add: lookup_cached_def)

lemma lookup_cached_cache:
  "snd (lookup_cached now t k h co) = map_option (\<lambda>c. snd (c_get now (idem_cache_key t k) c)) co"
  by (auto simp: lookup_cached_def split: option.splits sum.splits prod.splits)

lemma on_record_cache:
  assumes "on_record t k h st b exp s"
  shows "on_record t k h st b exp (s\<lparr>sv_cache := snd (lookup_cached now t' k' h' (sv_cache s))\<rparr>)"
  using assms unfolding on_record_def lookup_cached_cache
  by (auto simp: c_get_facts(1) dest: c_get_facts(2))

lemma begin_on_record:
  assumes "sv_rows s (t, k) = Some \<lparr>ir_request_hash = h, ir_status = Some st, ir_body = Some b, ir_expires_at = exp\<rparr>"
    and "now \<le> exp"
  shows "fst (idem_begin eb window now t k h' (sv_rows s)) =
    (if h' = h then Inr (Some (st, b)) else Inl reused)"
  using assms by (simp add: idem_begin_def idem_reserve_def)

lemma begin_reserves:
  assumes "fst (idem_begin eb window now t k h rows) = Inr None"
  shows "rows (t, k) = None" and "snd (idem_begin eb window now t k h rows) = rows((t, k) \<mapsto>
    \<lparr>ir_request_hash = h, ir_status = None, ir_body = None, ir_expires_at = now + secs (int window)\<rparr>)"
  using assms by (auto simp: idem_begin_def idem_reserve_def Let_def split: if_splits option.splits)

lemma run_after_frame [simp]:
  "sv_rows (snd (run_after a r s)) = sv_rows s" "sv_cache (snd (run_after a r s)) = sv_cache s"
  by (simp_all add: run_after_def split: option.split prod.split sum.split)

text \<open>The state after a request: unchanged but for the cache read, or the handler's commit.\<close>

lemma run_idempotent_effect:
  fixes s :: "('w, 'b) service"
  assumes "rq_key rq = Some k"
  defines "s1 \<equiv> s\<lparr>sv_cache := snd (lookup_cached (rq_now rq) (rq_tenant rq) k (rq_hash rq) (sv_cache s))\<rparr>"
  shows "\<not> (\<exists>st kept. executes eb window rq k s st kept) \<Longrightarrow>
      snd (run_idempotent eb window root rq s) = s1"
    and "executes eb window rq k s st kept \<Longrightarrow>
      sv_rows (snd (run_idempotent eb window root rq s)) = (sv_rows s)((rq_tenant rq, k) \<mapsto>
        \<lparr>ir_request_hash = rq_hash rq, ir_status = Some st, ir_body = Some kept,
         ir_expires_at = rq_now rq + secs (int window)\<rparr>) \<and>
      sv_cache (snd (run_idempotent eb window root rq s)) =
        warm_cache window (rq_done rq) (rq_tenant rq) k (rq_hash rq) st kept (sv_cache s1)"
proof -
  obtain lr c where l: "lookup_cached (rq_now rq) (rq_tenant rq) k (rq_hash rq) (sv_cache s) = (lr, c)"
    by fastforce
  obtain br rows where b: "idem_begin eb window (rq_now rq) (rq_tenant rq) k (rq_hash rq) (sv_rows s) = (br, rows)"
    by fastforce
  obtain hr w where h: "rq_handler rq (sv_app s) = (hr, w)" by fastforce
  have s1: "s1 = s\<lparr>sv_cache := c\<rparr>" by (simp add: s1_def l)
  show "snd (run_idempotent eb window root rq s) = s1"
    if n: "\<not> (\<exists>st kept. executes eb window rq k s st kept)"
  proof -
    have no: "lr \<noteq> Inr None \<or> br \<noteq> Inr None \<or> (\<exists>e. hr = Inl e)"
      using n assms(1) l b h by (cases hr) (auto simp: executes_def)
    show ?thesis
      using no assms(1) l b h unfolding s1
      by (cases lr; cases br; cases hr) (auto simp: run_idempotent_def Let_def split: option.splits)
  qed
  assume "executes eb window rq k s st kept"
  then obtain body after where x: "lr = Inr None" "br = Inr None" "hr = Inr (st, body, after)"
    and kept: "kept = (case rq_stored_body rq of None \<Rightarrow> body | Some f \<Rightarrow> f body)"
    using l b h by (auto simp: executes_def)
  have rows: "rows = (sv_rows s)((rq_tenant rq, k) \<mapsto> \<lparr>ir_request_hash = rq_hash rq, ir_status = None,
      ir_body = None, ir_expires_at = rq_now rq + secs (int window)\<rparr>)"
    using begin_reserves(2) [of eb window "rq_now rq" "rq_tenant rq" k "rq_hash rq" "sv_rows s"] b x by simp
  show "sv_rows (snd (run_idempotent eb window root rq s)) = (sv_rows s)((rq_tenant rq, k) \<mapsto>
        \<lparr>ir_request_hash = rq_hash rq, ir_status = Some st, ir_body = Some kept,
         ir_expires_at = rq_now rq + secs (int window)\<rparr>) \<and>
      sv_cache (snd (run_idempotent eb window root rq s)) =
        warm_cache window (rq_done rq) (rq_tenant rq) k (rq_hash rq) st kept (sv_cache s1)"
    using assms(1) l b h x unfolding s1 kept rows
    by (simp add: run_idempotent_def Let_def idem_complete_def)
qed

lemma executes_recorded:
  assumes "executes eb window rq k s st kept"
  shows "on_record (rq_tenant rq) k (rq_hash rq) st kept (rq_now rq + secs (int window))
    (snd (run_idempotent eb window root rq s))"
proof -
  have k: "rq_key rq = Some k" using assms by (simp add: executes_def)
  show ?thesis
    using run_idempotent_effect(2) [OF k assms, of root]
    by (auto simp: on_record_def warm_cache_def c_set_facts split: option.splits)
qed

lemma call_keeps_record:
  assumes "on_record t k h st b exp s" and "CHR '':'' \<notin> set t" and "CHR '':'' \<notin> set (rq_tenant rq)"
  shows "on_record t k h st b exp (snd (run_idempotent eb window root rq s))"
proof (cases "rq_key rq")
  case None
  have eqs: "sv_rows (snd (run_idempotent eb window root rq s)) = sv_rows s"
    "sv_cache (snd (run_idempotent eb window root rq s)) = sv_cache s"
    by (simp_all add: run_idempotent_def None split: prod.split sum.split)
  show ?thesis using assms(1) unfolding on_record_def eqs .
next
  case (Some k')
  show ?thesis
  proof (cases "\<exists>st kept. executes eb window rq k' s st kept")
    case False
    then show ?thesis using run_idempotent_effect(1) [OF Some False] on_record_cache [OF assms(1)] by simp
  next
    case True
    then obtain st' kept where x: "executes eb window rq k' s st' kept" by blast
    have "sv_rows s (rq_tenant rq, k') = None"
      using x by (auto simp: executes_def dest: begin_reserves(1))
    then have ne: "(rq_tenant rq, k') \<noteq> (t, k)" using assms(1) by (auto simp: on_record_def)
    then have "idem_cache_key t k \<noteq> idem_cache_key (rq_tenant rq) k'"
      using idem_cache_key_inject [OF assms(2,3)] by auto
    then show ?thesis
      using run_idempotent_effect(2) [OF Some x, of root] ne
        on_record_cache [OF assms(1), of "rq_now rq" "rq_tenant rq" k' "rq_hash rq"]
      by (auto simp: on_record_def warm_cache_def c_set_facts split: option.splits)
  qed
qed

lemma purge_keeps: "i \<notin> set ids \<Longrightarrow> purge_expired ids rows i = rows i"
  unfolding purge_expired_def by (induction ids arbitrary: rows) auto

fun event_tenant_ok :: "('w, 'b) idem_event \<Rightarrow> bool" where
  "event_tenant_ok (Call rq) = (CHR '':'' \<notin> set (rq_tenant rq))"
| "event_tenant_ok (Purge _ _) = True"

lemma event_keeps_record:
  assumes "on_record t k h st b exp s" and "CHR '':'' \<notin> set t" and "event_tenant_ok ev"
    and "event_time ev \<le> exp"
  shows "on_record t k h st b exp (do_event eb window root lim ev s)"
proof (cases ev)
  case (Call rq)
  then show ?thesis using call_keeps_record [OF assms(1,2)] assms(3) by simp
next
  case (Purge now ids)
  have "(t, k) \<notin> set ids" if "purge_selects now lim (sv_rows s) ids"
    using that assms(1,4) Purge by (auto simp: purge_selects_def on_record_def list_all_iff)
  then show ?thesis using assms(1) Purge by (auto simp: on_record_def purge_keeps)
qed

lemma events_keep_record:
  assumes "on_record t k h st b exp s" and "CHR '':'' \<notin> set t"
    and "\<forall>ev \<in> set evs. event_tenant_ok ev \<and> event_time ev \<le> exp"
  shows "on_record t k h st b exp (fold (do_event eb window root lim) evs s)"
  using assms
proof (induction evs arbitrary: s)
  case (Cons ev evs)
  then show ?case using event_keeps_record [of t k h st b exp s ev] by simp
qed simp

lemma retry_on_record:
  assumes "on_record t k h st b exp s" and "rq_tenant rq = t" and "rq_key rq = Some k" and "rq_now rq \<le> exp"
  shows "fst (run_idempotent eb window root rq s) =
      (if rq_hash rq = h then Inr (respond root (rq_location rq) True st b) else Inl reused)"
    and "sv_app (snd (run_idempotent eb window root rq s)) = sv_app s"
    and "sv_rows (snd (run_idempotent eb window root rq s)) = sv_rows s"
proof -
  have r: "sv_rows s (t, k) = Some \<lparr>ir_request_hash = h, ir_status = Some st, ir_body = Some b, ir_expires_at = exp\<rparr>"
    using assms(1) by (simp add: on_record_def)
  note bg = begin_on_record [OF r assms(4), of eb window "rq_hash rq"]
  obtain lr c where l: "lookup_cached (rq_now rq) t k (rq_hash rq) (sv_cache s) = (lr, c)" by fastforce
  obtain br rows where bb: "idem_begin eb window (rq_now rq) t k (rq_hash rq) (sv_rows s) = (br, rows)" by fastforce
  have lr: "lr = (if rq_hash rq = h then Inr (Some (st, b)) else Inl reused) \<or> lr = Inr None"
    using lookup_cached_result [OF assms(1), of "rq_now rq" "rq_hash rq"] l by simp
  have br: "br = (if rq_hash rq = h then Inr (Some (st, b)) else Inl reused)" using bg bb by simp
  have "fst (run_idempotent eb window root rq s) =
      (if rq_hash rq = h then Inr (respond root (rq_location rq) True st b) else Inl reused) \<and>
    snd (run_idempotent eb window root rq s) = s\<lparr>sv_cache := c\<rparr>"
    using lr br l bb assms(2,3) by (auto simp: run_idempotent_def Let_def)
  then show "fst (run_idempotent eb window root rq s) =
      (if rq_hash rq = h then Inr (respond root (rq_location rq) True st b) else Inl reused)"
    and "sv_app (snd (run_idempotent eb window root rq s)) = sv_app s"
    and "sv_rows (snd (run_idempotent eb window root rq s)) = sv_rows s"
    by auto
qed

text \<open>C4: a write runs at most once per key. Once a request with key \<open>k\<close> has run its handler and
  committed, then after any further requests and purges inside the window a request with the
  same tenant and key changes nothing: with the same payload digest it receives the recorded
  status and kept body as a replay, with another digest it is refused as a conflict, whatever
  its own handler would have done and whether the cache is present, down or has expired.\<close>

theorem idempotent_replay:
  assumes "executes eb window rq k s st kept"
    and "CHR '':'' \<notin> set (rq_tenant rq)"
    and "\<forall>ev \<in> set evs. event_tenant_ok ev \<and> event_time ev \<le> rq_now rq + secs (int window)"
    and "rq_tenant rq2 = rq_tenant rq" and "rq_key rq2 = Some k"
    and "rq_now rq2 \<le> rq_now rq + secs (int window)"
    and "s2 = fold (do_event eb window root lim) evs (snd (run_idempotent eb window root rq s))"
  shows "fst (run_idempotent eb window root rq2 s2) =
      (if rq_hash rq2 = rq_hash rq then Inr (respond root (rq_location rq2) True st kept) else Inl reused) \<and>
    sv_app (snd (run_idempotent eb window root rq2 s2)) = sv_app s2 \<and>
    sv_rows (snd (run_idempotent eb window root rq2 s2)) = sv_rows s2"
proof -
  have rec: "on_record (rq_tenant rq) k (rq_hash rq) st kept (rq_now rq + secs (int window)) s2"
    unfolding assms(7)
    by (rule events_keep_record [OF executes_recorded [OF assms(1)] assms(2,3)])
  note retry = retry_on_record [OF rec assms(4,5,6)]
  show ?thesis using retry by blast
qed

text \<open>A handler that appends to a log, for a concrete run.\<close>

definition log_request :: "instant \<Rightarrow> string \<Rightarrow> string \<Rightarrow> (string list, string) idem_request" where
  "log_request now hash entry = \<lparr>rq_now = now, rq_done = now, rq_tenant = ''acme'', rq_key = Some ''k1'',
     rq_hash = hash, rq_handler = (\<lambda>w. (Inr (201, entry, None), w @ [entry])),
     rq_stored_body = None, rq_location = None\<rparr>"

definition fresh_service :: "(string list, string) service" where
  "fresh_service = \<lparr>sv_rows = Map.empty, sv_app = [],
     sv_cache = Some \<lparr>c_data = Map.empty, c_lists = Map.empty, c_available = True, c_ops = 0\<rparr>\<rparr>"

theorem idempotent_replay_witness:
  "fst (run_idempotent [] 60 [] (log_request 5 ''h1'' ''second'')
      (snd (run_idempotent [] 60 [] (log_request 0 ''h1'' ''first'') fresh_service)))
   = Inr (respond [] None True 201 ''first'')"
proof -
  have "executes [] 60 (log_request 0 ''h1'' ''first'') ''k1'' fresh_service 201 ''first''"
    by (simp add: executes_def log_request_def fresh_service_def lookup_cached_def c_get_unfold
        idem_begin_def idem_reserve_def)
  from idempotent_replay [OF this, of "[]" "log_request 5 ''h1'' ''second''" _ "[]" 0, OF _ _ _ _ _ refl]
  show ?thesis by (simp add: log_request_def secs_def)
qed

subsection \<open>Failures leave nothing behind\<close>

text \<open>A request that fails before its commit has no effect. When a keyed request raises and its
  after-commit action was not reached, neither the application's data nor the idempotency table
  changed, so the key is still free for the retry.\<close>

theorem failed_write_rolls_back:
  assumes "rq_key rq = Some k" and "\<not> (\<exists>st kept. executes eb window rq k s st kept)"
  shows "sv_app (snd (run_idempotent eb window root rq s)) = sv_app s \<and>
    sv_rows (snd (run_idempotent eb window root rq s)) = sv_rows s"
  using run_idempotent_effect(1) [OF assms] by simp

theorem failed_write_rolls_back_witness:
  "sv_rows (snd (run_idempotent [] 60 []
      ((log_request 0 ''h1'' ''first'')\<lparr>rq_handler := (\<lambda>w. (Inl ValidationFailed, w @ [''x'']))\<rparr>) fresh_service))
   = Map.empty"
proof -
  let ?rq = "(log_request 0 ''h1'' ''first'')\<lparr>rq_handler := (\<lambda>w. (Inl ValidationFailed, w @ [''x'']))\<rparr>"
  have "rq_key ?rq = Some ''k1''" by (simp add: log_request_def)
  moreover have "\<not> (\<exists>st kept. executes [] 60 ?rq ''k1'' fresh_service st kept)"
    by (simp add: executes_def log_request_def)
  ultimately have "sv_rows (snd (run_idempotent [] 60 [] ?rq fresh_service)) = sv_rows fresh_service"
    by (rule failed_write_rolls_back [THEN conjunct2])
  then show ?thesis by (simp add: fresh_service_def)
qed

text \<open>An expired key is never re-processed. While its row has not been purged, a request with an
  expired key is refused as a conflict even for the same payload, and the row is left as it was,
  because the rewrite that would allow the re-processing is undone with the transaction.\<close>

theorem expired_key_refused:
  assumes "rq_key rq = Some k" and "sv_rows s (rq_tenant rq, k) = Some r" and "ir_expires_at r < rq_now rq"
    and "fst (lookup_cached (rq_now rq) (rq_tenant rq) k (rq_hash rq) (sv_cache s)) = Inr None"
  shows "fst (run_idempotent eb window root rq s) =
      Inl (Conflict ''Idempotency-Key expired; retry with a new key'' False) \<and>
    sv_rows (snd (run_idempotent eb window root rq s)) = sv_rows s"
proof -
  obtain c where l: "lookup_cached (rq_now rq) (rq_tenant rq) k (rq_hash rq) (sv_cache s) = (Inr None, c)"
    using assms(4) by (metis prod.collapse)
  show ?thesis
    using assms(1-3) l by (simp add: run_idempotent_def idem_begin_def idem_reserve_def Let_def)
qed

theorem expired_key_refused_witness:
  "fst (run_idempotent [] 60 [] (log_request (secs 61) ''h1'' ''second'')
      (snd (run_idempotent [] 60 [] (log_request 0 ''h1'' ''first'') (fresh_service\<lparr>sv_cache := None\<rparr>))))
   = Inl (Conflict ''Idempotency-Key expired; retry with a new key'' False)"
proof -
  let ?s = "snd (run_idempotent [] 60 [] (log_request 0 ''h1'' ''first'') (fresh_service\<lparr>sv_cache := None\<rparr>))"
  have s: "?s = \<lparr>sv_rows = [(''acme'', ''k1'') \<mapsto> \<lparr>ir_request_hash = ''h1'', ir_status = Some 201,
      ir_body = Some ''first'', ir_expires_at = secs 60\<rparr>], sv_app = [''first''], sv_cache = None\<rparr>"
    by (simp add: run_idempotent_def log_request_def fresh_service_def lookup_cached_def idem_begin_def
        idem_reserve_def idem_complete_def warm_cache_def run_after_def Let_def)
  show ?thesis unfolding s
    by (rule expired_key_refused [THEN conjunct1, of _ "''k1''" _ "\<lparr>ir_request_hash = ''h1'',
          ir_status = Some 201, ir_body = Some ''first'', ir_expires_at = secs 60\<rparr>"])
      (simp_all add: log_request_def lookup_cached_def secs_def)
qed

text \<open>The cache keys of two tenants never meet when tenant ids hold no colon, which is why
  \<open>is_valid_tenant_id\<close> refuses one; with a colon allowed they would.\<close>

lemma idempotency_keys_separate_tenants:
  "(\<forall>t t' k k'. CHR '':'' \<notin> set t \<and> CHR '':'' \<notin> set t' \<and> idem_cache_key t k = idem_cache_key t' k'
      \<longrightarrow> t = t' \<and> k = k') \<and>
   idem_cache_key ''a'' ''b:c'' = idem_cache_key ''a:b'' ''c''"
  using idem_cache_key_inject by (auto simp: idem_cache_key_def)

end
