(* ===== verification/Api_Deps.thy ===== *)
theory Api_Deps
  imports Authentication Idempotency
begin

text \<open>
  The dependencies every route runs (\<open>api/deps.py\<close>, and the header readers of \<open>api/headers.py\<close>):
  the tenant and workspace a request acts in, bound to its credential; whom a restricted key may
  act for; and the execution context built from trusted headers and the body's lineage. A header
  is the list of the values sent for it. The container's settings and its tenant registry are a
  record; every refusal of the code is an error value.
\<close>

record ScopeBody =
  sb_tenant_id :: "string option"
  sb_workspace_id :: "string option"
  sb_user_id :: "string option"
  sb_thread_id :: "string option"
  sb_session_id :: "string option"
  sb_turn_id :: "string option"
  sb_work_id :: "string option"
  sb_task_id :: "string option"
  sb_agent_id :: "string option"
  sb_agent_group_id :: "string option"
  sb_agent_run_id :: "string option"
  sb_parent_agent_run_id :: "string option"
  sb_correlation_id :: "string option"
  sb_custom_metadata :: "(string \<times> string) list"

definition empty_scope :: ScopeBody where
  "empty_scope = \<lparr>sb_tenant_id = None, sb_workspace_id = None, sb_user_id = None, sb_thread_id = None,
     sb_session_id = None, sb_turn_id = None, sb_work_id = None, sb_task_id = None, sb_agent_id = None,
     sb_agent_group_id = None, sb_agent_run_id = None, sb_parent_agent_run_id = None,
     sb_correlation_id = None, sb_custom_metadata = []\<rparr>"

record api_request =
  ar_tenant :: "string list"
  ar_workspace :: "string list"
  ar_user :: "string list"
  ar_principal :: "ServicePrincipal option"
  ar_request_id :: string
  ar_correlation_id :: string
  ar_trace_id :: string

record api_container =
  ac_trusted_dev_tenant :: string
  ac_tenant_claim :: "string option"
  ac_registry :: "registry option"
  ac_py_str :: "claim \<Rightarrow> string"

subsection \<open>Headers\<close>

definition IDEMPOTENCY_KEY_MAX_CHARS :: nat where "IDEMPOTENCY_KEY_MAX_CHARS = 255"

definition scope_values :: "string list \<Rightarrow> string list" where
  "scope_values raw = filter (\<lambda>v. v \<noteq> []) (map strip raw)"

definition require_one_value :: "string list \<Rightarrow> service_error + string option" where
  "require_one_value raw =
     (let values = scope_values raw in
      if card (set values) > 1 then Inl ValidationFailed
      else Inr (case values of [] \<Rightarrow> None | v # _ \<Rightarrow> Some v))"

definition idempotency_key_of :: "string list \<Rightarrow> service_error + string option" where
  "idempotency_key_of raw =
     (let values = scope_values raw in
      if card (set values) > 1 then Inl ValidationFailed
      else case values of [] \<Rightarrow> Inr None
        | v # _ \<Rightarrow> if length v > IDEMPOTENCY_KEY_MAX_CHARS then Inl ValidationFailed else Inr (Some v))"

subsection \<open>The credential's tenant and workspace\<close>

definition str_claim :: "ServicePrincipal \<Rightarrow> string \<Rightarrow> string option" where
  "str_claim p name = (case map_of (sp_claims p) name of Some (C_str s) \<Rightarrow> Some s | _ \<Rightarrow> None)"

definition list_claim :: "ServicePrincipal \<Rightarrow> string \<Rightarrow> string list option" where
  "list_claim p name = (case map_of (sp_claims p) name of Some (C_list xs) \<Rightarrow> Some xs | _ \<Rightarrow> None)"

definition credential_tenant :: "ServicePrincipal option \<Rightarrow> api_container \<Rightarrow> string option" where
  "credential_tenant po ct =
     (case po of None \<Rightarrow> None
      | Some p \<Rightarrow> (case sp_mode p of
          api_key \<Rightarrow> (let t = str_claim p ''tenant'' in if truthy t then t else None)
        | trusted_dev \<Rightarrow> Some (ac_trusted_dev_tenant ct)
        | jwt \<Rightarrow> None))"

definition not_valid_for_tenant :: service_error where
  "not_valid_for_tenant = ScopeDenied ''credential is not valid for this tenant''"

definition require_tenant_matches_credential ::
    "api_request \<Rightarrow> api_container \<Rightarrow> string \<Rightarrow> service_error + unit" where
  "require_tenant_matches_credential rq ct tenant_id =
     (case ar_principal rq of
        Some p \<Rightarrow>
          if sp_mode p = api_key then
            if str_claim p ''role'' = Some (key_role_value K_PLATFORM)
              then Inl (ScopeDenied ''the platform key onboards tenants; it does not act for one'')
            else if str_claim p ''tenant'' \<noteq> Some tenant_id then Inl not_valid_for_tenant
            else Inr ()
          else if \<not> truthy (ac_tenant_claim ct) then Inr ()
          else (let value = (case map_of (sp_claims p) (or_empty (ac_tenant_claim ct)) of
                    None \<Rightarrow> [] | Some c \<Rightarrow> if claim_truthy c then claim_str (ac_py_str ct) c else [])
                in if value \<noteq> tenant_id then Inl not_valid_for_tenant else Inr ())
      | None \<Rightarrow> if truthy (ac_tenant_claim ct) then Inl not_valid_for_tenant else Inr ())"

definition bound_workspace :: "api_request \<Rightarrow> string option" where
  "bound_workspace rq = (case ar_principal rq of None \<Rightarrow> None
     | Some p \<Rightarrow> if sp_mode p = api_key then str_claim p ''workspace'' else None)"

definition credential_scope :: "api_request \<Rightarrow> api_container \<Rightarrow> string option \<Rightarrow> string option \<Rightarrow> ScopeBody \<Rightarrow>
    service_error + (string \<times> string option)" where
  "credential_scope rq ct h_tenant h_workspace body =
     (let tenant = por (por h_tenant (sb_tenant_id body)) (credential_tenant (ar_principal rq) ct) in
      if \<not> truthy tenant then Inl ValidationFailed
      else rbind (require_tenant_matches_credential rq ct (or_empty tenant)) (\<lambda>_.
        let ws = por h_workspace (sb_workspace_id body); bound = bound_workspace rq in
        if truthy bound then
          if ws \<noteq> None \<and> ws \<noteq> bound then Inl (ScopeDenied ''credential is bound to another workspace'')
          else Inr (or_empty tenant, bound)
        else Inr (or_empty tenant, ws)))"

definition require_tenant_active :: "api_container \<Rightarrow> string \<Rightarrow> service_error + unit" where
  "require_tenant_active ct t = (case ac_registry ct of
     Some rg \<Rightarrow> if is_suspended rg t then Inl suspended else Inr () | None \<Rightarrow> Inr ())"

definition may_act_as_claim :: "api_request \<Rightarrow> string list option" where
  "may_act_as_claim rq = (case ar_principal rq of None \<Rightarrow> None
     | Some p \<Rightarrow> if sp_mode p = api_key then list_claim p ''may_act_as'' else None)"

definition require_may_act_as :: "api_request \<Rightarrow> string option \<Rightarrow> string option \<Rightarrow> service_error + unit" where
  "require_may_act_as rq user_id agent_id =
     (case may_act_as_claim rq of None \<Rightarrow> Inr ()
      | Some allowed \<Rightarrow>
          if ANY_PRINCIPAL \<in> set allowed then Inr ()
          else if (case user_id of None \<Rightarrow> False | Some u \<Rightarrow> ''user:'' @ u \<notin> set allowed)
            then Inl (ScopeDenied ''this key may not act for that user'')
          else if (case agent_id of None \<Rightarrow> False | Some a \<Rightarrow> ''agent:'' @ a \<notin> set allowed)
            then Inl (ScopeDenied ''this key may not act as that agent'')
          else Inr ())"

definition credential_vouches_for_agent :: "api_request \<Rightarrow> string option \<Rightarrow> bool" where
  "credential_vouches_for_agent rq agent_id =
     (case (agent_id, ar_principal rq) of
        (Some a, Some p) \<Rightarrow>
          (sp_mode p = api_key \<or> sp_mode p = trusted_dev) \<and>
          (case (if sp_mode p = api_key then list_claim p ''may_act_as'' else None) of
             None \<Rightarrow> True
           | Some allowed \<Rightarrow> ANY_PRINCIPAL \<in> set allowed \<or> ''agent:'' @ a \<in> set allowed)
      | _ \<Rightarrow> False)"

subsection \<open>Building the context\<close>

definition disagrees :: "string option \<Rightarrow> string option \<Rightarrow> bool" where
  "disagrees body header \<longleftrightarrow> body \<noteq> None \<and> header \<noteq> None \<and> body \<noteq> header"

definition build_context :: "api_request \<Rightarrow> api_container \<Rightarrow> ScopeBody option \<Rightarrow> service_error + exec_context" where
  "build_context rq ct body_scope =
     rbind (require_one_value (ar_tenant rq)) (\<lambda>h_tenant.
     rbind (require_one_value (ar_workspace rq)) (\<lambda>h_workspace.
     rbind (require_one_value (ar_user rq)) (\<lambda>h_user.
     let body = (case body_scope of None \<Rightarrow> empty_scope | Some b \<Rightarrow> b) in
     if disagrees (sb_tenant_id body) h_tenant \<or> disagrees (sb_workspace_id body) h_workspace \<or>
        disagrees (sb_user_id body) h_user then Inl ValidationFailed
     else rbind (credential_scope rq ct h_tenant h_workspace body) (\<lambda>(tenant_id, workspace_id).
       rbind (require_tenant_active ct tenant_id) (\<lambda>_.
       let user_id = por h_user (sb_user_id body) in
       rbind (require_may_act_as rq user_id (sb_agent_id body)) (\<lambda>_.
       case build \<lparr>ctx_tenant_id = tenant_id, ctx_workspace_id = workspace_id, ctx_user_id = user_id,
           ctx_thread_id = sb_thread_id body, ctx_session_id = sb_session_id body,
           ctx_turn_id = sb_turn_id body, ctx_work_id = sb_work_id body, ctx_task_id = sb_task_id body,
           ctx_agent_id = sb_agent_id body, ctx_agent_group_id = sb_agent_group_id body,
           ctx_agent_run_id = sb_agent_run_id body, ctx_parent_agent_run_id = sb_parent_agent_run_id body,
           ctx_request_id = ar_request_id rq,
           ctx_correlation_id = (if truthy (sb_correlation_id body) then or_empty (sb_correlation_id body)
                                 else ar_correlation_id rq),
           ctx_causation_id = None, ctx_trace_id = ar_trace_id rq,
           ctx_custom_metadata = sb_custom_metadata body\<rparr> of
         Inl _ \<Rightarrow> Inl ValidationFailed | Inr c \<Rightarrow> Inr c))))))"

subsection \<open>Administration\<close>

definition has_role :: "ServicePrincipal \<Rightarrow> KeyRole list \<Rightarrow> bool" where
  "has_role p roles =
     (case sp_mode p of
        trusted_dev \<Rightarrow> True
      | jwt \<Rightarrow> False
      | api_key \<Rightarrow>
          if str_claim p ''role'' = Some (key_role_value K_PLATFORM) then is_platform p \<and> K_PLATFORM \<in> set roles
          else (case str_claim p ''role'' of None \<Rightarrow> False | Some r \<Rightarrow> r \<in> key_role_value ` set roles))"

definition is_tenant_administrator :: "ServicePrincipal \<Rightarrow> bool" where
  "is_tenant_administrator p = has_role p [K_ADMIN, K_PLATFORM]"

definition ensure_role :: "ServicePrincipal \<Rightarrow> KeyRole list \<Rightarrow> service_error + ServicePrincipal" where
  "ensure_role p roles = (if has_role p roles then Inr p
     else Inl (AuthorizationFailed ''this credential may not perform that administration''))"

definition administered_tenant :: "api_request \<Rightarrow> ServicePrincipal \<Rightarrow> api_container \<Rightarrow> service_error + string" where
  "administered_tenant rq p ct =
     (let claimed = (if sp_mode p = api_key then str_claim p ''tenant'' else None) in
      rbind (require_one_value (ar_tenant rq)) (\<lambda>named.
      if truthy named \<and> \<not> is_valid_tenant_id (or_empty named) then Inl ValidationFailed
      else if truthy claimed \<and> truthy named \<and> named \<noteq> claimed then Inl not_valid_for_tenant
      else let tenant = por (por claimed named) (credential_tenant (Some p) ct) in
        if \<not> truthy tenant then Inl ValidationFailed
        else rbind (if is_platform p then Inr () else require_tenant_active ct (or_empty tenant))
          (\<lambda>_. Inr (or_empty tenant))))"

text \<open>The tenant must exist when the header alone names it; a development tenant is onboarded on
  its first administration.\<close>

definition development_tenant :: "instant \<Rightarrow> string \<Rightarrow> Tenant" where
  "development_tenant now t = \<lparr>tn_tenant_id = t, tn_name = ''Development'', tn_status = T_active,
     tn_retention_days = None, tn_rate_limit = None, tn_admission_gate = False, tn_created_at = now,
     tn_updated_at = now\<rparr>"

definition existing_administered_tenant :: "instant \<Rightarrow> api_request \<Rightarrow> ServicePrincipal \<Rightarrow> api_container \<Rightarrow>
    tenancy_db \<Rightarrow> (service_error + string) \<times> tenancy_db" where
  "existing_administered_tenant now rq p ct db =
     (case administered_tenant rq p ct of
        Inl e \<Rightarrow> (Inl e, db)
      | Inr t \<Rightarrow>
          if credential_tenant (Some p) ct \<noteq> Some t then
            (if tenants_get db t = None then Inl NotFound else Inr t, db)
          else if sp_mode p = trusted_dev then
            (if tenants_get db t = None
             then (case tenants_add (development_tenant now t) db of
                     Inl e \<Rightarrow> (Inl e, db) | Inr db' \<Rightarrow> (Inr t, db'))
             else (Inr t, db))
          else (Inr t, db))"

subsection \<open>A request made with an issued key\<close>

lemma key_principal_claims [simp]:
  "str_claim (key_service_principal k) ''role'' = Some (key_role_value (vk_role k))"
  "str_claim (key_service_principal k) ''tenant'' = Some (vk_tenant_id k)"
  "str_claim (key_service_principal k) ''workspace'' = vk_workspace_id k"
  "list_claim (key_service_principal k) ''may_act_as'' = Some (vk_may_act_as k)"
  "sp_mode (key_service_principal k) = api_key"
  by (simp_all add: str_claim_def list_claim_def key_service_principal_def optional_claim_def map_add_def
      split: option.split)

lemma key_role_value_inject [simp]: "key_role_value a = key_role_value b \<longleftrightarrow> a = b"
  by (cases a; cases b) simp_all

text \<open>The steps of a successful \<open>build_context\<close>.\<close>

lemma build_context_steps:
  assumes "build_context rq ct bs = Inr c"
  obtains ht hw where
    "credential_scope rq ct ht hw (case bs of None \<Rightarrow> empty_scope | Some b \<Rightarrow> b) = Inr (ctx_tenant_id c, ctx_workspace_id c)"
    "require_tenant_active ct (ctx_tenant_id c) = Inr ()"
    "require_may_act_as rq (ctx_user_id c) (ctx_agent_id c) = Inr ()"
    "valid_context c"
  using assms unfolding build_context_def Let_def rbind_Inr
  by (auto simp: rbind_Inr build_def split: if_splits prod.splits sum.splits)

lemma credential_scope_steps:
  assumes "credential_scope rq ct ht hw body = Inr (t, w)"
  shows "require_tenant_matches_credential rq ct t = Inr ()"
    and "truthy (bound_workspace rq) \<Longrightarrow> w = bound_workspace rq"
  using assms by (auto simp: credential_scope_def Let_def rbind_Inr split: if_splits)

text \<open>C28: a key acts in its own tenant, its own workspace and for its own principals. Whatever the
  headers and the body say, a context built for a request authenticated by an issued key carries
  the key's tenant (not suspended, as far as the registry knows), the key's workspace when it is
  bound to one, and, unless the key may act for anyone, a user and an agent the key lists; and
  the context is well formed.\<close>

theorem key_request_confined:
  assumes "ar_principal rq = Some (key_service_principal k)" and "build_context rq ct bs = Inr c"
  shows "ctx_tenant_id c = vk_tenant_id k \<and> vk_role k \<noteq> K_PLATFORM \<and>
    (truthy (vk_workspace_id k) \<longrightarrow> ctx_workspace_id c = vk_workspace_id k) \<and>
    (\<forall>rg. ac_registry ct = Some rg \<longrightarrow> \<not> is_suspended rg (vk_tenant_id k)) \<and>
    (ANY_PRINCIPAL \<notin> set (vk_may_act_as k) \<longrightarrow>
      (\<forall>u. ctx_user_id c = Some u \<longrightarrow> ''user:'' @ u \<in> set (vk_may_act_as k)) \<and>
      (\<forall>a. ctx_agent_id c = Some a \<longrightarrow> ''agent:'' @ a \<in> set (vk_may_act_as k))) \<and>
    valid_context c"
proof -
  from build_context_steps [OF assms(2)] obtain ht hw body where
    cs: "credential_scope rq ct ht hw body = Inr (ctx_tenant_id c, ctx_workspace_id c)"
    and act: "require_tenant_active ct (ctx_tenant_id c) = Inr ()"
    and may: "require_may_act_as rq (ctx_user_id c) (ctx_agent_id c) = Inr ()" and val: "valid_context c"
    by metis
  have t: "ctx_tenant_id c = vk_tenant_id k" "vk_role k \<noteq> K_PLATFORM"
    using credential_scope_steps(1) [OF cs] assms(1)
    by (auto simp: require_tenant_matches_credential_def split: if_splits)
  moreover have "truthy (vk_workspace_id k) \<longrightarrow> ctx_workspace_id c = vk_workspace_id k"
    using credential_scope_steps(2) [OF cs] assms(1) by (simp add: bound_workspace_def)
  moreover have "\<forall>rg. ac_registry ct = Some rg \<longrightarrow> \<not> is_suspended rg (vk_tenant_id k)"
    using act t(1) by (auto simp: require_tenant_active_def split: if_splits)
  moreover have "ANY_PRINCIPAL \<notin> set (vk_may_act_as k) \<longrightarrow>
      (\<forall>u. ctx_user_id c = Some u \<longrightarrow> ''user:'' @ u \<in> set (vk_may_act_as k)) \<and>
      (\<forall>a. ctx_agent_id c = Some a \<longrightarrow> ''agent:'' @ a \<in> set (vk_may_act_as k))"
    using may assms(1) unfolding require_may_act_as_def may_act_as_claim_def
    by (simp split: if_split_asm option.split_asm)
  ultimately show ?thesis using val by blast
qed

definition demo_request :: "ServicePrincipal \<Rightarrow> string list \<Rightarrow> string list \<Rightarrow> api_request" where
  "demo_request p tenant user = \<lparr>ar_tenant = tenant, ar_workspace = [], ar_user = user, ar_principal = Some p,
     ar_request_id = ''req_1'', ar_correlation_id = ''req_1'', ar_trace_id = ''trace1''\<rparr>"

definition demo_container :: api_container where
  "demo_container = \<lparr>ac_trusted_dev_tenant = ''default'', ac_tenant_claim = None, ac_registry = None,
     ac_py_str = (\<lambda>_. [])\<rparr>"

definition demo_vkey :: VerifiedKey where
  "demo_vkey = \<lparr>vk_key_id = demo_id, vk_tenant_id = ''acme'', vk_role = K_SERVICE, vk_workspace_id = Some ''w1'',
     vk_may_act_as = [''user:u1'']\<rparr>"

theorem key_request_confined_witness:
  "\<exists>c. build_context (demo_request (key_service_principal demo_vkey) [] [''u1'']) demo_container None = Inr c \<and>
     ctx_tenant_id c = ''acme'' \<and> ctx_workspace_id c = Some ''w1''"
proof -
  have "\<exists>c. build_context (demo_request (key_service_principal demo_vkey) [] [''u1'']) demo_container None = Inr c"
  proof -
    have "case build_context (demo_request (key_service_principal demo_vkey) [] [''u1'']) demo_container None of
      Inr _ \<Rightarrow> True | Inl _ \<Rightarrow> False"
      by code_simp
    then show ?thesis by (simp split: sum.splits)
  qed
  then obtain c where c: "build_context (demo_request (key_service_principal demo_vkey) [] [''u1'']) demo_container None = Inr c" ..
  have p: "ar_principal (demo_request (key_service_principal demo_vkey) [] [''u1'']) = Some (key_service_principal demo_vkey)"
    by (simp add: demo_request_def)
  show ?thesis using key_request_confined [OF p c] c by (simp add: demo_vkey_def)
qed

text \<open>The platform key acts for no tenant. It administers, but no request authenticated by the
  bootstrap secret ever gets an execution context.\<close>

theorem platform_gets_no_context:
  assumes "ar_principal rq = Some platform_principal"
  shows "\<exists>e. build_context rq ct bs = Inl e"
proof (cases "build_context rq ct bs")
  case (Inr c)
  from build_context_steps [OF this] obtain ht hw body where
    "credential_scope rq ct ht hw body = Inr (ctx_tenant_id c, ctx_workspace_id c)" by metis
  from credential_scope_steps(1) [OF this] assms show ?thesis
    by (simp add: require_tenant_matches_credential_def platform_principal_def str_claim_def split: if_splits)
qed simp

theorem platform_gets_no_context_witness:
  "\<exists>e. build_context (demo_request platform_principal [''acme''] []) demo_container None = Inl e"
  by (rule platform_gets_no_context) (simp add: demo_request_def)

text \<open>An admin key administers its own tenant only. An administrative call made with an issued key
  acts on the key's tenant, and the tenant is not suspended; a header naming another is refused.\<close>

theorem admin_key_own_tenant:
  assumes "administered_tenant rq (key_service_principal k) ct = Inr t" and "vk_tenant_id k \<noteq> []"
  shows "t = vk_tenant_id k \<and> (\<forall>rg. ac_registry ct = Some rg \<longrightarrow> \<not> is_suspended rg t) \<and>
    (\<forall>named. require_one_value (ar_tenant rq) = Inr (Some named) \<longrightarrow> named = [] \<or> named = t)"
  using assms
  by (auto simp: administered_tenant_def require_tenant_active_def rbind_Inr Let_def split: if_splits option.splits)

theorem admin_key_own_tenant_witness:
  "administered_tenant (demo_request (key_service_principal demo_vkey) [] []) (key_service_principal demo_vkey)
     demo_container = Inr ''acme'' \<and> vk_tenant_id demo_vkey = ''acme''"
proof -
  have a: "administered_tenant (demo_request (key_service_principal demo_vkey) [] []) (key_service_principal demo_vkey)
     demo_container = Inr ''acme''" by code_simp
  from admin_key_own_tenant [OF a] show ?thesis using a by (simp add: demo_vkey_def)
qed

text \<open>Only an issued key or a development key vouches for an agent, and a key restricted to some
  principals vouches for the agents it lists and no other; an issuer's token vouches for none.\<close>

lemma vouching_needs_the_agent:
  "credential_vouches_for_agent rq agent \<longleftrightarrow>
     (\<exists>a p. agent = Some a \<and> ar_principal rq = Some p \<and>
        (sp_mode p = trusted_dev \<or>
         sp_mode p = api_key \<and> (case list_claim p ''may_act_as'' of None \<Rightarrow> True
           | Some allowed \<Rightarrow> require_may_act_as rq None agent = Inr ())))"
  by (auto simp: credential_vouches_for_agent_def require_may_act_as_def may_act_as_claim_def
      split: option.splits if_splits)

text \<open>Outside the key mode a tenant id may hold a colon, and then two tenants share idempotency
  cache keys: a request of an issuer's token naming tenant \<open>a:b\<close> gets a context, and its key \<open>c\<close>
  is cached under the same name as key \<open>b:c\<close> of tenant \<open>a\<close>.\<close>

lemma colon_tenant_aliases:
  "(\<exists>c. build_context (demo_request \<lparr>sp_service_id = ''svc'', sp_mode = jwt, sp_claims = []\<rparr> [''a:b''] [])
      demo_container None = Inr c \<and>
    idem_cache_key (ctx_tenant_id c) ''c'' = idem_cache_key ''a'' ''b:c'') \<and> \<not> is_valid_tenant_id ''a:b''"
proof -
  let ?rq = "demo_request \<lparr>sp_service_id = ''svc'', sp_mode = jwt, sp_claims = []\<rparr> [''a:b''] []"
  have "case build_context ?rq demo_container None of Inr c \<Rightarrow> ctx_tenant_id c = ''a:b'' | Inl _ \<Rightarrow> False"
    by code_simp
  then obtain c where "build_context ?rq demo_container None = Inr c" "ctx_tenant_id c = ''a:b''"
    by (cases "build_context ?rq demo_container None") simp_all
  then show ?thesis by (simp add: idem_cache_key_def is_valid_tenant_id_def)
qed

end
