(* ===== verification/Domain_Memory.thy ===== *)
theory Domain_Memory
  imports Exec_Context
begin

text \<open>
  The parts of the canonical memory contract (\<open>domain/memory.py\<close>) that other components decide
  by: the scope a memory is anchored in and its canonical key, the bitemporal state, and which
  memories are kept for good.
\<close>

record Scope =
  sc_level :: ScopeLevel
  sc_tenant_id :: string
  sc_workspace_id :: "string option"
  sc_user_id :: "string option"
  sc_thread_id :: "string option"
  sc_agent_id :: "string option"
  sc_agent_group_id :: "string option"

fun required_anchor :: "ScopeLevel \<Rightarrow> (Scope \<Rightarrow> string option) option" where
  "required_anchor L_AGENT = Some sc_agent_id"
| "required_anchor L_AGENT_GROUP = Some sc_agent_group_id"
| "required_anchor L_THREAD = Some sc_thread_id"
| "required_anchor L_USER = Some sc_user_id"
| "required_anchor L_WORKSPACE = Some sc_workspace_id"
| "required_anchor L_TENANT = None"

definition level_has_anchor :: "Scope \<Rightarrow> bool" where
  "level_has_anchor s =
     (case required_anchor (sc_level s) of None \<Rightarrow> True | Some field \<Rightarrow> field s \<noteq> None)"

definition tagged :: "string \<Rightarrow> string option \<Rightarrow> string list" where
  "tagged name value =
     (case value of None \<Rightarrow> [] | Some v \<Rightarrow> if v = [] then [] else [name @ ''='' @ v])"

text \<open>The parts of \<open>Scope.key()\<close>: \<open>name[:-3]\<close> drops the \<open>_id\<close> of the field's name.\<close>

definition scope_key_parts :: "Scope \<Rightarrow> string list" where
  "scope_key_parts s =
     [''t='' @ sc_tenant_id s, ''l='' @ level_value (sc_level s)] @
     tagged ''workspace'' (sc_workspace_id s) @ tagged ''user'' (sc_user_id s) @
     tagged ''thread'' (sc_thread_id s) @ tagged ''agent'' (sc_agent_id s) @
     tagged ''agent_group'' (sc_agent_group_id s)"

definition scope_key :: "Scope \<Rightarrow> string" where
  "scope_key s = py_join ''/'' (scope_key_parts s)"

record TemporalState =
  tp_status :: TemporalStatus
  tp_valid_from :: "instant option"
  tp_valid_to :: "instant option"
  tp_observed_at :: instant
  tp_superseded_by :: "string option"
  tp_supersedes :: "string option"
  tp_contradicts :: "string list"

definition since :: "TemporalState \<Rightarrow> instant" where
  "since t = (case tp_valid_from t of Some v \<Rightarrow> v | None \<Rightarrow> tp_observed_at t)"

definition is_current_at :: "TemporalState \<Rightarrow> instant \<Rightarrow> bool" where
  "is_current_at t now =
     (if tp_status t \<noteq> TS_CURRENT then False
      else if (case tp_valid_from t of Some v \<Rightarrow> now < v | None \<Rightarrow> False) then False
      else \<not> (case tp_valid_to t of Some v \<Rightarrow> now \<ge> v | None \<Rightarrow> False))"

definition LASTING_CATEGORIES :: "string list" where
  "LASTING_CATEGORIES = [''verbatim_turn'', ''rule'']"

definition LASTING_TYPES :: "MemoryType list" where
  "LASTING_TYPES = [MT_USER, MT_PREFERENCE]"

definition lasting :: "string option \<Rightarrow> MemoryType \<Rightarrow> Lifetime \<Rightarrow> bool" where
  "lasting category memory_type lifetime \<longleftrightarrow>
     (case category of Some c \<Rightarrow> c \<in> set LASTING_CATEGORIES | None \<Rightarrow> False) \<or>
     (memory_type \<in> set LASTING_TYPES \<and> lifetime = LONG_TERM)"

subsection \<open>Scope keys\<close>

definition scope_ids_valid :: "Scope \<Rightarrow> bool" where
  "scope_ids_valid s \<longleftrightarrow> is_valid_id (sc_tenant_id s) \<and>
     list_all validate_optional_id
       [sc_workspace_id s, sc_user_id s, sc_thread_id s, sc_agent_id s, sc_agent_group_id s]"

lemma py_join_sep_inject_gen:
  assumes "xs \<noteq> []" and "ys \<noteq> []"
    and "\<And>x. x \<in> set xs \<union> set ys \<Longrightarrow> (c::char) \<notin> set x"
    and "py_join [c] xs = py_join [c] ys"
  shows "xs = ys"
  using assms
proof (induction xs arbitrary: ys)
  case Nil
  then show ?case by simp
next
  case (Cons x xs)
  obtain y ys' where ys: "ys = y # ys'" using Cons.prems(2) by (cases ys) auto
  have c: "c \<notin> set x" "c \<notin> set y" using Cons.prems(3) ys by auto
  show ?case
  proof (cases "xs = [] \<or> ys' = []")
    case True
    have tail: "c \<in> set (py_join [c] (z # zs))" if "zs \<noteq> []" for z zs
      using that by (cases zs) simp_all
    have "xs = [] \<and> ys' = []"
      using True Cons.prems(4) c ys tail [of xs x] tail [of ys' y] by fastforce
    then show ?thesis using Cons.prems(4) ys by simp
  next
    case False
    then have "x @ c # py_join [c] xs = y @ c # py_join [c] ys'"
      using Cons.prems(4) ys by (cases xs; cases ys') simp_all
    then have "x = y \<and> py_join [c] xs = py_join [c] ys'" using c by (simp add: sep_inject)
    then show ?thesis using Cons.IH [of ys'] Cons.prems(3) False ys by auto
  qed
qed

lemma level_value_inject [simp]: "level_value a = level_value b \<longleftrightarrow> a = b"
  by (cases a; cases b) simp_all

lemma level_value_no_slash [simp]: "CHR ''/'' \<notin> set (level_value l)"
  by (cases l) simp_all

lemma set_tagged: "set (tagged n x) = {n @ ''='' @ v | v. x = Some v \<and> v \<noteq> []}"
  by (auto simp: tagged_def split: option.splits)

lemma scope_key_parts_field:
  assumes "scope_ids_valid s"
  shows "sc_workspace_id s = Some v \<longleftrightarrow> is_valid_id v \<and> ''workspace='' @ v \<in> set (scope_key_parts s)"
    and "sc_user_id s = Some v \<longleftrightarrow> is_valid_id v \<and> ''user='' @ v \<in> set (scope_key_parts s)"
    and "sc_thread_id s = Some v \<longleftrightarrow> is_valid_id v \<and> ''thread='' @ v \<in> set (scope_key_parts s)"
    and "sc_agent_id s = Some v \<longleftrightarrow> is_valid_id v \<and> ''agent='' @ v \<in> set (scope_key_parts s)"
    and "sc_agent_group_id s = Some v \<longleftrightarrow>
      is_valid_id v \<and> ''agent_group='' @ v \<in> set (scope_key_parts s)"
  using assms
  by (auto simp: scope_key_parts_def set_tagged scope_ids_valid_def dest: valid_id_nonempty)

lemma scope_key_parts_no_slash:
  "scope_ids_valid s \<Longrightarrow> x \<in> set (scope_key_parts s) \<Longrightarrow> CHR ''/'' \<notin> set x"
  by (auto simp: scope_key_parts_def set_tagged scope_ids_valid_def)

lemma option_ext_Some: "(\<And>v. x = Some v \<longleftrightarrow> y = Some v) \<Longrightarrow> x = y"
  by (metis option.exhaust)

text \<open>Two scopes with valid ids have the same canonical key only when they are the same
  scope, so an index or cache entry addressed by \<open>Scope.key()\<close> is never another scope's.\<close>

theorem scope_key_injective:
  assumes "scope_ids_valid s" and "scope_ids_valid s'" and "scope_key s = scope_key s'"
  shows "s = s'"
proof -
  have parts: "scope_key_parts s = scope_key_parts s'"
  proof (rule py_join_sep_inject_gen)
    show "py_join [CHR ''/''] (scope_key_parts s) = py_join [CHR ''/''] (scope_key_parts s')"
      using assms(3) by (simp add: scope_key_def)
  qed (use assms(1,2) scope_key_parts_no_slash in \<open>auto simp: scope_key_parts_def\<close>)
  then have "sc_tenant_id s = sc_tenant_id s'" "sc_level s = sc_level s'"
    by (simp_all add: scope_key_parts_def)
  moreover have "sc_workspace_id s = Some v \<longleftrightarrow> sc_workspace_id s' = Some v"
    "sc_user_id s = Some v \<longleftrightarrow> sc_user_id s' = Some v"
    "sc_thread_id s = Some v \<longleftrightarrow> sc_thread_id s' = Some v"
    "sc_agent_id s = Some v \<longleftrightarrow> sc_agent_id s' = Some v"
    "sc_agent_group_id s = Some v \<longleftrightarrow> sc_agent_group_id s' = Some v" for v
    using assms(1,2) by (simp_all add: scope_key_parts_field parts)
  ultimately show ?thesis by (intro Scope.equality) (simp_all add: option_ext_Some)
qed

theorem scope_key_injective_witness:
  "let s = \<lparr>sc_level = L_USER, sc_tenant_id = ''acme'', sc_workspace_id = None, sc_user_id = Some ''ada'',
        sc_thread_id = None, sc_agent_id = None, sc_agent_group_id = None\<rparr>
   in scope_key (s\<lparr>sc_user_id := Some ''bob''\<rparr>) \<noteq> scope_key s"
proof -
  let ?s = "\<lparr>sc_level = L_USER, sc_tenant_id = ''acme'', sc_workspace_id = None, sc_user_id = Some ''ada'',
     sc_thread_id = None, sc_agent_id = None, sc_agent_group_id = None\<rparr>"
  have a: "scope_ids_valid ?s" and b: "scope_ids_valid (?s\<lparr>sc_user_id := Some ''bob''\<rparr>)" by code_simp+
  have "scope_key (?s\<lparr>sc_user_id := Some ''bob''\<rparr>) = scope_key ?s \<Longrightarrow> ?s\<lparr>sc_user_id := Some ''bob''\<rparr> = ?s"
    by (rule scope_key_injective [OF b a])
  then show ?thesis by (auto simp: Let_def)
qed

end
