(* ===== verification/Visibility.thy ===== *)
theory Visibility
  imports Domain_Memory
begin

text \<open>
  Visibility as audience keys (\<open>modules/authz/visibility.py\<close>, and \<open>AuthorizedScope\<close> of
  \<open>ports/authorization.py\<close>). A stored object carries the keys of the audiences that may read
  it; a caller reads with the keys of its authorized scope; a read is allowed when the two sets
  meet. The abstract specification \<open>may_read\<close> says who is meant to read an object, without
  keys, and \<open>visibility_refines_audience\<close> shows that the key intersection decides exactly that.
\<close>

record AuthorizedScope =
  as_tenant_id :: string
  as_principal :: string
  as_thread_ids :: "string list"
  as_document_ids :: "string list"
  as_agent_ids :: "string list"
  as_run_ids :: "string list"
  as_agent_group_ids :: "string list"
  as_workspace_ids :: "string list"
  as_user_id :: "string option"
  as_truncated :: bool

text \<open>The keyword arguments of \<open>visibility_keys\<close> that name an object's anchors.\<close>

record anchors =
  anc_user_id :: "string option"
  anc_thread_id :: "string option"
  anc_workspace_id :: "string option"
  anc_agent_group_id :: "string option"
  anc_agent_run_id :: "string option"
  anc_parent_agent_run_id :: "string option"

definition with_scope :: "Scope option \<Rightarrow> anchors \<Rightarrow> anchors" where
  "with_scope scope a =
     (case scope of None \<Rightarrow> a
      | Some s \<Rightarrow> a\<lparr> anc_user_id := por (anc_user_id a) (sc_user_id s),
                     anc_thread_id := por (anc_thread_id a) (sc_thread_id s),
                     anc_workspace_id := por (anc_workspace_id a) (sc_workspace_id s),
                     anc_agent_group_id := por (anc_agent_group_id a) (sc_agent_group_id s) \<rparr>)"

definition needs :: "string option \<Rightarrow> (string \<Rightarrow> string list) \<Rightarrow> service_error + string list" where
  "needs x f = (if truthy x then Inr (f (or_empty x)) else Inl ValueError)"

definition visibility_keys ::
    "string \<Rightarrow> Visibility \<Rightarrow> string \<Rightarrow> Scope option \<Rightarrow> anchors \<Rightarrow> service_error + string list" where
  "visibility_keys t visibility owner_principal scope anchs =
     (let a = with_scope scope anchs in
      case visibility of
        V_PRIVATE \<Rightarrow> Inr [''principal:'' @ t @ ''/'' @ owner_principal]
      | V_USER \<Rightarrow> needs (anc_user_id a) (\<lambda>u. [''user:'' @ t @ ''/'' @ u])
      | V_AGENT_GROUP \<Rightarrow> needs (anc_agent_group_id a) (\<lambda>g. [''agroup:'' @ t @ ''/'' @ g])
      | V_RUN \<Rightarrow> needs (anc_agent_run_id a) (\<lambda>r.
          [''run:'' @ t @ ''/'' @ r] @
          (if truthy (anc_parent_agent_run_id a)
           then [''runup:'' @ t @ ''/'' @ or_empty (anc_parent_agent_run_id a)] else []))
      | V_THREAD \<Rightarrow> needs (anc_thread_id a) (\<lambda>th. [''thread:'' @ t @ ''/'' @ th])
      | V_WORKSPACE \<Rightarrow> needs (anc_workspace_id a) (\<lambda>w. [''workspace:'' @ t @ ''/'' @ w])
      | V_TENANT \<Rightarrow> Inr [''tenant:'' @ t])"

definition NO_OWNER_KEY :: "Visibility list" where
  "NO_OWNER_KEY = [V_PRIVATE, V_RUN, V_THREAD]"

definition readable_by ::
    "string \<Rightarrow> Visibility \<Rightarrow> string \<Rightarrow> Scope option \<Rightarrow> anchors \<Rightarrow> service_error + string list" where
  "readable_by tenant_id visibility owner_principal scope a =
     rbind (visibility_keys tenant_id visibility owner_principal scope a) (\<lambda>keys.
       if visibility \<in> set NO_OWNER_KEY then Inr keys
       else let owner = ''principal:'' @ tenant_id @ ''/'' @ owner_principal
            in Inr (if owner \<in> set keys then keys else keys @ [owner]))"

record VisibilitySpecification =
  vs_tenant_id :: string
  vs_keys :: "string set"
  vs_truncated :: bool

definition narrow :: "string option \<Rightarrow> string list \<Rightarrow> string list" where
  "narrow current xs = (case current of None \<Rightarrow> xs | Some c \<Rightarrow> filter (\<lambda>x. x = c) xs)"

definition from_scope ::
    "AuthorizedScope \<Rightarrow> string option \<Rightarrow> string option \<Rightarrow> string option \<Rightarrow> VisibilitySpecification" where
  "from_scope scope current_thread_id current_agent_run_id current_workspace_id =
     (let t = as_tenant_id scope in
      \<lparr> vs_tenant_id = t,
        vs_keys =
          {''tenant:'' @ t, ''principal:'' @ t @ ''/'' @ as_principal scope} \<union>
          (if truthy (as_user_id scope)
           then {''user:'' @ t @ ''/'' @ or_empty (as_user_id scope)} else {}) \<union>
          set (map (\<lambda>th. ''thread:'' @ t @ ''/'' @ th) (narrow current_thread_id (as_thread_ids scope))) \<union>
          set (map (\<lambda>w. ''workspace:'' @ t @ ''/'' @ w)
                (narrow current_workspace_id (as_workspace_ids scope))) \<union>
          set (map (\<lambda>ag. ''agroup:'' @ t @ ''/'' @ ag) (as_agent_group_ids scope)) \<union>
          set (map (\<lambda>r. ''run:'' @ t @ ''/'' @ r) (as_run_ids scope)) \<union>
          (if truthy current_agent_run_id
           then {''runup:'' @ t @ ''/'' @ or_empty current_agent_run_id} else {}),
        vs_truncated = as_truncated scope \<rparr>)"

definition allows :: "VisibilitySpecification \<Rightarrow> string \<Rightarrow> string list \<Rightarrow> bool" where
  "allows spec object_tenant_id object_keys =
     (if object_tenant_id \<noteq> vs_tenant_id spec then False
      else list_ex (\<lambda>k. k \<in> vs_keys spec) object_keys)"

record 'v SearchFilter =
  sf_tenant_id :: string
  sf_must :: "(string \<times> 'v) list"
  sf_must_any :: "(string \<times> string list) list"

definition search_filter :: "VisibilitySpecification \<Rightarrow> (string \<times> 'v) list \<Rightarrow> 'v SearchFilter" where
  "search_filter spec must =
     \<lparr> sf_tenant_id = vs_tenant_id spec, sf_must = must,
       sf_must_any = [(''visibility_keys'', sorted_list_of_set (vs_keys spec))] \<rparr>"

text \<open>
  \<open>validate_requested_visibility\<close>: an anchor counts only when it is a provenance field, since
  the memory is built later from the stored row.
\<close>

definition persisted_anchor :: "exec_context \<Rightarrow> string \<Rightarrow> string option" where
  "persisted_anchor c name = (if name \<in> set PROVENANCE_FIELDS then ctx_getattr c name else None)"

definition context_anchors :: "exec_context \<Rightarrow> anchors" where
  "context_anchors c =
     \<lparr> anc_user_id = persisted_anchor c ''user_id'',
       anc_thread_id = persisted_anchor c ''thread_id'',
       anc_workspace_id = persisted_anchor c ''workspace_id'',
       anc_agent_group_id = persisted_anchor c ''agent_group_id'',
       anc_agent_run_id = persisted_anchor c ''agent_run_id'',
       anc_parent_agent_run_id = persisted_anchor c ''parent_agent_run_id'' \<rparr>"

definition validate_requested_visibility ::
    "exec_context \<Rightarrow> Visibility option \<Rightarrow> service_error + unit" where
  "validate_requested_visibility c requested =
     (case requested of None \<Rightarrow> Inr ()
      | Some v \<Rightarrow>
         (case visibility_keys (ctx_tenant_id c) v (principal_id c) None (context_anchors c) of
            Inl _ \<Rightarrow> Inl ValidationFailed | Inr _ \<Rightarrow> Inr ()))"

subsection \<open>The abstract audience\<close>

text \<open>
  Who is meant to read an object of tenant \<open>t\<close>: the author (except where the visibility already
  names the principal or the run or thread is the audience), and the audience the visibility
  names, read from the caller's authorized scope and narrowed to the thread and the workspace
  the caller works in.
\<close>

definition may_read ::
    "AuthorizedScope \<Rightarrow> string option \<Rightarrow> string option \<Rightarrow> string option \<Rightarrow>
     string \<Rightarrow> Visibility \<Rightarrow> string \<Rightarrow> anchors \<Rightarrow> bool" where
  "may_read scope thread run workspace t visibility owner a \<longleftrightarrow>
     as_tenant_id scope = t \<and>
     ((visibility \<in> {V_USER, V_AGENT_GROUP, V_WORKSPACE, V_TENANT} \<and> as_principal scope = owner) \<or>
      (case visibility of
         V_PRIVATE \<Rightarrow> as_principal scope = owner
       | V_USER \<Rightarrow> truthy (as_user_id scope) \<and> as_user_id scope = anc_user_id a
       | V_AGENT_GROUP \<Rightarrow> or_empty (anc_agent_group_id a) \<in> set (as_agent_group_ids scope)
       | V_RUN \<Rightarrow> or_empty (anc_agent_run_id a) \<in> set (as_run_ids scope) \<or>
           (truthy run \<and> anc_parent_agent_run_id a = run)
       | V_THREAD \<Rightarrow> or_empty (anc_thread_id a) \<in> set (as_thread_ids scope) \<and>
           (thread = None \<or> thread = anc_thread_id a)
       | V_WORKSPACE \<Rightarrow> or_empty (anc_workspace_id a) \<in> set (as_workspace_ids scope) \<and>
           (workspace = None \<or> workspace = anc_workspace_id a)
       | V_TENANT \<Rightarrow> True))"

lemma truthy_or_empty: "truthy x \<Longrightarrow> \<exists>v. x = Some v \<and> or_empty x = v \<and> v \<noteq> []"
  by (cases x) auto

lemma set_narrow: "set (narrow c xs) = {x \<in> set xs. c = None \<or> c = Some x}"
  by (auto simp: narrow_def split: option.splits)

lemma with_scope_None [simp]: "with_scope None a = a"
  by (simp add: with_scope_def)

lemmas visibility_defs = readable_by_def visibility_keys_def needs_def from_scope_def allows_def
  NO_OWNER_KEY_def Let_def

lemma readable_by_anchor:
  assumes "readable_by t v owner sc a = Inr keys"
  shows "v = V_USER \<Longrightarrow> truthy (anc_user_id (with_scope sc a))"
    and "v = V_AGENT_GROUP \<Longrightarrow> truthy (anc_agent_group_id (with_scope sc a))"
    and "v = V_RUN \<Longrightarrow> truthy (anc_agent_run_id (with_scope sc a))"
    and "v = V_THREAD \<Longrightarrow> truthy (anc_thread_id (with_scope sc a))"
    and "v = V_WORKSPACE \<Longrightarrow> truthy (anc_workspace_id (with_scope sc a))"
  using assms by (auto simp: visibility_defs rbind_Inr split: if_splits)

text \<open>The keys of an object as the audience reads them.\<close>

lemma readable_by_keys:
  assumes "readable_by t v owner sc a = Inr keys"
  shows "set keys =
    (let b = with_scope sc a in
     (if v \<in> {V_USER, V_AGENT_GROUP, V_WORKSPACE, V_TENANT, V_PRIVATE}
      then {''principal:'' @ t @ ''/'' @ owner} else {}) \<union>
     (case v of V_PRIVATE \<Rightarrow> {}
      | V_USER \<Rightarrow> {''user:'' @ t @ ''/'' @ or_empty (anc_user_id b)}
      | V_AGENT_GROUP \<Rightarrow> {''agroup:'' @ t @ ''/'' @ or_empty (anc_agent_group_id b)}
      | V_RUN \<Rightarrow> {''run:'' @ t @ ''/'' @ or_empty (anc_agent_run_id b)} \<union>
          (if truthy (anc_parent_agent_run_id b)
           then {''runup:'' @ t @ ''/'' @ or_empty (anc_parent_agent_run_id b)} else {})
      | V_THREAD \<Rightarrow> {''thread:'' @ t @ ''/'' @ or_empty (anc_thread_id b)}
      | V_WORKSPACE \<Rightarrow> {''workspace:'' @ t @ ''/'' @ or_empty (anc_workspace_id b)}
      | V_TENANT \<Rightarrow> {''tenant:'' @ t}))"
  using assms by (cases v) (auto simp: visibility_defs rbind_Inr split: if_splits)

lemma allows_iff: "allows spec t keys \<longleftrightarrow> t = vs_tenant_id spec \<and> set keys \<inter> vs_keys spec \<noteq> {}"
  by (auto simp: allows_def list_ex_iff)

text \<open>Which key of each kind a caller carries.\<close>

lemma from_scope_keys:
  fixes s :: AuthorizedScope and th run ws :: "string option"
  defines "K \<equiv> vs_keys (from_scope s th run ws)" and "t \<equiv> as_tenant_id s"
  shows "''tenant:'' @ t \<in> K"
    and "''principal:'' @ t @ ''/'' @ x \<in> K \<longleftrightarrow> x = as_principal s"
    and "''user:'' @ t @ ''/'' @ x \<in> K \<longleftrightarrow> truthy (as_user_id s) \<and> as_user_id s = Some x"
    and "''thread:'' @ t @ ''/'' @ x \<in> K \<longleftrightarrow> x \<in> set (as_thread_ids s) \<and> (th = None \<or> th = Some x)"
    and "''workspace:'' @ t @ ''/'' @ x \<in> K \<longleftrightarrow>
      x \<in> set (as_workspace_ids s) \<and> (ws = None \<or> ws = Some x)"
    and "''agroup:'' @ t @ ''/'' @ x \<in> K \<longleftrightarrow> x \<in> set (as_agent_group_ids s)"
    and "''run:'' @ t @ ''/'' @ x \<in> K \<longleftrightarrow> x \<in> set (as_run_ids s)"
    and "''runup:'' @ t @ ''/'' @ x \<in> K \<longleftrightarrow> truthy run \<and> run = Some x"
  unfolding K_def t_def
  by (auto simp: from_scope_def Let_def set_narrow dest: truthy_or_empty)

lemmas from_scope_key_iffs = from_scope_keys [unfolded append_Cons append_Nil]

lemma from_scope_tenant [simp]: "vs_tenant_id (from_scope s th run ws) = as_tenant_id s"
  by (simp add: from_scope_def Let_def)

text \<open>C1: reading by audience keys decides exactly the intended audience. For an object whose
  keys could be minted, the key intersection \<open>allows\<close> holds if and only if the abstract
  specification \<open>may_read\<close> does, for every visibility, caller and narrowing.\<close>

theorem visibility_refines_audience:
  assumes "readable_by t v owner sc a = Inr keys"
  shows "allows (from_scope s th run ws) t keys \<longleftrightarrow>
    may_read s th run ws t v owner (with_scope sc a)"
proof (cases "t = as_tenant_id s")
  case True
  then show ?thesis
    using readable_by_anchor [OF assms]
    by (cases v) (auto simp: allows_iff readable_by_keys [OF assms] from_scope_key_iffs may_read_def
        Let_def)
next
  case False
  then show ?thesis by (simp add: allows_def may_read_def)
qed

theorem visibility_refines_audience_witness:
  "readable_by ''acme'' V_USER ''user:u1'' None
     \<lparr>anc_user_id = Some ''u1'', anc_thread_id = None, anc_workspace_id = None,
      anc_agent_group_id = None, anc_agent_run_id = None, anc_parent_agent_run_id = None\<rparr>
   = Inr [''user:acme/u1'', ''principal:acme/user:u1''] \<and>
   allows (from_scope
      \<lparr>as_tenant_id = ''acme'', as_principal = ''agent:u1/research'', as_thread_ids = [],
       as_document_ids = [], as_agent_ids = [], as_run_ids = [], as_agent_group_ids = [],
       as_workspace_ids = [], as_user_id = Some ''u1'', as_truncated = False\<rparr> None None None)
     ''acme'' [''user:acme/u1'', ''principal:acme/user:u1'']"
proof -
  let ?a = "\<lparr>anc_user_id = Some ''u1'', anc_thread_id = None, anc_workspace_id = None,
      anc_agent_group_id = None, anc_agent_run_id = None, anc_parent_agent_run_id = None\<rparr>"
  let ?s = "\<lparr>as_tenant_id = ''acme'', as_principal = ''agent:u1/research'', as_thread_ids = [],
       as_document_ids = [], as_agent_ids = [], as_run_ids = [], as_agent_group_ids = [],
       as_workspace_ids = [], as_user_id = Some ''u1'', as_truncated = False\<rparr>"
  have r: "readable_by ''acme'' V_USER ''user:u1'' None ?a
    = Inr [''user:acme/u1'', ''principal:acme/user:u1'']"
    by (simp add: visibility_defs)
  have "may_read ?s None None None ''acme'' V_USER ''user:u1'' (with_scope None ?a)"
    by (simp add: may_read_def)
  with r visibility_refines_audience [OF r, of ?s None None None] show ?thesis by blast
qed

subsection \<open>Tenant separation of keys\<close>

definition audience_kinds :: "string list" where
  "audience_kinds = [''principal'', ''user'', ''agroup'', ''run'', ''runup'', ''thread'',
     ''workspace'', ''tenant'']"

definition key_of_tenant :: "string \<Rightarrow> string \<Rightarrow> bool" where
  "key_of_tenant t k \<longleftrightarrow>
     (\<exists>kind \<in> set audience_kinds. k = kind @ '':'' @ t \<or> (\<exists>x. k = kind @ '':'' @ t @ ''/'' @ x))"

lemma key_of_tenant_unique:
  assumes "key_of_tenant t k" and "key_of_tenant t' k"
    and "CHR ''/'' \<notin> set t" and "CHR ''/'' \<notin> set t'"
  shows "t = t'"
proof -
  have colon: "CHR '':'' \<notin> set kind" if "kind \<in> set audience_kinds" for kind
    using that by (auto simp: audience_kinds_def)
  obtain kind b where k: "k = kind @ CHR '':'' # b" "kind \<in> set audience_kinds"
    and b: "b = t \<or> (\<exists>x. b = t @ CHR ''/'' # x)"
    using assms(1) by (auto simp: key_of_tenant_def)
  obtain kind' b' where k': "k = kind' @ CHR '':'' # b'" "kind' \<in> set audience_kinds"
    and b': "b' = t' \<or> (\<exists>x. b' = t' @ CHR ''/'' # x)"
    using assms(2) by (auto simp: key_of_tenant_def)
  have "b = b'" using k k' colon by (metis sep_inject)
  then show ?thesis using b b' assms(3,4) by (auto simp: sep_inject)
qed

lemma key_of_tenantI:
  "kind \<in> set audience_kinds \<Longrightarrow> key_of_tenant t (kind @ '':'' @ t)"
  "kind \<in> set audience_kinds \<Longrightarrow> key_of_tenant t (kind @ '':'' @ t @ ''/'' @ x)"
  unfolding key_of_tenant_def by blast+

lemma key_of_tenant_kinds:
  "key_of_tenant t (''tenant:'' @ t)"
  "key_of_tenant t (''principal:'' @ t @ ''/'' @ x)"
  "key_of_tenant t (''user:'' @ t @ ''/'' @ x)"
  "key_of_tenant t (''thread:'' @ t @ ''/'' @ x)"
  "key_of_tenant t (''workspace:'' @ t @ ''/'' @ x)"
  "key_of_tenant t (''agroup:'' @ t @ ''/'' @ x)"
  "key_of_tenant t (''run:'' @ t @ ''/'' @ x)"
  "key_of_tenant t (''runup:'' @ t @ ''/'' @ x)"
  using key_of_tenantI(1) [of "''tenant''" t] key_of_tenantI(2) [of "''principal''" t x]
    key_of_tenantI(2) [of "''user''" t x] key_of_tenantI(2) [of "''thread''" t x]
    key_of_tenantI(2) [of "''workspace''" t x] key_of_tenantI(2) [of "''agroup''" t x]
    key_of_tenantI(2) [of "''run''" t x] key_of_tenantI(2) [of "''runup''" t x]
  by (simp_all add: audience_kinds_def)

lemma readable_by_key_of_tenant:
  assumes "readable_by t v owner sc a = Inr keys" and "k \<in> set keys"
  shows "key_of_tenant t k"
  using assms(2) unfolding readable_by_keys [OF assms(1)]
  by (cases v) (auto simp: Let_def key_of_tenant_kinds [unfolded append_Cons append_Nil]
      split: if_splits)

lemma from_scope_key_of_tenant:
  "k \<in> vs_keys (from_scope s th run ws) \<Longrightarrow> key_of_tenant (as_tenant_id s) k"
  by (auto simp: from_scope_def Let_def key_of_tenant_kinds [unfolded append_Cons append_Nil]
      split: if_splits)

text \<open>C29: the tenant boundary is in the keys themselves. No key an object of one tenant is
  stored with is a key that a caller of another tenant reads with, so the store-side filter on
  keys alone (without the tenant equality) already separates tenants.\<close>

theorem tenant_keys_disjoint:
  assumes "readable_by t v owner sc a = Inr keys" and "is_valid_id t"
    and "is_valid_id (as_tenant_id s)" and "as_tenant_id s \<noteq> t"
  shows "set keys \<inter> vs_keys (from_scope s th run ws) = {}"
proof -
  have False if "k \<in> set keys" and "k \<in> vs_keys (from_scope s th run ws)" for k
    using key_of_tenant_unique [OF readable_by_key_of_tenant [OF assms(1) that(1)]
        from_scope_key_of_tenant [OF that(2)]] assms(2-4) by simp
  then show ?thesis by blast
qed

theorem tenant_keys_disjoint_witness:
  "set [''tenant:acme'', ''principal:acme/user:u1''] \<inter>
   vs_keys (from_scope
      \<lparr>as_tenant_id = ''acme2'', as_principal = ''user:u1'', as_thread_ids = [''t1''],
       as_document_ids = [], as_agent_ids = [], as_run_ids = [], as_agent_group_ids = [],
       as_workspace_ids = [], as_user_id = Some ''u1'', as_truncated = False\<rparr> None None None) = {}"
proof -
  let ?a = "\<lparr>anc_user_id = None, anc_thread_id = None, anc_workspace_id = None,
      anc_agent_group_id = None, anc_agent_run_id = None, anc_parent_agent_run_id = None\<rparr>"
  have "readable_by ''acme'' V_TENANT ''user:u1'' None ?a
    = Inr [''tenant:acme'', ''principal:acme/user:u1'']"
    by (simp add: visibility_defs)
  then show ?thesis
    by (rule tenant_keys_disjoint) (simp_all add: is_valid_id_def id_alnum_def id_char_def)
qed

subsection \<open>Hand-off between runs, threads and submission-time validation\<close>

text \<open>A RUN-visible note travels one level of the run tree and no further. Written by run
  \<open>r\<close> spawned by \<open>p\<close>, it is read by a caller acting in run \<open>r\<close> or \<open>p\<close> or in a child of \<open>r\<close>,
  and by no other run: a sibling (another child of \<open>p\<close>) and a grandchild of \<open>r\<close> read nothing.\<close>

theorem run_handoff:
  assumes "readable_by t V_RUN owner None a = Inr keys"
    and "anc_agent_run_id a = Some r" and "anc_parent_agent_run_id a = Some p" and "p \<noteq> []"
    and "as_tenant_id s = t" and "as_run_ids s = filter (\<lambda>x. x \<noteq> []) [me, parent]" and "me \<noteq> []"
    and "r \<noteq> []"
  shows "allows (from_scope s th (Some me) ws) t keys \<longleftrightarrow> me = r \<or> me = p \<or> parent = r"
  using assms
  by (auto simp: visibility_refines_audience [OF assms(1)] may_read_def)

theorem run_handoff_witness:
  "allows (from_scope
      \<lparr>as_tenant_id = ''acme'', as_principal = ''agent:u1/boss'', as_thread_ids = [],
       as_document_ids = [], as_agent_ids = [], as_run_ids = [''p1''], as_agent_group_ids = [],
       as_workspace_ids = [], as_user_id = Some ''u1'', as_truncated = False\<rparr> None (Some ''p1'') None)
     ''acme'' [''run:acme/r1'', ''runup:acme/p1''] \<and>
   \<not> allows (from_scope
      \<lparr>as_tenant_id = ''acme'', as_principal = ''agent:u1/w'', as_thread_ids = [],
       as_document_ids = [], as_agent_ids = [], as_run_ids = [''r2'', ''p1''],
       as_agent_group_ids = [],
       as_workspace_ids = [], as_user_id = Some ''u1'', as_truncated = False\<rparr> None (Some ''r2'') None)
     ''acme'' [''run:acme/r1'', ''runup:acme/p1'']"
proof -
  let ?a = "\<lparr>anc_user_id = None, anc_thread_id = None, anc_workspace_id = None,
      anc_agent_group_id = None, anc_agent_run_id = Some ''r1'',
      anc_parent_agent_run_id = Some ''p1''\<rparr>"
  let ?s = "\<lambda>pr rs. \<lparr>as_tenant_id = ''acme'', as_principal = pr, as_thread_ids = [],
       as_document_ids = [], as_agent_ids = [], as_run_ids = rs, as_agent_group_ids = [],
       as_workspace_ids = [], as_user_id = Some ''u1'', as_truncated = False\<rparr>"
  have k: "readable_by ''acme'' V_RUN ''agent:u1/w'' None ?a
    = Inr [''run:acme/r1'', ''runup:acme/p1'']"
    by (simp add: visibility_defs)
  show ?thesis
    using run_handoff [OF k, of "''r1''" "''p1''" "?s ''agent:u1/boss'' [''p1'']" "''p1''" "[]" None None]
      run_handoff [OF k, of "''r1''" "''p1''" "?s ''agent:u1/w'' [''r2'', ''p1'']" "''r2''" "''p1''" None None]
    by simp
qed

text \<open>Naming the thread or workspace one works in never widens what one reads. The keys of a
  narrowed specification are among those of the specification with no thread and no workspace.\<close>

theorem narrowing_grants_nothing:
  "vs_keys (from_scope s th run ws) \<subseteq> vs_keys (from_scope s None run None)"
proof -
  have "set (map f (narrow c xs)) \<subseteq> set (map f (narrow None xs))" for f :: "string \<Rightarrow> string" and c xs
    by (auto simp: set_narrow)
  then show ?thesis
    unfolding from_scope_def Let_def VisibilitySpecification.simps
    by (intro Un_mono order_refl)
qed

text \<open>A requested visibility is accepted at submission exactly when the keys can be minted
  later from the stored row, and a refusal is a validation failure (never another error).\<close>

theorem requested_visibility_checked:
  "(validate_requested_visibility c (Some v) = Inr () \<longleftrightarrow>
     (\<exists>keys. readable_by (ctx_tenant_id c) v (principal_id c) None (context_anchors c) = Inr keys)) \<and>
   (validate_requested_visibility c (Some v) \<noteq> Inr () \<longleftrightarrow>
     validate_requested_visibility c (Some v) = Inl ValidationFailed)"
  by (auto simp: validate_requested_visibility_def readable_by_def rbind_Inr Let_def
      split: sum.splits)

lemma persisted_anchors:
  "persisted_anchor c ''user_id'' = ctx_user_id c"
  "persisted_anchor c ''thread_id'' = ctx_thread_id c"
  "persisted_anchor c ''workspace_id'' = ctx_workspace_id c"
  "persisted_anchor c ''agent_group_id'' = ctx_agent_group_id c"
  "persisted_anchor c ''agent_run_id'' = ctx_agent_run_id c"
  "persisted_anchor c ''parent_agent_run_id'' = ctx_parent_agent_run_id c"
  by (simp_all add: persisted_anchor_def PROVENANCE_FIELDS_def ctx_getattr_def)

lemma context_anchors_simp [simp]:
  "context_anchors c =
     \<lparr> anc_user_id = ctx_user_id c, anc_thread_id = ctx_thread_id c,
       anc_workspace_id = ctx_workspace_id c, anc_agent_group_id = ctx_agent_group_id c,
       anc_agent_run_id = ctx_agent_run_id c,
       anc_parent_agent_run_id = ctx_parent_agent_run_id c \<rparr>"
  unfolding context_anchors_def persisted_anchors ..

text \<open>The store-side filter carries the caller's tenant and exactly its keys.\<close>

lemma search_filter_exact:
  assumes "finite (vs_keys spec)"
  shows "sf_tenant_id (search_filter spec must) = vs_tenant_id spec"
    and "\<exists>ks. sf_must_any (search_filter spec must) = [(''visibility_keys'', ks)] \<and>
           set ks = vs_keys spec \<and> sorted ks \<and> distinct ks"
  using assms by (simp_all add: search_filter_def)

lemma from_scope_finite [simp]: "finite (vs_keys (from_scope s th run ws))"
  by (simp add: from_scope_def Let_def)

end
