(* ===== verification/Authz_Model.thy ===== *)
theory Authz_Model
  imports Visibility
begin

text \<open>
  The relationship model (\<open>adapters/authz/model.py\<close>) and the in-process provider that evaluates
  it with Zanzibar check semantics (\<open>adapters/authz/memory_provider.py\<close>).

  The provider's dictionary object -> relation -> set of users is a list of
  \<open>(object, relation, user)\<close> triples read as a set; \<open>_objects_by_type\<close> is the list of the
  objects ever added, since an object is only ever filed under its own type. \<open>_check\<close> is the recursive \<open>check_rec\<close> with its visited set; it
  terminates because every call adds a new (relation, object) pair of the finite universe of the
  model's relations and the store's objects. The abstract specification is the least relation
  \<open>derives\<close> closed under direct tuples, usersets, computed usersets and tuple-to-userset
  rewrites, and \<open>check_decides_derivability\<close> shows that the depth-first search with pruning
  decides it.
\<close>

record Relation =
  rel_direct :: "string list"
  rel_computed :: "string list"
  rel_ttu :: "(string \<times> string) list"

type_synonym TypeDef = "(string \<times> Relation) list"
type_synonym auth_model = "(string \<times> TypeDef) list"

definition mk_relation :: "string list \<Rightarrow> string list \<Rightarrow> (string \<times> string) list \<Rightarrow> Relation" where
  "mk_relation d c t = \<lparr>rel_direct = d, rel_computed = c, rel_ttu = t\<rparr>"

definition MODEL :: auth_model where
  "MODEL =
    [(''user'', []),
     (''agent'', [(''operator'', mk_relation [''user''] [] [])]),
     (''tenant'',
       [(''admin'', mk_relation [''user''] [] []),
        (''member'', mk_relation [''user''] [''admin''] [])]),
     (''workspace'',
       [(''tenant'', mk_relation [''tenant''] [] []),
        (''admin'', mk_relation [''user''] [] [(''tenant'', ''admin'')]),
        (''member'', mk_relation [''user'', ''agent''] [''admin''] []),
        (''viewer'', mk_relation [''user'', ''agent''] [''member''] [])]),
     (''thread'',
       [(''tenant'', mk_relation [''tenant''] [] []),
        (''workspace'', mk_relation [''workspace''] [] []),
        (''owner'', mk_relation [''user''] [] []),
        (''participant'', mk_relation [''user'', ''agent''] [] []),
        (''viewer'', mk_relation [''user''] [''owner'', ''participant''] [(''workspace'', ''admin'')]),
        (''can_read'', mk_relation [] [''viewer''] [(''tenant'', ''admin'')]),
        (''can_write'', mk_relation [] [''owner'', ''participant''] [(''workspace'', ''admin'')])]),
     (''document'',
       [(''tenant'', mk_relation [''tenant''] [] []),
        (''workspace'', mk_relation [''workspace''] [] []),
        (''thread'', mk_relation [''thread''] [] []),
        (''owner'', mk_relation [''user''] [] []),
        (''viewer'', mk_relation [''user'', ''agent''] [] []),
        (''can_read'', mk_relation [] [''owner'', ''viewer'']
          [(''thread'', ''can_read''), (''workspace'', ''viewer''), (''tenant'', ''admin'')]),
        (''can_write'', mk_relation [] [''owner''] [(''workspace'', ''admin'')])]),
     (''memory'',
       [(''tenant'', mk_relation [''tenant''] [] []),
        (''owner'', mk_relation [''user'', ''agent''] [] []),
        (''viewer'', mk_relation [''user'', ''agent''] [] []),
        (''can_read'', mk_relation [] [''owner'', ''viewer''] [(''tenant'', ''admin'')]),
        (''can_delete'', mk_relation [] [''owner''] [(''tenant'', ''admin'')])])]"

subsection \<open>The provider's state and tuple management\<close>

type_synonym tuple = "string \<times> string \<times> string"

record provider =
  pv_tuples :: "tuple list"
  pv_objects :: "string list"
  pv_max_listed :: nat
  pv_check_calls :: nat
  pv_available :: bool

record RelationTuple =
  rt_user :: string
  rt_relation :: string
  rt_object :: string

definition split_object :: "string \<Rightarrow> string \<times> string" where
  "split_object obj = (case py_partition (CHR '':'') obj of (ty, _, ident) \<Rightarrow> (ty, ident))"

definition users_of :: "tuple list \<Rightarrow> string \<Rightarrow> string \<Rightarrow> string list" where
  "users_of T obj rel = map (\<lambda>(_, _, u). u) (filter (\<lambda>(ob, r, _). ob = obj \<and> r = rel) T)"

definition user_ref :: "string \<Rightarrow> string" where
  "user_ref u =
     (let user_type = fst (py_partition (CHR '':'') u) in
      case py_partition (CHR ''#'') u of
        (_, True, rest) \<Rightarrow> user_type @ ''#'' @ rest
      | (_, False, _) \<Rightarrow> user_type)"

definition validate_tuple :: "auth_model \<Rightarrow> RelationTuple \<Rightarrow> service_error + unit" where
  "validate_tuple M t =
     (case map_of M (fst (split_object (rt_object t))) of
        None \<Rightarrow> Inl ValueError
      | Some type_def \<Rightarrow>
         (case map_of type_def (rt_relation t) of
            None \<Rightarrow> Inl ValueError
          | Some rel \<Rightarrow>
             if user_ref (rt_user t) \<notin> set (rel_direct rel) then Inl ValueError else Inr ()))"

definition triple :: "RelationTuple \<Rightarrow> tuple" where
  "triple t = (rt_object t, rt_relation t, rt_user t)"

definition discard :: "RelationTuple \<Rightarrow> provider \<Rightarrow> provider" where
  "discard t p = p\<lparr>pv_tuples := filter (\<lambda>x. x \<noteq> triple t) (pv_tuples p)\<rparr>"

definition insert_new :: "'a \<Rightarrow> 'a list \<Rightarrow> 'a list" where
  "insert_new x xs = (if x \<in> set xs then xs else xs @ [x])"

definition add_tuple :: "RelationTuple \<Rightarrow> provider \<Rightarrow> provider" where
  "add_tuple t p = p\<lparr>pv_tuples := insert_new (triple t) (pv_tuples p),
     pv_objects := insert_new (rt_object t) (pv_objects p)\<rparr>"

text \<open>The loop over \<open>add\<close>: a tuple that does not validate raises, and what was written before
  it stays.\<close>

fun write_adds :: "auth_model \<Rightarrow> RelationTuple list \<Rightarrow> provider \<Rightarrow> (service_error + unit) \<times> provider" where
  "write_adds M [] p = (Inr (), p)"
| "write_adds M (t # ts) p =
     (case validate_tuple M t of
        Inl e \<Rightarrow> (Inl e, p)
      | Inr _ \<Rightarrow> write_adds M ts (add_tuple t p))"

definition write_tuples :: "auth_model \<Rightarrow> RelationTuple list \<Rightarrow> RelationTuple list \<Rightarrow> provider \<Rightarrow>
    (service_error + unit) \<times> provider" where
  "write_tuples M adds deletes p = write_adds M adds (fold discard deletes p)"

subsection \<open>Check\<close>

definition relation_names :: "auth_model \<Rightarrow> string set" where
  "relation_names M = set (concat (map (\<lambda>(_, td). map fst td) M))"

definition store_objects :: "tuple list \<Rightarrow> string set" where
  "store_objects T = set (map (\<lambda>(_, _, u). u) T) \<union> set (map (\<lambda>(_, _, u). fst (py_partition (CHR ''#'') u)) T)"

definition universe :: "auth_model \<Rightarrow> tuple list \<Rightarrow> string \<Rightarrow> (string \<times> string) set" where
  "universe M T obj = relation_names M \<times> insert obj (store_objects T)"

lemma finite_universe [simp]: "finite (universe M T obj)"
  by (simp only: universe_def relation_names_def store_objects_def finite_cartesian_product
      finite_insert finite_Un finite_set)

lemma relation_names_I: "map_of M ty = Some td \<Longrightarrow> map_of td r = Some rel \<Longrightarrow> r \<in> relation_names M"
  by (force simp: relation_names_def dest!: map_of_SomeD)

lemma users_of_iff [simp]: "u \<in> set (users_of T obj r) \<longleftrightarrow> (obj, r, u) \<in> set T"
  by (force simp: users_of_def)

lemma users_of_store: "u \<in> set (users_of T obj r) \<Longrightarrow>
    u \<in> store_objects T \<and> fst (py_partition (CHR ''#'') u) \<in> store_objects T"
  by (force simp: store_objects_def)

lemma universe_decreases:
  assumes "(r, obj) \<notin> V" and "r \<in> relation_names M" and "obj' \<in> insert obj (store_objects T)"
  shows "card (universe M T obj' - insert (r, obj) V) < card (universe M T obj - V)"
proof (rule psubset_card_mono)
  show "finite (universe M T obj - V)" by simp
  have "universe M T obj' \<subseteq> universe M T obj" using assms(3) by (auto simp: universe_def)
  moreover have "(r, obj) \<in> universe M T obj" using assms(2) by (simp add: universe_def)
  ultimately show "universe M T obj' - insert (r, obj) V \<subset> universe M T obj - V"
    using assms(1) by blast
qed

function check_rec ::
    "auth_model \<Rightarrow> tuple list \<Rightarrow> string \<Rightarrow> string \<Rightarrow> string \<Rightarrow> (string \<times> string) list \<Rightarrow> bool" where
  "check_rec M T user rel obj visited =
     (if (rel, obj) \<in> set visited then False
      else case map_of M (fst (split_object obj)) of
             None \<Rightarrow> False
           | Some type_def \<Rightarrow>
              (case map_of type_def rel of
                 None \<Rightarrow> False
               | Some rd \<Rightarrow>
                   user \<in> set (users_of T obj rel) \<or>
                   list_ex (\<lambda>member. CHR ''#'' \<in> set member \<and>
                       check_rec M T user (snd (snd (py_partition (CHR ''#'') member)))
                         (fst (py_partition (CHR ''#'') member)) ((rel, obj) # visited))
                     (users_of T obj rel) \<or>
                   list_ex (\<lambda>other. check_rec M T user other obj ((rel, obj) # visited))
                     (rel_computed rd) \<or>
                   list_ex (\<lambda>(tupleset, target_rel).
                       list_ex (\<lambda>target. check_rec M T user target_rel target ((rel, obj) # visited))
                         (users_of T obj tupleset))
                     (rel_ttu rd)))"
  by pat_completeness auto
termination
proof (relation "measure (\<lambda>(M, T, user, rel, obj, visited). card (universe M T obj - set visited))",
    goal_cases)
  case 1
  show ?case by simp
next
  case (2 M T user rel obj visited td rd m)
  then show ?case
    using universe_decreases [of rel obj "set visited" M "fst (py_partition (CHR ''#'') m)" T]
      relation_names_I users_of_store by auto
next
  case (3 M T user rel obj visited td rd other)
  then show ?case
    using universe_decreases [of rel obj "set visited" M obj T] relation_names_I by auto
next
  case (4 M T user rel obj visited td rd p tupleset target_rel target)
  then show ?case
    using universe_decreases [of rel obj "set visited" M target T] relation_names_I users_of_store
    by auto
qed

declare check_rec.simps [simp del]

lemma check_rec_iff:
  "check_rec M T user r obj V \<longleftrightarrow>
     (r, obj) \<notin> set V \<and>
     (\<exists>td rd. map_of M (fst (split_object obj)) = Some td \<and> map_of td r = Some rd \<and>
        ((obj, r, user) \<in> set T \<or>
         (\<exists>m. (obj, r, m) \<in> set T \<and> CHR ''#'' \<in> set m \<and>
            check_rec M T user (snd (snd (py_partition (CHR ''#'') m)))
              (fst (py_partition (CHR ''#'') m)) ((r, obj) # V)) \<or>
         (\<exists>r' \<in> set (rel_computed rd). check_rec M T user r' obj ((r, obj) # V)) \<or>
         (\<exists>ts r' tg. (ts, r') \<in> set (rel_ttu rd) \<and> (obj, ts, tg) \<in> set T \<and>
            check_rec M T user r' tg ((r, obj) # V))))"
proof (cases "map_of M (fst (split_object obj))")
  case None
  then show ?thesis by (simp add: check_rec.simps [of M T user r obj V])
next
  case (Some td)
  show ?thesis
  proof (cases "map_of td r")
    case None
    then show ?thesis using Some by (simp add: check_rec.simps [of M T user r obj V])
  next
    case (Some rd)
    then show ?thesis using \<open>map_of M _ = Some td\<close>
      unfolding check_rec.simps [of M T user r obj V] list_ex_iff
      by (simp add: Bex_def split_paired_Ex)
  qed
qed

definition guard :: "provider \<Rightarrow> service_error + unit" where
  "guard p = (if pv_available p then Inr () else Inl DependencyUnavailable)"

definition check :: "auth_model \<Rightarrow> string \<Rightarrow> string \<Rightarrow> string \<Rightarrow> provider \<Rightarrow>
    (service_error + bool) \<times> provider" where
  "check M user rel obj p =
     (case guard p of Inl e \<Rightarrow> (Inl e, p)
      | Inr _ \<Rightarrow> (Inr (check_rec M (pv_tuples p) user rel obj []),
                  p\<lparr>pv_check_calls := pv_check_calls p + 1\<rparr>))"

fun batch_check_loop :: "auth_model \<Rightarrow> (string \<times> string \<times> string) list \<Rightarrow> provider \<Rightarrow>
    (service_error + bool list) \<times> provider" where
  "batch_check_loop M [] p = (Inr [], p)"
| "batch_check_loop M ((u, r, ob) # cs) p =
     (case check M u r ob p of
        (Inl e, q) \<Rightarrow> (Inl e, q)
      | (Inr b, q) \<Rightarrow>
         (case batch_check_loop M cs q of
            (Inl e, q') \<Rightarrow> (Inl e, q') | (Inr bs, q') \<Rightarrow> (Inr (b # bs), q')))"

definition batch_check :: "auth_model \<Rightarrow> (string \<times> string \<times> string) list \<Rightarrow> provider \<Rightarrow>
    (service_error + bool list) \<times> provider" where
  "batch_check M cs p = (case guard p of Inl e \<Rightarrow> (Inl e, p) | Inr _ \<Rightarrow> batch_check_loop M cs p)"

definition list_objects :: "auth_model \<Rightarrow> string \<Rightarrow> string \<Rightarrow> string \<Rightarrow> provider \<Rightarrow>
    service_error + string list" where
  "list_objects M user rel object_type p =
     (case guard p of Inl e \<Rightarrow> Inl e
      | Inr _ \<Rightarrow> Inr (take (pv_max_listed p + 1)
          (filter (\<lambda>obj. check_rec M (pv_tuples p) user rel obj [])
            (sorted_list_of_set (set (filter (\<lambda>ob. fst (split_object ob) = object_type) (pv_objects p)))))))"

subsection \<open>Derivability\<close>

inductive derives :: "auth_model \<Rightarrow> tuple list \<Rightarrow> string \<Rightarrow> nat \<Rightarrow> string \<Rightarrow> string \<Rightarrow> bool"
  for M T user where
  direct: "map_of M (fst (split_object obj)) = Some td \<Longrightarrow> map_of td r = Some rd \<Longrightarrow>
    (obj, r, user) \<in> set T \<Longrightarrow> derives M T user n r obj"
| userset: "map_of M (fst (split_object obj)) = Some td \<Longrightarrow> map_of td r = Some rd \<Longrightarrow>
    (obj, r, m) \<in> set T \<Longrightarrow> CHR ''#'' \<in> set m \<Longrightarrow>
    derives M T user n (snd (snd (py_partition (CHR ''#'') m))) (fst (py_partition (CHR ''#'') m)) \<Longrightarrow>
    derives M T user (Suc n) r obj"
| computed: "map_of M (fst (split_object obj)) = Some td \<Longrightarrow> map_of td r = Some rd \<Longrightarrow>
    r' \<in> set (rel_computed rd) \<Longrightarrow> derives M T user n r' obj \<Longrightarrow> derives M T user (Suc n) r obj"
| ttu: "map_of M (fst (split_object obj)) = Some td \<Longrightarrow> map_of td r = Some rd \<Longrightarrow>
    (tupleset, r') \<in> set (rel_ttu rd) \<Longrightarrow> (obj, tupleset, target) \<in> set T \<Longrightarrow>
    derives M T user n r' target \<Longrightarrow> derives M T user (Suc n) r obj"

definition derivable :: "auth_model \<Rightarrow> tuple list \<Rightarrow> string \<Rightarrow> string \<Rightarrow> string \<Rightarrow> bool" where
  "derivable M T user r obj \<longleftrightarrow> (\<exists>n. derives M T user n r obj)"

lemma check_rec_sound: "check_rec M T user r obj V \<Longrightarrow> derivable M T user r obj"
proof (induction M T user r obj V rule: check_rec.induct)
  case (1 M T user r obj V)
  from "1.prems" [unfolded check_rec_iff [of M T user r obj V]] obtain td rd
    where V: "(r, obj) \<notin> set V"
      and td: "map_of M (fst (split_object obj)) = Some td" "map_of td r = Some rd"
      and cs: "(obj, r, user) \<in> set T \<or>
         (\<exists>m. (obj, r, m) \<in> set T \<and> CHR ''#'' \<in> set m \<and>
            check_rec M T user (snd (snd (py_partition (CHR ''#'') m)))
              (fst (py_partition (CHR ''#'') m)) ((r, obj) # V)) \<or>
         (\<exists>r' \<in> set (rel_computed rd). check_rec M T user r' obj ((r, obj) # V)) \<or>
         (\<exists>ts r' tg. (ts, r') \<in> set (rel_ttu rd) \<and> (obj, ts, tg) \<in> set T \<and>
            check_rec M T user r' tg ((r, obj) # V))"
    by blast
  from cs show ?case
  proof (elim disjE exE bexE conjE)
    assume "(obj, r, user) \<in> set T"
    then show ?thesis using td unfolding derivable_def by (blast intro: derives.direct)
  next
    fix m assume m: "(obj, r, m) \<in> set T" "CHR ''#'' \<in> set m"
      and c: "check_rec M T user (snd (snd (py_partition (CHR ''#'') m)))
        (fst (py_partition (CHR ''#'') m)) ((r, obj) # V)"
    have "derivable M T user (snd (snd (py_partition (CHR ''#'') m)))
        (fst (py_partition (CHR ''#'') m))"
      by (rule "1.IH"(1) [OF V td _ c]) (use m in simp)
    then show ?thesis using td m unfolding derivable_def by (blast intro: derives.userset)
  next
    fix r' assume r': "r' \<in> set (rel_computed rd)" and c: "check_rec M T user r' obj ((r, obj) # V)"
    have "derivable M T user r' obj" by (rule "1.IH"(2) [OF V td r' c])
    then show ?thesis using td r' unfolding derivable_def by (blast intro: derives.computed)
  next
    fix ts r' tg assume t: "(ts, r') \<in> set (rel_ttu rd)" "(obj, ts, tg) \<in> set T"
      and c: "check_rec M T user r' tg ((r, obj) # V)"
    have "derivable M T user r' tg" by (rule "1.IH"(3) [OF V td t(1) refl _ c]) (use t in simp)
    then show ?thesis using td t unfolding derivable_def by (blast intro: derives.ttu)
  qed
qed

text \<open>Completeness: along a derivation of least height no key repeats, so pruning loses nothing.\<close>

lemma check_rec_complete:
  assumes "derives M T user n r obj"
    and "\<And>r' o' m. (r', o') \<in> set V \<Longrightarrow> m \<le> n \<Longrightarrow> \<not> derives M T user m r' o'"
  shows "check_rec M T user r obj V"
  using assms
proof (induction n arbitrary: r obj V rule: less_induct)
  case (less n)
  define k where "k = (LEAST k. derives M T user k r obj)"
  have k: "derives M T user k r obj" unfolding k_def using less.prems(1) by (rule LeastI)
  have kn: "k \<le> n" unfolding k_def using less.prems(1) by (rule Least_le)
  have least: "\<not> derives M T user m r obj" if "m < k" for m
    using that unfolding k_def by (rule not_less_Least)
  have V: "(r, obj) \<notin> set V" using less.prems by blast
  have sub: "check_rec M T user r' o' ((r, obj) # V)" if "derives M T user j r' o'" "j < k" for j r' o'
  proof (rule less.IH)
    show "j < n" using that(2) kn by simp
    show "derives M T user j r' o'" by fact
    show "\<not> derives M T user m r'' o''" if "(r'', o'') \<in> set ((r, obj) # V)" "m \<le> j" for r'' o'' m
      using that \<open>j < k\<close> kn least less.prems(2) by (auto intro: less.prems(2))
  qed
  from k show ?case
  proof cases
    case (direct td rd)
    then show ?thesis using V by (subst check_rec_iff) blast
  next
    case (userset td rd m j)
    then have "check_rec M T user (snd (snd (py_partition (CHR ''#'') m)))
        (fst (py_partition (CHR ''#'') m)) ((r, obj) # V)" using sub by simp
    with userset V show ?thesis by (subst check_rec_iff) blast
  next
    case (computed td rd r' j)
    then have "check_rec M T user r' obj ((r, obj) # V)" using sub by simp
    with computed V show ?thesis by (subst check_rec_iff) blast
  next
    case (ttu td rd ts r' tg j)
    then have "check_rec M T user r' tg ((r, obj) # V)" using sub by simp
    with ttu V show ?thesis by (subst check_rec_iff) blast
  qed
qed

text \<open>C2: the provider's check decides derivability. The depth-first search with its per-path
  visited set terminates on every store, cyclic or not, and answers true exactly when the
  relation can be derived from the tuples by the model's direct, userset, computed and
  tuple-to-userset rules.\<close>

theorem check_decides_derivability:
  "check_rec M T user r obj [] \<longleftrightarrow> derivable M T user r obj"
  by (auto simp: derivable_def intro: check_rec_complete dest!: check_rec_sound)

end
