(* ===== verification/Authz_Scope.thy ===== *)
theory Authz_Scope
  imports Authz_Model
begin

text \<open>
  Scope resolution (\<open>modules/authz/scope.py\<close>): the caller's execution context becomes the lists
  of threads, documents and workspaces it may read, asked of a provider that can list objects.
  The provider is an argument (\<open>_Lister\<close>); the contract a provider has to keep is the locale
  \<open>lister\<close>, proved for the in-process provider of \<open>Authz_Model\<close>. Also here: the tenant locality
  of the relationship model, which is what makes a tenant prefix in the object id a boundary.
\<close>

type_synonym list_fn = "string \<Rightarrow> string \<Rightarrow> string \<Rightarrow> service_error + string list"

definition object_id :: "string \<Rightarrow> string \<Rightarrow> string" where
  "object_id tenant_id ident = tenant_id @ ''/'' @ ident"

text \<open>\<open>o.split(":", 1)[1]\<close> raises \<open>IndexError\<close> when there is no colon.\<close>

definition after_colon :: "string \<Rightarrow> service_error + string" where
  "after_colon ob = (case py_partition (CHR '':'') ob of
     (_, True, rest) \<Rightarrow> Inr rest | (_, False, _) \<Rightarrow> Inl IndexError)"

definition list_capped :: "list_fn \<Rightarrow> nat \<Rightarrow> string \<Rightarrow> string \<Rightarrow> string \<Rightarrow>
    service_error + (string list \<times> bool)" where
  "list_capped lister mx user rel object_type =
     rbind (lister user rel object_type) (\<lambda>objects.
       rbind (mapM after_colon (take mx objects)) (\<lambda>xs. Inr (xs, length objects > mx)))"

definition subjects_of :: "exec_context \<Rightarrow> string list" where
  "subjects_of c = principal_id c #
     (if is_agent c \<and> truthy (ctx_user_id c) then [''user:'' @ or_empty (ctx_user_id c)] else [])"

definition extend_new :: "string list \<Rightarrow> string list \<Rightarrow> string list" where
  "extend_new sink found = sink @ filter (\<lambda>x. x \<notin> set sink) found"

definition listings :: "(string \<times> string) list" where
  "listings = [(''can_read'', ''thread''), (''can_read'', ''document''), (''viewer'', ''workspace'')]"

text \<open>The results in the order of \<open>asyncio.gather\<close>: per subject, then per listing; one that
  raises raises from the gather.\<close>

definition gather_listings :: "list_fn \<Rightarrow> nat \<Rightarrow> string list \<Rightarrow>
    service_error + ((string \<times> string list \<times> bool) list)" where
  "gather_listings lister mx subjects =
     mapM (\<lambda>(s, rel, ty). rbind (list_capped lister mx s rel ty) (\<lambda>r. Inr (ty, r)))
       (concat (map (\<lambda>s. map (\<lambda>(rel, ty). (s, rel, ty)) listings) subjects))"

definition sink_of :: "string \<Rightarrow> (string \<times> string list \<times> bool) list \<Rightarrow> string list" where
  "sink_of ty results =
     fold (\<lambda>(ty', found, _) sink. if ty' = ty then extend_new sink found else sink) results []"

definition own :: "string \<Rightarrow> string list \<Rightarrow> string list" where
  "own tenant_id items =
     (let prefix = tenant_id @ ''/'' in
      sort (map (drop (length prefix)) (filter (startswith prefix) items)))"

definition resolve :: "list_fn \<Rightarrow> nat \<Rightarrow> exec_context \<Rightarrow> service_error + AuthorizedScope" where
  "resolve lister mx c =
     rbind (gather_listings lister mx (subjects_of c)) (\<lambda>results. Inr
       \<lparr> as_tenant_id = ctx_tenant_id c,
         as_principal = principal_id c,
         as_thread_ids = own (ctx_tenant_id c) (sink_of ''thread'' results),
         as_document_ids = own (ctx_tenant_id c) (sink_of ''document'' results),
         as_agent_ids = (if is_agent c \<and> truthy (ctx_agent_id c)
                         then [or_empty (ctx_agent_id c)] else []),
         as_run_ids = map or_empty (filter truthy [ctx_agent_run_id c, ctx_parent_agent_run_id c]),
         as_agent_group_ids = (if truthy (ctx_agent_group_id c)
                               then [or_empty (ctx_agent_group_id c)] else []),
         as_workspace_ids = own (ctx_tenant_id c) (sink_of ''workspace'' results),
         as_user_id = ctx_user_id c,
         as_truncated = list_ex (\<lambda>(_, _, over). over) results \<rparr>)"

subsection \<open>Generic facts\<close>

lemma set_extend_new [simp]: "set (extend_new a b) = set a \<union> set b"
  by (auto simp: extend_new_def)

lemma sink_of_fold:
  "x \<in> set (fold (\<lambda>(ty', found, _) sink. if ty' = ty then extend_new sink found else sink) rs sink) \<longleftrightarrow>
   x \<in> set sink \<or> (\<exists>found ov. (ty, found, ov) \<in> set rs \<and> x \<in> set found)"
proof (induction rs arbitrary: sink)
  case (Cons r rs)
  obtain ty' found ov where "r = (ty', found, ov)" by (cases r)
  then show ?case using Cons.IH by auto
qed simp

lemma set_sink_of: "x \<in> set (sink_of ty rs) \<longleftrightarrow> (\<exists>found ov. (ty, found, ov) \<in> set rs \<and> x \<in> set found)"
  by (simp add: sink_of_def sink_of_fold)

lemma set_own: "x \<in> set (own t items) \<longleftrightarrow> t @ ''/'' @ x \<in> set items"
proof -
  have "x \<in> set (own t items) \<longleftrightarrow> (\<exists>i \<in> set items. startswith (t @ ''/'') i \<and> x = drop (length (t @ ''/'')) i)"
    by (auto simp: own_def Let_def)
  also have "\<dots> \<longleftrightarrow> t @ ''/'' @ x \<in> set items" by (auto simp: startswith_iff)
  finally show ?thesis .
qed

subsection \<open>The provider's contract\<close>

text \<open>A lister answers with objects the check accepts, of the type asked for, and with all of
  them unless it returns more than \<open>mx\<close>.\<close>

locale lister =
  fixes lst :: list_fn and chk :: "string \<Rightarrow> string \<Rightarrow> string \<Rightarrow> bool"
    and known :: "string \<Rightarrow> bool" and mx :: nat
  assumes listed_ok: "lst u r ty = Inr os \<Longrightarrow> ob \<in> set os \<Longrightarrow>
      chk u r ob \<and> fst (split_object ob) = ty \<and> known ob"
    and listed_all: "lst u r ty = Inr os \<Longrightarrow> length os \<le> mx \<Longrightarrow> chk u r ob \<Longrightarrow>
      known ob \<Longrightarrow> fst (split_object ob) = ty \<Longrightarrow> ob \<in> set os"
begin

lemma list_capped_sound:
  assumes "list_capped lst mx u r ty = Inr (xs, over)" and "x \<in> set xs"
  shows "chk u r (ty @ '':'' @ x)"
proof -
  obtain os where os: "lst u r ty = Inr os" and m: "mapM after_colon (take mx os) = Inr xs"
    using assms(1) by (auto simp: list_capped_def rbind_Inr)
  obtain ob where ob: "ob \<in> set (take mx os)" "after_colon ob = Inr x"
    using assms(2) mapM_set [OF m] by blast
  then have "ob \<in> set os" by (auto dest: in_set_takeD)
  moreover obtain ty' where "ob = ty' @ '':'' @ x" "fst (split_object ob) = ty'"
    using ob(2) partition_found [of "CHR '':''" ob]
    by (auto simp: after_colon_def split_object_def split: prod.splits bool.splits)
  ultimately show ?thesis using listed_ok [OF os] by auto
qed

lemma list_capped_complete:
  assumes "list_capped lst mx u r ty = Inr (xs, False)" and "CHR '':'' \<notin> set ty"
    and "chk u r (ty @ '':'' @ x)" and "known (ty @ '':'' @ x)"
  shows "x \<in> set xs"
proof -
  obtain os where os: "lst u r ty = Inr os" and m: "mapM after_colon (take mx os) = Inr xs"
    and le: "length os \<le> mx"
    using assms(1) by (auto simp: list_capped_def rbind_Inr)
  have p: "py_partition (CHR '':'') (ty @ '':'' @ x) = (ty, True, x)"
    using partition_sep [OF assms(2), of x] by simp
  have "ty @ '':'' @ x \<in> set os"
    by (rule listed_all [OF os le assms(3,4)]) (simp add: split_object_def p del: append.simps)
  moreover have "after_colon (ty @ '':'' @ x) = Inr x" by (simp add: after_colon_def p del: append.simps)
  ultimately show ?thesis using mapM_set [OF m] le by auto
qed

text \<open>What a resolved list of one type means, given the relation it was asked with.\<close>

lemma gather_iff:
  assumes "gather_listings lst mx subs = Inr rs" and "(rel, ty) \<in> set listings"
  shows "\<forall>x. x \<in> set (sink_of ty rs) \<longrightarrow> (\<exists>s \<in> set subs. chk s rel (ty @ '':'' @ x))"
    and "\<not> list_ex (\<lambda>(_, _, over). over) rs \<Longrightarrow> s \<in> set subs \<Longrightarrow>
      chk s rel (ty @ '':'' @ x) \<Longrightarrow> known (ty @ '':'' @ x) \<Longrightarrow> x \<in> set (sink_of ty rs)"
proof -
  have mem: "(ty', found, ov) \<in> set rs \<longleftrightarrow>
      (\<exists>s \<in> set subs. \<exists>rel'. (rel', ty') \<in> set listings \<and>
         list_capped lst mx s rel' ty' = Inr (found, ov))" for ty' found ov
    using mapM_set [OF assms(1) [unfolded gather_listings_def], of "(ty', found, ov)"]
    by (fastforce simp: rbind_Inr)
  have uniq: "rel' = rel" if "(rel', ty) \<in> set listings" for rel'
    using that assms(2) by (auto simp: listings_def)
  show "\<forall>x. x \<in> set (sink_of ty rs) \<longrightarrow> (\<exists>s \<in> set subs. chk s rel (ty @ '':'' @ x))"
    using mem uniq list_capped_sound unfolding set_sink_of by blast
  assume nt: "\<not> list_ex (\<lambda>(_, _, over). over) rs" and s: "s \<in> set subs"
    and c: "chk s rel (ty @ '':'' @ x)" "known (ty @ '':'' @ x)"
  have "\<exists>found ov. list_capped lst mx s rel ty = Inr (found, ov)"
  proof -
    have "(s, rel, ty) \<in> set (concat (map (\<lambda>s. map (\<lambda>(rel, ty). (s, rel, ty)) listings) subs))"
      using s assms(2) by force
    from mapM_total [OF assms(1) [unfolded gather_listings_def] this] show ?thesis
      by (auto simp: rbind_Inr)
  qed
  then obtain found ov where l: "list_capped lst mx s rel ty = Inr (found, ov)" by blast
  then have "(ty, found, ov) \<in> set rs" using mem s assms(2) by blast
  moreover from this have "\<not> ov" using nt by (auto simp: list_ex_iff)
  moreover have "CHR '':'' \<notin> set ty" using assms(2) by (auto simp: listings_def)
  ultimately show "x \<in> set (sink_of ty rs)"
    using l list_capped_complete [OF _ _ c, of found] unfolding set_sink_of by auto
qed

end

lemma list_objects_set:
  assumes "list_objects M u r ty p = Inr os"
  shows "\<exists>L. os = take (pv_max_listed p + 1) L \<and>
    set L = {ob \<in> set (pv_objects p). fst (split_object ob) = ty \<and> check_rec M (pv_tuples p) u r ob []}"
proof -
  let ?S = "set (filter (\<lambda>ob. fst (split_object ob) = ty) (pv_objects p))"
  have "os = take (pv_max_listed p + 1)
      (filter (\<lambda>ob. check_rec M (pv_tuples p) u r ob []) (sorted_list_of_set ?S))"
    using assms by (auto simp: list_objects_def split: sum.splits)
  then show ?thesis by (intro exI conjI) auto
qed

interpretation mp: lister "\<lambda>u r ty. list_objects M u r ty p"
  "\<lambda>u r ob. check_rec M (pv_tuples p) u r ob []" "\<lambda>ob. ob \<in> set (pv_objects p)" "pv_max_listed p"
  for M :: auth_model and p :: provider
proof
  fix u r ty os ob
  assume "list_objects M u r ty p = Inr os"
  then obtain L where L: "os = take (pv_max_listed p + 1) L"
    "set L = {ob \<in> set (pv_objects p). fst (split_object ob) = ty \<and> check_rec M (pv_tuples p) u r ob []}"
    using list_objects_set by blast
  show "check_rec M (pv_tuples p) u r ob [] \<and> fst (split_object ob) = ty \<and> ob \<in> set (pv_objects p)"
    if "ob \<in> set os"
  proof -
    have "ob \<in> set L" using that L(1) by (auto dest: in_set_takeD)
    then show ?thesis using L(2) by blast
  qed
  show "ob \<in> set os" if "length os \<le> pv_max_listed p" "check_rec M (pv_tuples p) u r ob []"
    "ob \<in> set (pv_objects p)" "fst (split_object ob) = ty"
  proof -
    have "ob \<in> set L" using that L(2) by blast
    moreover have "os = L" using that(1) L(1) by (simp add: min_def split: if_splits)
    ultimately show ?thesis by simp
  qed
qed

subsection \<open>What a resolved scope contains\<close>

definition objects_known :: "provider \<Rightarrow> bool" where
  "objects_known p \<longleftrightarrow> (\<forall>(ob, _, _) \<in> set (pv_tuples p). ob \<in> set (pv_objects p))"

text \<open>The ids of a type the caller reaches: by its own principal, or by its user's.\<close>

definition reachable_ids :: "provider \<Rightarrow> exec_context \<Rightarrow> string \<Rightarrow> string \<Rightarrow> string set" where
  "reachable_ids p c rel ty =
     {x. \<exists>s \<in> set (subjects_of c).
        check_rec MODEL (pv_tuples p) s rel (ty @ '':'' @ object_id (ctx_tenant_id c) x) []}"

lemma derives_has_tuple: "derives M T user n r ob \<Longrightarrow> \<exists>r' u. (ob, r', u) \<in> set T"
  by (induction rule: derives.induct) blast+

lemma check_known:
  "objects_known p \<Longrightarrow> check_rec M (pv_tuples p) user r ob [] \<Longrightarrow> ob \<in> set (pv_objects p)"
  by (drule check_rec_sound) (auto simp: objects_known_def derivable_def dest!: derives_has_tuple)

lemma add_tuple_known: "objects_known p \<Longrightarrow> objects_known (add_tuple t p)"
  by (auto simp: objects_known_def add_tuple_def insert_new_def triple_def)

lemma discard_known: "objects_known p \<Longrightarrow> objects_known (discard t p)"
  by (auto simp: objects_known_def discard_def)

lemma write_known [inv_intros]: "objects_known p \<Longrightarrow> objects_known (snd (write_tuples M adds dels p))"
proof -
  have a: "objects_known q \<Longrightarrow> objects_known (snd (write_adds M adds q))" for q
    by (induction M adds q rule: write_adds.induct) (auto simp: add_tuple_known split: sum.splits)
  have "objects_known q \<Longrightarrow> objects_known (fold discard dels q)" for q
    by (induction dels arbitrary: q) (auto simp: discard_known)
  then show "objects_known p \<Longrightarrow> ?thesis" by (simp add: write_tuples_def a)
qed

lemma resolved_list:
  assumes "gather_listings (\<lambda>u r ty. list_objects MODEL u r ty p) (pv_max_listed p) (subjects_of c) = Inr rs"
    and "(rel, ty) \<in> set listings"
  shows "set (own (ctx_tenant_id c) (sink_of ty rs)) \<subseteq> reachable_ids p c rel ty"
    and "objects_known p \<Longrightarrow> \<not> list_ex (\<lambda>(_, _, over). over) rs \<Longrightarrow>
      set (own (ctx_tenant_id c) (sink_of ty rs)) = reachable_ids p c rel ty"
proof -
  show sub: "set (own (ctx_tenant_id c) (sink_of ty rs)) \<subseteq> reachable_ids p c rel ty"
    using mp.gather_iff(1) [OF assms] by (auto simp: reachable_ids_def object_id_def set_own)
  assume k: "objects_known p" and nt: "\<not> list_ex (\<lambda>(_, _, over). over) rs"
  have "reachable_ids p c rel ty \<subseteq> set (own (ctx_tenant_id c) (sink_of ty rs))"
    using mp.gather_iff(2) [OF assms nt] check_known [OF k]
    unfolding reachable_ids_def object_id_def by (auto simp del: append_Cons append.append_Nil simp: set_own)
  with sub show "set (own (ctx_tenant_id c) (sink_of ty rs)) = reachable_ids p c rel ty" by simp
qed


subsection \<open>Tenant locality\<close>

definition obj_tenant :: "string \<Rightarrow> string" where
  "obj_tenant ob = fst (py_partition (CHR ''/'') (snd (split_object ob)))"

text \<open>The relations whose tuples link one object to another.\<close>

definition LINKS :: "string list" where
  "LINKS = [''tenant'', ''workspace'', ''thread'']"

definition tenant_closed :: "tuple list \<Rightarrow> bool" where
  "tenant_closed T \<longleftrightarrow>
     (\<forall>(ob, r, u) \<in> set T. CHR ''#'' \<notin> set u \<and> (r \<in> set LINKS \<longrightarrow> obj_tenant u = obj_tenant ob))"

definition model_links :: "auth_model \<Rightarrow> bool" where
  "model_links M \<longleftrightarrow> list_all (\<lambda>(_, td). list_all (\<lambda>(_, rd). list_all (\<lambda>(ts, _). ts \<in> set LINKS) (rel_ttu rd)) td) M"

lemma MODEL_links: "model_links MODEL"
  by (simp add: model_links_def MODEL_def mk_relation_def LINKS_def)

lemma MODEL_ttu_link:
  assumes "map_of MODEL ty = Some td" "map_of td r = Some rd" "(ts, r') \<in> set (rel_ttu rd)"
  shows "ts \<in> set LINKS"
  using MODEL_links map_of_SomeD [OF assms(1)] map_of_SomeD [OF assms(2)] assms(3)
  unfolding model_links_def list_all_iff by fast

lemma derives_local:
  assumes "derives MODEL T user n r ob" and "tenant_closed T" and "obj_tenant ob = t"
    and "\<And>ob r u. (ob, r, u) \<in> set T \<Longrightarrow> obj_tenant ob = t \<Longrightarrow> (ob, r, u) \<in> set T'"
  shows "derives MODEL T' user n r ob"
  using assms(1,3)
proof (induction rule: derives.induct)
  case (direct ob td r rd n)
  then show ?case using assms(4) by (blast intro: derives.direct)
next
  case (userset ob td r rd m n)
  then show ?case using assms(2) by (auto simp: tenant_closed_def)
next
  case (computed ob td r rd r' n)
  then show ?case by (blast intro: derives.computed)
next
  case (ttu ob td r rd ts r' target n)
  have "obj_tenant target = obj_tenant ob"
    using assms(2) ttu.hyps(4) MODEL_ttu_link [OF ttu.hyps(1-3)] by (auto simp: tenant_closed_def)
  then show ?case using ttu assms(4) by (blast intro: derives.ttu)
qed

text \<open>A decision about a tenant's object depends on that tenant's tuples only. Two stores
  whose link tuples stay inside a tenant and that agree on the objects of one tenant give the
  same answer to every check on an object of that tenant, whatever other tenants hold.\<close>

theorem check_tenant_local:
  assumes "tenant_closed T" and "tenant_closed T'"
    and "\<And>ob' r' u. obj_tenant ob' = obj_tenant ob \<Longrightarrow> (ob', r', u) \<in> set T \<longleftrightarrow> (ob', r', u) \<in> set T'"
  shows "check_rec MODEL T user r ob [] \<longleftrightarrow> check_rec MODEL T' user r ob []"
proof -
  have "check_rec MODEL A user r ob []"
    if "check_rec MODEL B user r ob []" "tenant_closed B"
      "\<And>ob' r' u. obj_tenant ob' = obj_tenant ob \<Longrightarrow> (ob', r', u) \<in> set B \<Longrightarrow> (ob', r', u) \<in> set A" for A B
  proof -
    from check_rec_sound [OF that(1)] obtain n where "derives MODEL B user n r ob"
      by (auto simp: derivable_def)
    from derives_local [OF this that(2) refl] that(3) have "derives MODEL A user n r ob" by blast
    then show ?thesis by (rule check_rec_complete) simp
  qed
  then show ?thesis using assms by blast
qed

end
