(* ===== verification/Revisions.thy ===== *)
theory Revisions
  imports Visibility "HOL-Library.Product_Lexorder"
begin

text \<open>
  Revision counters (\<open>domain/revisions.py\<close>, \<open>SqlRevisionRepository\<close> of
  \<open>adapters/db/repositories.py\<close>) and the set of counters a context bundle depends on
  (\<open>ContextBuilder._revisions\<close> and \<open>_revision_fingerprint\<close>, \<open>modules/context/builder.py\<close>).

  The \<open>revisions\<close> table is a map from (tenant, kind, object id) to its counter. A Python set of
  keys is a list read as a set. The main result is that the counters a writer moves for an
  object's audience keys always include one that every reader of the object subscribes to, so a
  cached bundle keyed on the reader's fingerprint is never addressed again after the write.
\<close>

datatype RevisionKind =
    R_TENANT | R_USER | R_THREAD | R_DOCUMENT | R_GRAPH | R_AGENT | R_MEMBERSHIP

fun kind_value :: "RevisionKind \<Rightarrow> string" where
  "kind_value R_TENANT = ''tenant''"
| "kind_value R_USER = ''user''"
| "kind_value R_THREAD = ''thread''"
| "kind_value R_DOCUMENT = ''document''"
| "kind_value R_GRAPH = ''graph''"
| "kind_value R_AGENT = ''agent''"
| "kind_value R_MEMBERSHIP = ''membership''"

type_synonym revision_key = "RevisionKind \<times> string"
type_synonym revisions = "(string \<times> RevisionKind \<times> string) \<rightharpoonup> nat"

definition SHARED_AUDIENCES :: "string list" where
  "SHARED_AUDIENCES = [''tenant'', ''agroup'', ''run'', ''runup'', ''thread'', ''workspace'']"

text \<open>\<open>s.rsplit("/", 1)[-1]\<close>: what follows the last slash, all of \<open>s\<close> when there is none.\<close>

definition after_last :: "char \<Rightarrow> string \<Rightarrow> string" where
  "after_last c s = rev (takeWhile (\<lambda>x. x \<noteq> c) (rev s))"

definition audience_key :: "string \<Rightarrow> string \<Rightarrow> revision_key list" where
  "audience_key tenant_id audience =
     (case py_partition (CHR '':'') audience of (kind, _, val) \<Rightarrow>
      if kind \<in> set SHARED_AUDIENCES then [(R_TENANT, [])]
      else if kind = ''user'' then
        (case py_partition (CHR ''/'') val of (tenant, separator, identifier) \<Rightarrow>
           if tenant = tenant_id \<and> separator \<and> identifier \<noteq> [] then [(R_USER, identifier)] else [])
      else if kind = ''principal'' then
        (case py_partition (CHR ''/'') val of (tenant, _, princ) \<Rightarrow>
           if tenant \<noteq> tenant_id then []
           else case py_partition (CHR '':'') princ of (principal_kind, _, identifier) \<Rightarrow>
             if principal_kind = ''user'' \<and> identifier \<noteq> [] then [(R_USER, identifier)]
             else if principal_kind = ''agent'' \<and> identifier \<noteq> []
               then [(R_AGENT, after_last (CHR ''/'') identifier)]
             else [(R_TENANT, [])])
      else [])"

definition audience_revision_keys :: "string \<Rightarrow> string list \<Rightarrow> revision_key list" where
  "audience_revision_keys tenant_id vkeys =
     fromkeys (concat (map (audience_key tenant_id) vkeys))"

definition document_revision_keys ::
    "string \<Rightarrow> string option \<Rightarrow> string list \<Rightarrow> revision_key list" where
  "document_revision_keys tenant_id thread_id vkeys =
     (let keys = audience_revision_keys tenant_id vkeys @
                 (if truthy thread_id then [(R_THREAD, or_empty thread_id)] else [])
      in if keys = [] then [(R_TENANT, [])] else keys)"

subsection \<open>The repository\<close>

definition rev_value :: "revisions \<Rightarrow> string \<Rightarrow> revision_key \<Rightarrow> nat" where
  "rev_value R t k = (case R (t, fst k, snd k) of None \<Rightarrow> 0 | Some n \<Rightarrow> n)"

definition rev_bump :: "string \<Rightarrow> RevisionKind \<Rightarrow> string \<Rightarrow> revisions \<Rightarrow> nat \<times> revisions" where
  "rev_bump tenant_id kind obj R =
     (let n = (case R (tenant_id, kind, obj) of None \<Rightarrow> 1 | Some v \<Rightarrow> v + 1)
      in (n, R((tenant_id, kind, obj) \<mapsto> n)))"

definition rev_name :: "revision_key \<Rightarrow> string" where
  "rev_name k = kind_value (fst k) @ '':'' @ snd k"

text \<open>The dictionary \<open>get_many\<close> returns, one entry per distinct key; its callers look entries
  up or sort them, so its order carries nothing.\<close>

definition get_many :: "revisions \<Rightarrow> string \<Rightarrow> revision_key list \<Rightarrow> (string \<times> nat) list" where
  "get_many R tenant_id keys = map (\<lambda>k. (rev_name k, rev_value R tenant_id k)) (fromkeys keys)"

definition bump_all :: "string \<Rightarrow> revision_key list \<Rightarrow> revisions \<Rightarrow> revisions" where
  "bump_all t ks R = fold (\<lambda>(k, ob) R. snd (rev_bump t k ob R)) ks R"

subsection \<open>What a bundle depends on\<close>

definition bundle_revision_keys :: "exec_context \<Rightarrow> revision_key list" where
  "bundle_revision_keys c =
     [(R_TENANT, []), (R_USER, or_empty (ctx_user_id c)), (R_THREAD, or_empty (ctx_thread_id c)),
      (R_AGENT, or_empty (ctx_agent_id c)), (R_GRAPH, []),
      (R_MEMBERSHIP, []), (R_MEMBERSHIP, or_empty (ctx_user_id c)),
      (R_MEMBERSHIP, or_empty (ctx_agent_id c))]"

definition bundle_revisions :: "revisions \<Rightarrow> exec_context \<Rightarrow> (string \<times> nat) list" where
  "bundle_revisions R c = get_many R (ctx_tenant_id c) (bundle_revision_keys c)"

definition show_item :: "string \<times> nat \<Rightarrow> string" where
  "show_item kv = fst kv @ ''='' @ show_nat (snd kv)"

definition bundle_revision_fingerprint :: "(string \<Rightarrow> string) \<Rightarrow> (string \<times> nat) list \<Rightarrow> string" where
  "bundle_revision_fingerprint blake2b revs = stable_key blake2b (map show_item (sort revs))"

subsection \<open>Counters only grow\<close>

lemma rev_value_bump:
  "rev_value (snd (rev_bump t k ob R)) t' k' =
     (if t' = t \<and> k' = (k, ob) then rev_value R t' k' + 1 else rev_value R t' k')"
  by (cases k') (auto simp: rev_value_def rev_bump_def Let_def split: option.splits)

lemma bump_all_simps [simp]:
  "bump_all t [] R = R"
  "bump_all t (k # ks) R = bump_all t ks (snd (rev_bump t (fst k) (snd k) R))"
  by (simp_all add: bump_all_def case_prod_unfold)

lemma rev_value_bump_all:
  "rev_value (bump_all t ks R) t' k = rev_value R t' k + (if t' = t then count_list ks k else 0)"
  by (induction ks arbitrary: R) (auto simp: rev_value_bump)

lemma bump_all_other_tenant: "t' \<noteq> t \<Longrightarrow> rev_value (bump_all t ks R) t' k = rev_value R t' k"
  by (simp add: rev_value_bump_all)

lemma bump_all_grows: "k \<in> set ks \<Longrightarrow> rev_value R t k < rev_value (bump_all t ks R) t k"
  using count_list_0_iff [of ks k] by (simp add: rev_value_bump_all)

subsection \<open>Fingerprints separate tables\<close>

lemma kind_value_inject [simp]: "kind_value k = kind_value k' \<longleftrightarrow> k = k'"
  by (cases k; cases k') simp_all

lemma kind_value_plain: "CHR '':'' \<notin> set (kind_value k) \<and> CHR ''='' \<notin> set (kind_value k) \<and>
    CHR 0x1F \<notin> set (kind_value k)"
  by (cases k) simp_all

lemma rev_name_inject [simp]: "rev_name k = rev_name k' \<longleftrightarrow> k = k'"
  using kind_value_plain by (auto simp: rev_name_def sep_inject prod_eq_iff)

lemma inj_rev_name: "inj rev_name"
  by (rule injI) simp

lemma get_many_keys: "map fst (get_many R t ks) = map rev_name (fromkeys ks)"
  by (simp add: get_many_def)

lemma get_many_distinct: "distinct (map fst (get_many R t ks))"
  by (simp add: get_many_keys distinct_map inj_on_subset [OF inj_rev_name])

lemma map_of_get_many:
  assumes "k \<in> set ks"
  shows "map_of (get_many R t ks) (rev_name k) = Some (rev_value R t k)"
proof -
  have "(rev_name k, rev_value R t k) \<in> set (get_many R t ks)"
    using assms by (auto simp: get_many_def)
  then show ?thesis using get_many_distinct by (metis map_of_is_SomeI)
qed

text \<open>Sorting items with the same distinct keys puts equal keys at equal positions.\<close>

lemma sorted_fst_eq:
  fixes xs ys :: "(string \<times> nat) list"
  assumes "distinct (map fst xs)" and "distinct (map fst ys)" and "set (map fst xs) = set (map fst ys)"
  shows "map fst (sort xs) = map fst (sort ys)"
proof -
  have s: "sorted (map fst (sort zs))" for zs :: "(string \<times> nat) list"
    unfolding sorted_map
    by (rule sorted_wrt_mono_rel [OF _ sorted_sort]) (auto simp: less_eq_prod_def)
  have d: "distinct (map fst (sort zs))" if "distinct (map fst zs)" for zs :: "(string \<times> nat) list"
    using that by (simp add: distinct_map)
  show ?thesis
    by (rule sorted_distinct_set_unique) (use assms s d in auto)
qed

lemma show_items_inject:
  "map fst xs = map fst ys \<Longrightarrow> map show_item xs = map show_item ys \<Longrightarrow> xs = ys"
proof (induction xs arbitrary: ys)
  case (Cons x xs)
  then obtain y ys' where "ys = y # ys'" by (cases ys) auto
  with Cons show ?case by (cases x; cases y) (auto simp: show_item_def)
qed simp

lemma show_nat_no_sep: "CHR 0x1F \<notin> set (show_nat n)"
  using show_nat_digits [of "CHR 0x1F" n] by auto

lemma bundle_items_no_sep:
  assumes "valid_context c" and "x \<in> set (map show_item (bundle_revisions R c))"
  shows "CHR 0x1F \<notin> set x"
proof -
  obtain k where k: "k \<in> set (bundle_revision_keys c)"
    and x: "x = rev_name k @ ''='' @ show_nat (rev_value R (ctx_tenant_id c) k)"
    using assms(2) by (auto simp: bundle_revisions_def get_many_def show_item_def)
  have "CHR 0x1F \<notin> set (snd k)"
    using k or_empty_no_sep assms(1) by (auto simp: bundle_revision_keys_def)
  then show ?thesis
    using kind_value_plain [of "fst k"] by (simp add: x rev_name_def show_nat_no_sep)
qed

text \<open>The sorted items of two tables determine the counters read.\<close>

lemma sorted_items_inject:
  assumes "map show_item (sort (get_many R t ks)) = map show_item (sort (get_many R' t ks))" and "k \<in> set ks"
  shows "rev_value R t k = rev_value R' t k"
proof -
  let ?xs = "get_many R t ks" and ?ys = "get_many R' t ks"
  have keys: "map fst ?xs = map fst ?ys" "distinct (map fst ?xs)" "distinct (map fst ?ys)"
    by (simp_all only: get_many_distinct) (simp add: get_many_keys)
  have "map fst (sort ?xs) = map fst (sort ?ys)"
    using keys by (intro sorted_fst_eq) (simp_all only:)
  with assms(1) have "sort ?xs = sort ?ys" by (intro show_items_inject)
  then have "set ?xs = set ?ys" by (metis set_sort)
  then have "map_of ?xs = map_of ?ys" using keys(2,3) by (simp add: map_of_inject_set)
  then show ?thesis using map_of_get_many [OF assms(2)] by (metis option.inject)
qed

text \<open>Two tables with one fingerprint agree on every counter the bundle depends on.\<close>

lemma bundle_fingerprint_inject:
  assumes "inj blake2b" and "valid_context c" and "k \<in> set (bundle_revision_keys c)"
    and "bundle_revision_fingerprint blake2b (bundle_revisions R c) =
         bundle_revision_fingerprint blake2b (bundle_revisions R' c)"
  shows "rev_value R (ctx_tenant_id c) k = rev_value R' (ctx_tenant_id c) k"
proof (rule sorted_items_inject [OF _ assms(3)])
  let ?xs = "bundle_revisions R c" and ?ys = "bundle_revisions R' c"
  have "map show_item (sort ?xs) = map show_item (sort ?ys)"
  proof (rule stable_key_inject [OF assms(1)])
    show "length (map show_item (sort ?xs)) = length (map show_item (sort ?ys))"
      by (simp add: bundle_revisions_def get_many_def)
  qed (use assms(4) bundle_items_no_sep [OF assms(2)] in
      \<open>auto simp: bundle_revision_fingerprint_def\<close>)
  then show "map show_item (sort (get_many R (ctx_tenant_id c) (bundle_revision_keys c))) =
    map show_item (sort (get_many R' (ctx_tenant_id c) (bundle_revision_keys c)))"
    by (simp add: bundle_revisions_def)
qed

subsection \<open>Every reader subscribes to what a writer bumps\<close>

text \<open>The scope of a caller, as \<open>ScopeResolver.resolve\<close> builds it from the context.\<close>

definition scope_of_context :: "exec_context \<Rightarrow> AuthorizedScope \<Rightarrow> bool" where
  "scope_of_context c s \<longleftrightarrow> as_tenant_id s = ctx_tenant_id c \<and> as_principal s = principal_id c \<and>
     as_user_id s = ctx_user_id c"

lemma after_last_nosep: "c \<notin> set s \<Longrightarrow> after_last c s = s"
proof -
  assume "c \<notin> set s"
  then have eq: "takeWhile (\<lambda>x. x \<noteq> c) (rev s) = rev s" by (auto simp: takeWhile_eq_all_conv)
  show ?thesis unfolding after_last_def eq by simp
qed

lemma after_last_sep: "c \<notin> set b \<Longrightarrow> after_last c (a @ c # b) = b"
  by (simp add: after_last_def takeWhile_append)

lemma audience_shared:
  assumes "kind \<in> set SHARED_AUDIENCES"
  shows "audience_key t (kind @ '':'' @ x) = [(R_TENANT, [])]"
proof -
  have "CHR '':'' \<notin> set kind" using assms by (auto simp: SHARED_AUDIENCES_def)
  then show ?thesis using assms by (simp add: audience_key_def partition_sep)
qed

lemma audience_user:
  assumes "CHR ''/'' \<notin> set t"
  shows "audience_key t (''user'' @ '':'' @ t @ ''/'' @ x) = (if x \<noteq> [] then [(R_USER, x)] else [])"
  using assms partition_sep [of "CHR '':''" "''user''" "t @ ''/'' @ x"]
    partition_sep [of "CHR ''/''" t x]
  by (simp add: audience_key_def SHARED_AUDIENCES_def)

lemma audience_principal:
  assumes "CHR ''/'' \<notin> set t"
  shows "audience_key t (''principal'' @ '':'' @ t @ ''/'' @ p) =
    (case py_partition (CHR '':'') p of (pk, _, ident) \<Rightarrow>
       if pk = ''user'' \<and> ident \<noteq> [] then [(R_USER, ident)]
       else if pk = ''agent'' \<and> ident \<noteq> [] then [(R_AGENT, after_last (CHR ''/'') ident)]
       else [(R_TENANT, [])])"
  using assms partition_sep [of "CHR '':''" "''principal''" "t @ ''/'' @ p"]
    partition_sep [of "CHR ''/''" t p]
  by (simp add: audience_key_def SHARED_AUDIENCES_def split: prod.split)

lemma principal_partition:
  "py_partition (CHR '':'') (principal_id c) =
    (case ctx_agent_id c of
       Some a \<Rightarrow> (''agent'', True, (case ctx_user_id c of Some u \<Rightarrow> u @ ''/'' @ a | None \<Rightarrow> a))
     | None \<Rightarrow> (case ctx_user_id c of Some u \<Rightarrow> (''user'', True, u)
                | None \<Rightarrow> (''service'', True, ''anonymous'')))"
  using partition_sep [of "CHR '':''" "''agent''"] partition_sep [of "CHR '':''" "''user''"]
    partition_sep [of "CHR '':''" "''service''" "''anonymous''"]
  by (simp add: principal_id_def split: option.split)

definition own_revision :: "exec_context \<Rightarrow> revision_key" where
  "own_revision c = (case ctx_agent_id c of Some a \<Rightarrow> (R_AGENT, a)
     | None \<Rightarrow> (case ctx_user_id c of Some u \<Rightarrow> (R_USER, u) | None \<Rightarrow> (R_TENANT, [])))"

lemma own_revision_subscribed: "own_revision c \<in> set (bundle_revision_keys c)"
  by (auto simp: own_revision_def bundle_revision_keys_def split: option.split)

lemma audience_own_principal:
  assumes "valid_context c"
  shows "audience_key (ctx_tenant_id c) (''principal'' @ '':'' @ ctx_tenant_id c @ ''/'' @ principal_id c)
    = [own_revision c]"
proof -
  have t: "CHR ''/'' \<notin> set (ctx_tenant_id c)" using assms by simp
  have a: "CHR ''/'' \<notin> set a \<and> a \<noteq> []" if "ctx_agent_id c = Some a" for a
    using that valid_context_ids(3) [OF assms] by (simp add: valid_id_nonempty)
  have u: "u \<noteq> []" if "ctx_user_id c = Some u" for u
    using that valid_context_ids(2) [OF assms] by (simp add: valid_id_nonempty)
  show ?thesis
  proof (cases "ctx_agent_id c")
    case None
    with u show ?thesis
      unfolding audience_principal [OF t] principal_partition own_revision_def
      by (cases "ctx_user_id c") simp_all
  next
    case (Some a')
    with a [OF Some] show ?thesis
      unfolding audience_principal [OF t] principal_partition own_revision_def
      by (cases "ctx_user_id c") (simp_all add: after_last_nosep after_last_sep)
  qed
qed

definition is_shared :: "string \<Rightarrow> bool" where
  "is_shared k \<longleftrightarrow> (\<exists>kind \<in> set SHARED_AUDIENCES. \<exists>x. k = kind @ '':'' @ x)"

lemma is_sharedI: "kind \<in> set SHARED_AUDIENCES \<Longrightarrow> is_shared (kind @ '':'' @ x)"
  by (auto simp: is_shared_def)

lemma is_shared_kinds:
  "is_shared (''tenant:'' @ x)" "is_shared (''thread:'' @ x)" "is_shared (''workspace:'' @ x)"
  "is_shared (''agroup:'' @ x)" "is_shared (''run:'' @ x)" "is_shared (''runup:'' @ x)"
  using is_sharedI [of "''tenant''" x] is_sharedI [of "''thread''" x] is_sharedI [of "''workspace''" x]
    is_sharedI [of "''agroup''" x] is_sharedI [of "''run''" x] is_sharedI [of "''runup''" x]
  by (simp_all add: SHARED_AUDIENCES_def)

lemma is_shared_audience: "is_shared k \<Longrightarrow> audience_key t k = [(R_TENANT, [])]"
  unfolding is_shared_def using audience_shared by blast

lemma from_scope_key_cases:
  assumes "k \<in> vs_keys (from_scope s th run ws)"
  shows "k = ''principal:'' @ as_tenant_id s @ ''/'' @ as_principal s \<or>
    truthy (as_user_id s) \<and> k = ''user:'' @ as_tenant_id s @ ''/'' @ or_empty (as_user_id s) \<or>
    is_shared k"
proof -
  have "vs_keys (from_scope s th run ws) \<subseteq>
    {''principal:'' @ as_tenant_id s @ ''/'' @ as_principal s} \<union>
    (if truthy (as_user_id s) then {''user:'' @ as_tenant_id s @ ''/'' @ or_empty (as_user_id s)}
     else {}) \<union> Collect is_shared"
    unfolding from_scope_def Let_def VisibilitySpecification.simps
    by (intro Un_least) (simp_all add: image_subset_iff is_shared_kinds [unfolded append_Cons append_Nil])
  then show ?thesis using assms by (auto split: if_splits)
qed

lemma reader_subscribes:
  assumes "valid_context c" and "scope_of_context c s"
    and "k \<in> vs_keys (from_scope s th run ws)"
  shows "\<exists>r \<in> set (bundle_revision_keys c). r \<in> set (audience_key (ctx_tenant_id c) k)"
  using from_scope_key_cases [OF assms(3)]
proof (elim disjE conjE)
  assume "k = ''principal:'' @ as_tenant_id s @ ''/'' @ as_principal s"
  then have "audience_key (ctx_tenant_id c) k = [own_revision c]"
    using assms(2) audience_own_principal [OF assms(1)] by (simp add: scope_of_context_def)
  then show ?thesis using own_revision_subscribed by auto
next
  assume t: "truthy (as_user_id s)"
    and k: "k = ''user:'' @ as_tenant_id s @ ''/'' @ or_empty (as_user_id s)"
  then obtain u where u: "ctx_user_id c = Some u" "u \<noteq> []"
    using assms(2) truthy_Some [OF t] by (auto simp: scope_of_context_def)
  have "(R_USER, u) \<in> set (bundle_revision_keys c)" by (simp add: bundle_revision_keys_def u)
  moreover have "audience_key (ctx_tenant_id c) k = [(R_USER, u)]"
    using k u assms(1,2) audience_user [of "ctx_tenant_id c" u] by (simp add: scope_of_context_def)
  ultimately show ?thesis by simp
next
  assume "is_shared k"
  then have "audience_key (ctx_tenant_id c) k = [(R_TENANT, [])]" by (rule is_shared_audience)
  then show ?thesis by (simp add: bundle_revision_keys_def)
qed



end
