(* ===== verification/Authz_Service.thy ===== *)
theory Authz_Service
  imports Authz_Scope Revisions Cache Tenancy_Domain
begin

text \<open>
  The authorization service (\<open>modules/authz/service.py\<close>): the caller's scope cached under a key that
  embeds the membership revisions, decisions by batch check, and the grants that write tuples and
  bump the revisions. The decision cache holds scopes (its JSON decoded); \<open>blake2b\<close> is the digest
  behind \<open>scope_fingerprint\<close>. The revisions a grant bumps are those of the caller's unit of work,
  \<open>None\<close> when the code passes none.
\<close>

record authz =
  az_provider :: provider
  az_cache :: "AuthorizedScope cache option"
  az_ttl :: nat
  az_max :: nat

definition WORKSPACE_ROLES :: "MemberRole list" where
  "WORKSPACE_ROLES = [M_admin, M_member, M_viewer]"

definition scope_cache_key :: "(string \<Rightarrow> string) \<Rightarrow> exec_context \<Rightarrow> string \<Rightarrow> string" where
  "scope_cache_key blake2b c fp =
     ''authz:scope:'' @ ctx_tenant_id c @ '':'' @ scope_fingerprint blake2b c @ '':'' @ fp"

definition membership_keys :: "exec_context \<Rightarrow> revision_key list" where
  "membership_keys c = [(R_MEMBERSHIP, []), (R_MEMBERSHIP, or_empty (ctx_user_id c))] @
     (if truthy (ctx_agent_id c) then [(R_MEMBERSHIP, or_empty (ctx_agent_id c))] else [])"

text \<open>The fingerprint from revisions the caller already read: the key names, sorted, duplicates
  kept, each with its counter.\<close>

definition revision_fingerprint :: "exec_context \<Rightarrow> (string \<times> nat) list \<Rightarrow> string" where
  "revision_fingerprint c revs =
     py_join '','' (map (\<lambda>k. show_item (k, (case map_of revs k of None \<Rightarrow> 0 | Some n \<Rightarrow> n)))
       (sort (map rev_name (membership_keys c))))"

text \<open>The fingerprint \<open>scope\<close> computes itself, from the dictionary \<open>get_many\<close> returns.\<close>

definition own_fingerprint :: "exec_context \<Rightarrow> revisions option \<Rightarrow> string" where
  "own_fingerprint c ro = (case ro of None \<Rightarrow> ''0''
     | Some R \<Rightarrow> py_join '','' (map show_item (sort (get_many R (ctx_tenant_id c) (membership_keys c)))))"

definition resolve_with :: "authz \<Rightarrow> exec_context \<Rightarrow> service_error + AuthorizedScope" where
  "resolve_with a c = resolve (\<lambda>u r ty. list_objects MODEL u r ty (az_provider a)) (az_max a) c"

definition scope :: "(string \<Rightarrow> string) \<Rightarrow> instant \<Rightarrow> exec_context \<Rightarrow> revisions option \<Rightarrow> string option \<Rightarrow>
    AuthorizedScope option \<Rightarrow> authz \<Rightarrow> (service_error + AuthorizedScope) \<times> authz" where
  "scope blake2b now c ro fingerprint cached_scope a =
     (let raw0 = (case az_cache a of None \<Rightarrow> None | Some _ \<Rightarrow> cached_scope);
          (fp, raw, a1) =
            (case fingerprint of
               Some f \<Rightarrow> (f, raw0, a)
             | None \<Rightarrow>
                 let f = own_fingerprint c ro in
                 case az_cache a of None \<Rightarrow> (f, raw0, a)
                 | Some ca \<Rightarrow> (case c_get now (scope_cache_key blake2b c f) ca of
                     (Inl _, ca') \<Rightarrow> (f, None, a\<lparr>az_cache := Some ca'\<rparr>)
                   | (Inr r, ca') \<Rightarrow> (f, r, a\<lparr>az_cache := Some ca'\<rparr>)))
      in case raw of
           Some s \<Rightarrow> (Inr s, a1)
         | None \<Rightarrow>
            (case resolve_with a1 c of
               Inl e \<Rightarrow> (Inl e, a1)
             | Inr s \<Rightarrow> (Inr s, (case az_cache a1 of None \<Rightarrow> a1
                 | Some ca \<Rightarrow> a1\<lparr>az_cache := Some (snd (c_set now (scope_cache_key blake2b c fp) s (Some (az_ttl a1)) ca))\<rparr>))))"

definition visibility :: "(string \<Rightarrow> string) \<Rightarrow> instant \<Rightarrow> exec_context \<Rightarrow> revisions option \<Rightarrow> string option \<Rightarrow>
    AuthorizedScope option \<Rightarrow> authz \<Rightarrow> (service_error + VisibilitySpecification) \<times> authz" where
  "visibility blake2b now c ro fp cached a =
     (case scope blake2b now c ro fp cached a of
        (Inl e, a') \<Rightarrow> (Inl e, a')
      | (Inr s, a') \<Rightarrow> (Inr (from_scope s (ctx_thread_id c) (ctx_agent_run_id c) (ctx_workspace_id c)), a'))"

subsection \<open>Decisions\<close>

definition ask :: "exec_context \<Rightarrow> string \<Rightarrow> string \<Rightarrow> authz \<Rightarrow> (service_error + bool) \<times> authz" where
  "ask c rel ob a =
     (case batch_check MODEL (map (\<lambda>s. (s, rel, ob)) (subjects_of c)) (az_provider a) of
        (Inl e, p) \<Rightarrow> (Inl e, a\<lparr>az_provider := p\<rparr>)
      | (Inr bs, p) \<Rightarrow> (Inr (list_ex (\<lambda>b. b) bs), a\<lparr>az_provider := p\<rparr>))"

definition allowed :: "exec_context \<Rightarrow> string \<Rightarrow> string \<Rightarrow> string \<Rightarrow> authz \<Rightarrow> (service_error + bool) \<times> authz" where
  "allowed c rel obj_type ident a = ask c rel (obj_type @ '':'' @ object_id (ctx_tenant_id c) ident) a"

definition is_tenant_admin :: "exec_context \<Rightarrow> authz \<Rightarrow> (service_error + bool) \<times> authz" where
  "is_tenant_admin c a = ask c ''admin'' (''tenant:'' @ ctx_tenant_id c) a"

definition deny :: service_error where
  "deny = ScopeDenied ''Access denied''"

definition require_access :: "exec_context \<Rightarrow> string \<Rightarrow> string \<Rightarrow> string \<Rightarrow> authz \<Rightarrow> (service_error + unit) \<times> authz" where
  "require_access c rel obj_type ident a =
     (case allowed c rel obj_type ident a of
        (Inl e, a') \<Rightarrow> (Inl e, a')
      | (Inr ok, a') \<Rightarrow> (if ok then Inr () else Inl deny, a'))"

subsection \<open>Grants\<close>

definition bump_membership :: "string \<Rightarrow> string list \<Rightarrow> revisions option \<Rightarrow> revisions option" where
  "bump_membership t ids ro = (case ro of None \<Rightarrow> None
     | Some R \<Rightarrow> Some (bump_all t (map (\<lambda>i. (R_MEMBERSHIP, i)) (fromkeys ([] # ids))) R))"

definition rt :: "string \<Rightarrow> string \<Rightarrow> string \<Rightarrow> RelationTuple" where
  "rt u r ob = \<lparr>rt_user = u, rt_relation = r, rt_object = ob\<rparr>"

text \<open>The tuples are written first; when the write raises, nothing is bumped.\<close>

definition write_and_bump :: "RelationTuple list \<Rightarrow> RelationTuple list \<Rightarrow> string \<Rightarrow> string list \<Rightarrow>
    authz \<times> revisions option \<Rightarrow> (service_error + unit) \<times> authz \<times> revisions option" where
  "write_and_bump adds dels t ids st =
     (case st of (a, ro) \<Rightarrow>
      (case write_tuples MODEL adds dels (az_provider a) of
         (Inl e, p) \<Rightarrow> (Inl e, a\<lparr>az_provider := p\<rparr>, ro)
       | (Inr _, p) \<Rightarrow> (Inr (), a\<lparr>az_provider := p\<rparr>, bump_membership t ids ro)))"

definition thread_tuples :: "exec_context \<Rightarrow> string \<Rightarrow> string option \<Rightarrow> RelationTuple list" where
  "thread_tuples c thread_id workspace_id =
     (let ob = ''thread:'' @ object_id (ctx_tenant_id c) thread_id in
      [rt (''tenant:'' @ ctx_tenant_id c) ''tenant'' ob] @
      (if truthy workspace_id
       then [rt (''workspace:'' @ object_id (ctx_tenant_id c) (or_empty workspace_id)) ''workspace'' ob] else []) @
      (if truthy (ctx_user_id c) then [rt (''user:'' @ or_empty (ctx_user_id c)) ''owner'' ob] else []) @
      (if is_agent c then [rt (principal_id c) ''participant'' ob] else []))"

definition grant_thread :: "exec_context \<Rightarrow> string \<Rightarrow> string option \<Rightarrow> authz \<times> revisions option \<Rightarrow>
    (service_error + unit) \<times> authz \<times> revisions option" where
  "grant_thread c thread_id workspace_id st =
     write_and_bump (thread_tuples c thread_id workspace_id) [] (ctx_tenant_id c)
       [or_empty (ctx_user_id c), or_empty (ctx_agent_id c)] st"

definition document_tuples :: "exec_context \<Rightarrow> string \<Rightarrow> string option \<Rightarrow> string option \<Rightarrow> RelationTuple list" where
  "document_tuples c document_id thread_id workspace_id =
     (let ob = ''document:'' @ object_id (ctx_tenant_id c) document_id in
      [rt (''tenant:'' @ ctx_tenant_id c) ''tenant'' ob] @
      (if truthy (ctx_user_id c) then [rt (''user:'' @ or_empty (ctx_user_id c)) ''owner'' ob] else []) @
      (if truthy thread_id
       then [rt (''thread:'' @ object_id (ctx_tenant_id c) (or_empty thread_id)) ''thread'' ob] else []) @
      (if truthy workspace_id
       then [rt (''workspace:'' @ object_id (ctx_tenant_id c) (or_empty workspace_id)) ''workspace'' ob] else []))"

definition grant_document :: "exec_context \<Rightarrow> string \<Rightarrow> string option \<Rightarrow> string option \<Rightarrow> authz \<times> revisions option \<Rightarrow>
    (service_error + unit) \<times> authz \<times> revisions option" where
  "grant_document c document_id thread_id workspace_id st =
     write_and_bump (document_tuples c document_id thread_id workspace_id) [] (ctx_tenant_id c)
       [or_empty (ctx_user_id c), or_empty (ctx_agent_id c)] st"

definition memory_tuples :: "exec_context \<Rightarrow> string \<Rightarrow> string option \<Rightarrow> RelationTuple list" where
  "memory_tuples c memory_id owner =
     (let ob = ''memory:'' @ object_id (ctx_tenant_id c) memory_id in
      [rt (''tenant:'' @ ctx_tenant_id c) ''tenant'' ob,
       rt (if truthy owner then or_empty owner else principal_id c) ''owner'' ob])"

definition grant_memory :: "exec_context \<Rightarrow> string \<Rightarrow> string option \<Rightarrow> authz \<times> revisions option \<Rightarrow>
    (service_error + unit) \<times> authz \<times> revisions option" where
  "grant_memory c memory_id owner st =
     write_and_bump (memory_tuples c memory_id owner) [] (ctx_tenant_id c)
       [or_empty (ctx_user_id c), or_empty (ctx_agent_id c)] st"

definition grant_membership :: "string \<Rightarrow> string \<Rightarrow> bool \<Rightarrow> authz \<times> revisions option \<Rightarrow>
    (service_error + unit) \<times> authz \<times> revisions option" where
  "grant_membership t user_id admin st =
     write_and_bump [rt (''user:'' @ user_id) (if admin then ''admin'' else ''member'') (''tenant:'' @ t)] []
       t [user_id] st"

definition grant_workspace :: "string \<Rightarrow> string \<Rightarrow> authz \<Rightarrow> (service_error + unit) \<times> authz" where
  "grant_workspace t w a =
     (case write_tuples MODEL [rt (''tenant:'' @ t) ''tenant'' (''workspace:'' @ object_id t w)] [] (az_provider a) of
        (r, p) \<Rightarrow> (r, a\<lparr>az_provider := p\<rparr>))"

definition member_subject :: "string \<Rightarrow> service_error + (string \<times> string)" where
  "member_subject princ = rbind (parse_principal princ) (\<lambda>(kind, ident). Inr (kind @ '':'' @ ident, ident))"

definition set_workspace_member :: "string \<Rightarrow> string \<Rightarrow> string \<Rightarrow> MemberRole \<Rightarrow> MemberRole option \<Rightarrow>
    authz \<times> revisions option \<Rightarrow> (service_error + unit) \<times> authz \<times> revisions option" where
  "set_workspace_member t w princ role previous st =
     (let ob = ''workspace:'' @ object_id t w in
      case member_subject princ of
        Inl e \<Rightarrow> (Inl e, st)
      | Inr (subject, ident) \<Rightarrow>
          write_and_bump [rt subject (role_name role) ob]
            (case previous of None \<Rightarrow> []
             | Some old \<Rightarrow> if old \<noteq> role then [rt subject (role_name old) ob] else []) t [ident] st)"

definition revoke_workspace_member :: "string \<Rightarrow> string \<Rightarrow> string \<Rightarrow>
    authz \<times> revisions option \<Rightarrow> (service_error + unit) \<times> authz \<times> revisions option" where
  "revoke_workspace_member t w princ st =
     (let ob = ''workspace:'' @ object_id t w in
      case member_subject princ of
        Inl e \<Rightarrow> (Inl e, st)
      | Inr (subject, ident) \<Rightarrow>
          write_and_bump [] (map (\<lambda>r. rt subject (role_name r) ob) WORKSPACE_ROLES) t [ident] st)"

subsection \<open>The scope cache\<close>

lemma kind_value_no_comma: "CHR '','' \<notin> set (kind_value k)"
  by (cases k) simp_all

lemma show_nat_no_comma: "CHR '','' \<notin> set (show_nat n)"
  using show_nat_digits [of "CHR '',''" n] by auto

lemma membership_items_no_comma:
  assumes "valid_context c" and "x \<in> set (map show_item (get_many R t (membership_keys c)))"
  shows "CHR '','' \<notin> set x"
proof -
  obtain k where k: "k \<in> set (membership_keys c)" and x: "x = rev_name k @ ''='' @ show_nat (rev_value R t k)"
    using assms(2) by (auto simp: get_many_def show_item_def)
  have "CHR '','' \<notin> set (snd k)"
    using k valid_context_ids(2,3) [OF assms(1)]
    by (cases "ctx_user_id c"; cases "ctx_agent_id c")
      (auto simp: membership_keys_def valid_id_no_comma split: if_splits)
  then show ?thesis by (simp add: x rev_name_def kind_value_no_comma show_nat_no_comma)
qed

lemma own_fingerprint_inject:
  assumes "valid_context c" and "own_fingerprint c (Some R) = own_fingerprint c (Some R')"
    and "k \<in> set (membership_keys c)"
  shows "rev_value R (ctx_tenant_id c) k = rev_value R' (ctx_tenant_id c) k"
proof (rule sorted_items_inject [OF _ assms(3)])
  show "map show_item (sort (get_many R (ctx_tenant_id c) (membership_keys c))) =
    map show_item (sort (get_many R' (ctx_tenant_id c) (membership_keys c)))"
  proof (rule py_join_sep_inject [of _ _ "CHR '',''"])
    show "length (map show_item (sort (get_many R (ctx_tenant_id c) (membership_keys c)))) =
      length (map show_item (sort (get_many R' (ctx_tenant_id c) (membership_keys c))))"
      by (simp add: get_many_def)
  qed (use assms(2) membership_items_no_comma [OF assms(1)] in \<open>auto simp: own_fingerprint_def\<close>)
qed

lemma bump_all_append: "bump_all t (as @ bs) R = bump_all t bs (bump_all t as R)"
  by (simp add: bump_all_def)

lemma bump_membership_shape:
  "bump_membership t ids (Some R) =
     Some (bump_all t ((R_MEMBERSHIP, []) # map (\<lambda>i. (R_MEMBERSHIP, i)) (filter (\<lambda>y. y \<noteq> []) (fromkeys ids))) R)"
  by (simp add: bump_membership_def)

text \<open>Every grant and revocation drops every cached scope of the tenant. After tuples were written
  and the membership revisions bumped, as each grant does in its unit of work, the fingerprint
  any caller of the tenant computes, then and after any later bumps, differs from the one before
  the grant, so no scope resolved before the change is ever addressed again.\<close>

theorem grant_invalidates_scopes:
  assumes "valid_context c"
    and "write_and_bump adds dels (ctx_tenant_id c) ids (a, Some R) = (Inr (), a', Some R')"
  shows "own_fingerprint c (Some (bump_all (ctx_tenant_id c) later R')) \<noteq> own_fingerprint c (Some R)"
proof
  assume eq: "own_fingerprint c (Some (bump_all (ctx_tenant_id c) later R')) = own_fingerprint c (Some R)"
  obtain bs where "R' = bump_all (ctx_tenant_id c) ((R_MEMBERSHIP, []) # bs) R"
    using assms(2) bump_membership_shape [of "ctx_tenant_id c" ids R]
    by (auto simp: write_and_bump_def split: prod.splits sum.splits)
  then have R': "bump_all (ctx_tenant_id c) later R' = bump_all (ctx_tenant_id c) (((R_MEMBERSHIP, []) # bs) @ later) R"
    by (simp only: bump_all_append)
  have "rev_value (bump_all (ctx_tenant_id c) later R') (ctx_tenant_id c) (R_MEMBERSHIP, []) =
      rev_value R (ctx_tenant_id c) (R_MEMBERSHIP, [])"
    by (rule own_fingerprint_inject [OF assms(1) eq]) (simp add: membership_keys_def)
  moreover have "rev_value R (ctx_tenant_id c) (R_MEMBERSHIP, []) <
      rev_value (bump_all (ctx_tenant_id c) later R') (ctx_tenant_id c) (R_MEMBERSHIP, [])"
    unfolding R' by (rule bump_all_grows) simp
  ultimately show False by simp
qed

definition demo_authz :: authz where
  "demo_authz = \<lparr>az_provider = \<lparr>pv_tuples = [], pv_objects = [], pv_max_listed = 10, pv_check_calls = 0,
     pv_available = True\<rparr>, az_cache = None, az_ttl = 60, az_max = 10\<rparr>"

theorem grant_invalidates_scopes_witness:
  "\<exists>R'. snd (snd (write_and_bump [] [] ''acme'' [] (demo_authz, Some Map.empty))) = Some R' \<and>
     own_fingerprint (demo_context ''u1'' None) (Some R') \<noteq> own_fingerprint (demo_context ''u1'' None) (Some Map.empty)"
proof -
  have v: "valid_context (demo_context ''u1'' None)" by code_simp
  have t: "ctx_tenant_id (demo_context ''u1'' None) = ''acme''" by (simp add: demo_context_def)
  let ?R = "bump_all ''acme'' [(R_MEMBERSHIP, [])] Map.empty"
  have w: "write_and_bump [] [] (ctx_tenant_id (demo_context ''u1'' None)) [] (demo_authz, Some Map.empty) =
      (Inr (), demo_authz, Some ?R)"
    by (simp add: t write_and_bump_def write_tuples_def bump_membership_def demo_authz_def)
  from grant_invalidates_scopes [OF v w, of "[]"] w t show ?thesis by simp
qed

text \<open>What a scope depends on: the fields the fingerprint digests.\<close>

lemma resolve_depends:
  assumes "scope_parts c = scope_parts d" and "valid_context c" and "valid_context d"
  shows "resolve l m c = resolve l m d"
proof -
  have eq: "ctx_tenant_id c = ctx_tenant_id d" "ctx_user_id c = ctx_user_id d" "ctx_agent_id c = ctx_agent_id d"
    "ctx_agent_group_id c = ctx_agent_group_id d" "ctx_agent_run_id c = ctx_agent_run_id d"
    "ctx_parent_agent_run_id c = ctx_parent_agent_run_id d"
    using scope_parts_inject [OF assms(2,3,1)] by blast+
  then have pr: "principal_id c = principal_id d" "is_agent c = is_agent d"
    unfolding principal_id_eq is_agent_def by simp_all
  then have "subjects_of c = subjects_of d" using eq by (simp add: subjects_of_def)
  then show ?thesis using eq pr by (simp add: resolve_def)
qed

text \<open>A cached scope is only ever served to a caller it fits. If two requests compute the same
  cache key then they resolve to the same scope against any provider, so serving one the other's
  entry is serving its own; and the keys agree only for one membership fingerprint.\<close>

theorem scope_cache_key_sound:
  assumes "inj blake2b" and "\<And>x. CHR '':'' \<notin> set (blake2b x)"
    and "valid_context c" and "valid_context d"
    and "CHR '':'' \<notin> set (ctx_tenant_id c)" and "CHR '':'' \<notin> set (ctx_tenant_id d)"
    and "scope_cache_key blake2b c f = scope_cache_key blake2b d g"
  shows "resolve l m c = resolve l m d \<and> ctx_tenant_id c = ctx_tenant_id d \<and> f = g"
proof -
  have "ctx_tenant_id c = ctx_tenant_id d \<and>
    scope_fingerprint blake2b c @ '':'' @ f = scope_fingerprint blake2b d @ '':'' @ g"
    using assms(7) sep_inject [OF assms(5,6)] by (simp add: scope_cache_key_def)
  moreover from this have fp: "scope_fingerprint blake2b c = scope_fingerprint blake2b d \<and> f = g"
    using sep_inject [of "CHR '':''" "scope_fingerprint blake2b c" "scope_fingerprint blake2b d" f g] assms(2)
    by (simp add: scope_fingerprint_def stable_key_def)
  moreover have "scope_parts c = scope_parts d"
    using scope_fingerprint_inject [OF assms(1,3,4)] fp by blast
  ultimately show ?thesis using resolve_depends assms(3,4) by blast
qed

text \<open>A digest for the example: it spells a string with letters, one code per character, so it is
  injective and has no colon.\<close>

definition spell :: "string \<Rightarrow> string" where
  "spell s = concat (map (\<lambda>ch. show_nat (of_char ch) @ ''x'') s)"

lemma spell_no_colon: "CHR '':'' \<notin> set (spell s)"
  using show_nat_digits [of "CHR '':''"] by (auto simp: spell_def)

lemma spell_inj: "inj spell"
proof (rule injI)
  fix s t assume "spell s = spell t"
  then show "s = t"
  proof (induction s arbitrary: t)
    case Nil
    then show ?case by (cases t) (auto simp: spell_def)
  next
    case (Cons a s)
    then obtain b t' where t: "t = b # t'" by (cases t) (auto simp: spell_def)
    have x: "CHR ''x'' \<notin> set (show_nat n)" for n using show_nat_digits [of "CHR ''x''" n] by auto
    have "show_nat (of_char a) @ CHR ''x'' # spell s = show_nat (of_char b) @ CHR ''x'' # spell t'"
      using Cons.prems t by (simp add: spell_def)
    then have "show_nat (of_char a) = show_nat (of_char b)" "spell s = spell t'"
      using sep_inject [OF x x] by blast+
    then show ?case using Cons.IH t by (simp add: of_char_eq_iff)
  qed
qed

theorem scope_cache_key_sound_witness:
  "resolve (\<lambda>_ _ _. Inr []) 5 (demo_context ''u1'' None) =
   resolve (\<lambda>_ _ _. Inr []) 5 ((demo_context ''u1'' None)\<lparr>ctx_thread_id := Some ''t1''\<rparr>)"
proof -
  let ?c = "demo_context ''u1'' None" and ?d = "(demo_context ''u1'' None)\<lparr>ctx_thread_id := Some ''t1''\<rparr>"
  have v: "valid_context ?c" "valid_context ?d" by code_simp+
  have k: "scope_cache_key spell ?c ''0'' = scope_cache_key spell ?d ''0''"
    by (simp add: scope_cache_key_def scope_fingerprint_def scope_parts_def demo_context_def)
  from scope_cache_key_sound [OF spell_inj spell_no_colon v _ _ k] show ?thesis
    by (simp add: demo_context_def)
qed

text \<open>The fingerprint a caller computes in advance is not always the one \<open>scope\<close> computes. A
  caller with neither user nor agent names the membership counter twice in the first and once in
  the second, so an entry written under one is never found under the other.\<close>

lemma userless_fingerprints_differ:
  assumes "ctx_user_id c = None" and "ctx_agent_id c = None"
  shows "revision_fingerprint c (get_many R (ctx_tenant_id c) (membership_keys c)) \<noteq> own_fingerprint c (Some R)"
  using assms by (simp add: revision_fingerprint_def own_fingerprint_def membership_keys_def get_many_def
      show_item_def sort_key_def)

theorem userless_fingerprints_differ_witness:
  "revision_fingerprint ((demo_context ''u1'' None)\<lparr>ctx_user_id := None\<rparr>)
     (get_many Map.empty ''acme'' (membership_keys ((demo_context ''u1'' None)\<lparr>ctx_user_id := None\<rparr>)))
   \<noteq> own_fingerprint ((demo_context ''u1'' None)\<lparr>ctx_user_id := None\<rparr>) (Some Map.empty)"
  using userless_fingerprints_differ [of "(demo_context ''u1'' None)\<lparr>ctx_user_id := None\<rparr>" Map.empty]
  by (simp add: demo_context_def)

subsection \<open>What a write leaves in the store\<close>

lemma fold_discard_tuples: "set (pv_tuples (fold discard ds p)) = set (pv_tuples p) - triple ` set ds"
  by (induction ds arbitrary: p) (auto simp: discard_def)

lemma add_tuple_tuples: "set (pv_tuples (add_tuple t p)) = insert (triple t) (set (pv_tuples p))"
  by (auto simp: add_tuple_def insert_new_def)

lemma write_adds_ok:
  "write_adds M ts p = (Inr (), p') \<Longrightarrow> set (pv_tuples p') = set (pv_tuples p) \<union> triple ` set ts"
  by (induction M ts p rule: write_adds.induct) (auto simp: add_tuple_tuples split: sum.splits)

lemma write_adds_subset:
  "x \<in> set (pv_tuples (snd (write_adds M ts p))) \<Longrightarrow>
   x \<in> set (pv_tuples p) \<or> (\<exists>t \<in> set ts. x = triple t \<and> validate_tuple M t = Inr ())"
  by (induction M ts p rule: write_adds.induct) (auto simp: add_tuple_tuples split: sum.splits)

lemma write_ok:
  "write_tuples M adds dels p = (Inr (), p') \<Longrightarrow>
   set (pv_tuples p') = (set (pv_tuples p) - triple ` set dels) \<union> triple ` set adds"
  using write_adds_ok by (fastforce simp: write_tuples_def fold_discard_tuples)

lemma write_subset:
  "x \<in> set (pv_tuples (snd (write_tuples M adds dels p))) \<Longrightarrow>
   x \<in> set (pv_tuples p) \<or> (\<exists>t \<in> set adds. x = triple t \<and> validate_tuple M t = Inr ())"
  unfolding write_tuples_def using write_adds_subset [of x M adds "fold discard dels p"]
  by (auto simp: fold_discard_tuples)

lemma write_and_bump_ok:
  assumes "write_and_bump adds dels t ids (a, ro) = (Inr (), a', ro')"
  shows "set (pv_tuples (az_provider a')) =
      (set (pv_tuples (az_provider a)) - triple ` set dels) \<union> triple ` set adds"
    and "ro' = bump_membership t ids ro"
  using assms write_ok by (auto simp: write_and_bump_def split: prod.splits sum.splits)

lemma triple_rt [simp]: "triple (rt u r ob) = (ob, r, u)"
  by (simp add: rt_def triple_def)

subsection \<open>Workspace membership\<close>

lemma workspace_relations:
  assumes "map_of MODEL ''workspace'' = Some td" and "map_of td r = Some rd"
  shows "r = ''viewer'' \<Longrightarrow> rel_computed rd = [''member''] \<and> rel_ttu rd = []"
    and "r = ''member'' \<Longrightarrow> rel_computed rd = [''admin''] \<and> rel_ttu rd = []"
    and "r = ''admin'' \<Longrightarrow> rel_computed rd = [] \<and> rel_ttu rd = [(''tenant'', ''admin'')]"
  using assms by (auto simp: MODEL_def mk_relation_def)

lemma workspace_type: "fst (split_object (''workspace:'' @ x)) = ''workspace''"
  using partition_sep [of "CHR '':''" "''workspace''" x] by (simp add: split_object_def)

text \<open>Who reaches a workspace relation without holding a role directly: whoever the tenant's
  \<open>admin\<close> relation reaches.\<close>

lemma workspace_derives:
  assumes "derives MODEL T user n r ob" and "ob = ''workspace:'' @ x" and "r \<in> {''admin'', ''member'', ''viewer''}"
    and "\<And>ob r u. (ob, r, u) \<in> set T \<Longrightarrow> CHR ''#'' \<notin> set u"
    and "\<And>r. r \<in> {''admin'', ''member'', ''viewer''} \<Longrightarrow> (ob, r, user) \<notin> set T"
  shows "\<exists>tn. (ob, ''tenant'', tn) \<in> set T \<and> derivable MODEL T user ''admin'' tn"
  using assms(1-3,5)
proof (induction rule: derives.induct)
  case (direct ob td r rd n)
  then show ?case by blast
next
  case (userset ob td r rd m n)
  then show ?case using assms(4) by blast
next
  case (computed ob td r rd r' n)
  have td: "map_of MODEL ''workspace'' = Some td" using computed workspace_type [of x] by simp
  have "r' \<in> {''admin'', ''member'', ''viewer''}"
    using computed.prems(2) computed.hyps(3) workspace_relations [OF td computed.hyps(2)] by auto
  then show ?case using computed by blast
next
  case (ttu ob td r rd ts r' target n)
  have td: "map_of MODEL ''workspace'' = Some td" using ttu workspace_type [of x] by simp
  have "ts = ''tenant'' \<and> r' = ''admin''"
    using ttu.prems(2) ttu.hyps(3) workspace_relations [OF td ttu.hyps(2)] by auto
  then show ?case using ttu.hyps(4,5) by (auto simp: derivable_def)
qed

text \<open>A removed member is out. After a revocation succeeds, the member's subject reaches no role
  of the workspace any more, except as an administrator of the tenant the workspace belongs to.\<close>

theorem revoked_member_is_out:
  assumes "revoke_workspace_member t w princ (a, ro) = (Inr (), a', ro')"
    and "tenant_closed (pv_tuples (az_provider a))"
    and "r \<in> {''admin'', ''member'', ''viewer''}"
    and "check_rec MODEL (pv_tuples (az_provider a')) princ r (''workspace:'' @ object_id t w) []"
  shows "\<exists>tn. (''workspace:'' @ object_id t w, ''tenant'', tn) \<in> set (pv_tuples (az_provider a)) \<and>
    check_rec MODEL (pv_tuples (az_provider a')) princ ''admin'' tn []"
proof -
  let ?ob = "''workspace:'' @ object_id t w" and ?T = "pv_tuples (az_provider a')"
  obtain kind ident where p: "parse_principal princ = Inr (kind, ident)"
    using assms(1) by (cases "parse_principal princ")
      (auto simp: revoke_workspace_member_def member_subject_def)
  then have subj: "princ = kind @ '':'' @ ident" by (simp add: parse_principal_iff)
  have wb: "write_and_bump [] (map (\<lambda>r. rt princ (role_name r) ?ob) WORKSPACE_ROLES) t [ident] (a, ro) = (Inr (), a', ro')"
    using assms(1) p subj by (simp add: revoke_workspace_member_def member_subject_def)
  have T: "set ?T = set (pv_tuples (az_provider a)) -
      {(?ob, ''admin'', princ), (?ob, ''member'', princ), (?ob, ''viewer'', princ)}"
    using write_and_bump_ok(1) [OF wb] by (auto simp: WORKSPACE_ROLES_def)
  obtain n where n: "derives MODEL ?T princ n r ?ob"
    using check_rec_sound [OF assms(4)] unfolding derivable_def by blast
  have nohash: "CHR ''#'' \<notin> set u" if "(ob, r, u) \<in> set ?T" for ob r u
    using that assms(2) T by (auto simp: tenant_closed_def)
  have "\<exists>tn. (?ob, ''tenant'', tn) \<in> set ?T \<and> derivable MODEL ?T princ ''admin'' tn"
    by (rule workspace_derives [OF n refl assms(3)]) (use nohash T in auto)
  then obtain tn where "(?ob, ''tenant'', tn) \<in> set ?T" "derivable MODEL ?T princ ''admin'' tn" by blast
  moreover from this(2) have "check_rec MODEL ?T princ ''admin'' tn []"
    unfolding derivable_def by (auto intro: check_rec_complete)
  ultimately show ?thesis using T by blast
qed

text \<open>A member holds exactly one role. When the row's previous role is the only role the tuples
  give a principal, setting a role leaves the new role as the only one.\<close>

theorem one_role_per_member:
  assumes "set_workspace_member t w princ role previous (a, ro) = (Inr (), a', ro')"
    and "\<And>r. (''workspace:'' @ object_id t w, role_name r, princ) \<in> set (pv_tuples (az_provider a)) \<longleftrightarrow> previous = Some r"
  shows "(''workspace:'' @ object_id t w, role_name r, princ) \<in> set (pv_tuples (az_provider a')) \<longleftrightarrow> r = role"
proof -
  let ?ob = "''workspace:'' @ object_id t w"
  obtain kind ident where p: "parse_principal princ = Inr (kind, ident)"
    using assms(1) by (cases "parse_principal princ")
      (auto simp: set_workspace_member_def member_subject_def)
  then have subj: "princ = kind @ '':'' @ ident" by (simp add: parse_principal_iff)
  have inj: "role_name x = role_name y \<longleftrightarrow> x = y" for x y by (cases x; cases y) simp_all
  let ?drop = "case previous of None \<Rightarrow> [] | Some old \<Rightarrow> if old \<noteq> role then [rt princ (role_name old) ?ob] else []"
  have ms: "member_subject princ = Inr (princ, ident)" using p subj by (simp add: member_subject_def)
  have "write_and_bump [rt princ (role_name role) ?ob] ?drop t [ident] (a, ro) = (Inr (), a', ro')"
    using assms(1) unfolding set_workspace_member_def ms Let_def by (simp only: sum.case prod.case)
  from write_and_bump_ok(1) [OF this]
  have T: "set (pv_tuples (az_provider a')) =
    (set (pv_tuples (az_provider a)) - triple ` set ?drop) \<union> triple ` set [rt princ (role_name role) ?ob]" .
  show ?thesis unfolding T using assms(2) [of r] by (cases previous) (auto simp: inj split: if_splits)
qed

subsection \<open>The stores the service builds\<close>

inductive granted :: "authz \<times> revisions option \<Rightarrow> bool" where
  g_start: "pv_tuples (az_provider a) = [] \<Longrightarrow> granted (a, ro)"
| g_thread: "granted st \<Longrightarrow> valid_context c \<Longrightarrow> granted (snd (grant_thread c thread_id ws st))"
| g_document: "granted st \<Longrightarrow> valid_context c \<Longrightarrow> granted (snd (grant_document c document_id thread_id ws st))"
| g_memory: "granted st \<Longrightarrow> valid_context c \<Longrightarrow> granted (snd (grant_memory c memory_id owner st))"
| g_membership: "granted st \<Longrightarrow> granted (snd (grant_membership t user_id admin st))"
| g_workspace: "granted (a, ro) \<Longrightarrow> is_valid_id t \<Longrightarrow> granted (snd (grant_workspace t w a), ro)"
| g_set_member: "granted st \<Longrightarrow> granted (snd (set_workspace_member t w princ role previous st))"
| g_revoke: "granted st \<Longrightarrow> granted (snd (revoke_workspace_member t w princ st))"

definition store_of :: "authz \<times> revisions option \<Rightarrow> provider" where
  "store_of st = az_provider (fst st)"

definition store_ok :: "provider \<Rightarrow> bool" where
  "store_ok p \<longleftrightarrow> tenant_closed (pv_tuples p) \<and> objects_known p"

definition link_ok :: "RelationTuple \<Rightarrow> bool" where
  "link_ok t \<longleftrightarrow> (rt_relation t \<in> set LINKS \<longrightarrow> obj_tenant (rt_user t) = obj_tenant (rt_object t))"

definition model_direct_plain :: "auth_model \<Rightarrow> bool" where
  "model_direct_plain M \<longleftrightarrow>
     list_all (\<lambda>(_, td). list_all (\<lambda>(_, rd). list_all (\<lambda>u. CHR ''#'' \<notin> set u) (rel_direct rd)) td) M"

lemma MODEL_direct_plain: "model_direct_plain MODEL"
  by (simp add: model_direct_plain_def MODEL_def mk_relation_def)

lemma validate_no_hash:
  assumes "validate_tuple MODEL t = Inr ()"
  shows "CHR ''#'' \<notin> set (rt_user t)"
proof
  assume h: "CHR ''#'' \<in> set (rt_user t)"
  obtain td rd where td: "map_of MODEL (fst (split_object (rt_object t))) = Some td"
    "map_of td (rt_relation t) = Some rd" "user_ref (rt_user t) \<in> set (rel_direct rd)"
    using assms by (auto simp: validate_tuple_def split: option.splits if_splits)
  obtain a b where "py_partition (CHR ''#'') (rt_user t) = (a, True, b)"
    using h split_list_first [of "CHR ''#''" "rt_user t"] by (metis partition_sep)
  then have "CHR ''#'' \<in> set (user_ref (rt_user t))" by (simp add: user_ref_def Let_def)
  moreover have "CHR ''#'' \<notin> set (user_ref (rt_user t))"
    using MODEL_direct_plain map_of_SomeD [OF td(1)] map_of_SomeD [OF td(2)] td(3)
    unfolding model_direct_plain_def list_all_iff by fast
  ultimately show False by simp
qed

lemma write_store_ok [inv_intros]:
  assumes "store_ok p" and "\<forall>t \<in> set adds. link_ok t"
  shows "store_ok (snd (write_tuples MODEL adds dels p))"
proof -
  have "CHR ''#'' \<notin> set u \<and> (r \<in> set LINKS \<longrightarrow> obj_tenant u = obj_tenant ob)"
    if "(ob, r, u) \<in> set (pv_tuples (snd (write_tuples MODEL adds dels p)))" for ob r u
    using write_subset [OF that] assms validate_no_hash
    by (auto simp: store_ok_def tenant_closed_def triple_def link_ok_def)
  then have "tenant_closed (pv_tuples (snd (write_tuples MODEL adds dels p)))"
    by (auto simp: tenant_closed_def)
  then show ?thesis using assms(1) write_known by (simp add: store_ok_def)
qed

lemma write_and_bump_store_ok [inv_intros]:
  assumes "store_ok (store_of st)" and "\<forall>t \<in> set adds. link_ok t"
  shows "store_ok (store_of (snd (write_and_bump adds dels t ids st)))"
  using write_store_ok [OF assms, of dels]
  by (cases st) (auto simp: write_and_bump_def store_of_def split: prod.splits sum.splits)

lemma obj_tenant_plain: "CHR '':'' \<notin> set ty \<Longrightarrow> CHR ''/'' \<notin> set t \<Longrightarrow> obj_tenant (ty @ '':'' @ t) = t"
  by (simp add: obj_tenant_def split_object_def partition_sep partition_nosep)

lemma obj_tenant_prefixed:
  "CHR '':'' \<notin> set ty \<Longrightarrow> CHR ''/'' \<notin> set t \<Longrightarrow> obj_tenant (ty @ '':'' @ object_id t x) = t"
  by (simp add: obj_tenant_def split_object_def object_id_def partition_sep)

lemma obj_tenant_types:
  assumes "is_valid_id t"
  shows "obj_tenant (''tenant:'' @ t) = t" "obj_tenant (''workspace:'' @ object_id t x) = t"
    "obj_tenant (''thread:'' @ object_id t x) = t" "obj_tenant (''document:'' @ object_id t x) = t"
    "obj_tenant (''memory:'' @ object_id t x) = t"
  using assms obj_tenant_plain [of "''tenant''" t] obj_tenant_prefixed [of "''workspace''" t x]
    obj_tenant_prefixed [of "''thread''" t x] obj_tenant_prefixed [of "''document''" t x]
    obj_tenant_prefixed [of "''memory''" t x]
  by simp_all

lemmas obj_tenant_simps = obj_tenant_types [unfolded append_Cons append_Nil]

lemma grant_links:
  "valid_context c \<Longrightarrow> \<forall>t \<in> set (thread_tuples c th ws). link_ok t"
  "valid_context c \<Longrightarrow> \<forall>t \<in> set (document_tuples c d dth ws). link_ok t"
  "valid_context c \<Longrightarrow> \<forall>t \<in> set (memory_tuples c m owner). link_ok t"
  by (auto simp: thread_tuples_def document_tuples_def memory_tuples_def link_ok_def rt_def LINKS_def Let_def
      obj_tenant_simps split: if_splits)

lemma role_links: "link_ok (rt u (role_name r) ob)"
  by (cases r) (simp_all add: link_ok_def rt_def LINKS_def)

text \<open>Every store the service builds is one the guarantees apply to. From an empty store, any
  sequence of thread, document, memory, membership and workspace grants, role changes and
  revocations, whether each succeeds or fails half way, keeps every link tuple inside its tenant,
  admits no userset tuple and registers every object it mentions.\<close>

theorem granted_store_ok:
  assumes "granted st"
  shows "tenant_closed (pv_tuples (store_of st)) \<and> (\<forall>(ob, _, _) \<in> set (pv_tuples (store_of st)).
    ob \<in> set (pv_objects (store_of st)))"
proof -
  have "store_ok (store_of st)" using assms
  proof induction
    case (g_start a ro)
    then show ?case by (simp add: store_ok_def store_of_def tenant_closed_def objects_known_def)
  next
    case (g_thread st c th ws)
    then show ?case unfolding grant_thread_def by (intro inv_intros grant_links)
  next
    case (g_document st c d th ws)
    then show ?case unfolding grant_document_def by (intro inv_intros grant_links)
  next
    case (g_memory st c m owner)
    then show ?case unfolding grant_memory_def by (intro inv_intros grant_links)
  next
    case (g_membership st t u admin)
    then show ?case unfolding grant_membership_def
      by (intro inv_intros) (auto simp: link_ok_def rt_def LINKS_def)
  next
    case (g_workspace a ro t w)
    have "\<forall>x \<in> set [rt (''tenant:'' @ t) ''tenant'' (''workspace:'' @ object_id t w)]. link_ok x"
      using g_workspace(2) by (simp add: link_ok_def rt_def obj_tenant_simps)
    from write_store_ok [OF _ this, of "az_provider a" "[]"] g_workspace(3) show ?case
      by (auto simp: grant_workspace_def store_of_def split: prod.splits)
  next
    case (g_set_member st t w princ role previous)
    have "store_ok (store_of (snd (write_and_bump [rt u (role_name role) ob] ds t ids st)))" for u ob ds ids
      by (intro inv_intros g_set_member.IH) (simp add: role_links)
    then show ?case using g_set_member.IH
      by (auto simp: set_workspace_member_def Let_def split: sum.split prod.split)
  next
    case (g_revoke st t w princ)
    have "store_ok (store_of (snd (write_and_bump [] ds t ids st)))" for ds ids
      by (intro inv_intros g_revoke.IH) simp
    then show ?case using g_revoke.IH
      by (auto simp: revoke_workspace_member_def Let_def split: sum.split prod.split)
  qed
  then show ?thesis by (simp add: store_ok_def objects_known_def)
qed

theorem granted_store_ok_witness:
  "tenant_closed (pv_tuples (store_of (snd (grant_thread (demo_context ''u1'' None) ''t1'' None (demo_authz, None)))))"
proof -
  have "granted (demo_authz, None)" by (rule g_start) (simp add: demo_authz_def)
  moreover have "valid_context (demo_context ''u1'' None)" by code_simp
  ultimately have "granted (snd (grant_thread (demo_context ''u1'' None) ''t1'' None (demo_authz, None)))"
    by (rule g_thread)
  from granted_store_ok [OF this] show ?thesis by blast
qed

end
