(* ===== verification/Tenancy_Service.thy ===== *)
theory Tenancy_Service
  imports Authz_Service Tenancy_Store
begin

text \<open>
  Onboarding and team administration (\<open>modules/tenancy/service.py\<close>) and the rule for publishing into
  a workspace (\<open>modules/tenancy/gate.py\<close>). The platform's state is the tenancy tables, the
  authorization service, the revisions of the unit of work and the (tenant, workspace) anchors
  that threads and documents carry. An operation returns its result and the state; when it raises,
  the state shown is the one the transaction had reached, which the unit of work then discards.
  Locks (\<open>uow.serialize\<close>) order concurrent transactions and have no effect of their own; the clock,
  the fresh id (\<open>ulid\<close>) and the minted key (\<open>mint\<close>: id and secret) are arguments.
\<close>

record platform =
  pf_db :: tenancy_db
  pf_authz :: authz
  pf_revisions :: "revisions option"
  pf_anchors :: "(string \<times> string) list"

definition ACTOR_MAX :: nat where "ACTOR_MAX = 512"

text \<open>\<open>sanitise\<close> of \<open>domain/text.py\<close>: the control characters that cannot be stored are dropped.\<close>

definition is_control :: "char \<Rightarrow> bool" where
  "is_control c \<longleftrightarrow> (let n = of_char c :: nat in
     n \<le> 8 \<or> n = 11 \<or> n = 12 \<or> (14 \<le> n \<and> n \<le> 31) \<or> (127 \<le> n \<and> n \<le> 159))"

definition sanitise :: "string \<Rightarrow> string" where
  "sanitise s = filter (\<lambda>c. \<not> is_control c) s"

definition clean_name :: "string \<Rightarrow> service_error + string" where
  "clean_name name = (let cleaned = strip (sanitise name) in if cleaned = [] then Inl ValidationFailed else Inr cleaned)"

definition actor :: "string \<Rightarrow> string" where
  "actor service_id = take ACTOR_MAX service_id"

definition valid_named :: "string \<Rightarrow> service_error + string" where
  "valid_named v = (if is_valid_id v then Inr v else Inl ValidationFailed)"

definition require_id :: "string \<Rightarrow> string option \<Rightarrow> string \<Rightarrow> service_error + string" where
  "require_id ulid v kind = (case v of None \<Rightarrow> new_id ulid kind | Some x \<Rightarrow> valid_named x)"

definition key_principals :: "string list \<Rightarrow> service_error + string list" where
  "key_principals ps = (case acting_principals ps of Inl _ \<Rightarrow> Inl ValidationFailed | Inr qs \<Rightarrow> Inr qs)"

text \<open>A name longer than 200 characters is refused by the model's own validation.\<close>

definition name_fits :: "string \<Rightarrow> service_error + string" where
  "name_fits n = (if length n \<le> 200 then Inr n else Inl ValueError)"

subsection \<open>Tenants\<close>

definition get_tenant :: "tenancy_db \<Rightarrow> string \<Rightarrow> service_error + Tenant" where
  "get_tenant db t = rbind (valid_named t) (\<lambda>t.
     case tenants_get db t of None \<Rightarrow> Inl NotFound | Some r \<Rightarrow> Inr r)"

definition list_tenants :: "tenancy_db \<Rightarrow> string \<Rightarrow> nat \<Rightarrow> service_error + Tenant list" where
  "list_tenants db after lim = (if after = [] then Inr (tenants_list db [] lim)
     else rbind (valid_named after) (\<lambda>a. Inr (tenants_list db a lim)))"

record tenant_changes =
  tc_name :: "string option"
  tc_status :: "TenantStatus option"
  tc_retention_days :: "nat option"
  tc_rate_limit :: "nat option"
  tc_clear_retention :: bool
  tc_clear_rate_limit :: bool
  tc_admission_gate :: "bool option"

definition change_tenant :: "instant \<Rightarrow> tenant_changes \<Rightarrow> string option \<Rightarrow> Tenant \<Rightarrow> Tenant" where
  "change_tenant now ch name r =
     (let r = r\<lparr>tn_updated_at := now\<rparr>;
          r = (case name of None \<Rightarrow> r | Some n \<Rightarrow> r\<lparr>tn_name := n\<rparr>);
          r = (case tc_status ch of None \<Rightarrow> r | Some x \<Rightarrow> r\<lparr>tn_status := x\<rparr>);
          r = (if tc_retention_days ch \<noteq> None \<or> tc_clear_retention ch
               then r\<lparr>tn_retention_days := if tc_clear_retention ch then None else tc_retention_days ch\<rparr> else r);
          r = (if tc_rate_limit ch \<noteq> None \<or> tc_clear_rate_limit ch
               then r\<lparr>tn_rate_limit := if tc_clear_rate_limit ch then None else tc_rate_limit ch\<rparr> else r)
      in case tc_admission_gate ch of None \<Rightarrow> r | Some b \<Rightarrow> r\<lparr>tn_admission_gate := b\<rparr>)"

definition update_tenant :: "instant \<Rightarrow> string \<Rightarrow> tenant_changes \<Rightarrow> tenancy_db \<Rightarrow>
    (service_error + Tenant \<times> bool) \<times> tenancy_db" where
  "update_tenant now t ch db =
     (case rbind (get_tenant db t) (\<lambda>current. case tc_name ch of
              None \<Rightarrow> Inr (current, None)
            | Some n \<Rightarrow> rbind (clean_name n) (\<lambda>n'. Inr (current, Some n'))) of
        Inl e \<Rightarrow> (Inl e, db)
      | Inr (current, name) \<Rightarrow>
          (let tenant = change_tenant now ch name current in
           (Inr (tenant, tn_status tenant \<noteq> tn_status current), tenants_update t (change_tenant now ch name) db)))"

subsection \<open>Keys\<close>

definition get_workspace :: "tenancy_db \<Rightarrow> string \<Rightarrow> string \<Rightarrow> service_error + Workspace" where
  "get_workspace db t w = rbind (valid_named w) (\<lambda>w.
     case ws_get db t w of None \<Rightarrow> Inl NotFound | Some r \<Rightarrow> Inr r)"

record key_request =
  kr_role :: KeyRole
  kr_name :: string
  kr_created_by :: string
  kr_workspace_id :: "string option"
  kr_expires_in_days :: "nat option"
  kr_may_act_as :: "string list"

definition key_expiry :: "instant \<Rightarrow> nat option \<Rightarrow> instant option" where
  "key_expiry now d = (case d of None \<Rightarrow> None | Some n \<Rightarrow> if n = 0 then None else Some (now + days (int n)))"

definition issue_key :: "(string \<Rightarrow> string) \<Rightarrow> instant \<Rightarrow> string \<times> string \<Rightarrow> string \<Rightarrow> key_request \<Rightarrow> tenancy_db \<Rightarrow>
    service_error + (ApiKey \<times> string \<times> tenancy_db)" where
  "issue_key content_hash now mint t kr db =
     (if kr_role kr = K_PLATFORM then Inl ValidationFailed
      else if kr_role kr = K_ADMIN \<and> kr_workspace_id kr \<noteq> None then Inl ValidationFailed
      else rbind (get_tenant db t) (\<lambda>tenant.
        if tn_status tenant \<noteq> T_active then Inl (Conflict ''tenant is suspended'' False)
        else rbind (case kr_workspace_id kr of None \<Rightarrow> Inr () | Some w \<Rightarrow> rbind (get_workspace db t w) (\<lambda>_. Inr ())) (\<lambda>_.
          if count_live db now t \<ge> MAX_KEYS_PER_TENANT then Inl (Conflict ''too many live keys'' False)
          else case mint_token content_hash (fst mint) (snd mint) of (key_id, token, secret_hash) \<Rightarrow>
            rbind (clean_name (kr_name kr)) (\<lambda>name.
            rbind (key_principals (kr_may_act_as kr)) (\<lambda>ps.
            rbind (name_fits name) (\<lambda>name.
              let key = \<lparr>ak_key_id = key_id, ak_tenant_id = t, ak_role = kr_role kr, ak_name = name,
                    ak_workspace_id = kr_workspace_id kr, ak_secret_hash = secret_hash,
                    ak_created_by = actor (kr_created_by kr), ak_created_at = now,
                    ak_expires_at = key_expiry now (kr_expires_in_days kr), ak_revoked_at = None,
                    ak_last_used_at = None, ak_may_act_as = ps\<rparr>
              in rbind (keys_add key db) (\<lambda>db'. Inr (key, token, db'))))))))"

definition create_tenant :: "(string \<Rightarrow> string) \<Rightarrow> instant \<Rightarrow> string \<Rightarrow> string \<times> string \<Rightarrow> string \<Rightarrow> string \<Rightarrow>
    string option \<Rightarrow> nat option \<Rightarrow> nat option \<Rightarrow> bool \<Rightarrow> tenancy_db \<Rightarrow>
    service_error + (Tenant \<times> ApiKey \<times> string \<times> tenancy_db)" where
  "create_tenant content_hash now ulid mint name created_by tenant_id retention rate gate db =
     rbind (require_id ulid tenant_id ''tenant'') (\<lambda>t.
       if \<not> is_valid_tenant_id t then Inl ValidationFailed
       else if tenants_get db t \<noteq> None then Inl already_exists
       else rbind (clean_name name) (\<lambda>n.
         rbind (if retention = Some 0 then Inl ValueError else name_fits n) (\<lambda>n.
         let tenant = \<lparr>tn_tenant_id = t, tn_name = n, tn_status = T_active, tn_retention_days = retention,
               tn_rate_limit = rate, tn_admission_gate = gate, tn_created_at = now, tn_updated_at = now\<rparr> in
         rbind (tenants_add tenant db) (\<lambda>db1.
         rbind (issue_key content_hash now mint t \<lparr>kr_role = K_ADMIN, kr_name = ''initial admin'',
             kr_created_by = created_by, kr_workspace_id = None, kr_expires_in_days = None,
             kr_may_act_as = [ANY_PRINCIPAL]\<rparr> db1) (\<lambda>(key, token, db2).
           Inr (tenant, key, token, db2))))))"

definition set_may_act_as :: "string \<Rightarrow> string \<Rightarrow> string list \<Rightarrow> tenancy_db \<Rightarrow> (service_error + ApiKey) \<times> tenancy_db" where
  "set_may_act_as t k ps db =
     (case key_principals ps of Inl e \<Rightarrow> (Inl e, db)
      | Inr qs \<Rightarrow> (case keys_set_may_act_as t k qs db of
          (None, db') \<Rightarrow> (Inl NotFound, db') | (Some r, db') \<Rightarrow> (Inr r, db')))"

definition revoke_key :: "instant \<Rightarrow> string \<Rightarrow> string \<Rightarrow> tenancy_db \<Rightarrow> (service_error + bool) \<times> tenancy_db" where
  "revoke_key now t k db = (case valid_named k of Inl e \<Rightarrow> (Inl e, db)
     | Inr k \<Rightarrow> (case keys_revoke t k now db of (b, db') \<Rightarrow> (Inr b, db')))"

subsection \<open>Workspaces\<close>

definition create_workspace :: "instant \<Rightarrow> string \<Rightarrow> string \<Rightarrow> string \<Rightarrow> string option \<Rightarrow> platform \<Rightarrow>
    (service_error + Workspace) \<times> platform" where
  "create_workspace now ulid t name workspace_id pf =
     (case rbind (require_id ulid workspace_id ''workspace'') (\<lambda>w.
          if ws_ever_existed (pf_db pf) t w then Inl (Conflict ''workspace id exists or was used before'' False)
          else if (t, w) \<in> set (pf_anchors pf) then Inl (Conflict ''workspace id is in use as an anchor'' False)
          else rbind (clean_name name) (\<lambda>n. rbind (name_fits n) (\<lambda>n.
            let row = \<lparr>ws_workspace_id = w, ws_tenant_id = t, ws_name = n, ws_created_at = now, ws_deleted_at = None\<rparr>
            in rbind (ws_add row (pf_db pf)) (\<lambda>db'. Inr (row, db'))))) of
        Inl e \<Rightarrow> (Inl e, pf)
      | Inr (row, db') \<Rightarrow>
          (case grant_workspace t (ws_workspace_id row) (pf_authz pf) of
             (Inl e, a) \<Rightarrow> (Inl e, pf\<lparr>pf_db := db', pf_authz := a\<rparr>)
           | (Inr _, a) \<Rightarrow> (Inr row, pf\<lparr>pf_db := db', pf_authz := a\<rparr>)))"

fun revoke_members :: "string \<Rightarrow> string \<Rightarrow> string list \<Rightarrow> platform \<Rightarrow> (service_error + unit) \<times> platform" where
  "revoke_members t w [] pf = (Inr (), pf)"
| "revoke_members t w (p # ps) pf =
     (case revoke_workspace_member t w p (pf_authz pf, pf_revisions pf) of
        (Inl e, a, ro) \<Rightarrow> (Inl e, pf\<lparr>pf_authz := a, pf_revisions := ro\<rparr>)
      | (Inr _, a, ro) \<Rightarrow> revoke_members t w ps (pf\<lparr>pf_authz := a, pf_revisions := ro\<rparr>))"

definition bound_keys :: "instant \<Rightarrow> string \<Rightarrow> string \<Rightarrow> tenancy_db \<Rightarrow> string list" where
  "bound_keys now t w db = map ak_key_id
     (filter (\<lambda>k. ak_workspace_id k = Some w \<and> usable_at k now) (keys_list db t None KEYS_LIST_LIMIT))"

definition delete_workspace :: "instant \<Rightarrow> string \<Rightarrow> string \<Rightarrow> platform \<Rightarrow> (service_error + string list) \<times> platform" where
  "delete_workspace now t w pf =
     (case valid_named w of Inl e \<Rightarrow> (Inl e, pf)
      | Inr w \<Rightarrow>
          if ws_get (pf_db pf) t w = None then
            (if ws_ever_existed (pf_db pf) t w then Inr [] else Inl NotFound, pf)
          else (case revoke_members t w (map wm_principal (ws_members (pf_db pf) t w [] None)) pf of
              (Inl e, pf1) \<Rightarrow> (Inl e, pf1)
            | (Inr _, pf1) \<Rightarrow>
                let revoked = bound_keys now t w (pf_db pf1);
                    db1 = fold (\<lambda>k db. snd (keys_revoke t k now db)) revoked (pf_db pf1);
                    db2 = snd (ws_soft_delete t w now db1)
                in (Inr revoked, pf1\<lparr>pf_db := db2\<rparr>)))"

definition set_member :: "instant \<Rightarrow> string \<Rightarrow> string \<Rightarrow> string \<Rightarrow> MemberRole \<Rightarrow> string \<Rightarrow> platform \<Rightarrow>
    (service_error + WorkspaceMember) \<times> platform" where
  "set_member now t w princ role added_by pf =
     (case parse_principal princ of Inl _ \<Rightarrow> (Inl ValidationFailed, pf)
      | Inr (kind, _) \<Rightarrow>
          if role = M_admin \<and> kind \<noteq> ''user'' then (Inl ValidationFailed, pf)
          else (case get_workspace (pf_db pf) t w of Inl e \<Rightarrow> (Inl e, pf)
            | Inr _ \<Rightarrow>
                let m = \<lparr>wm_tenant_id = t, wm_workspace_id = w, wm_principal = princ, wm_role = role,
                      wm_added_by = actor added_by, wm_added_at = now\<rparr> in
                case ws_put_member m (pf_db pf) of (previous, db') \<Rightarrow>
                case set_workspace_member t w princ role previous (pf_authz pf, pf_revisions pf) of
                  (Inl e, a, ro) \<Rightarrow> (Inl e, pf\<lparr>pf_db := db', pf_authz := a, pf_revisions := ro\<rparr>)
                | (Inr _, a, ro) \<Rightarrow> (Inr m, pf\<lparr>pf_db := db', pf_authz := a, pf_revisions := ro\<rparr>)))"

definition remove_member :: "string \<Rightarrow> string \<Rightarrow> string \<Rightarrow> platform \<Rightarrow> (service_error + unit) \<times> platform" where
  "remove_member t w princ pf =
     (case parse_principal princ of Inl _ \<Rightarrow> (Inl ValidationFailed, pf)
      | Inr _ \<Rightarrow>
          (case get_workspace (pf_db pf) t w of Inl e \<Rightarrow> (Inl e, pf)
           | Inr _ \<Rightarrow>
              let db' = snd (ws_remove_member t w princ (pf_db pf)) in
              case revoke_workspace_member t w princ (pf_authz pf, pf_revisions pf) of
                (r, a, ro) \<Rightarrow> (r, pf\<lparr>pf_db := db', pf_authz := a, pf_revisions := ro\<rparr>)))"

definition members :: "tenancy_db \<Rightarrow> string \<Rightarrow> string \<Rightarrow> string \<Rightarrow> nat option \<Rightarrow> service_error + WorkspaceMember list" where
  "members db t w after lim = rbind (get_workspace db t w) (\<lambda>_. Inr (ws_members db t w after lim))"

subsection \<open>The gate\<close>

definition require_workspace_member :: "bool \<Rightarrow> exec_context \<Rightarrow> platform \<Rightarrow>
    (service_error + Workspace option) \<times> platform" where
  "require_workspace_member team_only c pf =
     (if \<not> truthy (ctx_workspace_id c) then (if team_only then Inr None else Inl ValidationFailed, pf)
      else let w = or_empty (ctx_workspace_id c) in
        case ws_get (pf_db pf) (ctx_tenant_id c) w of
          None \<Rightarrow> (if team_only then Inr None else Inl NotFound, pf)
        | Some row \<Rightarrow>
            (case require_access c ''member'' ''workspace'' w (pf_authz pf) of
               (Inl e, a) \<Rightarrow> (Inl e, pf\<lparr>pf_authz := a\<rparr>)
             | (Inr _, a) \<Rightarrow> (Inr (Some row), pf\<lparr>pf_authz := a\<rparr>)))"

definition guard_workspace_visibility :: "exec_context \<Rightarrow> Visibility option \<Rightarrow> platform \<Rightarrow>
    (service_error + unit) \<times> platform" where
  "guard_workspace_visibility c v pf =
     (if v = Some V_WORKSPACE
      then (case require_workspace_member False c pf of (Inl e, pf') \<Rightarrow> (Inl e, pf') | (Inr _, pf') \<Rightarrow> (Inr (), pf'))
      else (Inr (), pf))"

subsection \<open>Issued keys\<close>

lemma key_principals_ok:
  "key_principals ps = Inr qs \<Longrightarrow> acting_principals ps = Inr qs"
  by (simp add: key_principals_def split: sum.splits)

lemma issue_key_steps:
  assumes "issue_key h now mint t kr db = Inr (key, token, db')"
  shows "keys_add key db = Inr db'" and "count_live db now t < MAX_KEYS_PER_TENANT"
    and "ak_tenant_id key = t" and "ak_role key \<noteq> K_PLATFORM" and "ak_revoked_at key = None"
    and "ak_role key = K_ADMIN \<Longrightarrow> ak_workspace_id key = None"
    and "\<exists>r. tenants_get db t = Some r \<and> tn_status r = T_active"
    and "(ak_key_id key, token, ak_secret_hash key) = mint_token h (fst mint) (snd mint)"
    and "\<And>w. ak_workspace_id key = Some w \<Longrightarrow> ws_get db t w \<noteq> None"
    and "acting_principals (kr_may_act_as kr) = Inr (ak_may_act_as key)"
    and "usable_at key now"
  using assms
  by (auto simp: issue_key_def mint_token_def rbind_Inr get_tenant_def get_workspace_def valid_named_def Let_def
      usable_at_def key_expiry_def days_def key_principals_ok split: if_splits option.splits)

lemma count_live_add:
  "keys_add key db = Inr db' \<Longrightarrow> count_live db' now t \<le> count_live db now t + 1"
  by (auto simp: keys_add_def count_live_def split: if_splits)

text \<open>What issuing a key guarantees. An issued key belongs to an active tenant, is never the platform
  role, is bound to a workspace only when it is a service key and the workspace exists, may act
  only for well-formed principals, is usable at once; the tenant holds at most the cap of live
  keys afterwards, and key ids stay unique.\<close>

theorem issued_key_wellformed:
  assumes "issue_key h now mint t kr db = Inr (key, token, db')" and "db_ok db"
  shows "db_ok db' \<and> keys_get db' (ak_key_id key) = Some key \<and>
    count_live db' now t \<le> MAX_KEYS_PER_TENANT \<and> ak_role key \<noteq> K_PLATFORM \<and> usable_at key now \<and>
    (\<forall>w. ak_workspace_id key = Some w \<longrightarrow> ak_role key = K_SERVICE \<and> ws_get db t w \<noteq> None) \<and>
    (\<forall>p \<in> set (ak_may_act_as key). p = ANY_PRINCIPAL \<or> (\<exists>r. parse_principal p = Inr r)) \<and>
    (\<exists>r. tenants_get db t = Some r \<and> tn_status r = T_active)"
proof -
  note st = issue_key_steps [OF assms(1)]
  have ok: "db_ok db'" using keys_add_ok [OF assms(2) st(1)] .
  moreover have "key \<in> set (db_keys db')" using st(1) by (auto simp: keys_add_def split: if_splits)
  then have "keys_get db' (ak_key_id key) = Some key" using keys_get_Some [OF ok] by simp
  moreover have "count_live db' now t \<le> MAX_KEYS_PER_TENANT"
    using st(2) count_live_add [OF st(1), of now t] by simp
  moreover have "ak_role key = K_SERVICE" if "ak_workspace_id key = Some w" for w
    using st(4,6) that by (cases "ak_role key") auto
  moreover have "p = ANY_PRINCIPAL \<or> (\<exists>r. parse_principal p = Inr r)" if "p \<in> set (ak_may_act_as key)" for p
    using acting_principals_ok(4) [OF st(10) that] .
  ultimately show ?thesis using st(4,7,9,11) by blast
qed

subsection \<open>Deleting a workspace\<close>

lemma revoke_members_db [simp]: "pf_db (snd (revoke_members t w ps pf)) = pf_db pf"
  by (induction t w ps pf rule: revoke_members.induct) (auto split: prod.splits sum.splits)

lemma fold_revoke_ok: "db_ok db \<Longrightarrow> db_ok (fold (\<lambda>k db. snd (keys_revoke t k at db)) ks db)"
  by (induction ks arbitrary: db) (auto simp: keys_revoke_ok)

lemma fold_revoke_get:
  assumes "db_ok db"
  shows "keys_get (fold (\<lambda>k db. snd (keys_revoke t k at db)) ks db) j =
    map_option (\<lambda>r. if ak_key_id r \<in> set ks \<and> ak_tenant_id r = t \<and> ak_revoked_at r = None
      then r\<lparr>ak_revoked_at := Some at\<rparr> else r) (keys_get db j)"
  using assms
proof (induction ks arbitrary: db)
  case Nil
  then show ?case by (cases "keys_get db j") simp_all
next
  case (Cons k ks)
  then show ?case
    by (simp add: keys_revoke_ok keys_revoke_get option.map_comp comp_def)
      (rule option.map_cong0, auto)
qed

lemma soft_delete_keys [simp]: "db_keys (snd (ws_soft_delete t w at db)) = db_keys db"
  by (simp add: ws_soft_delete_def Let_def)

lemma keys_get_cong: "db_keys a = db_keys b \<Longrightarrow> keys_get a = keys_get b"
  by (simp add: keys_get_def fun_eq_iff)

lemma delete_workspace_effect:
  assumes "delete_workspace now t w pf = (Inr revoked, pf')" and "ws_get (pf_db pf) t w \<noteq> None"
  shows "revoked = bound_keys now t w (pf_db pf)"
    and "pf_db pf' = snd (ws_soft_delete t w now
      (fold (\<lambda>k db. snd (keys_revoke t k now db)) revoked (pf_db pf)))"
proof -
  obtain r pf1 where rm: "revoke_members t w (map wm_principal (ws_members (pf_db pf) t w [] None)) pf = (r, pf1)"
    by fastforce
  have db: "pf_db pf1 = pf_db pf"
    using revoke_members_db [of t w "map wm_principal (ws_members (pf_db pf) t w [] None)" pf] rm by simp
  show "revoked = bound_keys now t w (pf_db pf)"
    and "pf_db pf' = snd (ws_soft_delete t w now
      (fold (\<lambda>k db. snd (keys_revoke t k now db)) revoked (pf_db pf)))"
    using assms rm db by (auto simp: delete_workspace_def valid_named_def Let_def split: if_splits sum.splits)
qed

lemma deleted_key_row:
  assumes "delete_workspace now t w pf = (Inr revoked, pf')" and "ws_get (pf_db pf) t w \<noteq> None" and "db_ok (pf_db pf)"
  shows "keys_get (pf_db pf') j =
    map_option (\<lambda>r. if ak_key_id r \<in> set (bound_keys now t w (pf_db pf)) \<and> ak_tenant_id r = t \<and> ak_revoked_at r = None
      then r\<lparr>ak_revoked_at := Some now\<rparr> else r) (keys_get (pf_db pf) j)"
proof -
  note eff = delete_workspace_effect [OF assms(1,2)]
  have "keys_get (pf_db pf') = keys_get (fold (\<lambda>k db. snd (keys_revoke t k now db)) revoked (pf_db pf))"
    unfolding eff(2) by (rule keys_get_cong) simp
  then show ?thesis using fold_revoke_get [OF assms(3), of t now revoked j] eff(1) by simp
qed

text \<open>Deleting a workspace revokes its keys while the tenant's keys fit one page. When a tenant has at
  most a hundred key rows, after the deletion no key bound to the workspace is usable, and every
  other key of any tenant is as it was.\<close>

theorem delete_workspace_revokes_keys:
  assumes "delete_workspace now t w pf = (Inr revoked, pf')" and "ws_get (pf_db pf) t w \<noteq> None" and "db_ok (pf_db pf)"
    and "length (filter (\<lambda>r. ak_tenant_id r = t) (db_keys (pf_db pf))) \<le> KEYS_LIST_LIMIT"
    and "keys_get (pf_db pf) j = Some r"
  shows "\<exists>r'. keys_get (pf_db pf') j = Some r' \<and>
    (if ak_tenant_id r = t \<and> ak_workspace_id r = Some w then \<not> usable_at r' now else r' = r)"
proof -
  have r: "r \<in> set (db_keys (pf_db pf))" "ak_key_id r = j" using assms(3,5) keys_get_Some by blast+
  have page: "set (keys_list (pf_db pf) t None KEYS_LIST_LIMIT) = {r \<in> set (db_keys (pf_db pf)). ak_tenant_id r = t}"
    by (rule keys_list_all [OF assms(4)])
  have uniq: "r2 = r" if "r2 \<in> set (db_keys (pf_db pf))" "ak_key_id r2 = ak_key_id r" for r2
    using that assms(3,5) r keys_get_Some [OF assms(3)] by (metis option.inject)
  let ?hit = "ak_tenant_id r = t \<and> ak_workspace_id r = Some w \<and> usable_at r now"
  have hit: "j \<in> set (bound_keys now t w (pf_db pf)) \<longleftrightarrow> ?hit"
  proof
    assume "j \<in> set (bound_keys now t w (pf_db pf))"
    then obtain r2 where r2: "r2 \<in> set (keys_list (pf_db pf) t None KEYS_LIST_LIMIT)" "ak_workspace_id r2 = Some w"
      "usable_at r2 now" "ak_key_id r2 = j" by (auto simp: bound_keys_def)
    moreover have "r2 = r" using uniq r2(1,4) r(2) page by simp
    ultimately show ?hit using page by blast
  next
    assume ?hit
    then have "r \<in> set (keys_list (pf_db pf) t None KEYS_LIST_LIMIT)" using page r(1) by blast
    with \<open>?hit\<close> r(2) show "j \<in> set (bound_keys now t w (pf_db pf))" by (auto simp: bound_keys_def)
  qed
  have "keys_get (pf_db pf') j = Some (if ?hit \<and> ak_revoked_at r = None then r\<lparr>ak_revoked_at := Some now\<rparr> else r)"
    using deleted_key_row [OF assms(1-3), of j] assms(5) r(2) hit by simp
  then show ?thesis by (cases ?hit) (auto simp: usable_at_def)
qed

text \<open>Past one page, a key bound to a deleted workspace stays live. A usable key of the workspace
  that is not among the first hundred key rows of its tenant is still stored, unrevoked and usable
  after the deletion, although every key bound to the workspace is meant to be revoked.\<close>

theorem delete_workspace_leaves_key:
  assumes "delete_workspace now t w pf = (Inr revoked, pf')" and "ws_get (pf_db pf) t w \<noteq> None" and "db_ok (pf_db pf)"
    and "keys_get (pf_db pf) j = Some r" and "ak_workspace_id r = Some w" and "usable_at r now"
    and "r \<notin> set (keys_list (pf_db pf) t None KEYS_LIST_LIMIT)"
  shows "keys_get (pf_db pf') j = Some r \<and> j \<notin> set revoked \<and> usable_at r now"
proof -
  have r: "r \<in> set (db_keys (pf_db pf))" "ak_key_id r = j" using assms(3,4) keys_get_Some by blast+
  have "r2 = r" if "r2 \<in> set (db_keys (pf_db pf))" "ak_key_id r2 = j" for r2
    using that assms(3,4) r keys_get_Some [OF assms(3)] by (metis option.inject)
  then have "j \<notin> set (bound_keys now t w (pf_db pf))"
    using assms(7) by (auto simp: bound_keys_def dest: set_keys_list)
  then show ?thesis
    using deleted_key_row [OF assms(1-3), of j] delete_workspace_effect(1) [OF assms(1,2)] assms(4,6) r(2) by simp
qed

subsection \<open>Publishing into a workspace\<close>

lemma check_tuples: "check M u r ob p = (res, p') \<Longrightarrow> pv_tuples p' = pv_tuples p"
  by (auto simp: check_def split: sum.splits)

lemma batch_loop_result:
  "batch_check_loop M cs p = (Inr bs, p') \<Longrightarrow>
   bs = map (\<lambda>(u, r, ob). check_rec M (pv_tuples p) u r ob []) cs"
proof (induction M cs p arbitrary: bs p' rule: batch_check_loop.induct)
  case (2 M u r ob cs p)
  then show ?case
    by (auto simp: check_def split: prod.splits sum.splits)
qed simp

lemma ask_result:
  assumes "ask c rel ob a = (Inr b, a')"
  shows "b \<longleftrightarrow> (\<exists>s \<in> set (subjects_of c). check_rec MODEL (pv_tuples (az_provider a)) s rel ob [])"
  using assms batch_loop_result
  by (fastforce simp: ask_def batch_check_def list_ex_iff split: prod.splits sum.splits)

text \<open>A workspace audience is minted only by a member of an existing team. When the guard lets a
  write with WORKSPACE visibility through, the workspace named by the context exists and is not
  deleted, and the caller's principal, or for an agent the user it runs for, holds the member
  relation on it.\<close>

theorem workspace_write_needs_member:
  assumes "guard_workspace_visibility c (Some V_WORKSPACE) pf = (Inr (), pf')"
  shows "\<exists>w row. ctx_workspace_id c = Some w \<and> ws_get (pf_db pf) (ctx_tenant_id c) w = Some row \<and>
    (\<exists>s \<in> set (subjects_of c). check_rec MODEL (pv_tuples (az_provider (pf_authz pf))) s ''member''
       (''workspace:'' @ object_id (ctx_tenant_id c) w) [])"
proof -
  obtain r pf1 where rw: "require_workspace_member False c pf = (Inr r, pf1)"
    using assms by (auto simp: guard_workspace_visibility_def split: prod.splits sum.splits)
  then obtain w where w: "ctx_workspace_id c = Some w" "w \<noteq> []"
    by (cases "ctx_workspace_id c") (auto simp: require_workspace_member_def split: if_splits)
  with rw obtain row where row: "ws_get (pf_db pf) (ctx_tenant_id c) w = Some row"
    by (auto simp: require_workspace_member_def split: option.splits)
  obtain ra a where ra: "require_access c ''member'' ''workspace'' w (pf_authz pf) = (ra, a)" by fastforce
  have "ra = Inr ()" using rw w row ra by (auto simp: require_workspace_member_def split: sum.splits)
  then obtain ok a' where "ask c ''member'' (''workspace:'' @ object_id (ctx_tenant_id c) w) (pf_authz pf) = (Inr ok, a')" "ok"
    using ra by (auto simp: require_access_def allowed_def split: prod.splits sum.splits if_splits)
  from ask_result [OF this(1)] this(2) w row show ?thesis by blast
qed

subsection \<open>Rows and tuples agree\<close>

definition ws_object :: "string \<Rightarrow> string \<Rightarrow> string" where
  "ws_object t w = ''workspace:'' @ object_id t w"

definition row_role :: "tenancy_db \<Rightarrow> string \<Rightarrow> string \<Rightarrow> string \<Rightarrow> MemberRole \<Rightarrow> bool" where
  "row_role db t w p role \<longleftrightarrow> (\<exists>m \<in> set (db_members db). same_member t w p m \<and> wm_role m = role)"

definition tuple_role :: "authz \<Rightarrow> string \<Rightarrow> string \<Rightarrow> string \<Rightarrow> MemberRole \<Rightarrow> bool" where
  "tuple_role a t w p role \<longleftrightarrow> (ws_object t w, role_name role, p) \<in> set (pv_tuples (az_provider a))"

definition in_sync :: "tenancy_db \<Rightarrow> authz \<Rightarrow> bool" where
  "in_sync db a \<longleftrightarrow> (\<forall>t w p role. CHR ''/'' \<notin> set t \<longrightarrow> (row_role db t w p role \<longleftrightarrow> tuple_role a t w p role))"

lemma ws_object_inject:
  "CHR ''/'' \<notin> set t \<Longrightarrow> CHR ''/'' \<notin> set t' \<Longrightarrow> ws_object t w = ws_object t' w' \<longleftrightarrow> t = t' \<and> w = w'"
  using sep_inject [of "CHR ''/''" t t' w w'] by (simp add: ws_object_def object_id_def)

lemma role_name_inject [simp]: "role_name x = role_name y \<longleftrightarrow> x = y"
  by (cases x; cases y) simp_all

lemma member_unique:
  assumes "db_ok db" and "m \<in> set (db_members db)" and "m' \<in> set (db_members db)"
    and "same_member t w p m" and "same_member t w p m'"
  shows "m = m'"
proof -
  have "inj_on (\<lambda>r. (wm_tenant_id r, wm_workspace_id r, wm_principal r)) (set (db_members db))"
    using assms(1) by (simp add: db_ok_def distinct_map)
  then show ?thesis by (rule inj_onD) (use assms in \<open>auto simp: same_member_def\<close>)
qed

lemma put_member_previous:
  assumes "db_ok db" and "ws_put_member m db = (previous, db')"
  shows "previous = Some r \<longleftrightarrow> row_role db (wm_tenant_id m) (wm_workspace_id m) (wm_principal m) r"
proof (cases "List.find (same_member (wm_tenant_id m) (wm_workspace_id m) (wm_principal m)) (db_members db)")
  case None
  have "previous = None" using None assms(2) by (simp add: ws_put_member_def Let_def)
  moreover have "\<not> (\<exists>x \<in> set (db_members db). same_member (wm_tenant_id m) (wm_workspace_id m) (wm_principal m) x)"
    using None by (auto simp: find_None_iff)
  ultimately show ?thesis by (auto simp: row_role_def)
next
  case (Some old)
  then have "old \<in> set (db_members db)" "same_member (wm_tenant_id m) (wm_workspace_id m) (wm_principal m) old"
    by (auto simp: find_Some_iff)
  moreover have "previous = Some (wm_role old)" using Some assms(2) by (simp add: ws_put_member_def Let_def)
  moreover have "wm_role x = wm_role old" if "x \<in> set (db_members db)"
    "same_member (wm_tenant_id m) (wm_workspace_id m) (wm_principal m) x" for x
    using member_unique [OF assms(1) that(1) calculation(1) that(2) calculation(2)] by simp
  ultimately show ?thesis unfolding row_role_def by (metis option.inject)
qed

lemma put_member_rows:
  assumes "ws_put_member m db = (previous, db')"
  shows "row_role db' t w p role \<longleftrightarrow>
    (if (t, w, p) = (wm_tenant_id m, wm_workspace_id m, wm_principal m) then role = wm_role m
     else row_role db t w p role)"
proof (cases "List.find (same_member (wm_tenant_id m) (wm_workspace_id m) (wm_principal m)) (db_members db)")
  case None
  have db': "db_members db' = db_members db @ [m]" using None assms by (auto simp: ws_put_member_def Let_def)
  have "\<not> (\<exists>x \<in> set (db_members db). same_member (wm_tenant_id m) (wm_workspace_id m) (wm_principal m) x)"
    using None by (auto simp: find_None_iff)
  then show ?thesis unfolding row_role_def db' by (auto simp: same_member_def)
next
  case (Some old)
  then have "\<exists>x \<in> set (db_members db). same_member (wm_tenant_id m) (wm_workspace_id m) (wm_principal m) x"
    by (auto simp: find_Some_iff)
  moreover have db': "db_members db' = map (\<lambda>r. if same_member (wm_tenant_id m) (wm_workspace_id m) (wm_principal m) r
      then r\<lparr>wm_role := wm_role m, wm_added_by := wm_added_by m, wm_added_at := wm_added_at m\<rparr> else r) (db_members db)"
    using Some assms by (auto simp: ws_put_member_def Let_def)
  ultimately show ?thesis
    unfolding row_role_def db' set_map bex_simps by (auto simp: same_member_def)
qed

lemma member_subject_eq:
  assumes "parse_principal p = Inr (kind, ident)"
  shows "member_subject p = Inr (p, ident)"
proof -
  have "p = kind @ '':'' @ ident" using assms by (simp only: parse_principal_iff)
  then show ?thesis unfolding member_subject_def assms by simp
qed

lemma set_workspace_member_tuples:
  assumes "set_workspace_member t w p role previous (a, ro) = (Inr (), a', ro')"
  shows "set (pv_tuples (az_provider a')) =
    (set (pv_tuples (az_provider a)) - (case previous of None \<Rightarrow> {} | Some old \<Rightarrow>
       if old \<noteq> role then {(ws_object t w, role_name old, p)} else {})) \<union> {(ws_object t w, role_name role, p)}"
proof -
  obtain kind ident where pp: "parse_principal p = Inr (kind, ident)"
    using assms by (cases "parse_principal p") (auto simp: set_workspace_member_def member_subject_def)
  then have ms: "member_subject p = Inr (p, ident)" by (rule member_subject_eq)
  have "write_and_bump [rt p (role_name role) (ws_object t w)]
      (case previous of None \<Rightarrow> [] | Some old \<Rightarrow> if old \<noteq> role then [rt p (role_name old) (ws_object t w)] else [])
      t [ident] (a, ro) = (Inr (), a', ro')"
    using assms unfolding set_workspace_member_def ms Let_def ws_object_def by (simp only: sum.case prod.case)
  from write_and_bump_ok(1) [OF this] show ?thesis by (auto split: option.split)
qed

lemma revoke_workspace_member_tuples:
  assumes "revoke_workspace_member t w p (a, ro) = (Inr (), a', ro')"
  shows "set (pv_tuples (az_provider a')) =
    set (pv_tuples (az_provider a)) - range (\<lambda>r. (ws_object t w, role_name r, p))"
proof -
  obtain kind ident where pp: "parse_principal p = Inr (kind, ident)"
    using assms by (cases "parse_principal p") (auto simp: revoke_workspace_member_def member_subject_def)
  then have ms: "member_subject p = Inr (p, ident)" by (rule member_subject_eq)
  have "write_and_bump [] (map (\<lambda>r. rt p (role_name r) (ws_object t w)) WORKSPACE_ROLES) t [ident] (a, ro) = (Inr (), a', ro')"
    using assms unfolding revoke_workspace_member_def ms Let_def ws_object_def by (simp only: sum.case prod.case)
  moreover have "set WORKSPACE_ROLES = UNIV"
    using MemberRole.exhaust by (auto simp: WORKSPACE_ROLES_def)
  ultimately show ?thesis using write_and_bump_ok(1) [of "[]"] by (auto simp: image_image)
qed


end
