(* ===== verification/Key_Endpoints.thy ===== *)
theory Key_Endpoints
  imports Tenancy_Service Api_Keys
begin

text \<open>
  The routes that change keys (\<open>api/routers/v1/tenancy.py\<close>) and tenants (\<open>api/routers/v1/admin.py\<close>),
  each as the handler \<open>run_idempotent\<close> runs inside the unit of work followed by its \<open>after_commit\<close>.
  They are where the tenancy service, the key verifier and the tenant registry meet: the database
  is the verifier's \<open>vf_db\<close>; a handler that raises leaves it as it was, while what it did to the
  shared cache stays done. A reply is the value the response body is built from.
\<close>

subsection \<open>The routes\<close>

definition issue_key_route :: "(string \<Rightarrow> string) \<Rightarrow> instant \<Rightarrow> string \<times> string \<Rightarrow> string \<Rightarrow> key_request \<Rightarrow> verifier \<Rightarrow>
    (service_error + ApiKey \<times> string) \<times> verifier" where
  "issue_key_route content_hash now mint t kr v =
     (case issue_key content_hash now mint t kr (vf_db v) of
        Inl e \<Rightarrow> (Inl e, v)
      | Inr (key, token, db') \<Rightarrow>
          (Inr (key, token), forget_missing (ak_key_id key)
             (v\<lparr>vf_db := db', vf_registry := map_option (observe_key (ak_key_id key) t) (vf_registry v)\<rparr>)))"

definition update_key_route :: "instant \<Rightarrow> string \<Rightarrow> string \<Rightarrow> string list \<Rightarrow> verifier \<Rightarrow>
    (service_error + ApiKey) \<times> verifier" where
  "update_key_route now t k ps v =
     (case set_may_act_as t k ps (vf_db v) of
        (Inl e, _) \<Rightarrow> (Inl e, v)
      | (Inr key, db') \<Rightarrow>
          (case invalidate now True k v of
             (Inl e, v1) \<Rightarrow> (Inl e, v1)
           | (Inr _, v1) \<Rightarrow> (Inr key, snd (invalidate now False k (v1\<lparr>vf_db := db'\<rparr>)))))"

definition forget_live_key :: "string \<Rightarrow> verifier \<Rightarrow> verifier" where
  "forget_live_key k v = v\<lparr>vf_registry := map_option (forget_key k) (vf_registry v)\<rparr>"

definition revoke_key_route :: "instant \<Rightarrow> string \<Rightarrow> string \<Rightarrow> verifier \<Rightarrow> (service_error + bool) \<times> verifier" where
  "revoke_key_route now t k v =
     (case revoke_key now t k (vf_db v) of
        (Inl e, _) \<Rightarrow> (Inl e, v)
      | (Inr False, db') \<Rightarrow> (Inr False, v\<lparr>vf_db := db'\<rparr>)
      | (Inr True, db') \<Rightarrow>
          (case invalidate now True k v of
             (Inl e, v1) \<Rightarrow> (Inl e, v1)
           | (Inr _, v1) \<Rightarrow> (Inr True, forget_live_key k (snd (invalidate now False k (v1\<lparr>vf_db := db'\<rparr>))))))"

definition delete_workspace_route :: "instant \<Rightarrow> string \<Rightarrow> string \<Rightarrow> platform \<times> verifier \<Rightarrow>
    (service_error + string list) \<times> platform \<times> verifier" where
  "delete_workspace_route now t w st =
     (case st of (pf, v) \<Rightarrow>
      case delete_workspace now t w (pf\<lparr>pf_db := vf_db v\<rparr>) of
        (Inl e, pf1) \<Rightarrow> (Inl e, pf\<lparr>pf_authz := pf_authz pf1\<rparr>, v)
      | (Inr revoked, pf1) \<Rightarrow>
          (case invalidate_all now True revoked v of
             (Inl e, v1) \<Rightarrow> (Inl e, pf\<lparr>pf_authz := pf_authz pf1\<rparr>, v1)
           | (Inr _, v1) \<Rightarrow>
               (Inr revoked, pf1,
                fold (\<lambda>k v. forget_live_key k (snd (invalidate now False k v))) revoked
                  (v1\<lparr>vf_db := pf_db pf1\<rparr>))))"

definition update_tenant_route :: "instant \<Rightarrow> string \<Rightarrow> tenant_changes \<Rightarrow> verifier \<Rightarrow>
    (service_error + Tenant) \<times> verifier" where
  "update_tenant_route now t ch v =
     (case update_tenant now t ch (vf_db v) of
        (Inl e, _) \<Rightarrow> (Inl e, v)
      | (Inr (tenant, _), db') \<Rightarrow>
          (case (if tc_status ch = None then (Inr (), v) else invalidate_tenant now True t v) of
             (Inl e, v1) \<Rightarrow> (Inl e, v1)
           | (Inr _, v1) \<Rightarrow>
               (let v2 = v1\<lparr>vf_db := db'\<rparr>;
                    v3 = (if tc_status ch = None then v2 else snd (invalidate_tenant now False t v2))
                in (Inr tenant, v3\<lparr>vf_registry := map_option (observe now db' tenant) (vf_registry v3)\<rparr>))))"

definition create_tenant_route :: "(string \<Rightarrow> string) \<Rightarrow> instant \<Rightarrow> string \<Rightarrow> string \<times> string \<Rightarrow> string \<Rightarrow> string \<Rightarrow>
    string option \<Rightarrow> nat option \<Rightarrow> nat option \<Rightarrow> bool \<Rightarrow> verifier \<Rightarrow>
    (service_error + Tenant \<times> ApiKey \<times> string) \<times> verifier" where
  "create_tenant_route content_hash now ulid mint name created_by tenant_id retention rate gate v =
     (case create_tenant content_hash now ulid mint name created_by tenant_id retention rate gate (vf_db v) of
        Inl e \<Rightarrow> (Inl e, v)
      | Inr (tenant, key, token, db') \<Rightarrow>
          (let v1 = forget_missing (ak_key_id key) (v\<lparr>vf_db := db'\<rparr>) in
           (Inr (tenant, key, token),
            v1\<lparr>vf_registry := map_option (observe now db' tenant) (vf_registry v1)\<rparr>)))"

subsection \<open>An issued key works\<close>

lemma forget_missing_fields [simp]:
  "vf_db (forget_missing k v) = vf_db v" "vf_registry (forget_missing k v) = vf_registry v"
  "vf_touched (forget_missing k v) = vf_touched v" "map_of (vf_missing (forget_missing k v)) k = None"
  by (auto simp: forget_missing_def Let_def assoc_del_def map_of_eq_None_iff split: option.split)

lemma forget_missing_look: "cache_look (forget_missing k v) now k = None"
  by (auto simp: forget_missing_def cache_look_def c_look_def Let_def guarded_def c_check_def c_delete_def
      split: option.split)

lemma remember_known: "knows_key (remember_key k rg) k"
  by (simp add: remember_key_def knows_key_def Let_def MAX_KNOWN_KEYS_def)

lemma observed_known: "knows_key (observe_key k t rg) k"
  using remember_known [of k "rg\<lparr>rg_generation := rg_generation rg + 1\<rparr>"]
  by (auto simp: observe_key_def Let_def knows_key_def)

lemma cached_raw_frame:
  "vf_registry (snd (cached_raw now k v)) = vf_registry v" "vf_touched (snd (cached_raw now k v)) = vf_touched v"
  by (simp_all add: cached_raw_def split: option.split prod.split sum.split)

lemma cached_raw_unknown: "unknown j (snd (cached_raw now k v)) = unknown j v"
  by (simp add: unknown_def cached_raw_frame cong: option.case_cong)

text \<open>A known key with nothing cached for it answers from its row.\<close>

lemma load_from_store:
  assumes "map_of (vf_missing v) k = None" and "cache_look v now k = None" and "\<not> unknown k v"
    and "keys_get (vf_db v) k = Some r"
  shows "fst (load now k v) = Some (stored_record (vf_db v) r)"
proof -
  obtain raw v1 where r: "cached_raw now k v = (raw, v1)" by fastforce
  have "raw = None" "vf_db v1 = vf_db v" "\<not> unknown k v1"
    using r assms(2,3) cached_raw_result [of now k v] cached_raw_db [of now k v] cached_raw_unknown [of k now k v]
    by simp_all
  then show ?thesis using assms(1,4) r by (simp add: load_def read_store_def Let_def)
qed

lemma verify_from_load:
  assumes "parse_token token = Some (k, secret)" and "fst (load now k v) = Some c"
    and "usable_at (ck_key c) now" and "h secret = ak_secret_hash (ck_key c)" and "ck_tenant_status c = T_active"
  shows "fst (verify h now token v) = Inr (verified (ck_key c))"
  using assms by (cases "load now k v") (simp add: verify_def secret_matches_def Let_def)

text \<open>C16: an issued key works on its next request. Whatever the verifier had cached about the id (a
  guess at it remembered as missing, here or in the shared cache), and however full its budget of
  unknown ids, the token returned by the route verifies as the key it was issued for, until the key
  expires.\<close>

theorem issued_key_works:
  assumes "issue_key_route h now mint t kr v = (Inr (key, token), v')" and "db_ok (vf_db v)"
    and "is_key_id (fst mint)" and "snd mint \<noteq> []" and "usable_at key now'"
  shows "fst (verify h now' token v') = Inr (verified key)"
proof -
  obtain db' where i: "issue_key h now mint t kr (vf_db v) = Inr (key, token, db')"
    and v': "v' = forget_missing (ak_key_id key)
      (v\<lparr>vf_db := db', vf_registry := map_option (observe_key (ak_key_id key) t) (vf_registry v)\<rparr>)"
    using assms(1) by (auto simp: issue_key_route_def split: sum.splits)
  note st = issue_key_steps [OF i]
  have ok: "db_ok db'" using keys_add_ok [OF assms(2) st(1)] .
  have mem: "key \<in> set (db_keys db')" and ten: "db_tenants db' = db_tenants (vf_db v)"
    using st(1) by (auto simp: keys_add_def split: if_splits)
  have get: "keys_get (vf_db v') (ak_key_id key) = Some key" using keys_get_Some [OF ok] mem v' by simp
  have tok: "parse_token token = Some (ak_key_id key, snd mint)" and hash: "h (snd mint) = ak_secret_hash key"
    using st(8) parse_minted [OF assms(3,4)] by (simp_all add: mint_token_def)
  have "\<not> unknown (ak_key_id key) v'" by (auto simp: unknown_def v' observed_known split: option.split)
  then have "fst (load now' (ak_key_id key) v') = Some (stored_record (vf_db v') key)"
    using load_from_store [OF _ _ _ get] forget_missing_look v' by simp
  then show ?thesis
    using verify_from_load [OF tok, of now' v' "stored_record (vf_db v') key" h] assms(5) hash st(3,7) ten v'
    by (auto simp: stored_record_def tenants_get_def)
qed

subsection \<open>A revoked key is refused\<close>

lemma invalidate_fields [simp]:
  "vf_db (snd (invalidate now strict k v)) = vf_db v" "vf_ttl (snd (invalidate now strict k v)) = vf_ttl v"
  by (simp_all add: invalidate_def split: option.split prod.split)

lemma invalidate_keeps_db: "invalidate now strict k v = (r, v1) \<Longrightarrow> vf_db v1 = vf_db v"
  using invalidate_fields(1) [of now strict k v] by simp

text \<open>After a strict invalidation that succeeded the cache holds nothing but the tombstone.\<close>

definition tombstoned :: "string \<Rightarrow> verifier \<Rightarrow> bool" where
  "tombstoned k v \<longleftrightarrow> (\<forall>now e. cache_look v now k = Some e \<longrightarrow> e = KE_TOMBSTONE)"

lemma invalidate_strict:
  assumes "invalidate now True k v = (Inr u, v1)"
  shows "tombstoned k v1"
  using assms by (auto simp: invalidate_def tombstoned_def cache_look_def cache_defs
      split: option.splits if_splits prod.splits)

lemma invalidate_keeps_tombstone:
  "tombstoned k v \<Longrightarrow> tombstoned k (snd (invalidate now strict j v))"
  by (auto simp: invalidate_def tombstoned_def cache_look_def cache_defs key_cache_key_def
      split: option.splits if_splits)

lemma tombstoned_fields [simp]:
  "tombstoned k (v\<lparr>vf_db := db\<rparr>) = tombstoned k v" "tombstoned k (v\<lparr>vf_registry := r\<rparr>) = tombstoned k v"
  by (simp_all add: tombstoned_def cache_look_def)

lemma refused_behind_tombstone:
  assumes "tombstoned k v" and "\<And>r. keys_get (vf_db v) k = Some r \<Longrightarrow> \<not> usable_at r now"
    and "parse_token token = Some (k, secret)"
  shows "fst (verify h now token v) = Inl invalid_key"
proof (rule refused_when_blocked [OF assms(2) _ assms(3)])
  show "blocked now e" if "cache_look v now k = Some e" for e
    using assms(1) that by (force simp: tombstoned_def blocked_def)
qed

lemma keys_revoke_unusable:
  assumes "db_ok db" and "keys_revoke t k now db = (True, db')" and "keys_get db' k = Some r"
  shows "\<not> usable_at r now'"
proof -
  have hit: "list_ex (\<lambda>r. ak_key_id r = k \<and> ak_tenant_id r = t \<and> ak_revoked_at r = None) (db_keys db)"
    and db': "db' = snd (keys_revoke t k now db)"
    using assms(2) by (simp_all add: keys_revoke_def Let_def)
  then obtain r0 where r0: "r0 \<in> set (db_keys db)" "ak_key_id r0 = k" "ak_tenant_id r0 = t" "ak_revoked_at r0 = None"
    by (auto simp: list_ex_iff)
  then have "keys_get db k = Some r0" using keys_get_Some [OF assms(1)] by simp
  then have "r = r0\<lparr>ak_revoked_at := Some now\<rparr>"
    using assms(3) keys_revoke_get [OF assms(1), of t k now k] r0 by (simp add: db')
  then show ?thesis by (simp add: usable_at_def)
qed

text \<open>C17: a revocation that is answered is in force. When the revoke route answers that it revoked the
  key, every token of that key is refused from then on; when it fails instead (the shared cache is
  away), the key's row is as it was, so the caller can retry.\<close>

theorem revoked_key_refused:
  assumes "revoke_key_route now t k v = (res, v')" and "db_ok (vf_db v)"
  shows "(\<forall>token secret now'. res = Inr True \<and> parse_token token = Some (k, secret) \<longrightarrow>
            fst (verify h now' token v') = Inl invalid_key) \<and>
         (\<forall>e. res = Inl e \<longrightarrow> vf_db v' = vf_db v)"
proof (intro conjI allI impI)
  fix e assume "res = Inl e"
  then show "vf_db v' = vf_db v"
    using assms(1) invalidate_keeps_db [of now True k v]
    by (auto simp: revoke_key_route_def split: sum.splits prod.splits bool.splits)
next
  fix token secret now' assume a: "res = Inr True \<and> parse_token token = Some (k, secret)"
  obtain db' u v1 where r: "revoke_key now t k (vf_db v) = (Inr True, db')"
    and i: "invalidate now True k v = (Inr u, v1)"
    and v': "v' = forget_live_key k (snd (invalidate now False k (v1\<lparr>vf_db := db'\<rparr>)))"
    using assms(1) a by (auto simp: revoke_key_route_def split: sum.splits prod.splits bool.splits)
  have rv: "keys_revoke t k now (vf_db v) = (True, db')"
    using r by (auto simp: revoke_key_def valid_named_def split: sum.splits prod.splits if_splits)
  have "tombstoned k v'"
    using invalidate_keeps_tombstone [of k "v1\<lparr>vf_db := db'\<rparr>" now False k] invalidate_strict [OF i]
    by (simp add: v' forget_live_key_def)
  moreover have "vf_db v' = db'" by (simp add: v' forget_live_key_def)
  ultimately show "fst (verify h now' token v') = Inl invalid_key"
    using keys_revoke_unusable [OF assms(2) rv] a by (metis refused_behind_tombstone)
qed

subsection \<open>A suspended tenant's keys are refused\<close>

lemma invalidate_all_keeps_tombstone:
  "tombstoned k v \<Longrightarrow> tombstoned k (snd (invalidate_all now strict ks v))"
proof (induction now strict ks v rule: invalidate_all.induct)
  case (2 now strict j ks v)
  obtain r v1 where i: "invalidate now strict j v = (r, v1)" by fastforce
  have "tombstoned k v1" using invalidate_keeps_tombstone [OF 2(2), of now strict j] i by simp
  then show ?case using 2(1) i by (cases r) auto
qed simp

lemma invalidate_all_db: "vf_db (snd (invalidate_all now strict ks v)) = vf_db v"
proof (induction now strict ks v rule: invalidate_all.induct)
  case (2 now strict j ks v)
  obtain r v1 where i: "invalidate now strict j v = (r, v1)" by fastforce
  have "vf_db v1 = vf_db v" using invalidate_keeps_db i by blast
  then show ?case using 2 i by (cases r) auto
qed simp

lemma invalidate_all_strict:
  "invalidate_all now True ks v = (Inr u, v1) \<Longrightarrow> k \<in> set ks \<Longrightarrow> tombstoned k v1"
proof (induction ks arbitrary: v)
  case (Cons j ks)
  obtain w v2 where i: "invalidate now True j v = (Inr w, v2)" and rest: "invalidate_all now True ks v2 = (Inr u, v1)"
    using Cons.prems(1) by (auto split: sum.splits prod.splits)
  have "tombstoned j v1"
    using invalidate_all_keeps_tombstone [OF invalidate_strict [OF i], of now True ks] rest by simp
  then show ?case using Cons.IH [OF rest] Cons.prems(2) by auto
qed simp

lemma load_behind_tombstone:
  assumes "tombstoned k v" and "load now k v = (Some c, v1)"
  shows "\<exists>r. keys_get (vf_db v) k = Some r \<and> c = stored_record (vf_db v) r"
  using load_result [OF assms(2)] assms(1) by (auto simp: tombstoned_def)

lemma tenants_update_get:
  assumes "\<And>r. tn_tenant_id (f r) = tn_tenant_id r"
  shows "tenants_get (tenants_update t f db) t = map_option f (tenants_get db t)"
proof -
  have "List.find (\<lambda>r. tn_tenant_id r = t) (map (\<lambda>r. if tn_tenant_id r = t then f r else r) rs) =
      map_option f (List.find (\<lambda>r. tn_tenant_id r = t) rs)" for rs
    using assms by (induction rs) auto
  then show ?thesis by (simp add: tenants_get_def tenants_update_def)
qed

lemma change_tenant_fields:
  "tn_tenant_id (change_tenant now ch name r) = tn_tenant_id r"
  "tc_status ch = Some st \<Longrightarrow> tn_status (change_tenant now ch name r) = st"
  by (simp_all add: change_tenant_def Let_def split: option.split)

lemma update_tenant_status:
  assumes "update_tenant now t ch db = (Inr (tenant, changed), db')" and "tc_status ch = Some st"
  shows "\<exists>r. tenants_get db' t = Some r \<and> tn_status r = st" and "db_keys db' = db_keys db"
  using assms
  by (auto simp: update_tenant_def get_tenant_def rbind_Inr tenants_update_get change_tenant_fields valid_named_def Let_def
      split: sum.splits option.splits if_splits) (simp_all add: tenants_update_def)

text \<open>C18: a suspension that is answered is in force for the tenant's keys. While the tenant's keys fit
  the page a tenant-wide invalidation walks, once the route answers that the tenant is suspended no
  token of any key of that tenant verifies.\<close>

theorem suspended_tenant_refused:
  assumes "update_tenant_route now t ch v = (Inr tenant, v')" and "tc_status ch = Some T_suspended"
    and "length (filter (\<lambda>r. ak_tenant_id r = t) (db_keys (vf_db v))) \<le> KEYS_LIST_LIMIT"
    and "parse_token token = Some (k, secret)" and "keys_get (vf_db v) k = Some r" and "ak_tenant_id r = t"
    and "db_ok (vf_db v)"
  shows "fst (verify h now' token v') \<in> {Inl invalid_key, Inl suspended}"
proof -
  obtain changed db' u v1 where up: "update_tenant now t ch (vf_db v) = (Inr (tenant, changed), db')"
    and i: "invalidate_tenant now True t v = (Inr u, v1)"
    and v': "v' = (snd (invalidate_tenant now False t (v1\<lparr>vf_db := db'\<rparr>)))\<lparr>vf_registry :=
      map_option (observe now db' tenant) (vf_registry (snd (invalidate_tenant now False t (v1\<lparr>vf_db := db'\<rparr>))))\<rparr>"
    using assms(1,2) by (auto simp: update_tenant_route_def Let_def split: sum.splits prod.splits)
  have "r \<in> set (keys_list (vf_db v) t None KEYS_LIST_LIMIT)" and k: "ak_key_id r = k"
    using keys_list_all [OF assms(3)] assms(5,6) keys_get_Some [OF assms(7)] by auto
  then have "tombstoned k v1"
    using invalidate_all_strict i by (fastforce simp: invalidate_tenant_def)
  then have tomb: "tombstoned k v'"
    by (simp add: v' invalidate_tenant_def invalidate_all_keeps_tombstone)
  have db: "vf_db v' = db'" by (simp add: v' invalidate_tenant_def invalidate_all_db)
  obtain tr where tr: "tenants_get db' t = Some tr" "tn_status tr = T_suspended"
    using update_tenant_status [OF up assms(2)] by auto
  have get: "keys_get db' k = Some r"
    using assms(5) update_tenant_status(2) [OF up assms(2)] by (simp add: keys_get_def)
  obtain oc v2 where l: "load now' k v' = (oc, v2)" by fastforce
  have "ck_tenant_status c = T_suspended" if "oc = Some c" for c
    using load_behind_tombstone [OF tomb, of now' c v2] l that get tr assms(6) by (auto simp: db stored_record_def)
  then show ?thesis using assms(4) l by (cases oc) (auto simp: verify_def)
qed

end
