(* ===== verification/Authz_Examples.thy ===== *)
theory Authz_Examples
  imports Authz_Service
begin

text \<open>
  The scope resolution and the tenant locality evaluated on a concrete relationship store: a user
  known in two tenants, owning one thread in each; and the workspace membership operations on a
  workspace whose member also administers the tenant.
\<close>

subsection \<open>A concrete store\<close>

definition demo_tuples :: "tuple list" where
  "demo_tuples =
     [(''thread:acme/t1'', ''tenant'', ''tenant:acme''), (''thread:acme/t1'', ''owner'', ''user:u1''),
      (''thread:beta/t9'', ''owner'', ''user:u1'')]"

definition demo_provider :: provider where
  "demo_provider = \<lparr>pv_tuples = demo_tuples, pv_objects = [''thread:acme/t1'', ''thread:beta/t9''],
     pv_max_listed = 10, pv_check_calls = 0, pv_available = True\<rparr>"

lemma demo_resolve:
  "resolve (\<lambda>u r ty. list_objects MODEL u r ty demo_provider) 10 (demo_context ''u1'' None) = Inr
     \<lparr>as_tenant_id = ''acme'', as_principal = ''user:u1'', as_thread_ids = [''t1''],
      as_document_ids = [], as_agent_ids = [], as_run_ids = [], as_agent_group_ids = [],
      as_workspace_ids = [], as_user_id = Some ''u1'', as_truncated = False\<rparr>"
  by code_simp


theorem check_tenant_local_witness:
  "check_rec MODEL demo_tuples ''user:u1'' ''can_read'' ''thread:acme/t1'' [] =
   check_rec MODEL (take 2 demo_tuples) ''user:u1'' ''can_read'' ''thread:acme/t1'' []"
proof (rule check_tenant_local)
  show "tenant_closed demo_tuples" by code_simp
  show "tenant_closed (take 2 demo_tuples)" by code_simp
  have t: "obj_tenant ''thread:acme/t1'' = ''acme''" "obj_tenant ''thread:beta/t9'' = ''beta''"
    by code_simp+
  show "(ob', r', u) \<in> set demo_tuples \<longleftrightarrow> (ob', r', u) \<in> set (take 2 demo_tuples)"
    if "obj_tenant ob' = obj_tenant ''thread:acme/t1''" for ob' r' u
    using that t by (auto simp: demo_tuples_def)
qed

definition ws_tuples :: "tuple list" where
  "ws_tuples = [(''workspace:acme/w1'', ''tenant'', ''tenant:acme''), (''workspace:acme/w1'', ''member'', ''user:u1''),
     (''tenant:acme'', ''admin'', ''user:u1'')]"

definition ws_authz :: "tuple list \<Rightarrow> authz" where
  "ws_authz T = demo_authz\<lparr>az_provider := \<lparr>pv_tuples = T,
     pv_objects = [''workspace:acme/w1'', ''tenant:acme''], pv_max_listed = 10, pv_check_calls = 0,
     pv_available = True\<rparr>\<rparr>"

lemma demo_subject: "member_subject ''user:u1'' = Inr (''user:u1'', ''u1'')"
  by code_simp

lemma revoke_demo:
  "revoke_workspace_member ''acme'' ''w1'' ''user:u1'' (ws_authz ws_tuples, None) =
   (Inr (), ws_authz [(''workspace:acme/w1'', ''tenant'', ''tenant:acme''), (''tenant:acme'', ''admin'', ''user:u1'')], None)"
  by (simp add: revoke_workspace_member_def demo_subject write_and_bump_def write_tuples_def WORKSPACE_ROLES_def
      discard_def ws_authz_def ws_tuples_def object_id_def bump_membership_def Let_def)

theorem revoked_member_is_out_witness:
  "\<exists>tn. (''workspace:'' @ object_id ''acme'' ''w1'', ''tenant'', tn) \<in> set (pv_tuples (az_provider (ws_authz ws_tuples))) \<and>
    check_rec MODEL [(''workspace:acme/w1'', ''tenant'', ''tenant:acme''), (''tenant:acme'', ''admin'', ''user:u1'')]
      ''user:u1'' ''admin'' tn []"
proof -
  have c: "tenant_closed ws_tuples" by code_simp
  have k: "check_rec MODEL [(''workspace:acme/w1'', ''tenant'', ''tenant:acme''), (''tenant:acme'', ''admin'', ''user:u1'')]
      ''user:u1'' ''viewer'' ''workspace:acme/w1'' []" by code_simp
  show ?thesis
    using revoked_member_is_out [OF revoke_demo, of "''viewer''"] c k by (simp add: ws_authz_def object_id_def)
qed

theorem one_role_per_member_witness:
  "(''workspace:'' @ object_id ''acme'' ''w1'', role_name M_viewer, ''user:u1'') \<in> set (pv_tuples (az_provider
     (fst (snd (set_workspace_member ''acme'' ''w1'' ''user:u1'' M_viewer (Some M_member) (ws_authz ws_tuples, None))))))"
proof -
  have v: "validate_tuple MODEL (rt ''user:u1'' ''viewer'' ''workspace:acme/w1'') = Inr ()" by code_simp
  obtain a' where s: "set_workspace_member ''acme'' ''w1'' ''user:u1'' M_viewer (Some M_member) (ws_authz ws_tuples, None) =
      (Inr (), a', None)"
    using v by (simp add: set_workspace_member_def demo_subject write_and_bump_def write_tuples_def
        ws_authz_def ws_tuples_def object_id_def bump_membership_def Let_def)
  have "(''workspace:'' @ object_id ''acme'' ''w1'', role_name r, ''user:u1'') \<in> set (pv_tuples (az_provider (ws_authz ws_tuples)))
      \<longleftrightarrow> Some M_member = Some r" for r
    by (cases r) (simp_all add: ws_authz_def ws_tuples_def object_id_def)
  from one_role_per_member [OF s this, of M_viewer] s show ?thesis by simp
qed

end
