(* ===== verification/Tenancy_Examples.thy ===== *)
theory Tenancy_Examples
  imports Tenancy_Service Key_Endpoints Authz_Examples
begin

text \<open>
  The administration operations at concrete inputs: an issued key, a workspace deleted with few and
  with more than a page of keys, a write into a workspace and a role change.
\<close>

definition demo_workspace :: Workspace where
  "demo_workspace = \<lparr>ws_workspace_id = ''w1'', ws_tenant_id = ''acme'', ws_name = ''Team'', ws_created_at = 0,
     ws_deleted_at = None\<rparr>"

definition demo_platform :: "ApiKey list \<Rightarrow> authz \<Rightarrow> platform" where
  "demo_platform ks a = \<lparr>pf_db = (demo_db ks)\<lparr>db_workspaces := [demo_workspace]\<rparr>, pf_authz = a,
     pf_revisions = None, pf_anchors = []\<rparr>"

definition demo_key_request :: key_request where
  "demo_key_request = \<lparr>kr_role = K_SERVICE, kr_name = ''svc'', kr_created_by = ''platform'', kr_workspace_id = None,
     kr_expires_in_days = Some 30, kr_may_act_as = [''user:u1'', ''user:u1'']\<rparr>"

theorem issued_key_wellformed_witness:
  "\<exists>key token db'. issue_key (\<lambda>x. x) 1 (demo_id, ''s'') ''acme'' demo_key_request (demo_db []) = Inr (key, token, db') \<and>
     keys_get db' (ak_key_id key) = Some key"
proof -
  have "case issue_key (\<lambda>x. x) 1 (demo_id, ''s'') ''acme'' demo_key_request (demo_db []) of Inr _ \<Rightarrow> True | Inl _ \<Rightarrow> False"
    by code_simp
  then obtain key token db' where
    i: "issue_key (\<lambda>x. x) 1 (demo_id, ''s'') ''acme'' demo_key_request (demo_db []) = Inr (key, token, db')"
    by (cases "issue_key (\<lambda>x. x) 1 (demo_id, ''s'') ''acme'' demo_key_request (demo_db [])") auto
  have "db_ok (demo_db [])" by (simp add: db_ok_def demo_db_def)
  from issued_key_wellformed [OF i this] i show ?thesis by blast
qed

definition bound_key :: ApiKey where
  "bound_key = (demo_key ''zz'')\<lparr>ak_created_at := 1, ak_workspace_id := Some ''w1''\<rparr>"

lemma demo_platform_facts:
  "ws_get (pf_db (demo_platform ks a)) ''acme'' ''w1'' = Some demo_workspace"
  "db_keys (pf_db (demo_platform ks a)) = ks" "db_members (pf_db (demo_platform ks a)) = []"
  "db_ok (pf_db (demo_platform ks a)) \<longleftrightarrow> distinct (map ak_key_id ks)"
  by (simp_all add: demo_platform_def demo_db_def demo_workspace_def ws_get_def ws_row_def db_ok_def)

lemma demo_delete:
  "\<exists>revoked pf'. delete_workspace 5 ''acme'' ''w1'' (demo_platform ks a) = (Inr revoked, pf')"
proof -
  have "is_valid_id ''w1''" by code_simp
  then show ?thesis
    by (simp add: delete_workspace_def valid_named_def demo_platform_facts ws_members_def Let_def)
qed

theorem delete_workspace_revokes_keys_witness:
  "\<exists>revoked pf' r'. delete_workspace 5 ''acme'' ''w1'' (demo_platform [bound_key] demo_authz) = (Inr revoked, pf') \<and>
     keys_get (pf_db pf') ''zz'' = Some r' \<and> \<not> usable_at r' 5"
proof -
  obtain revoked pf' where d: "delete_workspace 5 ''acme'' ''w1'' (demo_platform [bound_key] demo_authz) = (Inr revoked, pf')"
    using demo_delete by blast
  have "keys_get (pf_db (demo_platform [bound_key] demo_authz)) ''zz'' = Some bound_key"
    by (simp add: keys_get_def demo_platform_facts bound_key_def demo_key_def)
  from delete_workspace_revokes_keys [OF d _ _ _ this] d show ?thesis
    by (auto simp: demo_platform_facts KEYS_LIST_LIMIT_def bound_key_def demo_key_def)
qed

text \<open>A row that sorts after all others is not on a page that leaves one row out.\<close>

lemma greatest_off_page:
  fixes f :: "'a \<Rightarrow> 'b::linorder"
  assumes "\<forall>x \<in> set xs. f x < f r" and "length xs = n" and "distinct (xs @ [r])"
  shows "r \<notin> set (take n (sort_key f (xs @ [r])))"
proof
  let ?L = "sort_key f (xs @ [r])"
  have len: "length ?L = n + 1" and dist: "distinct ?L" and srt: "sorted (map f ?L)"
    using assms(2,3) by (simp_all only: length_sort distinct_sort sorted_sort_key) simp
  assume "r \<in> set (take n ?L)"
  then obtain i where i: "i < n" "?L ! i = r" using len by (auto simp: in_set_conv_nth)
  have "?L ! n \<in> set ?L" using len by (intro nth_mem) simp
  moreover have "?L ! n \<noteq> ?L ! i" using i(1) len dist by (subst nth_eq_iff_index_eq) simp_all
  ultimately have "?L ! n \<in> set xs" using i(2) by auto
  moreover have "map f ?L ! i \<le> map f ?L ! n" using i(1) len srt by (intro sorted_nth_mono) simp_all
  ultimately show False using assms(1) i len by (auto simp: nth_map)
qed

definition many_keys :: "ApiKey list" where
  "many_keys = map (\<lambda>i. demo_key (show_nat i)) [0..<100]"

lemma many_keys_facts:
  "length many_keys = 100" "distinct (map ak_key_id (many_keys @ [bound_key]))"
  "\<forall>x \<in> set many_keys. ak_tenant_id x = ''acme'' \<and> key_order x < key_order bound_key"
  "distinct (many_keys @ [bound_key])"
proof -
  have z: "show_nat i \<noteq> ''zz''" for i
  proof
    assume "show_nat i = ''zz''"
    then have "CHR ''z'' \<in> set (show_nat i)" by simp
    from show_nat_digits [OF this] show False by simp
  qed
  show l: "length many_keys = 100" by (simp add: many_keys_def del: upt_Suc)
  show d: "distinct (map ak_key_id (many_keys @ [bound_key]))"
    by (auto simp: many_keys_def bound_key_def demo_key_def comp_def distinct_map inj_on_def z z [symmetric]
        simp del: upt_Suc)
  show "distinct (many_keys @ [bound_key])" using d distinct_map by blast
  show "\<forall>x \<in> set many_keys. ak_tenant_id x = ''acme'' \<and> key_order x < key_order bound_key"
    by (auto simp: many_keys_def bound_key_def demo_key_def key_order_def less_prod_def)
qed

theorem delete_workspace_leaves_key_witness:
  "\<exists>revoked pf'. delete_workspace 5 ''acme'' ''w1'' (demo_platform (many_keys @ [bound_key]) demo_authz) = (Inr revoked, pf') \<and>
     keys_get (pf_db pf') ''zz'' = Some bound_key \<and> usable_at bound_key 5"
proof -
  let ?pf = "demo_platform (many_keys @ [bound_key]) demo_authz"
  obtain revoked pf' where d: "delete_workspace 5 ''acme'' ''w1'' ?pf = (Inr revoked, pf')"
    using demo_delete by blast
  have ok: "db_ok (pf_db ?pf)" by (simp only: demo_platform_facts many_keys_facts)
  have k: "keys_get (pf_db ?pf) ''zz'' = Some bound_key"
    using keys_get_Some [OF ok] by (simp add: demo_platform_facts bound_key_def demo_key_def)
  have "filter (\<lambda>r. ak_tenant_id r = ''acme'') (many_keys @ [bound_key]) = many_keys @ [bound_key]"
    using many_keys_facts(3) by (intro filter_True) (auto simp: bound_key_def demo_key_def)
  then have "bound_key \<notin> set (keys_list (pf_db ?pf) ''acme'' None KEYS_LIST_LIMIT)"
    using greatest_off_page [of many_keys key_order bound_key 100] many_keys_facts
    by (simp add: keys_list_def demo_platform_facts KEYS_LIST_LIMIT_def)
  from delete_workspace_leaves_key [OF d _ ok k _ _ this] d show ?thesis
    by (auto simp: demo_platform_facts bound_key_def demo_key_def usable_at_def)
qed

theorem workspace_write_needs_member_witness:
  "\<exists>s \<in> set (subjects_of ((demo_context ''u1'' None)\<lparr>ctx_workspace_id := Some ''w1''\<rparr>)).
     check_rec MODEL ws_tuples s ''member'' ''workspace:acme/w1'' []"
proof -
  let ?c = "(demo_context ''u1'' None)\<lparr>ctx_workspace_id := Some ''w1''\<rparr>"
  let ?pf = "demo_platform [] (ws_authz ws_tuples)"
  have k: "check_rec MODEL ws_tuples ''user:u1'' ''member'' ''workspace:acme/w1'' []" by code_simp
  have s: "subjects_of ?c = [''user:u1'']"
    by (simp add: subjects_of_def demo_context_def principal_id_def is_agent_def)
  obtain pf' where "guard_workspace_visibility ?c (Some V_WORKSPACE) ?pf = (Inr (), pf')"
    using k s demo_platform_facts(1) [of "[]" "ws_authz ws_tuples"]
    by (simp add: guard_workspace_visibility_def require_workspace_member_def require_access_def allowed_def ask_def
        batch_check_def check_def guard_def demo_context_def demo_platform_def ws_authz_def object_id_def)
  from workspace_write_needs_member [OF this] show ?thesis
    by (auto simp: demo_context_def demo_platform_def ws_authz_def object_id_def)
qed


subsection \<open>The key routes\<close>

theorem issued_key_works_witness:
  "\<exists>key token v'. issue_key_route (\<lambda>x. x) 1 (demo_id, ''s'') ''acme'' demo_key_request (demo_verifier (demo_db [])) =
       (Inr (key, token), v') \<and> fst (verify (\<lambda>x. x) 1 token v') = Inr (verified key)"
proof -
  have "case issue_key (\<lambda>x. x) 1 (demo_id, ''s'') ''acme'' demo_key_request (demo_db []) of
      Inr (key, _) \<Rightarrow> usable_at key 1 | Inl _ \<Rightarrow> False"
    by code_simp
  then obtain key token db' where
    i: "issue_key (\<lambda>x. x) 1 (demo_id, ''s'') ''acme'' demo_key_request (demo_db []) = Inr (key, token, db')"
    and u: "usable_at key 1"
    by (cases "issue_key (\<lambda>x. x) 1 (demo_id, ''s'') ''acme'' demo_key_request (demo_db [])") auto
  obtain v' where r: "issue_key_route (\<lambda>x. x) 1 (demo_id, ''s'') ''acme'' demo_key_request
      (demo_verifier (demo_db [])) = (Inr (key, token), v')"
    using i by (simp add: issue_key_route_def demo_verifier_def)
  have "db_ok (vf_db (demo_verifier (demo_db [])))" by (simp add: db_ok_def demo_db_def demo_verifier_def)
  moreover have "is_key_id (fst (demo_id, ''s''))" by code_simp
  ultimately show ?thesis using issued_key_works [OF r _ _ _ u] r by auto
qed

theorem revoked_key_refused_witness:
  "\<exists>v'. revoke_key_route 5 ''acme'' demo_id (demo_verifier (demo_db [demo_key demo_id])) = (Inr True, v') \<and>
     fst (verify (\<lambda>x. x) 9 (''mk_'' @ demo_id @ ''.s'') v') = Inl invalid_key"
proof -
  let ?v = "demo_verifier (demo_db [demo_key demo_id])"
  have "is_valid_id demo_id" by code_simp
  then have "fst (revoke_key_route 5 ''acme'' demo_id ?v) = Inr True"
    by (simp add: revoke_key_route_def revoke_key_def valid_named_def keys_revoke_def invalidate_def cache_defs
        demo_defs Let_def)
  then obtain v' where r: "revoke_key_route 5 ''acme'' demo_id ?v = (Inr True, v')"
    by (cases "revoke_key_route 5 ''acme'' demo_id ?v") auto
  have "db_ok (vf_db ?v)" by (simp add: db_ok_def demo_defs)
  from revoked_key_refused [OF r this] r demo_token show ?thesis by blast
qed

definition suspend :: tenant_changes where
  "suspend = \<lparr>tc_name = None, tc_status = Some T_suspended, tc_retention_days = None, tc_rate_limit = None,
     tc_clear_retention = False, tc_clear_rate_limit = False, tc_admission_gate = None\<rparr>"

theorem suspended_tenant_refused_witness:
  "\<exists>tenant v'. update_tenant_route 5 ''acme'' suspend (demo_verifier (demo_db [demo_key demo_id])) = (Inr tenant, v') \<and>
     fst (verify (\<lambda>x. x) 9 (''mk_'' @ demo_id @ ''.s'') v') \<in> {Inl invalid_key, Inl suspended}"
proof -
  let ?v = "demo_verifier (demo_db [demo_key demo_id])"
  have "is_valid_id ''acme''" by code_simp
  then obtain tenant v' where r: "update_tenant_route 5 ''acme'' suspend ?v = (Inr tenant, v')"
    by (simp add: update_tenant_route_def update_tenant_def get_tenant_def valid_named_def tenants_get_def suspend_def
        invalidate_tenant_def keys_list_def KEYS_LIST_LIMIT_def invalidate_def cache_defs demo_defs Let_def rbind_def)
  have g: "keys_get (vf_db ?v) demo_id = Some (demo_key demo_id)" by (simp add: keys_get_def demo_defs)
  have "fst (verify (\<lambda>x. x) 9 (''mk_'' @ demo_id @ ''.s'') v') \<in> {Inl invalid_key, Inl suspended}"
    by (rule suspended_tenant_refused [OF r _ _ demo_token g])
      (simp_all add: suspend_def demo_defs db_ok_def KEYS_LIST_LIMIT_def)
  then show ?thesis using r by blast
qed

end
