(* ===== verification/Breaker.thy ===== *)
theory Breaker
  imports Prelude
begin

text \<open>
  The client's circuit breaker (\<open>sdk/python/src/trellis/memory/breaker.py\<close>) as a state machine.
  The clock is an argument in microseconds; the threshold is a natural number, 0 disabling the
  breaker. A client is the breaker together with the calls in flight, each with the flag
  \<open>acquire\<close> returned for it; calls interleave freely, and a call without a verdict is released
  only when it was the probe, as the transport does.
\<close>

definition FAILURE_THRESHOLD :: nat where "FAILURE_THRESHOLD = 5"
definition OPEN_SECONDS :: duration where "OPEN_SECONDS = secs 30"

datatype CircuitState = Closed | Open | Half_open

record breaker =
  br_threshold :: nat
  br_open_seconds :: duration
  br_failures :: nat
  br_open_until :: instant
  br_probing :: bool

definition new_breaker :: "nat \<Rightarrow> duration \<Rightarrow> breaker" where
  "new_breaker n d = \<lparr>br_threshold = n, br_open_seconds = d, br_failures = 0, br_open_until = 0, br_probing = False\<rparr>"

definition circuit_state :: "instant \<Rightarrow> breaker \<Rightarrow> CircuitState" where
  "circuit_state now b =
     (if br_threshold b = 0 \<or> br_failures b < br_threshold b then Closed
      else if now < br_open_until b then Open else Half_open)"

text \<open>\<open>acquire\<close>: the flag, or \<open>CircuitOpenError\<close> (\<open>None\<close>).\<close>

definition acquire :: "instant \<Rightarrow> breaker \<Rightarrow> bool option \<times> breaker" where
  "acquire now b =
     (case circuit_state now b of
        Closed \<Rightarrow> (Some False, b)
      | Open \<Rightarrow> (None, b)
      | Half_open \<Rightarrow> if br_probing b then (None, b) else (Some True, b\<lparr>br_probing := True\<rparr>))"

definition record_success :: "breaker \<Rightarrow> breaker" where
  "record_success b = b\<lparr>br_failures := 0, br_probing := False\<rparr>"

definition record_failure :: "instant \<Rightarrow> breaker \<Rightarrow> breaker" where
  "record_failure now b =
     (let b1 = b\<lparr>br_probing := False\<rparr> in
      if br_threshold b1 = 0 then b1
      else let b2 = b1\<lparr>br_failures := br_failures b1 + 1\<rparr> in
        if br_failures b2 \<ge> br_threshold b2 then b2\<lparr>br_open_until := now + br_open_seconds b2\<rparr> else b2)"

definition release :: "breaker \<Rightarrow> breaker" where
  "release b = b\<lparr>br_probing := False\<rparr>"

subsection \<open>The client's steps\<close>

record client =
  cl_breaker :: breaker
  cl_in_flight :: "(nat \<times> bool) list"
  cl_now :: instant

inductive client_step :: "client \<Rightarrow> client \<Rightarrow> bool" where
  step_acquire: "acquire (cl_now c) (cl_breaker c) = (Some probe, b) \<Longrightarrow> i \<notin> fst ` set (cl_in_flight c) \<Longrightarrow>
    client_step c (c\<lparr>cl_breaker := b, cl_in_flight := (i, probe) # cl_in_flight c\<rparr>)"
| step_refused: "acquire (cl_now c) (cl_breaker c) = (None, b) \<Longrightarrow> client_step c (c\<lparr>cl_breaker := b\<rparr>)"
| step_success: "(i, probe) \<in> set (cl_in_flight c) \<Longrightarrow>
    client_step c (c\<lparr>cl_breaker := record_success (cl_breaker c), cl_in_flight := remove1 (i, probe) (cl_in_flight c)\<rparr>)"
| step_failure: "(i, probe) \<in> set (cl_in_flight c) \<Longrightarrow>
    client_step c (c\<lparr>cl_breaker := record_failure (cl_now c) (cl_breaker c), cl_in_flight := remove1 (i, probe) (cl_in_flight c)\<rparr>)"
| step_release: "(i, True) \<in> set (cl_in_flight c) \<Longrightarrow>
    client_step c (c\<lparr>cl_breaker := release (cl_breaker c), cl_in_flight := remove1 (i, True) (cl_in_flight c)\<rparr>)"
| step_no_verdict: "(i, False) \<in> set (cl_in_flight c) \<Longrightarrow>
    client_step c (c\<lparr>cl_in_flight := remove1 (i, False) (cl_in_flight c)\<rparr>)"
| step_tick: "cl_now c \<le> t \<Longrightarrow> client_step c (c\<lparr>cl_now := t\<rparr>)"

inductive_cases client_stepE: "client_step c c'"

inductive reachable :: "nat \<Rightarrow> duration \<Rightarrow> client \<Rightarrow> bool" for n d where
  init: "reachable n d \<lparr>cl_breaker = new_breaker n d, cl_in_flight = [], cl_now = t\<rparr>"
| step: "reachable n d c \<Longrightarrow> client_step c c' \<Longrightarrow> reachable n d c'"

definition client_inv :: "nat \<Rightarrow> duration \<Rightarrow> client \<Rightarrow> bool" where
  "client_inv n d c \<longleftrightarrow>
     br_threshold (cl_breaker c) = n \<and> br_open_seconds (cl_breaker c) = d \<and>
     (br_probing (cl_breaker c) \<longrightarrow> 0 < n \<and> n \<le> br_failures (cl_breaker c) \<and>
        br_open_until (cl_breaker c) \<le> cl_now c \<and> (\<exists>i. (i, True) \<in> set (cl_in_flight c))) \<and>
     (0 < n \<and> n \<le> br_failures (cl_breaker c) \<longrightarrow> br_open_until (cl_breaker c) \<le> cl_now c + d) \<and>
     distinct (map fst (cl_in_flight c))"

lemmas breaker_defs = circuit_state_def acquire_def record_success_def record_failure_def release_def Let_def

lemma acquire_cases:
  "acquire now b = (Some False, b') \<longleftrightarrow> circuit_state now b = Closed \<and> b' = b"
  "acquire now b = (Some True, b') \<longleftrightarrow>
     circuit_state now b = Half_open \<and> \<not> br_probing b \<and> b' = b\<lparr>br_probing := True\<rparr>"
  "acquire now b = (None, b') \<longleftrightarrow>
     b' = b \<and> (circuit_state now b = Open \<or> circuit_state now b = Half_open \<and> br_probing b)"
  by (auto simp: acquire_def split: CircuitState.split)

lemma distinct_remove1_fst: "distinct (map fst xs) \<Longrightarrow> distinct (map fst (remove1 x xs))"
  by (induction xs) (auto dest: set_remove1_subset [THEN subsetD] simp: image_iff)

lemma in_remove1: "x \<in> set xs \<Longrightarrow> x \<noteq> y \<Longrightarrow> x \<in> set (remove1 y xs)"
  by simp

lemma client_inv_step [inv_intros]:
  assumes "client_step c c'" and "client_inv n d c" and "0 \<le> d"
  shows "client_inv n d c'"
  using assms(1)
proof cases
  case (step_acquire probe b i)
  then show ?thesis
    using assms(2) by (cases probe) (auto simp: acquire_cases client_inv_def circuit_state_def split: if_splits)
next
  case (step_refused b)
  then show ?thesis using assms(2) by (auto simp: acquire_cases client_inv_def)
next
  case (step_success i probe)
  then show ?thesis using assms(2)
    by (auto simp: client_inv_def record_success_def distinct_remove1_fst)
next
  case (step_failure i probe)
  then show ?thesis using assms(2,3)
    by (auto simp: client_inv_def record_failure_def Let_def distinct_remove1_fst)
next
  case (step_release i)
  then show ?thesis using assms(2)
    by (auto simp: client_inv_def release_def distinct_remove1_fst)
next
  case (step_no_verdict i)
  then show ?thesis using assms(2)
    by (auto simp: client_inv_def distinct_remove1_fst intro: in_remove1)
next
  case (step_tick t)
  then show ?thesis using assms(2) by (auto simp: client_inv_def)
qed

lemma reachable_inv:
  assumes "reachable n d c" and "0 \<le> d"
  shows "client_inv n d c"
  using assms(1)
proof induction
  case (init t)
  show ?case by (simp add: client_inv_def new_breaker_def)
next
  case (step c c')
  then show ?case using client_inv_step assms(2) by blast
qed

text \<open>C32: the circuit never locks a client out. In every reachable state of the client a refused
  call means either that the open period, which ends within \<open>d\<close> from now, is not over, or that a
  probe is in flight whose outcome decides; a closed circuit refuses nothing.\<close>

theorem refusal_is_temporary:
  assumes "reachable n d c" and "0 \<le> d" and "acquire (cl_now c) (cl_breaker c) = (None, b)"
  shows "0 < n \<and> n \<le> br_failures (cl_breaker c) \<and>
    (cl_now c < br_open_until (cl_breaker c) \<and> br_open_until (cl_breaker c) \<le> cl_now c + d \<or>
     (\<exists>i. (i, True) \<in> set (cl_in_flight c)))"
  using reachable_inv [OF assms(1,2)] assms(3)
  by (auto simp: acquire_cases client_inv_def circuit_state_def split: if_splits)

text \<open>Calls refused or admitted while no outcome is recorded.\<close>

fun acquires :: "instant list \<Rightarrow> breaker \<Rightarrow> bool option list" where
  "acquires [] b = []"
| "acquires (t # ts) b = (case acquire t b of (r, b') \<Rightarrow> r # acquires ts b')"

lemma probing_refuses:
  assumes "br_probing b" and "0 < br_threshold b" and "br_threshold b \<le> br_failures b"
  shows "acquires ts b = replicate (length ts) None"
proof (induction ts)
  case (Cons t ts)
  have "acquire t b = (None, b)" using assms by (simp add: acquire_def circuit_state_def)
  then show ?case using Cons by simp
qed simp

text \<open>One probe at a time. Once a call is admitted as the half-open probe, every further call is
  refused, however many and whenever they come, until an outcome is recorded.\<close>

theorem probe_is_alone:
  assumes "acquire now b = (Some True, b')"
  shows "acquires ts b' = replicate (length ts) None"
  using assms
  by (intro probing_refuses) (auto simp: acquire_cases circuit_state_def split: if_splits)

fun fail_calls :: "instant list \<Rightarrow> breaker \<Rightarrow> breaker" where
  "fail_calls [] b = b"
| "fail_calls (t # ts) b = fail_calls ts (record_failure t b)"

lemma fail_calls_frame:
  "br_threshold (fail_calls ts b) = br_threshold b" "br_open_seconds (fail_calls ts b) = br_open_seconds b"
  "0 < br_threshold b \<Longrightarrow> br_failures (fail_calls ts b) = br_failures b + length ts"
  by (induction ts b rule: fail_calls.induct) (simp_all add: record_failure_def Let_def)

text \<open>The circuit opens after exactly the threshold of failed calls in a row, and then refuses for
  the whole open period. From a closed circuit with no failures, fewer failures leave it closed;
  the failure that reaches the threshold opens it until \<open>open_seconds\<close> later; one success closes it.\<close>

theorem opens_at_threshold:
  assumes "0 < br_threshold b" and "br_failures b = 0" and "0 < br_open_seconds b"
  shows "(length ts < br_threshold b \<longrightarrow> circuit_state now (fail_calls ts b) = Closed) \<and>
    (length ts + 1 = br_threshold b \<longrightarrow>
      (circuit_state now (record_failure t (fail_calls ts b)) =
        (if now < t + br_open_seconds b then Open else Half_open))) \<and>
    circuit_state now (record_success (fail_calls ts b)) = Closed"
  using assms fail_calls_frame(1,2) [where ts = ts and b = b] fail_calls_frame(3) [where ts = ts and b = b]
  by (auto simp: circuit_state_def record_failure_def record_success_def Let_def)

text \<open>A late failure of a call admitted before the circuit opened clears the probing mark.\<close>

definition two_probes :: client where
  "two_probes = \<lparr>cl_breaker = \<lparr>br_threshold = 1, br_open_seconds = 10, br_failures = 2, br_open_until = 20,
     br_probing = True\<rparr>, cl_in_flight = [(4, True), (3, True)], cl_now = 20\<rparr>"

lemma two_probes_reachable: "reachable 1 10 two_probes"
proof -
  let ?c = "\<lambda>f u p fl t. \<lparr>cl_breaker = \<lparr>br_threshold = 1, br_open_seconds = 10, br_failures = f,
    br_open_until = u, br_probing = p\<rparr>, cl_in_flight = fl, cl_now = t\<rparr>"
  note defs = breaker_defs numeral_2_eq_2
  have "reachable 1 10 (?c 0 0 False [] 0)"
    using reachable.init [of 1 10 0] by (simp add: new_breaker_def)
  from reachable.step [OF this step_acquire [where probe = False and i = 1]]
  have "reachable 1 10 (?c 0 0 False [(1, False)] 0)" by (simp add: defs)
  from reachable.step [OF this step_acquire [where probe = False and i = 2]]
  have "reachable 1 10 (?c 0 0 False [(2, False), (1, False)] 0)" by (simp add: defs)
  from reachable.step [OF this step_failure [where i = 1 and probe = False]]
  have "reachable 1 10 (?c 1 10 False [(2, False)] 0)" by (simp add: defs)
  from reachable.step [OF this step_tick [where t = 10]]
  have "reachable 1 10 (?c 1 10 False [(2, False)] 10)" by simp
  from reachable.step [OF this step_acquire [where probe = True and i = 3]]
  have "reachable 1 10 (?c 1 10 True [(3, True), (2, False)] 10)" by (simp add: defs)
  from reachable.step [OF this step_failure [where i = 2 and probe = False]]
  have "reachable 1 10 (?c 2 20 False [(3, True)] 10)" by (simp add: defs)
  from reachable.step [OF this step_tick [where t = 20]]
  have "reachable 1 10 (?c 2 20 False [(3, True)] 20)" by simp
  from reachable.step [OF this step_acquire [where probe = True and i = 4]]
  have "reachable 1 10 (?c 2 20 True [(4, True), (3, True)] 20)" by (simp add: defs)
  then show ?thesis by (simp add: two_probes_def)
qed

text \<open>Two probes can be in flight. A call admitted while the circuit was closed that fails after a
  probe went out re-opens the period and clears the probing mark, so when the period ends a
  second probe is admitted although the first has no outcome yet.\<close>

lemma second_probe_reachable:
  "reachable 1 10 two_probes \<and> length (filter snd (cl_in_flight two_probes)) = 2"
  using two_probes_reachable by (simp add: two_probes_def)

theorem refusal_is_temporary_witness:
  "\<exists>i. (i, True) \<in> set (cl_in_flight two_probes)"
  using refusal_is_temporary [of 1 10 two_probes "cl_breaker two_probes"] two_probes_reachable
  by (simp add: two_probes_def breaker_defs)

theorem probe_is_alone_witness:
  "acquires [11, 99] (\<lparr>br_threshold = 1, br_open_seconds = 10, br_failures = 1, br_open_until = 10, br_probing = True\<rparr>)
   = [None, None]"
  using probe_is_alone [of 10 "\<lparr>br_threshold = 1, br_open_seconds = 10, br_failures = 1, br_open_until = 10,
      br_probing = False\<rparr>" _ "[11, 99]"]
  by (simp add: breaker_defs)

theorem opens_at_threshold_witness:
  "circuit_state 7 (record_failure 5 (fail_calls [1, 2, 3, 4] (new_breaker 5 10))) = Open"
  using opens_at_threshold [of "new_breaker 5 10" "[1, 2, 3, 4]" 7 5] by (simp add: new_breaker_def)

end
