(* ===== verification/Conversation_Store.thy ===== *)
theory Conversation_Store
  imports Ids
begin

text \<open>
  Conversations (\<open>domain/conversation.py\<close>) and their tables (\<open>SqlThreadRepository\<close>,
  \<open>SqlSessionRepository\<close>, \<open>SqlTurnRepository\<close>, \<open>SqlMessageRepository\<close> and \<open>SqlAgentRunRepository\<close> of
  \<open>adapters/db/repositories.py\<close>).

  A table is the list of its rows. The primary keys are not tenant-prefixed: a row is found by its id
  and then refused when it is another tenant's. An insert that violates a primary key or the
  (thread, sequence) constraint raises the driver's \<open>IntegrityError\<close>, which no repository of these
  tables translates. A metadata dictionary is an association list of strings.
\<close>

subsection \<open>Records\<close>

datatype MessageRole = RO_USER | RO_ASSISTANT | RO_SYSTEM | RO_TOOL | RO_AGENT | RO_EVENT

type_synonym metadata = "(string \<times> string) list"

record Thread =
  th_thread_id :: string
  th_tenant_id :: string
  th_workspace_id :: "string option"
  th_owner_user_id :: "string option"
  th_title :: "string option"
  th_source_system :: "string option"
  th_source_thread_id :: "string option"
  th_system_metadata :: metadata
  th_custom_metadata :: metadata
  th_revision :: nat
  th_created_at :: instant
  th_updated_at :: instant
  th_archived_at :: "instant option"
  th_deleted_at :: "instant option"

record Session =
  se_session_id :: string
  se_thread_id :: string
  se_tenant_id :: string
  se_user_id :: "string option"
  se_client :: "string option"
  se_started_at :: instant
  se_custom_metadata :: metadata

record Turn =
  tu_turn_id :: string
  tu_session_id :: string
  tu_thread_id :: string
  tu_tenant_id :: string
  tu_sequence :: nat
  tu_started_at :: instant
  tu_custom_metadata :: metadata

record MessageToolCall =
  tc_id :: string
  tc_tool :: string
  tc_arguments :: metadata

record Attachment =
  at_attachment_id :: string
  at_message_id :: string
  at_document_id :: "string option"
  at_filename :: string
  at_media_type :: string
  at_size_bytes :: nat
  at_checksum :: string

record Message =
  ms_message_id :: string
  ms_thread_id :: string
  ms_session_id :: string
  ms_turn_id :: string
  ms_tenant_id :: string
  ms_role :: MessageRole
  ms_kind :: MessageKind
  ms_sequence :: nat
  ms_content :: string
  ms_content_hash :: string
  ms_version :: nat
  ms_author_principal :: string
  ms_agent_run_id :: "string option"
  ms_parent_message_id :: "string option"
  ms_attachments :: "Attachment list"
  ms_tool_calls :: "MessageToolCall list"
  ms_tool_call_id :: "string option"
  ms_source_system :: "string option"
  ms_source_message_id :: "string option"
  ms_occurred_at :: instant
  ms_created_at :: instant
  ms_archive_status :: ArchiveStatus
  ms_system_metadata :: metadata
  ms_custom_metadata :: metadata
  ms_deleted_at :: "instant option"

record AgentRun =
  ar_agent_run_id :: string
  ar_tenant_id :: string
  ar_thread_id :: "string option"
  ar_session_id :: "string option"
  ar_turn_id :: "string option"
  ar_work_id :: "string option"
  ar_task_id :: "string option"
  ar_agent_id :: string
  ar_agent_group_id :: "string option"
  ar_parent_agent_run_id :: "string option"
  ar_status :: string
  ar_started_at :: instant
  ar_completed_at :: "instant option"
  ar_run_trace_id :: "string option"
  ar_custom_metadata :: metadata

definition tool_fields_problem :: "MessageRole \<Rightarrow> MessageToolCall list \<Rightarrow> string option \<Rightarrow> bool" where
  "tool_fields_problem role tool_calls tool_call_id \<longleftrightarrow>
     (tool_calls \<noteq> [] \<and> role \<noteq> RO_ASSISTANT) \<or> (tool_call_id \<noteq> None \<and> role \<noteq> RO_TOOL)"

text \<open>A stored message: the columns it shares with \<open>Message\<close> (its attachments are rows of their own,
  its content is the nullable column \<open>mr_content\<close>) and the columns of the archive.\<close>

record MessageRow =
  mr_message :: Message
  mr_content :: "string option"
  mr_content_bytes :: nat
  mr_archived_at :: "instant option"
  mr_archive_segment_id :: "string option"

record conv_db =
  cv_threads :: "Thread list"
  cv_sessions :: "Session list"
  cv_turns :: "Turn list"
  cv_messages :: "MessageRow list"
  cv_attachments :: "Attachment list"
  cv_agent_runs :: "AgentRun list"

definition row_to_message :: "Attachment list \<Rightarrow> MessageRow \<Rightarrow> Message" where
  "row_to_message atts r = (mr_message r)\<lparr>ms_content := or_empty (mr_content r), ms_attachments := atts\<rparr>"

subsection \<open>Threads\<close>

definition threads_row :: "conv_db \<Rightarrow> string \<Rightarrow> Thread option" where
  "threads_row db i = List.find (\<lambda>r. th_thread_id r = i) (cv_threads db)"

definition threads_get :: "conv_db \<Rightarrow> string \<Rightarrow> string \<Rightarrow> Thread option" where
  "threads_get db t i = (case threads_row db i of None \<Rightarrow> None
     | Some r \<Rightarrow> if th_tenant_id r \<noteq> t \<or> th_deleted_at r \<noteq> None then None else Some r)"

definition threads_add :: "Thread \<Rightarrow> conv_db \<Rightarrow> service_error + conv_db" where
  "threads_add r db = (if threads_row db (th_thread_id r) \<noteq> None then Inl IntegrityError
     else Inr (db\<lparr>cv_threads := cv_threads db @ [r]\<rparr>))"

definition threads_any_in_workspace :: "conv_db \<Rightarrow> string \<Rightarrow> string \<Rightarrow> bool" where
  "threads_any_in_workspace db t w \<longleftrightarrow>
     list_ex (\<lambda>r. th_tenant_id r = t \<and> th_workspace_id r = Some w) (cv_threads db)"

definition threads_touch :: "instant \<Rightarrow> string \<Rightarrow> string \<Rightarrow> string option \<Rightarrow> metadata option \<Rightarrow> conv_db \<Rightarrow>
    nat \<times> conv_db" where
  "threads_touch now t i title custom db =
     (let hit = (\<lambda>r. th_thread_id r = i \<and> th_tenant_id r = t);
          upd = (\<lambda>r. r\<lparr>th_revision := th_revision r + 1, th_updated_at := now,
             th_title := (if title = None then th_title r else title),
             th_custom_metadata := (case custom of None \<Rightarrow> th_custom_metadata r | Some m \<Rightarrow> m)\<rparr>);
          rows = map (\<lambda>r. if hit r then upd r else r) (cv_threads db)
      in (case List.find hit rows of None \<Rightarrow> 0 | Some r \<Rightarrow> th_revision r, db\<lparr>cv_threads := rows\<rparr>))"

definition threads_soft_delete :: "instant \<Rightarrow> string \<Rightarrow> string \<Rightarrow> conv_db \<Rightarrow> bool \<times> conv_db" where
  "threads_soft_delete now t i db =
     (let hit = (\<lambda>r. th_thread_id r = i \<and> th_tenant_id r = t \<and> th_deleted_at r = None)
      in (list_ex hit (cv_threads db),
          db\<lparr>cv_threads := map (\<lambda>r. if hit r then r\<lparr>th_deleted_at := Some now, th_revision := th_revision r + 1\<rparr> else r)
               (cv_threads db)\<rparr>))"

definition threads_owned_in :: "conv_db \<Rightarrow> string \<Rightarrow> string \<Rightarrow> string option \<Rightarrow> string list \<Rightarrow> string list" where
  "threads_owned_in db t owner w ids =
     map th_thread_id (filter (\<lambda>r. th_tenant_id r = t \<and> th_thread_id r \<in> set ids \<and> th_owner_user_id r = Some owner \<and>
       th_workspace_id r = w \<and> th_deleted_at r = None) (cv_threads db))"

subsection \<open>Sessions and turns\<close>

definition sessions_get :: "conv_db \<Rightarrow> string \<Rightarrow> string \<Rightarrow> Session option" where
  "sessions_get db t i = (case List.find (\<lambda>r. se_session_id r = i) (cv_sessions db) of None \<Rightarrow> None
     | Some r \<Rightarrow> if se_tenant_id r \<noteq> t then None else Some r)"

definition sessions_add :: "Session \<Rightarrow> conv_db \<Rightarrow> service_error + conv_db" where
  "sessions_add r db = (if list_ex (\<lambda>x. se_session_id x = se_session_id r) (cv_sessions db) then Inl IntegrityError
     else Inr (db\<lparr>cv_sessions := cv_sessions db @ [r]\<rparr>))"

definition turns_get :: "conv_db \<Rightarrow> string \<Rightarrow> string \<Rightarrow> Turn option" where
  "turns_get db t i = (case List.find (\<lambda>r. tu_turn_id r = i) (cv_turns db) of None \<Rightarrow> None
     | Some r \<Rightarrow> if tu_tenant_id r \<noteq> t then None else Some r)"

definition turns_add :: "Turn \<Rightarrow> conv_db \<Rightarrow> service_error + conv_db" where
  "turns_add r db =
     (if list_ex (\<lambda>x. tu_turn_id x = tu_turn_id r \<or> (tu_thread_id x = tu_thread_id r \<and> tu_sequence x = tu_sequence r))
           (cv_turns db) then Inl IntegrityError
      else Inr (db\<lparr>cv_turns := cv_turns db @ [r]\<rparr>))"

text \<open>\<open>coalesce(max(sequence), 0) + 1\<close> over the rows of the thread.\<close>

definition next_of :: "nat list \<Rightarrow> nat" where
  "next_of seqs = Max (insert 0 (set seqs)) + 1"

definition turns_next_sequence :: "conv_db \<Rightarrow> string \<Rightarrow> string \<Rightarrow> nat" where
  "turns_next_sequence db t i =
     next_of (map tu_sequence (filter (\<lambda>r. tu_thread_id r = i \<and> tu_tenant_id r = t) (cv_turns db)))"

definition turns_latest :: "conv_db \<Rightarrow> string \<Rightarrow> string \<Rightarrow> Turn option" where
  "turns_latest db t i =
     (case rev (sort_key tu_sequence (filter (\<lambda>r. tu_thread_id r = i \<and> tu_tenant_id r = t) (cv_turns db))) of
        [] \<Rightarrow> None | r # _ \<Rightarrow> turns_get db t (tu_turn_id r))"

subsection \<open>Messages\<close>

definition messages_next_sequence :: "conv_db \<Rightarrow> string \<Rightarrow> string \<Rightarrow> nat" where
  "messages_next_sequence db t i =
     next_of (map (\<lambda>r. ms_sequence (mr_message r))
       (filter (\<lambda>r. ms_thread_id (mr_message r) = i \<and> ms_tenant_id (mr_message r) = t) (cv_messages db)))"

definition messages_add :: "(string \<Rightarrow> nat) \<Rightarrow> Message \<Rightarrow> conv_db \<Rightarrow> service_error + conv_db" where
  "messages_add utf8_len m db =
     (if list_ex (\<lambda>r. ms_message_id (mr_message r) = ms_message_id m \<or>
           (ms_thread_id (mr_message r) = ms_thread_id m \<and> ms_sequence (mr_message r) = ms_sequence m)) (cv_messages db) \<or>
         list_ex (\<lambda>a. at_attachment_id a \<in> set (map at_attachment_id (ms_attachments m))) (cv_attachments db)
      then Inl IntegrityError
      else Inr (db\<lparr>
        cv_messages := cv_messages db @ [\<lparr>mr_message = m\<lparr>ms_attachments := []\<rparr>, mr_content = Some (ms_content m),
           mr_content_bytes = utf8_len (ms_content m), mr_archived_at = None, mr_archive_segment_id = None\<rparr>],
        cv_attachments := cv_attachments db @ map (\<lambda>a. a\<lparr>at_message_id := ms_message_id m\<rparr>) (ms_attachments m)\<rparr>))"

definition attachments_of :: "conv_db \<Rightarrow> string \<Rightarrow> Attachment list" where
  "attachments_of db i = filter (\<lambda>a. at_message_id a = i) (cv_attachments db)"

definition with_attachments :: "conv_db \<Rightarrow> MessageRow \<Rightarrow> Message" where
  "with_attachments db r = row_to_message (attachments_of db (ms_message_id (mr_message r))) r"

definition messages_get :: "conv_db \<Rightarrow> string \<Rightarrow> string \<Rightarrow> Message option" where
  "messages_get db t i = (case List.find (\<lambda>r. ms_message_id (mr_message r) = i) (cv_messages db) of None \<Rightarrow> None
     | Some r \<Rightarrow> if ms_tenant_id (mr_message r) \<noteq> t \<or> ms_deleted_at (mr_message r) \<noteq> None then None
                else Some (with_attachments db r))"

text \<open>The newest \<open>lim\<close> rows a query selects, oldest first.\<close>

definition oldest_first :: "nat \<Rightarrow> (MessageRow \<Rightarrow> bool) \<Rightarrow> conv_db \<Rightarrow> MessageRow list" where
  "oldest_first lim P db =
     rev (take lim (rev (sort_key (\<lambda>r. ms_sequence (mr_message r)) (filter P (cv_messages db)))))"

definition in_thread :: "string \<Rightarrow> string \<Rightarrow> MessageRow \<Rightarrow> bool" where
  "in_thread t i r \<longleftrightarrow> ms_tenant_id (mr_message r) = t \<and> ms_thread_id (mr_message r) = i \<and>
     ms_deleted_at (mr_message r) = None"

definition list_thread :: "conv_db \<Rightarrow> string \<Rightarrow> string \<Rightarrow> nat \<Rightarrow> nat option \<Rightarrow> bool \<Rightarrow> Message list" where
  "list_thread db t i lim before include_internal =
     map (with_attachments db) (oldest_first lim (\<lambda>r. in_thread t i r \<and>
         (\<not> include_internal \<longrightarrow> ms_kind (mr_message r) = VISIBLE) \<and>
         (case before of None \<Rightarrow> True | Some s \<Rightarrow> ms_sequence (mr_message r) < s)) db)"

text \<open>Where the newest \<open>turns\<close> questions start (0 when the thread has fewer).\<close>

definition window_start :: "conv_db \<Rightarrow> string \<Rightarrow> string \<Rightarrow> nat \<Rightarrow> nat" where
  "window_start db t i turns =
     (let newest = rev (sort (map (\<lambda>r. ms_sequence (mr_message r))
            (filter (\<lambda>r. in_thread t i r \<and> ms_role (mr_message r) = RO_USER \<and> ms_kind (mr_message r) = VISIBLE)
              (cv_messages db))))
      in case drop (max turns 1 - 1) newest of [] \<Rightarrow> 0 | s # _ \<Rightarrow> s)"

definition list_window :: "conv_db \<Rightarrow> string \<Rightarrow> string \<Rightarrow> nat \<Rightarrow> nat \<Rightarrow> Message list" where
  "list_window db t i turns lim =
     map (with_attachments db) (oldest_first lim (\<lambda>r. in_thread t i r \<and>
         ms_sequence (mr_message r) \<ge> window_start db t i turns \<and>
         (ms_kind (mr_message r) = VISIBLE \<or>
          ms_role (mr_message r) = RO_TOOL \<and> ms_tool_call_id (mr_message r) \<noteq> None)) db)"

definition list_after :: "conv_db \<Rightarrow> string \<Rightarrow> string \<Rightarrow> nat \<Rightarrow> nat \<Rightarrow> Message list" where
  "list_after db t i after lim =
     map (row_to_message []) (take lim (sort_key (\<lambda>r. ms_sequence (mr_message r))
       (filter (\<lambda>r. in_thread t i r \<and> ms_kind (mr_message r) = VISIBLE \<and> ms_sequence (mr_message r) > after)
         (cv_messages db))))"

definition find_by_source :: "conv_db \<Rightarrow> string \<Rightarrow> string \<Rightarrow> string \<Rightarrow> Message option" where
  "find_by_source db t source_system source_message_id =
     map_option (row_to_message []) (List.find (\<lambda>r. ms_tenant_id (mr_message r) = t \<and>
       ms_source_system (mr_message r) = Some source_system \<and>
       ms_source_message_id (mr_message r) = Some source_message_id) (cv_messages db))"

subsection \<open>Agent runs\<close>

definition runs_get :: "conv_db \<Rightarrow> string \<Rightarrow> string \<Rightarrow> AgentRun option" where
  "runs_get db t i = (case List.find (\<lambda>r. ar_agent_run_id r = i) (cv_agent_runs db) of None \<Rightarrow> None
     | Some r \<Rightarrow> if ar_tenant_id r \<noteq> t then None else Some r)"

definition runs_add :: "AgentRun \<Rightarrow> conv_db \<Rightarrow> service_error + conv_db" where
  "runs_add r db = (if list_ex (\<lambda>x. ar_agent_run_id x = ar_agent_run_id r) (cv_agent_runs db) then Inl IntegrityError
     else Inr (db\<lparr>cv_agent_runs := cv_agent_runs db @ [r]\<rparr>))"

definition runs_complete :: "instant \<Rightarrow> string \<Rightarrow> string \<Rightarrow> string \<Rightarrow> conv_db \<Rightarrow> conv_db" where
  "runs_complete now t i status db =
     db\<lparr>cv_agent_runs := map (\<lambda>r. if ar_agent_run_id r = i \<and> ar_tenant_id r = t
          then r\<lparr>ar_status := status, ar_completed_at := Some now\<rparr> else r) (cv_agent_runs db)\<rparr>"

end
