(* ===== verification/Hot_Thread.thy ===== *)
theory Hot_Thread
  imports Conversation_Store Cache
begin

text \<open>
  The hot thread cache (\<open>modules/working_memory/hot_thread.py\<close>): the newest visible messages of a thread
  in a bounded list, and the thread revision the list is current for. A cache value is what its bytes
  decode to: a revision, or a message without its attachments and system metadata (\<open>_dump\<close>
  leaves both out).
\<close>

datatype hot_value = HV_Revision nat | HV_Message Message

record hot_thread =
  ht_cache :: "hot_value cache option"
  ht_max_messages :: nat
  ht_ttl :: nat

definition hot_key :: "string \<Rightarrow> string \<Rightarrow> string" where
  "hot_key t i = ''hot:thread:'' @ t @ '':'' @ i"

definition hot_rev_key :: "string \<Rightarrow> string \<Rightarrow> string" where
  "hot_rev_key t i = hot_key t i @ '':rev''"

definition dump :: "Message \<Rightarrow> hot_value" where
  "dump m = HV_Message (m\<lparr>ms_attachments := [], ms_system_metadata := []\<rparr>)"

definition hot_append :: "instant \<Rightarrow> Message \<Rightarrow> nat \<Rightarrow> hot_thread \<Rightarrow> hot_thread" where
  "hot_append now m revision h =
     (case ht_cache h of None \<Rightarrow> h
      | Some c \<Rightarrow>
          (case (if ms_kind m = VISIBLE
                 then c_list_push now (hot_key (ms_tenant_id m) (ms_thread_id m)) [dump m]
                        (Some (ht_max_messages h)) (Some (ht_ttl h)) c
                 else (Inr 0, c)) of
             (Inl _, c1) \<Rightarrow> h\<lparr>ht_cache := Some c1\<rparr>
           | (Inr _, c1) \<Rightarrow>
               h\<lparr>ht_cache := Some (snd (c_set now (hot_rev_key (ms_tenant_id m) (ms_thread_id m))
                    (HV_Revision revision) (Some (ht_ttl h)) c1))\<rparr>))"

fun push_all :: "instant \<Rightarrow> string \<Rightarrow> hot_value list \<Rightarrow> nat \<Rightarrow> nat \<Rightarrow> hot_value cache \<Rightarrow>
    (service_error + unit) \<times> hot_value cache" where
  "push_all now key [] max_len ttl c = (Inr (), c)"
| "push_all now key (v # vs) max_len ttl c =
     (case c_list_push now key [v] (Some max_len) (Some ttl) c of
        (Inl e, c1) \<Rightarrow> (Inl e, c1) | (Inr _, c1) \<Rightarrow> push_all now key vs max_len ttl c1)"

definition visible_tail :: "nat \<Rightarrow> Message list \<Rightarrow> Message list" where
  "visible_tail n ms = py_slice (- int n) (int (length (filter (\<lambda>m. ms_kind m = VISIBLE) ms)))
     (filter (\<lambda>m. ms_kind m = VISIBLE) ms)"

definition hot_refill :: "instant \<Rightarrow> string \<Rightarrow> string \<Rightarrow> Message list \<Rightarrow> nat \<Rightarrow> hot_thread \<Rightarrow> hot_thread" where
  "hot_refill now t i ms revision h =
     (case ht_cache h of None \<Rightarrow> h
      | Some c \<Rightarrow>
          if ms = [] then h
          else (case c_delete [hot_key t i] c of
             (Inl _, c1) \<Rightarrow> h\<lparr>ht_cache := Some c1\<rparr>
           | (Inr _, c1) \<Rightarrow>
               (case push_all now (hot_key t i) (map dump (visible_tail (ht_max_messages h) ms))
                       (ht_max_messages h) (ht_ttl h) c1 of
                  (Inl _, c2) \<Rightarrow> h\<lparr>ht_cache := Some c2\<rparr>
                | (Inr _, c2) \<Rightarrow>
                    h\<lparr>ht_cache := Some (snd (c_set now (hot_rev_key t i) (HV_Revision revision) (Some (ht_ttl h)) c2))\<rparr>)))"

text \<open>\<open>int(stored)\<close> raises on bytes that are no number, and \<open>model_validate_json\<close> on bytes that are no
  message; only the revision key holds revisions and only the list key messages.\<close>

fun as_message :: "hot_value \<Rightarrow> service_error + Message" where
  "as_message (HV_Message m) = Inr m"
| "as_message (HV_Revision _) = Inl ValueError"

fun as_messages :: "hot_value list \<Rightarrow> service_error + Message list" where
  "as_messages [] = Inr []"
| "as_messages (v # vs) = rbind (as_message v) (\<lambda>m. rbind (as_messages vs) (\<lambda>ms. Inr (m # ms)))"

definition contiguous :: "nat list \<Rightarrow> bool" where
  "contiguous seqs \<longleftrightarrow> seqs = [hd seqs ..< hd seqs + length seqs]"

definition usable_list :: "nat \<Rightarrow> Message list \<Rightarrow> Message list option" where
  "usable_list lim ms =
     (let seqs = map ms_sequence ms in
      if \<not> contiguous seqs then None
      else if length ms < lim \<and> hd seqs \<noteq> 1 then None
      else Some ms)"

definition hot_range :: "instant \<Rightarrow> string \<Rightarrow> string \<Rightarrow> nat \<Rightarrow> hot_value cache \<Rightarrow>
    (service_error + Message list option) \<times> hot_value cache" where
  "hot_range now t i lim c =
     (case c_list_range now (hot_key t i) (- int lim) (-1) c of
        (Inl _, c') \<Rightarrow> (Inr None, c')
      | (Inr raw, c') \<Rightarrow>
          (if raw = [] then Inr None else rbind (as_messages raw) (\<lambda>ms. Inr (usable_list lim ms)), c'))"

definition hot_recent :: "instant \<Rightarrow> string \<Rightarrow> string \<Rightarrow> nat \<Rightarrow> nat option \<Rightarrow> hot_thread \<Rightarrow>
    (service_error + Message list option) \<times> hot_thread" where
  "hot_recent now t i lim revision h =
     (case ht_cache h of None \<Rightarrow> (Inr None, h)
      | Some c \<Rightarrow>
          (case (case revision of None \<Rightarrow> (Inr (Inr True), c)
                 | Some r \<Rightarrow>
                     (case c_get now (hot_rev_key t i) c of
                        (Inl e, c1) \<Rightarrow> (Inl e, c1)
                      | (Inr stored, c1) \<Rightarrow>
                          (Inr (case stored of None \<Rightarrow> Inr False
                             | Some (HV_Revision s) \<Rightarrow> Inr (s = r) | Some (HV_Message _) \<Rightarrow> Inl ValueError), c1))) of
             (Inl _, c1) \<Rightarrow> (Inr None, h\<lparr>ht_cache := Some c1\<rparr>)
           | (Inr (Inl e), c1) \<Rightarrow> (Inl e, h\<lparr>ht_cache := Some c1\<rparr>)
           | (Inr (Inr False), c1) \<Rightarrow> (Inr None, h\<lparr>ht_cache := Some c1\<rparr>)
           | (Inr (Inr True), c1) \<Rightarrow>
               (case hot_range now t i lim c1 of (r, c2) \<Rightarrow> (r, h\<lparr>ht_cache := Some c2\<rparr>))))"

definition hot_invalidate :: "string \<Rightarrow> string \<Rightarrow> hot_thread \<Rightarrow> hot_thread" where
  "hot_invalidate t i h =
     (case ht_cache h of None \<Rightarrow> h
      | Some c \<Rightarrow>
          (case c_delete [hot_key t i] c of
             (Inl _, c1) \<Rightarrow> h\<lparr>ht_cache := Some c1\<rparr>
           | (Inr _, c1) \<Rightarrow> h\<lparr>ht_cache := Some (snd (c_delete [hot_rev_key t i] c1))\<rparr>))"

subsection \<open>A thread and its cache\<close>

text \<open>The thread's messages in the order of their sequence, the thread's revision and the cache. A read is
  what \<open>list_messages\<close> does for the newest messages: the cache's answer, or the store's, which refills
  the cache.\<close>

record hot_world =
  hw_tenant :: string
  hw_thread :: string
  hw_messages :: "Message list"
  hw_revision :: nat
  hw_hot :: hot_thread

definition newest :: "nat \<Rightarrow> Message list \<Rightarrow> Message list" where
  "newest lim ms = (let vs = filter (\<lambda>m. ms_kind m = VISIBLE) ms in drop (length vs - lim) vs)"

definition hot_read :: "instant \<Rightarrow> nat \<Rightarrow> hot_world \<Rightarrow> (service_error + Message list) \<times> hot_world" where
  "hot_read now lim w =
     (case hot_recent now (hw_tenant w) (hw_thread w) lim (Some (hw_revision w)) (hw_hot w) of
        (Inl e, h) \<Rightarrow> (Inl e, w\<lparr>hw_hot := h\<rparr>)
      | (Inr (Some ms), h) \<Rightarrow> (Inr ms, w\<lparr>hw_hot := h\<rparr>)
      | (Inr None, h) \<Rightarrow>
          (let ms = newest lim (hw_messages w) in
           (Inr ms, w\<lparr>hw_hot := hot_refill now (hw_tenant w) (hw_thread w) ms (hw_revision w) h\<rparr>)))"

definition set_available :: "bool \<Rightarrow> hot_thread \<Rightarrow> hot_thread" where
  "set_available b h = h\<lparr>ht_cache := map_option (\<lambda>c. c\<lparr>c_available := b\<rparr>) (ht_cache h)\<rparr>"

datatype hot_event = HE_Append instant Message | HE_Touch | HE_Read instant nat | HE_Cache bool

fun hot_step :: "hot_event \<Rightarrow> hot_world \<Rightarrow> hot_world" where
  "hot_step (HE_Append now m) w =
     (let m' = m\<lparr>ms_tenant_id := hw_tenant w, ms_thread_id := hw_thread w, ms_sequence := length (hw_messages w) + 1\<rparr>
      in w\<lparr>hw_messages := hw_messages w @ [m'], hw_revision := hw_revision w + 1,
           hw_hot := hot_append now m' (hw_revision w + 1) (hw_hot w)\<rparr>)"
| "hot_step HE_Touch w = w\<lparr>hw_revision := hw_revision w + 1\<rparr>"
| "hot_step (HE_Read now lim) w = snd (hot_read now lim w)"
| "hot_step (HE_Cache b) w = w\<lparr>hw_hot := set_available b (hw_hot w)\<rparr>"

text \<open>Whether an internal message is ever appended, with the cache up, after a visible one the cache missed
  and before the next visible one or read: \<open>up\<close> is the cache's availability and \<open>missed\<close> whether
  the newest visible message is not in the list.\<close>

fun no_gap_hidden :: "bool \<Rightarrow> bool \<Rightarrow> hot_event list \<Rightarrow> bool" where
  "no_gap_hidden up missed [] = True"
| "no_gap_hidden up missed (HE_Append now m # es) =
     (if ms_kind m = VISIBLE then no_gap_hidden up (\<not> up) es
      else \<not> (up \<and> missed) \<and> no_gap_hidden up missed es)"
| "no_gap_hidden up missed (HE_Touch # es) = no_gap_hidden up missed es"
| "no_gap_hidden up missed (HE_Read now lim # es) = (lim > 0 \<and> no_gap_hidden up (if up then False else missed) es)"
| "no_gap_hidden up missed (HE_Cache b # es) = no_gap_hidden b missed es"

subsection \<open>What the cache holds\<close>

definition strip_message :: "Message \<Rightarrow> Message" where
  "strip_message m = m\<lparr>ms_attachments := [], ms_system_metadata := []\<rparr>"

lemma strip_message_fields [simp]:
  "ms_sequence (strip_message m) = ms_sequence m" "ms_kind (strip_message m) = ms_kind m"
  by (simp_all add: strip_message_def)

lemma dump_strip: "dump m = HV_Message (strip_message m)"
  by (simp add: dump_def strip_message_def)

abbreviation visible_of :: "Message list \<Rightarrow> Message list" where
  "visible_of ms \<equiv> filter (\<lambda>m. ms_kind m = VISIBLE) ms"

text \<open>The list ends with the newest visible message.\<close>

definition list_current :: "hot_world \<Rightarrow> hot_value cache \<Rightarrow> bool" where
  "list_current w c \<longleftrightarrow> (\<forall>items e. c_lists c (hot_key (hw_tenant w) (hw_thread w)) = Some (items, e) \<longrightarrow>
     visible_of (hw_messages w) \<noteq> [] \<and> last items = dump (last (visible_of (hw_messages w))))"

definition list_from_store :: "hot_world \<Rightarrow> hot_value cache \<Rightarrow> bool" where
  "list_from_store w c \<longleftrightarrow> (\<forall>items e. c_lists c (hot_key (hw_tenant w) (hw_thread w)) = Some (items, e) \<longrightarrow>
     items \<noteq> [] \<and> set items \<subseteq> dump ` set (visible_of (hw_messages w)))"

definition rev_known :: "hot_world \<Rightarrow> hot_value cache \<Rightarrow> bool" where
  "rev_known w c \<longleftrightarrow> (\<forall>v e. c_data c (hot_rev_key (hw_tenant w) (hw_thread w)) = Some (v, e) \<longrightarrow>
     (\<exists>s. v = HV_Revision s \<and> s \<le> hw_revision w))"

definition rev_current :: "hot_world \<Rightarrow> hot_value cache \<Rightarrow> bool" where
  "rev_current w c \<longleftrightarrow>
     (\<exists>e. c_data c (hot_rev_key (hw_tenant w) (hw_thread w)) = Some (HV_Revision (hw_revision w), e))"

definition numbered :: "Message list \<Rightarrow> bool" where
  "numbered ms \<longleftrightarrow> map ms_sequence ms = [1 ..< length ms + 1]"

definition hot_inv :: "bool \<Rightarrow> bool \<Rightarrow> hot_world \<Rightarrow> bool" where
  "hot_inv up missed w \<longleftrightarrow> numbered (hw_messages w) \<and>
     (\<forall>c. ht_cache (hw_hot w) = Some c \<longrightarrow> c_available c = up \<and> list_from_store w c \<and> rev_known w c \<and>
        (rev_current w c \<or> \<not> missed \<longrightarrow> list_current w c))"

lemma numbered_snoc: "numbered ms \<Longrightarrow> ms_sequence m = length ms + 1 \<Longrightarrow> numbered (ms @ [m])"
  by (simp add: numbered_def)

lemma last_keep_last: "xs \<noteq> [] \<Longrightarrow> keep_last m xs \<noteq> [] \<and> last (keep_last m xs) = last xs"
  by (cases xs) (auto simp: keep_last_def last_drop split: option.split)

lemma set_keep_last: "set (keep_last m xs) \<subseteq> set xs"
  by (auto simp: keep_last_def split: option.splits dest: in_set_dropD)

lemma hot_keys_differ [simp]: "hot_rev_key t i \<noteq> hot_key t i" "hot_key t i \<noteq> hot_rev_key t i"
  by (simp_all add: hot_rev_key_def)

text \<open>A read only drops expired entries.\<close>

definition shrinks :: "'v cache \<Rightarrow> 'v cache \<Rightarrow> bool" where
  "shrinks c c' \<longleftrightarrow> c_available c' = c_available c \<and> (\<forall>k. c_data c' k = None \<or> c_data c' k = c_data c k) \<and>
     (\<forall>k. c_lists c' k = None \<or> c_lists c' k = c_lists c k)"

lemma shrinks_trans: "shrinks a b \<Longrightarrow> shrinks b c \<Longrightarrow> shrinks a c"
  unfolding shrinks_def by metis

lemma shrinks_reads:
  "shrinks c (snd (c_get now k c))" "shrinks c (snd (c_list_range now k a b c))"
  by (auto simp: shrinks_def cache_defs c_list_range_def split: option.split)

lemma shrinks_keeps:
  assumes "shrinks c c'"
  shows "list_current w c \<Longrightarrow> list_current w c'" and "list_from_store w c \<Longrightarrow> list_from_store w c'"
    and "rev_known w c \<Longrightarrow> rev_known w c'" and "rev_current w c' \<Longrightarrow> rev_current w c"
  using assms unfolding shrinks_def list_current_def list_from_store_def rev_known_def rev_current_def
  by (metis option.distinct(1))+

lemma hot_range_shrinks: "shrinks c (snd (hot_range now t i lim c))"
  using shrinks_reads(2) [of c now "hot_key t i" "- int lim" "-1"]
  by (auto simp: hot_range_def split: prod.split sum.split)

lemma hot_recent_shrinks:
  assumes "ht_cache h = Some c"
  shows "\<exists>c'. snd (hot_recent now t i lim (Some r) h) = h\<lparr>ht_cache := Some c'\<rparr> \<and> shrinks c c'"
proof -
  obtain g c1 where g: "c_get now (hot_rev_key t i) c = (g, c1)" by fastforce
  have c1: "shrinks c c1" using shrinks_reads(1) [of c now "hot_rev_key t i"] g by simp
  obtain q c2 where q: "hot_range now t i lim c1 = (q, c2)" by fastforce
  have c2: "shrinks c c2" using c1 hot_range_shrinks [of c1 now t i lim] q shrinks_trans by fastforce
  show ?thesis
  proof (cases g)
    case (Inl e)
    then show ?thesis using g c1 assms by (auto simp: hot_recent_def)
  next
    case (Inr stored)
    consider "stored = None" | s where "stored = Some (HV_Revision s)" | m where "stored = Some (HV_Message m)"
      by (metis hot_value.exhaust not_None_eq)
    then show ?thesis
      using Inr g q c1 c2 assms by cases (auto simp: hot_recent_def split: bool.split)
  qed
qed

text \<open>What a read answers when the cache is up and holds what the invariant says.\<close>

definition live_list :: "'v cache \<Rightarrow> instant \<Rightarrow> string \<Rightarrow> 'v list" where
  "live_list c now k = (case c_lists c k of None \<Rightarrow> [] | Some (xs, e) \<Rightarrow> if expired now e then [] else xs)"

lemma py_slice_tail: "py_slice (- int n) (int (length xs)) xs = (if n = 0 then xs else drop (length xs - n) xs)"
  by (auto simp: py_slice_def py_index_def max_def intro: arg_cong [where f = "\<lambda>k. drop k xs"])

lemma list_range_live:
  "c_available c \<Longrightarrow> fst (c_list_range now k (- int n) (-1) c) =
     Inr (if n = 0 then live_list c now k else drop (length (live_list c now k) - n) (live_list c now k))"
  by (auto simp: c_list_range_def guarded_def c_check_def live_list_def py_slice_tail [of 0, simplified] py_slice_tail split: option.split)

lemma as_messages_dump: "as_messages (map dump ms) = Inr (map strip_message ms)"
  by (induction ms) (simp_all add: dump_strip)

lemma drop_tail_ne: "n > 0 \<Longrightarrow> xs \<noteq> [] \<Longrightarrow> \<not> length xs \<le> length xs - n"
  by (cases xs) auto

lemma hot_recent_down:
  assumes "ht_cache h = Some c" and "\<not> c_available c"
  shows "fst (hot_recent now t i lim (Some r) h) = Inr None"
  using assms by (simp add: hot_recent_def c_get_def guarded_def c_check_def)

lemma hot_recent_up:
  assumes "ht_cache h = Some c" and "c_available c" and "c_look c now (hot_rev_key t i) = Some (HV_Revision s)"
    and "live_list c now (hot_key t i) = map dump ms" and "lim > 0"
  shows "fst (hot_recent now t i lim (Some r) h) =
    Inr (if s = r \<and> ms \<noteq> [] then usable_list lim (map strip_message (drop (length ms - lim) ms)) else None)"
proof -
  obtain c1 where g: "c_get now (hot_rev_key t i) c = (Inr (Some (HV_Revision s)), c1)"
    using c_get_look [OF assms(2), of now "hot_rev_key t i"] assms(3) by (cases "c_get now (hot_rev_key t i) c") auto
  have c1: "c_lists c1 = c_lists c" "c_available c1"
    using g assms(2) by (auto simp: cache_defs split: option.splits if_splits)
  have "fst (c_list_range now (hot_key t i) (- int lim) (-1) c1) = Inr (map dump (drop (length ms - lim) ms))"
    using list_range_live [OF c1(2), of now "hot_key t i" lim] assms(4,5) c1(1) by (simp add: live_list_def drop_map)
  then have "fst (hot_range now t i lim c1) =
      Inr (if ms \<noteq> [] then usable_list lim (map strip_message (drop (length ms - lim) ms)) else None)"
    using drop_tail_ne [OF assms(5), of ms] by (auto simp: hot_range_def as_messages_dump split: prod.split sum.split)
  then show ?thesis using assms(1) g by (auto simp: hot_recent_def split: bool.split prod.split)
qed

lemma hot_recent_miss:
  assumes "ht_cache h = Some c" and "c_available c" and "c_look c now (hot_rev_key t i) = None"
  shows "fst (hot_recent now t i lim (Some r) h) = Inr None"
proof -
  obtain c1 where g: "c_get now (hot_rev_key t i) c = (Inr None, c1)"
    using c_get_look [OF assms(2), of now "hot_rev_key t i"] assms(3) by (cases "c_get now (hot_rev_key t i) c") auto
  then show ?thesis using assms(1) by (simp add: hot_recent_def)
qed

subsection \<open>A usable list is the newest messages\<close>

lemma filter_ge_suffix:
  fixes f :: "'a \<Rightarrow> nat"
  assumes "sorted (map f v)"
  shows "filter (\<lambda>x. c \<le> f x) v = drop (length v - length (filter (\<lambda>x. c \<le> f x) v)) v"
  using assms
proof (induction v)
  case (Cons x v)
  show ?case
  proof (cases "c \<le> f x")
    case True
    then have "filter (\<lambda>x. c \<le> f x) v = v" using Cons.prems by (auto intro!: filter_True)
    then show ?thesis using True by simp
  next
    case False
    have "length (filter (\<lambda>x. c \<le> f x) v) \<le> length v" by simp
    then show ?thesis using False Cons by (simp add: Suc_diff_le)
  qed
qed simp

lemma numbered_sorted:
  assumes "numbered ms"
  shows "sorted (map ms_sequence ms)" and "distinct (map ms_sequence ms)"
  using assms unfolding numbered_def by (simp_all only: sorted_upt distinct_upt)

lemma numbered_visible:
  assumes "numbered ms"
  shows "sorted (map ms_sequence (visible_of ms))" and "distinct (map ms_sequence (visible_of ms))"
    and "inj_on ms_sequence (set ms)" and "m \<in> set ms \<Longrightarrow> 1 \<le> ms_sequence m"
proof -
  show "sorted (map ms_sequence (visible_of ms))" using numbered_sorted(1) [OF assms] by (rule sorted_filter)
  show "distinct (map ms_sequence (visible_of ms))" using numbered_sorted(2) [OF assms] by (rule distinct_map_filter)
  show "inj_on ms_sequence (set ms)" using numbered_sorted(2) [OF assms] by (simp add: distinct_map)
  show "1 \<le> ms_sequence m" if "m \<in> set ms"
    using assms that unfolding numbered_def by (metis atLeastLessThan_iff image_eqI image_set set_upt)
qed

lemma contiguous_tail:
  assumes num: "numbered ms" and sub: "set ys \<subseteq> set (visible_of ms)" and ne: "ys \<noteq> []"
    and last: "last ys = last (visible_of ms)" and cont: "contiguous (map ms_sequence ys)"
  shows "ys = filter (\<lambda>m. ms_sequence (hd ys) \<le> ms_sequence m) (visible_of ms)" (is "_ = ?w")
proof -
  let ?f = ms_sequence and ?a = "ms_sequence (hd ys)"
  have seqs: "map ?f ys = [?a ..< ?a + length ys]" using cont ne by (simp add: contiguous_def hd_map)
  have f_last: "?f (last ys) = ?a + length ys - 1"
    using arg_cong [OF seqs, of last] ne by (simp add: last_map)
  have bound: "?f m \<le> ?f (last ys)" if mem: "m \<in> set (visible_of ms)" for m
  proof -
    have "visible_of ms \<noteq> []" using mem by (metis list.set(1) empty_iff)
    then have "sorted (map ?f (butlast (visible_of ms) @ [last (visible_of ms)]))"
      using numbered_visible(1) [OF num] by (metis append_butlast_last_id)
    moreover have "m \<in> set (butlast (visible_of ms) @ [last (visible_of ms)])"
      using mem \<open>visible_of ms \<noteq> []\<close> by (metis append_butlast_last_id)
    ultimately show ?thesis unfolding last by (auto simp: sorted_append)
  qed
  have "set ?w \<subseteq> set ys"
  proof
    fix m assume m: "m \<in> set ?w"
    then have "?f m \<in> set (map ?f ys)" using bound [of m] f_last ne unfolding seqs by (cases ys) auto
    then obtain y where "y \<in> set ys" "?f y = ?f m" by auto
    then show "m \<in> set ys" using m sub numbered_visible(3) [OF num] by (auto dest: inj_onD)
  qed
  moreover have "set ys \<subseteq> set ?w"
  proof
    fix m assume m: "m \<in> set ys"
    then have "?f m \<in> set (map ?f ys)" by simp
    then show "m \<in> set ?w" using m sub unfolding seqs by auto
  qed
  moreover have "sorted (map ?f ys)" "distinct (map ?f ys)" unfolding seqs by simp_all
  moreover have "sorted (map ?f ?w)" "distinct (map ?f ?w)"
    using numbered_visible(1,2) [OF num] by (simp_all only: sorted_filter distinct_map_filter)
  moreover have "inj_on ?f (set ys \<union> set ?w)"
    using numbered_visible(3) [OF num] sub by (auto intro: inj_on_subset)
  ultimately show ?thesis by (intro map_sorted_distinct_set_unique [of ?f]) auto
qed

lemma usable_tail_is_newest:
  assumes num: "numbered ms" and sub: "set xs \<subseteq> set (visible_of ms)" and ne: "xs \<noteq> []" and lim: "lim > 0"
    and last: "last xs = last (visible_of ms)"
    and ok: "usable_list lim (map strip_message (drop (length xs - lim) xs)) = Some rs"
  shows "rs = map strip_message (newest lim ms)"
proof -
  define ys where "ys = drop (length xs - lim) xs"
  have seqs: "map ms_sequence (map strip_message ys) = map ms_sequence ys" by simp
  have ys: "ys \<noteq> []" "last ys = last xs" "set ys \<subseteq> set xs" "length ys \<le> lim"
    using drop_tail_ne [OF lim ne] ne by (auto simp: ys_def last_drop dest: in_set_dropD)
  have cont: "contiguous (map ms_sequence ys)" and first: "length ys < lim \<Longrightarrow> ms_sequence (hd ys) = 1"
    and rs: "rs = map strip_message ys"
    using ok ys(1) unfolding usable_list_def Let_def ys_def [symmetric] seqs
    by (auto split: if_splits simp: hd_map)
  have w: "ys = filter (\<lambda>m. ms_sequence (hd ys) \<le> ms_sequence m) (visible_of ms)"
    using contiguous_tail [OF num _ ys(1) _ cont] ys sub last by auto
  have "ys = newest lim ms"
  proof (cases "length ys = lim")
    case True
    then show ?thesis
      using w filter_ge_suffix [OF numbered_visible(1) [OF num], of "ms_sequence (hd ys)"]
      by (simp add: newest_def Let_def)
  next
    case False
    then have "ms_sequence (hd ys) = 1" using first ys(4) by simp
    then have "ys = visible_of ms" using w numbered_visible(4) [OF num] by (metis (no_types, lifting) filter_True filter_is_subset subsetD)
    then show ?thesis using ys(4) by (simp add: newest_def Let_def)
  qed
  then show ?thesis using rs by simp
qed

subsection \<open>Every event keeps the invariant\<close>

lemma hot_push_lists:
  assumes "c_available c"
  shows "c_list_push now k [v] n ttl c = (r, c') \<Longrightarrow> \<exists>j. r = Inr j"
    and "c_list_push now k [v] n ttl c = (r, c') \<Longrightarrow> c_available c' \<and> c_data c' = c_data c \<and>
      c_lists c' = (c_lists c)(k \<mapsto> (keep_last n ((case c_lists c k of None \<Rightarrow> [] | Some (xs, _) \<Rightarrow> xs) @ [v]), expiry now ttl))"
  using assms by (auto simp: c_list_push_def guarded_def c_check_def Let_def)

lemma hot_set_data:
  assumes "c_available c"
  shows "c_available (snd (c_set now k v ttl c))" "c_lists (snd (c_set now k v ttl c)) = c_lists c"
    "c_data (snd (c_set now k v ttl c)) = (c_data c)(k \<mapsto> (v, expiry now ttl))"
  using assms by (simp_all add: c_set_def guarded_def c_check_def store_def)

lemma hot_append_down:
  assumes "ht_cache h = Some c" and "\<not> c_available c"
  shows "\<exists>n. hot_append now m r h = h\<lparr>ht_cache := Some (c\<lparr>c_ops := n\<rparr>)\<rparr>"
  using assms by (auto simp: hot_append_def c_list_push_def c_set_def guarded_def c_check_def)

lemma hot_append_up:
  assumes "ht_cache h = Some c" and "c_available c"
  shows "\<exists>c'. hot_append now m r h = h\<lparr>ht_cache := Some c'\<rparr> \<and> c_available c' \<and>
    c_data c' = (c_data c)(hot_rev_key (ms_tenant_id m) (ms_thread_id m) \<mapsto> (HV_Revision r, expiry now (Some (ht_ttl h)))) \<and>
    c_lists c' = (if ms_kind m = VISIBLE
      then (c_lists c)(hot_key (ms_tenant_id m) (ms_thread_id m) \<mapsto>
        (keep_last (Some (ht_max_messages h)) ((case c_lists c (hot_key (ms_tenant_id m) (ms_thread_id m)) of
            None \<Rightarrow> [] | Some (xs, _) \<Rightarrow> xs) @ [dump m]), expiry now (Some (ht_ttl h))))
      else c_lists c)"
  using assms
  by (auto simp: hot_append_def c_list_push_def c_set_def guarded_def c_check_def store_def Let_def)

lemma push_all_up:
  assumes "c_available c" and "vs \<noteq> []"
  shows "\<exists>c'. push_all now k vs n ttl c = (Inr (), c') \<and> c_available c' \<and> c_data c' = c_data c \<and>
    (\<exists>items e. c_lists c' = (c_lists c)(k \<mapsto> (items, e)) \<and> items \<noteq> [] \<and> last items = last vs \<and>
       set items \<subseteq> set (case c_lists c k of None \<Rightarrow> [] | Some (xs, _) \<Rightarrow> xs) \<union> set vs)"
  using assms
proof (induction vs arbitrary: c)
  case (Cons v vs)
  obtain r c1 where push: "c_list_push now k [v] (Some n) (Some ttl) c = (r, c1)" by fastforce
  define old where "old = (case c_lists c k of None \<Rightarrow> [] | Some (xs, _) \<Rightarrow> xs)"
  define kept where "kept = keep_last (Some n) (old @ [v])"
  note c1 = hot_push_lists [OF Cons.prems(1) push, folded old_def, folded kept_def]
  have kept: "kept \<noteq> []" "last kept = v" "set kept \<subseteq> set old \<union> {v}"
    using last_keep_last [of "old @ [v]" "Some n"] set_keep_last [of "Some n" "old @ [v]"] by (auto simp: kept_def)
  show ?case
  proof (cases "vs = []")
    case True
    then have "push_all now k (v # vs) n ttl c = (Inr (), c1)" "last kept = last (v # vs)"
      "set kept \<subseteq> set old \<union> set (v # vs)"
      using push c1(1) kept by auto
    then show ?thesis using c1(2) kept(1) unfolding old_def [symmetric] by blast
  next
    case False
    have c1_up: "c_available c1" and list1: "c_lists c1 k = Some (kept, expiry now (Some ttl))" using c1 by auto
    obtain c' items e where c': "push_all now k vs n ttl c1 = (Inr (), c')" "c_available c'" "c_data c' = c_data c1"
      "c_lists c' = (c_lists c1)(k \<mapsto> (items, e))" "items \<noteq> []" "last items = last vs" "set items \<subseteq> set kept \<union> set vs"
      using Cons.IH [OF c1_up False, unfolded list1 option.case prod.case] by blast
    have "push_all now k (v # vs) n ttl c = (Inr (), c')" "last items = last (v # vs)" "c_data c' = c_data c"
      "set items \<subseteq> set old \<union> set (v # vs)" "c_lists c' = (c_lists c)(k \<mapsto> (items, e))"
      using c' push c1 kept(3) False by auto
    then show ?thesis using c'(2,5) unfolding old_def [symmetric] by blast
  qed
qed simp

lemma hot_refill_down:
  assumes "ht_cache h = Some c" and "\<not> c_available c"
  shows "\<exists>n. hot_refill now t i ms r h = h\<lparr>ht_cache := Some (c\<lparr>c_ops := n\<rparr>)\<rparr>"
  using assms by (auto simp: hot_refill_def c_delete_def guarded_def c_check_def intro: exI [of _ "c_ops c"])

lemma delete_list_up:
  assumes "c_available c"
  shows "\<exists>n c'. c_delete [k] c = (Inr n, c') \<and> c_available c' \<and> c_data c' = (c_data c)(k := None) \<and>
    c_lists c' = (c_lists c)(k := None)"
  using assms by (cases "c_data c k"; cases "c_lists c k") (auto simp: c_delete_def guarded_def c_check_def fun_eq_iff)

lemma visible_tail_eq: "visible_tail n ms = (if n = 0 then visible_of ms else drop (length (visible_of ms) - n) (visible_of ms))"
  by (simp add: visible_tail_def py_slice_tail)

lemma visible_tail_props:
  assumes "visible_of ms \<noteq> []"
  shows "visible_tail n ms \<noteq> []" and "last (visible_tail n ms) = last (visible_of ms)"
    and "set (visible_tail n ms) \<subseteq> set (visible_of ms)"
  using assms drop_tail_ne [of n "visible_of ms"]
  by (auto simp: visible_tail_eq last_drop simp del: set_filter dest: in_set_dropD)

lemma hot_refill_up:
  assumes "ht_cache h = Some c" and "c_available c" and vis: "visible_of ms \<noteq> []"
  shows "\<exists>c' items e. hot_refill now t i ms r h = h\<lparr>ht_cache := Some c'\<rparr> \<and> c_available c' \<and>
    (\<exists>e. c_data c' (hot_rev_key t i) = Some (HV_Revision r, e)) \<and> c_lists c' (hot_key t i) = Some (items, e) \<and>
    items \<noteq> [] \<and> last items = dump (last (visible_of ms)) \<and> set items \<subseteq> dump ` set (visible_of ms)"
proof -
  have ne: "ms \<noteq> []" using vis by auto
  obtain n c1 where del: "c_delete [hot_key t i] c = (Inr n, c1)" "c_available c1" "c_lists c1 = (c_lists c)(hot_key t i := None)"
    using delete_list_up [OF assms(2)] by blast
  let ?vs = "map dump (visible_tail (ht_max_messages h) ms)"
  have vs: "?vs \<noteq> []" "last ?vs = dump (last (visible_of ms))" "set ?vs \<subseteq> dump ` set (visible_of ms)"
    using visible_tail_props [OF vis, of "ht_max_messages h"] by (auto simp: last_map simp del: set_filter)
  obtain c2 items e where push: "push_all now (hot_key t i) ?vs (ht_max_messages h) (ht_ttl h) c1 = (Inr (), c2)"
    "c_available c2" "c_lists c2 = (c_lists c1)(hot_key t i \<mapsto> (items, e))" "items \<noteq> []" "last items = last ?vs"
    "set items \<subseteq> set ?vs"
    using push_all_up [OF del(2) vs(1), of now "hot_key t i" "ht_max_messages h" "ht_ttl h",
        unfolded del(3) fun_upd_same option.case list.set(1) Un_empty_left] unfolding del(3) by blast
  define c' where "c' = snd (c_set now (hot_rev_key t i) (HV_Revision r) (Some (ht_ttl h)) c2)"
  have "hot_refill now t i ms r h = h\<lparr>ht_cache := Some c'\<rparr>"
    using assms(1) ne del(1) push(1) by (simp add: hot_refill_def c'_def)
  moreover have "c_available c'" "c_lists c' (hot_key t i) = Some (items, e)"
    "c_data c' (hot_rev_key t i) = Some (HV_Revision r, expiry now (Some (ht_ttl h)))"
    using hot_set_data [OF push(2)] push(3) by (simp_all add: c'_def)
  moreover have "last items = dump (last (visible_of ms))" "set items \<subseteq> dump ` set (visible_of ms)"
    using push(5,6) vs by auto
  ultimately show ?thesis using push(4) by blast
qed

lemma hot_inv_no_cache: "ht_cache (hw_hot w) = None \<Longrightarrow> hot_inv up missed w \<longleftrightarrow> numbered (hw_messages w)"
  by (simp add: hot_inv_def)

lemma hot_inv_cache:
  "ht_cache (hw_hot w) = Some c \<Longrightarrow> hot_inv up missed w \<longleftrightarrow> numbered (hw_messages w) \<and> c_available c = up \<and>
     list_from_store w c \<and> rev_known w c \<and> (rev_current w c \<or> \<not> missed \<longrightarrow> list_current w c)"
  by (simp add: hot_inv_def)

lemmas hot_parts = list_from_store_def rev_known_def rev_current_def list_current_def

lemma append_keeps_inv:
  assumes inv: "hot_inv up missed w" and hidden: "ms_kind m = VISIBLE \<or> \<not> (up \<and> missed)"
  shows "hot_inv up (if ms_kind m = VISIBLE then \<not> up else missed) (hot_step (HE_Append now m) w)"
proof -
  define m' where "m' = m\<lparr>ms_tenant_id := hw_tenant w, ms_thread_id := hw_thread w, ms_sequence := length (hw_messages w) + 1\<rparr>"
  define w' where "w' = hot_step (HE_Append now m) w"
  have m': "ms_tenant_id m' = hw_tenant w" "ms_thread_id m' = hw_thread w" "ms_kind m' = ms_kind m"
    by (simp_all add: m'_def)
  have w: "hw_tenant w' = hw_tenant w" "hw_thread w' = hw_thread w" "hw_messages w' = hw_messages w @ [m']"
    "hw_revision w' = hw_revision w + 1" "hw_hot w' = hot_append now m' (hw_revision w + 1) (hw_hot w)"
    by (simp_all add: m'_def w'_def Let_def)
  have num: "numbered (hw_messages w @ [m'])"
    using inv by (intro numbered_snoc) (simp_all add: hot_inv_def m'_def)
  have "hot_inv up (if ms_kind m = VISIBLE then \<not> up else missed) w'"
  proof (cases "ht_cache (hw_hot w)")
    case None
    then show ?thesis using num w by (simp add: hot_inv_def hot_append_def)
  next
    case (Some c)
    note old = inv [unfolded hot_inv_cache [OF Some]]
    show ?thesis
    proof (cases up)
      case False
      then obtain n where "hw_hot w' = (hw_hot w)\<lparr>ht_cache := Some (c\<lparr>c_ops := n\<rparr>)\<rparr>"
        using hot_append_down [OF Some, of now m' "hw_revision w + 1"] old w(5) by auto
      then have "ht_cache (hw_hot w') = Some (c\<lparr>c_ops := n\<rparr>)" by simp
      then show ?thesis
        unfolding hot_inv_cache [OF \<open>ht_cache (hw_hot w') = _\<close>]
        using False old num w(1-4) m'(3) unfolding hot_parts by fastforce
    next
      case True
      have avail: "c_available c" using old True by simp
      obtain c' where c': "hw_hot w' = (hw_hot w)\<lparr>ht_cache := Some c'\<rparr>" "c_available c'"
        "c_data c' = (c_data c)(hot_rev_key (hw_tenant w) (hw_thread w) \<mapsto>
           (HV_Revision (hw_revision w + 1), expiry now (Some (ht_ttl (hw_hot w)))))"
        "c_lists c' = (if ms_kind m = VISIBLE
          then (c_lists c)(hot_key (hw_tenant w) (hw_thread w) \<mapsto>
            (keep_last (Some (ht_max_messages (hw_hot w))) ((case c_lists c (hot_key (hw_tenant w) (hw_thread w)) of
                None \<Rightarrow> [] | Some (xs, _) \<Rightarrow> xs) @ [dump m']), expiry now (Some (ht_ttl (hw_hot w)))))
          else c_lists c)"
        using hot_append_up [OF Some avail, of now m' "hw_revision w + 1", unfolded m'] unfolding w(5) by blast
      have cache: "ht_cache (hw_hot w') = Some c'" using c'(1) by simp
      have "list_from_store w' c' \<and> list_current w' c'"
      proof (cases "ms_kind m = VISIBLE")
        case vis: True
        define xs where "xs = (case c_lists c (hot_key (hw_tenant w) (hw_thread w)) of None \<Rightarrow> [] | Some (xs, _) \<Rightarrow> xs)"
        have "set xs \<subseteq> dump ` set (visible_of (hw_messages w))"
          using old unfolding xs_def list_from_store_def
          by (cases "c_lists c (hot_key (hw_tenant w) (hw_thread w))") (auto simp del: set_filter)
        then show ?thesis
          using vis c'(4) w(1-3) m'(3) last_keep_last [of "xs @ [dump m']" "Some (ht_max_messages (hw_hot w))"]
            set_keep_last [of "Some (ht_max_messages (hw_hot w))" "xs @ [dump m']"]
          by (auto simp: list_from_store_def list_current_def xs_def [symmetric] simp del: set_filter)
      next
        case False
        then show ?thesis using hidden True old c'(4) w(1-3) m'(3) by (auto simp: list_from_store_def list_current_def)
      qed
      moreover have "rev_known w' c'" using c'(3) w(1,2,4) by (simp add: rev_known_def)
      ultimately show ?thesis using num w(3) c'(2) True by (simp add: hot_inv_cache [OF cache])
    qed
  qed
  then show ?thesis unfolding w'_def .
qed

lemma shrinks_keeps_inv:
  assumes "hot_inv up missed w" and "ht_cache (hw_hot w) = Some c" and "shrinks c c'"
  shows "hot_inv up missed (w\<lparr>hw_hot := (hw_hot w)\<lparr>ht_cache := Some c'\<rparr>\<rparr>)"
proof -
  have same: "list_current (w\<lparr>hw_hot := h\<rparr>) = list_current w" "list_from_store (w\<lparr>hw_hot := h\<rparr>) = list_from_store w"
    "rev_known (w\<lparr>hw_hot := h\<rparr>) = rev_known w" "rev_current (w\<lparr>hw_hot := h\<rparr>) = rev_current w" for h
    by (simp_all add: hot_parts fun_eq_iff)
  have "c_available c' = c_available c" using assms(3) by (simp add: shrinks_def)
  then show ?thesis
    using assms(1) shrinks_keeps [OF assms(3), of w] by (auto simp: hot_inv_def assms(2) same)
qed

text \<open>What a read finds in a cache that keeps the invariant.\<close>

lemma dump_preimage: "set items \<subseteq> dump ` S \<Longrightarrow> \<exists>xs. items = map dump xs \<and> set xs \<subseteq> S"
proof (induction items)
  case (Cons v items)
  then obtain m xs where "v = dump m" "m \<in> S" "items = map dump xs" "set xs \<subseteq> S" by auto
  then have "v # items = map dump (m # xs) \<and> set (m # xs) \<subseteq> S" by simp
  then show ?case by (rule exI)
qed simp

lemma hot_recent_answer:
  assumes inv: "hot_inv up missed w" and cache: "ht_cache (hw_hot w) = Some c" and lim: "lim > 0"
    and rec: "hot_recent now (hw_tenant w) (hw_thread w) lim (Some (hw_revision w)) (hw_hot w) = (r, h)"
  shows "r = Inr None \<or> up \<and> rev_current w c \<and> r = Inr (Some (map strip_message (newest lim (hw_messages w))))"
proof -
  let ?t = "hw_tenant w" and ?i = "hw_thread w"
  note old = inv [unfolded hot_inv_cache [OF cache]]
  show ?thesis
  proof (cases up)
    case False
    then show ?thesis using hot_recent_down [OF cache] old rec by (metis fst_conv)
  next
    case True
    then have avail: "c_available c" using old by simp
    show ?thesis
    proof (cases "c_look c now (hot_rev_key ?t ?i)")
      case None
      then show ?thesis using hot_recent_miss [OF cache avail None] rec by (metis fst_conv)
    next
      case (Some v)
      then obtain s e where s: "v = HV_Revision s" "c_data c (hot_rev_key ?t ?i) = Some (HV_Revision s, e)"
        using old by (auto simp: c_look_def rev_known_def split: option.splits if_splits)
      obtain xs where xs: "live_list c now (hot_key ?t ?i) = map dump xs" "set xs \<subseteq> set (visible_of (hw_messages w))"
      proof (cases "c_lists c (hot_key ?t ?i)")
        case None
        show thesis by (rule that [of "[]"]) (simp_all add: live_list_def None)
      next
        case (Some p)
        then obtain items e' where p: "c_lists c (hot_key ?t ?i) = Some (items, e')" by (cases p) auto
        have "set items \<subseteq> dump ` set (visible_of (hw_messages w))"
          using old p unfolding list_from_store_def by blast
        then obtain ys where "items = map dump ys" "set ys \<subseteq> set (visible_of (hw_messages w))"
          using dump_preimage by blast
        then show thesis using that [of ys] that [of "[]"] p by (cases "expired now e'") (simp_all add: live_list_def)
      qed
      have r: "r = Inr (if s = hw_revision w \<and> xs \<noteq> [] then usable_list lim (map strip_message (drop (length xs - lim) xs)) else None)"
        using hot_recent_up [OF cache avail Some [unfolded s(1)] xs(1) lim, of "hw_revision w"] rec by simp
      show ?thesis
      proof (cases "s = hw_revision w \<and> xs \<noteq> []")
        case True
        then have cur: "rev_current w c" using s(2) by (auto simp: rev_current_def)
        then have "list_current w c" using old by blast
        then have "dump (last xs) = dump (last (visible_of (hw_messages w)))"
          using xs(1) True by (auto simp: live_list_def list_current_def last_map split: option.splits if_splits)
        then have "ms_sequence (last xs) = ms_sequence (last (visible_of (hw_messages w)))"
          by (metis dump_strip hot_value.inject(2) strip_message_fields(1))
        moreover have mem: "last xs \<in> set (visible_of (hw_messages w))" using True xs(2) last_in_set by blast
        moreover have "last (visible_of (hw_messages w)) \<in> set (visible_of (hw_messages w))"
          using mem by (metis last_in_set list.set(1) empty_iff)
        ultimately have "last xs = last (visible_of (hw_messages w))"
          using old numbered_visible(3) [of "hw_messages w"] by (simp add: inj_on_eq_iff)
        then show ?thesis
          using r True cur old \<open>up\<close> usable_tail_is_newest [OF _ xs(2) _ lim]
          by (cases "usable_list lim (map strip_message (drop (length xs - lim) xs))") auto
      qed (use r in auto)
    qed
  qed
qed

lemma newest_visible:
  assumes "lim > 0"
  shows "visible_of (newest lim ms) = newest lim ms" and "newest lim ms = [] \<longleftrightarrow> visible_of ms = []"
    and "visible_of ms \<noteq> [] \<Longrightarrow> last (newest lim ms) = last (visible_of ms)"
    and "set (newest lim ms) \<subseteq> set (visible_of ms)"
proof -
  show "visible_of (newest lim ms) = newest lim ms"
    by (rule filter_True) (auto simp: newest_def Let_def dest: in_set_dropD)
  show "newest lim ms = [] \<longleftrightarrow> visible_of ms = []"
    using drop_tail_ne [OF assms, of "visible_of ms"] by (auto simp: newest_def Let_def)
  show "last (newest lim ms) = last (visible_of ms)" if "visible_of ms \<noteq> []"
    using drop_tail_ne [OF assms that] by (simp add: newest_def Let_def last_drop)
  show "set (newest lim ms) \<subseteq> set (visible_of ms)"
    unfolding newest_def Let_def by (rule set_drop_subset)
qed

abbreviation refilled :: "instant \<Rightarrow> nat \<Rightarrow> hot_world \<Rightarrow> hot_world" where
  "refilled now lim w \<equiv> w\<lparr>hw_hot := hot_refill now (hw_tenant w) (hw_thread w) (newest lim (hw_messages w))
     (hw_revision w) (hw_hot w)\<rparr>"

lemma refill_fills:
  assumes inv: "hot_inv True missed w" and cache: "ht_cache (hw_hot w) = Some c" and lim: "lim > 0"
    and vis: "visible_of (hw_messages w) \<noteq> []"
  shows "hot_inv True False (refilled now lim w)"
proof -
  let ?ms = "hw_messages w" and ?h = "hw_hot w" and ?r = "hw_revision w"
  note new = newest_visible [OF lim, of ?ms]
  have vis': "visible_of (newest lim ?ms) \<noteq> []" using new(1,2) vis by metis
  have avail: "c_available c" using inv by (simp add: hot_inv_cache [OF cache])
  obtain c2 items e where c2: "hot_refill now (hw_tenant w) (hw_thread w) (newest lim ?ms) ?r ?h = ?h\<lparr>ht_cache := Some c2\<rparr>"
    "c_available c2" "\<exists>e. c_data c2 (hot_rev_key (hw_tenant w) (hw_thread w)) = Some (HV_Revision ?r, e)"
    "c_lists c2 (hot_key (hw_tenant w) (hw_thread w)) = Some (items, e)" "items \<noteq> []"
    "last items = dump (last (visible_of (newest lim ?ms)))"
    "set items \<subseteq> dump ` set (visible_of (newest lim ?ms))"
    using hot_refill_up [OF cache avail vis', of now "hw_tenant w" "hw_thread w" ?r] by blast
  define w2 where "w2 = w\<lparr>hw_hot := ?h\<lparr>ht_cache := Some c2\<rparr>\<rparr>"
  have w2: "ht_cache (hw_hot w2) = Some c2" "hw_messages w2 = ?ms" "hw_revision w2 = ?r"
    "hw_tenant w2 = hw_tenant w" "hw_thread w2 = hw_thread w" by (simp_all add: w2_def)
  have "set items \<subseteq> dump ` set (visible_of ?ms)" "last items = dump (last (visible_of ?ms))"
    using c2(6,7) new vis by auto
  then have "list_from_store w2 c2" "list_current w2 c2" "rev_known w2 c2"
    using c2(3,4,5) vis by (auto simp: hot_parts w2 simp del: set_filter)
  then have "hot_inv True False w2"
    using c2(2) inv by (simp add: hot_inv_cache [OF w2(1)] hot_inv_cache [OF cache] w2)
  then show ?thesis by (simp add: w2_def c2(1))
qed

lemma refill_skips:
  assumes inv: "hot_inv up missed w" and cache: "ht_cache (hw_hot w) = Some c" and lim: "lim > 0"
    and none: "\<not> up \<or> visible_of (hw_messages w) = []"
  shows "hot_inv up (if up then False else missed) (refilled now lim w)"
proof -
  note old = inv [unfolded hot_inv_cache [OF cache]]
  have "\<exists>n. hw_hot (refilled now lim w) = (hw_hot w)\<lparr>ht_cache := Some (c\<lparr>c_ops := n\<rparr>)\<rparr>"
  proof (cases up)
    case True
    then have "newest lim (hw_messages w) = []" using none newest_visible(2) [OF lim] by simp
    then have "hw_hot (refilled now lim w) = hw_hot w" using cache by (simp add: hot_refill_def)
    moreover have "hw_hot w = (hw_hot w)\<lparr>ht_cache := Some (c\<lparr>c_ops := c_ops c\<rparr>)\<rparr>" using cache by simp
    ultimately show ?thesis by metis
  next
    case False
    then show ?thesis using hot_refill_down [OF cache] old by simp
  qed
  then obtain n where "ht_cache (hw_hot (refilled now lim w)) = Some (c\<lparr>c_ops := n\<rparr>)" by auto
  moreover have "up \<Longrightarrow> c_lists c (hot_key (hw_tenant w) (hw_thread w)) = None"
    using none old by (cases "c_lists c (hot_key (hw_tenant w) (hw_thread w))") (auto simp: list_from_store_def)
  ultimately show ?thesis using old by (auto simp: hot_inv_cache hot_parts)
qed

lemma read_keeps_inv:
  assumes inv: "hot_inv up missed w" and lim: "lim > 0"
  shows "hot_inv up (if up then False else missed) (snd (hot_read now lim w))"
proof (cases "ht_cache (hw_hot w)")
  case None
  then show ?thesis using inv by (simp add: hot_read_def hot_recent_def hot_refill_def hot_inv_def)
next
  case (Some c)
  obtain r h where rec: "hot_recent now (hw_tenant w) (hw_thread w) lim (Some (hw_revision w)) (hw_hot w) = (r, h)"
    by fastforce
  obtain c1 where c1: "h = (hw_hot w)\<lparr>ht_cache := Some c1\<rparr>" "shrinks c c1"
    using hot_recent_shrinks [OF Some, of now "hw_tenant w" "hw_thread w" lim "hw_revision w"] rec by auto
  define w1 where "w1 = w\<lparr>hw_hot := h\<rparr>"
  have inv1: "hot_inv up missed w1" unfolding w1_def c1(1) by (rule shrinks_keeps_inv [OF inv Some c1(2)])
  have w1: "ht_cache (hw_hot w1) = Some c1" "hw_tenant w1 = hw_tenant w" "hw_thread w1 = hw_thread w"
    "hw_messages w1 = hw_messages w" by (simp_all add: w1_def c1(1))
  consider (hit) "up" "rev_current w c" "r = Inr (Some (map strip_message (newest lim (hw_messages w))))" | (miss) "r = Inr None"
    using hot_recent_answer [OF inv Some lim rec] by blast
  then show ?thesis
  proof cases
    case hit
    then have "list_current w c" using inv [unfolded hot_inv_cache [OF Some]] by blast
    then have "list_current w c1" using shrinks_keeps(1) [OF c1(2)] by blast
    then have "list_current w1 c1" by (simp add: list_current_def w1)
    then have "hot_inv up False w1" using inv1 by (simp add: hot_inv_cache [OF w1(1)])
    then show ?thesis using hit rec by (simp add: hot_read_def w1_def)
  next
    case miss
    have "snd (hot_read now lim w) = refilled now lim w1" using miss rec by (simp add: hot_read_def w1_def Let_def)
    then show ?thesis
      using refill_fills [OF _ w1(1) lim, of missed now] refill_skips [OF inv1 w1(1) lim, of now] inv1
      by (cases "up \<and> visible_of (hw_messages w1) \<noteq> []") auto
  qed
qed

lemma touch_keeps_inv: "hot_inv up missed w \<Longrightarrow> hot_inv up missed (hot_step HE_Touch w)"
  by (fastforce simp: hot_inv_def hot_parts)

lemma cache_keeps_inv: "hot_inv up missed w \<Longrightarrow> hot_inv b missed (hot_step (HE_Cache b) w)"
  by (auto simp: hot_inv_def hot_parts set_available_def)

lemma trace_keeps_inv:
  assumes "hot_inv up missed w" and "no_gap_hidden up missed es"
  shows "\<exists>up' missed'. hot_inv up' missed' (fold hot_step es w)"
  using assms
proof (induction up missed es arbitrary: w rule: no_gap_hidden.induct)
  case (2 up missed now m es)
  then show ?case using append_keeps_inv [of up missed w m now] by (simp split: if_splits)
next
  case (4 up missed now lim es)
  then show ?case using read_keeps_inv [of up missed w lim now] by (simp split: if_splits)
qed (auto simp del: hot_step.simps intro: touch_keeps_inv cache_keeps_inv)

definition hot_start :: "string \<Rightarrow> string \<Rightarrow> hot_thread \<Rightarrow> hot_world" where
  "hot_start t i h = \<lparr>hw_tenant = t, hw_thread = i, hw_messages = [], hw_revision = 0, hw_hot = h\<rparr>"

definition fresh_thread :: "string \<Rightarrow> string \<Rightarrow> bool \<Rightarrow> hot_thread \<Rightarrow> bool" where
  "fresh_thread t i up h \<longleftrightarrow> (case ht_cache h of None \<Rightarrow> True
     | Some c \<Rightarrow> c_available c = up \<and> c_data c (hot_rev_key t i) = None \<and> c_lists c (hot_key t i) = None)"

lemma start_inv: "fresh_thread t i up h \<Longrightarrow> hot_inv up False (hot_start t i h)"
  by (auto simp: fresh_thread_def hot_start_def hot_inv_def hot_parts numbered_def)

lemma inv_read_is_newest:
  assumes inv: "hot_inv up missed w" and lim: "lim > 0"
  shows "\<exists>ms. fst (hot_read now lim w) = Inr ms \<and> map strip_message ms = map strip_message (newest lim (hw_messages w))"
proof -
  have strip: "map strip_message (map strip_message xs) = map strip_message xs" for xs
    by (simp add: strip_message_def)
  obtain r h' where rec: "hot_recent now (hw_tenant w) (hw_thread w) lim (Some (hw_revision w)) (hw_hot w) = (r, h')"
    by fastforce
  show ?thesis
  proof (cases "ht_cache (hw_hot w)")
    case None
    then show ?thesis by (simp add: hot_read_def hot_recent_def Let_def)
  next
    case (Some c)
    then show ?thesis
      using hot_recent_answer [OF inv Some lim rec] rec strip [of "newest lim (hw_messages w)"]
      by (auto simp: hot_read_def Let_def simp del: map_map map_eq_conv)
  qed
qed


definition ex_message :: "MessageKind \<Rightarrow> string \<Rightarrow> Message" where
  "ex_message k txt = \<lparr>ms_message_id = txt, ms_thread_id = ''t'', ms_session_id = ''s'', ms_turn_id = ''u'',
     ms_tenant_id = ''acme'', ms_role = RO_USER, ms_kind = k, ms_sequence = 0, ms_content = txt,
     ms_content_hash = [], ms_version = 1, ms_author_principal = ''user:u'', ms_agent_run_id = None,
     ms_parent_message_id = None, ms_attachments = [], ms_tool_calls = [], ms_tool_call_id = None,
     ms_source_system = None, ms_source_message_id = None, ms_occurred_at = 0, ms_created_at = 0,
     ms_archive_status = AS_STAGED, ms_system_metadata = [], ms_custom_metadata = [], ms_deleted_at = None\<rparr>"

definition ex_hot :: hot_thread where
  "ex_hot = \<lparr>ht_cache = Some \<lparr>c_data = Map.empty, c_lists = Map.empty, c_available = True, c_ops = 0\<rparr>,
     ht_max_messages = 200, ht_ttl = 21600\<rparr>"

definition ex_outage :: "hot_event list" where
  "ex_outage = [HE_Append 1 (ex_message VISIBLE ''one''), HE_Cache False, HE_Append 2 (ex_message VISIBLE ''two''),
     HE_Cache True, HE_Read 3 5]"

definition ex_hidden_gap :: "hot_event list" where
  "ex_hidden_gap = [HE_Append 1 (ex_message VISIBLE ''one''), HE_Cache False, HE_Append 2 (ex_message VISIBLE ''two''),
     HE_Cache True, HE_Append 3 (ex_message INTERNAL ''log'')]"


text \<open>The condition is needed: when a visible message was stored during a cache outage and the
  next message is internal, the internal append sets the stored revision, and a read returns the
  old list as current, without the thread's newest visible message.\<close>

theorem hidden_gap_served:
  "let w = fold hot_step ex_hidden_gap (hot_start ''acme'' ''t'' ex_hot) in
     map ms_content (newest 10 (hw_messages w)) = [''one'', ''two''] \<and>
     map_sum id (map ms_content) (fst (hot_read 4 10 w)) = Inr [''one'']"
  by (simp add: ex_hidden_gap_def ex_message_def ex_hot_def hot_start_def hot_append_def set_available_def newest_def
      hot_read_def hot_recent_def hot_range_def c_list_push_def c_set_def c_get_def c_list_range_def live_def guarded_def
      c_check_def store_def expiry_def expired_def secs_def keep_last_def py_slice_def py_index_def dump_def usable_list_def
      contiguous_def Let_def)

end
