(* ===== verification/Outbox.thy ===== *)
theory Outbox
  imports Errors
begin

text \<open>
  The transactional outbox: job specifications and worker pools (\<open>ports/tasks.py\<close>), the
  \<open>job_outbox\<close> table (\<open>SqlOutboxRepository\<close> of \<open>adapters/db/repositories.py\<close>) and the relay that hands
  committed rows to the task queue (\<open>OutboxRelay\<close> of \<open>adapters/db/uow.py\<close>).

  The task queue is third-party code: \<open>enq\<close> stands for its \<open>enqueue\<close> during one pass of the relay,
  \<open>None\<close> when it raises. A row another dispatcher holds is skipped (\<open>SKIP LOCKED\<close>): the ids held by
  others are the argument \<open>locked\<close>. The text of an error is not kept.
\<close>

subsection \<open>Jobs\<close>

datatype Queue =
    Q_CHAT_FAST | Q_MEMORY_EXTRACT | Q_EMBEDDING | Q_DOCUMENT_PARSE | Q_GRAPH | Q_SUMMARY | Q_ARCHIVE
  | Q_EVALUATION | Q_IMPORT | Q_RECONCILE

definition all_queues :: "Queue list" where
  "all_queues = [Q_CHAT_FAST, Q_MEMORY_EXTRACT, Q_EMBEDDING, Q_DOCUMENT_PARSE, Q_GRAPH, Q_SUMMARY, Q_ARCHIVE,
     Q_EVALUATION, Q_IMPORT, Q_RECONCILE]"

record JobSpec =
  js_task_name :: string
  js_queue :: Queue
  js_payload :: "(string \<times> string option) list"
  js_idempotency_key :: "string option"
  js_lock :: "string option"
  js_priority :: "int option"
  js_schedule_in_seconds :: "nat option"
  js_tenant_id :: "string option"

definition INDEXING_QUEUES :: "Queue list" where "INDEXING_QUEUES = [Q_EMBEDDING]"
definition GRAPH_QUEUES :: "Queue list" where "GRAPH_QUEUES = [Q_GRAPH]"
definition CHAT_QUEUES :: "Queue list" where "CHAT_QUEUES = [Q_CHAT_FAST]"
definition SHORT_WITHOUT_A_MODEL :: "Queue list" where "SHORT_WITHOUT_A_MODEL = [Q_SUMMARY]"

definition worker_pools :: "nat \<Rightarrow> nat \<Rightarrow> bool \<Rightarrow> (Queue list \<times> nat) list" where
  "worker_pools concurrency indexing llm =
     (let chat = max 1 (concurrency div 2);
          embedding = min indexing (max 1 (concurrency div 4));
          graph = (if llm then max 2 (concurrency div 2) else 1);
          graph_computes = (if llm then 0 else 1);
          shared = nat (max 1 (int concurrency - int chat - int embedding - graph_computes));
          fast = CHAT_QUEUES @ INDEXING_QUEUES;
          short = (if llm then [] else SHORT_WITHOUT_A_MODEL);
          rest = filter (\<lambda>q. q \<notin> set (fast @ short @ GRAPH_QUEUES)) all_queues
      in [(if llm then INDEXING_QUEUES else INDEXING_QUEUES @ CHAT_QUEUES @ short, embedding),
          (GRAPH_QUEUES, graph),
          (fast @ short, chat),
          (fast @ short @ rest, shared)])"

subsection \<open>The table\<close>

record OutboxRow =
  ob_outbox_id :: nat
  ob_spec :: JobSpec
  ob_created_at :: instant
  ob_dispatched_at :: "instant option"
  ob_job_id :: "string option"
  ob_attempts :: nat
  ob_dead :: bool

record outbox =
  ob_rows :: "OutboxRow list"
  ob_next :: nat

definition has_key :: "string option \<Rightarrow> outbox \<Rightarrow> bool" where
  "has_key k ob \<longleftrightarrow> k \<noteq> None \<and> list_ex (\<lambda>r. js_idempotency_key (ob_spec r) = k) (ob_rows ob)"

definition outbox_add :: "instant \<Rightarrow> JobSpec \<Rightarrow> outbox \<Rightarrow> nat option \<times> outbox" where
  "outbox_add now spec ob =
     (if has_key (js_idempotency_key spec) ob then (None, ob)
      else (Some (ob_next ob),
        ob\<lparr>ob_rows := ob_rows ob @ [\<lparr>ob_outbox_id = ob_next ob, ob_spec = spec, ob_created_at = now,
             ob_dispatched_at = None, ob_job_id = None, ob_attempts = 0, ob_dead = False\<rparr>],
           ob_next := ob_next ob + 1\<rparr>))"

definition undispatched :: "OutboxRow \<Rightarrow> bool" where
  "undispatched r \<longleftrightarrow> ob_dispatched_at r = None \<and> \<not> ob_dead r"

definition dispatcher_of :: "string \<Rightarrow> outbox \<Rightarrow> bool \<times> string option" where
  "dispatcher_of job_id ob =
     (case List.find (\<lambda>r. ob_job_id r = Some job_id) (ob_rows ob) of
        None \<Rightarrow> (False, None) | Some r \<Rightarrow> (True, js_tenant_id (ob_spec r)))"

definition by_ids :: "nat list \<Rightarrow> nat list \<Rightarrow> outbox \<Rightarrow> OutboxRow list" where
  "by_ids locked ids ob =
     sort_key ob_outbox_id (filter (\<lambda>r. undispatched r \<and> ob_outbox_id r \<in> set ids \<and> ob_outbox_id r \<notin> set locked)
       (ob_rows ob))"

definition pending :: "nat list \<Rightarrow> instant \<Rightarrow> nat \<Rightarrow> nat \<Rightarrow> outbox \<Rightarrow> OutboxRow list" where
  "pending locked now lim older_than_seconds ob =
     take lim (sort_key ob_outbox_id (filter (\<lambda>r. undispatched r \<and> ob_outbox_id r \<notin> set locked \<and>
         (older_than_seconds > 0 \<longrightarrow> ob_created_at r \<le> now - secs (int older_than_seconds)))
       (ob_rows ob)))"

definition update_row :: "nat \<Rightarrow> (OutboxRow \<Rightarrow> OutboxRow) \<Rightarrow> outbox \<Rightarrow> outbox" where
  "update_row i f ob = ob\<lparr>ob_rows := map (\<lambda>r. if ob_outbox_id r = i then f r else r) (ob_rows ob)\<rparr>"

definition mark_dispatched :: "instant \<Rightarrow> nat \<Rightarrow> string \<Rightarrow> outbox \<Rightarrow> outbox" where
  "mark_dispatched now i job_id = update_row i (\<lambda>r. r\<lparr>ob_dispatched_at := Some now, ob_job_id := Some job_id,
     ob_attempts := ob_attempts r + 1\<rparr>)"

definition outbox_mark_failed :: "nat \<Rightarrow> bool \<Rightarrow> outbox \<Rightarrow> outbox" where
  "outbox_mark_failed i dead = update_row i (\<lambda>r. r\<lparr>ob_attempts := ob_attempts r + 1, ob_dead := dead\<rparr>)"

definition purge_dispatched :: "instant \<Rightarrow> nat \<Rightarrow> outbox \<Rightarrow> nat \<times> outbox" where
  "purge_dispatched now older_than_seconds ob =
     (let gone = (\<lambda>r. \<not> ob_dead r \<and>
            (case ob_dispatched_at r of None \<Rightarrow> False | Some d \<Rightarrow> d < now - secs (int older_than_seconds)))
      in (length (filter gone (ob_rows ob)), ob\<lparr>ob_rows := filter (\<lambda>r. \<not> gone r) (ob_rows ob)\<rparr>))"

subsection \<open>The relay\<close>

definition MAX_DISPATCH_ATTEMPTS :: nat where "MAX_DISPATCH_ATTEMPTS = 20"

definition dispatch :: "(JobSpec \<Rightarrow> string option) \<Rightarrow> instant \<Rightarrow> OutboxRow \<Rightarrow> outbox \<Rightarrow> string option \<times> outbox" where
  "dispatch enq now entry ob =
     (case enq (ob_spec entry) of
        None \<Rightarrow> (None, outbox_mark_failed (ob_outbox_id entry) (ob_attempts entry + 1 \<ge> MAX_DISPATCH_ATTEMPTS) ob)
      | Some job_id \<Rightarrow> (Some job_id, mark_dispatched now (ob_outbox_id entry) job_id ob))"

definition dispatch_ids :: "(JobSpec \<Rightarrow> string option) \<Rightarrow> instant \<Rightarrow> nat list \<Rightarrow> nat list \<Rightarrow> outbox \<Rightarrow> outbox" where
  "dispatch_ids enq now locked ids ob =
     fold (\<lambda>entry ob. snd (dispatch enq now entry ob)) (by_ids locked ids ob) ob"

fun sweep_loop :: "(JobSpec \<Rightarrow> string option) \<Rightarrow> instant \<Rightarrow> OutboxRow list \<Rightarrow> nat \<times> outbox \<Rightarrow> nat \<times> outbox" where
  "sweep_loop enq now [] (count, ob) = (count, ob)"
| "sweep_loop enq now (entry # rest) (count, ob) =
     (case dispatch enq now entry ob of (r, ob') \<Rightarrow>
        sweep_loop enq now rest (if truthy r then count + 1 else count, ob'))"

definition sweep :: "(JobSpec \<Rightarrow> string option) \<Rightarrow> instant \<Rightarrow> nat list \<Rightarrow> nat \<Rightarrow> nat \<Rightarrow> outbox \<Rightarrow> nat \<times> outbox" where
  "sweep enq now locked older_than_seconds lim ob =
     sweep_loop enq now (pending locked now lim older_than_seconds ob) (0, ob)"

subsection \<open>The table's invariant\<close>

definition row_keys :: "OutboxRow list \<Rightarrow> string list" where
  "row_keys rows = List.map_filter (\<lambda>r. js_idempotency_key (ob_spec r)) rows"

definition outbox_ok :: "outbox \<Rightarrow> bool" where
  "outbox_ok ob \<longleftrightarrow> distinct (map ob_outbox_id (ob_rows ob)) \<and> distinct (row_keys (ob_rows ob)) \<and>
     (\<forall>r \<in> set (ob_rows ob). ob_outbox_id r < ob_next ob \<and> (undispatched r \<longrightarrow> ob_attempts r < MAX_DISPATCH_ATTEMPTS))"

text \<open>One attempt at handing a row over.\<close>

definition attempt :: "(JobSpec \<Rightarrow> string option) \<Rightarrow> instant \<Rightarrow> OutboxRow \<Rightarrow> OutboxRow" where
  "attempt enq now r = (case enq (ob_spec r) of
     None \<Rightarrow> r\<lparr>ob_attempts := ob_attempts r + 1, ob_dead := ob_attempts r + 1 \<ge> MAX_DISPATCH_ATTEMPTS\<rparr>
   | Some job_id \<Rightarrow> r\<lparr>ob_dispatched_at := Some now, ob_job_id := Some job_id, ob_attempts := ob_attempts r + 1\<rparr>)"

lemma attempt_fields [simp]:
  "ob_outbox_id (attempt enq now r) = ob_outbox_id r" "ob_spec (attempt enq now r) = ob_spec r"
  "ob_created_at (attempt enq now r) = ob_created_at r" "ob_attempts (attempt enq now r) = ob_attempts r + 1"
  by (simp_all add: attempt_def split: option.split)

lemma undispatched_attempt:
  "undispatched (attempt enq now r) \<Longrightarrow> undispatched r \<Longrightarrow> ob_attempts r + 1 < MAX_DISPATCH_ATTEMPTS"
  by (simp add: attempt_def undispatched_def split: option.splits)

lemma undispatched_attempt_mono: "undispatched (attempt enq now r) \<Longrightarrow> undispatched r \<or> ob_dead r"
  by (auto simp: attempt_def undispatched_def split: option.splits)

lemma update_row_id: "\<forall>r \<in> set (ob_rows ob). ob_outbox_id r \<noteq> i \<Longrightarrow> update_row i f ob = ob"
  by (simp add: update_row_def map_idI)

lemma dispatch_rows:
  assumes "distinct (map ob_outbox_id (ob_rows ob))" and "e \<in> set (ob_rows ob)"
  shows "snd (dispatch enq now e ob) =
    ob\<lparr>ob_rows := map (\<lambda>r. if ob_outbox_id r = ob_outbox_id e then attempt enq now r else r) (ob_rows ob)\<rparr>"
proof -
  have same: "r = e" if "r \<in> set (ob_rows ob)" "ob_outbox_id r = ob_outbox_id e" for r
    using assms that by (auto simp: distinct_map inj_on_def)
  have m: "map (\<lambda>r. if ob_outbox_id r = ob_outbox_id e then g r else r) (ob_rows ob) =
      map (\<lambda>r. if ob_outbox_id r = ob_outbox_id e then attempt enq now r else r) (ob_rows ob)"
    if "g e = attempt enq now e" for g
    by (rule map_cong [OF refl]) (use same that in auto)
  show ?thesis
  proof (cases "enq (ob_spec e)")
    case None
    then show ?thesis
      using m [of "\<lambda>r. r\<lparr>ob_attempts := Suc (ob_attempts r), ob_dead := Suc (ob_attempts e) \<ge> MAX_DISPATCH_ATTEMPTS\<rparr>"]
      by (simp add: dispatch_def outbox_mark_failed_def update_row_def attempt_def [of enq now e] del: map_eq_conv)
  next
    case (Some job_id)
    then show ?thesis
      using m [of "\<lambda>r. r\<lparr>ob_dispatched_at := Some now, ob_job_id := Some job_id, ob_attempts := Suc (ob_attempts r)\<rparr>"]
      by (simp add: dispatch_def mark_dispatched_def update_row_def attempt_def [of enq now e] del: map_eq_conv)
  qed
qed

text \<open>A pass over a snapshot of rows attempts each of them once and touches nothing else.\<close>

definition attempted :: "(JobSpec \<Rightarrow> string option) \<Rightarrow> instant \<Rightarrow> nat set \<Rightarrow> OutboxRow list \<Rightarrow> OutboxRow list" where
  "attempted enq now ids rows = map (\<lambda>r. if ob_outbox_id r \<in> ids then attempt enq now r else r) rows"

lemma attempted_ids [simp]: "map ob_outbox_id (attempted enq now ids rows) = map ob_outbox_id rows"
  by (simp add: attempted_def)

lemma pass_rows:
  assumes "distinct (map ob_outbox_id (ob_rows ob))" and "set es \<subseteq> set (ob_rows ob)"
    and "distinct (map ob_outbox_id es)"
  shows "fold (\<lambda>e ob. snd (dispatch enq now e ob)) es ob =
    ob\<lparr>ob_rows := attempted enq now (ob_outbox_id ` set es) (ob_rows ob)\<rparr>"
  using assms
proof (induction es arbitrary: ob)
  case (Cons e es)
  let ?ob = "snd (dispatch enq now e ob)"
  have d: "?ob = ob\<lparr>ob_rows := attempted enq now {ob_outbox_id e} (ob_rows ob)\<rparr>"
    using dispatch_rows [OF Cons.prems(1), of e] Cons.prems(2) by (simp add: attempted_def)
  have "x \<in> set (ob_rows ?ob)" if "x \<in> set es" for x
  proof -
    have "x \<in> set (ob_rows ob)" "ob_outbox_id x \<noteq> ob_outbox_id e" using that Cons.prems(2,3) by (auto simp: image_iff)
    then show ?thesis by (force simp: d attempted_def)
  qed
  then have "fold (\<lambda>e ob. snd (dispatch enq now e ob)) es ?ob =
      ?ob\<lparr>ob_rows := attempted enq now (ob_outbox_id ` set es) (ob_rows ?ob)\<rparr>"
    using Cons.prems by (intro Cons.IH) (auto simp: d)
  moreover have "ob_outbox_id e \<notin> ob_outbox_id ` set es" using Cons.prems(3) by auto
  then have "attempted enq now (ob_outbox_id ` set es) (ob_rows ?ob) =
      attempted enq now (ob_outbox_id ` set (e # es)) (ob_rows ob)"
    by (auto simp: d attempted_def)
  ultimately show ?case by (simp add: d)
qed (simp add: attempted_def)

lemma sweep_loop_fold:
  "snd (sweep_loop enq now es (c, ob)) = fold (\<lambda>e ob. snd (dispatch enq now e ob)) es ob"
  by (induction es arbitrary: c ob) (auto split: prod.split)

lemma pass_subset:
  "set (pending locked now lim age ob) \<subseteq> set (ob_rows ob)" "set (by_ids locked ids ob) \<subseteq> set (ob_rows ob)"
  by (auto simp: pending_def by_ids_def dest: in_set_takeD)

lemma distinct_sort_filter:
  assumes "distinct (map f xs)"
  shows "distinct (map f (sort_key g (filter P xs)))" and "distinct (map f (take n (sort_key g (filter P xs))))"
proof -
  have "distinct xs" "inj_on f (set xs)" using assms by (auto simp: distinct_map)
  then show *: "distinct (map f (sort_key g (filter P xs)))"
    by (auto simp: distinct_map intro: inj_on_subset)
  then show "distinct (map f (take n (sort_key g (filter P xs))))"
    by (simp add: distinct_take flip: take_map)
qed

lemma pass_distinct:
  assumes "distinct (map ob_outbox_id (ob_rows ob))"
  shows "distinct (map ob_outbox_id (pending locked now lim age ob))"
    and "distinct (map ob_outbox_id (by_ids locked ids ob))"
  by (simp_all add: pending_def by_ids_def distinct_sort_filter [OF assms])

lemma sweep_rows:
  assumes "distinct (map ob_outbox_id (ob_rows ob))"
  shows "snd (sweep enq now locked age lim ob) =
      ob\<lparr>ob_rows := attempted enq now (ob_outbox_id ` set (pending locked now lim age ob)) (ob_rows ob)\<rparr>"
    and "dispatch_ids enq now locked ids ob =
      ob\<lparr>ob_rows := attempted enq now (ob_outbox_id ` set (by_ids locked ids ob)) (ob_rows ob)\<rparr>"
  using pass_rows [OF assms pass_subset(1) pass_distinct(1) [OF assms]]
    pass_rows [OF assms pass_subset(2) pass_distinct(2) [OF assms]]
  by (simp_all add: sweep_def sweep_loop_fold dispatch_ids_def)

lemma row_keys_attempted [simp]: "row_keys (attempted enq now ids rows) = row_keys rows"
  by (induction rows) (auto simp: row_keys_def attempted_def List.map_filter_simps split: option.split)

lemma attempted_ok:
  assumes "outbox_ok ob" and "\<And>r. r \<in> set (ob_rows ob) \<Longrightarrow> ob_outbox_id r \<in> ids \<Longrightarrow> undispatched r"
  shows "outbox_ok (ob\<lparr>ob_rows := attempted enq now ids (ob_rows ob)\<rparr>)"
proof -
  have "ob_outbox_id r' < ob_next ob \<and> (undispatched r' \<longrightarrow> ob_attempts r' < MAX_DISPATCH_ATTEMPTS)"
    if mem: "r' \<in> set (attempted enq now ids (ob_rows ob))" for r'
  proof -
    obtain r where r: "r \<in> set (ob_rows ob)" "r' = (if ob_outbox_id r \<in> ids then attempt enq now r else r)"
      using mem unfolding attempted_def set_map by blast
    have "ob_outbox_id r < ob_next ob" "undispatched r \<longrightarrow> ob_attempts r < MAX_DISPATCH_ATTEMPTS"
      using assms(1) r(1) by (auto simp: outbox_ok_def)
    then show ?thesis using r assms(2) [of r] undispatched_attempt [of enq now r] by auto
  qed
  then show ?thesis using assms(1) by (simp add: outbox_ok_def)
qed

lemma pass_undispatched:
  assumes "outbox_ok ob" and "r \<in> set (ob_rows ob)" and "set es \<subseteq> {r \<in> set (ob_rows ob). undispatched r}"
    and "ob_outbox_id r \<in> ob_outbox_id ` set es"
  shows "undispatched r"
proof -
  obtain e where "e \<in> set es" "ob_outbox_id r = ob_outbox_id e" using assms(4) by auto
  then show ?thesis using assms(1-3) by (auto simp: outbox_ok_def distinct_map inj_on_def)
qed

lemma set_pending: "set (pending locked now lim age ob) \<subseteq> {r \<in> set (ob_rows ob). undispatched r}"
  and set_by_ids: "set (by_ids locked ids ob) \<subseteq> {r \<in> set (ob_rows ob). undispatched r}"
  by (auto simp: pending_def by_ids_def dest: in_set_takeD)

lemma outbox_ok_distinct: "outbox_ok ob \<Longrightarrow> distinct (map ob_outbox_id (ob_rows ob))"
  by (simp add: outbox_ok_def)

lemma sweep_ok [inv_intros]: "outbox_ok ob \<Longrightarrow> outbox_ok (snd (sweep enq now locked age lim ob))"
  by (simp add: sweep_rows outbox_ok_distinct attempted_ok pass_undispatched [OF _ _ set_pending])

lemma dispatch_ids_ok [inv_intros]: "outbox_ok ob \<Longrightarrow> outbox_ok (dispatch_ids enq now locked ids ob)"
  by (simp add: sweep_rows outbox_ok_distinct attempted_ok pass_undispatched [OF _ _ set_by_ids])

lemma row_keys_append [simp]: "row_keys (xs @ ys) = row_keys xs @ row_keys ys"
  by (simp add: row_keys_def List.map_filter_def)

lemma set_row_keys: "k \<in> set (row_keys rows) \<longleftrightarrow> (\<exists>r \<in> set rows. js_idempotency_key (ob_spec r) = Some k)"
  by (force simp: row_keys_def List.map_filter_def)

lemma row_keys_filter: "distinct (row_keys rows) \<Longrightarrow> distinct (row_keys (filter P rows))"
proof -
  have "row_keys (filter P rows) = map (the \<circ> (\<lambda>r. js_idempotency_key (ob_spec r)))
      (filter P (filter (\<lambda>r. js_idempotency_key (ob_spec r) \<noteq> None) rows))"
    by (simp add: row_keys_def List.map_filter_def conj_commute)
  then show "distinct (row_keys rows) \<Longrightarrow> distinct (row_keys (filter P rows))"
    by (simp add: row_keys_def List.map_filter_def distinct_map_filter del: filter_filter)
qed

lemma add_ok [inv_intros]: "outbox_ok ob \<Longrightarrow> outbox_ok (snd (outbox_add now spec ob))"
proof -
  assume ok: "outbox_ok ob"
  have "distinct (row_keys (ob_rows ob) @ row_keys [r])" if "\<not> has_key (js_idempotency_key (ob_spec r)) ob" for r
    using that ok set_row_keys [of _ "ob_rows ob"]
    by (cases "js_idempotency_key (ob_spec r)") (auto simp: has_key_def list_ex_iff outbox_ok_def row_keys_def
        List.map_filter_simps)
  then show ?thesis using ok by (auto simp: outbox_add_def outbox_ok_def MAX_DISPATCH_ATTEMPTS_def)
qed

lemma purge_ok [inv_intros]: "outbox_ok ob \<Longrightarrow> outbox_ok (snd (purge_dispatched now age ob))"
  by (auto simp: purge_dispatched_def Let_def outbox_ok_def distinct_map_filter row_keys_filter)

subsection \<open>Every job is handed over or given up\<close>

text \<open>What happens to the table: rows are added, passes run (after a commit, or the periodic sweep) and
  receipts are purged.\<close>

datatype outbox_event =
    OE_Add instant JobSpec
  | OE_Fast "JobSpec \<Rightarrow> string option" instant "nat list" "nat list"
  | OE_Sweep "JobSpec \<Rightarrow> string option" instant nat nat
  | OE_Purge instant nat

fun outbox_step :: "outbox_event \<Rightarrow> outbox \<Rightarrow> outbox" where
  "outbox_step (OE_Add now spec) ob = snd (outbox_add now spec ob)"
| "outbox_step (OE_Fast enq now locked ids) ob = dispatch_ids enq now locked ids ob"
| "outbox_step (OE_Sweep enq now age lim) ob = snd (sweep enq now [] age lim ob)"
| "outbox_step (OE_Purge now age) ob = snd (purge_dispatched now age ob)"

lemma outbox_step_ok: "outbox_ok ob \<Longrightarrow> outbox_ok (outbox_step ev ob)"
  by (cases ev) (simp_all add: inv_intros)

text \<open>The attempts an undispatched row has left, and the undispatched rows ahead of it.\<close>

definition row_left :: "nat \<Rightarrow> OutboxRow \<Rightarrow> nat" where
  "row_left i r = (if ob_outbox_id r = i \<and> undispatched r then MAX_DISPATCH_ATTEMPTS - ob_attempts r else 0)"

definition row_ahead :: "nat \<Rightarrow> OutboxRow \<Rightarrow> nat" where
  "row_ahead i r = (if undispatched r \<and> ob_outbox_id r < i then 1 else 0)"

definition left :: "nat \<Rightarrow> OutboxRow list \<Rightarrow> nat" where
  "left i rows = sum_list (map (row_left i) rows)"

definition ahead :: "nat \<Rightarrow> OutboxRow list \<Rightarrow> nat" where
  "ahead i rows = sum_list (map (row_ahead i) rows)"

lemma ahead_filter: "ahead i rows = length (filter (\<lambda>r. undispatched r \<and> ob_outbox_id r < i) rows)"
  by (induction rows) (simp_all add: ahead_def row_ahead_def)

lemma sum_list_less:
  fixes f :: "'a \<Rightarrow> nat"
  assumes "\<And>x. x \<in> set xs \<Longrightarrow> f x \<le> g x" and "y \<in> set xs" and "f y < g y"
  shows "sum_list (map f xs) < sum_list (map g xs)"
  using assms
proof (induction xs)
  case (Cons x xs)
  have le: "sum_list (map f xs) \<le> sum_list (map g xs)" using Cons.prems(1) by (intro sum_list_mono) simp
  have fx: "f x \<le> g x" using Cons.prems(1) by simp
  show ?case
  proof (cases "y = x")
    case True
    then show ?thesis using le Cons.prems(3) by simp
  next
    case False
    then have "sum_list (map f xs) < sum_list (map g xs)" using Cons by simp
    then show ?thesis using fx by simp
  qed
qed simp

lemma left_zero:
  assumes "outbox_ok ob" and "left i (ob_rows ob) = 0" and "r \<in> set (ob_rows ob)" and "ob_outbox_id r = i"
  shows "\<not> undispatched r"
proof
  assume "undispatched r"
  then have "row_left i r > 0" using assms(1,3,4) by (auto simp: row_left_def outbox_ok_def)
  moreover have "row_left i r = 0" using assms(2,3) by (auto simp: left_def)
  ultimately show False by simp
qed

lemma row_measures_attempt:
  assumes "undispatched r"
  shows "row_left i (attempt enq now r) \<le> row_left i r" and "row_ahead i (attempt enq now r) \<le> row_ahead i r"
  using assms by (auto simp: row_left_def row_ahead_def)

lemma row_left_attempt_less:
  assumes "undispatched r" and "ob_attempts r < MAX_DISPATCH_ATTEMPTS" and "ob_outbox_id r = i"
  shows "row_left i (attempt enq now r) < row_left i r"
  using assms by (auto simp: row_left_def)

lemma attempted_measures:
  assumes "\<And>r. r \<in> set rows \<Longrightarrow> ob_outbox_id r \<in> ids \<Longrightarrow> undispatched r"
  shows "left i (attempted enq now ids rows) \<le> left i rows" and "ahead i (attempted enq now ids rows) \<le> ahead i rows"
  using assms row_measures_attempt
  by (auto simp: left_def ahead_def attempted_def comp_def intro!: sum_list_mono)

lemma attempted_left_less:
  assumes "\<And>r. r \<in> set rows \<Longrightarrow> ob_outbox_id r \<in> ids \<Longrightarrow> undispatched r"
    and "r \<in> set rows" and "ob_outbox_id r = i" and "i \<in> ids" and "ob_attempts r < MAX_DISPATCH_ATTEMPTS"
  shows "left i (attempted enq now ids rows) < left i rows"
  unfolding left_def attempted_def map_map comp_def
proof (rule sum_list_less [OF _ assms(2)])
  show "row_left i (if ob_outbox_id x \<in> ids then attempt enq now x else x) \<le> row_left i x" if "x \<in> set rows" for x
    using assms(1) [OF that] row_measures_attempt(1) by simp
  show "row_left i (if ob_outbox_id r \<in> ids then attempt enq now r else r) < row_left i r"
    using assms row_left_attempt_less by simp
qed

text \<open>An eligible row with fewer undispatched rows ahead of it than the window holds is in the window.\<close>

lemma in_sorted_prefix:
  assumes "distinct (map f xs)" and "x \<in> set xs" and "length (filter (\<lambda>y. f y < f x) xs) < n"
  shows "x \<in> set (take n (sort_key (f :: 'a \<Rightarrow> nat) xs))"
proof -
  let ?ys = "sort_key f xs"
  obtain k where k: "k < length ?ys" "?ys ! k = x" using assms(2) by (metis in_set_conv_nth set_sort)
  have "sorted (map f ?ys)" "distinct (map f ?ys)" using assms(1) by (simp_all add: distinct_map)
  then have "sorted_wrt (<) (map f ?ys)" by (simp add: strict_sorted_iff)
  then have less: "f (?ys ! j) < f x" if "j < k" for j
    using that k sorted_wrt_nth_less [of "(<)" "map f ?ys" j k] by auto
  have "k = length (take k ?ys)" using k by simp
  also have "\<dots> = length (filter (\<lambda>y. f y < f x) (take k ?ys))"
    using less k(1) by (subst filter_True) (auto simp: in_set_conv_nth)
  also have "\<dots> \<le> length (filter (\<lambda>y. f y < f x) ?ys)"
    by (metis append_take_drop_id filter_append length_append le_add1)
  also have "\<dots> = length (filter (\<lambda>y. f y < f x) xs)"
    by (simp add: filter_sort)
  finally show ?thesis using assms(3) k by (metis in_set_conv_nth length_take min_less_iff_conj nth_take order.strict_trans1)
qed

lemma in_window:
  assumes "outbox_ok ob" and "r \<in> set (ob_rows ob)" and "undispatched r"
    and "age > 0 \<longrightarrow> ob_created_at r \<le> now - secs (int age)" and "ahead (ob_outbox_id r) (ob_rows ob) < lim"
  shows "r \<in> set (pending [] now lim age ob)"
proof -
  let ?P = "\<lambda>r. undispatched r \<and> (age > 0 \<longrightarrow> ob_created_at r \<le> now - secs (int age))"
  have "length (filter (\<lambda>y. ob_outbox_id y < ob_outbox_id r) (filter ?P (ob_rows ob))) \<le>
      ahead (ob_outbox_id r) (ob_rows ob)"
    unfolding ahead_filter filter_filter length_filter_conv_card by (rule card_mono) auto
  then show ?thesis
    using assms in_sorted_prefix [of ob_outbox_id "filter ?P (ob_rows ob)" r lim]
    by (simp add: pending_def distinct_map_filter outbox_ok_def)
qed

lemma left_le: "distinct (map ob_outbox_id rows) \<Longrightarrow> left i rows \<le> MAX_DISPATCH_ATTEMPTS"
proof (induction rows)
  case (Cons r rows)
  show ?case
  proof (cases "ob_outbox_id r = i")
    case True
    then have "\<And>x. x \<in> set rows \<Longrightarrow> row_left i x = 0" using Cons.prems by (auto simp: row_left_def image_iff)
    then have "left i rows = 0" by (simp add: left_def)
    then have "left i (r # rows) = row_left i r" by (simp only: left_def list.map sum_list.Cons)
    then show ?thesis by (simp add: row_left_def)
  next
    case False
    then show ?thesis using Cons by (simp add: left_def row_left_def)
  qed
qed (simp add: left_def)

lemma left_pos: "left i rows > 0 \<Longrightarrow> \<exists>r \<in> set rows. row_left i r > 0"
  by (induction rows) (auto simp: left_def)

text \<open>What the argument follows about row \<open>i\<close>, created at \<open>c\<close>.\<close>

definition tracked :: "nat \<Rightarrow> instant \<Rightarrow> nat \<Rightarrow> outbox \<Rightarrow> bool" where
  "tracked i c lim ob \<longleftrightarrow> outbox_ok ob \<and> i < ob_next ob \<and> ahead i (ob_rows ob) < lim \<and>
     (\<forall>r \<in> set (ob_rows ob). ob_outbox_id r = i \<longrightarrow> ob_created_at r = c)"

definition covers :: "instant \<Rightarrow> nat \<Rightarrow> outbox_event \<Rightarrow> bool" where
  "covers c lim ev = (case ev of OE_Sweep enq now age l \<Rightarrow> lim \<le> l \<and> (age > 0 \<longrightarrow> c \<le> now - secs (int age)) | _ \<Rightarrow> False)"

lemma attempted_tracked:
  assumes "tracked i c lim ob" and "\<And>r. r \<in> set (ob_rows ob) \<Longrightarrow> ob_outbox_id r \<in> ids \<Longrightarrow> undispatched r"
  shows "tracked i c lim (ob\<lparr>ob_rows := attempted enq now ids (ob_rows ob)\<rparr>)"
  using assms attempted_ok [of ob ids enq now] attempted_measures(2) [of "ob_rows ob" ids i enq now]
  by (auto simp: tracked_def attempted_def)

lemma measures_append:
  "left i (xs @ [r]) = left i xs + row_left i r" "ahead i (xs @ [r]) = ahead i xs + row_ahead i r"
  by (simp_all add: left_def ahead_def)

lemma measures_filter: "left i (filter P rows) \<le> left i rows" "ahead i (filter P rows) \<le> ahead i rows"
  by (induction rows) (auto simp: left_def ahead_def)

lemma tracked_step:
  assumes t: "tracked i c lim ob"
  shows "tracked i c lim (outbox_step ev ob) \<and> left i (ob_rows (outbox_step ev ob)) \<le> left i (ob_rows ob) \<and>
    (covers c lim ev \<and> left i (ob_rows ob) > 0 \<longrightarrow> left i (ob_rows (outbox_step ev ob)) < left i (ob_rows ob))"
proof (cases ev)
  case (OE_Add now spec)
  then show ?thesis
    using t add_ok [of ob now spec]
    by (auto simp: tracked_def outbox_add_def measures_append row_left_def row_ahead_def covers_def)
next
  case (OE_Fast enq now locked ids)
  have u: "undispatched r" if "r \<in> set (ob_rows ob)" "ob_outbox_id r \<in> ob_outbox_id ` set (by_ids locked ids ob)" for r
    using pass_undispatched [OF _ that(1) set_by_ids that(2)] t by (simp add: tracked_def)
  show ?thesis
    using attempted_tracked [OF t u] attempted_measures(1) [OF u] t OE_Fast
    by (simp add: sweep_rows tracked_def outbox_ok_distinct covers_def)
next
  case (OE_Sweep enq now age l)
  let ?ids = "ob_outbox_id ` set (pending [] now l age ob)"
  have u: "undispatched r" if "r \<in> set (ob_rows ob)" "ob_outbox_id r \<in> ?ids" for r
    using pass_undispatched [OF _ that(1) set_pending that(2)] t by (simp add: tracked_def)
  have step: "outbox_step ev ob = ob\<lparr>ob_rows := attempted enq now ?ids (ob_rows ob)\<rparr>"
    using OE_Sweep t by (simp add: sweep_rows tracked_def outbox_ok_distinct)
  have "left i (attempted enq now ?ids (ob_rows ob)) < left i (ob_rows ob)"
    if cov: "covers c lim ev" and pos: "left i (ob_rows ob) > 0"
  proof -
    obtain r where r: "r \<in> set (ob_rows ob)" "row_left i r > 0"
      using left_pos [OF pos] by blast
    then have i: "ob_outbox_id r = i" "undispatched r" by (auto simp: row_left_def split: if_splits)
    then have "r \<in> set (pending [] now l age ob)"
      using in_window [of ob r age now l] r(1) cov t OE_Sweep by (auto simp: tracked_def covers_def)
    moreover have "ob_attempts r < MAX_DISPATCH_ATTEMPTS" using t r(1) i(2) by (auto simp: tracked_def outbox_ok_def)
    ultimately show ?thesis using attempted_left_less [OF u r(1) i(1)] i(1) by blast
  qed
  then show ?thesis using attempted_tracked [OF t u] attempted_measures(1) [OF u] by (simp add: step)
next
  case (OE_Purge now age)
  let ?P = "\<lambda>r. \<not> (\<not> ob_dead r \<and> (case ob_dispatched_at r of None \<Rightarrow> False | Some d \<Rightarrow> d < now - secs (int age)))"
  show ?thesis
    using t purge_ok [of ob now age] measures_filter [of i ?P "ob_rows ob"] OE_Purge
    by (auto simp: tracked_def purge_dispatched_def Let_def covers_def)
qed

lemma tracked_run:
  assumes "tracked i c lim ob"
  shows "outbox_ok (fold outbox_step evs ob) \<and>
    left i (ob_rows (fold outbox_step evs ob)) \<le> left i (ob_rows ob) - length (filter (covers c lim) evs)"
  using assms
proof (induction evs arbitrary: ob)
  case (Cons ev evs)
  note st = tracked_step [OF Cons.prems, of ev]
  show ?case using Cons.IH [OF conjunct1 [OF st]] st by (cases "covers c lim ev"; cases "left i (ob_rows ob)") auto
qed (simp add: tracked_def)


text \<open>A receipt blocks its key. While any row with an idempotency key is in the table, dispatched and
  already executed or not, a new job with that key is dropped: nothing is added, so nothing will run
  for it. The archive job of a thread has one key for every message of the thread, and so has the
  reconciler's repair of it; both wait until the receipt is purged, and a dead row is never purged.\<close>

lemma receipt_blocks_key:
  assumes "r \<in> set (ob_rows ob)" and "js_idempotency_key (ob_spec r) = Some k"
    and "js_idempotency_key spec = Some k"
  shows "outbox_add now spec ob = (None, ob) \<and>
    (ob_dead r \<longrightarrow> r \<in> set (ob_rows (snd (purge_dispatched now' age ob))))"
  using assms by (auto simp: outbox_add_def has_key_def list_ex_iff purge_dispatched_def)

subsection \<open>Worker pools\<close>

text \<open>Every queue is served by a pool that has a slot, and without a model the pools' slots exceed the
  CPUs only by the slots that keep a pool alive.\<close>

lemma worker_pools_serve:
  assumes "indexing > 0"
  shows "\<exists>(qs, n) \<in> set (worker_pools concurrency indexing llm). q \<in> set qs \<and> n > 0"
  using assms
  by (cases q; cases llm) (simp_all add: worker_pools_def Let_def CHAT_QUEUES_def INDEXING_QUEUES_def GRAPH_QUEUES_def
      SHORT_WITHOUT_A_MODEL_def all_queues_def less_max_iff_disj)

lemma worker_pools_slots:
  "concurrency \<ge> 5 \<Longrightarrow> sum_list (map snd (worker_pools concurrency indexing False)) \<le> concurrency"
  by (simp add: worker_pools_def Let_def)

subsection \<open>A concrete table\<close>

definition demo_spec :: "string option \<Rightarrow> JobSpec" where
  "demo_spec key = \<lparr>js_task_name = ''archive.stage_message'', js_queue = Q_ARCHIVE, js_payload = [],
     js_idempotency_key = key, js_lock = None, js_priority = None, js_schedule_in_seconds = None,
     js_tenant_id = Some ''acme''\<rparr>"

definition demo_outbox :: outbox where
  "demo_outbox = snd (outbox_add 0 (demo_spec (Some ''k'')) \<lparr>ob_rows = [], ob_next = 1\<rparr>)"


end
