(* ===== verification/Conversation.thy ===== *)
theory Conversation
  imports Hot_Thread Outbox Tenancy_Service
begin

text \<open>
  The conversation service (\<open>modules/conversation/service.py\<close>), the jobs it enqueues
  (\<open>modules/conversation/summary.py\<close>), the observation a message becomes (\<open>domain/observation.py\<close>) and the
  message routes (\<open>api/routers/v1/conversation.py\<close>).

  An operation runs inside one unit of work: the state is the conversation tables, the platform (tenancy
  tables, authorization store and revisions), the observations, the outbox with the ids the unit of
  work added, and the hot thread cache. When an operation raises, the state shown is the one it had reached;
  the unit of work discards its tables, the authorization store and the cache keep theirs. Locks
  (\<open>uow.serialize\<close>) order the writers of a thread: operations on one thread are run one after
  another. The clock, fresh ids, the hash functions, the length of a text in UTF-8 and the language
  guess (\<open>domain/language.py\<close>) are the fields of \<open>conv_env\<close>.
\<close>

datatype ObservationKind =
    OK_MESSAGE | OK_FILE | OK_AGENT_RESULT | OK_TOOL_RESULT | OK_DECISION | OK_FEEDBACK | OK_EVENT | OK_IMPORT

text \<open>Observations of messages carry the default processing hints, which have no field here.\<close>

record Observation =
  ov_observation_id :: string
  ov_tenant_id :: string
  ov_kind :: ObservationKind
  ov_content :: string
  ov_content_hash :: string
  ov_workspace_id :: "string option"
  ov_user_id :: "string option"
  ov_thread_id :: "string option"
  ov_session_id :: "string option"
  ov_turn_id :: "string option"
  ov_work_id :: "string option"
  ov_task_id :: "string option"
  ov_agent_id :: "string option"
  ov_agent_group_id :: "string option"
  ov_agent_run_id :: "string option"
  ov_parent_agent_run_id :: "string option"
  ov_principal_id :: string
  ov_trace_id :: "string option"
  ov_message_id :: "string option"
  ov_document_id :: "string option"
  ov_tool_run_id :: "string option"
  ov_source_system :: "string option"
  ov_source_id :: "string option"
  ov_custom_metadata :: metadata
  ov_occurred_at :: instant
  ov_created_at :: instant
  ov_processed_at :: "instant option"
  ov_lang :: string

fun role_value :: "MessageRole \<Rightarrow> string" where
  "role_value RO_USER = ''USER''"
| "role_value RO_ASSISTANT = ''ASSISTANT''"
| "role_value RO_SYSTEM = ''SYSTEM''"
| "role_value RO_TOOL = ''TOOL''"
| "role_value RO_AGENT = ''AGENT''"
| "role_value RO_EVENT = ''EVENT''"

fun message_kind_value :: "MessageKind \<Rightarrow> string" where
  "message_kind_value VISIBLE = ''VISIBLE''"
| "message_kind_value INTERNAL = ''INTERNAL''"

record conv_env =
  ce_now :: instant
  ce_blake2b :: "string \<Rightarrow> string"
  ce_sha256 :: "string \<Rightarrow> string"
  ce_utf8_len :: "string \<Rightarrow> nat"
  ce_detect_language :: "string \<Rightarrow> string"
  ce_thread_ulid :: string
  ce_message_ulid :: string
  ce_observation_ulid :: string
  ce_archive_enabled :: bool

record conv =
  co_db :: conv_db
  co_platform :: platform
  co_observations :: "Observation list"
  co_outbox :: outbox
  co_pending :: "nat list"
  co_hot :: hot_thread

type_synonym 'a conv_op = "conv \<Rightarrow> (service_error + 'a) \<times> conv"

subsection \<open>The unit of work\<close>

definition enqueue :: "instant \<Rightarrow> JobSpec \<Rightarrow> nat option conv_op" where
  "enqueue now spec w =
     (case outbox_add now spec (co_outbox w) of (i, ob) \<Rightarrow>
        (Inr i, w\<lparr>co_outbox := ob, co_pending := co_pending w @ (case i of None \<Rightarrow> [] | Some n \<Rightarrow> [n])\<rparr>))"

definition bump :: "string \<Rightarrow> RevisionKind \<Rightarrow> string \<Rightarrow> unit conv_op" where
  "bump t kind i w = (Inr (), w\<lparr>co_platform := (co_platform w)\<lparr>pf_revisions :=
     map_option (\<lambda>R. snd (rev_bump t kind i R)) (pf_revisions (co_platform w))\<rparr>\<rparr>)"

definition access :: "exec_context \<Rightarrow> string \<Rightarrow> string \<Rightarrow> string \<Rightarrow> unit conv_op" where
  "access c rel obj_type i w =
     (case require_access c rel obj_type i (pf_authz (co_platform w)) of
        (r, a) \<Rightarrow> (r, w\<lparr>co_platform := (co_platform w)\<lparr>pf_authz := a\<rparr>\<rparr>))"

definition member_gate :: "exec_context \<Rightarrow> Workspace option conv_op" where
  "member_gate c w = (case require_workspace_member True c (co_platform w) of
     (r, pf) \<Rightarrow> (r, w\<lparr>co_platform := pf\<rparr>))"

definition grant_thread_op :: "exec_context \<Rightarrow> string \<Rightarrow> string option \<Rightarrow> unit conv_op" where
  "grant_thread_op c i ws w =
     (case grant_thread c i ws (pf_authz (co_platform w), pf_revisions (co_platform w)) of
        (r, a, ro) \<Rightarrow> (r, w\<lparr>co_platform := (co_platform w)\<lparr>pf_authz := a, pf_revisions := ro\<rparr>\<rparr>))"

text \<open>A repository call on the conversation tables.\<close>

definition on_db :: "(conv_db \<Rightarrow> service_error + conv_db) \<Rightarrow> unit conv_op" where
  "on_db f w = (case f (co_db w) of Inl e \<Rightarrow> (Inl e, w) | Inr db \<Rightarrow> (Inr (), w\<lparr>co_db := db\<rparr>))"

definition observations_add :: "Observation \<Rightarrow> unit conv_op" where
  "observations_add ov w =
     (if list_ex (\<lambda>x. ov_observation_id x = ov_observation_id ov) (co_observations w) then (Inl IntegrityError, w)
      else (Inr (), w\<lparr>co_observations := co_observations w @ [ov]\<rparr>))"

definition check_op :: "bool \<Rightarrow> service_error \<Rightarrow> unit conv_op" where
  "check_op ok e w = (if ok then Inr () else Inl e, w)"

subsection \<open>Threads\<close>

definition new_thread :: "conv_env \<Rightarrow> exec_context \<Rightarrow> string \<Rightarrow> string option \<Rightarrow> metadata option \<Rightarrow>
    string option \<Rightarrow> string option \<Rightarrow> Thread" where
  "new_thread env c i title custom ssys sid =
     \<lparr>th_thread_id = i, th_tenant_id = ctx_tenant_id c, th_workspace_id = ctx_workspace_id c,
      th_owner_user_id = ctx_user_id c, th_title = title, th_source_system = ssys, th_source_thread_id = sid,
      th_system_metadata = [], th_custom_metadata = (case custom of None \<Rightarrow> [] | Some m \<Rightarrow> m), th_revision = 0,
      th_created_at = ce_now env, th_updated_at = ce_now env, th_archived_at = None, th_deleted_at = None\<rparr>"

definition create_thread :: "conv_env \<Rightarrow> exec_context \<Rightarrow> string option \<Rightarrow> string option \<Rightarrow> metadata option \<Rightarrow>
    string option \<Rightarrow> string option \<Rightarrow> Thread conv_op" where
  "create_thread env c thread_id title custom ssys sid w =
     (let named = por thread_id (ctx_thread_id c) in
      case (if truthy named then Inr (or_empty named) else new_id (ce_thread_ulid env) ''thread'') of
        Inl e \<Rightarrow> (Inl e, w)
      | Inr i \<Rightarrow>
          (case threads_get (co_db w) (ctx_tenant_id c) i of
             Some th \<Rightarrow> sbind (access c ''can_read'' ''thread'' i) (\<lambda>_ w. (Inr th, w)) w
           | None \<Rightarrow>
               (let th = new_thread env c i title custom ssys sid in
                sbind (member_gate c) (\<lambda>team.
                sbind (on_db (threads_add th)) (\<lambda>_.
                sbind (grant_thread_op c i (map_option ws_workspace_id team)) (\<lambda>_.
                sbind (bump (ctx_tenant_id c) R_THREAD i) (\<lambda>_.
                sbind (if truthy (ctx_user_id c) then bump (ctx_tenant_id c) R_USER (or_empty (ctx_user_id c))
                       else (\<lambda>w. (Inr (), w))) (\<lambda>_ w. (Inr th, w)))))) w)))"

definition may_write_thread :: "exec_context \<Rightarrow> string \<Rightarrow> bool conv_op" where
  "may_write_thread c i w =
     (case allowed c ''can_write'' ''thread'' i (pf_authz (co_platform w)) of
        (r, a) \<Rightarrow> (r, w\<lparr>co_platform := (co_platform w)\<lparr>pf_authz := a\<rparr>\<rparr>))"

definition asked :: "exec_context \<Rightarrow> string \<Rightarrow> bool option \<Rightarrow> bool conv_op" where
  "asked c i may_write = (case may_write of None \<Rightarrow> may_write_thread c i | Some b \<Rightarrow> (\<lambda>w. (Inr b, w)))"

definition touch_thread :: "instant \<Rightarrow> string \<Rightarrow> string \<Rightarrow> string option \<Rightarrow> metadata option \<Rightarrow> nat conv_op" where
  "touch_thread now t i title custom w =
     (case threads_touch now t i title custom (co_db w) of (n, db) \<Rightarrow> (Inr n, w\<lparr>co_db := db\<rparr>))"

definition patch_thread :: "conv_env \<Rightarrow> exec_context \<Rightarrow> string \<Rightarrow> string option \<Rightarrow> metadata option \<Rightarrow> bool option \<Rightarrow>
    Thread conv_op" where
  "patch_thread env c i title custom may_write =
     sbind (asked c i may_write) (\<lambda>ok w.
       case threads_get (co_db w) (ctx_tenant_id c) i of
         None \<Rightarrow> create_thread env c (Some i) title custom None None w
       | Some existing \<Rightarrow>
           sbind (if ok then (\<lambda>w. (Inr (), w)) else access c ''can_write'' ''thread'' i) (\<lambda>_.
             if title = None \<and> custom = None then (\<lambda>w. (Inr existing, w))
             else sbind (touch_thread (ce_now env) (ctx_tenant_id c) i title custom) (\<lambda>_.
                  sbind (bump (ctx_tenant_id c) R_THREAD i) (\<lambda>_ w.
                    case threads_get (co_db w) (ctx_tenant_id c) i of
                      None \<Rightarrow> (Inl AssertionError, w) | Some updated \<Rightarrow> (Inr updated, w)))) w)"

definition get_thread :: "exec_context \<Rightarrow> string \<Rightarrow> Thread conv_op" where
  "get_thread c i w =
     (case threads_get (co_db w) (ctx_tenant_id c) i of
        None \<Rightarrow> (Inl NotFound, w)
      | Some th \<Rightarrow> sbind (access c ''can_read'' ''thread'' i) (\<lambda>_ w. (Inr th, w)) w)"

definition deleted_job :: "string \<Rightarrow> string \<Rightarrow> JobSpec" where
  "deleted_job t i =
     \<lparr>js_task_name = ''episode.index'', js_queue = Q_SUMMARY,
      js_payload = [(''tenant_id'', Some t), (''thread_id'', Some i)],
      js_idempotency_key = Some (''episode:'' @ t @ '':'' @ i @ '':deleted''), js_lock = None, js_priority = None,
      js_schedule_in_seconds = None, js_tenant_id = Some t\<rparr>"

definition delete_thread :: "conv_env \<Rightarrow> exec_context \<Rightarrow> string \<Rightarrow> unit conv_op" where
  "delete_thread env c i w =
     (case threads_get (co_db w) (ctx_tenant_id c) i of
        None \<Rightarrow> (Inl NotFound, w)
      | Some th \<Rightarrow>
          sbind (access c ''can_write'' ''thread'' i) (\<lambda>_.
          sbind (\<lambda>w. (Inr (), w\<lparr>co_db := snd (threads_soft_delete (ce_now env) (ctx_tenant_id c) i (co_db w))\<rparr>)) (\<lambda>_.
          sbind (bump (ctx_tenant_id c) R_THREAD i) (\<lambda>_.
          sbind (if truthy (th_owner_user_id th) then bump (ctx_tenant_id c) R_USER (or_empty (th_owner_user_id th))
                 else (\<lambda>w. (Inr (), w))) (\<lambda>_.
          sbind (enqueue (ce_now env) (deleted_job (ctx_tenant_id c) i)) (\<lambda>_ w.
            (Inr (), w\<lparr>co_hot := hot_invalidate (ctx_tenant_id c) i (co_hot w)\<rparr>)))))) w)"

subsection \<open>Appending a message\<close>

definition SUMMARY_EVERY :: nat where "SUMMARY_EVERY = 20"
definition EPISODE_INDEX_DELAY_SECONDS :: nat where "EPISODE_INDEX_DELAY_SECONDS = 120"

definition enqueue_refresh :: "instant \<Rightarrow> string \<Rightarrow> string \<Rightarrow> string \<Rightarrow> nat option conv_op" where
  "enqueue_refresh now t i who =
     enqueue now \<lparr>js_task_name = ''summary.refresh'', js_queue = Q_SUMMARY,
       js_payload = [(''tenant_id'', Some t), (''thread_id'', Some i), (''principal_id'', Some who)],
       js_idempotency_key = None, js_lock = None, js_priority = None, js_schedule_in_seconds = None,
       js_tenant_id = Some t\<rparr>"

definition episode_window :: "instant \<Rightarrow> nat" where
  "episode_window now = nat (now div secs (int EPISODE_INDEX_DELAY_SECONDS))"

definition enqueue_episode_index :: "instant \<Rightarrow> string \<Rightarrow> string \<Rightarrow> nat option conv_op" where
  "enqueue_episode_index now t i =
     enqueue now \<lparr>js_task_name = ''episode.index'', js_queue = Q_SUMMARY,
       js_payload = [(''tenant_id'', Some t), (''thread_id'', Some i)],
       js_idempotency_key = Some (''episode:'' @ t @ '':'' @ i @ '':'' @ show_nat (episode_window now)),
       js_lock = None, js_priority = None, js_schedule_in_seconds = Some EPISODE_INDEX_DELAY_SECONDS,
       js_tenant_id = Some t\<rparr>"

definition observation_job :: "exec_context \<Rightarrow> string \<Rightarrow> JobSpec" where
  "observation_job c oid =
     \<lparr>js_task_name = ''memory.process_observation'', js_queue = Q_CHAT_FAST,
      js_payload = [(''tenant_id'', Some (ctx_tenant_id c)), (''observation_id'', Some oid), (''trace_id'', Some (ctx_trace_id c))],
      js_idempotency_key = Some (''obs:'' @ oid),
      js_lock = Some (''observe:'' @ ctx_tenant_id c @ '':'' @ or_empty (ctx_thread_id c)),
      js_priority = None, js_schedule_in_seconds = None, js_tenant_id = Some (ctx_tenant_id c)\<rparr>"

definition archive_job :: "string \<Rightarrow> string \<Rightarrow> JobSpec" where
  "archive_job t i =
     \<lparr>js_task_name = ''archive.stage_message'', js_queue = Q_ARCHIVE,
      js_payload = [(''tenant_id'', Some t), (''thread_id'', Some i)],
      js_idempotency_key = Some (''archive:thread:'' @ t @ '':'' @ i), js_lock = Some (''archive:'' @ t @ '':'' @ i),
      js_priority = None, js_schedule_in_seconds = Some 60, js_tenant_id = Some t\<rparr>"

record MessageAck =
  ack_message_id :: string
  ack_thread_id :: string
  ack_session_id :: string
  ack_turn_id :: string
  ack_sequence :: nat
  ack_job_ids :: "string list"
  ack_deduplicated :: bool
  ack_observation_id :: "string option"

record AppendResult =
  res_ack :: MessageAck
  res_message :: "Message option"
  res_revision :: nat

record append_request =
  ap_role :: MessageRole
  ap_content :: string
  ap_kind :: MessageKind
  ap_attachments :: "Attachment list"
  ap_custom_metadata :: "metadata option"
  ap_occurred_at :: "instant option"
  ap_source_system :: "string option"
  ap_source_message_id :: "string option"
  ap_parent_message_id :: "string option"
  ap_tool_calls :: "MessageToolCall list"
  ap_tool_call_id :: "string option"

definition effective_kind :: "append_request \<Rightarrow> MessageKind" where
  "effective_kind q = (if ap_role q = RO_EVENT then INTERNAL else ap_kind q)"

text \<open>The refusals before anything is read.\<close>

definition refused :: "exec_context \<Rightarrow> append_request \<Rightarrow> bool" where
  "refused c q \<longleftrightarrow> \<not> truthy (ctx_thread_id c) \<or>
     (effective_kind q = VISIBLE \<and> ap_role q \<notin> {RO_USER, RO_ASSISTANT, RO_SYSTEM}) \<or>
     (effective_kind q = INTERNAL \<and> ctx_agent_id c = None \<and> ap_role q = RO_AGENT) \<or>
     tool_fields_problem (ap_role q) (ap_tool_calls q) (ap_tool_call_id q)"

definition lineage :: "(string \<Rightarrow> string) \<Rightarrow> conv_db \<Rightarrow> exec_context \<Rightarrow> MessageRole \<Rightarrow> exec_context" where
  "lineage blake2b db c role =
     (if truthy (ctx_session_id c) \<and> truthy (ctx_turn_id c) then c
      else let t = ctx_tenant_id c; i = or_empty (ctx_thread_id c);
               session_id = (if truthy (ctx_session_id c) then or_empty (ctx_session_id c)
                             else thread_session_id blake2b t i);
               turn_id = (case ctx_turn_id c of Some u \<Rightarrow> u
                 | None \<Rightarrow>
                    (case (if role = RO_USER then None else turns_latest db t i) of
                       Some latest \<Rightarrow> if tu_session_id latest = session_id then tu_turn_id latest
                                     else thread_turn_id blake2b t i (turns_next_sequence db t i)
                     | None \<Rightarrow> thread_turn_id blake2b t i (turns_next_sequence db t i)))
           in c\<lparr>ctx_session_id := Some session_id, ctx_turn_id := Some turn_id\<rparr>)"

definition ensure_session :: "instant \<Rightarrow> exec_context \<Rightarrow> conv_db \<Rightarrow> service_error + conv_db" where
  "ensure_session now c db =
     (case sessions_get db (ctx_tenant_id c) (or_empty (ctx_session_id c)) of
        None \<Rightarrow> sessions_add \<lparr>se_session_id = or_empty (ctx_session_id c), se_thread_id = or_empty (ctx_thread_id c),
            se_tenant_id = ctx_tenant_id c, se_user_id = ctx_user_id c,
            se_client = Some (case map_of (ctx_custom_metadata c) ''client'' of None \<Rightarrow> ''sdk'' | Some v \<Rightarrow> v),
            se_started_at = now, se_custom_metadata = []\<rparr> db
      | Some s \<Rightarrow> if se_thread_id s \<noteq> or_empty (ctx_thread_id c) then Inl ValidationFailed else Inr db)"

definition ensure_turn :: "instant \<Rightarrow> exec_context \<Rightarrow> conv_db \<Rightarrow> service_error + conv_db" where
  "ensure_turn now c db =
     (case turns_get db (ctx_tenant_id c) (or_empty (ctx_turn_id c)) of
        None \<Rightarrow> turns_add \<lparr>tu_turn_id = or_empty (ctx_turn_id c), tu_session_id = or_empty (ctx_session_id c),
            tu_thread_id = or_empty (ctx_thread_id c), tu_tenant_id = ctx_tenant_id c,
            tu_sequence = turns_next_sequence db (ctx_tenant_id c) (or_empty (ctx_thread_id c)),
            tu_started_at = now, tu_custom_metadata = []\<rparr> db
      | Some u \<Rightarrow> if tu_session_id u \<noteq> or_empty (ctx_session_id c) then Inl ValidationFailed else Inr db)"

definition ensure_session_and_turn :: "instant \<Rightarrow> exec_context \<Rightarrow> conv_db \<Rightarrow> service_error + conv_db" where
  "ensure_session_and_turn now c db = rbind (ensure_session now c db) (ensure_turn now c)"

definition ensure_agent_run :: "instant \<Rightarrow> exec_context \<Rightarrow> conv_db \<Rightarrow> service_error + conv_db" where
  "ensure_agent_run now c db =
     (if \<not> truthy (ctx_agent_id c) then Inl AssertionError
      else case runs_get db (ctx_tenant_id c) (or_empty (ctx_agent_run_id c)) of
        None \<Rightarrow> runs_add \<lparr>ar_agent_run_id = or_empty (ctx_agent_run_id c), ar_tenant_id = ctx_tenant_id c,
            ar_thread_id = ctx_thread_id c, ar_session_id = ctx_session_id c, ar_turn_id = ctx_turn_id c,
            ar_work_id = ctx_work_id c, ar_task_id = ctx_task_id c, ar_agent_id = or_empty (ctx_agent_id c),
            ar_agent_group_id = ctx_agent_group_id c, ar_parent_agent_run_id = ctx_parent_agent_run_id c,
            ar_status = ''RUNNING'', ar_started_at = now, ar_completed_at = None,
            ar_run_trace_id = Some (ctx_trace_id c), ar_custom_metadata = []\<rparr> db
      | Some _ \<Rightarrow> Inr db)"

definition new_message :: "conv_env \<Rightarrow> exec_context \<Rightarrow> append_request \<Rightarrow> nat \<Rightarrow> Message" where
  "new_message env c q seq =
     \<lparr>ms_message_id = ''msg_'' @ ce_message_ulid env, ms_thread_id = or_empty (ctx_thread_id c),
      ms_session_id = or_empty (ctx_session_id c), ms_turn_id = or_empty (ctx_turn_id c), ms_tenant_id = ctx_tenant_id c,
      ms_role = ap_role q, ms_kind = effective_kind q, ms_sequence = seq, ms_content = sanitise (ap_content q),
      ms_content_hash = ce_sha256 env (sanitise (ap_content q)), ms_version = 1, ms_author_principal = principal_id c,
      ms_agent_run_id = ctx_agent_run_id c, ms_parent_message_id = ap_parent_message_id q,
      ms_attachments = ap_attachments q, ms_tool_calls = ap_tool_calls q, ms_tool_call_id = ap_tool_call_id q,
      ms_source_system = ap_source_system q, ms_source_message_id = ap_source_message_id q,
      ms_occurred_at = (case ap_occurred_at q of None \<Rightarrow> ce_now env | Some x \<Rightarrow> x), ms_created_at = ce_now env,
      ms_archive_status = AS_STAGED,
      ms_system_metadata = [(''trace_id'', ctx_trace_id c), (''request_id'', ctx_request_id c)],
      ms_custom_metadata = (case ap_custom_metadata q of None \<Rightarrow> [] | Some m \<Rightarrow> m), ms_deleted_at = None\<rparr>"

definition new_observation :: "conv_env \<Rightarrow> exec_context \<Rightarrow> append_request \<Rightarrow> Message \<Rightarrow> Observation" where
  "new_observation env c q m =
     \<lparr>ov_observation_id = ''obs_'' @ ce_observation_ulid env, ov_tenant_id = ctx_tenant_id c,
      ov_kind = (if ap_role q = RO_EVENT then OK_EVENT else OK_MESSAGE), ov_content = ms_content m,
      ov_content_hash = ms_content_hash m, ov_workspace_id = ctx_workspace_id c, ov_user_id = ctx_user_id c,
      ov_thread_id = ctx_thread_id c, ov_session_id = ctx_session_id c, ov_turn_id = ctx_turn_id c,
      ov_work_id = ctx_work_id c, ov_task_id = ctx_task_id c, ov_agent_id = ctx_agent_id c,
      ov_agent_group_id = ctx_agent_group_id c, ov_agent_run_id = ctx_agent_run_id c,
      ov_parent_agent_run_id = ctx_parent_agent_run_id c, ov_principal_id = principal_id c,
      ov_trace_id = Some (ctx_trace_id c), ov_message_id = Some (ms_message_id m), ov_document_id = None,
      ov_tool_run_id = None, ov_source_system = ap_source_system q, ov_source_id = ap_source_message_id q,
      ov_custom_metadata = [(''role'', role_value (ap_role q)), (''kind'', message_kind_value (effective_kind q))],
      ov_occurred_at = ms_occurred_at m, ov_created_at = ce_now env, ov_processed_at = None,
      ov_lang = ce_detect_language env (ms_content m)\<rparr>"

definition job_name :: "nat option \<Rightarrow> string list" where
  "job_name i = (case i of None \<Rightarrow> [] | Some n \<Rightarrow> [''obx_'' @ show_nat n])"

definition dup_result :: "Message \<Rightarrow> AppendResult" where
  "dup_result d = \<lparr>res_ack = \<lparr>ack_message_id = ms_message_id d, ack_thread_id = ms_thread_id d,
       ack_session_id = ms_session_id d, ack_turn_id = ms_turn_id d, ack_sequence = ms_sequence d, ack_job_ids = [],
       ack_deduplicated = True, ack_observation_id = None\<rparr>, res_message = None, res_revision = 0\<rparr>"

text \<open>The rows and jobs of one message, once its session, turn and agent run exist.\<close>

definition record_message :: "conv_env \<Rightarrow> exec_context \<Rightarrow> append_request \<Rightarrow> AppendResult conv_op" where
  "record_message env c q w =
     (let t = ctx_tenant_id c; i = or_empty (ctx_thread_id c);
          m = new_message env c q (messages_next_sequence (co_db w) t i);
          ov = new_observation env c q m
      in sbind (on_db (messages_add (ce_utf8_len env) m)) (\<lambda>_.
         sbind (observations_add ov) (\<lambda>_.
         sbind (enqueue (ce_now env) (observation_job c (ov_observation_id ov))) (\<lambda>j1.
         sbind (if ce_archive_enabled env then enqueue (ce_now env) (archive_job t i) else (\<lambda>w. (Inr None, w))) (\<lambda>j2.
         sbind (if ms_sequence m mod SUMMARY_EVERY = 0 then enqueue_refresh (ce_now env) t i (principal_id c)
                else if effective_kind q = VISIBLE then enqueue_episode_index (ce_now env) t i
                else (\<lambda>w. (Inr None, w))) (\<lambda>_.
         sbind (touch_thread (ce_now env) t i None None) (\<lambda>revision.
         sbind (bump t R_THREAD i) (\<lambda>_ w.
           (Inr \<lparr>res_ack = \<lparr>ack_message_id = ms_message_id m, ack_thread_id = i,
               ack_session_id = or_empty (ctx_session_id c), ack_turn_id = or_empty (ctx_turn_id c),
               ack_sequence = ms_sequence m, ack_job_ids = job_name j1 @ job_name j2, ack_deduplicated = False,
               ack_observation_id = Some (ov_observation_id ov)\<rparr>, res_message = Some m, res_revision = revision\<rparr>,
            w)))))))) w)"

text \<open>What follows the check for a duplicate; \<open>c\<close> is the context with its lineage filled in.\<close>

definition store_message :: "conv_env \<Rightarrow> exec_context \<Rightarrow> append_request \<Rightarrow> AppendResult conv_op" where
  "store_message env c q =
     sbind (check_op (truthy (ctx_thread_id c) \<and> truthy (ctx_session_id c) \<and> truthy (ctx_turn_id c)) AssertionError) (\<lambda>_.
     sbind (on_db (ensure_session_and_turn (ce_now env) c)) (\<lambda>_.
     sbind (if truthy (ctx_agent_run_id c) then on_db (ensure_agent_run (ce_now env) c) else (\<lambda>w. (Inr (), w))) (\<lambda>_.
       record_message env c q)))"

definition duplicate_of :: "conv_db \<Rightarrow> exec_context \<Rightarrow> append_request \<Rightarrow> Message option" where
  "duplicate_of db c q =
     (if truthy (ap_source_system q) \<and> truthy (ap_source_message_id q)
      then find_by_source db (ctx_tenant_id c) (or_empty (ap_source_system q)) (or_empty (ap_source_message_id q))
      else None)"

definition append_message :: "conv_env \<Rightarrow> exec_context \<Rightarrow> append_request \<Rightarrow> bool option \<Rightarrow> AppendResult conv_op" where
  "append_message env c q may_write =
     sbind (check_op (\<not> refused c q) ValidationFailed) (\<lambda>_.
     sbind (asked c (or_empty (ctx_thread_id c)) may_write) (\<lambda>ok.
     sbind (\<lambda>w. case threads_get (co_db w) (ctx_tenant_id c) (or_empty (ctx_thread_id c)) of
          None \<Rightarrow> sbind (create_thread env c (ctx_thread_id c) None None None None) (\<lambda>_ w. (Inr (), w)) w
        | Some _ \<Rightarrow> (if ok then (Inr (), w) else access c ''can_write'' ''thread'' (or_empty (ctx_thread_id c)) w)) (\<lambda>_ w.
     case duplicate_of (co_db w) c q of
       Some d \<Rightarrow> (Inr (dup_result d), w)
     | None \<Rightarrow> store_message env (lineage (ce_blake2b env) (co_db w) c (ap_role q)) q w)))"

definition after_commit :: "instant \<Rightarrow> AppendResult \<Rightarrow> conv \<Rightarrow> conv" where
  "after_commit now r w = (case res_message r of None \<Rightarrow> w
     | Some m \<Rightarrow> w\<lparr>co_hot := hot_append now m (res_revision r) (co_hot w)\<rparr>)"

subsection \<open>Reading messages\<close>

definition list_messages :: "instant \<Rightarrow> exec_context \<Rightarrow> string \<Rightarrow> nat \<Rightarrow> nat option \<Rightarrow> bool \<Rightarrow> Message list conv_op" where
  "list_messages now c i lim before include_internal w =
     (case threads_get (co_db w) (ctx_tenant_id c) i of
        None \<Rightarrow> (Inl NotFound, w)
      | Some th \<Rightarrow>
          sbind (access c ''can_read'' ''thread'' i) (\<lambda>_ w.
            let newest = (\<not> include_internal \<and> before = None);
                rows = (\<lambda>db. list_thread db (ctx_tenant_id c) i lim before include_internal) in
            if newest then
              (case hot_recent now (ctx_tenant_id c) i lim (Some (th_revision th)) (co_hot w) of
                 (Inl e, h) \<Rightarrow> (Inl e, w\<lparr>co_hot := h\<rparr>)
               | (Inr (Some ms), h) \<Rightarrow> (Inr ms, w\<lparr>co_hot := h\<rparr>)
               | (Inr None, h) \<Rightarrow>
                   (let ms = rows (co_db w) in
                    (Inr ms, w\<lparr>co_hot := hot_refill now (ctx_tenant_id c) i ms (th_revision th) h\<rparr>)))
            else (Inr (rows (co_db w)), w)) w)"

definition window_messages :: "exec_context \<Rightarrow> string \<Rightarrow> nat \<Rightarrow> nat \<Rightarrow> Message list conv_op" where
  "window_messages c i turns lim w =
     (if threads_get (co_db w) (ctx_tenant_id c) i = None then (Inr [], w)
      else sbind (access c ''can_read'' ''thread'' i) (\<lambda>_ w. (Inr (list_window (co_db w) (ctx_tenant_id c) i turns lim), w)) w)"

definition get_message :: "exec_context \<Rightarrow> string \<Rightarrow> Message conv_op" where
  "get_message c i w =
     (case messages_get (co_db w) (ctx_tenant_id c) i of
        None \<Rightarrow> (Inl NotFound, w)
      | Some m \<Rightarrow>
          sbind (access c ''can_read'' ''thread'' (ms_thread_id m)) (\<lambda>_ w.
            if ms_kind m = INTERNAL \<and> \<not> is_agent c \<and> ms_author_principal m \<noteq> principal_id c
            then (Inl (ScopeDenied ''Internal messages are not visible to this principal''), w)
            else (Inr m, w)) w)"

end
