(* ===== verification/Conversation_Facts.thy ===== *)
theory Conversation_Facts
  imports Conversation
begin

text \<open>
  What the conversation tables keep: one gapless numbering per thread, the lineage of every message,
  one tenant per thread; the functional behaviour of an append and of the reads.
\<close>

subsection \<open>Running an operation\<close>

lemma enqueue_run: "\<exists>i ob p. enqueue now spec w = (Inr i, w\<lparr>co_outbox := ob, co_pending := p\<rparr>)"
  by (auto simp: enqueue_def split: prod.split)

definition only_outbox :: "conv \<Rightarrow> conv \<Rightarrow> bool" where
  "only_outbox w w' \<longleftrightarrow> co_db w' = co_db w \<and> co_platform w' = co_platform w \<and> co_observations w' = co_observations w \<and>
     co_hot w' = co_hot w"

lemma enqueue_Inr: "enqueue now spec w = (Inr i, w') \<Longrightarrow> only_outbox w w'"
  using enqueue_run [of now spec w] by (auto simp: only_outbox_def)

lemma enqueue_never_raises: "fst (enqueue now spec w) \<noteq> Inl e"
  using enqueue_run [of now spec w] by auto

lemma enqueue_kinds:
  "enqueue_refresh now t i who w = (Inr j, w') \<Longrightarrow> only_outbox w w'"
  "enqueue_episode_index now t i w = (Inr j, w') \<Longrightarrow> only_outbox w w'"
  by (auto simp: enqueue_refresh_def enqueue_episode_index_def dest: enqueue_Inr)

lemma on_db_Inr: "on_db f w = (Inr u, w') \<longleftrightarrow> (\<exists>db. f (co_db w) = Inr db \<and> w' = w\<lparr>co_db := db\<rparr>)"
  by (auto simp: on_db_def split: sum.splits)

lemma check_op_Inr [simp]: "check_op ok e w = (Inr u, w') \<longleftrightarrow> ok \<and> w' = w"
  by (auto simp: check_op_def)

lemma touch_thread_Inr: "touch_thread now t i title custom w = (Inr n, w') \<longleftrightarrow>
    n = fst (threads_touch now t i title custom (co_db w)) \<and> w' = w\<lparr>co_db := snd (threads_touch now t i title custom (co_db w))\<rparr>"
  by (auto simp: touch_thread_def split: prod.splits)

lemma bump_fields [simp]:
  "fst (bump t k i w) = Inr ()" "co_db (snd (bump t k i w)) = co_db w" "co_hot (snd (bump t k i w)) = co_hot w"
  "co_observations (snd (bump t k i w)) = co_observations w" "co_outbox (snd (bump t k i w)) = co_outbox w"
  by (simp_all add: bump_def)

definition same_tables :: "conv \<Rightarrow> conv \<Rightarrow> bool" where
  "same_tables w w' \<longleftrightarrow> co_db w' = co_db w \<and> co_observations w' = co_observations w \<and> co_hot w' = co_hot w"

lemma access_Inr: "access c rel ty i w = (r, w') \<Longrightarrow> same_tables w w'"
  by (auto simp: access_def same_tables_def split: prod.splits)

lemma may_write_Inr: "may_write_thread c i w = (r, w') \<Longrightarrow> same_tables w w'"
  by (auto simp: may_write_thread_def same_tables_def split: prod.splits)

lemma asked_Inr: "asked c i b w = (r, w') \<Longrightarrow> same_tables w w'"
  by (auto simp: asked_def same_tables_def split: option.splits dest: may_write_Inr)

lemma member_gate_Inr: "member_gate c w = (r, w') \<Longrightarrow> same_tables w w'"
  by (auto simp: member_gate_def same_tables_def split: prod.splits)

lemma grant_op_Inr: "grant_thread_op c i ws w = (r, w') \<Longrightarrow> same_tables w w'"
  by (auto simp: grant_thread_op_def same_tables_def split: prod.splits)

lemma bump_Inr: "bump t k i w = (r, w') \<Longrightarrow> same_tables w w'"
  by (auto simp: bump_def same_tables_def)

lemma observations_Inr:
  "observations_add ov w = (Inr u, w') \<longleftrightarrow> (\<forall>x \<in> set (co_observations w). ov_observation_id x \<noteq> ov_observation_id ov) \<and>
     w' = w\<lparr>co_observations := co_observations w @ [ov]\<rparr>"
  by (auto simp: observations_add_def list_ex_iff)

lemmas op_run = sbind_Inr on_db_Inr touch_thread_Inr

text \<open>The tables an append leaves.\<close>

definition run_step :: "conv_env \<Rightarrow> exec_context \<Rightarrow> conv_db \<Rightarrow> service_error + conv_db" where
  "run_step env c db = (if truthy (ctx_agent_run_id c) then ensure_agent_run (ce_now env) c db else Inr db)"

abbreviation next_message :: "conv_env \<Rightarrow> exec_context \<Rightarrow> append_request \<Rightarrow> conv_db \<Rightarrow> Message" where
  "next_message env c q db \<equiv> new_message env c q (messages_next_sequence db (ctx_tenant_id c) (or_empty (ctx_thread_id c)))"

abbreviation touched :: "conv_env \<Rightarrow> exec_context \<Rightarrow> conv_db \<Rightarrow> nat \<times> conv_db" where
  "touched env c db \<equiv> threads_touch (ce_now env) (ctx_tenant_id c) (or_empty (ctx_thread_id c)) None None db"

lemma record_message_Inr:
  assumes "record_message env c q w = (Inr r, w')"
  shows "\<exists>db. messages_add (ce_utf8_len env) (next_message env c q (co_db w)) (co_db w) = Inr db \<and>
    co_db w' = snd (touched env c db) \<and> res_revision r = fst (touched env c db) \<and> co_hot w' = co_hot w \<and>
    res_message r = Some (next_message env c q (co_db w)) \<and>
    co_observations w' = co_observations w @ [new_observation env c q (next_message env c q (co_db w))] \<and>
    (\<exists>jobs. res_ack r = \<lparr>ack_message_id = ms_message_id (next_message env c q (co_db w)), ack_thread_id = or_empty (ctx_thread_id c),
       ack_session_id = or_empty (ctx_session_id c), ack_turn_id = or_empty (ctx_turn_id c),
       ack_sequence = ms_sequence (next_message env c q (co_db w)), ack_job_ids = jobs, ack_deduplicated = False,
       ack_observation_id = Some (ov_observation_id (new_observation env c q (next_message env c q (co_db w))))\<rparr>)"
proof -
  from assms obtain db w2 j1 w3 j2 w4 j3 w5 w6 where
    add: "messages_add (ce_utf8_len env) (next_message env c q (co_db w)) (co_db w) = Inr db"
    and ov: "observations_add (new_observation env c q (next_message env c q (co_db w))) (w\<lparr>co_db := db\<rparr>) = (Inr (), w2)"
    and j1: "enqueue (ce_now env) (observation_job c (ov_observation_id (new_observation env c q (next_message env c q (co_db w))))) w2 = (Inr j1, w3)"
    and j2: "(if ce_archive_enabled env then enqueue (ce_now env) (archive_job (ctx_tenant_id c) (or_empty (ctx_thread_id c)))
       else (\<lambda>w. (Inr None, w))) w3 = (Inr j2, w4)"
    and j3: "(if ms_sequence (next_message env c q (co_db w)) mod SUMMARY_EVERY = 0
         then enqueue_refresh (ce_now env) (ctx_tenant_id c) (or_empty (ctx_thread_id c)) (principal_id c)
         else if effective_kind q = VISIBLE then enqueue_episode_index (ce_now env) (ctx_tenant_id c) (or_empty (ctx_thread_id c))
         else (\<lambda>w. (Inr None, w))) w4 = (Inr j3, w5)"
    and rev: "res_revision r = fst (touched env c (co_db w5))"
    and bump: "bump (ctx_tenant_id c) R_THREAD (or_empty (ctx_thread_id c)) (w5\<lparr>co_db := snd (touched env c (co_db w5))\<rparr>) = (Inr (), w6)"
    and fin: "w' = w6" "res_message r = Some (next_message env c q (co_db w))"
      "res_ack r = \<lparr>ack_message_id = ms_message_id (next_message env c q (co_db w)), ack_thread_id = or_empty (ctx_thread_id c),
       ack_session_id = or_empty (ctx_session_id c), ack_turn_id = or_empty (ctx_turn_id c),
       ack_sequence = ms_sequence (next_message env c q (co_db w)), ack_job_ids = job_name j1 @ job_name j2, ack_deduplicated = False,
       ack_observation_id = Some (ov_observation_id (new_observation env c q (next_message env c q (co_db w))))\<rparr>"
    unfolding record_message_def Let_def sbind_Inr on_db_Inr touch_thread_Inr by (elim exE conjE) (fastforce del: disjCI simp del: bump_fields)
  have o2: "only_outbox w2 w3" using j1 by (rule enqueue_Inr)
  have o3: "only_outbox w3 w4" using j2 by (auto simp: only_outbox_def split: if_splits dest!: enqueue_Inr)
  have o4: "only_outbox w4 w5" using j3 by (auto simp: only_outbox_def split: if_splits dest!: enqueue_kinds)
  have "co_db w5 = db" "co_hot w5 = co_hot w"
    "co_observations w5 = co_observations w @ [new_observation env c q (next_message env c q (co_db w))]"
    using o2 o3 o4 ov unfolding only_outbox_def observations_Inr by simp_all
  then show ?thesis using add rev fin bump_Inr [OF bump] by (auto simp: same_tables_def)
qed

lemma ensure_Inr:
  assumes "ensure_session_and_turn now c db = Inr db'"
  shows "cv_threads db' = cv_threads db \<and> cv_messages db' = cv_messages db \<and> cv_attachments db' = cv_attachments db \<and>
    cv_agent_runs db' = cv_agent_runs db"
  using assms
  by (auto simp: ensure_session_and_turn_def ensure_session_def ensure_turn_def sessions_add_def turns_add_def rbind_Inr
      split: option.splits if_splits)

lemma run_step_Inr:
  assumes "run_step env c db = Inr db'"
  shows "cv_threads db' = cv_threads db \<and> cv_messages db' = cv_messages db \<and> cv_attachments db' = cv_attachments db \<and>
    cv_sessions db' = cv_sessions db \<and> cv_turns db' = cv_turns db"
  using assms
  by (auto simp: run_step_def ensure_agent_run_def runs_add_def split: option.splits if_splits)

lemma store_message_Inr:
  assumes "store_message env c q w = (Inr r, w')"
  shows "\<exists>db1 db2 w2. ensure_session_and_turn (ce_now env) c (co_db w) = Inr db1 \<and> run_step env c db1 = Inr db2 \<and>
    truthy (ctx_thread_id c) \<and> truthy (ctx_session_id c) \<and> truthy (ctx_turn_id c) \<and>
    w2 = w\<lparr>co_db := db2\<rparr> \<and> record_message env c q w2 = (Inr r, w')"
proof -
  from assms obtain db1 w2 where "truthy (ctx_thread_id c) \<and> truthy (ctx_session_id c) \<and> truthy (ctx_turn_id c)"
    and e: "ensure_session_and_turn (ce_now env) c (co_db w) = Inr db1"
    and r: "(if truthy (ctx_agent_run_id c) then on_db (ensure_agent_run (ce_now env) c) else (\<lambda>w. (Inr (), w)))
        (w\<lparr>co_db := db1\<rparr>) = (Inr (), w2)"
    and "record_message env c q w2 = (Inr r, w')"
    unfolding store_message_def sbind_Inr on_db_Inr check_op_Inr by (elim exE conjE) fastforce
  moreover have "\<exists>db2. run_step env c db1 = Inr db2 \<and> w2 = w\<lparr>co_db := db2\<rparr>"
    using r by (auto simp: run_step_def on_db_Inr split: if_splits)
  ultimately show ?thesis by blast
qed

subsection \<open>The invariant of the tables\<close>

definition rows_of :: "string \<Rightarrow> conv_db \<Rightarrow> MessageRow list" where
  "rows_of i db = filter (\<lambda>r. ms_thread_id (mr_message r) = i) (cv_messages db)"

definition thread_owner :: "conv_db \<Rightarrow> string \<Rightarrow> string \<Rightarrow> bool" where
  "thread_owner db i t \<longleftrightarrow> (\<exists>th \<in> set (cv_threads db). th_thread_id th = i \<and> th_tenant_id th = t)"

text \<open>Every row points at its parent: a session at its thread, a turn at its session, a message at its turn, all of
  one thread and tenant.\<close>

definition linked :: "conv_db \<Rightarrow> bool" where
  "linked db \<longleftrightarrow>
     (\<forall>s \<in> set (cv_sessions db). thread_owner db (se_thread_id s) (se_tenant_id s)) \<and>
     (\<forall>u \<in> set (cv_turns db). \<exists>s \<in> set (cv_sessions db). se_session_id s = tu_session_id u \<and>
        se_thread_id s = tu_thread_id u \<and> se_tenant_id s = tu_tenant_id u) \<and>
     (\<forall>r \<in> set (cv_messages db). \<exists>u \<in> set (cv_turns db). tu_turn_id u = ms_turn_id (mr_message r) \<and>
        tu_session_id u = ms_session_id (mr_message r) \<and> tu_thread_id u = ms_thread_id (mr_message r) \<and>
        tu_tenant_id u = ms_tenant_id (mr_message r))"

definition keys_distinct :: "conv_db \<Rightarrow> bool" where
  "keys_distinct db \<longleftrightarrow> distinct (map th_thread_id (cv_threads db)) \<and> distinct (map se_session_id (cv_sessions db)) \<and>
     distinct (map tu_turn_id (cv_turns db)) \<and> distinct (map (\<lambda>r. ms_message_id (mr_message r)) (cv_messages db))"

definition gapless :: "conv_db \<Rightarrow> bool" where
  "gapless db \<longleftrightarrow> (\<forall>i. map (\<lambda>r. ms_sequence (mr_message r)) (rows_of i db) = [1 ..< length (rows_of i db) + 1]) \<and>
     (\<forall>r \<in> set (cv_messages db). ms_deleted_at (mr_message r) = None)"

definition conv_ok :: "conv_db \<Rightarrow> bool" where
  "conv_ok db \<longleftrightarrow> keys_distinct db \<and> linked db \<and> gapless db"

lemma distinct_key_eq: "distinct (map f xs) \<Longrightarrow> x \<in> set xs \<Longrightarrow> y \<in> set xs \<Longrightarrow> f x = f y \<Longrightarrow> x = y"
  by (auto simp: distinct_map dest: inj_onD)

lemma find_key:
  "distinct (map f xs) \<Longrightarrow> x \<in> set xs \<Longrightarrow> f x = k \<Longrightarrow> List.find (\<lambda>x. f x = k) xs = Some x"
  by (induction xs) auto

lemma find_set: "List.find P xs = Some x \<Longrightarrow> x \<in> set xs \<and> P x"
  by (metis find_Some_iff nth_mem)

lemma find_None: "List.find P xs = None \<longleftrightarrow> (\<forall>x \<in> set xs. \<not> P x)"
  by (metis find_None_iff)

lemma message_owner:
  assumes "linked db" and "r \<in> set (cv_messages db)"
  shows "thread_owner db (ms_thread_id (mr_message r)) (ms_tenant_id (mr_message r))"
  using assms unfolding linked_def by metis

lemma owner_unique:
  assumes "keys_distinct db" and "thread_owner db i t" and "thread_owner db i t'"
  shows "t = t'"
  using assms distinct_key_eq [of th_thread_id "cv_threads db"] unfolding thread_owner_def keys_distinct_def by metis

text \<open>Of a thread's tenant, the rows of the thread are all there are.\<close>

lemma rows_of_tenant:
  assumes ok: "conv_ok db" and own: "thread_owner db i t"
  shows "filter (\<lambda>r. ms_thread_id (mr_message r) = i \<and> ms_tenant_id (mr_message r) = t) (cv_messages db) = rows_of i db"
    and "filter (in_thread t i) (cv_messages db) = rows_of i db"
proof -
  have t: "ms_tenant_id (mr_message r) = t" if "r \<in> set (cv_messages db)" "ms_thread_id (mr_message r) = i" for r
    using owner_unique [OF _ _ own] message_owner [of db r] ok that unfolding conv_ok_def by blast
  have d: "ms_deleted_at (mr_message r) = None" if "r \<in> set (cv_messages db)" for r
    using ok that by (simp add: conv_ok_def gapless_def)
  show "filter (\<lambda>r. ms_thread_id (mr_message r) = i \<and> ms_tenant_id (mr_message r) = t) (cv_messages db) = rows_of i db"
    unfolding rows_of_def using t by (intro filter_cong) auto
  show "filter (in_thread t i) (cv_messages db) = rows_of i db"
    unfolding rows_of_def using t d by (intro filter_cong) (auto simp: in_thread_def)
qed

lemma Max_upto: "Max (insert 0 (set [1 ..< n + 1])) = n"
proof (cases n)
  case (Suc k)
  then show ?thesis by (intro Max_eqI) auto
qed simp

lemma next_sequence_length:
  assumes "conv_ok db" and "thread_owner db i t"
  shows "messages_next_sequence db t i = length (rows_of i db) + 1"
  using assms rows_of_tenant(1) [OF assms] Max_upto [of "length (rows_of i db)"]
  by (simp add: messages_next_sequence_def next_of_def conv_ok_def gapless_def del: upt_Suc)

lemma threads_get_owner: "threads_get db t i = Some th \<Longrightarrow> thread_owner db i t \<and> th_thread_id th = i \<and> th_tenant_id th = t"
  by (auto simp: threads_get_def threads_row_def thread_owner_def dest!: find_set split: option.splits if_splits)

text \<open>Rows added to one table: the other tables, and what points at them, are as before.\<close>

lemma gapless_messages: "cv_messages db' = cv_messages db \<Longrightarrow> gapless db' = gapless db"
  by (simp add: gapless_def rows_of_def)

lemma sessions_add_ok:
  assumes ok: "conv_ok db" and run: "sessions_add s db = Inr db'" and own: "thread_owner db (se_thread_id s) (se_tenant_id s)"
  shows "conv_ok db'" and "cv_sessions db' = cv_sessions db @ [s]"
proof -
  have db': "db' = db\<lparr>cv_sessions := cv_sessions db @ [s]\<rparr>" and new: "se_session_id s \<notin> set (map se_session_id (cv_sessions db))"
    using run by (auto simp: sessions_add_def list_ex_iff split: if_splits)
  have "keys_distinct db'" using ok new by (simp add: conv_ok_def keys_distinct_def db')
  moreover have "thread_owner db' = thread_owner db" by (simp add: db' thread_owner_def fun_eq_iff)
  then have "linked db'" using ok own by (auto simp: conv_ok_def linked_def db')
  moreover have "gapless db'" using ok gapless_messages [of db' db] by (simp add: conv_ok_def db')
  ultimately show "conv_ok db'" by (simp add: conv_ok_def)
  show "cv_sessions db' = cv_sessions db @ [s]" by (simp add: db')
qed

lemma turns_add_ok:
  assumes ok: "conv_ok db" and run: "turns_add u db = Inr db'"
    and ses: "\<exists>s \<in> set (cv_sessions db). se_session_id s = tu_session_id u \<and> se_thread_id s = tu_thread_id u \<and>
      se_tenant_id s = tu_tenant_id u"
  shows "conv_ok db'" and "cv_turns db' = cv_turns db @ [u]"
proof -
  have db': "db' = db\<lparr>cv_turns := cv_turns db @ [u]\<rparr>" and new: "tu_turn_id u \<notin> set (map tu_turn_id (cv_turns db))"
    using run by (auto simp: turns_add_def list_ex_iff split: if_splits)
  have "keys_distinct db'" using ok new by (simp add: conv_ok_def keys_distinct_def db')
  moreover have "linked db'"
    using ok ses unfolding conv_ok_def linked_def thread_owner_def db' by (simp add: ball_Un)
  moreover have "gapless db'" using ok gapless_messages [of db' db] by (simp add: conv_ok_def db')
  ultimately show "conv_ok db'" by (simp add: conv_ok_def)
  show "cv_turns db' = cv_turns db @ [u]" by (simp add: db')
qed

lemma ensure_session_ok:
  assumes ok: "conv_ok db" and own: "thread_owner db (or_empty (ctx_thread_id c)) (ctx_tenant_id c)"
    and run: "ensure_session now c db = Inr db'"
  shows "conv_ok db'" and "\<exists>s \<in> set (cv_sessions db'). se_session_id s = or_empty (ctx_session_id c) \<and>
      se_thread_id s = or_empty (ctx_thread_id c) \<and> se_tenant_id s = ctx_tenant_id c"
    and "cv_threads db' = cv_threads db" "cv_messages db' = cv_messages db" "cv_turns db' = cv_turns db"
proof -
  show same: "cv_threads db' = cv_threads db" "cv_messages db' = cv_messages db" "cv_turns db' = cv_turns db"
    using run by (auto simp: ensure_session_def sessions_add_def split: option.splits if_splits)
  show "conv_ok db'"
  proof (cases "sessions_get db (ctx_tenant_id c) (or_empty (ctx_session_id c))")
    case None
    then show ?thesis using run sessions_add_ok(1) [OF ok] own by (simp add: ensure_session_def)
  qed (use run ok in \<open>auto simp: ensure_session_def split: if_splits\<close>)
  show "\<exists>s \<in> set (cv_sessions db'). se_session_id s = or_empty (ctx_session_id c) \<and>
      se_thread_id s = or_empty (ctx_thread_id c) \<and> se_tenant_id s = ctx_tenant_id c"
  proof (cases "sessions_get db (ctx_tenant_id c) (or_empty (ctx_session_id c))")
    case None
    then show ?thesis using run by (auto simp: ensure_session_def sessions_add_def split: if_splits)
  next
    case (Some s)
    then have "s \<in> set (cv_sessions db) \<and> se_session_id s = or_empty (ctx_session_id c) \<and> se_tenant_id s = ctx_tenant_id c"
      by (auto simp: sessions_get_def dest!: find_set split: option.splits if_splits)
    then show ?thesis using run Some by (auto simp: ensure_session_def split: if_splits)
  qed
qed

lemma ensure_turn_ok:
  assumes ok: "conv_ok db" and run: "ensure_turn now c db = Inr db'"
    and ses: "\<exists>s \<in> set (cv_sessions db). se_session_id s = or_empty (ctx_session_id c) \<and>
      se_thread_id s = or_empty (ctx_thread_id c) \<and> se_tenant_id s = ctx_tenant_id c"
  shows "conv_ok db'" and "\<exists>u \<in> set (cv_turns db'). tu_turn_id u = or_empty (ctx_turn_id c) \<and>
      tu_session_id u = or_empty (ctx_session_id c) \<and> tu_thread_id u = or_empty (ctx_thread_id c) \<and>
      tu_tenant_id u = ctx_tenant_id c"
    and "cv_threads db' = cv_threads db" "cv_messages db' = cv_messages db" "cv_sessions db' = cv_sessions db"
proof -
  show same: "cv_threads db' = cv_threads db" "cv_messages db' = cv_messages db" "cv_sessions db' = cv_sessions db"
    using run by (auto simp: ensure_turn_def turns_add_def split: option.splits if_splits)
  show "conv_ok db'"
  proof (cases "turns_get db (ctx_tenant_id c) (or_empty (ctx_turn_id c))")
    case None
    then show ?thesis using run turns_add_ok(1) [OF ok] ses by (simp add: ensure_turn_def)
  qed (use run ok in \<open>auto simp: ensure_turn_def split: if_splits\<close>)
  show "\<exists>u \<in> set (cv_turns db'). tu_turn_id u = or_empty (ctx_turn_id c) \<and>
      tu_session_id u = or_empty (ctx_session_id c) \<and> tu_thread_id u = or_empty (ctx_thread_id c) \<and>
      tu_tenant_id u = ctx_tenant_id c"
  proof (cases "turns_get db (ctx_tenant_id c) (or_empty (ctx_turn_id c))")
    case None
    then show ?thesis using run by (auto simp: ensure_turn_def turns_add_def split: if_splits)
  next
    case (Some u)
    then have u: "u \<in> set (cv_turns db)" "tu_turn_id u = or_empty (ctx_turn_id c)" "tu_tenant_id u = ctx_tenant_id c"
      by (auto simp: turns_get_def dest!: find_set split: option.splits if_splits)
    have db': "db' = db" "tu_session_id u = or_empty (ctx_session_id c)"
      using run Some by (auto simp: ensure_turn_def split: if_splits)
    obtain s' where s': "s' \<in> set (cv_sessions db)" "se_session_id s' = tu_session_id u" "se_thread_id s' = tu_thread_id u"
      using ok u(1) unfolding conv_ok_def linked_def by blast
    obtain s where s: "s \<in> set (cv_sessions db)" "se_session_id s = or_empty (ctx_session_id c)"
      "se_thread_id s = or_empty (ctx_thread_id c)" using ses by blast
    have "s' = s"
      using distinct_key_eq [OF _ s'(1) s(1)] ok s'(2) s(2) db'(2) unfolding conv_ok_def keys_distinct_def by metis
    then show ?thesis using u db' s'(3) s(3) by auto
  qed
qed

lemma run_step_ok: "conv_ok db \<Longrightarrow> run_step env c db = Inr db' \<Longrightarrow> conv_ok db'"
  by (drule run_step_Inr) (auto simp: conv_ok_def keys_distinct_def linked_def gapless_def rows_of_def thread_owner_def)

lemma messages_add_ok:
  assumes ok: "conv_ok db" and run: "messages_add ul m db = Inr db'"
    and seq: "ms_sequence m = length (rows_of (ms_thread_id m) db) + 1" and live: "ms_deleted_at m = None"
    and turn: "\<exists>u \<in> set (cv_turns db). tu_turn_id u = ms_turn_id m \<and> tu_session_id u = ms_session_id m \<and>
      tu_thread_id u = ms_thread_id m \<and> tu_tenant_id u = ms_tenant_id m"
  shows "conv_ok db'" and "rows_of i db' = rows_of i db @ (if i = ms_thread_id m
      then [\<lparr>mr_message = m\<lparr>ms_attachments := []\<rparr>, mr_content = Some (ms_content m), mr_content_bytes = ul (ms_content m),
        mr_archived_at = None, mr_archive_segment_id = None\<rparr>] else [])"
proof -
  have new: "ms_message_id m \<notin> set (map (\<lambda>r. ms_message_id (mr_message r)) (cv_messages db))"
    using run by (auto simp: messages_add_def list_ex_iff split: if_splits)
  show rows: "rows_of i db' = rows_of i db @ (if i = ms_thread_id m
      then [\<lparr>mr_message = m\<lparr>ms_attachments := []\<rparr>, mr_content = Some (ms_content m), mr_content_bytes = ul (ms_content m),
        mr_archived_at = None, mr_archive_segment_id = None\<rparr>] else [])" for i
    using run by (auto simp: messages_add_def rows_of_def split: if_splits)
  have "keys_distinct db'" using run new ok by (auto simp: messages_add_def conv_ok_def keys_distinct_def split: if_splits)
  moreover have "linked db'"
  proof -
    have same: "cv_threads db' = cv_threads db" "cv_sessions db' = cv_sessions db" "cv_turns db' = cv_turns db"
      "mr_message ` set (cv_messages db') = insert (m\<lparr>ms_attachments := []\<rparr>) (mr_message ` set (cv_messages db))"
      using run by (auto simp: messages_add_def split: if_splits)
    have old: "linked db" using ok by (simp add: conv_ok_def)
    have "\<exists>u \<in> set (cv_turns db). tu_turn_id u = ms_turn_id x \<and> tu_session_id u = ms_session_id x \<and>
        tu_thread_id u = ms_thread_id x \<and> tu_tenant_id u = ms_tenant_id x" if mem: "x \<in> mr_message ` set (cv_messages db')" for x
    proof (cases "x = m\<lparr>ms_attachments := []\<rparr>")
      case True
      then show ?thesis using turn by simp
    next
      case False
      then have "x \<in> mr_message ` set (cv_messages db)" using mem unfolding same(4) by blast
      then show ?thesis using old unfolding linked_def by blast
    qed
    then show ?thesis using old unfolding linked_def thread_owner_def same(1-3) by blast
  qed
  moreover have "\<forall>r \<in> set (cv_messages db'). ms_deleted_at (mr_message r) = None"
    using run ok live by (auto simp: messages_add_def conv_ok_def gapless_def split: if_splits)
  moreover have "map (\<lambda>r. ms_sequence (mr_message r)) (rows_of i db') = [1 ..< length (rows_of i db') + 1]" for i
    using ok seq by (auto simp: rows conv_ok_def gapless_def)
  ultimately show "conv_ok db'" by (auto simp: conv_ok_def gapless_def)
qed

text \<open>Updates of a thread row that keep its id and tenant.\<close>

lemma thread_update_ok:
  assumes "\<And>r. th_thread_id (f r) = th_thread_id r" and "\<And>r. th_tenant_id (f r) = th_tenant_id r" and "conv_ok db"
  shows "conv_ok (db\<lparr>cv_threads := map f (cv_threads db)\<rparr>)"
proof -
  have "map th_thread_id (map f (cv_threads db)) = map th_thread_id (cv_threads db)" using assms(1) by simp
  moreover have "thread_owner (db\<lparr>cv_threads := map f (cv_threads db)\<rparr>) = thread_owner db"
    using assms(1,2) by (auto simp: thread_owner_def fun_eq_iff)
  ultimately show ?thesis
    using assms(3) by (simp add: conv_ok_def keys_distinct_def linked_def gapless_def rows_of_def del: map_map map_eq_conv)
qed

lemma touch_ok: "conv_ok db \<Longrightarrow> conv_ok (snd (threads_touch now t i title custom db))"
  unfolding threads_touch_def Let_def snd_conv by (rule thread_update_ok) auto

lemma soft_delete_ok: "conv_ok db \<Longrightarrow> conv_ok (snd (threads_soft_delete now t i db))"
  unfolding threads_soft_delete_def Let_def snd_conv by (rule thread_update_ok) auto

lemma threads_add_ok:
  assumes ok: "conv_ok db" and run: "threads_add th db = Inr db'"
  shows "conv_ok db'" and "thread_owner db' (th_thread_id th) (th_tenant_id th)"
    and "cv_messages db' = cv_messages db" "cv_turns db' = cv_turns db" "cv_sessions db' = cv_sessions db"
    and "cv_threads db' = cv_threads db @ [th]"
proof -
  have db': "db' = db\<lparr>cv_threads := cv_threads db @ [th]\<rparr>" and new: "th_thread_id th \<notin> set (map th_thread_id (cv_threads db))"
    using run by (auto simp: threads_add_def threads_row_def find_None split: if_splits)
  have own: "thread_owner db i t \<Longrightarrow> thread_owner db' i t" for i t by (auto simp: db' thread_owner_def)
  have "keys_distinct db'" using ok new by (simp add: conv_ok_def keys_distinct_def db')
  moreover have "linked db'" using ok own by (simp add: conv_ok_def linked_def db')
  moreover have "gapless db'" using ok unfolding conv_ok_def gapless_def rows_of_def db' by simp
  ultimately show "conv_ok db'" by (simp add: conv_ok_def)
qed (use run in \<open>auto simp: threads_add_def thread_owner_def split: if_splits\<close>)

subsection \<open>Opening the thread\<close>

text \<open>The tables when the thread of an operation is there: as they were, or with the new thread.\<close>

definition opened :: "conv_env \<Rightarrow> exec_context \<Rightarrow> string \<Rightarrow> conv_db \<Rightarrow> conv_db \<Rightarrow> bool" where
  "opened env c i db db0 \<longleftrightarrow>
     (case threads_get db (ctx_tenant_id c) i of Some _ \<Rightarrow> db0 = db
      | None \<Rightarrow> \<exists>title custom ssys sid. threads_add (new_thread env c i title custom ssys sid) db = Inr db0)"

lemma same_tables_trans: "same_tables a b \<Longrightarrow> same_tables b c \<Longrightarrow> same_tables a c"
  by (simp add: same_tables_def)

definition same_rest :: "conv \<Rightarrow> conv \<Rightarrow> bool" where
  "same_rest w w' \<longleftrightarrow> co_observations w' = co_observations w \<and> co_hot w' = co_hot w"

lemma create_thread_Inr:
  assumes run: "create_thread env c tid title custom ssys sid w = (Inr th, w')" and named: "truthy (por tid (ctx_thread_id c))"
  shows "opened env c (or_empty (por tid (ctx_thread_id c))) (co_db w) (co_db w') \<and> same_rest w w' \<and>
    th_thread_id th = or_empty (por tid (ctx_thread_id c)) \<and> th_tenant_id th = ctx_tenant_id c"
proof (cases "threads_get (co_db w) (ctx_tenant_id c) (or_empty (por tid (ctx_thread_id c)))")
  case (Some x)
  then show ?thesis
    using run named access_Inr threads_get_owner [OF Some]
    by (auto simp: create_thread_def Let_def sbind_Inr opened_def same_rest_def same_tables_def)
next
  case None
  let ?i = "or_empty (por tid (ctx_thread_id c))"
  from run None named obtain team w1 db w3 w4 where
    w1: "member_gate c w = (Inr team, w1)"
    and db: "threads_add (new_thread env c ?i title custom ssys sid) (co_db w1) = Inr db"
    and w3: "grant_thread_op c ?i (map_option ws_workspace_id team) (w1\<lparr>co_db := db\<rparr>) = (Inr (), w3)"
    and w4: "bump (ctx_tenant_id c) R_THREAD ?i w3 = (Inr (), w4)"
    and w': "(if truthy (ctx_user_id c) then bump (ctx_tenant_id c) R_USER (or_empty (ctx_user_id c)) else (\<lambda>w. (Inr (), w))) w4 = (Inr (), w')"
    and th: "th = new_thread env c ?i title custom ssys sid"
    by (auto simp: create_thread_def Let_def sbind_Inr on_db_Inr)
  have "same_tables w4 w'" using w' by (auto simp: same_tables_def split: if_splits dest: bump_Inr [unfolded same_tables_def])
  then have "co_db w' = db \<and> same_rest w w'" "co_db w1 = co_db w"
    using member_gate_Inr [OF w1] grant_op_Inr [OF w3] bump_Inr [OF w4] by (auto simp: same_tables_def same_rest_def)
  then show ?thesis using None db th by (auto simp: opened_def new_thread_def)
qed

lemma opened_ok:
  assumes "opened env c i db db0" and "conv_ok db"
  shows "conv_ok db0" and "thread_owner db0 i (ctx_tenant_id c)" and "cv_messages db0 = cv_messages db"
    and "cv_turns db0 = cv_turns db" and "cv_sessions db0 = cv_sessions db" and "cv_attachments db0 = cv_attachments db"
proof -
  consider "db0 = db" "thread_owner db i (ctx_tenant_id c)"
    | th where "threads_add th db = Inr db0" "th_thread_id th = i" "th_tenant_id th = ctx_tenant_id c"
    using assms(1) threads_get_owner
    by (fastforce simp: opened_def new_thread_def split: option.splits)
  then have "conv_ok db0 \<and> thread_owner db0 i (ctx_tenant_id c) \<and> cv_messages db0 = cv_messages db \<and>
    cv_turns db0 = cv_turns db \<and> cv_sessions db0 = cv_sessions db \<and> cv_attachments db0 = cv_attachments db"
  proof cases
    case 1
    then show ?thesis using assms(2) by simp
  next
    case 2
    then show ?thesis using threads_add_ok [OF assms(2) 2(1)] by (auto simp: threads_add_def split: if_splits)
  qed
  then show "conv_ok db0" "thread_owner db0 i (ctx_tenant_id c)" "cv_messages db0 = cv_messages db"
    "cv_turns db0 = cv_turns db" "cv_sessions db0 = cv_sessions db" "cv_attachments db0 = cv_attachments db" by simp_all
qed

lemma append_message_Inr:
  assumes "append_message env c q mw w = (Inr r, w')"
  shows "\<not> refused c q \<and> (\<exists>w0. opened env c (or_empty (ctx_thread_id c)) (co_db w) (co_db w0) \<and> same_rest w w0 \<and>
    (case duplicate_of (co_db w0) c q of Some d \<Rightarrow> r = dup_result d \<and> w' = w0
     | None \<Rightarrow> store_message env (lineage (ce_blake2b env) (co_db w0) c (ap_role q)) q w0 = (Inr r, w')))"
proof -
  let ?i = "or_empty (ctx_thread_id c)"
  from assms obtain ok w1 w0 where ref: "\<not> refused c q" and w1: "asked c ?i mw w = (Inr ok, w1)"
    and w0: "(case threads_get (co_db w1) (ctx_tenant_id c) ?i of
          None \<Rightarrow> sbind (create_thread env c (ctx_thread_id c) None None None None) (\<lambda>_ w. (Inr (), w)) w1
        | Some _ \<Rightarrow> (if ok then (Inr (), w1) else access c ''can_write'' ''thread'' ?i w1)) = (Inr (), w0)"
    and fin: "(case duplicate_of (co_db w0) c q of Some d \<Rightarrow> (Inr (dup_result d), w0)
     | None \<Rightarrow> store_message env (lineage (ce_blake2b env) (co_db w0) c (ap_role q)) q w0) = (Inr r, w')"
    unfolding append_message_def sbind_Inr check_op_Inr by (elim exE conjE) (fastforce simp: old.unit.exhaust)
  have named: "truthy (por (ctx_thread_id c) (ctx_thread_id c))" "or_empty (por (ctx_thread_id c) (ctx_thread_id c)) = ?i"
    using ref by (auto simp: refused_def por_def)
  note w1' = asked_Inr [OF w1, unfolded same_tables_def]
  have "opened env c ?i (co_db w) (co_db w0) \<and> same_rest w w0"
  proof (cases "threads_get (co_db w1) (ctx_tenant_id c) ?i")
    case None
    then show ?thesis
      using w0 w1' create_thread_Inr [OF _ named(1)] named(2) by (fastforce simp: sbind_Inr same_rest_def)
  next
    case (Some th)
    then have "same_tables w1 w0" using w0 by (auto simp: same_tables_def split: if_splits dest: access_Inr [unfolded same_tables_def])
    then show ?thesis using Some w1' by (auto simp: opened_def same_rest_def same_tables_def)
  qed
  then show ?thesis using ref fin by (auto split: option.splits)
qed

lemma lineage_keeps [simp]:
  "ctx_tenant_id (lineage h db c role) = ctx_tenant_id c" "ctx_thread_id (lineage h db c role) = ctx_thread_id c"
  "ctx_agent_run_id (lineage h db c role) = ctx_agent_run_id c" "ctx_agent_id (lineage h db c role) = ctx_agent_id c"
  "ctx_user_id (lineage h db c role) = ctx_user_id c"
  by (simp_all add: lineage_def Let_def)

lemma new_message_fields [simp]:
  "ms_thread_id (new_message env c q n) = or_empty (ctx_thread_id c)" "ms_tenant_id (new_message env c q n) = ctx_tenant_id c"
  "ms_session_id (new_message env c q n) = or_empty (ctx_session_id c)" "ms_turn_id (new_message env c q n) = or_empty (ctx_turn_id c)"
  "ms_sequence (new_message env c q n) = n" "ms_deleted_at (new_message env c q n) = None"
  "ms_kind (new_message env c q n) = effective_kind q" "ms_content (new_message env c q n) = sanitise (ap_content q)"
  "ms_message_id (new_message env c q n) = ''msg_'' @ ce_message_ulid env" "ms_role (new_message env c q n) = ap_role q"
  "ms_attachments (new_message env c q n) = ap_attachments q"
  "ms_source_system (new_message env c q n) = ap_source_system q" "ms_source_message_id (new_message env c q n) = ap_source_message_id q"
  by (simp_all add: new_message_def)

definition row_of :: "(string \<Rightarrow> nat) \<Rightarrow> Message \<Rightarrow> MessageRow" where
  "row_of ul m = \<lparr>mr_message = m\<lparr>ms_attachments := []\<rparr>, mr_content = Some (ms_content m), mr_content_bytes = ul (ms_content m),
     mr_archived_at = None, mr_archive_segment_id = None\<rparr>"

lemma touch_tables [simp]:
  "cv_messages (snd (threads_touch now t i title custom db)) = cv_messages db"
  "cv_turns (snd (threads_touch now t i title custom db)) = cv_turns db"
  "cv_sessions (snd (threads_touch now t i title custom db)) = cv_sessions db"
  "cv_attachments (snd (threads_touch now t i title custom db)) = cv_attachments db"
  by (simp_all add: threads_touch_def Let_def)

text \<open>What storing one message does to the tables.\<close>

definition stored :: "conv_env \<Rightarrow> exec_context \<Rightarrow> append_request \<Rightarrow> conv \<Rightarrow> AppendResult \<Rightarrow> conv \<Rightarrow> Message \<Rightarrow> bool" where
  "stored env c q w r w' m \<longleftrightarrow>
     m = new_message env c q (length (rows_of (or_empty (ctx_thread_id c)) (co_db w)) + 1) \<and>
     cv_messages (co_db w') = cv_messages (co_db w) @ [row_of (ce_utf8_len env) m] \<and>
     cv_attachments (co_db w') = cv_attachments (co_db w) @ map (\<lambda>a. a\<lparr>at_message_id := ms_message_id m\<rparr>) (ap_attachments q) \<and>
     res_message r = Some m \<and> co_hot w' = co_hot w \<and>
     ack_message_id (res_ack r) = ms_message_id m \<and> ack_sequence (res_ack r) = ms_sequence m \<and>
     ack_thread_id (res_ack r) = ms_thread_id m \<and> ack_turn_id (res_ack r) = ms_turn_id m \<and>
     ack_session_id (res_ack r) = ms_session_id m \<and> \<not> ack_deduplicated (res_ack r) \<and>
     co_observations w' = co_observations w @ [new_observation env c q m] \<and>
     ack_observation_id (res_ack r) = Some (ov_observation_id (new_observation env c q m))"

lemma store_message_ok:
  assumes ok: "conv_ok (co_db w)" and own: "thread_owner (co_db w) (or_empty (ctx_thread_id c)) (ctx_tenant_id c)"
    and run: "store_message env c q w = (Inr r, w')"
  shows "conv_ok (co_db w')" and "\<exists>m. stored env c q w r w' m"
    and "\<exists>db. cv_threads db = cv_threads (co_db w) \<and> cv_threads (co_db w') = cv_threads (snd (touched env c db)) \<and>
      res_revision r = fst (touched env c db)"
proof -
  let ?i = "or_empty (ctx_thread_id c)" and ?t = "ctx_tenant_id c"
  obtain db1 db2 where e: "ensure_session_and_turn (ce_now env) c (co_db w) = Inr db1"
    and db2: "run_step env c db1 = Inr db2" and rec: "record_message env c q (w\<lparr>co_db := db2\<rparr>) = (Inr r, w')"
    using store_message_Inr [OF run] by auto
  obtain dbs where s: "ensure_session (ce_now env) c (co_db w) = Inr dbs" and u: "ensure_turn (ce_now env) c dbs = Inr db1"
    using e by (auto simp: ensure_session_and_turn_def rbind_Inr)
  note ses = ensure_session_ok [OF ok own s]
  note tur = ensure_turn_ok [OF ses(1) u ses(2)]
  have ok2: "conv_ok db2" using run_step_ok [OF tur(1) db2] .
  note same2 = run_step_Inr [OF db2]
  have msgs2: "cv_messages db2 = cv_messages (co_db w)" "cv_threads db2 = cv_threads (co_db w)"
    "cv_attachments db2 = cv_attachments (co_db w)"
    using same2 ses(3,4) tur(3,4) ensure_Inr [OF e] by simp_all
  have own2: "thread_owner db2 ?i ?t" using own msgs2(2) by (simp add: thread_owner_def)
  let ?m = "next_message env c q db2"
  have n: "messages_next_sequence db2 ?t ?i = length (rows_of ?i (co_db w)) + 1"
    using next_sequence_length [OF ok2 own2] msgs2(1) by (simp add: rows_of_def)
  obtain db3 where add: "messages_add (ce_utf8_len env) ?m db2 = Inr db3"
    and w': "co_db w' = snd (touched env c db3)" and rev: "res_revision r = fst (touched env c db3)"
    and rest: "co_hot w' = co_hot w" "res_message r = Some ?m"
      "co_observations w' = co_observations w @ [new_observation env c q ?m]"
    and ack: "\<exists>jobs. res_ack r = \<lparr>ack_message_id = ms_message_id ?m, ack_thread_id = ?i,
       ack_session_id = or_empty (ctx_session_id c), ack_turn_id = or_empty (ctx_turn_id c),
       ack_sequence = ms_sequence ?m, ack_job_ids = jobs, ack_deduplicated = False,
       ack_observation_id = Some (ov_observation_id (new_observation env c q ?m))\<rparr>"
    using record_message_Inr [OF rec] by auto
  have "conv_ok db3"
    by (rule messages_add_ok(1) [OF ok2 add]) (use n msgs2(1) tur(2) same2 in \<open>simp_all add: rows_of_def\<close>)
  then show "conv_ok (co_db w')" unfolding w' by (rule touch_ok)
  have db3: "cv_messages db3 = cv_messages db2 @ [row_of (ce_utf8_len env) ?m]" "cv_threads db3 = cv_threads db2"
    "cv_attachments db3 = cv_attachments db2 @ map (\<lambda>a. a\<lparr>at_message_id := ms_message_id ?m\<rparr>) (ap_attachments q)"
    using add by (auto simp: messages_add_def row_of_def split: if_splits)
  have "stored env c q w r w' ?m"
    using ack rest n db3 msgs2 by (auto simp: stored_def w')
  then show "\<exists>m. stored env c q w r w' m" ..
  show "\<exists>db. cv_threads db = cv_threads (co_db w) \<and> cv_threads (co_db w') = cv_threads (snd (touched env c db)) \<and>
      res_revision r = fst (touched env c db)"
    using w' rev db3(2) msgs2(2) by metis
qed

end
