(* ===== verification/Conversation_Props.thy ===== *)
theory Conversation_Props
  imports Conversation_Facts
begin

text \<open>
  The properties of the conversation service: the numbering and lineage of every reachable transcript,
  deduplication of imports, the turn a message joins, paging, and what internal messages are shown.
\<close>

subsection \<open>Requests\<close>

text \<open>One request in its unit of work: when the operation raises, the tables, the observations, the outbox and
  the revisions are as before; the authorization store and the cache keep what was done to them.\<close>

datatype conv_request =
    CR_Create "string option" "string option" "metadata option" "string option" "string option"
  | CR_Patch string "string option" "metadata option" "bool option"
  | CR_Delete string
  | CR_Append append_request "bool option"
  | CR_List string nat "nat option" bool
  | CR_Get string
  | CR_Window string nat nat
  | CR_Thread string

definition uow_end :: "conv \<Rightarrow> (service_error + 'a) \<times> conv \<Rightarrow> conv" where
  "uow_end w rw = (case rw of (Inr _, w') \<Rightarrow> w'\<lparr>co_pending := []\<rparr>
     | (Inl _, w') \<Rightarrow> w\<lparr>co_platform := (co_platform w)\<lparr>pf_authz := pf_authz (co_platform w')\<rparr>, co_hot := co_hot w'\<rparr>)"

fun serve :: "conv_env \<Rightarrow> exec_context \<Rightarrow> conv_request \<Rightarrow> conv \<Rightarrow> conv" where
  "serve env c (CR_Create i title custom ssys sid) w = uow_end w (create_thread env c i title custom ssys sid w)"
| "serve env c (CR_Patch i title custom mw) w = uow_end w (patch_thread env c i title custom mw w)"
| "serve env c (CR_Delete i) w = uow_end w (delete_thread env c i w)"
| "serve env c (CR_Append q mw) w =
     (case append_message env c q mw w of
        (Inl e, w') \<Rightarrow> uow_end w (Inl e :: service_error + AppendResult, w')
      | (Inr r, w') \<Rightarrow> after_commit (ce_now env) r (uow_end w (Inr r :: service_error + AppendResult, w')))"
| "serve env c (CR_List i lim before inc) w = uow_end w (list_messages (ce_now env) c i lim before inc w)"
| "serve env c (CR_Get i) w = uow_end w (get_message c i w)"
| "serve env c (CR_Window i turns lim) w = uow_end w (window_messages c i turns lim w)"
| "serve env c (CR_Thread i) w = uow_end w (get_thread c i w)"

inductive conv_reachable :: "conv \<Rightarrow> bool" where
  conv_start: "co_db w = \<lparr>cv_threads = [], cv_sessions = [], cv_turns = [], cv_messages = [], cv_attachments = [],
    cv_agent_runs = []\<rparr> \<Longrightarrow> conv_reachable w"
| conv_serve: "conv_reachable w \<Longrightarrow> valid_context c \<Longrightarrow> conv_reachable (serve env c req w)"
| conv_other: "conv_reachable w \<Longrightarrow> co_db w' = co_db w \<Longrightarrow> conv_reachable w'"

inductive_cases conv_reachable_cases: "conv_reachable w"

lemma uow_end_db: "co_db (uow_end w rw) = (case rw of (Inr _, w') \<Rightarrow> co_db w' | (Inl _, _) \<Rightarrow> co_db w)"
  by (simp add: uow_end_def split: prod.split sum.split)

lemma after_commit_db [simp]: "co_db (after_commit now r w) = co_db w"
  by (simp add: after_commit_def split: option.split)

lemma ok_append:
  assumes "conv_ok (co_db w)" and "append_message env c q mw w = (Inr r, w')"
  shows "conv_ok (co_db w')"
proof -
  obtain w0 where w0: "opened env c (or_empty (ctx_thread_id c)) (co_db w) (co_db w0)"
    and fin: "case duplicate_of (co_db w0) c q of Some d \<Rightarrow> r = dup_result d \<and> w' = w0
     | None \<Rightarrow> store_message env (lineage (ce_blake2b env) (co_db w0) c (ap_role q)) q w0 = (Inr r, w')"
    using append_message_Inr [OF assms(2)] by blast
  have "conv_ok (co_db w0)" "thread_owner (co_db w0) (or_empty (ctx_thread_id c)) (ctx_tenant_id c)"
    using opened_ok [OF w0 assms(1)] by simp_all
  then show ?thesis
    using fin store_message_ok(1) [of w0 "lineage (ce_blake2b env) (co_db w0) c (ap_role q)" env q r w']
    by (auto split: option.splits)
qed

text \<open>What the thread operations do to the tables.\<close>

lemma create_thread_opened:
  assumes "create_thread env c i title custom ssys sid w = (Inr th, w')"
  shows "\<exists>j. opened env c j (co_db w) (co_db w')"
proof (cases "truthy (por i (ctx_thread_id c))")
  case True
  then show ?thesis using create_thread_Inr [OF assms True] by blast
next
  case False
  then have "create_thread env c (Some (''thr_'' @ ce_thread_ulid env)) title custom ssys sid w = (Inr th, w')"
    using assms by (simp add: create_thread_def Let_def por_def new_id_def PREFIXES_def)
  from create_thread_Inr [OF this] show ?thesis by (auto simp: por_def)
qed

lemma patch_thread_tables:
  assumes "patch_thread env c i title custom mw w = (Inr th, w')"
  shows "(\<exists>j. opened env c j (co_db w) (co_db w')) \<or> co_db w' = co_db w \<or>
    co_db w' = snd (threads_touch (ce_now env) (ctx_tenant_id c) i title custom (co_db w))"
proof -
  obtain ok w1 where w1: "asked c i mw w = (Inr ok, w1)"
    and rest: "(case threads_get (co_db w1) (ctx_tenant_id c) i of
         None \<Rightarrow> create_thread env c (Some i) title custom None None w1
       | Some existing \<Rightarrow>
           sbind (if ok then (\<lambda>w. (Inr (), w)) else access c ''can_write'' ''thread'' i) (\<lambda>_.
             if title = None \<and> custom = None then (\<lambda>w. (Inr existing, w))
             else sbind (touch_thread (ce_now env) (ctx_tenant_id c) i title custom) (\<lambda>_.
                  sbind (bump (ctx_tenant_id c) R_THREAD i) (\<lambda>_ w.
                    case threads_get (co_db w) (ctx_tenant_id c) i of
                      None \<Rightarrow> (Inl AssertionError, w) | Some updated \<Rightarrow> (Inr updated, w)))) w1) = (Inr th, w')"
    using assms unfolding patch_thread_def sbind_Inr by blast
  have db1: "co_db w1 = co_db w" using asked_Inr [OF w1] by (simp add: same_tables_def)
  show ?thesis
  proof (cases "threads_get (co_db w1) (ctx_tenant_id c) i")
    case None
    then show ?thesis using rest create_thread_opened [of env c "Some i" title custom None None w1] db1 by auto
  next
    case (Some existing)
    obtain w2 where w2: "(if ok then (\<lambda>w. (Inr (), w)) else access c ''can_write'' ''thread'' i) w1 = (Inr (), w2)"
      and fin: "(if title = None \<and> custom = None then (\<lambda>w. (Inr existing, w))
             else sbind (touch_thread (ce_now env) (ctx_tenant_id c) i title custom) (\<lambda>_.
                  sbind (bump (ctx_tenant_id c) R_THREAD i) (\<lambda>_ w.
                    case threads_get (co_db w) (ctx_tenant_id c) i of
                      None \<Rightarrow> (Inl AssertionError, w) | Some updated \<Rightarrow> (Inr updated, w)))) w2 = (Inr th, w')"
      using rest Some by (auto simp: sbind_Inr)
    have "co_db w2 = co_db w1" using w2 by (auto split: if_splits dest!: access_Inr simp: same_tables_def)
    moreover have "co_db w' = co_db w2 \<or> co_db w' = snd (threads_touch (ce_now env) (ctx_tenant_id c) i title custom (co_db w2))"
      using fin by (auto simp: sbind_Inr touch_thread_Inr same_tables_def split: if_splits option.splits dest!: bump_Inr)
    ultimately show ?thesis using db1 by simp
  qed
qed

lemma delete_thread_tables:
  assumes "delete_thread env c i w = (Inr u, w')"
  shows "co_db w' = snd (threads_soft_delete (ce_now env) (ctx_tenant_id c) i (co_db w))"
  using assms unfolding delete_thread_def sbind_Inr
  by (fastforce simp: sbind_Inr same_tables_def only_outbox_def split: option.splits if_splits
      dest!: access_Inr bump_Inr enqueue_Inr)

lemma ok_create: "conv_ok (co_db w) \<Longrightarrow> create_thread env c i title custom ssys sid w = (Inr th, w') \<Longrightarrow> conv_ok (co_db w')"
  using create_thread_opened opened_ok(1) by blast

lemma ok_patch: "conv_ok (co_db w) \<Longrightarrow> patch_thread env c i title custom mw w = (Inr th, w') \<Longrightarrow> conv_ok (co_db w')"
  using patch_thread_tables opened_ok(1) touch_ok by metis

lemma ok_delete: "conv_ok (co_db w) \<Longrightarrow> delete_thread env c i w = (Inr u, w') \<Longrightarrow> conv_ok (co_db w')"
  using delete_thread_tables soft_delete_ok by metis

lemma reads_keep_tables:
  "list_messages now c i lim before inc w = (r, w') \<Longrightarrow> co_db w' = co_db w"
  "get_message c j w = (r', w') \<Longrightarrow> co_db w' = co_db w"
  "window_messages c i turns lim w = (r'', w') \<Longrightarrow> co_db w' = co_db w"
  "get_thread c i w = (r3, w') \<Longrightarrow> co_db w' = co_db w"
  by (auto simp: list_messages_def get_message_def window_messages_def get_thread_def sbind_def Let_def access_def
      split: option.splits prod.splits sum.splits if_splits)

text \<open>C6: Whatever requests a service has answered, in any order and with any failures in between, its transcripts are
  sound: each thread's messages are numbered 1, 2, 3, ... without a gap or a repeat in the order they were
  stored, ids are unique, and every message belongs to a turn of a session of its own thread and tenant.\<close>

theorem reachable_transcripts_ok:
  assumes "conv_reachable w"
  shows "conv_ok (co_db w)"
  using assms
proof (induction rule: conv_reachable.induct)
  case (conv_start w)
  then show ?case by (simp add: conv_ok_def keys_distinct_def linked_def gapless_def rows_of_def)
next
  case (conv_serve w c env req)
  show ?case
  proof (cases req)
    case (CR_Create i title custom ssys sid)
    then show ?thesis using conv_serve.IH ok_create by (auto simp: uow_end_db split: prod.splits sum.splits)
  next
    case (CR_Patch i title custom mw)
    then show ?thesis using conv_serve.IH ok_patch by (auto simp: uow_end_db split: prod.splits sum.splits)
  next
    case (CR_Delete i)
    then show ?thesis using conv_serve.IH ok_delete by (auto simp: uow_end_db split: prod.splits sum.splits)
  next
    case (CR_Append q mw)
    then show ?thesis using conv_serve.IH ok_append by (auto simp: uow_end_db split: prod.splits sum.splits)
  next
    case (CR_List i lim before inc)
    then show ?thesis using conv_serve.IH by (auto simp: uow_end_db split: prod.splits sum.splits dest!: reads_keep_tables)
  next
    case (CR_Get i)
    then show ?thesis using conv_serve.IH by (auto simp: uow_end_db split: prod.splits sum.splits dest!: reads_keep_tables)
  next
    case (CR_Window i turns lim)
    then show ?thesis using conv_serve.IH by (auto simp: uow_end_db split: prod.splits sum.splits dest!: reads_keep_tables)
  next
    case (CR_Thread i)
    then show ?thesis using conv_serve.IH by (auto simp: uow_end_db split: prod.splits sum.splits dest!: reads_keep_tables)
  qed
next
  case (conv_other w w')
  then show ?case by simp
qed

subsection \<open>A small service\<close>

definition demo_env :: "instant \<Rightarrow> string \<Rightarrow> conv_env" where
  "demo_env now fresh = \<lparr>ce_now = now, ce_blake2b = id, ce_sha256 = id, ce_utf8_len = length, ce_detect_language = (\<lambda>_. ''en''),
     ce_thread_ulid = fresh, ce_message_ulid = fresh, ce_observation_ulid = fresh, ce_archive_enabled = True\<rparr>"

definition demo_user :: "string \<Rightarrow> exec_context" where
  "demo_user u = (demo_context u None)\<lparr>ctx_thread_id := Some ''t1''\<rparr>"

definition demo_conv :: "Thread list \<Rightarrow> conv" where
  "demo_conv ths = \<lparr>co_db = \<lparr>cv_threads = ths, cv_sessions = [], cv_turns = [], cv_messages = [], cv_attachments = [],
       cv_agent_runs = []\<rparr>,
     co_platform = \<lparr>pf_db = \<lparr>db_tenants = [], db_keys = [], db_workspaces = [], db_members = []\<rparr>, pf_authz = demo_authz,
       pf_revisions = Some Map.empty, pf_anchors = []\<rparr>,
     co_observations = [], co_outbox = \<lparr>ob_rows = [], ob_next = 1\<rparr>, co_pending = [], co_hot = ex_hot\<rparr>"

definition say :: "MessageRole \<Rightarrow> string \<Rightarrow> append_request" where
  "say role txt = \<lparr>ap_role = role, ap_content = txt, ap_kind = VISIBLE, ap_attachments = [], ap_custom_metadata = None,
     ap_occurred_at = None, ap_source_system = None, ap_source_message_id = None, ap_parent_message_id = None,
     ap_tool_calls = [], ap_tool_call_id = None\<rparr>"

definition demo_thread :: Thread where
  "demo_thread = new_thread (demo_env 0 ''z'') (demo_user ''u1'') ''t1'' None None None None"

theorem reachable_transcripts_ok_witness:
  "conv_ok (co_db (serve (demo_env 2 ''b'') (demo_user ''u1'') (CR_Append (say RO_ASSISTANT ''hello'') None)
     (serve (demo_env 1 ''a'') (demo_user ''u1'') (CR_Append (say RO_USER ''hi'') None) (demo_conv []))))"
proof -
  have v: "valid_context (demo_user ''u1'')" by code_simp
  show ?thesis by (rule reachable_transcripts_ok) (intro conv_serve conv_start v; simp add: demo_conv_def)
qed

subsection \<open>Imports\<close>

lemma find_by_source_append:
  "find_by_source db t a b = None \<Longrightarrow> cv_messages db' = cv_messages db @ [r] \<Longrightarrow> ms_tenant_id (mr_message r) = t \<Longrightarrow>
    ms_source_system (mr_message r) = Some a \<Longrightarrow> ms_source_message_id (mr_message r) = Some b \<Longrightarrow>
    find_by_source db' t a b = Some (row_to_message [] r)"
proof -
  assume none: "find_by_source db t a b = None" and msgs: "cv_messages db' = cv_messages db @ [r]" "ms_tenant_id (mr_message r) = t"
    "ms_source_system (mr_message r) = Some a" "ms_source_message_id (mr_message r) = Some b"
  have "List.find P (xs @ [x]) = Some x" if "List.find P xs = None" "P x" for P xs and x :: MessageRow
    using that by (induction xs) (auto split: if_splits)
  then show ?thesis using none msgs by (simp add: find_by_source_def)
qed

lemma touch_thread_get:
  assumes "threads_get db t i = Some th" and "cv_threads db' = cv_threads (snd (threads_touch now t i title custom db))"
  shows "\<exists>th'. threads_get db' t i = Some th' \<and> th_revision th' = fst (threads_touch now t i title custom db)"
proof -
  let ?hit = "\<lambda>r. th_thread_id r = i \<and> th_tenant_id r = t"
  let ?upd = "\<lambda>r. r\<lparr>th_revision := Suc (th_revision r), th_updated_at := now,
             th_title := (if title = None then th_title r else title),
             th_custom_metadata := (case custom of None \<Rightarrow> th_custom_metadata r | Some m \<Rightarrow> m)\<rparr>"
  have row: "List.find (\<lambda>r. th_thread_id r = i) (cv_threads db) = Some th" "th_tenant_id th = t" "th_deleted_at th = None"
    using assms(1) by (auto simp: threads_get_def threads_row_def split: option.splits if_splits)
  have id: "th_thread_id th = i" using find_set [OF row(1)] by simp
  have find: "List.find (\<lambda>r. th_thread_id r = i) (map (\<lambda>r. if ?hit r then ?upd r else r) xs) = Some (?upd th)"
    "List.find ?hit (map (\<lambda>r. if ?hit r then ?upd r else r) xs) = Some (?upd th)"
    if "List.find (\<lambda>r. th_thread_id r = i) xs = Some th" for xs
    using that row(2) by (induction xs) (auto split: if_splits)
  show ?thesis
    using find [OF row(1)] row(2,3) assms(2) by (simp add: threads_get_def threads_row_def threads_touch_def Let_def)
qed

lemma opened_get:
  assumes "opened env c i db db0"
  shows "\<exists>th. threads_get db0 (ctx_tenant_id c) i = Some th"
proof (cases "threads_get db (ctx_tenant_id c) i")
  case (Some th)
  then show ?thesis using assms by (simp add: opened_def)
next
  case None
  then obtain title custom ssys sid where add: "threads_add (new_thread env c i title custom ssys sid) db = Inr db0"
    using assms by (auto simp: opened_def)
  then have "List.find (\<lambda>r. th_thread_id r = i) (cv_threads db) = None" "cv_threads db0 = cv_threads db @ [new_thread env c i title custom ssys sid]"
    by (auto simp: threads_add_def threads_row_def new_thread_def split: if_splits)
  moreover have "List.find P (xs @ [x]) = Some x" if "List.find P xs = None" "P x" for P xs and x :: Thread
    using that by (induction xs) (auto split: if_splits)
  ultimately have "List.find (\<lambda>r. th_thread_id r = i) (cv_threads db0) = Some (new_thread env c i title custom ssys sid)"
    by (simp add: new_thread_def)
  then show ?thesis by (simp add: threads_get_def threads_row_def) (simp add: new_thread_def)
qed

text \<open>After an append the thread is there, not deleted, and its stored revision is the one the append reports.\<close>

lemma append_thread_get:
  assumes ok: "conv_ok (co_db w)" and run: "append_message env c q mw w = (Inr r, w')"
  shows "\<exists>th. threads_get (co_db w') (ctx_tenant_id c) (or_empty (ctx_thread_id c)) = Some th \<and>
    (\<not> ack_deduplicated (res_ack r) \<longrightarrow> th_revision th = res_revision r)"
proof -
  let ?t = "ctx_tenant_id c" and ?i = "or_empty (ctx_thread_id c)"
  obtain w0 where w0: "opened env c ?i (co_db w) (co_db w0)"
    and fin: "case duplicate_of (co_db w0) c q of Some d \<Rightarrow> r = dup_result d \<and> w' = w0
     | None \<Rightarrow> store_message env (lineage (ce_blake2b env) (co_db w0) c (ap_role q)) q w0 = (Inr r, w')"
    using append_message_Inr [OF run] by blast
  obtain th where th: "threads_get (co_db w0) ?t ?i = Some th" using opened_get [OF w0] ..
  show ?thesis
  proof (cases "duplicate_of (co_db w0) c q")
    case (Some d)
    then show ?thesis using fin th by (auto simp: dup_result_def)
  next
    case None
    let ?c = "lineage (ce_blake2b env) (co_db w0) c (ap_role q)"
    have st: "store_message env ?c q w0 = (Inr r, w')" using fin None by simp
    note own = opened_ok [OF w0 ok]
    obtain db where db: "cv_threads db = cv_threads (co_db w0)" "cv_threads (co_db w') = cv_threads (snd (touched env ?c db))"
      "res_revision r = fst (touched env ?c db)"
      using store_message_ok(3) [OF own(1) _ st] own(2) by auto
    have "threads_get db ?t ?i = Some th" using th db(1) by (simp add: threads_get_def threads_row_def)
    from touch_thread_get [OF this, of "co_db w'" "ce_now env" None None] db show ?thesis by auto
  qed
qed

lemma append_leaves_source:
  assumes ok: "conv_ok (co_db w)" and run: "append_message env c q mw w = (Inr r, w')"
    and src: "truthy (ap_source_system q)" "truthy (ap_source_message_id q)"
  shows "\<exists>d. find_by_source (co_db w') (ctx_tenant_id c) (or_empty (ap_source_system q)) (or_empty (ap_source_message_id q)) = Some d \<and>
    ms_message_id d = ack_message_id (res_ack r) \<and> ms_sequence d = ack_sequence (res_ack r)"
proof -
  obtain w0 where w0: "opened env c (or_empty (ctx_thread_id c)) (co_db w) (co_db w0)"
    and fin: "case duplicate_of (co_db w0) c q of Some d \<Rightarrow> r = dup_result d \<and> w' = w0
     | None \<Rightarrow> store_message env (lineage (ce_blake2b env) (co_db w0) c (ap_role q)) q w0 = (Inr r, w')"
    using append_message_Inr [OF run] by blast
  have dup: "duplicate_of (co_db w0) c q =
      find_by_source (co_db w0) (ctx_tenant_id c) (or_empty (ap_source_system q)) (or_empty (ap_source_message_id q))"
    using src by (simp add: duplicate_of_def)
  show ?thesis
  proof (cases "duplicate_of (co_db w0) c q")
    case (Some d)
    then show ?thesis using fin dup by (simp add: dup_result_def)
  next
    case None
    let ?c = "lineage (ce_blake2b env) (co_db w0) c (ap_role q)"
    note own = opened_ok [OF w0 ok]
    obtain m where m: "stored env ?c q w0 r w' m"
      using store_message_ok(2) [OF own(1), of ?c env q r w'] own(2) fin None by auto
    then have fields: "ms_tenant_id m = ctx_tenant_id c" "ms_source_system m = ap_source_system q"
      "ms_source_message_id m = ap_source_message_id q" by (simp_all add: stored_def)
    have "find_by_source (co_db w') (ctx_tenant_id c) (or_empty (ap_source_system q)) (or_empty (ap_source_message_id q)) =
        Some (row_to_message [] (row_of (ce_utf8_len env) m))"
      by (rule find_by_source_append [of "co_db w0"])
        (use None dup m src fields in \<open>auto simp: stored_def row_of_def truthy_def split: option.splits\<close>)
    then show ?thesis using m by (simp add: stored_def row_to_message_def row_of_def)
  qed
qed

text \<open>A source message is stored once. After an append that carries a source system and a source message id, any
  later append of the tenant to the thread with the same two ids is acknowledged with the first message's
  id and sequence, marked as deduplicated, and changes nothing at all.\<close>

theorem source_stored_once:
  assumes "conv_ok (co_db w)" and "append_message env c q mw w = (Inr r, w')"
    and "truthy (ap_source_system q)" and "truthy (ap_source_message_id q)"
    and "ap_source_system q' = ap_source_system q" and "ap_source_message_id q' = ap_source_message_id q"
    and "ctx_tenant_id c' = ctx_tenant_id c" and "ctx_thread_id c' = ctx_thread_id c" and "\<not> refused c' q'"
  shows "\<exists>r'. append_message env' c' q' (Some True) w' = (Inr r', w') \<and> ack_deduplicated (res_ack r') \<and>
    res_message r' = None \<and> ack_message_id (res_ack r') = ack_message_id (res_ack r) \<and>
    ack_sequence (res_ack r') = ack_sequence (res_ack r)"
proof -
  obtain d where d: "find_by_source (co_db w') (ctx_tenant_id c) (or_empty (ap_source_system q)) (or_empty (ap_source_message_id q)) = Some d"
    "ms_message_id d = ack_message_id (res_ack r)" "ms_sequence d = ack_sequence (res_ack r)"
    using append_leaves_source [OF assms(1-4)] by blast
  obtain th where th: "threads_get (co_db w') (ctx_tenant_id c) (or_empty (ctx_thread_id c)) = Some th"
    using append_thread_get [OF assms(1,2)] by blast
  have "duplicate_of (co_db w') c' q' = Some d" using assms(3-7) d(1) by (simp add: duplicate_of_def)
  then have "append_message env' c' q' (Some True) w' = (Inr (dup_result d), w')"
    using assms(7-9) th by (simp add: append_message_def sbind_def check_op_def asked_def)
  then show ?thesis using d(2,3) by (simp add: dup_result_def)
qed

subsection \<open>Turns\<close>

lemma latest_turn:
  assumes "u \<in> set (cv_turns db)" and "tu_thread_id u = i" and "tu_tenant_id u = t"
    and "\<And>v. v \<in> set (cv_turns db) \<Longrightarrow> tu_thread_id v = i \<Longrightarrow> tu_tenant_id v = t \<Longrightarrow> v = u \<or> tu_sequence v < tu_sequence u"
    and "distinct (map tu_turn_id (cv_turns db))"
  shows "turns_latest db t i = Some u"
proof -
  let ?xs = "filter (\<lambda>r. tu_thread_id r = i \<and> tu_tenant_id r = t) (cv_turns db)"
  have u: "u \<in> set (sort_key tu_sequence ?xs)" using assms(1-3) by simp
  then obtain ys z where yz: "sort_key tu_sequence ?xs = ys @ [z]" by (metis empty_iff list.set(1) rev_exhaust)
  have "z = u"
  proof (rule ccontr)
    assume "z \<noteq> u"
    then have "u \<in> set ys" using u yz by auto
    moreover have "sorted (map tu_sequence (ys @ [z]))" using sorted_sort_key [of tu_sequence ?xs] yz by simp
    ultimately have "tu_sequence u \<le> tu_sequence z" by (auto simp: sorted_append)
    moreover have "z \<in> set ?xs" using yz by (metis in_set_conv_decomp set_sort)
    ultimately show False using assms(4) [of z] \<open>z \<noteq> u\<close> by auto
  qed
  moreover have "List.find (\<lambda>r. tu_turn_id r = tu_turn_id u) (cv_turns db) = Some u"
    by (rule find_key [OF assms(5,1)]) simp
  then have "turns_get db t (tu_turn_id u) = Some u" using assms(3) by (simp add: turns_get_def)
  ultimately show ?thesis by (simp add: turns_latest_def yz)
qed

lemma next_of_greater: "x \<in> set xs \<Longrightarrow> x < next_of xs"
  by (simp add: next_of_def less_Suc_eq_le)

text \<open>A turn that was not there before is the thread's latest after the append that opened it.\<close>

lemma opened_turn_is_latest:
  assumes ok: "conv_ok db" and own: "thread_owner db (or_empty (ctx_thread_id c)) (ctx_tenant_id c)"
    and run: "ensure_session_and_turn now c db = Inr db'" and new: "turns_get db (ctx_tenant_id c) (or_empty (ctx_turn_id c)) = None"
  shows "\<exists>u. turns_latest db' (ctx_tenant_id c) (or_empty (ctx_thread_id c)) = Some u \<and> tu_turn_id u = or_empty (ctx_turn_id c) \<and>
    tu_session_id u = or_empty (ctx_session_id c)"
proof -
  obtain dbs where s: "ensure_session now c db = Inr dbs" and t: "ensure_turn now c dbs = Inr db'"
    using run by (auto simp: ensure_session_and_turn_def rbind_Inr)
  note ses = ensure_session_ok [OF ok own s]
  note tur = ensure_turn_ok [OF ses(1) t ses(2)]
  define u where "u = \<lparr>tu_turn_id = or_empty (ctx_turn_id c), tu_session_id = or_empty (ctx_session_id c),
            tu_thread_id = or_empty (ctx_thread_id c), tu_tenant_id = ctx_tenant_id c,
            tu_sequence = turns_next_sequence dbs (ctx_tenant_id c) (or_empty (ctx_thread_id c)),
            tu_started_at = now, tu_custom_metadata = []\<rparr>"
  have "turns_get dbs (ctx_tenant_id c) (or_empty (ctx_turn_id c)) = None" using new ses(5) by (simp add: turns_get_def)
  then have turns: "cv_turns db' = cv_turns dbs @ [u]"
    using t by (auto simp: ensure_turn_def turns_add_def u_def split: if_splits)
  have "turns_latest db' (ctx_tenant_id c) (or_empty (ctx_thread_id c)) = Some u"
  proof (rule latest_turn)
    show "distinct (map tu_turn_id (cv_turns db'))" using tur(1) by (simp add: conv_ok_def keys_distinct_def)
    show "v = u \<or> tu_sequence v < tu_sequence u"
      if "v \<in> set (cv_turns db')" "tu_thread_id v = or_empty (ctx_thread_id c)" "tu_tenant_id v = ctx_tenant_id c" for v
    proof (cases "v = u")
      case False
      then have "tu_sequence v \<in> set (map tu_sequence (filter (\<lambda>r. tu_thread_id r = or_empty (ctx_thread_id c) \<and>
          tu_tenant_id r = ctx_tenant_id c) (cv_turns dbs)))" using that turns by auto
      then show ?thesis using next_of_greater by (simp add: u_def turns_next_sequence_def)
    qed simp
  qed (use turns in \<open>simp_all add: u_def\<close>)
  then show ?thesis by (auto simp: u_def)
qed

lemma store_turns:
  assumes "store_message env c q w = (Inr r, w')"
  shows "\<exists>db. ensure_session_and_turn (ce_now env) c (co_db w) = Inr db \<and> cv_turns (co_db w') = cv_turns db"
proof -
  obtain db1 db2 where e: "ensure_session_and_turn (ce_now env) c (co_db w) = Inr db1"
    and db2: "run_step env c db1 = Inr db2" and rec: "record_message env c q (w\<lparr>co_db := db2\<rparr>) = (Inr r, w')"
    using store_message_Inr [OF assms] by auto
  have "cv_turns (co_db w') = cv_turns db2"
    using record_message_Inr [OF rec] by (auto simp: messages_add_def split: if_splits)
  then show ?thesis using e run_step_Inr [OF db2] by auto
qed

lemma turns_latest_cong: "cv_turns db = cv_turns db' \<Longrightarrow> turns_latest db t i = turns_latest db' t i"
  by (simp add: turns_latest_def turns_get_def split: list.split)

lemma lineage_user:
  assumes "ctx_session_id c = None" and "ctx_turn_id c = None"
  shows "ctx_session_id (lineage h db c RO_USER) = Some (thread_session_id h (ctx_tenant_id c) (or_empty (ctx_thread_id c)))"
    and "ctx_turn_id (lineage h db c RO_USER) =
      Some (thread_turn_id h (ctx_tenant_id c) (or_empty (ctx_thread_id c)) (turns_next_sequence db (ctx_tenant_id c) (or_empty (ctx_thread_id c))))"
  using assms by (simp_all add: lineage_def Let_def)

lemma lineage_joins:
  assumes "ctx_session_id c = None" and "ctx_turn_id c = None" and "role \<noteq> RO_USER"
    and "turns_latest db (ctx_tenant_id c) (or_empty (ctx_thread_id c)) = Some u"
    and "tu_session_id u = thread_session_id h (ctx_tenant_id c) (or_empty (ctx_thread_id c))"
  shows "ctx_session_id (lineage h db c role) = Some (tu_session_id u)" and "ctx_turn_id (lineage h db c role) = Some (tu_turn_id u)"
  using assms by (simp_all add: lineage_def Let_def)

lemma append_stored:
  assumes ok: "conv_ok (co_db w)" and run: "append_message env c q mw w = (Inr r, w')" and "\<not> ack_deduplicated (res_ack r)"
  shows "\<exists>w0 m. opened env c (or_empty (ctx_thread_id c)) (co_db w) (co_db w0) \<and> same_rest w w0 \<and>
    duplicate_of (co_db w0) c q = None \<and>
    store_message env (lineage (ce_blake2b env) (co_db w0) c (ap_role q)) q w0 = (Inr r, w') \<and>
    stored env (lineage (ce_blake2b env) (co_db w0) c (ap_role q)) q w0 r w' m"
proof -
  obtain w0 where w0: "opened env c (or_empty (ctx_thread_id c)) (co_db w) (co_db w0)" "same_rest w w0"
    and fin: "case duplicate_of (co_db w0) c q of Some d \<Rightarrow> r = dup_result d \<and> w' = w0
     | None \<Rightarrow> store_message env (lineage (ce_blake2b env) (co_db w0) c (ap_role q)) q w0 = (Inr r, w')"
    using append_message_Inr [OF run] by blast
  have none: "duplicate_of (co_db w0) c q = None" using fin assms(3) by (auto simp: dup_result_def split: option.splits)
  then have st: "store_message env (lineage (ce_blake2b env) (co_db w0) c (ap_role q)) q w0 = (Inr r, w')" using fin by simp
  note own = opened_ok [OF w0(1) ok]
  obtain m where "stored env (lineage (ce_blake2b env) (co_db w0) c (ap_role q)) q w0 r w' m"
    using store_message_ok(2) [OF own(1) _ st] own(2) by auto
  then show ?thesis using w0 none st by blast
qed

text \<open>A question and what is said while answering it share a turn. A USER message with no session or turn named
  opens the thread's next turn in the thread's own session; the next message of another role, again
  with none named, joins that turn, whoever sends it.\<close>

theorem answer_joins_the_turn:
  assumes ok: "conv_ok (co_db w)"
    and q: "append_message env c q mw w = (Inr r, w')" "ap_role q = RO_USER" "\<not> ack_deduplicated (res_ack r)"
    and c: "ctx_session_id c = None" "ctx_turn_id c = None"
    and free: "turns_get (co_db w) (ctx_tenant_id c) (thread_turn_id (ce_blake2b env) (ctx_tenant_id c) (or_empty (ctx_thread_id c))
        (turns_next_sequence (co_db w) (ctx_tenant_id c) (or_empty (ctx_thread_id c)))) = None"
    and a: "append_message env' c' q' mw' w' = (Inr r', w'')" "ap_role q' \<noteq> RO_USER" "\<not> ack_deduplicated (res_ack r')"
    and c': "ctx_session_id c' = None" "ctx_turn_id c' = None" "ctx_tenant_id c' = ctx_tenant_id c"
      "ctx_thread_id c' = ctx_thread_id c" and "ce_blake2b env' = ce_blake2b env"
  shows "ack_turn_id (res_ack r') = ack_turn_id (res_ack r) \<and> ack_session_id (res_ack r') = ack_session_id (res_ack r)"
proof -
  let ?t = "ctx_tenant_id c" and ?i = "or_empty (ctx_thread_id c)" and ?h = "ce_blake2b env"
  obtain w0 m where w0: "opened env c ?i (co_db w) (co_db w0)"
    and st: "store_message env (lineage ?h (co_db w0) c RO_USER) q w0 = (Inr r, w')"
    and m: "stored env (lineage ?h (co_db w0) c RO_USER) q w0 r w' m"
    using append_stored [OF ok q(1,3)] q(2) by auto
  let ?c = "lineage ?h (co_db w0) c RO_USER"
  note own = opened_ok [OF w0 ok]
  have same: "turns_next_sequence (co_db w0) ?t ?i = turns_next_sequence (co_db w) ?t ?i" "turns_get (co_db w0) = turns_get (co_db w)"
    using own(4) by (simp_all add: turns_next_sequence_def turns_get_def fun_eq_iff)
  obtain db where db: "ensure_session_and_turn (ce_now env) ?c (co_db w0) = Inr db" "cv_turns (co_db w') = cv_turns db"
    using store_turns [OF st] by blast
  obtain u where u: "turns_latest db ?t ?i = Some u" "tu_turn_id u = or_empty (ctx_turn_id ?c)" "tu_session_id u = or_empty (ctx_session_id ?c)"
    using opened_turn_is_latest [OF own(1) _ db(1)] own(2) free same lineage_user [OF c] by auto
  have ack: "ack_turn_id (res_ack r) = tu_turn_id u" "ack_session_id (res_ack r) = tu_session_id u"
    using m u(2,3) by (simp_all add: stored_def)
  have ok': "conv_ok (co_db w')" by (rule ok_append [OF ok q(1)])
  obtain w1 m' where w1: "opened env' c' ?i (co_db w') (co_db w1)"
    and m': "stored env' (lineage ?h (co_db w1) c' (ap_role q')) q' w1 r' w'' m'"
    using append_stored [OF ok' a(1,3)] c'(4) assms(15) by auto
  have "turns_latest (co_db w1) (ctx_tenant_id c') (or_empty (ctx_thread_id c')) = Some u"
    using turns_latest_cong [of "co_db w1" db] opened_ok(4) [OF w1 ok'] db(2) u(1) c'(3,4) by simp
  from lineage_joins [OF c'(1,2) a(2) this, of ?h] show ?thesis
    using m' ack u(3) lineage_user(1) [OF c] c'(3,4) by (simp add: stored_def)
qed

subsection \<open>What a failed request leaves\<close>

text \<open>An id another tenant's thread took, or a thread of the tenant that was deleted, can never be written to:
  an append naming it is refused with the database's own integrity error (HTTP 500) and stores nothing.\<close>

theorem taken_thread_id_refused:
  assumes "threads_row (co_db w) (or_empty (ctx_thread_id c)) = Some th"
    and "th_tenant_id th \<noteq> ctx_tenant_id c \<or> th_deleted_at th \<noteq> None"
    and "\<not> refused c q" and "\<not> truthy (ctx_workspace_id c)"
  shows "fst (append_message env c q (Some b) w) = Inl IntegrityError \<and> http_status IntegrityError = 500"
proof -
  have "threads_get (co_db w) (ctx_tenant_id c) (or_empty (ctx_thread_id c)) = None"
    using assms(1,2) by (auto simp: threads_get_def)
  then show ?thesis
    using assms
    by (auto simp: append_message_def sbind_def check_op_def asked_def create_thread_def Let_def refused_def por_def member_gate_def
        require_workspace_member_def on_db_def threads_add_def new_thread_def)
qed

end
