(* ===== verification/Conversation_Reads.thy ===== *)
theory Conversation_Reads
  imports Conversation_Props
begin

text \<open>
  What reads of a thread return: a page of its transcript, the whole transcript by following pages, the
  newest messages through the hot thread cache, and the internal messages.
\<close>

subsection \<open>Reading a transcript\<close>

definition seq_of :: "MessageRow \<Rightarrow> nat" where "seq_of r = ms_sequence (mr_message r)"

definition last_n :: "nat \<Rightarrow> 'a list \<Rightarrow> 'a list" where "last_n n xs = drop (length xs - n) xs"

definition shown_row :: "bool \<Rightarrow> MessageRow \<Rightarrow> bool" where
  "shown_row include_internal r \<longleftrightarrow> (\<not> include_internal \<longrightarrow> ms_kind (mr_message r) = VISIBLE)"

definition before_row :: "nat option \<Rightarrow> MessageRow \<Rightarrow> bool" where
  "before_row before r \<longleftrightarrow> (case before of None \<Rightarrow> True | Some s \<Rightarrow> seq_of r < s)"

lemma rev_take_rev: "rev (take n (rev xs)) = last_n n xs"
  by (simp add: last_n_def take_rev)

lemma rows_sorted:
  assumes "conv_ok db"
  shows "sorted_wrt (<) (map seq_of (filter P (rows_of i db)))"
proof -
  have "sorted_wrt (<) (map seq_of (rows_of i db))"
    using assms unfolding conv_ok_def gapless_def seq_of_def [abs_def] by (metis sorted_wrt_upt)
  then show ?thesis
    by (induction "rows_of i db" arbitrary: i rule: list.induct) (auto simp: sorted_wrt_map intro: sorted_wrt_filter)
qed

text \<open>A query over a thread of its tenant is a query over the rows of the thread, which are stored in order.\<close>

lemma list_thread_rows:
  assumes ok: "conv_ok db" and own: "thread_owner db i t"
  shows "list_thread db t i lim before inc =
    map (with_attachments db) (last_n lim (filter (before_row before) (filter (shown_row inc) (rows_of i db))))"
proof -
  let ?P = "\<lambda>r. shown_row inc r \<and> before_row before r"
  have "filter (\<lambda>r. in_thread t i r \<and> (\<not> inc \<longrightarrow> ms_kind (mr_message r) = VISIBLE) \<and>
         (case before of None \<Rightarrow> True | Some s \<Rightarrow> ms_sequence (mr_message r) < s)) (cv_messages db) =
      filter ?P (filter (in_thread t i) (cv_messages db))"
    unfolding filter_filter
    by (rule filter_cong) (auto simp: shown_row_def before_row_def seq_of_def split: option.splits)
  also have "\<dots> = filter ?P (rows_of i db)" by (simp only: rows_of_tenant(2) [OF ok own])
  finally have eq: "filter (\<lambda>r. in_thread t i r \<and> (\<not> inc \<longrightarrow> ms_kind (mr_message r) = VISIBLE) \<and>
         (case before of None \<Rightarrow> True | Some s \<Rightarrow> ms_sequence (mr_message r) < s)) (cv_messages db) = filter ?P (rows_of i db)" .
  have "sorted (map seq_of (filter ?P (rows_of i db)))"
    using rows_sorted [OF ok, of ?P i] by (simp add: strict_sorted_imp_sorted)
  then have "sort_key (\<lambda>r. ms_sequence (mr_message r)) (filter ?P (rows_of i db)) = filter ?P (rows_of i db)"
    by (simp add: sort_key_id_if_sorted seq_of_def [abs_def])
  then show ?thesis unfolding list_thread_def oldest_first_def eq by (simp add: rev_take_rev conj_commute)
qed

subsection \<open>Pages\<close>

text \<open>The route's page: one row more than asked proves that an older page exists. The page starts where the
  next, older one must stop. \<open>hydrate\<close> fills in content the archive purged; \<open>load\<close> stands for
  \<open>load_message_content\<close>, \<open>None\<close> for a service without an archive.\<close>

definition hydrate :: "(Message \<Rightarrow> service_error + string) option \<Rightarrow> Message \<Rightarrow> service_error + Message" where
  "hydrate load m = (case load of None \<Rightarrow> Inr m
     | Some f \<Rightarrow> if ms_archive_status m \<noteq> AS_PURGED then Inr m else rbind (f m) (\<lambda>content. Inr (m\<lparr>ms_content := content\<rparr>)))"

fun hydrate_all :: "(Message \<Rightarrow> service_error + string) option \<Rightarrow> Message list \<Rightarrow> service_error + Message list" where
  "hydrate_all load [] = Inr []"
| "hydrate_all load (m # ms) = rbind (hydrate load m) (\<lambda>x. rbind (hydrate_all load ms) (\<lambda>xs. Inr (x # xs)))"

definition page_of :: "nat \<Rightarrow> Message list \<Rightarrow> Message list" where
  "page_of lim rows = (if length rows > lim then last_n lim rows else rows)"

definition next_before :: "nat \<Rightarrow> Message list \<Rightarrow> nat option" where
  "next_before lim rows = (if length rows > lim \<and> page_of lim rows \<noteq> [] then Some (ms_sequence (hd (page_of lim rows))) else None)"

definition list_messages_route :: "(Message \<Rightarrow> service_error + string) option \<Rightarrow> instant \<Rightarrow> exec_context \<Rightarrow> string \<Rightarrow>
    nat \<Rightarrow> nat option \<Rightarrow> bool \<Rightarrow> (Message list \<times> nat option) conv_op" where
  "list_messages_route load now c i lim before inc =
     sbind (list_messages now c i (lim + 1) before inc) (\<lambda>rows w.
       (rbind (hydrate_all load (page_of lim rows)) (\<lambda>ms. Inr (ms, next_before lim rows)), w))"

text \<open>Following the pages of a store backwards, oldest page first in the result; \<open>fuel\<close> bounds the pages read.\<close>

fun follow :: "nat \<Rightarrow> nat \<Rightarrow> (nat option \<Rightarrow> Message list) \<Rightarrow> nat option \<Rightarrow> Message list option" where
  "follow 0 lim rows before = None"
| "follow (Suc fuel) lim rows before =
     (case next_before lim (rows before) of
        None \<Rightarrow> Some (page_of lim (rows before))
      | Some b \<Rightarrow> map_option (\<lambda>older. older @ page_of lim (rows before)) (follow fuel lim rows (Some b)))"

lemma with_attachments_seq [simp]: "ms_sequence (with_attachments db r) = seq_of r"
  by (simp add: with_attachments_def row_to_message_def seq_of_def)

lemma last_n_map: "last_n n (map f xs) = map f (last_n n xs)"
  by (simp add: last_n_def drop_map)

lemma length_last_n [simp]: "length (last_n n xs) = min n (length xs)"
  by (simp add: last_n_def)

lemma last_n_last_n: "n \<le> k \<Longrightarrow> last_n n (last_n k xs) = last_n n xs"
  by (cases "k \<le> length xs") (auto simp: last_n_def)

text \<open>In rows in order, those before the first of the last \<open>n\<close> are the rest.\<close>

lemma before_last_n:
  assumes "sorted_wrt (<) (map seq_of xs)" and "0 < n" and "n < length xs"
  shows "filter (before_row (Some (seq_of (hd (last_n n xs))))) xs = take (length xs - n) xs"
proof -
  let ?k = "length xs - n"
  have k: "?k < length xs" using assms(2,3) by simp
  have hd: "hd (last_n n xs) = xs ! ?k" using k by (simp add: last_n_def hd_drop_conv_nth)
  have "filter (before_row (Some (seq_of (xs ! ?k)))) xs =
      filter (before_row (Some (seq_of (xs ! ?k)))) (take ?k xs) @ filter (before_row (Some (seq_of (xs ! ?k)))) (drop ?k xs)"
    by (metis append_take_drop_id filter_append)
  moreover have "filter (before_row (Some (seq_of (xs ! ?k)))) (take ?k xs) = take ?k xs"
  proof (rule filter_True, rule ballI)
    fix x assume "x \<in> set (take ?k xs)"
    then obtain j where "j < ?k" "x = xs ! j" by (auto simp: in_set_conv_nth)
    then show "before_row (Some (seq_of (xs ! ?k))) x"
      using sorted_wrt_nth_less [OF assms(1), of j ?k] k by (simp add: before_row_def)
  qed
  moreover have "filter (before_row (Some (seq_of (xs ! ?k)))) (drop ?k xs) = []"
  proof -
    have "\<not> before_row (Some (seq_of (xs ! ?k))) x" if "x \<in> set (drop ?k xs)" for x
    proof -
      obtain j where j: "j < length xs - ?k" "x = xs ! (?k + j)" using \<open>x \<in> set (drop ?k xs)\<close> by (auto simp: in_set_conv_nth)
      have "?k + j < length xs" using j(1) by simp
      then show ?thesis
        using sorted_wrt_nth_less [OF assms(1), of ?k "?k + j"] j(2) k by (cases j) (auto simp: before_row_def)
    qed
    then show ?thesis by (simp add: filter_empty_conv)
  qed
  ultimately show ?thesis using hd by simp
qed

lemma follow_rows:
  assumes "sorted_wrt (<) (map seq_of V)" and "0 < lim"
    and rows: "\<And>b. rows b = map g (last_n (lim + 1) (filter (before_row b) V))" and g: "\<And>r. ms_sequence (g r) = seq_of r"
    and "length (filter (before_row before) V) < fuel"
  shows "follow fuel lim rows before = Some (map g (filter (before_row before) V))"
  using assms(5)
proof (induction fuel arbitrary: before)
  case (Suc fuel)
  let ?P = "filter (before_row before) V"
  show ?case
  proof (cases "length ?P > lim")
    case False
    then have "rows before = map g ?P" "\<not> length (rows before) > lim" by (simp_all add: rows last_n_def)
    then show ?thesis by (simp add: next_before_def page_of_def)
  next
    case True
    have page: "page_of lim (rows before) = map g (last_n lim ?P)" "length (rows before) > lim"
      using True by (simp_all add: page_of_def rows last_n_map last_n_last_n)
    have ne: "last_n lim ?P \<noteq> []" using True assms(2) by (simp add: last_n_def)
    let ?b = "seq_of (hd (last_n lim ?P))"
    have nxt: "next_before lim (rows before) = Some ?b" using page ne g by (simp add: next_before_def hd_map)
    have "hd (last_n lim ?P) \<in> set ?P" using hd_in_set [OF ne] unfolding last_n_def by (rule in_set_dropD)
    then have narrower: "before_row before r" if "seq_of r < ?b" for r
      using that by (auto simp: before_row_def split: option.splits)
    have "filter (before_row (Some ?b)) V = filter (before_row (Some ?b)) ?P"
      unfolding filter_filter
    proof (rule filter_cong [OF refl])
      show "before_row (Some ?b) r \<longleftrightarrow> before_row before r \<and> before_row (Some ?b) r" for r
        using narrower [of r] by (auto simp: before_row_def [of "Some ?b"])
    qed
    also have "\<dots> = take (length ?P - lim) ?P"
      by (rule before_last_n [OF _ assms(2) True]) (use assms(1) in \<open>simp add: sorted_wrt_map sorted_wrt_filter\<close>)
    finally have older: "filter (before_row (Some ?b)) V = take (length ?P - lim) ?P" .
    have "follow fuel lim rows (Some ?b) = Some (map g (filter (before_row (Some ?b)) V))"
      by (rule Suc.IH) (use Suc.prems True assms(2) in \<open>simp add: older\<close>)
    then show ?thesis using nxt page older by (simp add: last_n_def flip: map_append)
  qed
qed simp


subsection \<open>The newest messages and the hot cache\<close>

text \<open>The thread and its cache as one \<open>hot_world\<close>.\<close>

definition world_of :: "string \<Rightarrow> string \<Rightarrow> conv \<Rightarrow> hot_world" where
  "world_of t i w = \<lparr>hw_tenant = t, hw_thread = i, hw_messages = map (with_attachments (co_db w)) (rows_of i (co_db w)),
     hw_revision = (case threads_get (co_db w) t i of None \<Rightarrow> 0 | Some th \<Rightarrow> th_revision th), hw_hot = co_hot w\<rparr>"

lemma world_of_fields [simp]:
  "hw_tenant (world_of t i w) = t" "hw_thread (world_of t i w) = i" "hw_hot (world_of t i w) = co_hot w"
  "hw_messages (world_of t i w) = map (with_attachments (co_db w)) (rows_of i (co_db w))"
  by (simp_all add: world_of_def)

lemma newest_rows:
  assumes "conv_ok db" and "thread_owner db i t"
  shows "newest lim (map (with_attachments db) (rows_of i db)) = list_thread db t i lim None False"
proof -
  have kind: "ms_kind (with_attachments db r) = ms_kind (mr_message r)" for r
    by (simp add: with_attachments_def row_to_message_def)
  have all: "filter (before_row None) xs = xs" for xs by (simp add: before_row_def)
  show ?thesis
    unfolding list_thread_rows [OF assms] all
    by (simp add: newest_def Let_def last_n_def filter_map comp_def kind shown_row_def [abs_def] drop_map)
qed

text \<open>\<open>list_messages\<close> of the newest messages is the read of the cached thread.\<close>

lemma list_refines_read:
  assumes ok: "conv_ok (co_db w)" and th: "threads_get (co_db w) (ctx_tenant_id c) i = Some th"
    and run: "list_messages now c i lim None False w = (Inr ms, w')"
  shows "fst (hot_read now lim (world_of (ctx_tenant_id c) i w)) = Inr ms"
proof -
  let ?t = "ctx_tenant_id c"
  obtain w1 where acc: "access c ''can_read'' ''thread'' i w = (Inr (), w1)"
    and rest: "(case hot_recent now ?t i lim (Some (th_revision th)) (co_hot w1) of
                 (Inl e, h) \<Rightarrow> (Inl e, w1\<lparr>co_hot := h\<rparr>)
               | (Inr (Some ms), h) \<Rightarrow> (Inr ms, w1\<lparr>co_hot := h\<rparr>)
               | (Inr None, h) \<Rightarrow>
                   (let ms = list_thread (co_db w1) ?t i lim None False in
                    (Inr ms, w1\<lparr>co_hot := hot_refill now ?t i ms (th_revision th) h\<rparr>))) = (Inr ms, w')"
    using run th by (auto simp: list_messages_def sbind_Inr)
  have same: "co_db w1 = co_db w" "co_hot w1 = co_hot w" using access_Inr [OF acc] by (simp_all add: same_tables_def)
  have own: "thread_owner (co_db w) i ?t" using threads_get_owner [OF th] by simp
  have rev: "hw_revision (world_of ?t i w) = th_revision th" by (simp add: world_of_def th)
  show ?thesis
    using rest unfolding same newest_rows [OF ok own, symmetric]
    by (auto simp: hot_read_def rev Let_def split: prod.splits sum.splits option.splits)
qed

text \<open>Such a read raises only when the access check does.\<close>

lemma list_newest_returns:
  assumes th: "threads_get (co_db w) (ctx_tenant_id c) i = Some th" and lim: "lim > 0"
    and acc: "fst (require_access c ''can_read'' ''thread'' i (pf_authz (co_platform w))) = Inr ()"
    and inv: "hot_inv up missed (world_of (ctx_tenant_id c) i w)"
  shows "\<exists>ms w'. list_messages now c i lim None False w = (Inr ms, w')"
proof -
  let ?t = "ctx_tenant_id c"
  obtain a where a: "require_access c ''can_read'' ''thread'' i (pf_authz (co_platform w)) = (Inr (), a)"
    using acc by (cases "require_access c ''can_read'' ''thread'' i (pf_authz (co_platform w))") auto
  obtain r h where rec: "hot_recent now ?t i lim (Some (th_revision th)) (co_hot w) = (r, h)" by fastforce
  have rev: "hw_revision (world_of ?t i w) = th_revision th" by (simp add: world_of_def th)
  have "\<exists>x. r = Inr x"
  proof (cases "ht_cache (co_hot w)")
    case None
    then show ?thesis using rec by (auto simp: hot_recent_def)
  next
    case (Some cache)
    then show ?thesis using hot_recent_answer [OF inv _ lim, of cache now r h] rec rev by auto
  qed
  then show ?thesis
    using th a rec by (auto simp: list_messages_def sbind_def access_def Let_def split: option.split)
qed

text \<open>An append and its after-commit push are one append event of the cached thread.\<close>

lemma attachments_of_new:
  assumes "cv_attachments db' = cv_attachments db @ map (\<lambda>a. a\<lparr>at_message_id := k\<rparr>) as" and "j \<noteq> k"
  shows "attachments_of db' j = attachments_of db j"
  using assms by (simp add: attachments_of_def filter_map comp_def)

lemma hot_append_dump:
  assumes "dump m = dump m'"
  shows "hot_append now m r h = hot_append now m' r h"
proof -
  have eq: "m\<lparr>ms_attachments := [], ms_system_metadata := []\<rparr> = m'\<lparr>ms_attachments := [], ms_system_metadata := []\<rparr>"
    using assms by (simp add: dump_def)
  have same: "ms_kind m = ms_kind m'" "ms_tenant_id m = ms_tenant_id m'" "ms_thread_id m = ms_thread_id m'"
    using arg_cong [OF eq, of ms_kind] arg_cong [OF eq, of ms_tenant_id] arg_cong [OF eq, of ms_thread_id] by simp_all
  show ?thesis unfolding hot_append_def same assms ..
qed

lemma dump_with_attachments: "dump (with_attachments db (row_of ul m)) = dump m"
  by (simp add: dump_def with_attachments_def row_to_message_def row_of_def)

lemma stored_rows:
  assumes ok: "conv_ok (co_db w')" and st: "stored env c q w0 r w' m"
  shows "map (with_attachments (co_db w')) (rows_of (or_empty (ctx_thread_id c)) (co_db w')) =
    map (with_attachments (co_db w0)) (rows_of (or_empty (ctx_thread_id c)) (co_db w0)) @
      [with_attachments (co_db w') (row_of (ce_utf8_len env) m)]"
proof -
  let ?i = "or_empty (ctx_thread_id c)"
  have msgs: "cv_messages (co_db w') = cv_messages (co_db w0) @ [row_of (ce_utf8_len env) m]"
    "cv_attachments (co_db w') = cv_attachments (co_db w0) @ map (\<lambda>a. a\<lparr>at_message_id := ms_message_id m\<rparr>) (ap_attachments q)"
    "ms_thread_id m = ?i"
    using st by (simp_all add: stored_def)
  have "ms_message_id (mr_message r) \<noteq> ms_message_id m" if "r \<in> set (cv_messages (co_db w0))" for r
    using ok that unfolding conv_ok_def keys_distinct_def msgs(1) by (auto simp: row_of_def rev_image_eqI)
  then have "map (with_attachments (co_db w')) (rows_of ?i (co_db w0)) = map (with_attachments (co_db w0)) (rows_of ?i (co_db w0))"
    using attachments_of_new [OF msgs(2)] by (auto simp: rows_of_def with_attachments_def)
  then show ?thesis using msgs(1,3) by (simp add: rows_of_def row_of_def)
qed

lemma touch_revision:
  assumes "threads_get db t i = Some th"
  shows "fst (threads_touch now t i None None db) = th_revision th + 1"
proof -
  have row: "List.find (\<lambda>r. th_thread_id r = i) (cv_threads db) = Some th" "th_tenant_id th = t"
    using assms by (auto simp: threads_get_def threads_row_def split: option.splits if_splits)
  have "\<exists>x. List.find (\<lambda>r. th_thread_id r = i \<and> th_tenant_id r = t)
      (map (\<lambda>r. if th_thread_id r = i \<and> th_tenant_id r = t then f r else r) xs) = Some x \<and> x = f th"
    if "List.find (\<lambda>r. th_thread_id r = i) xs = Some th" "\<And>r. th_thread_id (f r) = th_thread_id r" "\<And>r. th_tenant_id (f r) = th_tenant_id r"
    for xs f using that row(2) by (induction xs) (auto split: if_splits)
  from this [OF row(1), of "\<lambda>r. r\<lparr>th_revision := Suc (th_revision r), th_updated_at := now\<rparr>"]
  show ?thesis by (auto simp: threads_touch_def Let_def)
qed

lemma opened_revision:
  assumes "opened env c i db db0" and "threads_get db0 (ctx_tenant_id c) i = Some th"
  shows "(case threads_get db (ctx_tenant_id c) i of None \<Rightarrow> 0 | Some th \<Rightarrow> th_revision th) = th_revision th"
proof (cases "threads_get db (ctx_tenant_id c) i")
  case None
  then obtain title custom ssys sid where add: "threads_add (new_thread env c i title custom ssys sid) db = Inr db0"
    using assms(1) by (auto simp: opened_def)
  have "th = new_thread env c i title custom ssys sid"
    using assms(2) add find_set [of "\<lambda>r. th_thread_id r = i" "cv_threads db0" th]
    by (auto simp: threads_get_def threads_row_def threads_add_def new_thread_def find_None split: option.splits if_splits)
  then show ?thesis using None by (simp add: new_thread_def)
qed (use assms in \<open>simp add: opened_def\<close>)

lemma append_is_hot_step:
  assumes ok: "conv_ok (co_db w)" and run: "append_message env c q mw w = (Inr r, w')" and new: "\<not> ack_deduplicated (res_ack r)"
  shows "\<exists>m. world_of (ctx_tenant_id c) (or_empty (ctx_thread_id c)) (after_commit now r w') =
      hot_step (HE_Append now m) (world_of (ctx_tenant_id c) (or_empty (ctx_thread_id c)) w) \<and>
    ms_kind m = effective_kind q \<and> ms_message_id m = ack_message_id (res_ack r) \<and> ms_content m = sanitise (ap_content q)"
proof -
  let ?t = "ctx_tenant_id c" and ?i = "or_empty (ctx_thread_id c)"
  obtain w0 m where w0: "opened env c ?i (co_db w) (co_db w0)" "same_rest w w0"
    and st: "store_message env (lineage (ce_blake2b env) (co_db w0) c (ap_role q)) q w0 = (Inr r, w')"
    and m: "stored env (lineage (ce_blake2b env) (co_db w0) c (ap_role q)) q w0 r w' m"
    using append_stored [OF ok run new] by blast
  let ?c = "lineage (ce_blake2b env) (co_db w0) c (ap_role q)"
  note own = opened_ok [OF w0(1) ok]
  have ok': "conv_ok (co_db w')" by (rule ok_append [OF ok run])
  let ?M = "with_attachments (co_db w') (row_of (ce_utf8_len env) m)"
  have rows0: "map (with_attachments (co_db w0)) (rows_of ?i (co_db w0)) = map (with_attachments (co_db w)) (rows_of ?i (co_db w))"
    using own(3,6) by (simp add: rows_of_def with_attachments_def attachments_of_def)
  have len: "length (rows_of ?i (co_db w0)) = length (rows_of ?i (co_db w))" using own(3) by (simp add: rows_of_def)
  have fields: "ms_tenant_id ?M = ?t" "ms_thread_id ?M = ?i" "ms_sequence ?M = length (rows_of ?i (co_db w)) + 1"
    "ms_kind ?M = effective_kind q" "ms_message_id ?M = ack_message_id (res_ack r)" "ms_content ?M = sanitise (ap_content q)"
    using m len by (simp_all add: stored_def with_attachments_def row_to_message_def row_of_def)
  have upd: "?M\<lparr>ms_tenant_id := ?t, ms_thread_id := ?i, ms_sequence := length (rows_of ?i (co_db w)) + 1\<rparr> = ?M"
    using fields(1-3) by (cases ?M) simp
  have hot: "co_hot w' = co_hot w" using m w0(2) by (simp add: stored_def same_rest_def)
  have rev0: "(case threads_get (co_db w) ?t ?i of None \<Rightarrow> 0 | Some th \<Rightarrow> th_revision th) + 1 = res_revision r"
  proof -
    obtain db where db: "cv_threads db = cv_threads (co_db w0)" "res_revision r = fst (touched env ?c db)"
      using store_message_ok(3) [OF own(1) _ st] own(2) by auto
    obtain th where th: "threads_get (co_db w0) ?t ?i = Some th" using opened_get [OF w0(1)] ..
    have "threads_get db ?t ?i = Some th" using th db(1) by (simp add: threads_get_def threads_row_def)
    then have "fst (touched env ?c db) = th_revision th + 1" using touch_revision by simp
    moreover have "(case threads_get (co_db w) ?t ?i of None \<Rightarrow> 0 | Some th \<Rightarrow> th_revision th) = th_revision th"
      using opened_revision [OF w0(1) th] .
    ultimately show ?thesis using db(2) by simp
  qed
  obtain th where th: "threads_get (co_db w') ?t ?i = Some th" "th_revision th = res_revision r"
    using append_thread_get [OF ok run] new by blast
  have "res_message r = Some m" using m by (simp add: stored_def)
  then have "world_of ?t ?i (after_commit now r w') = hot_step (HE_Append now ?M) (world_of ?t ?i w)"
    using stored_rows [OF ok' m] rows0 upd hot th rev0 hot_append_dump [OF dump_with_attachments [of "co_db w'" "ce_utf8_len env" m]]
    by (simp add: world_of_def after_commit_def Let_def)
  then show ?thesis using fields(4-6) by blast
qed

lemma newest_last:
  assumes "lim > 0" and "ms_kind m = VISIBLE"
  shows "newest lim (ms @ [m]) \<noteq> [] \<and> last (newest lim (ms @ [m])) = m"
  using newest_visible(2,3) [OF assms(1), of "ms @ [m]"] assms(2) by simp

text \<open>C7: A writer reads its own writes. After a visible message was appended and its request answered, a read of the
  thread's newest messages, by any reader and whether the cache was up or down at either time, ends
  with that message; the cache need only hold what \<open>hot_inv\<close> says before the append.\<close>

theorem read_your_writes:
  assumes ok: "conv_ok (co_db w)" and inv: "hot_inv up missed (world_of (ctx_tenant_id c) (or_empty (ctx_thread_id c)) w)"
    and run: "append_message env c q mw w = (Inr r, w')" "\<not> ack_deduplicated (res_ack r)" "effective_kind q = VISIBLE"
    and w2: "w2 = (after_commit now r w')\<lparr>co_hot := set_available b (co_hot (after_commit now r w'))\<rparr>"
    and read: "list_messages now' c' (or_empty (ctx_thread_id c)) lim None False w2 = (Inr ms, w3)"
      "ctx_tenant_id c' = ctx_tenant_id c" "lim > 0"
  shows "ms \<noteq> [] \<and> ms_message_id (last ms) = ack_message_id (res_ack r) \<and> ms_content (last ms) = sanitise (ap_content q)"
proof -
  let ?t = "ctx_tenant_id c" and ?i = "or_empty (ctx_thread_id c)"
  obtain m where m: "world_of ?t ?i (after_commit now r w') = hot_step (HE_Append now m) (world_of ?t ?i w)"
    "ms_kind m = VISIBLE" "ms_message_id m = ack_message_id (res_ack r)" "ms_content m = sanitise (ap_content q)"
    using append_is_hot_step [OF ok run(1,2), of now] run(3) by auto
  have inv1: "hot_inv up (\<not> up) (world_of ?t ?i (after_commit now r w'))"
    using append_keeps_inv [OF inv, of m now] m(1,2) by simp
  have w2': "world_of ?t ?i w2 = hot_step (HE_Cache b) (world_of ?t ?i (after_commit now r w'))"
    by (simp add: w2 world_of_def)
  have inv2: "hot_inv b (\<not> up) (world_of ?t ?i w2)" unfolding w2' by (rule cache_keeps_inv [OF inv1])
  have db2: "co_db w2 = co_db w'" by (simp add: w2)
  obtain th where th: "threads_get (co_db w2) ?t ?i = Some th" using append_thread_get [OF ok run(1)] db2 by auto
  have ok2: "conv_ok (co_db w2)" unfolding db2 by (rule ok_append [OF ok run(1)])
  have fst: "fst (hot_read now' lim (world_of ?t ?i w2)) = Inr ms"
    using list_refines_read [OF ok2 _ read(1)] th read(2) by simp
  have strip: "map strip_message ms = map strip_message (newest lim (hw_messages (world_of ?t ?i w2)))"
    using inv_read_is_newest [OF inv2 read(3), of now'] fst by (auto simp del: map_eq_conv)
  obtain old M where "hw_messages (world_of ?t ?i w2) = old @ [M]" "ms_kind M = VISIBLE"
    "ms_message_id M = ack_message_id (res_ack r)" "ms_content M = sanitise (ap_content q)"
    unfolding w2' m(1) using m(2-4) by (simp add: Let_def)
  then have last: "newest lim (hw_messages (world_of ?t ?i w2)) \<noteq> []" "last (newest lim (hw_messages (world_of ?t ?i w2))) = M"
    and M: "ms_message_id M = ack_message_id (res_ack r)" "ms_content M = sanitise (ap_content q)"
    using newest_last [OF read(3)] by auto
  have ne: "ms \<noteq> []" using strip last(1) by (metis map_is_Nil_conv)
  then have "strip_message (last ms) = strip_message M" using strip last by (metis last_map)
  then have "ms_message_id (strip_message (last ms)) = ms_message_id (strip_message M)"
    "ms_content (strip_message (last ms)) = ms_content (strip_message M)" by simp_all
  then show ?thesis using ne M by (simp add: strip_message_def)
qed

subsection \<open>Internal messages\<close>

text \<open>Internal messages are guarded one by one but not in a list: to a user who may read the thread, \<open>get_message\<close>
  refuses an internal message someone else wrote, and \<open>list_messages\<close> with \<open>include_internal\<close> returns it.\<close>

theorem internal_refused_but_listed:
  assumes ok: "conv_ok (co_db w)" and th: "threads_get (co_db w) (ctx_tenant_id c) i = Some th"
    and acc: "access c ''can_read'' ''thread'' i w = (Inr (), w1)"
    and m: "messages_get (co_db w) (ctx_tenant_id c) j = Some m" "ms_thread_id m = i" "ms_kind m = INTERNAL"
      "ms_author_principal m \<noteq> principal_id c"
    and user: "\<not> is_agent c" and lim: "length (rows_of i (co_db w)) \<le> lim"
  shows "(\<exists>e. fst (get_message c j w) = Inl (ScopeDenied e)) \<and>
    (\<exists>ms. fst (list_messages now c i lim None True w) = Inr ms \<and> m \<in> set ms)"
proof -
  have own: "thread_owner (co_db w) i (ctx_tenant_id c)" using threads_get_owner [OF th] by simp
  have same: "co_db w1 = co_db w" using access_Inr [OF acc] by (simp add: same_tables_def)
  obtain r where r: "r \<in> set (cv_messages (co_db w))" "m = with_attachments (co_db w) r"
    using m(1) by (auto simp: messages_get_def dest!: find_set split: option.splits if_splits)
  have "r \<in> set (rows_of i (co_db w))"
    using r m(2) by (simp add: rows_of_def with_attachments_def row_to_message_def)
  moreover have "list_thread (co_db w) (ctx_tenant_id c) i lim None True = map (with_attachments (co_db w)) (rows_of i (co_db w))"
    unfolding list_thread_rows [OF ok own] using lim
    by (simp add: before_row_def shown_row_def last_n_def)
  ultimately have "m \<in> set (list_thread (co_db w) (ctx_tenant_id c) i lim None True)" using r(2) by simp
  then show ?thesis
    using th acc m user same by (simp add: list_messages_def get_message_def sbind_def)
qed

subsection \<open>Tenants\<close>

text \<open>The rows of one tenant.\<close>

definition tenant_rows :: "string \<Rightarrow> conv_db \<Rightarrow> Thread list \<times> Session list \<times> Turn list \<times> MessageRow list \<times> AgentRun list" where
  "tenant_rows t db = (filter (\<lambda>r. th_tenant_id r = t) (cv_threads db), filter (\<lambda>r. se_tenant_id r = t) (cv_sessions db),
     filter (\<lambda>r. tu_tenant_id r = t) (cv_turns db), filter (\<lambda>r. ms_tenant_id (mr_message r) = t) (cv_messages db),
     filter (\<lambda>r. ar_tenant_id r = t) (cv_agent_runs db))"

definition foreign :: "string \<Rightarrow> conv_db \<Rightarrow> conv_db \<Rightarrow> bool" where
  "foreign me db db' \<longleftrightarrow> (\<forall>t. t \<noteq> me \<longrightarrow> tenant_rows t db' = tenant_rows t db)"

lemma foreign_refl [simp]: "foreign me db db"
  by (simp add: foreign_def)

lemma foreign_trans: "foreign me a b \<Longrightarrow> foreign me b c \<Longrightarrow> foreign me a c"
  by (simp add: foreign_def)

lemma filter_map_own:
  "(\<And>r. Q r \<Longrightarrow> \<not> P r \<and> \<not> P (f r)) \<Longrightarrow> filter P (map (\<lambda>r. if Q r then f r else r) xs) = filter P xs"
  by (induction xs) auto

lemma foreign_touch: "foreign me db (snd (threads_touch now me i title custom db))"
  by (simp add: foreign_def tenant_rows_def threads_touch_def Let_def) (intro allI impI filter_map_own; simp)

lemma foreign_delete: "foreign me db (snd (threads_soft_delete now me i db))"
  by (simp add: foreign_def tenant_rows_def threads_soft_delete_def Let_def) (intro allI impI filter_map_own; simp)

lemma foreign_add:
  "threads_add th db = Inr db' \<Longrightarrow> th_tenant_id th = me \<Longrightarrow> foreign me db db'"
  "sessions_add s db = Inr db' \<Longrightarrow> se_tenant_id s = me \<Longrightarrow> foreign me db db'"
  "turns_add u db = Inr db' \<Longrightarrow> tu_tenant_id u = me \<Longrightarrow> foreign me db db'"
  "runs_add a db = Inr db' \<Longrightarrow> ar_tenant_id a = me \<Longrightarrow> foreign me db db'"
  "messages_add ul m db = Inr db' \<Longrightarrow> ms_tenant_id m = me \<Longrightarrow> foreign me db db'"
  by (auto simp: foreign_def tenant_rows_def threads_add_def sessions_add_def turns_add_def runs_add_def messages_add_def
      split: if_splits)

lemma foreign_ensure: "ensure_session_and_turn now c db = Inr db' \<Longrightarrow> foreign (ctx_tenant_id c) db db'"
proof -
  assume "ensure_session_and_turn now c db = Inr db'"
  then obtain d where s: "ensure_session now c db = Inr d" and t: "ensure_turn now c d = Inr db'"
    by (auto simp: ensure_session_and_turn_def rbind_Inr)
  have "foreign (ctx_tenant_id c) db d" using s foreign_add(2) by (fastforce simp: ensure_session_def split: option.splits if_splits)
  moreover have "foreign (ctx_tenant_id c) d db'" using t foreign_add(3) by (fastforce simp: ensure_turn_def split: option.splits if_splits)
  ultimately show ?thesis by (rule foreign_trans)
qed

lemma foreign_run: "run_step env c db = Inr db' \<Longrightarrow> foreign (ctx_tenant_id c) db db'"
  using foreign_add(4) by (fastforce simp: run_step_def ensure_agent_run_def split: option.splits if_splits)

lemma foreign_opened: "opened env c i db db0 \<Longrightarrow> foreign (ctx_tenant_id c) db db0"
  using foreign_add(1) by (fastforce simp: opened_def new_thread_def split: option.splits)

lemma foreign_store:
  assumes "store_message env c q w = (Inr r, w')"
  shows "foreign (ctx_tenant_id c) (co_db w) (co_db w')"
proof -
  obtain db1 db2 where e: "ensure_session_and_turn (ce_now env) c (co_db w) = Inr db1"
    and db2: "run_step env c db1 = Inr db2" and rec: "record_message env c q (w\<lparr>co_db := db2\<rparr>) = (Inr r, w')"
    using store_message_Inr [OF assms] by auto
  obtain db3 where add: "messages_add (ce_utf8_len env) (next_message env c q db2) db2 = Inr db3"
    and w': "co_db w' = snd (touched env c db3)" using record_message_Inr [OF rec] by auto
  note steps = foreign_ensure [OF e] foreign_run [OF db2] foreign_add(5) [OF add] foreign_touch
  show ?thesis unfolding w'
    by (rule foreign_trans [OF steps(1) foreign_trans [OF steps(2) foreign_trans [OF _ steps(4)]]]) (simp add: steps(3))
qed

lemma foreign_append:
  assumes "append_message env c q mw w = (Inr r, w')"
  shows "foreign (ctx_tenant_id c) (co_db w) (co_db w')"
proof -
  obtain w0 where w0: "opened env c (or_empty (ctx_thread_id c)) (co_db w) (co_db w0)"
    and fin: "case duplicate_of (co_db w0) c q of Some d \<Rightarrow> r = dup_result d \<and> w' = w0
     | None \<Rightarrow> store_message env (lineage (ce_blake2b env) (co_db w0) c (ap_role q)) q w0 = (Inr r, w')"
    using append_message_Inr [OF assms] by blast
  have "foreign (ctx_tenant_id c) (co_db w0) (co_db w')"
    using fin foreign_store [of env "lineage (ce_blake2b env) (co_db w0) c (ap_role q)" q w0 r w'] by (auto split: option.splits)
  then show ?thesis using foreign_trans [OF foreign_opened [OF w0]] by blast
qed

text \<open>C22: A request only ever changes rows of its own tenant: whatever a caller sends, and whether the request succeeds or
  fails, every other tenant's threads, sessions, turns, messages and agent runs are exactly as before.\<close>

theorem requests_stay_in_tenant:
  assumes "t \<noteq> ctx_tenant_id c"
  shows "tenant_rows t (co_db (serve env c req w)) = tenant_rows t (co_db w)"
proof -
  have "foreign (ctx_tenant_id c) (co_db w) (co_db (serve env c req w))"
  proof (cases req)
    case (CR_Create i title custom ssys sid)
    then show ?thesis using create_thread_opened foreign_opened by (fastforce simp: uow_end_db split: prod.splits sum.splits)
  next
    case (CR_Patch i title custom mw)
    then show ?thesis
      using patch_thread_tables foreign_opened foreign_touch
      by (auto simp: uow_end_db split: prod.splits sum.splits) (metis foreign_refl)
  next
    case (CR_Delete i)
    then show ?thesis using foreign_delete by (auto simp: uow_end_db split: prod.splits sum.splits dest!: delete_thread_tables)
  next
    case (CR_Append q mw)
    then show ?thesis using foreign_append by (auto simp: uow_end_db split: prod.splits sum.splits)
  next
    case (CR_List i lim before inc)
    then show ?thesis by (auto simp: uow_end_db split: prod.splits sum.splits dest!: reads_keep_tables)
  next
    case (CR_Get i)
    then show ?thesis by (auto simp: uow_end_db split: prod.splits sum.splits dest!: reads_keep_tables)
  next
    case (CR_Window i turns lim)
    then show ?thesis by (auto simp: uow_end_db split: prod.splits sum.splits dest!: reads_keep_tables)
  next
    case (CR_Thread i)
    then show ?thesis by (auto simp: uow_end_db split: prod.splits sum.splits dest!: reads_keep_tables)
  qed
  then show ?thesis using assms by (simp add: foreign_def)
qed

text \<open>The keys of the hot cache are joined with colons. Where a tenant id may hold one, two tenants' threads share a
  list and its revision; and the list of thread \<open>x:rev\<close> has the name of the revision of thread \<open>x\<close>.\<close>

lemma hot_keys_alias:
  "hot_key ''a'' ''b:c'' = hot_key ''a:b'' ''c''" "hot_rev_key ''a'' ''b:c'' = hot_rev_key ''a:b'' ''c''"
  "hot_key t (i @ '':rev'') = hot_rev_key t i"
  by (simp_all add: hot_key_def hot_rev_key_def)

end
