(* ===== verification/Conversation_Examples.thy ===== *)
theory Conversation_Examples
  imports Conversation_Reads Authz_Examples
begin

text \<open>Concrete conversations at which the properties of the conversation service apply.\<close>

definition readable_conv :: "Thread list \<Rightarrow> conv" where
  "readable_conv ths = (demo_conv ths)\<lparr>co_platform := (co_platform (demo_conv ths))\<lparr>pf_authz := demo_authz\<lparr>az_provider := demo_provider\<rparr>\<rparr>\<rparr>"

definition imported :: append_request where
  "imported = (say RO_USER ''hi'')\<lparr>ap_source_system := Some ''slack'', ap_source_message_id := Some ''m1''\<rparr>"

lemmas demo_defs = readable_conv_def demo_conv_def demo_env_def demo_user_def demo_context_def demo_thread_def new_thread_def
  imported_def say_def ex_hot_def

lemmas append_defs = append_message_def store_message_def record_message_def sbind_def check_op_def asked_def refused_def
  effective_kind_def tool_fields_problem_def duplicate_of_def threads_get_def threads_row_def lineage_def turns_latest_def
  turns_next_sequence_def next_of_def turns_get_def ensure_session_and_turn_def ensure_session_def ensure_turn_def
  sessions_get_def sessions_add_def turns_add_def on_db_def messages_add_def messages_next_sequence_def new_message_def
  new_observation_def observations_add_def enqueue_def outbox_add_def has_key_def observation_job_def archive_job_def
  enqueue_refresh_def enqueue_episode_index_def SUMMARY_EVERY_def EPISODE_INDEX_DELAY_SECONDS_def touch_thread_def threads_touch_def
  bump_def rev_bump_def job_name_def Let_def thread_session_id_def thread_turn_id_def find_by_source_def

lemma demo_ok [simp]: "conv_ok (co_db (readable_conv [demo_thread]))" "conv_ok (co_db (demo_conv [demo_thread]))"
  by (simp_all add: readable_conv_def demo_conv_def conv_ok_def keys_distinct_def linked_def gapless_def rows_of_def)

definition imported_once :: "(service_error + AppendResult) \<times> conv" where
  "imported_once = append_message (demo_env 1 ''a'') (demo_user ''u1'') imported (Some True) (readable_conv [demo_thread])"

lemma imported_once_stored:
  "\<exists>r w'. append_message (demo_env 1 ''a'') (demo_user ''u1'') imported (Some True) (readable_conv [demo_thread]) = (Inr r, w') \<and>
     \<not> ack_deduplicated (res_ack r) \<and> pf_authz (co_platform w') = demo_authz\<lparr>az_provider := demo_provider\<rparr>"
  by (simp add: append_defs demo_defs)

lemma readable:
  "fst (require_access (demo_user ''u1'') ''can_read'' ''thread'' ''t1'' (demo_authz\<lparr>az_provider := demo_provider\<rparr>)) = Inr ()"
  by code_simp

lemma demo_user_fields [simp]:
  "ctx_tenant_id (demo_user u) = ''acme''" "ctx_thread_id (demo_user u) = Some ''t1''" "ctx_session_id (demo_user u) = None"
  "ctx_turn_id (demo_user u) = None" "ctx_workspace_id (demo_user u) = None"
  by (simp_all add: demo_user_def demo_context_def)

lemma say_fields [simp]: "ap_role (say role txt) = role" "effective_kind (say RO_USER txt) = VISIBLE" "effective_kind imported = VISIBLE"
  "ap_role imported = RO_USER"
  by (simp_all add: say_def effective_kind_def imported_def)

theorem source_stored_once_witness:
  "\<exists>r w' r'. append_message (demo_env 1 ''a'') (demo_user ''u1'') imported (Some True) (readable_conv [demo_thread]) = (Inr r, w') \<and>
     append_message (demo_env 9 ''b'') (demo_user ''u2'') imported (Some True) w' = (Inr r', w') \<and>
     ack_message_id (res_ack r') = ack_message_id (res_ack r)"
proof -
  obtain r w' where run: "append_message (demo_env 1 ''a'') (demo_user ''u1'') imported (Some True) (readable_conv [demo_thread]) = (Inr r, w')"
    using imported_once_stored by blast
  have "\<exists>r'. append_message (demo_env 9 ''b'') (demo_user ''u2'') imported (Some True) w' = (Inr r', w') \<and> ack_deduplicated (res_ack r') \<and>
    res_message r' = None \<and> ack_message_id (res_ack r') = ack_message_id (res_ack r) \<and>
    ack_sequence (res_ack r') = ack_sequence (res_ack r)"
    by (rule source_stored_once [OF demo_ok(1) run])
      (simp_all add: imported_def say_def refused_def effective_kind_def tool_fields_problem_def)
  then show ?thesis using run by blast
qed

theorem answer_joins_the_turn_witness:
  "\<exists>r w' r' w''. append_message (demo_env 1 ''a'') (demo_user ''u1'') (say RO_USER ''hi'') (Some True) (readable_conv [demo_thread]) = (Inr r, w') \<and>
     append_message (demo_env 2 ''b'') (demo_user ''u1'') (say RO_ASSISTANT ''hello'') (Some True) w' = (Inr r', w'') \<and>
     ack_turn_id (res_ack r') = ack_turn_id (res_ack r)"
proof -
  have "\<exists>r w'. append_message (demo_env 1 ''a'') (demo_user ''u1'') (say RO_USER ''hi'') (Some True) (readable_conv [demo_thread]) = (Inr r, w') \<and>
     \<not> ack_deduplicated (res_ack r) \<and> (\<exists>r' w''. append_message (demo_env 2 ''b'') (demo_user ''u1'') (say RO_ASSISTANT ''hello'') (Some True) w' = (Inr r', w'') \<and>
     \<not> ack_deduplicated (res_ack r'))"
    by (simp add: append_defs demo_defs)
  then obtain r w' r' w'' where
    q: "append_message (demo_env 1 ''a'') (demo_user ''u1'') (say RO_USER ''hi'') (Some True) (readable_conv [demo_thread]) = (Inr r, w')"
      "\<not> ack_deduplicated (res_ack r)"
    and a: "append_message (demo_env 2 ''b'') (demo_user ''u1'') (say RO_ASSISTANT ''hello'') (Some True) w' = (Inr r', w'')"
      "\<not> ack_deduplicated (res_ack r')" by blast
  have "ack_turn_id (res_ack r') = ack_turn_id (res_ack r) \<and> ack_session_id (res_ack r') = ack_session_id (res_ack r)"
    by (rule answer_joins_the_turn [OF demo_ok(1) q(1) _ q(2) _ _ _ a(1) _ a(2)])
      (simp_all add: turns_get_def readable_conv_def demo_conv_def demo_env_def)
  then show ?thesis using q a by blast
qed

theorem taken_thread_id_refused_witness:
  "fst (append_message (demo_env 1 ''a'') ((demo_user ''u1'')\<lparr>ctx_tenant_id := ''beta''\<rparr>) (say RO_USER ''hi'') (Some True)
      (readable_conv [demo_thread])) = Inl IntegrityError \<and> http_status IntegrityError = 500"
  by (rule taken_thread_id_refused [of _ _ demo_thread])
    (simp_all add: threads_row_def demo_defs refused_def effective_kind_def tool_fields_problem_def)

theorem requests_stay_in_tenant_witness:
  "tenant_rows ''beta'' (co_db (serve (demo_env 1 ''a'') (demo_user ''u1'') (CR_Append imported (Some True)) (readable_conv [demo_thread]))) =
   tenant_rows ''beta'' (co_db (readable_conv [demo_thread]))"
  by (rule requests_stay_in_tenant) simp


theorem read_your_writes_witness:
  "\<exists>r w' ms w3. append_message (demo_env 1 ''a'') (demo_user ''u1'') imported (Some True) (readable_conv [demo_thread]) = (Inr r, w') \<and>
     list_messages 3 (demo_user ''u1'') ''t1'' 5 None False
       ((after_commit 2 r w')\<lparr>co_hot := set_available True (co_hot (after_commit 2 r w'))\<rparr>) = (Inr ms, w3) \<and>
     ms \<noteq> [] \<and> ms_content (last ms) = ''hi''"
proof -
  obtain r w' where run: "append_message (demo_env 1 ''a'') (demo_user ''u1'') imported (Some True) (readable_conv [demo_thread]) = (Inr r, w')"
    and new: "\<not> ack_deduplicated (res_ack r)" and az: "pf_authz (co_platform w') = demo_authz\<lparr>az_provider := demo_provider\<rparr>"
    using imported_once_stored by blast
  have inv: "hot_inv True False (world_of ''acme'' ''t1'' (readable_conv [demo_thread]))"
    by (auto simp: hot_inv_def hot_parts numbered_def world_of_def rows_of_def readable_conv_def demo_conv_def ex_hot_def)
  let ?w1 = "after_commit 2 r w'"
  let ?w2 = "?w1\<lparr>co_hot := set_available True (co_hot ?w1)\<rparr>"
  obtain m where m: "world_of ''acme'' ''t1'' ?w1 = hot_step (HE_Append 2 m) (world_of ''acme'' ''t1'' (readable_conv [demo_thread]))"
    "ms_kind m = VISIBLE"
    using append_is_hot_step [OF demo_ok(1) run new, of 2] by auto
  have "hot_inv True False (world_of ''acme'' ''t1'' ?w1)" using append_keeps_inv [OF inv, of m 2] m by simp
  from cache_keeps_inv [OF this, of True] have inv2: "hot_inv True False (world_of (ctx_tenant_id (demo_user ''u1'')) ''t1'' ?w2)"
    by (simp add: world_of_def)
  obtain th where "threads_get (co_db ?w2) (ctx_tenant_id (demo_user ''u1'')) ''t1'' = Some th"
    using append_thread_get [OF demo_ok(1) run] by auto
  moreover have "pf_authz (co_platform ?w2) = demo_authz\<lparr>az_provider := demo_provider\<rparr>"
    using az by (simp add: after_commit_def split: option.split)
  ultimately obtain ms w3 where read: "list_messages 3 (demo_user ''u1'') ''t1'' 5 None False ?w2 = (Inr ms, w3)"
    using list_newest_returns [OF _ _ _ inv2, of _ 5 3] readable by auto
  have inv': "hot_inv True False (world_of (ctx_tenant_id (demo_user ''u1'')) (or_empty (ctx_thread_id (demo_user ''u1'')))
      (readable_conv [demo_thread]))" using inv by simp
  have read': "list_messages 3 (demo_user ''u1'') (or_empty (ctx_thread_id (demo_user ''u1''))) 5 None False ?w2 = (Inr ms, w3)"
    using read by simp
  have "ms \<noteq> [] \<and> ms_message_id (last ms) = ack_message_id (res_ack r) \<and> ms_content (last ms) = sanitise (ap_content imported)"
    by (rule read_your_writes [OF demo_ok(1) inv' run new _ refl read']) simp_all
  moreover have "sanitise (ap_content imported) = ''hi''" by code_simp
  ultimately show ?thesis using run read by auto
qed

theorem internal_refused_but_listed_witness:
  "\<exists>r w' m. append_message (demo_env 1 ''a'') (demo_user ''u2'') ((say RO_USER ''note'')\<lparr>ap_kind := INTERNAL\<rparr>) (Some True)
       (readable_conv [demo_thread]) = (Inr r, w') \<and>
     (\<exists>e. fst (get_message (demo_user ''u1'') ''msg_a'' w') = Inl (ScopeDenied e)) \<and>
     (\<exists>ms. fst (list_messages 3 (demo_user ''u1'') ''t1'' 5 None True w') = Inr ms \<and> m \<in> set ms)"
proof -
  have "\<exists>r w' m. append_message (demo_env 1 ''a'') (demo_user ''u2'') ((say RO_USER ''note'')\<lparr>ap_kind := INTERNAL\<rparr>) (Some True)
       (readable_conv [demo_thread]) = (Inr r, w') \<and> pf_authz (co_platform w') = demo_authz\<lparr>az_provider := demo_provider\<rparr> \<and>
     messages_get (co_db w') ''acme'' ''msg_a'' = Some m \<and> ms_thread_id m = ''t1'' \<and> ms_kind m = INTERNAL \<and>
     ms_author_principal m = ''user:u2'' \<and> length (rows_of ''t1'' (co_db w')) \<le> 5"
    by (simp add: append_defs demo_defs messages_get_def with_attachments_def row_to_message_def rows_of_def principal_id_def)
  then obtain r w' m where
    run: "append_message (demo_env 1 ''a'') (demo_user ''u2'') ((say RO_USER ''note'')\<lparr>ap_kind := INTERNAL\<rparr>) (Some True)
       (readable_conv [demo_thread]) = (Inr r, w')"
    and az: "pf_authz (co_platform w') = demo_authz\<lparr>az_provider := demo_provider\<rparr>"
    and m: "messages_get (co_db w') ''acme'' ''msg_a'' = Some m" "ms_thread_id m = ''t1''" "ms_kind m = INTERNAL"
      "ms_author_principal m = ''user:u2''" and len: "length (rows_of ''t1'' (co_db w')) \<le> 5" by blast
  obtain th where th: "threads_get (co_db w') (ctx_tenant_id (demo_user ''u1'')) ''t1'' = Some th"
    using append_thread_get [OF demo_ok(1) run] by auto
  obtain w1 where acc: "access (demo_user ''u1'') ''can_read'' ''thread'' ''t1'' w' = (Inr (), w1)"
    using readable az
    by (cases "require_access (demo_user ''u1'') ''can_read'' ''thread'' ''t1'' (pf_authz (co_platform w'))") (auto simp: access_def)
  have "(\<exists>e. fst (get_message (demo_user ''u1'') ''msg_a'' w') = Inl (ScopeDenied e)) \<and>
    (\<exists>ms. fst (list_messages 3 (demo_user ''u1'') ''t1'' 5 None True w') = Inr ms \<and> m \<in> set ms)"
    by (rule internal_refused_but_listed [OF ok_append [OF demo_ok(1) run] th acc])
      (use m len in \<open>simp_all add: principal_id_def is_agent_def demo_user_def demo_context_def\<close>)
  then show ?thesis using run by blast
qed

end
