(* ===== verification/Json.thy ===== *)
theory Json
  imports Prelude
begin

text \<open>
  What the components use of Python's \<open>json\<close>, of \<open>str.splitlines\<close> and of UTF-8: the compact writer
  \<open>json.dumps(v, separators=(",", ":"), ensure_ascii=False)\<close>, the reader \<open>json.loads\<close> on what such a writer
  produces, and the facts that a written document is read back and that it holds no control character.

  A character is one of the first 256 code points, so a code point takes one or two bytes in UTF-8.
  Values are objects, arrays, strings, natural numbers and \<open>null\<close>; the reader has no white space,
  floats or booleans, and answers \<open>None\<close> where \<open>json.loads\<close> raises.
\<close>

datatype json = JNull | JNum nat | JStr string | JArr "json list" | JObj "(string \<times> json) list"

definition QUOTE :: char where "QUOTE = CHR 0x22"
definition BACKSLASH :: char where "BACKSLASH = CHR 0x5C"

lemma mark_codes [simp]: "of_char QUOTE = (34 :: nat)" "of_char BACKSLASH = (92 :: nat)" "QUOTE \<noteq> BACKSLASH"
  "BACKSLASH \<noteq> QUOTE"
  by (simp_all add: QUOTE_def BACKSLASH_def)

subsection \<open>Strings\<close>

definition hex_digit :: "nat \<Rightarrow> char" where
  "hex_digit d = char_of (if d < 10 then 48 + d else 87 + d)"

definition hex_value :: "char \<Rightarrow> nat option" where
  "hex_value c = (let n = of_char c :: nat in
     if 48 \<le> n \<and> n \<le> 57 then Some (n - 48) else if 97 \<le> n \<and> n \<le> 102 then Some (n - 87)
     else if 65 \<le> n \<and> n \<le> 70 then Some (n - 55) else None)"

definition escapes :: "(char \<times> char) list" where
  "escapes = [(QUOTE, QUOTE), (BACKSLASH, BACKSLASH), (CHR 0x08, CHR ''b''), (CHR 0x0C, CHR ''f''),
     (CHR 0x0A, CHR ''n''), (CHR 0x0D, CHR ''r''), (CHR 0x09, CHR ''t'')]"

definition esc_char :: "char \<Rightarrow> string" where
  "esc_char c = (case map_of escapes c of Some e \<Rightarrow> [BACKSLASH, e]
     | None \<Rightarrow> (let n = of_char c :: nat in
         if n < 32 then [BACKSLASH, CHR ''u'', CHR ''0'', CHR ''0'', hex_digit (n div 16), hex_digit (n mod 16)]
         else [c]))"

definition json_string :: "string \<Rightarrow> string" where
  "json_string s = QUOTE # concat (map esc_char s) @ [QUOTE]"

definition unescape :: "char \<Rightarrow> char option" where
  "unescape e = map_of (map prod.swap escapes @ [(CHR ''/'', CHR ''/'')]) e"

text \<open>The rest of a string literal, after its opening quote.\<close>

fun scan_string :: "string \<Rightarrow> (string \<times> string) option" where
  "scan_string [] = None"
| "scan_string (c # s) =
     (if c = QUOTE then Some ([], s)
      else if c = BACKSLASH then
        (case s of
           [] \<Rightarrow> None
         | e # s1 \<Rightarrow>
             if e = CHR ''u'' then
               (case s1 of
                  z # y # h # l # s2 \<Rightarrow>
                    (case (hex_value z, hex_value y, hex_value h, hex_value l) of
                       (Some 0, Some 0, Some a, Some b) \<Rightarrow>
                         map_option (\<lambda>(v, r). (char_of (16 * a + b) # v, r)) (scan_string s2)
                     | _ \<Rightarrow> None)
                | _ \<Rightarrow> None)
             else
               (case unescape e of
                  None \<Rightarrow> None
                | Some d \<Rightarrow> map_option (\<lambda>(v, r). (d # v, r)) (scan_string s1)))
      else if of_char c < (32 :: nat) then None
      else map_option (\<lambda>(v, r). (c # v, r)) (scan_string s))"

lemma hex_digit_code: "d < 16 \<Longrightarrow> of_char (hex_digit d) = (if d < 10 then 48 + d else 87 + d)"
  by (simp add: hex_digit_def of_char_of)

lemma hex_value_digit [simp]: "d < 16 \<Longrightarrow> hex_value (hex_digit d) = Some d"
  by (auto simp: hex_value_def hex_digit_code Let_def)

lemma hex_value_zero [simp]: "hex_value (CHR ''0'') = Some 0"
  by (simp add: hex_value_def)

lemma escape_unescape: "map_of escapes c = Some e \<Longrightarrow> unescape e = Some c \<and> e \<noteq> CHR ''u'' \<and> 32 \<le> (of_char e :: nat)"
  by (auto simp: escapes_def unescape_def QUOTE_def BACKSLASH_def split: if_splits)

lemma no_escape: "map_of escapes c = None \<Longrightarrow> c \<noteq> QUOTE \<and> c \<noteq> BACKSLASH"
  by (auto simp: escapes_def split: if_splits)

lemma scan_escaped: "scan_string (esc_char c @ s) = map_option (\<lambda>(v, r). (c # v, r)) (scan_string s)"
proof (cases "map_of escapes c")
  case None
  show ?thesis
  proof (cases "(of_char c :: nat) < 32")
    case True
    let ?n = "of_char c :: nat"
    have "char_of (16 * (?n div 16) + ?n mod 16) = c" by simp
    then show ?thesis using True None by (simp add: esc_char_def Let_def)
  next
    case False
    then show ?thesis using None no_escape [OF None] by (simp add: esc_char_def Let_def)
  qed
next
  case (Some e)
  then show ?thesis using escape_unescape [OF Some] by (simp add: esc_char_def)
qed

lemma scan_string_written: "scan_string (concat (map esc_char v) @ QUOTE # s) = Some (v, s)"
  by (induction v) (simp_all add: scan_escaped)

subsection \<open>Documents\<close>

text \<open>\<open>json.dumps\<close> with compact separators; \<open>w\<close> writes a string: \<open>json_string\<close> for
  \<open>ensure_ascii=False\<close>, \<open>json_ascii\<close> for the default, which escapes all but printable ASCII.\<close>

fun dumps_with :: "(string \<Rightarrow> string) \<Rightarrow> json \<Rightarrow> string" where
  "dumps_with w JNull = ''null''"
| "dumps_with w (JNum n) = show_nat n"
| "dumps_with w (JStr s) = w s"
| "dumps_with w (JArr vs) = CHR ''['' # py_join '','' (map (dumps_with w) vs) @ '']''"
| "dumps_with w (JObj kvs) = CHR ''{'' # py_join '','' (map (\<lambda>(k, v). w k @ CHR '':'' # dumps_with w v) kvs) @ ''}''"

abbreviation "dumps \<equiv> dumps_with json_string"

definition esc_ascii :: "char \<Rightarrow> string" where
  "esc_ascii c = (case map_of escapes c of
       Some e \<Rightarrow> [BACKSLASH, e]
     | None \<Rightarrow> (let n = of_char c :: nat in
         if 32 \<le> n \<and> n \<le> 126 then [c]
         else [BACKSLASH, CHR ''u'', CHR ''0'', CHR ''0'', hex_digit (n div 16), hex_digit (n mod 16)]))"

definition json_ascii :: "string \<Rightarrow> string" where
  "json_ascii s = QUOTE # concat (map esc_ascii s) @ [QUOTE]"

definition is_digit :: "char \<Rightarrow> bool" where
  "is_digit c \<longleftrightarrow> (of_char c :: nat) \<in> {48..57}"

text \<open>Each nesting level and each element uses one unit of fuel; the length of the text is enough.\<close>

fun scan_value :: "nat \<Rightarrow> string \<Rightarrow> (json \<times> string) option"
  and scan_elements :: "nat \<Rightarrow> string \<Rightarrow> (json list \<times> string) option"
  and scan_members :: "nat \<Rightarrow> string \<Rightarrow> ((string \<times> json) list \<times> string) option" where
  "scan_value 0 s = None"
| "scan_value (Suc n) s =
     (case s of
        [] \<Rightarrow> None
      | c # s1 \<Rightarrow>
          if c = QUOTE then map_option (\<lambda>(v, r). (JStr v, r)) (scan_string s1)
          else if c = CHR ''['' then
            (if s1 \<noteq> [] \<and> hd s1 = CHR '']'' then Some (JArr [], tl s1)
             else map_option (\<lambda>(v, r). (JArr v, r)) (scan_elements n s1))
          else if c = CHR ''{'' then
            (if s1 \<noteq> [] \<and> hd s1 = CHR ''}'' then Some (JObj [], tl s1)
             else map_option (\<lambda>(v, r). (JObj v, r)) (scan_members n s1))
          else if is_digit c then Some (JNum (read_nat (takeWhile is_digit s)), dropWhile is_digit s)
          else if startswith ''null'' s then Some (JNull, drop 4 s)
          else None)"
| "scan_elements 0 s = None"
| "scan_elements (Suc n) s =
     (case scan_value n s of
        None \<Rightarrow> None
      | Some (v, []) \<Rightarrow> None
      | Some (v, c # r) \<Rightarrow>
          if c = CHR '','' then map_option (\<lambda>(vs, r). (v # vs, r)) (scan_elements n r)
          else if c = CHR '']'' then Some ([v], r) else None)"
| "scan_members 0 s = None"
| "scan_members (Suc n) s =
     (case s of
        [] \<Rightarrow> None
      | q # s1 \<Rightarrow>
          if q \<noteq> QUOTE then None
          else (case scan_string s1 of
              None \<Rightarrow> None
            | Some (k, s2) \<Rightarrow>
                if s2 = [] \<or> hd s2 \<noteq> CHR '':'' then None
                else (case scan_value n (tl s2) of
                    None \<Rightarrow> None
                  | Some (v, []) \<Rightarrow> None
                  | Some (v, c # r) \<Rightarrow>
                      if c = CHR '','' then map_option (\<lambda>(kvs, r). ((k, v) # kvs, r)) (scan_members n r)
                      else if c = CHR ''}'' then Some ([(k, v)], r) else None)))"

definition loads :: "string \<Rightarrow> json option" where
  "loads s = (case scan_value (length s + 1) s of Some (v, []) \<Rightarrow> Some v | _ \<Rightarrow> None)"

fun member :: "string \<Rightarrow> json \<Rightarrow> json option" where
  "member k (JObj kvs) = map_of kvs k"
| "member k v = None"

subsection \<open>Reading what was written\<close>

lemma show_nat_is_digit: "c \<in> set (show_nat n) \<Longrightarrow> is_digit c"
  using show_nat_digits by (simp add: is_digit_def)

lemma py_join_head: "\<exists>s. py_join sep (x # xs) = x @ s"
  by (cases xs) auto

definition not_digit_next :: "string \<Rightarrow> bool" where
  "not_digit_next s \<longleftrightarrow> (case s of [] \<Rightarrow> True | c # _ \<Rightarrow> \<not> is_digit c)"

lemma scan_number:
  assumes "not_digit_next rest"
  shows "takeWhile is_digit (show_nat n @ rest) = show_nat n" "dropWhile is_digit (show_nat n @ rest) = rest"
  using assms by (auto simp: takeWhile_append2 dropWhile_append2 show_nat_is_digit not_digit_next_def split: list.splits)

lemma digit_plain: "is_digit c \<Longrightarrow> c \<noteq> QUOTE \<and> c \<noteq> CHR ''['' \<and> c \<noteq> CHR ''{''"
  by (auto simp: is_digit_def)

text \<open>What a writer of strings owes the reader: a quote, and a text from which the reader takes the
  string and stops.\<close>

locale string_writer =
  fixes wr :: "string \<Rightarrow> string"
  assumes written: "\<exists>body. wr s = QUOTE # body \<and> (\<forall>rest. scan_string (body @ rest) = Some (s, rest))"
begin

lemma written_head: "\<exists>c s. dumps_with wr v = c # s \<and> c \<noteq> CHR '']'' \<and> c \<noteq> CHR ''}'' \<and> \<not> c = CHR '',''"
proof (cases v)
  case (JNum n)
  then obtain c s where "show_nat n = c # s" by (cases "show_nat n") auto
  then have "dumps_with wr v = c # s \<and> is_digit c" using JNum show_nat_is_digit [of c n] by simp
  then show ?thesis by (auto simp: is_digit_def)
next
  case (JStr s)
  then show ?thesis using written [of s] by (auto simp: QUOTE_def)
qed auto

lemma written_nonempty [simp]: "dumps_with wr v \<noteq> []"
  using written_head [of v] by auto

lemma elements_written:
  assumes "\<And>v n rest. v \<in> set vs \<Longrightarrow> not_digit_next rest \<Longrightarrow> length (dumps_with wr v) \<le> n \<Longrightarrow> scan_value n (dumps_with wr v @ rest) = Some (v, rest)"
    and "vs \<noteq> []" and "length (py_join '','' (map (dumps_with wr) vs)) < n"
  shows "scan_elements n (py_join '','' (map (dumps_with wr) vs) @ CHR '']'' # rest) = Some (vs, rest)"
  using assms
proof (induction vs arbitrary: n)
  case (Cons v vs)
  then obtain m where n: "n = Suc m" by (cases n) auto
  show ?case
  proof (cases vs)
    case Nil
    have "scan_value m (dumps_with wr v @ CHR '']'' # rest) = Some (v, CHR '']'' # rest)"
      using Cons.prems(3) n Nil by (intro Cons.prems(1)) (auto simp: not_digit_next_def is_digit_def)
    then show ?thesis using Nil n by simp
  next
    case (Cons w ws)
    let ?tail = "py_join '','' (map (dumps_with wr) vs)"
    have joined: "py_join '','' (map (dumps_with wr) (v # vs)) = dumps_with wr v @ CHR '','' # ?tail" using Cons by simp
    have "scan_value m (dumps_with wr v @ CHR '','' # ?tail @ CHR '']'' # rest) = Some (v, CHR '','' # ?tail @ CHR '']'' # rest)"
      using Cons.prems(3) n unfolding joined
      by (intro Cons.prems(1)) (auto simp: not_digit_next_def is_digit_def)
    moreover have "scan_elements m (?tail @ CHR '']'' # rest) = Some (vs, rest)"
      using Cons.prems(3) n unfolding joined
      by (intro Cons.IH Cons.prems(1)) (auto simp: Cons)
    ultimately show ?thesis unfolding joined n by simp
  qed
qed simp

lemma members_written:
  assumes "\<And>k v n rest. (k, v) \<in> set kvs \<Longrightarrow> not_digit_next rest \<Longrightarrow> length (dumps_with wr v) \<le> n \<Longrightarrow> scan_value n (dumps_with wr v @ rest) = Some (v, rest)"
    and "kvs \<noteq> []" and "length (py_join '','' (map (\<lambda>(k, v). wr k @ CHR '':'' # dumps_with wr v) kvs)) < n"
  shows "scan_members n (py_join '','' (map (\<lambda>(k, v). wr k @ CHR '':'' # dumps_with wr v) kvs) @ CHR ''}'' # rest) = Some (kvs, rest)"
  using assms
proof (induction kvs arbitrary: n)
  case (Cons kv kvs)
  let ?f = "\<lambda>(k, v). wr k @ CHR '':'' # dumps_with wr v"
  obtain k v where kv: "kv = (k, v)" by fastforce
  obtain m where n: "n = Suc m" using Cons.prems(3) by (cases n) auto
  obtain body where body: "wr k = QUOTE # body" and key: "\<And>s. scan_string (body @ s) = Some (k, s)"
    using written [of k] by auto
  show ?case
  proof (cases kvs)
    case Nil
    have "scan_value m (dumps_with wr v @ CHR ''}'' # rest) = Some (v, CHR ''}'' # rest)"
      using Cons.prems(3) n Nil kv by (intro Cons.prems(1) [of k]) (auto simp: not_digit_next_def is_digit_def)
    then show ?thesis using Nil n kv key body by simp
  next
    case (Cons w ws)
    let ?tail = "py_join '','' (map ?f kvs)"
    have joined: "py_join '','' (map ?f (kv # kvs)) = wr k @ CHR '':'' # dumps_with wr v @ CHR '','' # ?tail"
      using Cons kv by simp
    have "scan_value m (dumps_with wr v @ CHR '','' # ?tail @ CHR ''}'' # rest) = Some (v, CHR '','' # ?tail @ CHR ''}'' # rest)"
      using Cons.prems(3) n kv unfolding joined
      by (intro Cons.prems(1) [of k]) (auto simp: not_digit_next_def is_digit_def)
    moreover have "scan_members m (?tail @ CHR ''}'' # rest) = Some (kvs, rest)"
      using Cons.prems(3) n unfolding joined
      by (intro Cons.IH Cons.prems(1)) (auto simp: Cons)
    ultimately show ?thesis unfolding joined n using key kv body by simp
  qed
qed simp

lemma value_written:
  "not_digit_next rest \<Longrightarrow> length (dumps_with wr v) \<le> n \<Longrightarrow> scan_value n (dumps_with wr v @ rest) = Some (v, rest)"
proof (induction v arbitrary: n rest)
  case JNull
  then show ?case by (cases n) (auto simp: QUOTE_def is_digit_def startswith_def)
next
  case (JNum k)
  then obtain m where n: "n = Suc m" by (cases n) auto
  obtain c s where "show_nat k = c # s" by (cases "show_nat k") auto
  moreover then have "is_digit c" using show_nat_is_digit [of c k] by simp
  ultimately show ?case
    using n digit_plain [of c] scan_number [OF JNum.prems(1), of k] read_show_nat [of k] by simp
next
  case (JStr s)
  obtain body where "wr s = QUOTE # body" and "\<And>r. scan_string (body @ r) = Some (s, r)"
    using written [of s] by auto
  then show ?case using JStr by (cases n) simp_all
next
  case (JArr vs)
  then obtain m where n: "n = Suc m" by (cases n) auto
  show ?case
  proof (cases "vs = []")
    case True
    then show ?thesis using n by (simp add: QUOTE_def)
  next
    case False
    obtain v ws where "vs = v # ws" using False by (cases vs) auto
    moreover obtain c s where "dumps_with wr v = c # s" "c \<noteq> CHR '']''" using written_head [of v] by auto
    moreover obtain s' where "py_join '','' (map (dumps_with wr) (v # ws)) = dumps_with wr v @ s'"
      using py_join_head [of "'',''" "dumps_with wr v" "map (dumps_with wr) ws"] by auto
    ultimately have hd: "py_join '','' (map (dumps_with wr) vs) = c # s @ s'" "c \<noteq> CHR '']''" by auto
    have "scan_elements m (py_join '','' (map (dumps_with wr) vs) @ CHR '']'' # rest) = Some (vs, rest)"
      using JArr n False by (intro elements_written) auto
    then show ?thesis using n hd by (simp add: QUOTE_def)
  qed
next
  case (JObj kvs)
  then obtain m where n: "n = Suc m" by (cases n) auto
  let ?f = "\<lambda>(k, v). wr k @ CHR '':'' # dumps_with wr v"
  show ?case
  proof (cases "kvs = []")
    case True
    then show ?thesis using n by (simp add: QUOTE_def)
  next
    case False
    obtain kv kvs' where kvs: "kvs = kv # kvs'" using False by (cases kvs) auto
    obtain body where "wr (fst kv) = QUOTE # body" using written [of "fst kv"] by auto
    then obtain s where hd: "py_join '','' (map ?f kvs) = QUOTE # s"
      using py_join_head [of "'',''" "?f kv" "map ?f kvs'"] kvs by (auto split: prod.splits)
    have "scan_members m (py_join '','' (map ?f kvs) @ CHR ''}'' # rest) = Some (kvs, rest)"
      using JObj n False by (intro members_written) auto
    then show ?thesis using n hd by (simp add: QUOTE_def)
  qed
qed

lemma loads_written [simp]: "loads (dumps_with wr v) = Some v"
  using value_written [of "[]" v "length (dumps_with wr v) + 1"] by (simp add: loads_def not_digit_next_def)

end

interpretation unicode: string_writer json_string
  by unfold_locales (use scan_string_written in \<open>auto simp: json_string_def\<close>)

lemmas dumps_head = unicode.written_head

lemma dumps_nonempty [simp]: "dumps v \<noteq> []"
  by (rule unicode.written_nonempty)

lemma loads_dumps [simp]: "loads (dumps v) = Some v"
  by (rule unicode.loads_written)

lemma high_digit [simp]: "(of_char c :: nat) div 16 < 16"
proof -
  have "(of_char (c :: char) :: nat) < 16 * 16" by simp
  then show ?thesis by (rule less_mult_imp_div_less)
qed

lemma scan_esc_ascii: "scan_string (esc_ascii c @ s) = map_option (\<lambda>(v, r). (c # v, r)) (scan_string s)"
proof (cases "map_of escapes c")
  case None
  let ?n = "of_char c :: nat"
  have "char_of (16 * (?n div 16) + ?n mod 16) = c" by simp
  then show ?thesis using None no_escape [OF None] by (auto simp: esc_ascii_def Let_def)
next
  case (Some e)
  then show ?thesis using escape_unescape [OF Some] by (simp add: esc_ascii_def)
qed

lemma scan_ascii_written: "scan_string (concat (map esc_ascii v) @ QUOTE # s) = Some (v, s)"
  by (induction v) (simp_all add: scan_esc_ascii)

interpretation ascii: string_writer json_ascii
  by unfold_locales (use scan_ascii_written in \<open>auto simp: json_ascii_def\<close>)

subsection \<open>A document cut short is no document\<close>

text \<open>What was read stays read when the text goes on, except that a number at its end may go on as well.\<close>

definition closed_off :: "json \<Rightarrow> string \<Rightarrow> bool" where
  "closed_off v r \<longleftrightarrow> r \<noteq> [] \<or> (\<forall>k. v \<noteq> JNum k)"

lemma scan_string_extend: "scan_string s = Some (v, r) \<Longrightarrow> scan_string (s @ t) = Some (v, r @ t)"
proof (induction s arbitrary: v r rule: scan_string.induct)
  case (2 c s)
  show ?case
  proof (cases "c = QUOTE \<or> c \<noteq> BACKSLASH")
    case True
    then show ?thesis using 2 by (auto split: if_splits)
  next
    case False
    then obtain e s1 where s: "s = e # s1" using "2.prems" by (cases s) auto
    show ?thesis
    proof (cases "e = CHR ''u''")
      case True
      obtain z y h l s2 where s1: "s1 = z # y # h # l # s2"
        using "2.prems" False s True by (auto split: list.splits)
      obtain a b where hex: "hex_value z = Some 0" "hex_value y = Some 0" "hex_value h = Some a" "hex_value l = Some b"
        using "2.prems" False s True s1 by (auto split: option.splits nat.splits)
      have "scan_string s2 = Some (v', r') \<Longrightarrow> scan_string (s2 @ t) = Some (v', r' @ t)" for v' r'
        using "2.IH"(1) False s True s1 hex by simp
      then show ?thesis using "2.prems" False s True s1 hex by auto
    next
      case esc: False
      then show ?thesis using "2.prems" "2.IH"(2) False s by (auto split: option.splits)
    qed
  qed
qed simp

lemma startswith_longer: "startswith p s \<Longrightarrow> startswith p (s @ t)"
  by (auto simp: startswith_iff)

lemma takeWhile_longer: "dropWhile P s \<noteq> [] \<Longrightarrow> takeWhile P (s @ t) = takeWhile P s \<and> dropWhile P (s @ t) = dropWhile P s @ t"
  by (induction s) auto

lemma scan_nothing [simp]: "scan_value n [] = None" "scan_elements n [] = None" "scan_members n [] = None"
proof -
  show v: "scan_value n [] = None" for n by (cases n) simp_all
  show "scan_elements n [] = None" using v by (cases n) simp_all
  show "scan_members n [] = None" by (cases n) simp_all
qed

lemma scan_extend:
  "scan_value n s = Some (v, r) \<Longrightarrow> closed_off v r \<Longrightarrow> n \<le> n' \<Longrightarrow> scan_value n' (s @ t) = Some (v, r @ t)"
  "scan_elements n s = Some (vs, r) \<Longrightarrow> n \<le> n' \<Longrightarrow> scan_elements n' (s @ t) = Some (vs, r @ t)"
  "scan_members n s = Some (kvs, r) \<Longrightarrow> n \<le> n' \<Longrightarrow> scan_members n' (s @ t) = Some (kvs, r @ t)"
proof (induction n s and n s and n s arbitrary: v r n' and vs r n' and kvs r n'
    rule: scan_value_scan_elements_scan_members.induct)
  case (2 n s)
  obtain c s1 where s: "s = c # s1" using "2.prems" by (cases s) auto
  obtain m where m: "n' = Suc m" "n \<le> m" using "2.prems" by (cases n') auto
  consider "c = QUOTE" | "c = CHR ''[''" | "c = CHR ''{''" | "c \<noteq> QUOTE" "c \<noteq> CHR ''[''" "c \<noteq> CHR ''{''" by blast
  then show ?case
  proof cases
    case 1
    then show ?thesis using "2.prems" s m by (auto dest: scan_string_extend)
  next
    case 2
    have "scan_elements m (s1 @ t) = Some (vs, r @ t)" if "s1 \<noteq> []" "hd s1 \<noteq> CHR '']''" "scan_elements n s1 = Some (vs, r)" for vs
      using "2.IH"(1) [of c s1 vs r m] that 2 s m by (simp add: QUOTE_def)
    then show ?thesis using "2.prems" 2 s m
      by (cases s1) (auto simp: QUOTE_def split: if_splits)
  next
    case 3
    have "scan_members m (s1 @ t) = Some (kvs, r @ t)" if "s1 \<noteq> []" "hd s1 \<noteq> CHR ''}''" "scan_members n s1 = Some (kvs, r)" for kvs
      using "2.IH"(2) [of c s1 kvs r m] that 3 s m by (simp add: QUOTE_def)
    then show ?thesis using "2.prems" 3 s m
      by (cases s1) (auto simp: QUOTE_def split: if_splits)
  next
    case 4
    then show ?thesis using "2.prems" s m takeWhile_longer [of is_digit s t] startswith_longer [of "''null''" s t]
      by (auto simp: closed_off_def startswith_iff split: if_splits)
  qed
next
  case (4 n s)
  obtain m where m: "n' = Suc m" "n \<le> m" using "4.prems" by (cases n') auto
  obtain v c r1 where v: "scan_value n s = Some (v, c # r1)"
    using "4.prems" by (auto split: option.splits list.splits prod.splits)
  then have "scan_value m (s @ t) = Some (v, c # r1 @ t)" using "4.IH"(1) m by (simp add: closed_off_def)
  then show ?case using "4.prems" "4.IH"(2) [OF v] v m by (auto split: if_splits)
next
  case (6 n s)
  obtain m where m: "n' = Suc m" "n \<le> m" using "6.prems" by (cases n') auto
  obtain s1 where s: "s = QUOTE # s1" using "6.prems" by (cases s) (auto split: if_splits)
  obtain k s2 where k: "scan_string s1 = Some (k, CHR '':'' # s2)"
    using "6.prems" s by (auto split: option.splits if_splits) (metis list.collapse)
  obtain v c r1 where v: "scan_value n s2 = Some (v, c # r1)"
    using "6.prems" s k by (auto split: option.splits list.splits prod.splits)
  have "scan_value m (s2 @ t) = Some (v, c # r1 @ t)" 
    using "6.IH"(1) [of QUOTE s1 "(k, CHR '':'' # s2)" k "CHR '':'' # s2" v "c # r1" m] v m s k
    by (simp add: closed_off_def)
  moreover have "scan_members m (r1 @ t) = Some (kvs', r @ t)" if "c = CHR '',''" "scan_members n r1 = Some (kvs', r)" for kvs'
    using "6.IH"(2) [of QUOTE s1 "(k, CHR '':'' # s2)" k "CHR '':'' # s2" "(v, c # r1)" v "c # r1" c r1 kvs' r m] that v m s k
    by simp
  ultimately show ?case using "6.prems" v m s scan_string_extend [OF k, of t] k by (auto split: if_splits)
qed auto

lemma loads_cut_short:
  assumes "dumps v = p @ t" and "t \<noteq> []" and "\<forall>k. v \<noteq> JNum k"
  shows "loads p = None"
proof (rule ccontr)
  assume "loads p \<noteq> None"
  then obtain v' where v': "scan_value (length p + 1) p = Some (v', [])"
    by (auto simp: loads_def simp del: scan_value.simps split: option.splits list.splits prod.splits)
  have full: "scan_value (length (p @ t) + 1) (p @ t) = Some (v, [])"
    using unicode.value_written [of "[]" v "length (p @ t) + 1"] assms(1) by (simp add: not_digit_next_def)
  show False
  proof (cases "closed_off v' []")
    case True
    then have "scan_value (length (p @ t) + 1) (p @ t) = Some (v', t)"
      using scan_extend(1) [OF v' True, of "length (p @ t) + 1" t] by simp
    then show False using full assms(2) by simp
  next
    case False
    then obtain k where "v' = JNum k" by (auto simp: closed_off_def)
    then obtain c p' where p: "p = c # p'" "is_digit c" using v' by (cases p) (auto split: if_splits)
    then have "\<exists>k. v = JNum k" using full digit_plain [OF p(2)] by (auto split: if_splits)
    then show False using assms(3) by blast
  qed
qed

subsection \<open>No line break inside a document\<close>

text \<open>\<open>str.splitlines\<close> breaks at every one of these, not only at the newline.\<close>

definition line_breaks :: "char list" where
  "line_breaks = [CHR 0x0A, CHR 0x0B, CHR 0x0C, CHR 0x0D, CHR 0x1C, CHR 0x1D, CHR 0x1E, CHR 0x85]"

definition is_break :: "char \<Rightarrow> bool" where
  "is_break c \<longleftrightarrow> c \<in> set line_breaks"

function splitlines :: "string \<Rightarrow> string list" where
  "splitlines s =
     (if s = [] then [] else
      takeWhile (\<lambda>c. \<not> is_break c) s #
      (case dropWhile (\<lambda>c. \<not> is_break c) s of
         [] \<Rightarrow> []
       | c # t \<Rightarrow> splitlines (if c = CHR 0x0D \<and> t \<noteq> [] \<and> hd t = CHR 0x0A then tl t else t)))"
  by pat_completeness auto
termination
proof (relation "measure length", simp)
  fix s :: string and c t
  assume "dropWhile (\<lambda>c. \<not> is_break c) s = c # t"
  then have "length t < length s"
    using length_dropWhile_le [of "\<lambda>c. \<not> is_break c" s] by simp
  then show "(if c = CHR 0x0D \<and> t \<noteq> [] \<and> hd t = CHR 0x0A then tl t else t, s) \<in> measure length"
    by auto
qed

declare splitlines.simps [simp del]

text \<open>The next-line character U+0085 is the one break that JSON does not escape.\<close>

definition NEL :: char where "NEL = CHR 0x85"

fun strings_of :: "json \<Rightarrow> string list" where
  "strings_of JNull = []"
| "strings_of (JNum n) = []"
| "strings_of (JStr s) = [s]"
| "strings_of (JArr vs) = concat (map strings_of vs)"
| "strings_of (JObj kvs) = concat (map (\<lambda>(k, v). k # strings_of v) kvs)"

definition nel_free :: "json \<Rightarrow> bool" where
  "nel_free v \<longleftrightarrow> list_all (\<lambda>s. NEL \<notin> set s) (strings_of v)"

lemma is_break_code: "is_break c \<Longrightarrow> (of_char c :: nat) < 32 \<or> c = NEL"
  by (auto simp: is_break_def line_breaks_def NEL_def)

lemma visible: "32 \<le> (of_char c :: nat) \<Longrightarrow> c \<noteq> NEL \<Longrightarrow> \<not> is_break c"
  using is_break_code [of c] by auto

lemma code_neq_NEL: "(of_char c :: nat) \<noteq> 133 \<Longrightarrow> c \<noteq> NEL"
  by (auto simp: NEL_def)

lemma hex_digit_visible: "d < 16 \<Longrightarrow> \<not> is_break (hex_digit d)"
  by (rule visible) (auto simp: hex_digit_code intro!: code_neq_NEL split: if_splits)

lemma esc_char_visible:
  assumes "c \<noteq> NEL" and "x \<in> set (esc_char c)"
  shows "\<not> is_break x"
proof (cases "map_of escapes c")
  case None
  let ?n = "of_char c :: nat"
  have "?n < 256" by simp
  show ?thesis
  proof (cases "?n < 32")
    case True
    then have "x \<in> {BACKSLASH, CHR ''u'', CHR ''0'', hex_digit (?n div 16), hex_digit (?n mod 16)}"
      using assms(2) None by (auto simp: esc_char_def Let_def)
    then show ?thesis using True hex_digit_visible
      by (auto simp: is_break_def line_breaks_def BACKSLASH_def)
  next
    case False
    then show ?thesis using assms None visible [of c] by (auto simp: esc_char_def Let_def)
  qed
next
  case (Some e)
  then have "x = BACKSLASH \<or> x = e" "e \<in> {QUOTE, BACKSLASH, CHR ''b'', CHR ''f'', CHR ''n'', CHR ''r'', CHR ''t''}"
    using assms(2) by (auto simp: esc_char_def escapes_def split: if_splits)
  then show ?thesis by (auto simp: is_break_def line_breaks_def BACKSLASH_def QUOTE_def)
qed

lemma quote_visible: "\<not> is_break QUOTE"
  by (simp add: is_break_def line_breaks_def QUOTE_def)

lemma json_string_visible: "NEL \<notin> set s \<Longrightarrow> x \<in> set (json_string s) \<Longrightarrow> \<not> is_break x"
proof -
  assume "NEL \<notin> set s" "x \<in> set (json_string s)"
  then consider "x = QUOTE" | c where "c \<in> set s" "c \<noteq> NEL" "x \<in> set (esc_char c)"
    by (auto simp: json_string_def)
  then show ?thesis using esc_char_visible quote_visible by cases auto
qed

lemma set_py_join: "set (py_join sep xs) \<subseteq> set sep \<union> \<Union> (set ` set xs)"
  by (induction sep xs rule: py_join.induct) auto

lemma set_py_joinE:
  assumes "x \<in> set (py_join sep xs)"
  obtains "x \<in> set sep" | s where "s \<in> set xs" "x \<in> set s"
  using assms set_py_join [of sep xs] by auto

lemma plain_visible [simp]: "\<not> is_break (CHR '','')" "\<not> is_break (CHR '':'')" "\<not> is_break (CHR ''['')"
  "\<not> is_break (CHR '']'')" "\<not> is_break (CHR ''{'')" "\<not> is_break (CHR ''}'')"
  by (simp_all add: is_break_def line_breaks_def)

text \<open>A document without U+0085 in its strings is one line.\<close>

lemma dumps_visible: "nel_free v \<Longrightarrow> x \<in> set (dumps v) \<Longrightarrow> \<not> is_break x"
proof (induction v)
  case JNull
  then show ?case by (auto simp: is_break_def line_breaks_def)
next
  case (JNum n)
  then have "(of_char x :: nat) \<in> {48..57}" using show_nat_digits by simp
  then show ?case by (intro visible code_neq_NEL) auto
next
  case (JStr s)
  then show ?case using json_string_visible by (simp add: nel_free_def)
next
  case (JArr vs)
  then have each: "\<And>v. v \<in> set vs \<Longrightarrow> nel_free v" by (auto simp: nel_free_def list_all_iff)
  show ?case using JArr.prems(2) JArr.IH each by (fastforce elim!: set_py_joinE)
next
  case (JObj kvs)
  then have each: "\<And>k v. (k, v) \<in> set kvs \<Longrightarrow> nel_free v \<and> NEL \<notin> set k"
    by (fastforce simp: nel_free_def list_all_iff)
  have "\<not> is_break x" if "(k, v) \<in> set kvs" "x \<in> set (json_string k @ CHR '':'' # dumps v)" for k v
    using that each [OF that(1)] JObj.IH [OF that(1)] json_string_visible by auto
  moreover have "x \<in> {CHR ''{'', CHR ''}'', CHR '',''} \<or> (\<exists>(k, v) \<in> set kvs. x \<in> set (json_string k @ CHR '':'' # dumps v))"
    using JObj.prems(2) by (auto elim!: set_py_joinE simp: case_prod_beta Bex_def)
  ultimately show ?case by fastforce
qed

lemma splitlines_line:
  assumes "\<And>c. c \<in> set l \<Longrightarrow> \<not> is_break c"
  shows "splitlines (l @ CHR 0x0A # s) = l # splitlines s"
proof -
  have brk: "is_break (CHR 0x0A)" by (simp add: is_break_def line_breaks_def)
  have "takeWhile (\<lambda>c. \<not> is_break c) (l @ CHR 0x0A # s) = l"
    "dropWhile (\<lambda>c. \<not> is_break c) (l @ CHR 0x0A # s) = CHR 0x0A # s"
    using assms brk by (simp_all add: takeWhile_append2 dropWhile_append2)
  then show ?thesis by (simp add: splitlines.simps [of "l @ CHR 0x0A # s"])
qed

lemma splitlines_empty [simp]: "splitlines [] = []"
  by (simp add: splitlines.simps)

lemma splitlines_joined:
  assumes "\<And>l c. l \<in> set ls \<Longrightarrow> c \<in> set l \<Longrightarrow> \<not> is_break c"
  shows "splitlines (concat (map (\<lambda>l. l @ [CHR 0x0A]) ls) @ s) = ls @ splitlines s"
  using assms
proof (induction ls)
  case (Cons l ls)
  let ?rest = "concat (map (\<lambda>l. l @ [CHR 0x0A]) ls) @ s"
  have "splitlines (l @ CHR 0x0A # ?rest) = l # splitlines ?rest"
    using Cons.prems by (intro splitlines_line) auto
  moreover have "splitlines ?rest = ls @ splitlines s" using Cons.prems by (intro Cons.IH) auto
  ultimately show ?case by simp
qed simp

text \<open>A document with U+0085 in a string breaks in the middle.\<close>

lemma splitlines_cut:
  assumes "x \<in> set d" and "is_break x"
  shows "\<exists>p c t rest. d = p @ c # t \<and> is_break c \<and> splitlines (d @ s) = p # rest"
proof -
  let ?p = "takeWhile (\<lambda>c. \<not> is_break c) d"
  obtain c t where d: "dropWhile (\<lambda>c. \<not> is_break c) d = c # t"
    using assms by (cases "dropWhile (\<lambda>c. \<not> is_break c) d") (auto simp: dropWhile_eq_Nil_conv)
  then have "is_break c" using hd_dropWhile [of "\<lambda>c. \<not> is_break c" d] by simp
  moreover have "d = ?p @ c # t" using d takeWhile_dropWhile_id [of "\<lambda>c. \<not> is_break c" d] by simp
  moreover have "takeWhile (\<lambda>c. \<not> is_break c) (d @ s) = ?p"
    using d by (simp add: takeWhile_longer)
  then have "\<exists>rest. splitlines (d @ s) = ?p # rest"
    using assms(1) by (subst splitlines.simps) auto
  ultimately show ?thesis by blast
qed

lemma esc_char_NEL [simp]: "esc_char NEL = [NEL]"
  by (simp add: esc_char_def escapes_def NEL_def QUOTE_def BACKSLASH_def)

lemma json_string_NEL: "NEL \<in> set s \<Longrightarrow> NEL \<in> set (json_string s)"
proof -
  assume "NEL \<in> set s"
  then have "NEL \<in> set (concat (map esc_char s))" using esc_char_NEL by (auto intro!: bexI [of _ NEL])
  then show ?thesis by (simp add: json_string_def)
qed

lemma is_break_NEL [simp]: "is_break NEL"
  by (simp add: is_break_def line_breaks_def NEL_def)

lemma joined_lines: "ls \<noteq> [] \<Longrightarrow> py_join [c] ls @ [c] = concat (map (\<lambda>l. l @ [c]) ls)"
  by (induction "[c]" ls rule: py_join.induct) auto

subsection \<open>UTF-8 on the first 256 code points\<close>

definition utf8_char :: "char \<Rightarrow> string" where
  "utf8_char c = (let n = of_char c :: nat in
     if n < 128 then [c] else [char_of (192 + n div 64), char_of (128 + n mod 64)])"

definition utf8_encode :: "string \<Rightarrow> string" where
  "utf8_encode s = concat (map utf8_char s)"

fun utf8_decode :: "string \<Rightarrow> string option" where
  "utf8_decode [] = Some []"
| "utf8_decode (b # s) =
     (let n = of_char b :: nat in
      if n < 128 then map_option ((#) b) (utf8_decode s)
      else if n = 194 \<or> n = 195 then
        (case s of [] \<Rightarrow> None
         | d # r \<Rightarrow> (let k = of_char d :: nat in
             if 128 \<le> k \<and> k < 192 then map_option ((#) (char_of (64 * (n - 192) + (k - 128)))) (utf8_decode r)
             else None))
      else None)"

lemma upper_half: "128 \<le> n \<Longrightarrow> n < 256 \<Longrightarrow> n div 64 = 2 \<or> n div 64 = (3::nat)"
  by (cases "n < 192") (auto intro: div_nat_eqI)

lemma utf8_decode_char: "utf8_decode (utf8_char c @ s) = map_option ((#) c) (utf8_decode s)"
proof (cases "(of_char c :: nat) < 128")
  case False
  let ?n = "of_char c :: nat"
  have lt: "?n < 256" by simp
  then have "?n div 64 = 2 \<or> ?n div 64 = 3" using False by (intro upper_half) auto
  moreover have "of_char (char_of (192 + ?n div 64)) = 192 + ?n div 64"
    using calculation by (auto simp: of_char_of)
  moreover have "of_char (char_of (128 + ?n mod 64)) = 128 + ?n mod 64"
    by (simp add: of_char_of)
  moreover have "char_of (64 * (?n div 64) + ?n mod 64) = c" by simp
  ultimately show ?thesis using False by (auto simp: utf8_char_def Let_def)
qed (simp add: utf8_char_def Let_def)

lemma utf8_decode_encode [simp]: "utf8_decode (utf8_encode s) = Some s"
  by (induction s) (simp_all add: utf8_encode_def utf8_decode_char)

definition utf8_length :: "string \<Rightarrow> nat" where
  "utf8_length s = length (utf8_encode s)"

end
