(* ===== verification/Segments.thy ===== *)
theory Segments
  imports Conversation Json
begin

text \<open>
  Chat segments (\<open>modules/archive/segments.py\<close>): the archival record of a message, the grouping of a
  thread's messages into segments, the object key, the segment itself (one JSON document per line,
  compressed) and its reader.

  Compression (\<open>zstandard\<close>) and SHA-256 are third-party code: the fields of \<open>archive_env\<close>, with the
  clock and the ULIDs of the segments built in a run. The number of shards is positive. Metadata
  values are strings.
\<close>

record archive_env =
  ae_now :: instant
  ae_sha256 :: "string \<Rightarrow> string"
  ae_compress :: "string \<Rightarrow> string"
  ae_decompress :: "string \<Rightarrow> string option"
  ae_ulid :: "nat \<Rightarrow> string"

subsection \<open>Dates\<close>

text \<open>The proleptic Gregorian date of a day counted from 1970-01-01.\<close>

definition civil :: "int \<Rightarrow> nat \<times> nat \<times> nat" where
  "civil day =
     (let z = day + 719468; era = z div 146097; doe = z mod 146097;
          yoe = (doe - doe div 1460 + doe div 36524 - doe div 146096) div 365;
          doy = doe - (365 * yoe + yoe div 4 - yoe div 100);
          mp = (5 * doy + 2) div 153;
          d = doy - (153 * mp + 2) div 5 + 1;
          m = (if mp < 10 then mp + 3 else mp - 9);
          y = yoe + era * 400 + (if m \<le> 2 then 1 else 0)
      in (nat y, nat m, nat d))"

definition zfill :: "nat \<Rightarrow> nat \<Rightarrow> string" where
  "zfill width n = (let s = show_nat n in replicate (width - length s) (CHR ''0'') @ s)"

definition day_of :: "instant \<Rightarrow> int" where
  "day_of i = i div days 1"

text \<open>\<open>datetime.isoformat()\<close> of a UTC instant.\<close>

definition isoformat :: "instant \<Rightarrow> string" where
  "isoformat i =
     (case civil (day_of i) of (y, m, d) \<Rightarrow>
        let us = nat (i mod days 1); s = us div 1000000; frac = us mod 1000000 in
        zfill 4 y @ ''-'' @ zfill 2 m @ ''-'' @ zfill 2 d @ ''T'' @
        zfill 2 (s div 3600) @ '':'' @ zfill 2 (s div 60 mod 60) @ '':'' @ zfill 2 (s mod 60) @
        (if frac = 0 then [] else ''.'' @ zfill 6 frac) @ ''+00:00'')"

subsection \<open>Records\<close>

definition json_opt :: "string option \<Rightarrow> json" where
  "json_opt x = (case x of None \<Rightarrow> JNull | Some s \<Rightarrow> JStr s)"

definition attachment_record :: "Attachment \<Rightarrow> json" where
  "attachment_record a = JObj
     [(''attachment_id'', JStr (at_attachment_id a)), (''message_id'', JStr (at_message_id a)),
      (''document_id'', json_opt (at_document_id a)), (''filename'', JStr (at_filename a)),
      (''media_type'', JStr (at_media_type a)), (''size_bytes'', JNum (at_size_bytes a)),
      (''checksum'', JStr (at_checksum a))]"

definition message_record :: "Message \<Rightarrow> json" where
  "message_record m = JObj
     [(''message_id'', JStr (ms_message_id m)), (''thread_id'', JStr (ms_thread_id m)),
      (''session_id'', JStr (ms_session_id m)), (''turn_id'', JStr (ms_turn_id m)),
      (''tenant_id'', JStr (ms_tenant_id m)), (''sequence'', JNum (ms_sequence m)),
      (''role'', JStr (role_value (ms_role m))), (''kind'', JStr (message_kind_value (ms_kind m))),
      (''version'', JNum (ms_version m)), (''author_principal'', JStr (ms_author_principal m)),
      (''agent_run_id'', json_opt (ms_agent_run_id m)),
      (''parent_message_id'', json_opt (ms_parent_message_id m)),
      (''occurred_at'', JStr (isoformat (ms_occurred_at m))),
      (''created_at'', JStr (isoformat (ms_created_at m))),
      (''content'', JStr (ms_content m)), (''content_hash'', JStr (ms_content_hash m)),
      (''attachments'', JArr (map attachment_record (ms_attachments m))),
      (''source_system'', json_opt (ms_source_system m)),
      (''source_message_id'', json_opt (ms_source_message_id m)),
      (''custom_metadata'', JObj (map (\<lambda>(k, v). (k, JStr v)) (ms_custom_metadata m)))]"

subsection \<open>Planning\<close>

definition plan_raw_bytes :: "Message list \<Rightarrow> nat" where
  "plan_raw_bytes ms = sum_list (map (\<lambda>m. utf8_length (ms_content m)) ms)"

definition message_size :: "Message \<Rightarrow> nat" where
  "message_size m = utf8_length (ms_content m) + 256"

text \<open>The loop over the messages; a finished group is emitted when the next message does not fit.\<close>

fun plan_loop :: "nat \<Rightarrow> nat \<Rightarrow> Message list \<Rightarrow> nat \<Rightarrow> Message list \<Rightarrow> Message list list" where
  "plan_loop budget max_messages current current_bytes [] = (if current \<noteq> [] then [current] else [])"
| "plan_loop budget max_messages current current_bytes (m # ms) =
     (if current \<noteq> [] \<and> (current_bytes + message_size m > budget \<or> length current \<ge> max_messages)
      then current # plan_loop budget max_messages [m] (message_size m) ms
      else plan_loop budget max_messages (current @ [m]) (current_bytes + message_size m) ms)"

definition expected_ratio :: nat where "expected_ratio = 5"

definition plan_segments :: "nat \<Rightarrow> nat \<Rightarrow> Message list \<Rightarrow> Message list list" where
  "plan_segments target_compressed_bytes max_messages ms =
     plan_loop (target_compressed_bytes * expected_ratio) max_messages [] 0 ms"

subsection \<open>Keys\<close>

definition hex_number :: "string \<Rightarrow> nat" where
  "hex_number s = foldl (\<lambda>n c. 16 * n + (case hex_value c of None \<Rightarrow> 0 | Some d \<Rightarrow> d)) 0 s"

definition tenant_shard :: "(string \<Rightarrow> string) \<Rightarrow> string \<Rightarrow> nat \<Rightarrow> nat" where
  "tenant_shard sha256 tenant_id shards = hex_number (take 8 (sha256 (utf8_encode tenant_id))) mod shards"

definition segment_key :: "(string \<Rightarrow> string) \<Rightarrow> string \<Rightarrow> string \<Rightarrow> string \<Rightarrow> nat \<Rightarrow> instant \<Rightarrow> string" where
  "segment_key sha256 tenant_id thread_id segment_id shards at =
     (case civil (day_of at) of (y, mon, d) \<Rightarrow>
        ''tenant-shard='' @ zfill 3 (tenant_shard sha256 tenant_id shards) @ ''/tenant='' @ tenant_id @
        ''/year='' @ zfill 4 y @ ''/month='' @ zfill 2 mon @ ''/thread='' @ thread_id @
        ''/segment='' @ segment_id @ ''.jsonl.zst'')"

subsection \<open>Segments\<close>

definition SEGMENT_FORMAT :: string where "SEGMENT_FORMAT = ''jsonl+zstd/v1''"

record SegmentManifest =
  mf_format :: string
  mf_segment_id :: string
  mf_tenant_id :: string
  mf_thread_id :: string
  mf_message_count :: nat
  mf_message_ids :: "string list"
  mf_sessions :: "string list"
  mf_turns :: "string list"
  mf_agent_runs :: "string list"
  mf_first_sequence :: nat
  mf_last_sequence :: nat
  mf_first_at :: string
  mf_last_at :: string
  mf_raw_bytes :: nat
  mf_compressed_bytes :: nat
  mf_source_hashes :: "(string \<times> string) list"
  mf_built_at :: string

record BuiltSegment =
  bu_segment_id :: string
  bu_key :: string
  bu_data :: string
  bu_checksum_sha256 :: string
  bu_raw_bytes :: nat
  bu_message_ids :: "string list"
  bu_first_sequence :: nat
  bu_last_sequence :: nat
  bu_first_at :: instant
  bu_last_at :: instant
  bu_manifest :: SegmentManifest

definition segment_lines :: "Message list \<Rightarrow> string list" where
  "segment_lines ms = map (\<lambda>m. dumps (message_record m)) ms"

definition segment_raw :: "Message list \<Rightarrow> string" where
  "segment_raw ms = utf8_encode (py_join [CHR 0x0A] (segment_lines ms) @ [CHR 0x0A])"

definition sorted_set :: "string list \<Rightarrow> string list" where
  "sorted_set xs = sort (fromkeys xs)"

definition segment_manifest :: "archive_env \<Rightarrow> string \<Rightarrow> string \<Rightarrow> string \<Rightarrow> Message list \<Rightarrow> SegmentManifest" where
  "segment_manifest env segment_id tenant_id thread_id ms =
     \<lparr>mf_format = SEGMENT_FORMAT, mf_segment_id = segment_id, mf_tenant_id = tenant_id, mf_thread_id = thread_id, mf_message_count = length ms,
      mf_message_ids = map ms_message_id ms, mf_sessions = sorted_set (map ms_session_id ms),
      mf_turns = sorted_set (map ms_turn_id ms),
      mf_agent_runs = sorted_set (map or_empty (filter truthy (map ms_agent_run_id ms))),
      mf_first_sequence = ms_sequence (hd ms), mf_last_sequence = ms_sequence (last ms),
      mf_first_at = isoformat (Min (set (map ms_occurred_at ms))), mf_last_at = isoformat (Max (set (map ms_occurred_at ms))),
      mf_raw_bytes = length (segment_raw ms), mf_compressed_bytes = length (ae_compress env (segment_raw ms)),
      mf_source_hashes = fold (\<lambda>m hs. assoc_put (ms_message_id m) (ms_content_hash m) hs) ms [],
      mf_built_at = isoformat (ae_now env)\<rparr>"

definition build_segment :: "archive_env \<Rightarrow> string \<Rightarrow> string \<Rightarrow> string \<Rightarrow> nat \<Rightarrow> Message list \<Rightarrow> service_error + BuiltSegment" where
  "build_segment env ulid tenant_id thread_id shards ms =
     (if ms = [] then Inl ValueError
      else rbind (new_id ulid ''segment'') (\<lambda>segment_id.
        let raw = segment_raw ms; data = ae_compress env raw;
            first_at = Min (set (map ms_occurred_at ms))
        in Inr \<lparr>bu_segment_id = segment_id, bu_key = segment_key (ae_sha256 env) tenant_id thread_id segment_id shards first_at,
             bu_data = data, bu_checksum_sha256 = ae_sha256 env data, bu_raw_bytes = length raw,
             bu_message_ids = map ms_message_id ms, bu_first_sequence = ms_sequence (hd ms),
             bu_last_sequence = ms_sequence (last ms), bu_first_at = first_at,
             bu_last_at = Max (set (map ms_occurred_at ms)),
             bu_manifest = segment_manifest env segment_id tenant_id thread_id ms\<rparr>))"

text \<open>The reader is a generator: decompression and decoding fail before the first record, a line that is no
  document fails when it is reached.\<close>

definition read_line :: "string \<Rightarrow> service_error + json" where
  "read_line l = (case loads l of None \<Rightarrow> Inl ValueError | Some v \<Rightarrow> Inr v)"

definition read_segment :: "archive_env \<Rightarrow> string \<Rightarrow> service_error + (service_error + json) list" where
  "read_segment env data =
     (case ae_decompress env data of
        None \<Rightarrow> Inl ZstdError
      | Some raw \<Rightarrow> (case utf8_decode raw of
            None \<Rightarrow> Inl ValueError
          | Some text \<Rightarrow> Inr (map read_line (filter (\<lambda>l. l \<noteq> []) (splitlines text)))))"

subsection \<open>What the planner promises\<close>

definition group_bytes :: "Message list \<Rightarrow> nat" where
  "group_bytes g = sum_list (map message_size g)"

text \<open>A group within the limits; a message too large for the budget is a group of its own.\<close>

definition fits :: "nat \<Rightarrow> nat \<Rightarrow> Message list \<Rightarrow> bool" where
  "fits budget n g \<longleftrightarrow> g \<noteq> [] \<and> length g \<le> max 1 n \<and> (group_bytes g \<le> budget \<or> length g = 1)"

lemma group_bytes_simps [simp]: "group_bytes [] = 0" "group_bytes (m # g) = message_size m + group_bytes g"
  "group_bytes (g @ g') = group_bytes g + group_bytes g'"
  by (simp_all add: group_bytes_def)

lemma message_size_pos [simp]: "0 < message_size m"
  by (simp add: message_size_def)

lemma concat_plan_loop: "concat (plan_loop b n cur cb ms) = cur @ ms"
  by (induction ms arbitrary: cur cb) simp_all

lemma plan_loop_fits:
  "cur = [] \<or> fits b n cur \<Longrightarrow> cb = group_bytes cur \<Longrightarrow> g \<in> set (plan_loop b n cur cb ms) \<Longrightarrow> fits b n g"
proof (induction ms arbitrary: cur cb)
  case Nil
  then show ?case by (cases "cur = []") auto
next
  case (Cons m ms)
  have single: "fits b n [m]" by (simp add: fits_def)
  show ?case
  proof (cases "cur \<noteq> [] \<and> (cb + message_size m > b \<or> length cur \<ge> n)")
    case True
    then have "g = cur \<or> g \<in> set (plan_loop b n [m] (message_size m) ms)" using Cons.prems(3) by simp
    then show ?thesis using Cons.prems(1) True Cons.IH [of "[m]" "message_size m"] single by auto
  next
    case False
    then have "g \<in> set (plan_loop b n (cur @ [m]) (cb + message_size m) ms)" using Cons.prems(3) by auto
    moreover have "fits b n (cur @ [m])"
      using Cons.prems(1,2) single False by (cases "cur = []") (auto simp: fits_def)
    ultimately show ?thesis using Cons.prems(2) Cons.IH [of "cur @ [m]" "cb + message_size m"] by simp
  qed
qed

text \<open>Greedy grouping is never more than one group behind, and not behind at all while its open group is a
  suffix of the other's.\<close>

lemma plan_loop_ahead:
  "(concat (g # gs) = ms \<and> fits b n (y @ cur @ g) \<and> list_all (fits b n) gs \<longrightarrow>
      length (plan_loop b n cur (group_bytes cur) ms) \<le> 1 + length gs) \<and>
   (concat (g # gs) = ms \<and> list_all (fits b n) gs \<and> fits b n (y @ g) \<longrightarrow>
      length (plan_loop b n cur (group_bytes cur) ms) \<le> 2 + length gs)"
proof (induction ms arbitrary: cur g gs y)
  case Nil
  then show ?case by simp
next
  case (Cons m ms)
  have behind: "length (plan_loop b n c (group_bytes c) ms) \<le> 2 + length gs'"
    if "concat (g' # gs') = ms" "list_all (fits b n) gs'" "fits b n (y' @ g')" for c g' gs' y'
    using Cons.IH [of g' gs' y' c] that by blast
  have ahead: "length (plan_loop b n c (group_bytes c) ms) \<le> 1 + length gs'"
    if "concat (g' # gs') = ms" "list_all (fits b n) gs'" "fits b n (y' @ c @ g')" for c g' gs' y'
    using Cons.IH [of g' gs' y' c] that by blast
  have closed: "\<exists>h gs'. gs = (m # h) # gs' \<and> concat (h # gs') = ms"
    if "concat (g # gs) = m # ms" "g = []" "list_all (fits b n) gs"
  proof (cases gs)
    case Nil
    then show ?thesis using that by simp
  next
    case (Cons x gs')
    then have "x \<noteq> []" using that(3) by (auto simp: fits_def)
    then show ?thesis using that Cons by (cases x) auto
  qed
  let ?loop = "\<lambda>c. length (plan_loop b n c (group_bytes c) ms)"
  show ?case
  proof (cases "cur \<noteq> [] \<and> (group_bytes cur + message_size m > b \<or> length cur \<ge> n)")
    case True
    then have len: "length (plan_loop b n cur (group_bytes cur) (m # ms)) = 1 + ?loop [m]" by simp
    have "n \<le> length cur \<Longrightarrow> max (Suc 0) n \<le> length cur" using True by (cases cur) auto
    then have stop: "g = []" if "concat (g # gs) = m # ms" "fits b n (y @ cur @ g)"
      using that True by (cases g) (auto simp: fits_def)
    have one: "?loop [m] \<le> length gs" if "concat (g # gs) = m # ms" "list_all (fits b n) gs" "g = []"
    proof -
      note prems = that
      obtain h gs' where gs: "gs = (m # h) # gs'" "concat (h # gs') = ms"
        using closed [OF prems(1,3,2)] by blast
      then show ?thesis using ahead [of h gs' "[]" "[m]"] that by simp
    qed
    have two: "?loop [m] \<le> 1 + length gs" if "concat (g # gs) = m # ms" "list_all (fits b n) gs" "fits b n (y @ g)"
    proof (cases g)
      case Nil
      then show ?thesis using one that by simp
    next
      case (Cons a h)
      then show ?thesis using that ahead [of h gs y "[m]"] by simp
    qed
    show ?thesis unfolding len using stop one two by fastforce
  next
    case False
    then have len: "length (plan_loop b n cur (group_bytes cur) (m # ms)) = ?loop (cur @ [m])" by auto
    have two: "?loop (cur @ [m]) \<le> 1 + length gs" if "concat (g # gs) = m # ms" "list_all (fits b n) gs" "g = []"
    proof -
      note prems = that
      obtain h gs' where gs: "gs = (m # h) # gs'" "concat (h # gs') = ms"
        using closed [OF prems(1,3,2)] by blast
      then show ?thesis using behind [of h gs' "[m]" "cur @ [m]"] that by simp
    qed
    have keep: "?loop (cur @ [m]) \<le> 1 + length gs"
      if "concat (g # gs) = m # ms" "list_all (fits b n) gs" "fits b n (y @ cur @ g)"
    proof (cases g)
      case Nil
      then show ?thesis using two that by simp
    next
      case (Cons a h)
      then show ?thesis using that ahead [of h gs y "cur @ [m]"] by simp
    qed
    have follow: "?loop (cur @ [m]) \<le> 2 + length gs"
      if "concat (g # gs) = m # ms" "list_all (fits b n) gs" "fits b n (y @ g)"
    proof (cases g)
      case Nil
      then show ?thesis using two that by simp
    next
      case (Cons a h)
      then show ?thesis using that behind [of h gs "y @ [m]" "cur @ [m]"] by simp
    qed
    show ?thesis unfolding len using keep follow by blast
  qed
qed

lemma plan_segments_partition:
  "concat (plan_segments target n ms) = ms \<and> list_all (fits (target * expected_ratio) n) (plan_segments target n ms)"
  using plan_loop_fits [of "[]" "target * expected_ratio" n 0 _ ms]
  by (simp add: plan_segments_def concat_plan_loop list_all_iff)

lemma plan_segments_fewest:
  assumes "concat gs = ms" and "list_all (fits (target * expected_ratio) n) gs"
  shows "length (plan_segments target n ms) \<le> length gs"
proof (cases gs)
  case Nil
  then show ?thesis using assms by (simp add: plan_segments_def)
next
  case (Cons g gs')
  then show ?thesis
    using plan_loop_ahead [of g gs' ms "target * expected_ratio" n "[]" "[]"] assms by (simp add: plan_segments_def)
qed

subsection \<open>Reading a segment back\<close>

definition plain_message :: "Message \<Rightarrow> bool" where
  "plain_message m \<longleftrightarrow> nel_free (message_record m)"

definition zstd_ok :: "archive_env \<Rightarrow> bool" where
  "zstd_ok env \<longleftrightarrow> (\<forall>raw. ae_decompress env (ae_compress env raw) = Some raw)"

lemma isoformat_plain: "NEL \<notin> set (isoformat i)"
proof -
  have digits: "NEL \<notin> set (show_nat n)" for n
    using show_nat_digits [of NEL n] by (auto simp: NEL_def)
  then have "NEL \<notin> set (zfill w n)" for w n by (simp add: zfill_def Let_def) (simp add: NEL_def)
  then show ?thesis by (simp add: isoformat_def Let_def split: prod.splits) (simp add: NEL_def)
qed

lemma build_segment_Inr:
  assumes "build_segment env u t i shards ms = Inr b"
  shows "ms \<noteq> [] \<and> bu_data b = ae_compress env (segment_raw ms) \<and> bu_checksum_sha256 b = ae_sha256 env (bu_data b) \<and>
    bu_message_ids b = map ms_message_id ms \<and> bu_first_sequence b = ms_sequence (hd ms) \<and>
    bu_last_sequence b = ms_sequence (last ms) \<and> mf_message_ids (bu_manifest b) = map ms_message_id ms \<and>
    new_id u ''segment'' = Inr (bu_segment_id b)"
  using assms by (auto simp: build_segment_def Let_def rbind_Inr segment_manifest_def split: if_splits)

lemma dumps_record_nonempty: "dumps (message_record m) \<noteq> []"
  by simp

lemma segment_text: "ms \<noteq> [] \<Longrightarrow>
    py_join [CHR 0x0A] (segment_lines ms) @ [CHR 0x0A] = concat (map (\<lambda>l. l @ [CHR 0x0A]) (segment_lines ms))"
  by (rule joined_lines) (simp add: segment_lines_def)

lemma read_written_lines:
  assumes "list_all plain_message ms"
  shows "splitlines (concat (map (\<lambda>l. l @ [CHR 0x0A]) (segment_lines ms))) = segment_lines ms"
  using assms dumps_visible splitlines_joined [of "segment_lines ms" "[]"]
  by (force simp: segment_lines_def list_all_iff plain_message_def)

lemma read_segment_raw:
  assumes "zstd_ok env" and "ms \<noteq> []"
  shows "read_segment env (ae_compress env (segment_raw ms)) =
    Inr (map read_line (filter (\<lambda>l. l \<noteq> []) (splitlines (concat (map (\<lambda>l. l @ [CHR 0x0A]) (segment_lines ms))))))"
  using assms by (simp add: read_segment_def zstd_ok_def segment_raw_def segment_text)

lemma read_line_written: "map read_line (filter (\<lambda>l. l \<noteq> []) (segment_lines ms)) = map (\<lambda>m. Inr (message_record m)) ms"
  by (simp add: segment_lines_def read_line_def comp_def filter_map)

lemma read_plain:
  assumes "zstd_ok env" and "ms \<noteq> []" and "list_all plain_message ms"
  shows "read_segment env (ae_compress env (segment_raw ms)) = Inr (map (\<lambda>m. Inr (message_record m)) ms)"
  using read_segment_raw [OF assms(1,2)] read_written_lines [OF assms(3)] read_line_written by simp

lemma read_built_segment:
  assumes "zstd_ok env" and "list_all plain_message ms" and "build_segment env u t i shards ms = Inr b"
  shows "read_segment env (bu_data b) = Inr (map (\<lambda>m. Inr (message_record m)) ms)"
  using read_plain [OF assms(1) _ assms(2)] build_segment_Inr [OF assms(3)] by simp

text \<open>A message whose text holds U+0085 cuts its own line, so the reader fails when it reaches it.\<close>

lemma py_join_mem: "x \<in> set xs \<Longrightarrow> set x \<subseteq> set (py_join sep xs)"
  by (induction sep xs rule: py_join.induct) auto

lemma NEL_in_line:
  assumes "NEL \<in> set (ms_content m)"
  shows "NEL \<in> set (dumps (message_record m))"
proof -
  let ?f = "\<lambda>(k, v). json_string k @ CHR '':'' # dumps v"
  let ?fields = "case message_record m of JObj kvs \<Rightarrow> kvs"
  have "(''content'', JStr (ms_content m)) \<in> set ?fields" by (simp add: message_record_def)
  then have "set (?f (''content'', JStr (ms_content m))) \<subseteq> set (py_join '','' (map ?f ?fields))"
    by (intro py_join_mem) force
  then show ?thesis using json_string_NEL [OF assms] by (auto simp: message_record_def)
qed

lemma read_cut_segment:
  assumes "zstd_ok env" and "list_all plain_message ms" and "NEL \<in> set (ms_content m)"
  shows "\<exists>rest. read_segment env (ae_compress env (segment_raw (ms @ m # ms'))) =
    Inr (map (\<lambda>m. Inr (message_record m)) ms @ Inl ValueError # rest)"
proof -
  let ?ls = "\<lambda>ms. concat (map (\<lambda>l. l @ [CHR 0x0A]) (segment_lines ms))"
  let ?d = "dumps (message_record m)" and ?s = "CHR 0x0A # ?ls ms'"
  have "?ls (ms @ m # ms') = ?ls ms @ ?d @ ?s" by (simp add: segment_lines_def)
  moreover have "splitlines (?ls ms @ ?d @ ?s) = segment_lines ms @ splitlines (?d @ ?s)"
    using assms(2) dumps_visible
    by (intro splitlines_joined) (auto simp: segment_lines_def list_all_iff plain_message_def)
  moreover obtain p c t rest where cut: "?d = p @ c # t" "is_break c" "splitlines (?d @ ?s) = p # rest"
    using splitlines_cut [OF NEL_in_line [OF assms(3)] is_break_NEL] by blast
  ultimately have lines: "splitlines (?ls (ms @ m # ms')) = segment_lines ms @ p # rest" by simp
  have "loads p = None" using loads_cut_short [OF cut(1)] by (simp add: message_record_def)
  moreover have "p \<noteq> []"
  proof
    assume "p = []"
    then have "c = CHR ''{''" using cut(1) by (simp add: message_record_def)
    then show False using cut(2) by simp
  qed
  ultimately show ?thesis
    using read_segment_raw [OF assms(1), of "ms @ m # ms'"] lines read_line_written [of ms]
    by (simp add: read_line_def)
qed

text \<open>Two segments never share a key, whatever their tenants, threads and dates.\<close>

lemma segment_key_tail:
  assumes "CHR ''/'' \<notin> set a" and "CHR ''/'' \<notin> set a'"
    and "segment_key h t i a shards at = segment_key h' t' i' a' shards' at'"
  shows "a = a'"
proof -
  let ?tail = "\<lambda>a. rev ''.jsonl.zst'' @ rev a @ rev ''segment=''"
  have split: "\<exists>p. rev (segment_key h t i a shards at) = ?tail a @ CHR ''/'' # p" for h t i a shards at
  proof -
    obtain y mon d where "civil (day_of at) = (y, mon, d)" by (cases "civil (day_of at)")
    then have "segment_key h t i a shards at =
        (''tenant-shard='' @ zfill 3 (tenant_shard h t shards) @ ''/tenant='' @ t @ ''/year='' @ zfill 4 y @ ''/month='' @
         zfill 2 mon @ ''/thread='' @ i) @ [CHR ''/''] @ ''segment='' @ a @ ''.jsonl.zst''"
      by (simp add: segment_key_def)
    then show ?thesis by (simp only: rev_append append_assoc rev.simps append.simps) blast
  qed
  obtain p p' where "?tail a @ CHR ''/'' # p = ?tail a' @ CHR ''/'' # p'"
    using split [of h t i a shards at] split [of h' t' i' a' shards' at'] assms(3) by metis
  then have "?tail a = ?tail a'"
    using assms(1,2) by (subst (asm) sep_inject) auto
  then show ?thesis by simp
qed

end
