(* ===== verification/Blob_Store.thy ===== *)
theory Blob_Store
  imports Errors "HOL-Library.Product_Lexorder"
begin

text \<open>
  The blob store: the port (\<open>ports/blob.py\<close>) and the in-memory adapter
  (\<open>adapters/blob/memory.py\<close>).

  Bytes are a \<open>string\<close> of their codes. The port is a record of the operations an adapter offers over
  its own state, and \<open>blob_contract\<close> states what its clients rely on: an object created with
  \<open>if_generation_match=0\<close> is never overwritten, a verification that answers \<open>True\<close> has seen the object
  with the generation and checksum asked about, and a readable object is returned as it was written.
  Object metadata and the content type are stored by no code the model has, and are left out.
\<close>

record BlobRef =
  bl_bucket :: string
  bl_key :: string
  bl_generation :: "string option"
  bl_size_bytes :: nat
  bl_checksum_sha256 :: string
  bl_checksum_store :: "string option"
  bl_storage_class :: "string option"

record 'b BlobStore =
  bs_put :: "string \<Rightarrow> string \<Rightarrow> string \<Rightarrow> string option \<Rightarrow> nat option \<Rightarrow> 'b \<Rightarrow> (service_error + BlobRef) \<times> 'b"
  bs_get :: "string \<Rightarrow> string \<Rightarrow> string option \<Rightarrow> 'b \<Rightarrow> service_error + string"
  bs_head :: "string \<Rightarrow> string \<Rightarrow> 'b \<Rightarrow> service_error + BlobRef"
  bs_verify :: "BlobRef \<Rightarrow> 'b \<Rightarrow> (service_error + bool) \<times> 'b"

subsection \<open>The contract of the port\<close>

text \<open>\<open>obj\<close> is what the store holds under a key, \<open>up\<close> that it answers, \<open>honest\<close> that \<open>verify\<close> does not
  doubt a sound object.\<close>

locale blob_contract =
  fixes port :: "'b BlobStore" and hash :: "string \<Rightarrow> string"
    and obj :: "'b \<Rightarrow> string \<Rightarrow> string \<Rightarrow> (string \<times> BlobRef) option"
    and up :: "'b \<Rightarrow> bool" and honest :: "'b \<Rightarrow> bool"
  assumes put_creates: "bs_put port b k d cs (Some 0) s = (Inr ref, s') \<Longrightarrow>
      obj s b k = None \<and> obj s' = (\<lambda>b' k'. if b' = b \<and> k' = k then Some (d, ref) else obj s b' k') \<and>
      bl_checksum_sha256 ref = hash d \<and> bl_bucket ref = b \<and> bl_key ref = k"
    and put_refused: "bs_put port b k d cs (Some 0) s = (Inl e, s') \<Longrightarrow> obj s' = obj s"
    and verify_keeps: "bs_verify port ref s = (v, s') \<Longrightarrow> obj s' = obj s"
    and verify_seen: "bs_verify port ref s = (Inr True, s') \<Longrightarrow>
      \<exists>d r. obj s (bl_bucket ref) (bl_key ref) = Some (d, r) \<and> bl_generation r = bl_generation ref \<and>
            hash d = bl_checksum_sha256 ref"
    and head_seen: "bs_head port b k s = Inr ref \<Longrightarrow> \<exists>d. obj s b k = Some (d, ref)"
    and get_reads: "obj s b k = Some (d, r) \<Longrightarrow> up s \<Longrightarrow> g = None \<or> g = bl_generation r \<Longrightarrow> bs_get port b k g s = Inr d"
    and honest_put: "honest s \<Longrightarrow> bs_put port b k d cs (Some 0) s = (x, s') \<Longrightarrow> honest s'"
    and honest_verify: "honest s \<Longrightarrow> bs_verify port ref s = (answer, s') \<Longrightarrow> honest s'"
    and honest_answer: "honest s \<Longrightarrow> obj s b k = Some (d, ref) \<Longrightarrow>
      bs_verify port ref s = (Inr flag, s') \<Longrightarrow> flag"
    and put_up: "up s \<Longrightarrow> obj s b k = None \<Longrightarrow>
      \<exists>ref s'. bs_put port b k d (Some (hash d)) (Some 0) s = (Inr ref, s') \<and> up s'"
    and verify_up: "up s \<Longrightarrow> \<exists>answer s'. bs_verify port ref s = (Inr answer, s') \<and> up s'"
begin

lemma sound_upload:
  assumes "up s" and "honest s" and "obj s b k = None"
  shows "\<exists>ref s1 s2. bs_put port b k d (Some (hash d)) (Some 0) s = (Inr ref, s1) \<and>
    bs_verify port ref s1 = (Inr True, s2) \<and> up s2 \<and> honest s2"
proof -
  obtain ref s1 where put: "bs_put port b k d (Some (hash d)) (Some 0) s = (Inr ref, s1)" "up s1"
    using put_up [OF assms(1,3)] by blast
  obtain v s2 where ver: "bs_verify port ref s1 = (Inr v, s2)" "up s2" using verify_up [OF put(2)] by blast
  have h: "honest s1" using honest_put [OF assms(2) put(1)] .
  have "obj s1 b k = Some (d, ref)" using put_creates [OF put(1)] by simp
  then have v using honest_answer [OF h _ ver(1)] by blast
  then show ?thesis using put(1) ver honest_verify [OF h ver(1)] by auto
qed


lemma verified_upload:
  assumes "bs_put port b k d cs (Some 0) s = (Inr ref, s1)" and "bs_verify port ref s1 = (Inr True, s2)"
  shows "obj s2 b k = Some (d, ref) \<and> obj s b k = None \<and> (\<forall>b' k'. (b', k') \<noteq> (b, k) \<longrightarrow> obj s2 b' k' = obj s b' k')"
  using put_creates [OF assms(1)] verify_keeps [OF assms(2)] by auto

lemma verified_object:
  assumes "bs_head port b k s = Inr ref"
  shows "\<exists>d. obj s b k = Some (d, ref)"
  using head_seen [OF assms] .

lemma never_overwritten:
  assumes "bs_put port b k d cs (Some 0) s = (x, s')" and "obj s b' k' = Some y"
  shows "obj s' b' k' = Some y"
proof (cases x)
  case (Inl e)
  then show ?thesis using put_refused assms by (metis (no_types))
next
  case (Inr ref)
  then show ?thesis using put_creates [of b k d cs s ref s'] assms by auto
qed

end

subsection \<open>The in-memory store\<close>

record MemoryBlobStore =
  mb_objects :: "((string \<times> string) \<times> (string \<times> BlobRef)) list"
  mb_available :: bool
  mb_corrupt_next_verify :: bool

definition memory_put :: "(string \<Rightarrow> string) \<Rightarrow> string \<Rightarrow> string \<Rightarrow> string \<Rightarrow> string option \<Rightarrow> nat option \<Rightarrow> MemoryBlobStore \<Rightarrow>
    (service_error + BlobRef) \<times> MemoryBlobStore" where
  "memory_put content_hash bucket key data checksum_sha256 if_generation_match s =
     (if \<not> mb_available s then (Inl ConnectionError, s)
      else let digest = content_hash data in
        if checksum_sha256 \<noteq> None \<and> checksum_sha256 \<noteq> Some digest then (Inl BlobChecksumMismatch, s)
        else let existing = map_of (mb_objects s) (bucket, key) in
          if if_generation_match = Some 0 \<and> existing \<noteq> None then (Inl BlobAlreadyExists, s)
          else
            let generation = (case existing of None \<Rightarrow> 1
                  | Some (_, r) \<Rightarrow> read_nat (or_empty (por (bl_generation r) (Some ''0''))) + 1);
                ref = \<lparr>bl_bucket = bucket, bl_key = key, bl_generation = Some (show_nat generation),
                  bl_size_bytes = length data, bl_checksum_sha256 = digest, bl_checksum_store = Some digest,
                  bl_storage_class = Some ''STANDARD''\<rparr>
            in (Inr ref, s\<lparr>mb_objects := assoc_put (bucket, key) (data, ref) (mb_objects s)\<rparr>))"

definition memory_get :: "string \<Rightarrow> string \<Rightarrow> string option \<Rightarrow> MemoryBlobStore \<Rightarrow> service_error + string" where
  "memory_get bucket key generation s =
     (if \<not> mb_available s then Inl ConnectionError
      else case map_of (mb_objects s) (bucket, key) of
          None \<Rightarrow> Inl BlobNotFound
        | Some (data, r) \<Rightarrow> if generation \<noteq> None \<and> bl_generation r \<noteq> generation then Inl BlobNotFound else Inr data)"

definition memory_head :: "string \<Rightarrow> string \<Rightarrow> MemoryBlobStore \<Rightarrow> service_error + BlobRef" where
  "memory_head bucket key s =
     (if \<not> mb_available s then Inl ConnectionError
      else case map_of (mb_objects s) (bucket, key) of None \<Rightarrow> Inl BlobNotFound | Some (_, r) \<Rightarrow> Inr r)"

definition memory_verify :: "(string \<Rightarrow> string) \<Rightarrow> BlobRef \<Rightarrow> MemoryBlobStore \<Rightarrow> (service_error + bool) \<times> MemoryBlobStore" where
  "memory_verify content_hash ref s =
     (if \<not> mb_available s then (Inl ConnectionError, s)
      else if mb_corrupt_next_verify s then (Inr False, s\<lparr>mb_corrupt_next_verify := False\<rparr>)
      else (Inr (case map_of (mb_objects s) (bl_bucket ref, bl_key ref) of
              None \<Rightarrow> False
            | Some (data, r) \<Rightarrow> bl_generation r = bl_generation ref \<and> content_hash data = bl_checksum_sha256 ref), s))"

definition memory_delete :: "string \<Rightarrow> string \<Rightarrow> MemoryBlobStore \<Rightarrow> (service_error + unit) \<times> MemoryBlobStore" where
  "memory_delete bucket key s =
     (if \<not> mb_available s then (Inl ConnectionError, s)
      else (Inr (), s\<lparr>mb_objects := assoc_del (bucket, key) (mb_objects s)\<rparr>))"

text \<open>\<open>list\<close> yields what it finds when it is first asked.\<close>

definition memory_list :: "string \<Rightarrow> string \<Rightarrow> MemoryBlobStore \<Rightarrow> service_error + BlobRef list" where
  "memory_list bucket prefix s =
     (if \<not> mb_available s then Inl ConnectionError
      else Inr (List.map_filter (\<lambda>((b, k), (_, ref)). if b = bucket \<and> startswith prefix k then Some ref else None)
             (sort_key fst (mb_objects s))))"

definition memory_store :: "(string \<Rightarrow> string) \<Rightarrow> MemoryBlobStore BlobStore" where
  "memory_store content_hash = \<lparr>bs_put = memory_put content_hash, bs_get = memory_get, bs_head = memory_head,
     bs_verify = memory_verify content_hash\<rparr>"

definition memory_obj :: "MemoryBlobStore \<Rightarrow> string \<Rightarrow> string \<Rightarrow> (string \<times> BlobRef) option" where
  "memory_obj s b k = map_of (mb_objects s) (b, k)"

text \<open>Every object carries its key and the digest of its bytes, and no test hook is armed.\<close>

definition memory_honest :: "(string \<Rightarrow> string) \<Rightarrow> MemoryBlobStore \<Rightarrow> bool" where
  "memory_honest content_hash s \<longleftrightarrow> \<not> mb_corrupt_next_verify s \<and>
     (\<forall>b k d r. memory_obj s b k = Some (d, r) \<longrightarrow> bl_checksum_sha256 r = content_hash d \<and> bl_bucket r = b \<and> bl_key r = k)"

lemma memory_put_stored:
  assumes "memory_put h b k d cs g s = (Inr ref, s')"
  shows "memory_obj s' = (\<lambda>b' k'. if b' = b \<and> k' = k then Some (d, ref) else memory_obj s b' k') \<and>
    bl_checksum_sha256 ref = h d \<and> bl_bucket ref = b \<and> bl_key ref = k \<and> mb_corrupt_next_verify s' = mb_corrupt_next_verify s \<and>
    (g = Some 0 \<longrightarrow> memory_obj s b k = None)"
  using assms unfolding memory_put_def Let_def memory_obj_def
  by (cases "map_of (mb_objects s) (b, k)") (auto simp: fun_eq_iff split: if_splits)

lemma memory_put_refused: "memory_put h b k d cs g s = (Inl e, s') \<Longrightarrow> s' = s"
  by (auto simp: memory_put_def Let_def split: if_splits)

lemma memory_obj_flag [simp]: "memory_obj (s\<lparr>mb_corrupt_next_verify := f\<rparr>) = memory_obj s"
  by (simp add: memory_obj_def fun_eq_iff)

lemma memory_verify_objects: "memory_verify h ref s = (v, s') \<Longrightarrow> mb_objects s' = mb_objects s"
  by (auto simp: memory_verify_def split: if_splits)

interpretation mem: blob_contract "memory_store h" h memory_obj mb_available "memory_honest h" for h
proof
  fix b k d cs s ref s'
  assume "bs_put (memory_store h) b k d cs (Some 0) s = (Inr ref, s')"
  then show "memory_obj s b k = None \<and> memory_obj s' = (\<lambda>b' k'. if b' = b \<and> k' = k then Some (d, ref) else memory_obj s b' k') \<and>
      bl_checksum_sha256 ref = h d \<and> bl_bucket ref = b \<and> bl_key ref = k"
    using memory_put_stored [of h b k d cs "Some 0"] by (simp add: memory_store_def)
next
  fix b k d cs s x s'
  assume "memory_honest h s" "bs_put (memory_store h) b k d cs (Some 0) s = (x, s')"
  then show "memory_honest h s'"
    using memory_put_stored [of h b k d cs "Some 0" s _ s'] memory_put_refused [of h b k d cs "Some 0" s _ s']
    by (cases x) (auto simp: memory_store_def memory_honest_def)
next
  fix ref s x s'
  assume "memory_honest h s" "bs_verify (memory_store h) ref s = (x, s')"
  then show "memory_honest h s'"
    by (auto simp: memory_store_def memory_honest_def memory_obj_def memory_verify_def split: if_splits)
next
  fix s :: MemoryBlobStore and b k d
  assume "mb_available s" "memory_obj s b k = None"
  then show "\<exists>ref s'. bs_put (memory_store h) b k d (Some (h d)) (Some 0) s = (Inr ref, s') \<and> mb_available s'"
    by (simp add: memory_store_def memory_put_def memory_obj_def Let_def)
qed (auto simp: memory_store_def memory_obj_def memory_honest_def memory_get_def memory_head_def memory_verify_def
       dest: memory_put_refused split: if_splits option.splits)

end
