(* ===== verification/Archive.thy ===== *)
theory Archive
  imports Segments Blob_Store
begin

text \<open>
  The archive (\<open>modules/archive/service.py\<close>): staged messages are written to a verified segment, their
  payloads are purged from the database after a grace period, and a purged message is read back from
  its segment; a periodic reconciliation repairs what a crash or an outage left half done. Below it,
  the archive's tables (\<open>SqlArchiveRepository\<close> and the archive operations of \<open>SqlMessageRepository\<close> in
  \<open>adapters/db/repositories.py\<close>).

  The blob port is an argument of the operations (any adapter of the port); each unit of work commits,
  so the state after an error is what the code had committed before it. Error texts are not kept. A
  query with a limit and no order takes rows in table order.
\<close>

subsection \<open>The segment table\<close>

datatype SegmentStatus = SEG_UPLOADING | SEG_VERIFIED | SEG_FAILED

record ArchiveSegment =
  sg_segment_id :: string
  sg_tenant_id :: string
  sg_kind :: string
  sg_thread_id :: "string option"
  sg_document_id :: "string option"
  sg_bucket :: string
  sg_key :: string
  sg_generation :: "string option"
  sg_size_bytes :: nat
  sg_raw_bytes :: nat
  sg_checksum_sha256 :: string
  sg_message_count :: nat
  sg_first_sequence :: "nat option"
  sg_last_sequence :: "nat option"
  sg_first_at :: "instant option"
  sg_last_at :: "instant option"
  sg_status :: SegmentStatus
  sg_manifest :: "SegmentManifest option"
  sg_created_at :: instant
  sg_verified_at :: "instant option"

definition manifest_ids :: "ArchiveSegment \<Rightarrow> string list" where
  "manifest_ids g = (case sg_manifest g of None \<Rightarrow> [] | Some m \<Rightarrow> mf_message_ids m)"

definition segments_add :: "ArchiveSegment \<Rightarrow> ArchiveSegment list \<Rightarrow> service_error + ArchiveSegment list" where
  "segments_add g rows =
     (if list_ex (\<lambda>r. sg_segment_id r = sg_segment_id g \<or> (sg_bucket r = sg_bucket g \<and> sg_key r = sg_key g)) rows
      then Inl IntegrityError else Inr (rows @ [g]))"

definition segments_get :: "ArchiveSegment list \<Rightarrow> string \<Rightarrow> ArchiveSegment option" where
  "segments_get rows i = List.find (\<lambda>r. sg_segment_id r = i) rows"

definition mark_verified :: "string \<Rightarrow> string option \<Rightarrow> instant \<Rightarrow> ArchiveSegment list \<Rightarrow> ArchiveSegment list" where
  "mark_verified i generation verified_at =
     map (\<lambda>r. if sg_segment_id r = i
        then r\<lparr>sg_status := SEG_VERIFIED, sg_generation := generation, sg_verified_at := Some verified_at\<rparr> else r)"

definition mark_segment_failed :: "string \<Rightarrow> ArchiveSegment list \<Rightarrow> ArchiveSegment list" where
  "mark_segment_failed i = map (\<lambda>r. if sg_segment_id r = i then r\<lparr>sg_status := SEG_FAILED\<rparr> else r)"

definition list_by_status :: "SegmentStatus \<Rightarrow> instant option \<Rightarrow> nat \<Rightarrow> ArchiveSegment list \<Rightarrow> ArchiveSegment list" where
  "list_by_status status older_than lim rows =
     take lim (sort_key sg_created_at (filter (\<lambda>r. sg_status r = status \<and>
       (case older_than of None \<Rightarrow> True | Some t \<Rightarrow> sg_created_at r \<le> t)) rows))"

text \<open>An ascending order puts a null first sequence last.\<close>

definition list_for_thread :: "string \<Rightarrow> string \<Rightarrow> ArchiveSegment list \<Rightarrow> ArchiveSegment list" where
  "list_for_thread t i rows =
     sort_key (\<lambda>r. case sg_first_sequence r of None \<Rightarrow> (1 :: nat, 0) | Some n \<Rightarrow> (0, n))
       (filter (\<lambda>r. sg_tenant_id r = t \<and> sg_thread_id r = Some i) rows)"

definition list_verified :: "nat \<Rightarrow> nat \<Rightarrow> ArchiveSegment list \<Rightarrow> ArchiveSegment list" where
  "list_verified lim offset rows =
     take lim (drop offset (sort_key sg_created_at (filter (\<lambda>r. sg_status r = SEG_VERIFIED) rows)))"

subsection \<open>The archive's view of the messages\<close>

definition list_staged :: "instant option \<Rightarrow> nat \<Rightarrow> string option \<Rightarrow> string option \<Rightarrow> conv_db \<Rightarrow> Message list" where
  "list_staged older_than lim tenant_id thread_id db =
     map (with_attachments db) (take lim
       (sort_key (\<lambda>r. (ms_tenant_id (mr_message r), ms_thread_id (mr_message r), ms_sequence (mr_message r)))
         (filter (\<lambda>r. ms_archive_status (mr_message r) = AS_STAGED \<and>
            (case older_than of None \<Rightarrow> True | Some x \<Rightarrow> ms_created_at (mr_message r) \<le> x) \<and>
            (case tenant_id of None \<Rightarrow> True | Some t \<Rightarrow> ms_tenant_id (mr_message r) = t) \<and>
            (case thread_id of None \<Rightarrow> True | Some i \<Rightarrow> ms_thread_id (mr_message r) = i)) (cv_messages db))))"

definition archived_row :: "string \<Rightarrow> instant \<Rightarrow> MessageRow \<Rightarrow> MessageRow" where
  "archived_row segment_id archived_at r =
     r\<lparr>mr_message := (mr_message r)\<lparr>ms_archive_status := AS_ARCHIVED\<rparr>, mr_archived_at := Some archived_at,
       mr_archive_segment_id := Some segment_id\<rparr>"

definition mark_archived :: "string list \<Rightarrow> string \<Rightarrow> instant \<Rightarrow> conv_db \<Rightarrow> conv_db" where
  "mark_archived message_ids segment_id archived_at db =
     db\<lparr>cv_messages := map (\<lambda>r. if ms_message_id (mr_message r) \<in> set message_ids
          then archived_row segment_id archived_at r else r) (cv_messages db)\<rparr>"

definition purgeable :: "instant \<Rightarrow> nat \<Rightarrow> MessageRow \<Rightarrow> bool" where
  "purgeable archived_before min_bytes r \<longleftrightarrow>
     ms_archive_status (mr_message r) = AS_ARCHIVED \<and>
     (case mr_archived_at r of None \<Rightarrow> False | Some t \<Rightarrow> t \<le> archived_before) \<and>
     mr_content_bytes r \<ge> min_bytes \<and> mr_content r \<noteq> None"

definition purged_row :: "MessageRow \<Rightarrow> MessageRow" where
  "purged_row r = r\<lparr>mr_content := None, mr_message := (mr_message r)\<lparr>ms_archive_status := AS_PURGED\<rparr>\<rparr>"

definition purge_payloads :: "instant \<Rightarrow> nat \<Rightarrow> nat \<Rightarrow> conv_db \<Rightarrow> nat \<times> conv_db" where
  "purge_payloads archived_before min_bytes lim db =
     (let ids = map (\<lambda>r. ms_message_id (mr_message r)) (take lim (filter (purgeable archived_before min_bytes) (cv_messages db)))
      in (length (filter (\<lambda>r. ms_message_id (mr_message r) \<in> set ids) (cv_messages db)),
          db\<lparr>cv_messages := map (\<lambda>r. if ms_message_id (mr_message r) \<in> set ids then purged_row r else r) (cv_messages db)\<rparr>))"

subsection \<open>The service\<close>

record ArchiveSettings =
  ac_segment_target_bytes :: nat
  ac_segment_max_messages :: nat
  ac_purge_grace_seconds :: nat
  ac_purge_min_payload_bytes :: nat
  ac_tenant_shards :: nat
  ac_chat_bucket :: string

definition ARCHIVE :: "string \<Rightarrow> ArchiveSettings" where
  "ARCHIVE chat_bucket = \<lparr>ac_segment_target_bytes = 4 * 1024 * 1024, ac_segment_max_messages = 5000,
     ac_purge_grace_seconds = 24 * 3600, ac_purge_min_payload_bytes = 4096, ac_tenant_shards = 64,
     ac_chat_bucket = chat_bucket\<rparr>"

record 'b archive =
  av_db :: conv_db
  av_segments :: "ArchiveSegment list"
  av_outbox :: outbox
  av_blob :: 'b

definition new_segment :: "archive_env \<Rightarrow> ArchiveSettings \<Rightarrow> string \<Rightarrow> string \<Rightarrow> nat \<Rightarrow> BuiltSegment \<Rightarrow> ArchiveSegment" where
  "new_segment env cfg t i n b =
     \<lparr>sg_segment_id = bu_segment_id b, sg_tenant_id = t, sg_kind = ''chat'', sg_thread_id = Some i,
      sg_document_id = None, sg_bucket = ac_chat_bucket cfg, sg_key = bu_key b, sg_generation = None,
      sg_size_bytes = length (bu_data b), sg_raw_bytes = bu_raw_bytes b, sg_checksum_sha256 = bu_checksum_sha256 b,
      sg_message_count = n, sg_first_sequence = Some (bu_first_sequence b), sg_last_sequence = Some (bu_last_sequence b),
      sg_first_at = Some (bu_first_at b), sg_last_at = Some (bu_last_at b), sg_status = SEG_UPLOADING,
      sg_manifest = Some (bu_manifest b), sg_created_at = ae_now env, sg_verified_at = None\<rparr>"

text \<open>1. The manifest row, committed before the upload.\<close>

definition open_segment :: "ArchiveSegment \<Rightarrow> 'b archive \<Rightarrow> (service_error + unit) \<times> 'b archive" where
  "open_segment g a = (case segments_add g (av_segments a) of
     Inl e \<Rightarrow> (Inl e, a) | Inr rows \<Rightarrow> (Inr (), a\<lparr>av_segments := rows\<rparr>))"

text \<open>2. The immutable upload and its verification.\<close>

definition upload :: "'b BlobStore \<Rightarrow> ArchiveSettings \<Rightarrow> BuiltSegment \<Rightarrow> 'b archive \<Rightarrow> (service_error + BlobRef \<times> bool) \<times> 'b archive" where
  "upload port cfg b a =
     (case bs_put port (ac_chat_bucket cfg) (bu_key b) (bu_data b) (Some (bu_checksum_sha256 b)) (Some 0) (av_blob a) of
        (Inl e, s1) \<Rightarrow> (Inl e, a\<lparr>av_blob := s1\<rparr>)
      | (Inr ref, s1) \<Rightarrow> (case bs_verify port ref s1 of
            (Inl e, s2) \<Rightarrow> (Inl e, a\<lparr>av_blob := s2\<rparr>)
          | (Inr v, s2) \<Rightarrow> (Inr (ref, v), a\<lparr>av_blob := s2\<rparr>)))"

definition fail_segment :: "string \<Rightarrow> 'b archive \<Rightarrow> 'b archive" where
  "fail_segment i a = a\<lparr>av_segments := mark_segment_failed i (av_segments a)\<rparr>"

text \<open>3. The manifest verified and its messages archived, in one transaction.\<close>

definition close_segment :: "instant \<Rightarrow> string \<Rightarrow> string option \<Rightarrow> string list \<Rightarrow> 'b archive \<Rightarrow> 'b archive" where
  "close_segment now i generation ids a =
     a\<lparr>av_segments := mark_verified i generation now (av_segments a), av_db := mark_archived ids i now (av_db a)\<rparr>"

definition archive_messages :: "'b BlobStore \<Rightarrow> archive_env \<Rightarrow> ArchiveSettings \<Rightarrow> string \<Rightarrow> string \<Rightarrow> string \<Rightarrow> Message list \<Rightarrow>
    'b archive \<Rightarrow> (service_error + string) \<times> 'b archive" where
  "archive_messages port env cfg ulid t i ms a =
     (case build_segment env ulid t i (ac_tenant_shards cfg) ms of
        Inl e \<Rightarrow> (Inl e, a)
      | Inr b \<Rightarrow> (case open_segment (new_segment env cfg t i (length ms) b) a of
            (Inl e, a1) \<Rightarrow> (Inl e, a1)
          | (Inr _, a1) \<Rightarrow> (case upload port cfg b a1 of
                (Inl e, a2) \<Rightarrow> (Inl DependencyUnavailable, fail_segment (bu_segment_id b) a2)
              | (Inr (ref, verified), a2) \<Rightarrow>
                  if \<not> verified then (Inl CorruptSource, fail_segment (bu_segment_id b) a2)
                  else (Inr (bu_segment_id b),
                        close_segment (ae_now env) (bu_segment_id b) (bl_generation ref) (bu_message_ids b) a2))))"

fun archive_plans :: "'b BlobStore \<Rightarrow> archive_env \<Rightarrow> ArchiveSettings \<Rightarrow> nat \<Rightarrow> string \<Rightarrow> string \<Rightarrow> Message list list \<Rightarrow>
    'b archive \<Rightarrow> (service_error + string list) \<times> 'b archive" where
  "archive_plans port env cfg k t i [] a = (Inr [], a)"
| "archive_plans port env cfg k t i (p # ps) a =
     (case archive_messages port env cfg (ae_ulid env k) t i p a of
        (Inl e, a1) \<Rightarrow> (Inl e, a1)
      | (Inr g, a1) \<Rightarrow> (case archive_plans port env cfg (k + 1) t i ps a1 of
            (Inl e, a2) \<Rightarrow> (Inl e, a2)
          | (Inr gs, a2) \<Rightarrow> (Inr (g # gs), a2)))"

definition archive_thread :: "'b BlobStore \<Rightarrow> archive_env \<Rightarrow> ArchiveSettings \<Rightarrow> string \<Rightarrow> string \<Rightarrow>
    'b archive \<Rightarrow> (service_error + string list) \<times> 'b archive" where
  "archive_thread port env cfg t i a =
     (let staged = list_staged None (ac_segment_max_messages cfg * 4) (Some t) (Some i) (av_db a) in
      if staged = [] then (Inr [], a)
      else archive_plans port env cfg 0 t i
        (plan_segments (ac_segment_target_bytes cfg) (ac_segment_max_messages cfg) (sort_key ms_sequence staged)) a)"

definition purge_staged_payloads :: "instant \<Rightarrow> ArchiveSettings \<Rightarrow> nat \<Rightarrow> 'b archive \<Rightarrow> nat \<times> 'b archive" where
  "purge_staged_payloads now cfg lim a =
     (case purge_payloads (now - secs (int (ac_purge_grace_seconds cfg))) (ac_purge_min_payload_bytes cfg) lim (av_db a) of
        (n, db) \<Rightarrow> (n, a\<lparr>av_db := db\<rparr>))"

subsection \<open>Reading a purged message back\<close>

text \<open>The records of one segment, up to the message's; \<open>None\<close> when it is not among them.\<close>

fun record_content :: "Message \<Rightarrow> (service_error + json) list \<Rightarrow> service_error + string option" where
  "record_content m [] = Inr None"
| "record_content m (Inl e # rs) = Inl e"
| "record_content m (Inr rec # rs) =
     (case member ''message_id'' rec of
        None \<Rightarrow> Inl KeyError
      | Some v \<Rightarrow>
          if v \<noteq> JStr (ms_message_id m) then record_content m rs
          else (case (member ''content_hash'' rec, member ''content'' rec) of
              (Some h, Some (JStr c)) \<Rightarrow> if h \<noteq> JStr (ms_content_hash m) then Inl CorruptSource else Inr (Some c)
            | _ \<Rightarrow> Inl KeyError))"

definition seg_covers :: "ArchiveSegment \<Rightarrow> nat \<Rightarrow> bool" where
  "seg_covers g n \<longleftrightarrow> (case sg_first_sequence g of None \<Rightarrow> 0 | Some x \<Rightarrow> x) \<le> n \<and>
     n \<le> (case sg_last_sequence g of None \<Rightarrow> 0 | Some x \<Rightarrow> x)"

fun scan_segments :: "'b BlobStore \<Rightarrow> archive_env \<Rightarrow> Message \<Rightarrow> 'b \<Rightarrow> ArchiveSegment list \<Rightarrow> service_error + string" where
  "scan_segments port env m s [] = Inl NotFound"
| "scan_segments port env m s (g # gs) =
     (if sg_status g \<noteq> SEG_VERIFIED \<or> \<not> seg_covers g (ms_sequence m) then scan_segments port env m s gs
      else rbind (bs_get port (sg_bucket g) (sg_key g) (sg_generation g) s) (\<lambda>data.
           rbind (read_segment env data) (\<lambda>records.
           rbind (record_content m records) (\<lambda>found.
             case found of None \<Rightarrow> scan_segments port env m s gs | Some c \<Rightarrow> Inr c))))"

definition load_message_content :: "'b BlobStore \<Rightarrow> archive_env \<Rightarrow> Message \<Rightarrow> 'b archive \<Rightarrow> service_error + string" where
  "load_message_content port env m a =
     (if ms_archive_status m \<noteq> AS_PURGED then Inr (ms_content m)
      else scan_segments port env m (av_blob a)
             (list_for_thread (ms_tenant_id m) (ms_thread_id m) (av_segments a)))"

subsection \<open>Reconciliation\<close>

record reconcile_report =
  rp_requeued_threads :: nat
  rp_uploading_repaired :: nat
  rp_failed_requeued :: nat
  rp_verify_mismatch :: nat
  rp_verify_unreadable :: nat

definition requeue_job :: "string \<Rightarrow> string \<Rightarrow> JobSpec" where
  "requeue_job t i = (archive_job t i)\<lparr>js_schedule_in_seconds := None\<rparr>"

fun requeue_threads :: "instant \<Rightarrow> (string \<times> string) list \<Rightarrow> reconcile_report \<Rightarrow> 'b archive \<Rightarrow> reconcile_report \<times> 'b archive" where
  "requeue_threads now [] rp a = (rp, a)"
| "requeue_threads now ((t, i) # ts) rp a =
     (case outbox_add now (requeue_job t i) (av_outbox a) of (job, ob) \<Rightarrow>
        requeue_threads now ts
          (if job \<noteq> None then rp\<lparr>rp_requeued_threads := rp_requeued_threads rp + 1\<rparr> else rp)
          (a\<lparr>av_outbox := ob\<rparr>))"

text \<open>What the store says of a segment: its head when the object is there, intact and verified.\<close>

definition probe :: "'b BlobStore \<Rightarrow> ArchiveSegment \<Rightarrow> 'b \<Rightarrow> BlobRef option \<times> 'b" where
  "probe port g s =
     (case bs_head port (sg_bucket g) (sg_key g) s of
        Inl e \<Rightarrow> (None, s)
      | Inr head \<Rightarrow>
          if bl_checksum_sha256 head \<noteq> sg_checksum_sha256 g then (None, s)
          else (case bs_verify port head s of
              (Inr True, s') \<Rightarrow> (Some head, s')
            | (_, s') \<Rightarrow> (None, s')))"

fun repair_segments :: "'b BlobStore \<Rightarrow> instant \<Rightarrow> ArchiveSegment list \<Rightarrow> reconcile_report \<Rightarrow> 'b archive \<Rightarrow> reconcile_report \<times> 'b archive" where
  "repair_segments port now [] rp a = (rp, a)"
| "repair_segments port now (g # gs) rp a =
     (case probe port g (av_blob a) of
        (Some head, s) \<Rightarrow>
          repair_segments port now gs (rp\<lparr>rp_uploading_repaired := rp_uploading_repaired rp + 1\<rparr>)
            (close_segment now (sg_segment_id g) (bl_generation head) (manifest_ids g) (a\<lparr>av_blob := s\<rparr>))
      | (None, s) \<Rightarrow>
          repair_segments port now gs (rp\<lparr>rp_failed_requeued := rp_failed_requeued rp + 1\<rparr>)
            (fail_segment (sg_segment_id g) (a\<lparr>av_blob := s\<rparr>)))"

datatype audit = Intact | Mismatch | Unreadable

definition audit_segment :: "'b BlobStore \<Rightarrow> ArchiveSegment \<Rightarrow> 'b \<Rightarrow> audit \<times> 'b" where
  "audit_segment port g s =
     (case bs_head port (sg_bucket g) (sg_key g) s of
        Inl e \<Rightarrow> (Unreadable, s)
      | Inr ref \<Rightarrow>
          if bl_checksum_sha256 ref \<noteq> sg_checksum_sha256 g then (Mismatch, s)
          else (case bs_verify port ref s of
              (Inl e, s') \<Rightarrow> (Unreadable, s')
            | (Inr v, s') \<Rightarrow> (if v then Intact else Mismatch, s')))"

fun audit_segments :: "'b BlobStore \<Rightarrow> ArchiveSegment list \<Rightarrow> reconcile_report \<Rightarrow> 'b archive \<Rightarrow> reconcile_report \<times> 'b archive" where
  "audit_segments port [] rp a = (rp, a)"
| "audit_segments port (g # gs) rp a =
     (case audit_segment port g (av_blob a) of
        (Intact, s) \<Rightarrow> audit_segments port gs rp (a\<lparr>av_blob := s\<rparr>)
      | (Unreadable, s) \<Rightarrow>
          audit_segments port gs (rp\<lparr>rp_verify_unreadable := rp_verify_unreadable rp + 1\<rparr>) (a\<lparr>av_blob := s\<rparr>)
      | (Mismatch, s) \<Rightarrow>
          audit_segments port gs (rp\<lparr>rp_verify_mismatch := rp_verify_mismatch rp + 1\<rparr>)
            (fail_segment (sg_segment_id g) (a\<lparr>av_blob := s\<rparr>)))"

definition reconcile :: "'b BlobStore \<Rightarrow> instant \<Rightarrow> nat \<Rightarrow> nat \<Rightarrow> 'b archive \<Rightarrow> reconcile_report \<times> 'b archive" where
  "reconcile port now stale_after_seconds verify_sample a =
     (let stale = Some (now - secs (int stale_after_seconds));
          staged = list_staged stale 2000 None None (av_db a);
          unverified = list_by_status SEG_UPLOADING stale 200 (av_segments a) @ list_by_status SEG_FAILED stale 200 (av_segments a);
          sample = list_verified verify_sample 0 (av_segments a);
          threads = sort (fromkeys (map (\<lambda>m. (ms_tenant_id m, ms_thread_id m)) staged));
          rp = \<lparr>rp_requeued_threads = 0, rp_uploading_repaired = 0, rp_failed_requeued = 0, rp_verify_mismatch = 0,
                rp_verify_unreadable = 0\<rparr>
      in case requeue_threads now threads rp a of (rp1, a1) \<Rightarrow>
         case repair_segments port now unverified rp1 a1 of (rp2, a2) \<Rightarrow> audit_segments port sample rp2 a2)"

end
