(* ===== verification/Archive_Inv.thy ===== *)
theory Archive_Inv
  imports Archive
begin

text \<open>
  The invariant of the archive: every message's text is where the code will look for it. A row that is
  not purged holds it; a row archived or purged is backed by a verified segment; a segment's object
  holds the records the segment was built from, and those are the messages' own. \<open>orig\<close> is the text each
  message was written with.
\<close>

subsection \<open>The invariant\<close>

definition static_of :: "Message \<Rightarrow> string \<times> string \<times> string \<times> nat \<times> string" where
  "static_of m = (ms_message_id m, ms_tenant_id m, ms_thread_id m, ms_sequence m, ms_content_hash m)"

definition statics :: "conv_db \<Rightarrow> (string \<times> string \<times> string \<times> nat \<times> string) list" where
  "statics db = map (\<lambda>r. static_of (mr_message r)) (cv_messages db)"

abbreviation row_id :: "MessageRow \<Rightarrow> string" where
  "row_id r \<equiv> ms_message_id (mr_message r)"

abbreviation row_status :: "MessageRow \<Rightarrow> ArchiveStatus" where
  "row_status r \<equiv> ms_archive_status (mr_message r)"

definition backs :: "ArchiveSegment \<Rightarrow> Message \<Rightarrow> bool" where
  "backs g m \<longleftrightarrow> sg_status g = SEG_VERIFIED \<and> sg_tenant_id g = ms_tenant_id m \<and> sg_thread_id g = Some (ms_thread_id m) \<and>
     seg_covers g (ms_sequence m) \<and> ms_message_id m \<in> set (manifest_ids g)"

definition row_ok :: "(string \<Rightarrow> string) \<Rightarrow> ArchiveSegment list \<Rightarrow> MessageRow \<Rightarrow> bool" where
  "row_ok orig segs r \<longleftrightarrow>
     (if row_status r = AS_PURGED then mr_content r = None else mr_content r = Some (orig (row_id r))) \<and>
     (row_status r \<in> {AS_ARCHIVED, AS_PURGED} \<longrightarrow> (\<exists>g \<in> set segs. backs g (mr_message r)))"

definition plain_db :: "conv_db \<Rightarrow> bool" where
  "plain_db db \<longleftrightarrow> (\<forall>r \<in> set (cv_messages db). row_status r = AS_STAGED \<longrightarrow> plain_message (with_attachments db r))"

definition texts_ok :: "(string \<Rightarrow> string) \<Rightarrow> ArchiveSegment list \<Rightarrow> conv_db \<Rightarrow> bool" where
  "texts_ok orig segs db \<longleftrightarrow> distinct (map row_id (cv_messages db)) \<and> list_all (row_ok orig segs) (cv_messages db) \<and> plain_db db"

text \<open>The messages a segment was built from.\<close>

definition built_from :: "archive_env \<Rightarrow> (string \<Rightarrow> string) \<Rightarrow> (string \<Rightarrow> string) \<Rightarrow>
    (string \<times> string \<times> string \<times> nat \<times> string) set \<Rightarrow> ArchiveSegment \<Rightarrow> Message list \<Rightarrow> bool" where
  "built_from env hash orig st g ms \<longleftrightarrow> ms \<noteq> [] \<and> list_all plain_message ms \<and> sorted (map ms_sequence ms) \<and>
     sg_first_sequence g = Some (ms_sequence (hd ms)) \<and> sg_last_sequence g = Some (ms_sequence (last ms)) \<and>
     manifest_ids g = map ms_message_id ms \<and> sg_checksum_sha256 g = hash (ae_compress env (segment_raw ms)) \<and>
     list_all (\<lambda>m. static_of m \<in> st \<and> ms_content m = orig (ms_message_id m) \<and> ms_tenant_id m = sg_tenant_id g \<and>
       Some (ms_thread_id m) = sg_thread_id g) ms"

definition object_ok :: "archive_env \<Rightarrow> (string \<times> BlobRef) option \<Rightarrow> ArchiveSegment \<Rightarrow> Message list \<Rightarrow> bool" where
  "object_ok env x g ms \<longleftrightarrow>
     (case x of None \<Rightarrow> sg_status g \<noteq> SEG_VERIFIED
      | Some (d, r) \<Rightarrow> d = ae_compress env (segment_raw ms) \<and> (sg_status g = SEG_VERIFIED \<longrightarrow> bl_generation r = sg_generation g))"

definition seg_ok :: "archive_env \<Rightarrow> (string \<Rightarrow> string) \<Rightarrow> string \<Rightarrow> (string \<Rightarrow> string) \<Rightarrow>
    (string \<times> string \<times> string \<times> nat \<times> string) set \<Rightarrow> (string \<Rightarrow> string \<Rightarrow> (string \<times> BlobRef) option) \<Rightarrow> ArchiveSegment \<Rightarrow> bool" where
  "seg_ok env hash bucket orig st objs g \<longleftrightarrow> sg_bucket g = bucket \<and>
     (\<exists>ms. built_from env hash orig st g ms \<and> object_ok env (objs (sg_bucket g) (sg_key g)) g ms)"

definition segs_ok :: "archive_env \<Rightarrow> (string \<Rightarrow> string) \<Rightarrow> string \<Rightarrow> (string \<Rightarrow> string) \<Rightarrow>
    (string \<times> string \<times> string \<times> nat \<times> string) set \<Rightarrow> (string \<Rightarrow> string \<Rightarrow> (string \<times> BlobRef) option) \<Rightarrow>
    ArchiveSegment list \<Rightarrow> bool" where
  "segs_ok env hash bucket orig st objs segs \<longleftrightarrow>
     distinct (map sg_segment_id segs) \<and> distinct (map (\<lambda>g. (sg_bucket g, sg_key g)) segs) \<and>
     list_all (seg_ok env hash bucket orig st objs) segs \<and>
     (\<forall>k d r. objs bucket k = Some (d, r) \<longrightarrow> bl_checksum_sha256 r = hash d \<and> (\<exists>g \<in> set segs. sg_bucket g = bucket \<and> sg_key g = k))"

definition archive_ok :: "('b \<Rightarrow> string \<Rightarrow> string \<Rightarrow> (string \<times> BlobRef) option) \<Rightarrow> (string \<Rightarrow> string) \<Rightarrow> archive_env \<Rightarrow>
    ArchiveSettings \<Rightarrow> (string \<Rightarrow> string) \<Rightarrow> 'b archive \<Rightarrow> bool" where
  "archive_ok obj hash env cfg orig a \<longleftrightarrow> texts_ok orig (av_segments a) (av_db a) \<and>
     segs_ok env hash (ac_chat_bucket cfg) orig (set (statics (av_db a))) (obj (av_blob a)) (av_segments a)"

text \<open>Not purged: what archiving and repairing a message requires of its row.\<close>

definition unpurged :: "conv_db \<Rightarrow> string list \<Rightarrow> bool" where
  "unpurged db ids \<longleftrightarrow> list_all (\<lambda>r. row_id r \<in> set ids \<longrightarrow> row_status r \<noteq> AS_PURGED) (cv_messages db)"

subsection \<open>The tables under the archive's updates\<close>

lemma with_attachments_static [simp]: "static_of (with_attachments db r) = static_of (mr_message r)"
  by (simp add: with_attachments_def row_to_message_def static_of_def)

lemma archived_row_simps [simp]: "row_id (archived_row i t r) = row_id r" "mr_content (archived_row i t r) = mr_content r"
  "row_status (archived_row i t r) = AS_ARCHIVED" "static_of (mr_message (archived_row i t r)) = static_of (mr_message r)"
  by (simp_all add: archived_row_def static_of_def)

lemma purged_row_simps [simp]: "row_id (purged_row r) = row_id r" "mr_content (purged_row r) = None"
  "row_status (purged_row r) = AS_PURGED" "static_of (mr_message (purged_row r)) = static_of (mr_message r)"
  by (simp_all add: purged_row_def static_of_def)

lemma backs_static: "static_of m = static_of m' \<Longrightarrow> backs g m = backs g m'"
  by (simp add: backs_def static_of_def)

lemma statics_mark_archived [simp]: "statics (mark_archived ids i t db) = statics db"
  by (simp add: statics_def mark_archived_def)

lemma statics_purge [simp]: "purge_payloads t n lim db = (k, db') \<Longrightarrow> statics db' = statics db"
  by (auto simp: statics_def purge_payloads_def Let_def)

lemma plain_db_update:
  assumes "plain_db db" and "cv_attachments db' = cv_attachments db"
    and "\<And>r. r \<in> set (cv_messages db') \<Longrightarrow> row_status r = AS_STAGED \<Longrightarrow> r \<in> set (cv_messages db)"
  shows "plain_db db'"
  using assms by (auto simp: plain_db_def with_attachments_def attachments_of_def)

lemma messages_mark_archived:
  "cv_messages (mark_archived ids i t db) = map (\<lambda>r. if row_id r \<in> set ids then archived_row i t r else r) (cv_messages db)"
  by (simp add: mark_archived_def)

lemma mark_archived_texts_ok:
  assumes ok: "texts_ok orig segs db" and up: "unpurged db ids"
    and backed: "\<And>r. r \<in> set (cv_messages db) \<Longrightarrow> row_id r \<in> set ids \<Longrightarrow> \<exists>g \<in> set segs. backs g (mr_message r)"
  shows "texts_ok orig segs (mark_archived ids i t db)"
proof -
  have "map row_id (cv_messages (mark_archived ids i t db)) = map row_id (cv_messages db)"
    by (simp add: mark_archived_def)
  then have dist: "distinct (map row_id (cv_messages (mark_archived ids i t db)))" using ok by (simp only: texts_ok_def)
  have each: "row_ok orig segs (if row_id r \<in> set ids then archived_row i t r else r)" if r: "r \<in> set (cv_messages db)" for r
  proof (cases "row_id r \<in> set ids")
    case True
    then have "row_status r \<noteq> AS_PURGED" using up r by (auto simp: unpurged_def list_all_iff)
    then have "mr_content r = Some (orig (row_id r))" using ok r by (auto simp: texts_ok_def list_all_iff row_ok_def)
    moreover obtain g where g: "g \<in> set segs" "backs g (mr_message r)" using backed [OF r True] by blast
    then have "backs g (mr_message (archived_row i t r))" using backs_static archived_row_simps(4) by metis
    ultimately show ?thesis using True g(1) by (simp add: row_ok_def) blast
  next
    case False
    then show ?thesis using ok r by (auto simp: texts_ok_def list_all_iff)
  qed
  have plain: "plain_db (mark_archived ids i t db)"
    by (rule plain_db_update [of db]) (use ok in \<open>simp add: texts_ok_def\<close>, auto simp: mark_archived_def split: if_splits)
  have "list_all (row_ok orig segs) (cv_messages (mark_archived ids i t db))"
    using each by (simp only: list_all_iff messages_mark_archived set_map) blast
  then show ?thesis using dist plain unfolding texts_ok_def by blast
qed

lemma purge_texts_ok:
  assumes ok: "texts_ok orig segs db" and p: "purge_payloads t n lim db = (k, db')"
  shows "texts_ok orig segs db'"
proof -
  let ?sel = "take lim (filter (purgeable t n) (cv_messages db))"
  let ?ids = "map row_id ?sel"
  have db': "cv_messages db' = map (\<lambda>r. if row_id r \<in> set ?ids then purged_row r else r) (cv_messages db)"
    "cv_attachments db' = cv_attachments db"
    using p by (auto simp: purge_payloads_def Let_def)
  have "map row_id (cv_messages db') = map row_id (cv_messages db)" by (simp add: db')
  then have dist: "distinct (map row_id (cv_messages db'))" using ok by (simp only: texts_ok_def)
  have each: "row_ok orig segs (if row_id r \<in> set ?ids then purged_row r else r)" if r: "r \<in> set (cv_messages db)" for r
  proof (cases "row_id r \<in> set ?ids")
    case True
    then obtain r' where r': "r' \<in> set ?sel" "row_id r' = row_id r" by auto
    then have sel: "r' \<in> set (filter (purgeable t n) (cv_messages db))" using set_take_subset by fastforce
    then have "r' = r" using ok r r' by (auto simp: texts_ok_def distinct_map inj_on_def)
    then have "row_status r = AS_ARCHIVED" using sel by (simp add: purgeable_def)
    then obtain g where g: "g \<in> set segs" "backs g (mr_message r)" using ok r by (auto simp: texts_ok_def list_all_iff row_ok_def)
    then have "backs g (mr_message (purged_row r))" using backs_static purged_row_simps(4) by metis
    then show ?thesis using True g(1) by (simp add: row_ok_def) blast
  next
    case False
    then show ?thesis using ok r by (auto simp: texts_ok_def list_all_iff)
  qed
  have plain: "plain_db db'"
    by (rule plain_db_update [of db]) (use ok in \<open>simp add: texts_ok_def\<close>, auto simp: db' split: if_splits)
  have "list_all (row_ok orig segs) (cv_messages db')" using each by (simp only: list_all_iff db' set_map) blast
  then show ?thesis using dist plain unfolding texts_ok_def by blast
qed

text \<open>More verified segments never hurt a row.\<close>

lemma texts_ok_more_segments:
  assumes "texts_ok orig segs db" and "\<And>g m. g \<in> set segs \<Longrightarrow> backs g m \<Longrightarrow> \<exists>g' \<in> set segs'. backs g' m"
  shows "texts_ok orig segs' db"
  using assms unfolding texts_ok_def list_all_iff row_ok_def by blast

lemma unpurged_mark_archived: "unpurged db ids \<Longrightarrow> unpurged (mark_archived ids' i t db) ids"
  by (auto simp: unpurged_def mark_archived_def list_all_iff)

lemma unpurged_append: "unpurged db (xs @ ys) \<longleftrightarrow> unpurged db xs \<and> unpurged db ys"
  by (auto simp: unpurged_def list_all_iff)

subsection \<open>The segment table under the archive's updates\<close>

lemma built_from_status [simp]:
  "built_from env hash orig st (g\<lparr>sg_status := x\<rparr>) ms = built_from env hash orig st g ms"
  "built_from env hash orig st (g\<lparr>sg_status := x, sg_generation := y, sg_verified_at := z\<rparr>) ms = built_from env hash orig st g ms"
  by (simp_all add: built_from_def manifest_ids_def)

lemma seg_ok_failed: "seg_ok env hash bucket orig st objs g \<Longrightarrow> seg_ok env hash bucket orig st objs (g\<lparr>sg_status := SEG_FAILED\<rparr>)"
  by (auto simp: seg_ok_def object_ok_def split: option.splits)

lemma seg_ok_verified:
  "seg_ok env hash bucket orig st objs g \<Longrightarrow> objs (sg_bucket g) (sg_key g) = Some (d, ref) \<Longrightarrow>
   seg_ok env hash bucket orig st objs (g\<lparr>sg_status := SEG_VERIFIED, sg_generation := bl_generation ref, sg_verified_at := t\<rparr>)"
  by (auto simp: seg_ok_def object_ok_def)

text \<open>An update of the rows with one id, which keeps ids and keys.\<close>

lemma segs_ok_update:
  assumes ok: "segs_ok env hash bucket orig st objs segs"
    and keeps: "\<And>r. sg_segment_id (f r) = sg_segment_id r \<and> sg_bucket (f r) = sg_bucket r \<and> sg_key (f r) = sg_key r"
    and good: "\<And>r. r \<in> set segs \<Longrightarrow> sg_segment_id r = i \<Longrightarrow> seg_ok env hash bucket orig st objs (f r)"
  shows "segs_ok env hash bucket orig st objs (map (\<lambda>r. if sg_segment_id r = i then f r else r) segs)"
proof -
  let ?segs = "map (\<lambda>r. if sg_segment_id r = i then f r else r) segs"
  have ids: "map sg_segment_id ?segs = map sg_segment_id segs"
    and keys: "map (\<lambda>g. (sg_bucket g, sg_key g)) ?segs = map (\<lambda>g. (sg_bucket g, sg_key g)) segs"
    using keeps by simp_all
  have "distinct (map sg_segment_id ?segs)" "distinct (map (\<lambda>g. (sg_bucket g, sg_key g)) ?segs)"
    unfolding ids keys using ok unfolding segs_ok_def by blast+
  moreover have "list_all (seg_ok env hash bucket orig st objs) ?segs"
    using ok good by (auto simp: segs_ok_def list_all_iff)
  moreover have "\<exists>g \<in> set ?segs. sg_bucket g = bucket \<and> sg_key g = k" if "\<exists>g \<in> set segs. sg_bucket g = bucket \<and> sg_key g = k" for k
  proof -
    from that obtain g where "g \<in> set segs" "sg_bucket g = bucket" "sg_key g = k" by blast
    then show ?thesis using keeps by (intro bexI [of _ "if sg_segment_id g = i then f g else g"]) auto
  qed
  moreover have "\<forall>k d r. objs bucket k = Some (d, r) \<longrightarrow> bl_checksum_sha256 r = hash d \<and> (\<exists>g \<in> set segs. sg_bucket g = bucket \<and> sg_key g = k)"
    using ok unfolding segs_ok_def by blast
  ultimately show ?thesis unfolding segs_ok_def by blast
qed

lemma segs_ok_mark_failed:
  "segs_ok env hash bucket orig st objs segs \<Longrightarrow> segs_ok env hash bucket orig st objs (mark_segment_failed i segs)"
  unfolding mark_segment_failed_def
  by (rule segs_ok_update) (auto simp: segs_ok_def list_all_iff intro: seg_ok_failed)

lemma segs_ok_mark_verified:
  assumes ok: "segs_ok env hash bucket orig st objs segs" and g: "g \<in> set segs"
    and obj: "objs (sg_bucket g) (sg_key g) = Some (d, ref)"
  shows "segs_ok env hash bucket orig st objs (mark_verified (sg_segment_id g) (bl_generation ref) t segs)"
  unfolding mark_verified_def
proof (rule segs_ok_update [OF ok])
  fix r assume "r \<in> set segs" "sg_segment_id r = sg_segment_id g"
  then have "r = g" using ok g by (auto simp: segs_ok_def distinct_map inj_on_def)
  then show "seg_ok env hash bucket orig st objs (r\<lparr>sg_status := SEG_VERIFIED, sg_generation := bl_generation ref, sg_verified_at := Some t\<rparr>)"
    using ok g obj by (auto simp: segs_ok_def list_all_iff intro: seg_ok_verified)
qed simp

lemma segs_ok_put:
  assumes ok: "segs_ok env hash bucket orig st objs segs" and g: "g \<in> set segs" "sg_bucket g = bucket" "sg_key g = k"
    and new: "objs bucket k = None" and built: "built_from env hash orig st g ms"
    and d: "d = ae_compress env (segment_raw ms)" and ref: "bl_checksum_sha256 ref = hash d"
  shows "segs_ok env hash bucket orig st (\<lambda>b' k'. if b' = bucket \<and> k' = k then Some (d, ref) else objs b' k') segs"
proof -
  let ?objs = "\<lambda>b' k'. if b' = bucket \<and> k' = k then Some (d, ref) else objs b' k'"
  have "seg_ok env hash bucket orig st ?objs h" if h: "h \<in> set segs" for h
  proof (cases "h = g")
    case True
    have "seg_ok env hash bucket orig st objs g" using ok g(1) by (auto simp: segs_ok_def list_all_iff)
    then have "sg_status g \<noteq> SEG_VERIFIED" using g new by (auto simp: seg_ok_def object_ok_def)
    then show ?thesis using True g built d by (auto simp: seg_ok_def object_ok_def)
  next
    case False
    then have "(sg_bucket h, sg_key h) \<noteq> (bucket, k)"
      using ok g h by (auto simp: segs_ok_def distinct_map inj_on_def)
    then have same: "?objs (sg_bucket h) (sg_key h) = objs (sg_bucket h) (sg_key h)" by auto
    have "seg_ok env hash bucket orig st objs h" using ok h by (auto simp: segs_ok_def list_all_iff)
    then show ?thesis unfolding seg_ok_def same .
  qed
  then show ?thesis using ok g ref unfolding segs_ok_def list_all_iff by auto
qed

lemma segs_ok_add:
  assumes ok: "segs_ok env hash bucket orig st objs segs" and add: "segments_add g segs = Inr segs'"
    and g: "sg_bucket g = bucket" "sg_status g = SEG_UPLOADING" and built: "built_from env hash orig st g ms"
  shows "segs_ok env hash bucket orig st objs segs' \<and> objs bucket (sg_key g) = None \<and> segs' = segs @ [g] \<and>
    sg_segment_id g \<notin> sg_segment_id ` set segs"
proof -
  have new: "sg_segment_id g \<notin> sg_segment_id ` set segs" "(bucket, sg_key g) \<notin> (\<lambda>g. (sg_bucket g, sg_key g)) ` set segs"
    and segs': "segs' = segs @ [g]"
    using add g(1) by (auto simp: segments_add_def list_ex_iff split: if_splits)
  have none: "objs bucket (sg_key g) = None"
    using ok new(2) by (cases "objs bucket (sg_key g)") (force simp: segs_ok_def)+
  have "seg_ok env hash bucket orig st objs g" using g built none by (auto simp: seg_ok_def object_ok_def)
  then show ?thesis using ok new segs' none g unfolding segs_ok_def by (auto simp: list_all_iff)
qed

text \<open>A wider set of messages, and texts that agree on the old ones, keep a segment's contents.\<close>

lemma segs_ok_wider:
  assumes "segs_ok env hash bucket orig st objs segs" and "st \<subseteq> st'" and "\<And>x. x \<in> st \<Longrightarrow> orig' (fst x) = orig (fst x)"
  shows "segs_ok env hash bucket orig' st' objs segs"
proof -
  have "built_from env hash orig' st' g ms" if "built_from env hash orig st g ms" for g ms
  proof -
    have "ms_content m = orig' (ms_message_id m)" if "static_of m \<in> st" "ms_content m = orig (ms_message_id m)" for m
      using assms(3) [OF that(1)] that(2) by (simp add: static_of_def)
    then show ?thesis using that assms(2) unfolding built_from_def list_all_iff by blast
  qed
  then have "seg_ok env hash bucket orig' st' objs g" if "seg_ok env hash bucket orig st objs g" for g
    using that unfolding seg_ok_def by blast
  then show ?thesis using assms(1) unfolding segs_ok_def list_all_iff by blast
qed

lemma backs_mark_verified:
  "g \<in> set segs \<Longrightarrow> backs g m \<Longrightarrow> \<exists>g' \<in> set (mark_verified i gen t segs). backs g' m"
  by (rule bexI [of _ "if sg_segment_id g = i then g\<lparr>sg_status := SEG_VERIFIED, sg_generation := gen, sg_verified_at := Some t\<rparr> else g"])
     (auto simp: backs_def seg_covers_def manifest_ids_def mark_verified_def)

lemma backs_mark_failed:
  "g \<in> set segs \<Longrightarrow> backs g m \<Longrightarrow> sg_segment_id g \<noteq> i \<Longrightarrow> \<exists>g' \<in> set (mark_segment_failed i segs). backs g' m"
  by (rule bexI [of _ g]) (auto simp: mark_segment_failed_def)

lemma seg_covers_sorted:
  assumes "built_from env hash orig st g ms" and "m \<in> set ms"
  shows "seg_covers g (ms_sequence m)"
proof -
  have s: "sorted (map ms_sequence ms)" "ms \<noteq> []" using assms(1) by (auto simp: built_from_def)
  have "ms_sequence (hd ms) \<le> ms_sequence m" using s assms(2) by (cases ms) auto
  moreover have "ms_sequence m \<le> ms_sequence (last ms)"
    using s assms(2) by (cases ms rule: rev_cases) (auto simp: sorted_append)
  ultimately show ?thesis using assms(1) by (simp add: seg_covers_def built_from_def)
qed

end
