(* ===== verification/Archive_Safety.thy ===== *)
theory Archive_Safety
  imports Archive_Inv
begin

text \<open>
  Every operation of the archive keeps the invariant, whatever blob store honours the port's contract and
  wherever an outage or a crash cuts it short; reconciliation keeps it as long as no purged message is
  listed by a segment that is not verified. Then a purged message is read back as it was written.
\<close>

definition good_plan :: "(string \<Rightarrow> string) \<Rightarrow> (string \<times> string \<times> string \<times> nat \<times> string) set \<Rightarrow> string \<Rightarrow> string \<Rightarrow> Message list \<Rightarrow> bool" where
  "good_plan orig st t i ms \<longleftrightarrow> ms \<noteq> [] \<and> list_all plain_message ms \<and> sorted (map ms_sequence ms) \<and>
     list_all (\<lambda>m. static_of m \<in> st \<and> ms_content m = orig (ms_message_id m) \<and> ms_tenant_id m = t \<and> ms_thread_id m = i) ms"

definition same_codec :: "archive_env \<Rightarrow> archive_env \<Rightarrow> bool" where
  "same_codec env env' \<longleftrightarrow> ae_compress env = ae_compress env' \<and> ae_decompress env = ae_decompress env' \<and>
     ae_sha256 env = ae_sha256 env'"

lemma texts_ok_row_unique:
  "texts_ok orig segs db \<Longrightarrow> r \<in> set (cv_messages db) \<Longrightarrow> r' \<in> set (cv_messages db) \<Longrightarrow> row_id r = row_id r' \<Longrightarrow> r = r'"
  by (auto simp: texts_ok_def distinct_map inj_on_def)

lemma new_segment_built:
  assumes "build_segment env u t i shards ms = Inr b" and "good_plan orig st t i ms"
    and "ae_compress env = ae_compress env0" and "ae_sha256 env = hash"
  shows "built_from env0 hash orig st (new_segment env cfg t i n b) ms"
  using build_segment_Inr [OF assms(1)] assms(2-4)
  by (auto simp: built_from_def good_plan_def new_segment_def manifest_ids_def list_all_iff)

lemma fail_ok:
  assumes ok: "archive_ok obj hash env cfg orig a"
    and unverified: "\<And>g. g \<in> set (av_segments a) \<Longrightarrow> sg_segment_id g = i \<Longrightarrow> sg_status g \<noteq> SEG_VERIFIED"
  shows "archive_ok obj hash env cfg orig (fail_segment i a)"
proof -
  have "texts_ok orig (mark_segment_failed i (av_segments a)) (av_db a)"
  proof (rule texts_ok_more_segments)
    show "texts_ok orig (av_segments a) (av_db a)" using ok by (simp add: archive_ok_def)
    fix g m assume "g \<in> set (av_segments a)" "backs g m"
    moreover then have "sg_segment_id g \<noteq> i" using unverified by (auto simp: backs_def)
    ultimately show "\<exists>g' \<in> set (mark_segment_failed i (av_segments a)). backs g' m" by (rule backs_mark_failed)
  qed
  then show ?thesis using ok by (simp add: archive_ok_def fail_segment_def segs_ok_mark_failed)
qed

lemma close_ok:
  assumes ok: "archive_ok obj hash env cfg orig a" and g: "g \<in> set (av_segments a)"
    and at: "obj (av_blob a) (sg_bucket g) (sg_key g) = Some (d, ref)"
    and up: "unpurged (av_db a) (manifest_ids g)"
  shows "archive_ok obj hash env cfg orig (close_segment now (sg_segment_id g) (bl_generation ref) (manifest_ids g) a)"
proof -
  let ?segs = "mark_verified (sg_segment_id g) (bl_generation ref) now (av_segments a)"
  let ?g = "g\<lparr>sg_status := SEG_VERIFIED, sg_generation := bl_generation ref, sg_verified_at := Some now\<rparr>"
  have segs: "segs_ok env hash (ac_chat_bucket cfg) orig (set (statics (av_db a))) (obj (av_blob a)) (av_segments a)"
    and db: "texts_ok orig (av_segments a) (av_db a)" using ok by (simp_all add: archive_ok_def)
  obtain ms where ms: "built_from env hash orig (set (statics (av_db a))) g ms"
    using segs g by (auto simp: segs_ok_def list_all_iff seg_ok_def)
  have "texts_ok orig ?segs (mark_archived (manifest_ids g) (sg_segment_id g) now (av_db a))"
  proof (rule mark_archived_texts_ok [OF _ up])
    show db': "texts_ok orig ?segs (av_db a)" using db backs_mark_verified by (rule texts_ok_more_segments)
    fix r assume r: "r \<in> set (cv_messages (av_db a))" "row_id r \<in> set (manifest_ids g)"
    then obtain m where m: "m \<in> set ms" "ms_message_id m = row_id r" using ms by (auto simp: built_from_def)
    then have "static_of m \<in> set (statics (av_db a))" using ms by (auto simp: built_from_def list_all_iff)
    then obtain r' where r': "r' \<in> set (cv_messages (av_db a))" "static_of (mr_message r') = static_of m"
      by (auto simp: statics_def)
    then have "r' = r" using texts_ok_row_unique [OF db r'(1) r(1)] m(2) by (simp add: static_of_def)
    then have same: "static_of (mr_message r) = static_of m" using r' by simp
    have "?g \<in> set ?segs" using g by (auto simp: mark_verified_def)
    moreover have "backs ?g m"
      using ms m r(2) seg_covers_sorted [OF ms m(1)]
      by (auto simp: backs_def seg_covers_def built_from_def list_all_iff manifest_ids_def)
    ultimately show "\<exists>g \<in> set ?segs. backs g (mr_message r)" using backs_static [OF same] by blast
  qed
  moreover have "segs_ok env hash (ac_chat_bucket cfg) orig (set (statics (av_db a))) (obj (av_blob a)) ?segs"
    using segs g at by (rule segs_ok_mark_verified)
  ultimately show ?thesis by (simp add: archive_ok_def close_segment_def)
qed

subsection \<open>Archiving\<close>

text \<open>What an operation leaves as it was: the messages' identities, and no message is purged by it.\<close>

definition settled :: "'b archive \<Rightarrow> 'b archive \<Rightarrow> bool" where
  "settled a a' \<longleftrightarrow> statics (av_db a') = statics (av_db a) \<and> (\<forall>ids. unpurged (av_db a) ids \<longrightarrow> unpurged (av_db a') ids)"

lemma settled_refl [simp]: "settled a a"
  by (simp add: settled_def)

lemma settled_trans: "settled a b \<Longrightarrow> settled b c \<Longrightarrow> settled a c"
  by (simp add: settled_def)

lemma settled_close [simp]: "settled a (close_segment now i gen ids a)"
  by (simp add: settled_def close_segment_def unpurged_mark_archived)

lemma settled_fail [simp]: "settled a (fail_segment i a)"
  by (simp add: settled_def fail_segment_def)

lemma settled_db: "av_db a' = av_db a \<Longrightarrow> settled a a'"
  by (simp add: settled_def)

subsection \<open>The plan of a thread\<close>

definition thread_plans :: "ArchiveSettings \<Rightarrow> string \<Rightarrow> string \<Rightarrow> conv_db \<Rightarrow> Message list list" where
  "thread_plans cfg t i db =
     plan_segments (ac_segment_target_bytes cfg) (ac_segment_max_messages cfg)
       (sort_key ms_sequence (list_staged None (ac_segment_max_messages cfg * 4) (Some t) (Some i) db))"

lemma list_staged_rows:
  assumes "m \<in> set (list_staged older lim (Some t) (Some i) db)"
  shows "\<exists>r \<in> set (cv_messages db). m = with_attachments db r \<and> row_status r = AS_STAGED \<and>
    ms_tenant_id (mr_message r) = t \<and> ms_thread_id (mr_message r) = i"
  using assms by (auto simp: list_staged_def dest!: in_set_takeD)

lemma with_attachments_simps [simp]: "ms_message_id (with_attachments db r) = row_id r"
  "ms_tenant_id (with_attachments db r) = ms_tenant_id (mr_message r)"
  "ms_thread_id (with_attachments db r) = ms_thread_id (mr_message r)"
  "ms_sequence (with_attachments db r) = ms_sequence (mr_message r)"
  "ms_content_hash (with_attachments db r) = ms_content_hash (mr_message r)"
  "ms_archive_status (with_attachments db r) = row_status r"
  "ms_content (with_attachments db r) = or_empty (mr_content r)"
  by (simp_all add: with_attachments_def row_to_message_def)

lemma sorted_concat_each: "sorted (map f (concat ps)) \<Longrightarrow> p \<in> set ps \<Longrightarrow> sorted (map f p)"
  by (induction ps) (auto simp: sorted_append)

lemma thread_plans_good:
  assumes db: "texts_ok orig segs db"
  shows "list_all (good_plan orig (set (statics db)) t i) (thread_plans cfg t i db) \<and>
    unpurged db (map ms_message_id (concat (thread_plans cfg t i db)))"
proof -
  let ?st = "list_staged None (ac_segment_max_messages cfg * 4) (Some t) (Some i) db" and ?ps = "thread_plans cfg t i db"
  have cat: "concat ?ps = sort_key ms_sequence ?st" and fit: "\<And>p. p \<in> set ?ps \<Longrightarrow> p \<noteq> []"
    using plan_segments_partition unfolding thread_plans_def list_all_iff fits_def by blast+
  have each: "plain_message m \<and> static_of m \<in> set (statics db) \<and> ms_content m = orig (ms_message_id m) \<and>
      ms_tenant_id m = t \<and> ms_thread_id m = i" if m: "m \<in> set ?st" for m
  proof -
    obtain r where r: "r \<in> set (cv_messages db)" "m = with_attachments db r" "row_status r = AS_STAGED"
      "ms_tenant_id (mr_message r) = t" "ms_thread_id (mr_message r) = i" using list_staged_rows [OF m] by blast
    moreover have "plain_message m" using db r by (auto simp: texts_ok_def plain_db_def)
    moreover have "mr_content r = Some (orig (row_id r))" using db r by (auto simp: texts_ok_def list_all_iff row_ok_def)
    moreover have "static_of m \<in> set (statics db)" using r by (auto simp: statics_def)
    ultimately show ?thesis by simp
  qed
  have mem: "m \<in> set ?st" if "m \<in> set p" "p \<in> set ?ps" for m p
  proof -
    have "m \<in> set (concat ?ps)" using that by auto
    then show ?thesis by (simp add: cat)
  qed
  have "good_plan orig (set (statics db)) t i p" if p: "p \<in> set ?ps" for p
  proof -
    have "sorted (map ms_sequence (concat ?ps))" unfolding cat by (rule sorted_sort_key)
    then have "sorted (map ms_sequence p)" using p by (rule sorted_concat_each)
    then show ?thesis using each mem [OF _ p] fit [OF p] by (simp add: good_plan_def list_all_iff)
  qed
  moreover have "unpurged db (map ms_message_id (concat ?ps))"
    unfolding unpurged_def list_all_iff
  proof (intro ballI impI)
    fix r assume r: "r \<in> set (cv_messages db)" "row_id r \<in> set (map ms_message_id (concat ?ps))"
    then obtain m where m: "m \<in> set ?st" "ms_message_id m = row_id r" by (auto simp: cat)
    obtain r' where r': "r' \<in> set (cv_messages db)" "m = with_attachments db r'" "row_status r' = AS_STAGED"
      using list_staged_rows [OF m(1)] by blast
    then have "r' = r" using texts_ok_row_unique [OF db r'(1) r(1)] m(2) by simp
    then show "row_status r \<noteq> AS_PURGED" using r'(3) by simp
  qed
  ultimately show ?thesis by (simp add: list_all_iff)
qed

context blob_contract
begin

lemma open_ok:
  assumes ok: "archive_ok obj hash env cfg orig a" and run: "open_segment g a = (Inr (), a')"
    and g: "sg_bucket g = ac_chat_bucket cfg" "sg_status g = SEG_UPLOADING"
    and ms: "built_from env hash orig (set (statics (av_db a))) g ms"
  shows "archive_ok obj hash env cfg orig a' \<and> av_segments a' = av_segments a @ [g] \<and> av_db a' = av_db a \<and>
    av_blob a' = av_blob a \<and> obj (av_blob a) (ac_chat_bucket cfg) (sg_key g) = None \<and>
    sg_segment_id g \<notin> sg_segment_id ` set (av_segments a)"
proof -
  obtain rows where rows: "segments_add g (av_segments a) = Inr rows" and a': "a' = a\<lparr>av_segments := rows\<rparr>"
    using run by (auto simp: open_segment_def split: sum.splits)
  have segs: "segs_ok env hash (ac_chat_bucket cfg) orig (set (statics (av_db a))) (obj (av_blob a)) (av_segments a)"
    and db: "texts_ok orig (av_segments a) (av_db a)" using ok by (simp_all add: archive_ok_def)
  have new: "segs_ok env hash (ac_chat_bucket cfg) orig (set (statics (av_db a))) (obj (av_blob a)) rows"
    "obj (av_blob a) (ac_chat_bucket cfg) (sg_key g) = None" "rows = av_segments a @ [g]"
    "sg_segment_id g \<notin> sg_segment_id ` set (av_segments a)"
    using segs_ok_add [OF segs rows g ms] by blast+
  have "texts_ok orig rows (av_db a)" using db by (rule texts_ok_more_segments) (auto simp: new(3))
  then show ?thesis using new by (simp add: archive_ok_def a')
qed

lemma upload_ok:
  assumes ok: "archive_ok obj hash env cfg orig a" and run: "upload port cfg b a = (res, a')"
    and g: "g \<in> set (av_segments a)" "sg_bucket g = ac_chat_bucket cfg" "sg_key g = bu_key b"
    and new: "obj (av_blob a) (ac_chat_bucket cfg) (bu_key b) = None"
    and ms: "built_from env hash orig (set (statics (av_db a))) g ms" and d: "bu_data b = ae_compress env (segment_raw ms)"
  shows "archive_ok obj hash env cfg orig a' \<and> av_segments a' = av_segments a \<and> av_db a' = av_db a \<and>
    (\<forall>ref. res = Inr (ref, True) \<longrightarrow> obj (av_blob a') (sg_bucket g) (sg_key g) = Some (bu_data b, ref))"
proof -
  obtain x s1 where put: "bs_put port (ac_chat_bucket cfg) (bu_key b) (bu_data b) (Some (bu_checksum_sha256 b)) (Some 0) (av_blob a) = (x, s1)"
    by fastforce
  have segs: "segs_ok env hash (ac_chat_bucket cfg) orig (set (statics (av_db a))) (obj (av_blob a)) (av_segments a)"
    and db: "texts_ok orig (av_segments a) (av_db a)" using ok by (simp_all add: archive_ok_def)
  show ?thesis
  proof (cases x)
    case (Inl e)
    then have "obj s1 = obj (av_blob a)" using put_refused put by simp
    moreover have "a' = a\<lparr>av_blob := s1\<rparr>" "res = Inl e" using run put Inl by (auto simp: upload_def)
    ultimately show ?thesis using segs db by (simp add: archive_ok_def)
  next
    case (Inr ref)
    obtain v s2 where ver: "bs_verify port ref s1 = (v, s2)" by fastforce
    have a': "a' = a\<lparr>av_blob := s2\<rparr>" and res: "res = (case v of Inl e \<Rightarrow> Inl e | Inr f \<Rightarrow> Inr (ref, f))"
      using run put Inr ver by (auto simp: upload_def split: sum.splits)
    have created: "obj s1 = (\<lambda>b' k'. if b' = ac_chat_bucket cfg \<and> k' = bu_key b then Some (bu_data b, ref) else obj (av_blob a) b' k')"
      "bl_checksum_sha256 ref = hash (bu_data b)"
      using put_creates put Inr by blast+
    have s2: "obj s2 = obj s1" using verify_keeps ver by blast
    have "segs_ok env hash (ac_chat_bucket cfg) orig (set (statics (av_db a))) (obj s2) (av_segments a)"
      unfolding s2 created(1) using segs g new ms d created(2) by (rule segs_ok_put)
    moreover have "obj s2 (sg_bucket g) (sg_key g) = Some (bu_data b, ref)" using s2 created(1) g by simp
    ultimately show ?thesis using db a' res by (auto simp: archive_ok_def split: sum.splits)
  qed
qed

lemma archive_messages_ok:
  assumes ok: "archive_ok obj hash env0 cfg orig a"
    and run: "archive_messages port env cfg u t i ms a = (r, a')"
    and codec: "same_codec env env0" "ae_sha256 env0 = hash"
    and plan: "good_plan orig (set (statics (av_db a))) t i ms" and up: "unpurged (av_db a) (map ms_message_id ms)"
  shows "archive_ok obj hash env0 cfg orig a' \<and> settled a a'"
proof (cases "build_segment env u t i (ac_tenant_shards cfg) ms")
  case (Inl e)
  then show ?thesis using run ok by (auto simp: archive_messages_def)
next
  case (Inr b)
  let ?g = "new_segment env cfg t i (length ms) b"
  have env: "ae_compress env = ae_compress env0" "ae_sha256 env = hash" using codec by (simp_all add: same_codec_def)
  have built: "built_from env0 hash orig (set (statics (av_db a))) ?g ms" using new_segment_built [OF Inr plan env] .
  have data: "bu_data b = ae_compress env0 (segment_raw ms)" "manifest_ids ?g = bu_message_ids b" "bu_message_ids b = map ms_message_id ms"
    using build_segment_Inr [OF Inr] env by (simp_all add: new_segment_def manifest_ids_def)
  have g: "sg_bucket ?g = ac_chat_bucket cfg" "sg_status ?g = SEG_UPLOADING" "sg_key ?g = bu_key b" "sg_segment_id ?g = bu_segment_id b"
    by (simp_all add: new_segment_def)
  obtain x a1 where o1: "open_segment ?g a = (x, a1)" by fastforce
  show ?thesis
  proof (cases x)
    case (Inl e)
    then have "a' = a1" "a1 = a" using run Inr o1 by (auto simp: archive_messages_def open_segment_def split: sum.splits)
    then show ?thesis using ok by simp
  next
    case (Inr y)
    then have o1: "open_segment ?g a = (Inr (), a1)" using o1 by simp
    have a1: "archive_ok obj hash env0 cfg orig a1" "av_segments a1 = av_segments a @ [?g]" "av_db a1 = av_db a"
      "obj (av_blob a1) (ac_chat_bucket cfg) (bu_key b) = None" "bu_segment_id b \<notin> sg_segment_id ` set (av_segments a)"
      using open_ok [OF ok o1 g(1,2) built] g by simp_all
    obtain res a2 where u2: "upload port cfg b a1 = (res, a2)" by fastforce
    have a2: "archive_ok obj hash env0 cfg orig a2" "av_segments a2 = av_segments a1" "av_db a2 = av_db a1"
      "\<And>ref. res = Inr (ref, True) \<Longrightarrow> obj (av_blob a2) (sg_bucket ?g) (sg_key ?g) = Some (bu_data b, ref)"
      using upload_ok [OF a1(1) u2 _ g(1,3) a1(4) _ data(1)] a1 built by auto
    have only: "h = ?g" if "h \<in> set (av_segments a2)" "sg_segment_id h = bu_segment_id b" for h
      using that a1(2,5) a2(2) by (auto simp: image_iff)
    have fail: "archive_ok obj hash env0 cfg orig (fail_segment (bu_segment_id b) a2)"
      using a2(1) only g(2) by (intro fail_ok) auto
    have settled: "settled a a2" using a1(3) a2(3) by (intro settled_db) simp
    have close: "archive_ok obj hash env0 cfg orig (close_segment (ae_now env) (bu_segment_id b) (bl_generation ref) (bu_message_ids b) a2)"
      if "res = Inr (ref, True)" for ref
    proof -
      have "?g \<in> set (av_segments a2)" using a1(2) a2(2) by simp
      moreover have "unpurged (av_db a2) (manifest_ids ?g)" using up data a1(3) a2(3) by simp
      ultimately show ?thesis using close_ok [OF a2(1) _ a2(4) [OF that]] g data(2) by metis
    qed
    have "a' = fail_segment (bu_segment_id b) a2 \<or>
        (\<exists>ref. res = Inr (ref, True) \<and> a' = close_segment (ae_now env) (bu_segment_id b) (bl_generation ref) (bu_message_ids b) a2)"
      using run \<open>build_segment env u t i (ac_tenant_shards cfg) ms = Inr b\<close> o1 u2
      by (auto simp: archive_messages_def split: sum.splits prod.splits if_splits)
    then show ?thesis using fail close settled settled_trans [OF settled] by auto
  qed
qed

lemma archive_plans_ok:
  "archive_ok obj hash env0 cfg orig a \<Longrightarrow> archive_plans port env cfg k t i ps a = (r, a') \<Longrightarrow>
   same_codec env env0 \<Longrightarrow> ae_sha256 env0 = hash \<Longrightarrow>
   list_all (good_plan orig (set (statics (av_db a))) t i) ps \<Longrightarrow> unpurged (av_db a) (map ms_message_id (concat ps)) \<Longrightarrow>
   archive_ok obj hash env0 cfg orig a' \<and> settled a a'"
proof (induction ps arbitrary: k a r a')
  case (Cons p ps)
  obtain x a1 where one: "archive_messages port env cfg (ae_ulid env k) t i p a = (x, a1)" by fastforce
  have a1: "archive_ok obj hash env0 cfg orig a1" "settled a a1"
    using archive_messages_ok [OF Cons.prems(1) one Cons.prems(3,4)] Cons.prems(5,6) by (simp_all add: unpurged_append)
  show ?case
  proof (cases x)
    case (Inl e)
    then show ?thesis using Cons.prems(2) one a1 by simp
  next
    case (Inr g)
    obtain y a2 where rest: "archive_plans port env cfg (k + 1) t i ps a1 = (y, a2)" by fastforce
    have "archive_ok obj hash env0 cfg orig a2 \<and> settled a1 a2"
      using Cons.prems(3-6) a1 by (intro Cons.IH [OF a1(1) rest]) (auto simp: settled_def unpurged_append)
    moreover have "a' = a2" using Cons.prems(2) one Inr rest by (auto split: sum.splits)
    ultimately show ?thesis using settled_trans [OF a1(2)] by blast
  qed
qed simp

lemma archive_thread_ok:
  assumes ok: "archive_ok obj hash env0 cfg orig a"
    and run: "archive_thread port env cfg t i a = (r, a')"
    and codec: "same_codec env env0" "ae_sha256 env0 = hash"
  shows "archive_ok obj hash env0 cfg orig a' \<and> settled a a'"
proof -
  have db: "texts_ok orig (av_segments a) (av_db a)" using ok by (simp add: archive_ok_def)
  let ?ps = "thread_plans cfg t i (av_db a)"
  have "list_all (good_plan orig (set (statics (av_db a))) t i) ?ps" "unpurged (av_db a) (map ms_message_id (concat ?ps))"
    using thread_plans_good [OF db] by blast+
  moreover have "(a' = a \<and> r = Inr []) \<or> archive_plans port env cfg 0 t i ?ps a = (r, a')"
    using run by (auto simp: archive_thread_def thread_plans_def Let_def split: if_splits)
  ultimately show ?thesis using archive_plans_ok [OF ok _ codec] ok by auto
qed

text \<open>A crash after the manifest row of the next segment, or after its upload.\<close>

lemma crash_ok:
  assumes ok: "archive_ok obj hash env0 cfg orig a" and codec: "same_codec env env0" "ae_sha256 env0 = hash"
    and before: "archive_plans port env cfg 0 t i (take k (thread_plans cfg t i (av_db a))) a = (r, a1)"
    and k: "k < length (thread_plans cfg t i (av_db a))" "p = thread_plans cfg t i (av_db a) ! k"
    and b: "build_segment env u t i (ac_tenant_shards cfg) p = Inr b"
    and o2: "open_segment (new_segment env cfg t i (length p) b) a1 = (Inr (), a2)"
    and u3: "upload port cfg b a2 = (res, a3)"
  shows "archive_ok obj hash env0 cfg orig a2 \<and> archive_ok obj hash env0 cfg orig a3 \<and> settled a a2 \<and> settled a a3"
proof -
  let ?ps = "thread_plans cfg t i (av_db a)" and ?g = "new_segment env cfg t i (length p) b"
  have db: "texts_ok orig (av_segments a) (av_db a)" using ok by (simp add: archive_ok_def)
  have good: "list_all (good_plan orig (set (statics (av_db a))) t i) ?ps" "unpurged (av_db a) (map ms_message_id (concat ?ps))"
    using thread_plans_good [OF db] by blast+
  then have p: "good_plan orig (set (statics (av_db a))) t i p" using k by (simp add: list_all_length)
  have split: "concat ?ps = concat (take k ?ps) @ concat (drop k ?ps)" by (metis append_take_drop_id concat_append)
  have a1: "archive_ok obj hash env0 cfg orig a1" "settled a a1"
    using archive_plans_ok [OF ok before codec] good split
    by (auto simp: list_all_iff unpurged_append dest: in_set_takeD)
  have env: "ae_compress env = ae_compress env0" "ae_sha256 env = hash" using codec by (simp_all add: same_codec_def)
  have st: "statics (av_db a1) = statics (av_db a)" using a1(2) by (simp add: settled_def)
  have built: "built_from env0 hash orig (set (statics (av_db a1))) ?g p"
    using new_segment_built [OF b _ env] p st by simp
  have g: "sg_bucket ?g = ac_chat_bucket cfg" "sg_status ?g = SEG_UPLOADING" "sg_key ?g = bu_key b" by (simp_all add: new_segment_def)
  have a2: "archive_ok obj hash env0 cfg orig a2" "av_segments a2 = av_segments a1 @ [?g]" "av_db a2 = av_db a1"
    "obj (av_blob a2) (ac_chat_bucket cfg) (bu_key b) = None"
    using open_ok [OF a1(1) o2 g(1,2) built] g by simp_all
  have a3: "archive_ok obj hash env0 cfg orig a3" "av_db a3 = av_db a2"
    using upload_ok [OF a2(1) u3 _ g(1,3) a2(4)] a2 built build_segment_Inr [OF b] env by auto
  show ?thesis using a1(2) a2 a3 by (simp add: settled_def)
qed

lemma archive_purge_ok:
  assumes "archive_ok obj hash env0 cfg orig a" and "purge_staged_payloads now cfg lim a = (n, a')"
  shows "archive_ok obj hash env0 cfg orig a'"
proof -
  obtain db where p: "purge_payloads (now - secs (int (ac_purge_grace_seconds cfg))) (ac_purge_min_payload_bytes cfg) lim (av_db a) = (n, db)"
    and a': "a' = a\<lparr>av_db := db\<rparr>"
    using assms(2) by (auto simp: purge_staged_payloads_def split: prod.splits)
  then show ?thesis using assms(1) purge_texts_ok [OF _ p] statics_purge [OF p] by (simp add: archive_ok_def)
qed

end

end
