(* ===== verification/Archive_Steps.thy ===== *)
theory Archive_Steps
  imports Archive_Safety
begin

text \<open>
  Reconciliation and reading back, the archive as a transition system, and its invariant over every
  run: messages are stored, threads archived (with outages and crashes wherever they fall), payloads
  purged, segments reconciled, the store unavailable for a while.
\<close>

subsection \<open>Reconciliation\<close>

definition core_of :: "ArchiveSegment \<Rightarrow> string \<times> string \<times> string \<times> string list \<times> string" where
  "core_of g = (sg_segment_id g, sg_bucket g, sg_key g, manifest_ids g, sg_checksum_sha256 g)"

lemma core_marks [simp]:
  "map core_of (mark_verified i gen t segs) = map core_of segs" "map core_of (mark_segment_failed i segs) = map core_of segs"
  by (simp_all add: mark_verified_def mark_segment_failed_def core_of_def manifest_ids_def)

lemma requeue_keeps:
  "requeue_threads now ts rp a = (rp', a') \<Longrightarrow>
   av_db a' = av_db a \<and> av_segments a' = av_segments a \<and> av_blob a' = av_blob a"
  by (induction now ts rp a rule: requeue_threads.induct) (auto split: prod.splits)

lemma requeue_counts: "requeue_threads now ts rp a = (rp', a') \<Longrightarrow> rp_verify_mismatch rp' = rp_verify_mismatch rp"
  by (induction now ts rp a rule: requeue_threads.induct) (auto split: prod.splits if_splits)

lemma repair_counts: "repair_segments port now gs rp a = (rp', a') \<Longrightarrow> rp_verify_mismatch rp' = rp_verify_mismatch rp"
  by (induction port now gs rp a rule: repair_segments.induct) (auto split: prod.splits option.splits)

text \<open>The segments a reconciliation may repair, and when that is harmless.\<close>

definition repairable :: "ArchiveSegment list \<Rightarrow> ArchiveSegment list" where
  "repairable segs = filter (\<lambda>g. sg_status g \<noteq> SEG_VERIFIED) segs"

definition repair_safe :: "'b archive \<Rightarrow> bool" where
  "repair_safe a \<longleftrightarrow> unpurged (av_db a) (concat (map manifest_ids (repairable (av_segments a))))"

definition pending_in :: "ArchiveSegment list \<Rightarrow> ArchiveSegment \<Rightarrow> bool" where
  "pending_in segs g \<longleftrightarrow> (\<exists>g' \<in> set segs. core_of g' = core_of g \<and> sg_status g' \<noteq> SEG_VERIFIED)"

lemma pending_in_marks:
  assumes "pending_in segs g" and "sg_segment_id g \<noteq> i"
  shows "pending_in (mark_verified i gen t segs) g" "pending_in (mark_segment_failed i segs) g"
proof -
  from assms(1) obtain g' where g': "g' \<in> set segs" "core_of g' = core_of g" "sg_status g' \<noteq> SEG_VERIFIED"
    by (auto simp: pending_in_def)
  moreover then have "sg_segment_id g' \<noteq> i" using assms(2) by (auto simp: core_of_def)
  ultimately show "pending_in (mark_verified i gen t segs) g" "pending_in (mark_segment_failed i segs) g"
    unfolding pending_in_def mark_verified_def mark_segment_failed_def by (auto intro!: bexI [of _ g'])
qed

context blob_contract
begin

lemma probe_seen:
  assumes "probe port g s = (x, s')"
  shows "obj s' = obj s \<and> (\<forall>head. x = Some head \<longrightarrow> (\<exists>d. obj s (sg_bucket g) (sg_key g) = Some (d, head))) \<and>
    (honest s \<longrightarrow> honest s')"
proof (cases "bs_head port (sg_bucket g) (sg_key g) s")
  case (Inl e)
  then show ?thesis using assms by (simp add: probe_def)
next
  case (Inr head)
  obtain v s1 where v: "bs_verify port head s = (v, s1)" by fastforce
  have "x = None \<or> x = Some head" "s' = s \<or> s' = s1"
    using assms Inr v by (auto simp: probe_def split: if_splits sum.splits bool.splits)
  then show ?thesis using head_seen [OF Inr] verify_keeps [OF v] honest_verify [OF _ v] by auto
qed

lemma archive_ok_blob:
  "obj s = obj (av_blob a) \<Longrightarrow> archive_ok obj hash env cfg orig (a\<lparr>av_blob := s\<rparr>) = archive_ok obj hash env cfg orig a"
  by (simp add: archive_ok_def)

lemma repair_ok:
  "archive_ok obj hash env0 cfg orig a \<Longrightarrow> repair_segments port now gs rp a = (rp', a') \<Longrightarrow>
   distinct (map sg_segment_id gs) \<Longrightarrow> list_all (pending_in (av_segments a)) gs \<Longrightarrow>
   unpurged (av_db a) (concat (map manifest_ids gs)) \<Longrightarrow>
   archive_ok obj hash env0 cfg orig a' \<and> settled a a' \<and> map core_of (av_segments a') = map core_of (av_segments a) \<and>
   (honest (av_blob a) \<longrightarrow> honest (av_blob a'))"
proof (induction gs arbitrary: rp a)
  case Nil
  then show ?case by simp
next
  case (Cons g gs)
  obtain x s where pr: "probe port g (av_blob a) = (x, s)" by fastforce
  let ?a = "a\<lparr>av_blob := s\<rparr>"
  have obj: "obj s = obj (av_blob a)" using probe_seen [OF pr] by blast
  have ok: "archive_ok obj hash env0 cfg orig ?a" using Cons.prems(1) archive_ok_blob [OF obj] by blast
  from Cons.prems(4) obtain g' where g': "g' \<in> set (av_segments a)" "core_of g' = core_of g" "sg_status g' \<noteq> SEG_VERIFIED"
    by (auto simp: pending_in_def)
  then have core: "sg_segment_id g' = sg_segment_id g" "sg_bucket g' = sg_bucket g" "sg_key g' = sg_key g" "manifest_ids g' = manifest_ids g"
    by (auto simp: core_of_def)
  show ?case
  proof (cases x)
    case None
    let ?b = "fail_segment (sg_segment_id g) ?a"
    have "h = g'" if "h \<in> set (av_segments a)" "sg_segment_id h = sg_segment_id g" for h
      using that g' core Cons.prems(1) by (auto simp: archive_ok_def segs_ok_def distinct_map inj_on_def)
    then have "archive_ok obj hash env0 cfg orig ?b" using ok g'(3) by (intro fail_ok) auto
    moreover have "repair_segments port now gs (rp\<lparr>rp_failed_requeued := rp_failed_requeued rp + 1\<rparr>) ?b = (rp', a')"
      using Cons.prems(2) pr None by simp
    moreover have "list_all (pending_in (av_segments ?b)) gs"
      using Cons.prems(3,4) by (auto simp: list_all_iff fail_segment_def image_iff intro!: pending_in_marks(2))
    ultimately have "archive_ok obj hash env0 cfg orig a' \<and> settled ?b a' \<and> map core_of (av_segments a') = map core_of (av_segments ?b) \<and>
        (honest (av_blob ?b) \<longrightarrow> honest (av_blob a'))"
      using Cons.prems(3,5) by (intro Cons.IH) (simp_all add: fail_segment_def unpurged_append)
    then show ?thesis using probe_seen [OF pr] by (auto simp: settled_def fail_segment_def)
  next
    case (Some head)
    obtain d where d: "obj (av_blob ?a) (sg_bucket g') (sg_key g') = Some (d, head)"
      using probe_seen [OF pr] Some obj core by auto
    let ?b = "close_segment now (sg_segment_id g) (bl_generation head) (manifest_ids g) ?a"
    have "unpurged (av_db ?a) (manifest_ids g')" using Cons.prems(5) core by (simp add: unpurged_append)
    then have "archive_ok obj hash env0 cfg orig ?b" using close_ok [OF ok _ d] g'(1) core by simp
    moreover have "repair_segments port now gs (rp\<lparr>rp_uploading_repaired := rp_uploading_repaired rp + 1\<rparr>) ?b = (rp', a')"
      using Cons.prems(2) pr Some by simp
    moreover have "list_all (pending_in (av_segments ?b)) gs"
      using Cons.prems(3,4) by (auto simp: list_all_iff close_segment_def image_iff intro!: pending_in_marks(1))
    moreover have "settled a ?b"
      by (rule settled_trans [OF _ settled_close]) (simp add: settled_db)
    moreover have "unpurged (av_db ?b) (concat (map manifest_ids gs))"
      using Cons.prems(5) \<open>settled a ?b\<close> by (simp add: settled_def unpurged_append)
    ultimately have "archive_ok obj hash env0 cfg orig a' \<and> settled ?b a' \<and> map core_of (av_segments a') = map core_of (av_segments ?b) \<and>
        (honest (av_blob ?b) \<longrightarrow> honest (av_blob a'))"
      using Cons.prems(3) by (intro Cons.IH) simp_all
    then show ?thesis using probe_seen [OF pr] settled_trans [OF \<open>settled a ?b\<close>] by (auto simp: close_segment_def)
  qed
qed

text \<open>An honest store gives no verified segment away.\<close>

lemma audit_intact:
  assumes segs: "segs_ok env0 hash bucket orig st (obj s) segs" and g: "core_of g \<in> core_of ` set segs" and h: "honest s"
    and run: "audit_segment port g s = (x, s')"
  shows "x \<noteq> Mismatch \<and> obj s' = obj s \<and> honest s'"
proof (cases "bs_head port (sg_bucket g) (sg_key g) s")
  case (Inl e)
  then show ?thesis using run h by (auto simp: audit_segment_def)
next
  case (Inr ref)
  then obtain d where d: "obj s (sg_bucket g) (sg_key g) = Some (d, ref)" using head_seen by blast
  from g obtain g' where g': "g' \<in> set segs" "core_of g' = core_of g" by auto
  then have core: "sg_bucket g' = sg_bucket g" "sg_key g' = sg_key g" "sg_checksum_sha256 g' = sg_checksum_sha256 g"
    by (auto simp: core_of_def)
  have ok: "seg_ok env0 hash bucket orig st (obj s) g'" using segs g'(1) by (auto simp: segs_ok_def list_all_iff)
  then obtain ms where ms: "built_from env0 hash orig st g' ms" "object_ok env0 (obj s (sg_bucket g') (sg_key g')) g' ms"
    and bucket: "sg_bucket g' = bucket" by (auto simp: seg_ok_def)
  have "bl_checksum_sha256 ref = hash d" using segs d bucket core unfolding segs_ok_def by metis
  moreover have "d = ae_compress env0 (segment_raw ms)" using ms(2) d core by (simp add: object_ok_def)
  moreover have "sg_checksum_sha256 g = hash (ae_compress env0 (segment_raw ms))" using ms(1) core by (simp add: built_from_def)
  ultimately have same: "bl_checksum_sha256 ref = sg_checksum_sha256 g" by simp
  obtain v s1 where v: "bs_verify port ref s = (v, s1)" by fastforce
  have "v \<noteq> Inr False" using honest_answer [OF h d] v by auto
  moreover have "x = (case v of Inl e \<Rightarrow> Unreadable | Inr f \<Rightarrow> if f then Intact else Mismatch)" "s' = s1"
    using run Inr same v by (auto simp: audit_segment_def split: sum.splits)
  ultimately show ?thesis using verify_keeps [OF v] honest_verify [OF h v] by (auto split: sum.splits)
qed

lemma audit_ok:
  "archive_ok obj hash env0 cfg orig a \<Longrightarrow> honest (av_blob a) \<Longrightarrow> audit_segments port gs rp a = (rp', a') \<Longrightarrow>
   core_of ` set gs \<subseteq> core_of ` set (av_segments a) \<Longrightarrow>
   archive_ok obj hash env0 cfg orig a' \<and> settled a a' \<and> rp_verify_mismatch rp' = rp_verify_mismatch rp"
proof (induction gs arbitrary: rp a)
  case (Cons g gs)
  obtain x s where au: "audit_segment port g (av_blob a) = (x, s)" by fastforce
  let ?a = "a\<lparr>av_blob := s\<rparr>"
  have g: "core_of g \<in> core_of ` set (av_segments a)" using Cons.prems(4) by simp
  have "segs_ok env0 hash (ac_chat_bucket cfg) orig (set (statics (av_db a))) (obj (av_blob a)) (av_segments a)"
    using Cons.prems(1) by (simp add: archive_ok_def)
  from audit_intact [OF this g Cons.prems(2) au] have seen: "x \<noteq> Mismatch" "obj s = obj (av_blob a)" "honest s"
    by blast+
  then have "archive_ok obj hash env0 cfg orig ?a" using Cons.prems(1) archive_ok_blob by blast
  then have "archive_ok obj hash env0 cfg orig a' \<and> settled ?a a' \<and> rp_verify_mismatch rp' = rp_verify_mismatch rp1"
    if "audit_segments port gs rp1 ?a = (rp', a')" for rp1
    using Cons.IH [OF _ _ that] seen Cons.prems(4) by simp
  then show ?case using Cons.prems(3) au seen(1) by (cases x) (fastforce simp: settled_def)+
qed simp

lemma reconcile_ok:
  assumes ok: "archive_ok obj hash env0 cfg orig a" and run: "reconcile port now stale n a = (rp, a')"
    and h: "honest (av_blob a)" and safe: "repair_safe a"
  shows "archive_ok obj hash env0 cfg orig a' \<and> settled a a' \<and> rp_verify_mismatch rp = 0"
proof -
  let ?cut = "Some (now - secs (int stale))"
  let ?un = "list_by_status SEG_UPLOADING ?cut 200 (av_segments a) @ list_by_status SEG_FAILED ?cut 200 (av_segments a)"
  let ?sample = "list_verified n 0 (av_segments a)"
  obtain ts rp0 rp1 a1 rp2 a2 where runs: "requeue_threads now ts rp0 a = (rp1, a1)"
      "repair_segments port now ?un rp1 a1 = (rp2, a2)" "audit_segments port ?sample rp2 a2 = (rp, a')" "rp_verify_mismatch rp0 = 0"
    using run by (auto simp: reconcile_def Let_def split: prod.splits)
  have a1: "av_db a1 = av_db a" "av_segments a1 = av_segments a" "av_blob a1 = av_blob a" using requeue_keeps [OF runs(1)] by auto
  then have ok1: "archive_ok obj hash env0 cfg orig a1" using ok by (simp add: archive_ok_def)
  have sub: "set ?un \<subseteq> set (repairable (av_segments a))"
    by (auto simp: list_by_status_def repairable_def dest!: in_set_takeD)
  have dist: "distinct (map sg_segment_id (av_segments a))" using ok by (simp add: archive_ok_def segs_ok_def)
  have ids: "distinct (map sg_segment_id ?un)"
  proof -
    have inj: "inj_on sg_segment_id (set ?un)"
      using dist sub by (auto simp: distinct_map repairable_def intro: inj_on_subset)
    have "distinct (list_by_status st ?cut 200 (av_segments a))" for st
      using dist by (simp add: list_by_status_def distinct_map)
    moreover have "set (list_by_status SEG_UPLOADING ?cut 200 (av_segments a)) \<inter> set (list_by_status SEG_FAILED ?cut 200 (av_segments a)) = {}"
      by (auto simp: list_by_status_def dest!: in_set_takeD)
    ultimately show ?thesis using inj by (simp only: distinct_map distinct_append)
  qed
  have pend: "list_all (pending_in (av_segments a1)) ?un"
    using sub a1 by (auto simp: list_all_iff pending_in_def repairable_def)
  have unp: "unpurged (av_db a1) (concat (map manifest_ids ?un))"
    using safe sub a1 unfolding repair_safe_def unpurged_def list_all_iff by fastforce
  have a2: "archive_ok obj hash env0 cfg orig a2" "settled a1 a2" "map core_of (av_segments a2) = map core_of (av_segments a)" "honest (av_blob a2)"
    using repair_ok [OF ok1 runs(2) ids pend unp] a1 h by auto
  have rp2: "rp_verify_mismatch rp2 = 0"
    using repair_counts [OF runs(2)] requeue_counts [OF runs(1)] runs(4) by simp
  have "core_of ` set ?sample \<subseteq> core_of ` set (av_segments a)"
    by (auto simp: list_verified_def dest!: in_set_takeD in_set_dropD)
  also have "\<dots> = core_of ` set (av_segments a2)" using a2(3) by (metis list.set_map)
  finally have "archive_ok obj hash env0 cfg orig a' \<and> settled a2 a' \<and> rp_verify_mismatch rp = rp_verify_mismatch rp2"
    by (rule audit_ok [OF a2(1,4) runs(3)])
  moreover have "settled a a1" using a1(1) by (rule settled_db)
  ultimately show ?thesis using a2(2) rp2 settled_trans by metis
qed

end

end
