(* ===== verification/Archive_Props.thy ===== *)
theory Archive_Props
  imports Archive_Steps Conversation_Facts
begin

text \<open>
  The archive as a transition system, what a reader gets in every reachable state, and the properties
  of the archive's parts.
\<close>

subsection \<open>Reading back\<close>

definition stored :: "conv_db \<Rightarrow> Message list" where
  "stored db = map (with_attachments db) (cv_messages db)"

lemma member_record [simp]:
  "member ''message_id'' (message_record m) = Some (JStr (ms_message_id m))"
  "member ''content_hash'' (message_record m) = Some (JStr (ms_content_hash m))"
  "member ''content'' (message_record m) = Some (JStr (ms_content m))"
  by (simp_all add: message_record_def)

lemma record_content_written:
  assumes "\<And>x. x \<in> set ms \<Longrightarrow> ms_message_id x = ms_message_id m \<Longrightarrow> ms_content_hash x = ms_content_hash m \<and> ms_content x = c"
  shows "record_content m (map (\<lambda>m. Inr (message_record m)) ms) =
    Inr (if ms_message_id m \<in> ms_message_id ` set ms then Some c else None)"
  using assms by (induction ms) auto

lemma texts_ok_same_hash:
  assumes "texts_ok orig segs db" and "r \<in> set (cv_messages db)" and "static_of x \<in> set (statics db)" and "ms_message_id x = row_id r"
  shows "ms_content_hash x = ms_content_hash (mr_message r)"
proof -
  from assms(3) obtain r' where "r' \<in> set (cv_messages db)" "static_of (mr_message r') = static_of x" by (auto simp: statics_def)
  moreover then have "r' = r" using texts_ok_row_unique [OF assms(1) _ assms(2)] assms(4) by (simp add: static_of_def)
  ultimately show ?thesis by (simp add: static_of_def)
qed

context blob_contract
begin

lemma scan_reads:
  assumes ok: "archive_ok obj hash env0 cfg orig a" and r: "r \<in> set (cv_messages (av_db a))"
    and up: "up (av_blob a)" and codec: "same_codec env env0" "zstd_ok env0"
    and m: "static_of m = static_of (mr_message r)"
  shows "set gs \<subseteq> set (av_segments a) \<Longrightarrow> \<exists>g \<in> set gs. backs g m \<Longrightarrow>
    scan_segments port env m (av_blob a) gs = Inr (orig (row_id r))"
proof (induction gs)
  case (Cons g gs)
  have texts: "texts_ok orig (av_segments a) (av_db a)"
    and segs: "segs_ok env0 hash (ac_chat_bucket cfg) orig (set (statics (av_db a))) (obj (av_blob a)) (av_segments a)"
    using ok by (simp_all add: archive_ok_def)
  show ?case
  proof (cases "sg_status g = SEG_VERIFIED \<and> seg_covers g (ms_sequence m)")
    case False
    then have "\<not> backs g m" by (auto simp: backs_def)
    then show ?thesis using False Cons by auto
  next
    case True
    have "seg_ok env0 hash (ac_chat_bucket cfg) orig (set (statics (av_db a))) (obj (av_blob a)) g"
      using segs Cons.prems(1) by (auto simp: segs_ok_def list_all_iff)
    then obtain ms where ms: "built_from env0 hash orig (set (statics (av_db a))) g ms"
      "object_ok env0 (obj (av_blob a) (sg_bucket g) (sg_key g)) g ms" by (auto simp: seg_ok_def)
    obtain d ref where d: "obj (av_blob a) (sg_bucket g) (sg_key g) = Some (d, ref)" "bl_generation ref = sg_generation g"
      "d = ae_compress env0 (segment_raw ms)"
      using ms(2) True by (auto simp: object_ok_def split: option.splits)
    have get: "bs_get port (sg_bucket g) (sg_key g) (sg_generation g) (av_blob a) = Inr d"
      using get_reads [OF d(1) up] d(2) by metis
    have env: "zstd_ok env" "ae_compress env = ae_compress env0" using codec by (simp_all add: same_codec_def zstd_ok_def)
    have records: "read_segment env d = Inr (map (\<lambda>m. Inr (message_record m)) ms)"
      using read_plain [OF env(1), of ms] ms(1) d(3) env(2) by (simp add: built_from_def)
    have "record_content m (map (\<lambda>m. Inr (message_record m)) ms) =
        Inr (if ms_message_id m \<in> ms_message_id ` set ms then Some (orig (row_id r)) else None)"
    proof (rule record_content_written)
      fix x assume x: "x \<in> set ms" "ms_message_id x = ms_message_id m"
      then have "static_of x \<in> set (statics (av_db a))" "ms_content x = orig (ms_message_id x)"
        using ms(1) by (auto simp: built_from_def list_all_iff)
      then show "ms_content_hash x = ms_content_hash m \<and> ms_content x = orig (row_id r)"
        using texts_ok_same_hash [OF texts r] x(2) m by (simp add: static_of_def)
    qed
    moreover have "\<not> backs g m" if "ms_message_id m \<notin> ms_message_id ` set ms"
      using that ms(1) by (auto simp: backs_def built_from_def)
    ultimately show ?thesis using True get records Cons by auto
  qed
qed simp

lemma load_ok:
  assumes ok: "archive_ok obj hash env0 cfg orig a" and r: "r \<in> set (cv_messages (av_db a))"
    and up: "up (av_blob a)" and codec: "same_codec env env0" "zstd_ok env0"
  shows "load_message_content port env (with_attachments (av_db a) r) a = Inr (orig (row_id r))"
proof (cases "row_status r = AS_PURGED")
  case True
  let ?m = "with_attachments (av_db a) r"
  have row: "row_ok orig (av_segments a) r" using ok r by (auto simp: archive_ok_def texts_ok_def list_all_iff)
  then obtain g where g: "g \<in> set (av_segments a)" "backs g (mr_message r)" using True by (auto simp: row_ok_def)
  then have "g \<in> set (list_for_thread (ms_tenant_id ?m) (ms_thread_id ?m) (av_segments a))"
    by (simp add: list_for_thread_def backs_def)
  moreover have "backs g ?m" using g(2) backs_static with_attachments_static by blast
  moreover have "set (list_for_thread (ms_tenant_id ?m) (ms_thread_id ?m) (av_segments a)) \<subseteq> set (av_segments a)"
    by (auto simp: list_for_thread_def)
  ultimately show ?thesis
    using scan_reads [OF ok r up codec with_attachments_static] True by (auto simp: load_message_content_def)
next
  case False
  then show ?thesis using ok r by (auto simp: load_message_content_def archive_ok_def texts_ok_def list_all_iff row_ok_def)
qed

end

subsection \<open>The transition system\<close>

text \<open>
  One run of the archiver may use any clock and any fresh ids; \<open>step_crash\<close> is a crash after the first
  \<open>k\<close> segments and the manifest row of the next, \<open>step_crash_upload\<close> one after its upload. A new message
  may be any message the conversation service stores, without U+0085 in it.
\<close>

inductive archive_step :: "'b BlobStore \<Rightarrow> ('b \<Rightarrow> string \<Rightarrow> string \<Rightarrow> (string \<times> BlobRef) option) \<Rightarrow> ('b \<Rightarrow> bool) \<Rightarrow> archive_env \<Rightarrow>
    ArchiveSettings \<Rightarrow> 'b archive \<Rightarrow> 'b archive \<Rightarrow> bool"
  for port obj honest env0 cfg where
  step_store: "messages_add utf8_len m (av_db a) = Inr db \<Longrightarrow> ms_archive_status m = AS_STAGED \<Longrightarrow> plain_db db \<Longrightarrow>
    archive_step port obj honest env0 cfg a (a\<lparr>av_db := db\<rparr>)"
| step_archive: "same_codec env env0 \<Longrightarrow> archive_thread port env cfg t i a = (r, a') \<Longrightarrow>
    archive_step port obj honest env0 cfg a a'"
| step_crash: "same_codec env env0 \<Longrightarrow> archive_plans port env cfg 0 t i (take k (thread_plans cfg t i (av_db a))) a = (r, a1) \<Longrightarrow>
    k < length (thread_plans cfg t i (av_db a)) \<Longrightarrow> p = thread_plans cfg t i (av_db a) ! k \<Longrightarrow>
    build_segment env u t i (ac_tenant_shards cfg) p = Inr b \<Longrightarrow>
    open_segment (new_segment env cfg t i (length p) b) a1 = (Inr (), a2) \<Longrightarrow>
    archive_step port obj honest env0 cfg a a2"
| step_crash_upload: "same_codec env env0 \<Longrightarrow>
    archive_plans port env cfg 0 t i (take k (thread_plans cfg t i (av_db a))) a = (r, a1) \<Longrightarrow>
    k < length (thread_plans cfg t i (av_db a)) \<Longrightarrow> p = thread_plans cfg t i (av_db a) ! k \<Longrightarrow>
    build_segment env u t i (ac_tenant_shards cfg) p = Inr b \<Longrightarrow>
    open_segment (new_segment env cfg t i (length p) b) a1 = (Inr (), a2) \<Longrightarrow> upload port cfg b a2 = (res, a3) \<Longrightarrow>
    archive_step port obj honest env0 cfg a a3"
| step_purge: "purge_staged_payloads now cfg lim a = (n, a') \<Longrightarrow> archive_step port obj honest env0 cfg a a'"
| step_reconcile: "repair_safe a \<Longrightarrow> honest (av_blob a) \<Longrightarrow> reconcile port now stale n a = (rp, a') \<Longrightarrow>
    archive_step port obj honest env0 cfg a a'"
| step_outage: "obj s = obj (av_blob a) \<Longrightarrow> archive_step port obj honest env0 cfg a (a\<lparr>av_blob := s\<rparr>)"

abbreviation archive_run :: "'b BlobStore \<Rightarrow> ('b \<Rightarrow> string \<Rightarrow> string \<Rightarrow> (string \<times> BlobRef) option) \<Rightarrow> ('b \<Rightarrow> bool) \<Rightarrow> archive_env \<Rightarrow>
    ArchiveSettings \<Rightarrow> 'b archive \<Rightarrow> 'b archive \<Rightarrow> bool" where
  "archive_run port obj honest env0 cfg \<equiv> (archive_step port obj honest env0 cfg)\<^sup>*\<^sup>*"

text \<open>Before anything is archived: no segment, an empty bucket, every message with its text.\<close>

definition archive_init :: "('b \<Rightarrow> string \<Rightarrow> string \<Rightarrow> (string \<times> BlobRef) option) \<Rightarrow> ArchiveSettings \<Rightarrow> 'b archive \<Rightarrow> bool" where
  "archive_init obj cfg a \<longleftrightarrow> av_segments a = [] \<and> (\<forall>k. obj (av_blob a) (ac_chat_bucket cfg) k = None) \<and>
     distinct (map row_id (cv_messages (av_db a))) \<and> plain_db (av_db a) \<and>
     list_all (\<lambda>r. row_status r = AS_STAGED \<and> mr_content r \<noteq> None) (cv_messages (av_db a))"

definition text_of :: "conv_db \<Rightarrow> string \<Rightarrow> string" where
  "text_of db i = (case List.find (\<lambda>r. row_id r = i) (cv_messages db) of None \<Rightarrow> [] | Some r \<Rightarrow> or_empty (mr_content r))"

lemma text_of_row:
  "distinct (map row_id (cv_messages db)) \<Longrightarrow> r \<in> set (cv_messages db) \<Longrightarrow> text_of db (row_id r) = or_empty (mr_content r)"
  using find_key [of row_id "cv_messages db" r] by (simp add: text_of_def)

lemma archive_init_ok: "archive_init obj cfg a \<Longrightarrow> archive_ok obj hash env cfg (text_of (av_db a)) a"
  by (auto simp: archive_init_def archive_ok_def texts_ok_def segs_ok_def list_all_iff row_ok_def text_of_row)

lemma stored_message_ok:
  assumes texts: "texts_ok orig segs db" and add: "messages_add u m db = Inr db'" and m: "ms_archive_status m = AS_STAGED"
    and plain: "plain_db db'"
  shows "texts_ok (orig(ms_message_id m := ms_content m)) segs db' \<and> set (statics db) \<subseteq> set (statics db') \<and>
    (\<forall>r \<in> set (cv_messages db). row_id r \<noteq> ms_message_id m)"
proof -
  let ?row = "\<lparr>mr_message = m\<lparr>ms_attachments := []\<rparr>, mr_content = Some (ms_content m),
      mr_content_bytes = u (ms_content m), mr_archived_at = None, mr_archive_segment_id = None\<rparr>"
  have fresh: "row_id r \<noteq> ms_message_id m" if "r \<in> set (cv_messages db)" for r
    using add that by (auto simp: messages_add_def list_ex_iff split: if_splits)
  have db': "cv_messages db' = cv_messages db @ [?row]"
    using add by (auto simp: messages_add_def split: if_splits)
  have "row_ok (orig(ms_message_id m := ms_content m)) segs r" if "r \<in> set (cv_messages db)" for r
    using texts that fresh [OF that] by (auto simp: texts_ok_def list_all_iff row_ok_def)
  moreover have "row_ok (orig(ms_message_id m := ms_content m)) segs ?row" using m by (simp add: row_ok_def)
  moreover have "ms_message_id m \<notin> row_id ` set (cv_messages db)" using fresh by fastforce
  ultimately show ?thesis
    using texts fresh plain unfolding texts_ok_def list_all_iff statics_def db' by auto
qed

context blob_contract
begin

lemma step_keeps:
  assumes ok: "archive_ok obj hash env0 cfg orig a" and step: "archive_step port obj honest env0 cfg a a'"
    and sha: "ae_sha256 env0 = hash"
  shows "\<exists>orig'. archive_ok obj hash env0 cfg orig' a' \<and> set (statics (av_db a)) \<subseteq> set (statics (av_db a')) \<and>
    (\<forall>x \<in> set (statics (av_db a)). orig' (fst x) = orig (fst x))"
  using step
proof cases
  case (step_store u m db)
  let ?orig = "orig(ms_message_id m := ms_content m)"
  have texts: "texts_ok orig (av_segments a) (av_db a)" using ok by (simp add: archive_ok_def)
  note new = stored_message_ok [OF texts step_store(2,3,4)]
  have old: "\<And>x. x \<in> set (statics (av_db a)) \<Longrightarrow> ?orig (fst x) = orig (fst x)"
    using new by (auto simp: statics_def static_of_def)
  have "segs_ok env0 hash (ac_chat_bucket cfg) ?orig (set (statics db)) (obj (av_blob a)) (av_segments a)"
  proof (rule segs_ok_wider)
    show "segs_ok env0 hash (ac_chat_bucket cfg) orig (set (statics (av_db a))) (obj (av_blob a)) (av_segments a)"
      using ok by (simp add: archive_ok_def)
  qed (use new old in auto)
  then have "archive_ok obj hash env0 cfg ?orig a'" using new step_store(1) by (simp add: archive_ok_def)
  moreover have "set (statics (av_db a)) \<subseteq> set (statics (av_db a'))" using new step_store(1) by simp
  ultimately show ?thesis using old by blast
next
  case (step_archive env t i r)
  then show ?thesis using archive_thread_ok [OF ok step_archive(2,1) sha] by (auto simp: settled_def)
next
  case (step_crash env t i k r a1 p u b)
  obtain res a3 where "upload port cfg b a' = (res, a3)" by fastforce
  then show ?thesis
    using crash_ok [OF ok step_crash(1) sha step_crash(2-6)] by (auto simp: settled_def)
next
  case (step_crash_upload env t i k r a1 p u b a2 res)
  then show ?thesis
    using crash_ok [OF ok step_crash_upload(1) sha step_crash_upload(2-7)] by (auto simp: settled_def)
next
  case (step_purge now lim n)
  have "statics (av_db a') = statics (av_db a)"
    using step_purge by (auto simp: purge_staged_payloads_def split: prod.splits dest: statics_purge)
  then show ?thesis using archive_purge_ok [OF ok step_purge] by auto
next
  case (step_reconcile now stale n rp)
  then show ?thesis using reconcile_ok [OF ok step_reconcile(3,2,1)] by (auto simp: settled_def)
next
  case (step_outage s)
  then show ?thesis using ok archive_ok_blob by auto
qed

lemma run_keeps:
  assumes "archive_run port obj honest env0 cfg a a'" and "archive_ok obj hash env0 cfg orig a" and sha: "ae_sha256 env0 = hash"
  shows "\<exists>orig'. archive_ok obj hash env0 cfg orig' a' \<and> set (statics (av_db a)) \<subseteq> set (statics (av_db a')) \<and>
    (\<forall>x \<in> set (statics (av_db a)). orig' (fst x) = orig (fst x))"
  using assms(1)
proof (induction rule: rtranclp_induct)
  case base
  then show ?case using assms(2) by blast
next
  case (step b c)
  then obtain o1 where o1: "archive_ok obj hash env0 cfg o1 b" "set (statics (av_db a)) \<subseteq> set (statics (av_db b))"
    "\<forall>x \<in> set (statics (av_db a)). o1 (fst x) = orig (fst x)" by blast
  obtain o2 where "archive_ok obj hash env0 cfg o2 c" "set (statics (av_db b)) \<subseteq> set (statics (av_db c))"
    "\<forall>x \<in> set (statics (av_db b)). o2 (fst x) = o1 (fst x)"
    using step_keeps [OF o1(1) step.hyps(2) sha] by blast
  then have "\<forall>x \<in> set (statics (av_db a)). o2 (fst x) = orig (fst x)" "set (statics (av_db a)) \<subseteq> set (statics (av_db c))"
    "archive_ok obj hash env0 cfg o2 c" using o1 by (simp add: subset_eq)+
  then show ?case by blast
qed

text \<open>The text a message has is the text it keeps.\<close>

lemma text_survives:
  assumes init: "archive_init obj cfg a0" and before: "archive_run port obj honest env0 cfg a0 a"
    and after: "archive_run port obj honest env0 cfg a a'"
    and codec: "ae_sha256 env0 = hash" "zstd_ok env0" "same_codec env env0" and up: "up (av_blob a')"
    and m: "m \<in> set (stored (av_db a))" "ms_archive_status m \<noteq> AS_PURGED"
  shows "\<exists>m' \<in> set (stored (av_db a')). ms_message_id m' = ms_message_id m \<and> load_message_content port env m' a' = Inr (ms_content m)"
proof -
  obtain o1 where o1: "archive_ok obj hash env0 cfg o1 a" using run_keeps [OF before archive_init_ok [OF init] codec(1)] by blast
  obtain o2 where o2: "archive_ok obj hash env0 cfg o2 a'" "set (statics (av_db a)) \<subseteq> set (statics (av_db a'))"
    "\<forall>x \<in> set (statics (av_db a)). o2 (fst x) = o1 (fst x)" using run_keeps [OF after o1 codec(1)] by blast
  from m(1) obtain r where r: "r \<in> set (cv_messages (av_db a))" "m = with_attachments (av_db a) r" by (auto simp: stored_def)
  then have st: "static_of (mr_message r) \<in> set (statics (av_db a))" by (auto simp: statics_def)
  then obtain r' where r': "r' \<in> set (cv_messages (av_db a'))" "static_of (mr_message r') = static_of (mr_message r)"
    using o2(2) by (auto simp: statics_def)
  have "mr_content r = Some (o1 (row_id r))" using o1 r m(2) by (auto simp: archive_ok_def texts_ok_def list_all_iff row_ok_def)
  then have "ms_content m = o2 (row_id r)" using o2(3) st r(2) by (auto simp: static_of_def)
  then have "load_message_content port env (with_attachments (av_db a') r') a' = Inr (ms_content m)"
    using load_ok [OF o2(1) r'(1) up codec(3,2)] r'(2) by (simp add: static_of_def)
  then show ?thesis using r' r(2) by (intro bexI [of _ "with_attachments (av_db a') r'"]) (auto simp: stored_def static_of_def)
qed

end

subsection \<open>Archiving succeeds while the store does\<close>

text \<open>An id no segment has used, in its id or in its key.\<close>

definition unused :: "archive_env \<Rightarrow> string \<Rightarrow> ArchiveSegment list \<Rightarrow> bool" where
  "unused env i segs \<longleftrightarrow> CHR ''/'' \<notin> set i \<and>
     (\<forall>g \<in> set segs. sg_segment_id g \<noteq> i \<and> (\<forall>t th sh at. sg_key g \<noteq> segment_key (ae_sha256 env) t th i sh at))"

definition archived :: "conv_db \<Rightarrow> string \<Rightarrow> bool" where
  "archived db i \<longleftrightarrow> (\<exists>r \<in> set (cv_messages db). row_id r = i \<and> row_status r = AS_ARCHIVED)"

definition segment_id :: "archive_env \<Rightarrow> nat \<Rightarrow> string" where
  "segment_id env k = ''seg_'' @ ae_ulid env k"

lemma new_id_segment [simp]: "new_id u ''segment'' = Inr (''seg_'' @ u)"
  by (simp add: new_id_def PREFIXES_def)

lemma archived_mark: "archived db i \<Longrightarrow> archived (mark_archived ids g t db) i"
proof -
  assume "archived db i"
  then obtain r where "r \<in> set (cv_messages db)" "row_id r = i" "row_status r = AS_ARCHIVED" by (auto simp: archived_def)
  then show ?thesis
    unfolding archived_def messages_mark_archived
    by (intro bexI [of _ "if row_id r \<in> set ids then archived_row g t r else r"]) auto
qed

lemma archived_now:
  "r \<in> set (cv_messages db) \<Longrightarrow> row_id r \<in> set ids \<Longrightarrow> archived (mark_archived ids g t db) (row_id r)"
  by (auto simp: archived_def mark_archived_def intro!: bexI [of _ "archived_row g t r"])

lemma unused_close:
  assumes "unused env j segs" and "CHR ''/'' \<notin> set i" and "j \<noteq> i"
    and "sg_segment_id g = i" and "sg_key g = segment_key (ae_sha256 env) t th i sh at"
  shows "unused env j (mark_verified i gen now (segs @ [g]))"
proof -
  have "segment_key (ae_sha256 env) t th i sh at \<noteq> segment_key (ae_sha256 env) t' th' j sh' at'" for t' th' sh' at'
    using segment_key_tail [OF assms(2), of j] assms(1,3) by (auto simp: unused_def)
  then have "sg_key g \<noteq> segment_key (ae_sha256 env) t' th' j sh' at'" for t' th' sh' at' using assms(5) by metis
  moreover have "sg_segment_id g \<noteq> j" using assms(3,4) by simp
  ultimately have "unused env j (segs @ [g])" using assms(1) by (auto simp: unused_def)
  then show ?thesis by (auto simp: unused_def mark_verified_def)
qed

context blob_contract
begin

lemma archive_messages_completes:
  assumes ok: "archive_ok obj hash env0 cfg orig a" and up: "up (av_blob a)" and h: "honest (av_blob a)"
    and codec: "same_codec env env0" "ae_sha256 env0 = hash"
    and plan: "good_plan orig (set (statics (av_db a))) t i ms"
    and new: "unused env (''seg_'' @ u) (av_segments a)"
  shows "\<exists>a'. archive_messages port env cfg u t i ms a = (Inr (''seg_'' @ u), a') \<and> up (av_blob a') \<and> honest (av_blob a') \<and>
    (\<forall>m \<in> set ms. archived (av_db a') (ms_message_id m)) \<and> (\<forall>x. archived (av_db a) x \<longrightarrow> archived (av_db a') x) \<and>
    (\<forall>j. unused env j (av_segments a) \<and> j \<noteq> ''seg_'' @ u \<longrightarrow> unused env j (av_segments a'))"
proof -
  have env: "ae_compress env = ae_compress env0" "ae_sha256 env = hash" using codec by (simp_all add: same_codec_def)
  have ne: "ms \<noteq> []" using plan by (simp add: good_plan_def)
  then obtain b where b: "build_segment env u t i (ac_tenant_shards cfg) ms = Inr b" by (simp add: build_segment_def Let_def)
  let ?g = "new_segment env cfg t i (length ms) b"
  obtain first_at where key: "bu_segment_id b = ''seg_'' @ u"
    "bu_key b = segment_key (ae_sha256 env) t i (''seg_'' @ u) (ac_tenant_shards cfg) first_at"
    using b ne by (auto simp: build_segment_def Let_def)
  have built: "built_from env0 hash orig (set (statics (av_db a))) ?g ms" using new_segment_built [OF b plan env] .
  have g: "sg_bucket ?g = ac_chat_bucket cfg" "sg_status ?g = SEG_UPLOADING" "sg_key ?g = bu_key b" "sg_segment_id ?g = ''seg_'' @ u"
    by (simp_all add: new_segment_def key)
  have data: "bu_checksum_sha256 b = hash (bu_data b)" "bu_message_ids b = map ms_message_id ms"
    using build_segment_Inr [OF b] env by simp_all
  let ?a1 = "a\<lparr>av_segments := av_segments a @ [?g]\<rparr>"
  have o1: "open_segment ?g a = (Inr (), ?a1)"
    using new g(3,4) key(2) by (auto simp: open_segment_def segments_add_def unused_def list_ex_iff)
  have none: "obj (av_blob a) (ac_chat_bucket cfg) (bu_key b) = None" using open_ok [OF ok o1 g(1,2) built] g(3) by simp
  obtain ref s1 s2 where blob: "bs_put port (ac_chat_bucket cfg) (bu_key b) (bu_data b) (Some (hash (bu_data b))) (Some 0) (av_blob a) = (Inr ref, s1)"
    "bs_verify port ref s1 = (Inr True, s2)" "up s2" "honest s2"
    using sound_upload [OF up h none] by blast
  let ?a2 = "?a1\<lparr>av_blob := s2\<rparr>"
  have u2: "upload port cfg b ?a1 = (Inr (ref, True), ?a2)" using blob data(1) by (simp add: upload_def)
  let ?a' = "close_segment (ae_now env) (''seg_'' @ u) (bl_generation ref) (bu_message_ids b) ?a2"
  have run: "archive_messages port env cfg u t i ms a = (Inr (''seg_'' @ u), ?a')"
    using b o1 u2 key(1) by (simp add: archive_messages_def)
  have arch: "archived (av_db ?a') (ms_message_id m)" if m: "m \<in> set ms" for m
  proof -
    have "static_of m \<in> set (statics (av_db a))" using plan m by (simp add: good_plan_def list_all_iff)
    then obtain r where "r \<in> set (cv_messages (av_db a))" "row_id r = ms_message_id m"
      by (auto simp: statics_def static_of_def)
    then show ?thesis using archived_now [of r "av_db a" "bu_message_ids b"] m data(2) by (auto simp: close_segment_def)
  qed
  have old: "archived (av_db ?a') x" if "archived (av_db a) x" for x
    using archived_mark [OF that] by (simp add: close_segment_def)
  have ids: "unused env j (av_segments ?a')" if "unused env j (av_segments a)" "j \<noteq> ''seg_'' @ u" for j
    using unused_close [OF that(1) _ that(2) g(4)] new g(3) key(2) by (auto simp: close_segment_def unused_def)
  show ?thesis using run arch old ids blob(3,4) by (intro exI [of _ ?a']) (auto simp: close_segment_def)
qed

lemma archive_plans_completes:
  "archive_ok obj hash env0 cfg orig a \<Longrightarrow> up (av_blob a) \<Longrightarrow> honest (av_blob a) \<Longrightarrow>
   same_codec env env0 \<Longrightarrow> ae_sha256 env0 = hash \<Longrightarrow> inj (ae_ulid env) \<Longrightarrow>
   list_all (good_plan orig (set (statics (av_db a))) t i) ps \<Longrightarrow> unpurged (av_db a) (map ms_message_id (concat ps)) \<Longrightarrow>
   (\<And>j. k \<le> j \<Longrightarrow> unused env (segment_id env j) (av_segments a)) \<Longrightarrow>
   \<exists>gs a'. archive_plans port env cfg k t i ps a = (Inr gs, a') \<and> length gs = length ps \<and> up (av_blob a') \<and>
     (\<forall>m \<in> set (concat ps). archived (av_db a') (ms_message_id m)) \<and> (\<forall>x. archived (av_db a) x \<longrightarrow> archived (av_db a') x)"
proof (induction ps arbitrary: k a)
  case Nil
  then show ?case by simp
next
  case (Cons p ps)
  have p: "good_plan orig (set (statics (av_db a))) t i p" "unpurged (av_db a) (map ms_message_id p)"
    "unused env (''seg_'' @ ae_ulid env k) (av_segments a)"
    using Cons.prems(7,8) Cons.prems(9) [of k] by (simp_all add: unpurged_append segment_id_def)
  obtain a1 where one: "archive_messages port env cfg (ae_ulid env k) t i p a = (Inr (''seg_'' @ ae_ulid env k), a1)"
    and a1: "up (av_blob a1)" "honest (av_blob a1)" "\<forall>m \<in> set p. archived (av_db a1) (ms_message_id m)"
    "\<forall>x. archived (av_db a) x \<longrightarrow> archived (av_db a1) x"
    "\<forall>j. unused env j (av_segments a) \<and> j \<noteq> ''seg_'' @ ae_ulid env k \<longrightarrow> unused env j (av_segments a1)"
    using archive_messages_completes [OF Cons.prems(1-5) p(1,3)] by blast
  have ok1: "archive_ok obj hash env0 cfg orig a1" "settled a a1"
    using archive_messages_ok [OF Cons.prems(1) one Cons.prems(4,5) p(1,2)] by blast+
  have fresh: "unused env (segment_id env j) (av_segments a1)" if "k + 1 \<le> j" for j
  proof -
    have "ae_ulid env j \<noteq> ae_ulid env k" using injD [OF Cons.prems(6), of j k] that by auto
    then show ?thesis using Cons.prems(9) [of j] a1(5) that by (auto simp: segment_id_def)
  qed
  have "\<exists>gs a'. archive_plans port env cfg (k + 1) t i ps a1 = (Inr gs, a') \<and> length gs = length ps \<and> up (av_blob a') \<and>
     (\<forall>m \<in> set (concat ps). archived (av_db a') (ms_message_id m)) \<and> (\<forall>x. archived (av_db a1) x \<longrightarrow> archived (av_db a') x)"
    using Cons.prems(4-8) ok1 by (intro Cons.IH [OF ok1(1) a1(1,2)] fresh) (auto simp: settled_def unpurged_append)
  then show ?case using one a1 by auto
qed

end

subsection \<open>Properties\<close>

lemma audit_keeps_db: "audit_segments port gs rp a = (rp', a') \<Longrightarrow> av_db a' = av_db a"
  by (induction port gs rp a rule: audit_segments.induct) (auto simp: fail_segment_def split: prod.splits audit.splits)




text \<open>C21: The planner cuts a thread's messages, in order and without loss, into groups within the limits, and no other cut within them has fewer groups.\<close>

lemma segments_are_fewest:
  "concat (plan_segments target n ms) = ms \<and> list_all (fits (target * expected_ratio) n) (plan_segments target n ms) \<and>
   (\<forall>gs. concat gs = ms \<and> list_all (fits (target * expected_ratio) n) gs \<longrightarrow> length (plan_segments target n ms) \<le> length gs)"
  using plan_segments_partition plan_segments_fewest by blast



text \<open>Repairing a failed segment marks a purged message archived again without its text, and every later read of it is empty.\<close>

lemma reconcile_loses_text:
  assumes "list_by_status SEG_UPLOADING (Some (now - secs (int stale))) 200 (av_segments a) = []"
    and "list_by_status SEG_FAILED (Some (now - secs (int stale))) 200 (av_segments a) = [g]"
    and "probe port g (av_blob a) = (Some head, s)" and "reconcile port now stale n a = (rp, a')"
    and "r \<in> set (cv_messages (av_db a))" and "row_status r = AS_PURGED" and "mr_content r = None"
    and "row_id r \<in> set (manifest_ids g)"
  shows "\<exists>r' \<in> set (cv_messages (av_db a')). row_id r' = row_id r \<and>
    load_message_content port env (with_attachments (av_db a') r') a' = Inr []"
proof -
  obtain ts rp0 rp1 a1 rp2 a2 where runs: "requeue_threads now ts rp0 a = (rp1, a1)"
      "repair_segments port now [g] rp1 a1 = (rp2, a2)" "audit_segments port (list_verified n 0 (av_segments a)) rp2 a2 = (rp, a')"
    using assms(1,2,4) by (auto simp: reconcile_def Let_def split: prod.splits)
  have "av_db a2 = mark_archived (manifest_ids g) (sg_segment_id g) now (av_db a)"
    using runs(2) requeue_keeps [OF runs(1)] assms(3) by (auto simp: close_segment_def)
  moreover have "av_db a' = av_db a2" by (rule audit_keeps_db [OF runs(3)])
  ultimately have rows: "cv_messages (av_db a') = cv_messages (mark_archived (manifest_ids g) (sg_segment_id g) now (av_db a))" by simp
  let ?r = "archived_row (sg_segment_id g) now r"
  have "?r \<in> set (cv_messages (av_db a'))" unfolding rows using assms(5,8) by (auto simp: messages_mark_archived)
  moreover have "load_message_content port env (with_attachments (av_db a') ?r) a' = Inr []"
    using assms(7) by (simp add: load_message_content_def)
  ultimately show ?thesis by (intro bexI [of _ ?r]) simp_all
qed

end
