(* ===== verification/Archive_Examples.thy ===== *)
theory Archive_Examples
  imports Archive_Props
begin

text \<open>Concrete archives at which the properties of the archive apply.\<close>

definition ar_env :: archive_env where
  "ar_env = \<lparr>ae_now = days 20000, ae_sha256 = (\<lambda>_. ''00ff00ff''), ae_compress = (\<lambda>x. x), ae_decompress = Some, ae_ulid = show_nat\<rparr>"

definition ar_message :: "string \<Rightarrow> nat \<Rightarrow> string \<Rightarrow> Message" where
  "ar_message i n c =
     \<lparr>ms_message_id = i, ms_thread_id = ''th'', ms_session_id = ''s'', ms_turn_id = ''u'', ms_tenant_id = ''t'',
      ms_role = RO_USER, ms_kind = VISIBLE, ms_sequence = n, ms_content = c, ms_content_hash = ''h'', ms_version = 1,
      ms_author_principal = ''p'', ms_agent_run_id = None, ms_parent_message_id = None, ms_attachments = [],
      ms_tool_calls = [], ms_tool_call_id = None, ms_source_system = None, ms_source_message_id = None,
      ms_occurred_at = 0, ms_created_at = 0, ms_archive_status = AS_STAGED, ms_system_metadata = [],
      ms_custom_metadata = [], ms_deleted_at = None\<rparr>"

definition ar_row :: "string \<Rightarrow> nat \<Rightarrow> string \<Rightarrow> MessageRow" where
  "ar_row i n c = \<lparr>mr_message = ar_message i n c, mr_content = Some c, mr_content_bytes = length c, mr_archived_at = None,
     mr_archive_segment_id = None\<rparr>"

definition ar_cfg :: ArchiveSettings where
  "ar_cfg = (ARCHIVE ''chat'')\<lparr>ac_purge_grace_seconds := 60, ac_purge_min_payload_bytes := 4\<rparr>"

definition ar_db :: "MessageRow list \<Rightarrow> conv_db" where
  "ar_db rows = \<lparr>cv_threads = [], cv_sessions = [], cv_turns = [], cv_messages = rows, cv_attachments = [], cv_agent_runs = []\<rparr>"

definition ar_start :: "MemoryBlobStore archive" where
  "ar_start = \<lparr>av_db = ar_db [ar_row ''m1'' 1 ''hello''], av_segments = [], av_outbox = \<lparr>ob_rows = [], ob_next = 1\<rparr>,
     av_blob = \<lparr>mb_objects = [], mb_available = True, mb_corrupt_next_verify = False\<rparr>\<rparr>"

lemmas ar_defs = ar_env_def ar_message_def ar_row_def ar_cfg_def ar_db_def ar_start_def ARCHIVE_def

lemmas ar_run_defs = ar_defs archive_thread_def list_staged_def with_attachments_def row_to_message_def attachments_of_def
  plan_segments_def expected_ratio_def archive_messages_def build_segment_def open_segment_def segments_add_def
  new_segment_def upload_def memory_store_def memory_put_def memory_verify_def Let_def close_segment_def mark_verified_def
  mark_archived_def archived_row_def segment_manifest_def

abbreviation ar_store :: "MemoryBlobStore BlobStore" where
  "ar_store \<equiv> memory_store (ae_sha256 ar_env)"

abbreviation ar_steps :: "MemoryBlobStore archive \<Rightarrow> MemoryBlobStore archive \<Rightarrow> bool" where
  "ar_steps \<equiv> archive_run ar_store memory_obj (memory_honest (ae_sha256 ar_env)) ar_env ar_cfg"

definition ar_archived :: "MemoryBlobStore archive" where
  "ar_archived = snd (archive_thread ar_store ar_env ar_cfg ''t'' ''th'' ar_start)"

definition ar_purged :: "MemoryBlobStore archive" where
  "ar_purged = snd (purge_staged_payloads (days 20001) ar_cfg 1000 ar_archived)"

text \<open>A pass that doubts the segment once, and what the store answers the next pass.\<close>

definition ar_doubted :: "MemoryBlobStore archive" where
  "ar_doubted = snd (reconcile ar_store (days 20001) 900 50
     (ar_purged\<lparr>av_blob := (av_blob ar_purged)\<lparr>mb_corrupt_next_verify := True\<rparr>\<rparr>))"

definition ar_repaired :: "MemoryBlobStore archive" where
  "ar_repaired = snd (reconcile ar_store (days 20001) 900 50 ar_doubted)"

lemma ar_zero: "show_nat 0 = ''0''"
  by code_simp

lemma ar_archived_rows: "cv_messages (av_db ar_archived) = [archived_row ''seg_0'' (days 20000) (ar_row ''m1'' 1 ''hello'')]"
  by (simp add: ar_archived_def ar_run_defs ar_zero)

lemma ar_archived_blob: "mb_available (av_blob ar_archived) \<and> \<not> mb_corrupt_next_verify (av_blob ar_archived)"
  by (simp add: ar_archived_def ar_run_defs)

lemma ar_purged_rows: "cv_messages (av_db ar_purged) = [purged_row (archived_row ''seg_0'' (days 20000) (ar_row ''m1'' 1 ''hello''))]"
  by (simp add: ar_purged_def purge_staged_payloads_def purge_payloads_def Let_def ar_archived_rows purgeable_def
      archived_row_def purged_row_def ar_row_def ar_message_def ar_cfg_def ARCHIVE_def days_def secs_def)

lemma ar_plain: "plain_message (with_attachments (av_db ar_start) (ar_row ''m1'' 1 ''hello''))"
  using isoformat_plain [of 0]
  by (simp add: plain_message_def nel_free_def message_record_def with_attachments_def row_to_message_def attachments_of_def
      ar_defs json_opt_def) (simp add: NEL_def)

lemma ar_init: "archive_init memory_obj ar_cfg ar_start"
  using ar_plain
  by (simp add: archive_init_def plain_db_def ar_start_def ar_db_def memory_obj_def ar_row_def ar_message_def)

lemma ar_zstd: "zstd_ok ar_env"
  by (simp add: zstd_ok_def ar_env_def)

lemma ar_archive_step: "ar_steps ar_start ar_archived"
proof (rule r_into_rtranclp)
  obtain r where "archive_thread ar_store ar_env ar_cfg ''t'' ''th'' ar_start = (r, ar_archived)"
    unfolding ar_archived_def by (metis prod.collapse)
  then show "archive_step ar_store memory_obj (memory_honest (ae_sha256 ar_env)) ar_env ar_cfg ar_start ar_archived"
    by (rule step_archive [rotated]) (simp add: same_codec_def)
qed

lemma ar_purge_step: "ar_steps ar_start ar_purged"
proof (rule rtranclp.rtrancl_into_rtrancl [OF ar_archive_step])
  obtain n where "purge_staged_payloads (days 20001) ar_cfg 1000 ar_archived = (n, ar_purged)"
    unfolding ar_purged_def by (metis prod.collapse)
  then show "archive_step ar_store memory_obj (memory_honest (ae_sha256 ar_env)) ar_env ar_cfg ar_archived ar_purged"
    by (rule step_purge)
qed

lemma ar_purged_blob: "av_blob ar_purged = av_blob ar_archived" "av_segments ar_purged = av_segments ar_archived"
  by (simp_all add: ar_purged_def purge_staged_payloads_def split: prod.splits)


lemma no_slash_digits: "CHR ''/'' \<notin> set (show_nat n)"
  using show_nat_digits [of "CHR ''/''" n] by auto


definition ar_down :: "MemoryBlobStore archive" where
  "ar_down = ar_start\<lparr>av_blob := (av_blob ar_start)\<lparr>mb_available := False\<rparr>\<rparr>"


lemma segments_are_fewest_witness:
  "length (plan_segments 1000 2 (replicate 3 (ar_message ''m1'' 1 ''hello''))) \<le>
     length [[ar_message ''m1'' 1 ''hello''], replicate 2 (ar_message ''m1'' 1 ''hello'')]"
proof -
  let ?m = "ar_message ''m1'' 1 ''hello''" and ?gs = "[[ar_message ''m1'' 1 ''hello''], replicate 2 (ar_message ''m1'' 1 ''hello'')]"
  have "utf8_length ''hello'' = 5" by code_simp
  then have "concat ?gs = replicate 3 ?m \<and> list_all (fits (1000 * expected_ratio) 2) ?gs"
    by (simp add: fits_def numeral_3_eq_3 numeral_2_eq_2 message_size_def ar_message_def expected_ratio_def)
  then show ?thesis using segments_are_fewest [of 1000 2 "replicate 3 ?m"] by blast
qed

lemma ar_message_plain: "plain_message (ar_message ''m1'' 1 ''hello'')"
  using isoformat_plain [of 0]
  by (simp add: plain_message_def nel_free_def message_record_def ar_message_def json_opt_def) (simp add: NEL_def)


definition nel_message :: Message where
  "nel_message = ar_message ''m1'' 1 [CHR ''a'', NEL, CHR ''b'']"

definition nel_segment :: ArchiveSegment where
  "nel_segment = \<lparr>sg_segment_id = ''seg_0'', sg_tenant_id = ''t'', sg_kind = ''chat'', sg_thread_id = Some ''th'',
     sg_document_id = None, sg_bucket = ''chat'', sg_key = ''k'', sg_generation = None, sg_size_bytes = 0, sg_raw_bytes = 0,
     sg_checksum_sha256 = ''00ff00ff'', sg_message_count = 1, sg_first_sequence = Some 1, sg_last_sequence = Some 1,
     sg_first_at = None, sg_last_at = None, sg_status = SEG_VERIFIED, sg_manifest = None, sg_created_at = 0,
     sg_verified_at = None\<rparr>"

definition nel_archive :: "MemoryBlobStore archive" where
  "nel_archive = ar_start\<lparr>av_segments := [nel_segment], av_blob := snd (memory_put (\<lambda>_. ''00ff00ff'') ''chat'' ''k''
     (ae_compress ar_env (segment_raw ([] @ nel_message # []))) None (Some 0) (av_blob ar_start))\<rparr>"


lemmas ar_reconcile_defs = reconcile_def Let_def list_by_status_def list_verified_def list_staged_def audit_segment_def
  probe_def memory_store_def memory_head_def memory_verify_def fail_segment_def mark_segment_failed_def manifest_ids_def

lemma ar_segment: "\<exists>g d ref. av_segments ar_archived = [g] \<and> mb_objects (av_blob ar_archived) = [((sg_bucket g, sg_key g), (d, ref))] \<and>
    sg_status g = SEG_VERIFIED \<and> sg_created_at g = days 20000 \<and> manifest_ids g = [''m1''] \<and>
    sg_checksum_sha256 g = ''00ff00ff'' \<and> bl_checksum_sha256 ref = ''00ff00ff'' \<and> bl_bucket ref = sg_bucket g \<and> bl_key ref = sg_key g"
  by (simp add: ar_archived_def ar_run_defs ar_zero manifest_ids_def)

lemma ar_doubted_state: "cv_messages (av_db ar_doubted) = cv_messages (av_db ar_purged) \<and> mb_available (av_blob ar_doubted) \<and>
    \<not> mb_corrupt_next_verify (av_blob ar_doubted) \<and> mb_objects (av_blob ar_doubted) = mb_objects (av_blob ar_archived) \<and>
    av_segments ar_doubted = map (\<lambda>g. g\<lparr>sg_status := SEG_FAILED\<rparr>) (av_segments ar_archived)"
proof -
  obtain g d ref where g: "av_segments ar_archived = [g]" "mb_objects (av_blob ar_archived) = [((sg_bucket g, sg_key g), (d, ref))]"
    "sg_status g = SEG_VERIFIED" "sg_checksum_sha256 g = ''00ff00ff''" "bl_checksum_sha256 ref = ''00ff00ff''"
    using ar_segment by blast
  show ?thesis
    using g ar_archived_blob
    by (simp add: ar_doubted_def ar_reconcile_defs ar_purged_blob ar_purged_rows purged_row_def)
qed

lemma reconcile_loses_text_witness:
  "list_all (\<lambda>r. row_status r = AS_PURGED) (cv_messages (av_db ar_doubted)) \<and>
   (\<exists>r' \<in> set (cv_messages (av_db ar_repaired)). row_id r' = ''m1'' \<and>
      load_message_content ar_store ar_env (with_attachments (av_db ar_repaired) r') ar_repaired = Inr [])"
proof -
  obtain g d ref where g: "av_segments ar_archived = [g]" "mb_objects (av_blob ar_archived) = [((sg_bucket g, sg_key g), (d, ref))]"
    "sg_created_at g = days 20000" "manifest_ids g = [''m1'']" "sg_checksum_sha256 g = ''00ff00ff''"
    "bl_checksum_sha256 ref = ''00ff00ff''" "bl_bucket ref = sg_bucket g" "bl_key ref = sg_key g"
    using ar_segment by blast
  let ?g = "g\<lparr>sg_status := SEG_FAILED\<rparr>"
  have segs: "av_segments ar_doubted = [?g]" using ar_doubted_state g(1) by simp
  have up: "list_by_status SEG_UPLOADING (Some (days 20001 - secs (int 900))) 200 (av_segments ar_doubted) = []"
    and failed: "list_by_status SEG_FAILED (Some (days 20001 - secs (int 900))) 200 (av_segments ar_doubted) = [?g]"
    unfolding segs using g(3) by (simp_all add: list_by_status_def days_def secs_def)
  have probe: "probe ar_store ?g (av_blob ar_doubted) = (Some ref, av_blob ar_doubted)"
    using g ar_doubted_state by (simp add: probe_def memory_store_def memory_head_def memory_verify_def ar_env_def)
  obtain rp where run: "reconcile ar_store (days 20001) 900 50 ar_doubted = (rp, ar_repaired)"
    unfolding ar_repaired_def by (metis prod.collapse)
  let ?r = "purged_row (archived_row ''seg_0'' (days 20000) (ar_row ''m1'' 1 ''hello''))"
  have r: "cv_messages (av_db ar_doubted) = [?r]" using ar_doubted_state ar_purged_rows by simp
  have id: "row_id ?r = ''m1''" by (simp add: ar_row_def ar_message_def)
  have man: "manifest_ids ?g = [''m1'']" using g(4) by (simp add: manifest_ids_def)
  have "\<exists>r' \<in> set (cv_messages (av_db ar_repaired)). row_id r' = row_id ?r \<and>
      load_message_content ar_store ar_env (with_attachments (av_db ar_repaired) r') ar_repaired = Inr []"
    by (rule reconcile_loses_text [OF up failed probe run]) (simp_all add: r man ar_row_def ar_message_def)
  then show ?thesis using r id by simp
qed

end
