(* ===== verification/Py_Value.thy ===== *)
theory Py_Value
  imports Complex_Main Json
begin

text \<open>
  Python's values as a tool call's arguments and the literals of an \<open>approve_when\<close> expression hold
  them, and Python's comparisons on them (\<open>==\<close>, \<open><\<close>, \<open><=\<close>, \<open>in\<close>), with a \<open>TypeError\<close> as \<open>None\<close>.

  \<^item> A \<open>float\<close> is the exact rational a double stands for, or an infinity; a decimal literal is
    rounded to the nearest double, ties to even, as \<open>float(text)\<close> does. NaN, which no literal of
    the language and no JSON document denotes, is left out.
  \<^item> \<open>bool\<close> is a number in Python: \<open>True == 1\<close>.
  \<^item> A dictionary is an association list with one entry per key; \<open>==\<close> does not see its order.
  \<^item> \<open>PyMissing\<close> is the module's sentinel object \<open>_MISSING\<close>.
\<close>

subsection \<open>Numbers\<close>

datatype pyfloat = Finite rat | PosInf | NegInf

definition pf_less :: "pyfloat \<Rightarrow> pyfloat \<Rightarrow> bool" where
  "pf_less a b = (case (a, b) of
     (Finite x, Finite y) \<Rightarrow> x < y
   | (NegInf, NegInf) \<Rightarrow> False
   | (PosInf, _) \<Rightarrow> False
   | (_, NegInf) \<Rightarrow> False
   | _ \<Rightarrow> True)"

instantiation pyfloat :: linorder
begin

definition less_pyfloat :: "pyfloat \<Rightarrow> pyfloat \<Rightarrow> bool" where "a < b \<longleftrightarrow> pf_less a b"

definition less_eq_pyfloat :: "pyfloat \<Rightarrow> pyfloat \<Rightarrow> bool" where "a \<le> b \<longleftrightarrow> a = b \<or> pf_less a b"

instance
proof
  fix x y z :: pyfloat
  show "(x < y) = (x \<le> y \<and> \<not> y \<le> x)"
    by (cases x; cases y) (auto simp: less_pyfloat_def less_eq_pyfloat_def pf_less_def)
  show "x \<le> x" by (simp add: less_eq_pyfloat_def)
  show "x \<le> y \<Longrightarrow> y \<le> z \<Longrightarrow> x \<le> z"
    by (cases x; cases y; cases z) (auto simp: less_eq_pyfloat_def pf_less_def)
  show "x \<le> y \<Longrightarrow> y \<le> x \<Longrightarrow> x = y"
    by (cases x; cases y) (auto simp: less_eq_pyfloat_def pf_less_def)
  show "x \<le> y \<or> y \<le> x"
    by (cases x; cases y) (auto simp: less_eq_pyfloat_def pf_less_def)
qed

end

lemma finite_order [simp]:
  "Finite a < Finite b \<longleftrightarrow> a < b" "Finite a \<le> Finite b \<longleftrightarrow> a \<le> b"
  "Finite a < PosInf" "NegInf < Finite a" "\<not> PosInf < Finite a" "\<not> Finite a < NegInf"
  by (auto simp: less_pyfloat_def less_eq_pyfloat_def pf_less_def)

text \<open>\<open>floor(log2 n)\<close>, and the binary exponent of a positive rational.\<close>

fun ilog2 :: "nat \<Rightarrow> nat" where
  "ilog2 n = (if n < 2 then 0 else Suc (ilog2 (n div 2)))"

declare ilog2.simps [simp del]

definition pow2 :: "int \<Rightarrow> rat" where
  "pow2 e = (if 0 \<le> e then 2 ^ nat e else 1 / 2 ^ nat (- e))"

definition binary_exponent :: "rat \<Rightarrow> int" where
  "binary_exponent q =
     (let (n, d) = quotient_of q; e = int (ilog2 (nat n)) - int (ilog2 (nat d)) in
      if pow2 e \<le> q then e else e - 1)"

definition round_half_even :: "rat \<Rightarrow> int" where
  "round_half_even x =
     (let f = \<lfloor>x\<rfloor>; r = x - of_int f in
      if r < 1 / 2 then f else if 1 / 2 < r then f + 1 else if even f then f else f + 1)"

text \<open>The double nearest to a positive rational: 53 bits of mantissa, least exponent \<open>-1074\<close>,
  infinite from \<open>2 ^ 1024\<close> on.\<close>

definition round_double :: "rat \<Rightarrow> pyfloat" where
  "round_double q =
     (if q \<le> 0 then Finite 0
      else let p = max (binary_exponent q - 52) (- 1074);
               v = of_int (round_half_even (q / pow2 p)) * pow2 p in
        if 2 ^ 1024 \<le> v then PosInf else Finite v)"

subsection \<open>Values\<close>

datatype pyval =
    PyNone
  | PyBool bool
  | PyInt int
  | PyFloat pyfloat
  | PyStr string
  | PyList "pyval list"
  | PyObj "(string \<times> pyval) list"
  | PyMissing

fun num_of :: "pyval \<Rightarrow> pyfloat option" where
  "num_of (PyBool b) = Some (Finite (if b then 1 else 0))"
| "num_of (PyInt i) = Some (Finite (of_int i))"
| "num_of (PyFloat f) = Some f"
| "num_of _ = None"

text \<open>\<open>left == right\<close>.\<close>

fun py_eq :: "pyval \<Rightarrow> pyval \<Rightarrow> bool"
  and eq_list :: "pyval list \<Rightarrow> pyval list \<Rightarrow> bool"
  and eq_items :: "(string \<times> pyval) list \<Rightarrow> (string \<times> pyval) list \<Rightarrow> bool" where
  "py_eq (PyList xs) w = (case w of PyList ys \<Rightarrow> eq_list xs ys | _ \<Rightarrow> False)"
| "py_eq (PyObj xs) w = (case w of PyObj ys \<Rightarrow> length xs = length ys \<and> eq_items xs ys | _ \<Rightarrow> False)"
| "py_eq (PyStr s) w = (w = PyStr s)"
| "py_eq PyNone w = (w = PyNone)"
| "py_eq PyMissing w = (w = PyMissing)"
| "py_eq (PyBool b) w = (num_of w = num_of (PyBool b))"
| "py_eq (PyInt i) w = (num_of w = num_of (PyInt i))"
| "py_eq (PyFloat f) w = (num_of w = num_of (PyFloat f))"
| "eq_list [] ys = (ys = [])"
| "eq_list (x # xs) ys = (case ys of [] \<Rightarrow> False | y # ys' \<Rightarrow> py_eq x y \<and> eq_list xs ys')"
| "eq_items [] ys = True"
| "eq_items ((k, v) # xs) ys = (case map_of ys k of None \<Rightarrow> False | Some w \<Rightarrow> py_eq v w \<and> eq_items xs ys)"

text \<open>\<open>left < right\<close> (\<open>strict\<close>) and \<open>left <= right\<close>: lists compare at the first place they differ.\<close>

fun py_ord :: "bool \<Rightarrow> pyval \<Rightarrow> pyval \<Rightarrow> bool option"
  and ord_list :: "bool \<Rightarrow> pyval list \<Rightarrow> pyval list \<Rightarrow> bool option" where
  "py_ord st (PyStr a) w = (case w of PyStr b \<Rightarrow> Some (if st then a < b else a \<le> b) | _ \<Rightarrow> None)"
| "py_ord st (PyList xs) w = (case w of PyList ys \<Rightarrow> ord_list st xs ys | _ \<Rightarrow> None)"
| "py_ord st v w = (case (num_of v, num_of w) of
     (Some a, Some b) \<Rightarrow> Some (if st then a < b else a \<le> b) | _ \<Rightarrow> None)"
| "ord_list st [] ys = Some (if st then ys \<noteq> [] else True)"
| "ord_list st (x # xs) ys = (case ys of [] \<Rightarrow> Some False
     | y # ys' \<Rightarrow> if py_eq x y then ord_list st xs ys' else py_ord st x y)"

fun contains :: "string \<Rightarrow> string \<Rightarrow> bool" where
  "contains p [] = (p = [])"
| "contains p (c # s) = (startswith p (c # s) \<or> contains p s)"

text \<open>\<open>left in right\<close>.\<close>

definition py_in :: "pyval \<Rightarrow> pyval \<Rightarrow> bool option" where
  "py_in l r = (case r of
     PyList ys \<Rightarrow> Some (list_ex (\<lambda>y. py_eq l y) ys)
   | PyStr s \<Rightarrow> (case l of PyStr p \<Rightarrow> Some (contains p s) | _ \<Rightarrow> None)
   | PyObj kvs \<Rightarrow> (case l of PyList _ \<Rightarrow> None | PyObj _ \<Rightarrow> None
                   | PyStr k \<Rightarrow> Some (k \<in> set (map fst kvs)) | _ \<Rightarrow> Some False)
   | _ \<Rightarrow> None)"

text \<open>The equality of the code is reflexive and symmetric on strings and numbers; on them it is the
  order's own equality.\<close>

lemma py_eq_refl_list: "(\<And>x. x \<in> set xs \<Longrightarrow> py_eq x x) \<Longrightarrow> eq_list xs xs"
  by (induction xs) auto

lemma eq_items_refl: "list_all (\<lambda>(k, v). map_of ys k = Some v \<and> py_eq v v) xs \<Longrightarrow> eq_items xs ys"
  by (induction xs) auto

fun distinct_keys :: "pyval \<Rightarrow> bool" where
  "distinct_keys (PyList xs) = list_all distinct_keys xs"
| "distinct_keys (PyObj kvs) = (distinct (map fst kvs) \<and> list_all (\<lambda>(k, v). distinct_keys v) kvs)"
| "distinct_keys _ = True"

lemma py_eq_refl: "distinct_keys v \<Longrightarrow> py_eq v v"
proof (induction v rule: distinct_keys.induct)
  case (1 xs)
  then show ?case by (auto simp: list_all_iff intro: py_eq_refl_list)
next
  case (2 kvs)
  have "eq_items kvs kvs"
    using 2 by (intro eq_items_refl) (auto simp: list_all_iff)
  then show ?case by simp
qed simp_all

lemma py_ord_num:
  assumes "num_of v = Some a" and "num_of w = Some b"
  shows "py_ord True v w = Some (a < b)" and "py_ord False v w = Some (a \<le> b)"
    and "py_eq v w \<longleftrightarrow> a = b"
  using assms by (cases v; auto)+

end
