(* ===== verification/Approval_Lang.thy ===== *)
theory Approval_Lang
  imports Py_Value Errors
begin

text \<open>
  The language of \<open>approve_when\<close> expressions (\<open>trellis/memory/approval.py\<close> of the Python SDK): the
  argument shape decisions are pooled by, the lexer, the recursive descent parser with its tree,
  and the evaluator.

  \<^item> \<open>lg\<close>, an argument of what uses it, is \<open>floor(log10(abs(x)))\<close> of the platform's C library on a
    finite non-zero number.
  \<^item> The parser's position in the token list is the list of the tokens left. Each call of a
    function and each turn of a loop takes a unit of fuel; \<open>None\<close> is running out of it, and
    \<open>Approval_Facts\<close> shows that \<open>parse\<close> never does.
  \<^item> Every error of the language is Python's \<open>ValueError\<close>.
\<close>

subsection \<open>The shape of a call's arguments\<close>

type_synonym args = "(string \<times> pyval) list"

definition show_int :: "int \<Rightarrow> string" where
  "show_int i = (if i < 0 then CHR ''-'' # show_nat (nat (- i)) else show_nat (nat i))"

fun magnitude :: "(rat \<Rightarrow> int) \<Rightarrow> pyfloat \<Rightarrow> service_error + int" where
  "magnitude lg (Finite q) = Inr (if q = 0 then 0 else lg q)"
| "magnitude lg _ = Inl OverflowError"

fun value_kind :: "(rat \<Rightarrow> int) \<Rightarrow> pyval \<Rightarrow> service_error + string" where
  "value_kind lg PyNone = Inr ''null''"
| "value_kind lg (PyBool b) = Inr (if b then ''bool:true'' else ''bool:false'')"
| "value_kind lg (PyInt i) = rbind (magnitude lg (Finite (of_int i))) (\<lambda>m. Inr (''num:1e'' @ show_int m))"
| "value_kind lg (PyFloat f) = rbind (magnitude lg f) (\<lambda>m. Inr (''num:1e'' @ show_int m))"
| "value_kind lg (PyStr s) = Inr ''str''"
| "value_kind lg (PyList xs) = Inr ''list''"
| "value_kind lg (PyObj kvs) = Inr ''obj''"
| "value_kind lg PyMissing = Inr ''obj''"

definition arg_shape :: "(rat \<Rightarrow> int) \<Rightarrow> args \<Rightarrow> service_error + string" where
  "arg_shape lg args =
     (if args = [] then Inr []
      else rbind (mapM (\<lambda>name. rbind (value_kind lg (the (map_of args name)))
                                 (\<lambda>kind. Inr (name @ CHR '':'' # kind)))
                       (sort (map fst args)))
             (\<lambda>parts. Inr (py_join '','' parts)))"

definition SHAPE :: string where "SHAPE = ''shape''"

definition when_shape :: "string \<Rightarrow> string" where
  "when_shape shape = SHAPE @ '' == '' @ json_ascii shape"

subsection \<open>The lexer\<close>

datatype tok = TLit pyval | TKw string | TOp string | TPunct char | TName string

definition MAX_EXPRESSION_CHARS :: nat where "MAX_EXPRESSION_CHARS = 2000"

definition NEWLINE :: char where "NEWLINE = CHR 0x0A"

definition is_space :: "char \<Rightarrow> bool" where
  "is_space c \<longleftrightarrow> (of_char c :: nat) \<in> {9..13} \<union> {28..32} \<union> {133, 160}"

definition is_letter :: "char \<Rightarrow> bool" where
  "is_letter c \<longleftrightarrow> (of_char c :: nat) \<in> {65..90} \<union> {97..122}"

definition ident_start :: "char \<Rightarrow> bool" where
  "ident_start c \<longleftrightarrow> is_letter c \<or> c = CHR ''_''"

definition ident_char :: "char \<Rightarrow> bool" where
  "ident_char c \<longleftrightarrow> ident_start c \<or> is_digit c"

text \<open>The rest of \<open>"(?:[^"\\]|\\.)*"\<close> after the opening quote: the body, and what follows the
  closing quote.\<close>

fun lex_string :: "string \<Rightarrow> (string \<times> string) option" where
  "lex_string [] = None"
| "lex_string (c # s) =
     (if c = QUOTE then Some ([], s)
      else if c = BACKSLASH then
        (case s of
           [] \<Rightarrow> None
         | d # r \<Rightarrow> if d = NEWLINE then None else map_option (\<lambda>(b, r'). (c # d # b, r')) (lex_string r))
      else map_option (\<lambda>(b, r'). (c # b, r')) (lex_string s))"

definition span :: "(char \<Rightarrow> bool) \<Rightarrow> string \<Rightarrow> string \<times> string" where
  "span P s = (takeWhile P s, dropWhile P s)"

definition lex_fraction :: "string \<Rightarrow> string \<times> string" where
  "lex_fraction s = (case s of
       c # r \<Rightarrow> (case span is_digit r of (ds, r') \<Rightarrow>
                   if c = CHR ''.'' \<and> ds \<noteq> [] then (c # ds, r') else ([], s))
     | [] \<Rightarrow> ([], s))"

definition lex_exponent :: "string \<Rightarrow> string \<times> string" where
  "lex_exponent s = (case s of
       c # r \<Rightarrow>
         (if c = CHR ''e'' \<or> c = CHR ''E'' then
            (case r of
               sg # r1 \<Rightarrow>
                 (if sg = CHR ''+'' \<or> sg = CHR ''-'' then
                    (case span is_digit r1 of (ds, r') \<Rightarrow> if ds \<noteq> [] then (c # sg # ds, r') else ([], s))
                  else (case span is_digit r of (ds, r') \<Rightarrow> if ds \<noteq> [] then (c # ds, r') else ([], s)))
             | [] \<Rightarrow> ([], s))
          else ([], s))
     | [] \<Rightarrow> ([], s))"

definition lex_digits :: "string \<Rightarrow> (string \<times> string) option" where
  "lex_digits s =
     (case span is_digit s of (ds, r1) \<Rightarrow>
        if ds = [] then None
        else (case lex_fraction r1 of (fr, r2) \<Rightarrow>
                case lex_exponent r2 of (ex, r3) \<Rightarrow> Some (ds @ fr @ ex, r3)))"

definition lex_number :: "string \<Rightarrow> (string \<times> string) option" where
  "lex_number s = (case s of
       c # r \<Rightarrow> if c = CHR ''-'' then map_option (\<lambda>(raw, r'). (c # raw, r')) (lex_digits r)
                 else lex_digits s
     | [] \<Rightarrow> None)"

function lex_dotted :: "string \<Rightarrow> string \<times> string" where
  "lex_dotted s =
     (case s of
        c # d # r \<Rightarrow>
          if c = CHR ''.'' \<and> ident_start d then
            (case lex_dotted (dropWhile ident_char r) of (more, r') \<Rightarrow>
               (c # d # takeWhile ident_char r @ more, r'))
          else ([], s)
      | _ \<Rightarrow> ([], s))"
  by auto
termination
  by (relation "measure length") (auto intro: le_less_trans [OF length_dropWhile_le])

declare lex_dotted.simps [simp del]

definition lex_name :: "string \<Rightarrow> (string \<times> string) option" where
  "lex_name s = (case s of
       c # r \<Rightarrow> if ident_start c
                 then (case lex_dotted (dropWhile ident_char r) of (more, r') \<Rightarrow>
                         Some (c # takeWhile ident_char r @ more, r'))
                 else None
     | [] \<Rightarrow> None)"

definition OPERATORS :: "string list" where
  "OPERATORS = [''=='', ''!='', ''<='', ''>='', ''<'', ''>'']"

definition lex_op :: "string \<Rightarrow> (string \<times> string) option" where
  "lex_op s = (case filter (\<lambda>op. startswith op s) OPERATORS of
       [] \<Rightarrow> None | op # _ \<Rightarrow> Some (op, drop (length op) s))"

definition PUNCTUATION :: "char list" where "PUNCTUATION = ''()[],''"

definition KEYWORDS :: "string list" where
  "KEYWORDS = [''and'', ''or'', ''not'', ''in'', ''true'', ''false'']"

text \<open>\<open>int(raw)\<close> and \<open>float(raw)\<close>.\<close>

definition unsigned :: "string \<Rightarrow> string" where
  "unsigned raw = (if startswith ''-'' raw then tl raw else raw)"

definition py_int :: "string \<Rightarrow> int" where
  "py_int raw = (if startswith ''-'' raw then - int (read_nat (tl raw)) else int (read_nat raw))"

definition exponent_of :: "string \<Rightarrow> int" where
  "exponent_of ex = (case ex of
       [] \<Rightarrow> 0
     | _ # r \<Rightarrow> if startswith ''+'' r then int (read_nat (tl r)) else py_int r)"

definition decimal :: "string \<Rightarrow> rat" where
  "decimal raw =
     (case span is_digit (unsigned raw) of (ds, r1) \<Rightarrow>
        case lex_fraction r1 of (fr, r2) \<Rightarrow>
          (let places = int (length (tl fr)); e = exponent_of r2 - places;
               m = of_nat (read_nat (ds @ tl fr)) in
           if 0 \<le> e then m * 10 ^ nat e else m / 10 ^ nat (- e)))"

definition negated :: "pyfloat \<Rightarrow> pyfloat" where
  "negated f = (case f of Finite q \<Rightarrow> Finite (- q) | PosInf \<Rightarrow> NegInf | NegInf \<Rightarrow> PosInf)"

definition py_float :: "string \<Rightarrow> pyfloat" where
  "py_float raw = (if startswith ''-'' raw then negated (round_double (decimal raw))
                   else round_double (decimal raw))"

definition number_value :: "string \<Rightarrow> pyval" where
  "number_value raw = (if \<exists>c \<in> set raw. c \<in> set ''.eE'' then PyFloat (py_float raw) else PyInt (py_int raw))"

definition name_token :: "string \<Rightarrow> tok" where
  "name_token raw =
     (if raw \<in> set KEYWORDS
      then (if raw \<in> {''true'', ''false''} then TLit (PyBool (raw = ''true'')) else TKw raw)
      else TName raw)"

text \<open>One token at a place that is not white space: the alternatives of \<open>_TOKEN\<close> in order.
  \<open>json.loads\<close> refuses a string token that is not a JSON string.\<close>

definition lex_token :: "string \<Rightarrow> service_error + (tok \<times> string)" where
  "lex_token s =
     (case (if startswith [QUOTE] s then lex_string (tl s) else None) of
        Some (body, r) \<Rightarrow>
          (case loads (QUOTE # body @ [QUOTE]) of
             Some (JStr v) \<Rightarrow> Inr (TLit (PyStr v), r) | _ \<Rightarrow> Inl ValueError)
      | None \<Rightarrow>
     (case lex_number s of
        Some (raw, r) \<Rightarrow> Inr (TLit (number_value raw), r)
      | None \<Rightarrow>
     (case lex_op s of
        Some (op, r) \<Rightarrow> Inr (TOp op, r)
      | None \<Rightarrow>
     (if s \<noteq> [] \<and> hd s \<in> set PUNCTUATION then Inr (TPunct (hd s), tl s)
      else
     (case lex_name s of
        Some (raw, r) \<Rightarrow> Inr (name_token raw, r)
      | None \<Rightarrow> Inl ValueError)))))"

text \<open>The loop of \<open>_tokens\<close>; a token takes at least one character, so the length of the text
  bounds its turns (\<open>lex_token_shorter\<close>).\<close>

fun token_loop :: "nat \<Rightarrow> string \<Rightarrow> service_error + tok list" where
  "token_loop 0 s = Inr []"
| "token_loop (Suc n) s =
     (let s' = dropWhile is_space s in
      if s' = [] then Inr []
      else rbind (lex_token s') (\<lambda>(t, r). rbind (token_loop n r) (\<lambda>ts. Inr (t # ts))))"

definition tokens :: "string \<Rightarrow> service_error + tok list" where
  "tokens text =
     (if length text > MAX_EXPRESSION_CHARS then Inl ValueError else token_loop (length text) text)"

subsection \<open>The parser\<close>

datatype operand = OLit pyval | OPath string | OList "operand list"

datatype node =
    NOr node node
  | NAnd node node
  | NNot node
  | NCmp string operand operand
  | NLit bool

type_synonym 'a parsed = "(service_error + 'a \<times> tok list) option"

text \<open>Sequencing of parser calls: running out of fuel and an error end the parse.\<close>

definition pbind :: "'a parsed \<Rightarrow> ('a \<Rightarrow> tok list \<Rightarrow> 'b parsed) \<Rightarrow> 'b parsed" where
  "pbind m f = (case m of
       None \<Rightarrow> None
     | Some (Inl e) \<Rightarrow> Some (Inl e)
     | Some (Inr (a, ts)) \<Rightarrow> f a ts)"

abbreviation "p_return a ts \<equiv> Some (Inr (a, ts))"
abbreviation "p_fail \<equiv> Some (Inl ValueError)"

fun p_operand :: "nat \<Rightarrow> tok list \<Rightarrow> operand parsed"
  and p_items :: "nat \<Rightarrow> operand list \<Rightarrow> tok list \<Rightarrow> operand parsed" where
  "p_operand 0 ts = None"
| "p_operand (Suc n) ts =
     (case ts of
        [] \<Rightarrow> p_fail
      | TLit v # r \<Rightarrow> p_return (OLit v) r
      | TName p # r \<Rightarrow> p_return (OPath p) r
      | t # r \<Rightarrow> if t = TPunct (CHR ''['') then p_items n [] r else p_fail)"
| "p_items 0 items ts = None"
| "p_items (Suc n) items ts =
     (if ts \<noteq> [] \<and> hd ts = TPunct (CHR '']'') then p_return (OList items) (tl ts)
      else pbind (p_operand n ts) (\<lambda>x r.
        let items' = items @ [x] in
        if r \<noteq> [] \<and> hd r = TPunct (CHR '','') then p_items n items' (tl r)
        else if r \<noteq> [] \<and> hd r = TPunct (CHR '']'') then p_return (OList items') (tl r)
        else p_fail))"

text \<open>A boolean literal stands alone when nothing, \<open>and\<close>, \<open>or\<close> or a closing parenthesis follows.\<close>

definition literal_ends :: "tok list \<Rightarrow> bool" where
  "literal_ends r \<longleftrightarrow> r = [] \<or> hd r = TKw ''and'' \<or> hd r = TKw ''or'' \<or> hd r = TPunct (CHR '')'')"

fun is_comparator :: "tok \<Rightarrow> string option" where
  "is_comparator (TOp op) = Some op"
| "is_comparator (TKw k) = (if k = ''in'' then Some k else None)"
| "is_comparator _ = None"

definition p_comparison :: "nat \<Rightarrow> tok list \<Rightarrow> node parsed" where
  "p_comparison n ts =
     pbind (p_operand n ts) (\<lambda>left r.
       case r of
         [] \<Rightarrow> p_fail
       | t # r' \<Rightarrow> (case is_comparator t of
            None \<Rightarrow> p_fail
          | Some op \<Rightarrow> pbind (p_operand n r') (\<lambda>right r''. p_return (NCmp op left right) r'')))"

fun p_or :: "nat \<Rightarrow> tok list \<Rightarrow> node parsed"
  and p_or_rest :: "nat \<Rightarrow> node \<Rightarrow> tok list \<Rightarrow> node parsed"
  and p_and :: "nat \<Rightarrow> tok list \<Rightarrow> node parsed"
  and p_and_rest :: "nat \<Rightarrow> node \<Rightarrow> tok list \<Rightarrow> node parsed"
  and p_not :: "nat \<Rightarrow> tok list \<Rightarrow> node parsed" where
  "p_or 0 ts = None"
| "p_or (Suc n) ts = pbind (p_and n ts) (\<lambda>left r. p_or_rest n left r)"
| "p_or_rest 0 left ts = None"
| "p_or_rest (Suc n) left ts =
     (if ts \<noteq> [] \<and> hd ts = TKw ''or''
      then pbind (p_and n (tl ts)) (\<lambda>right r. p_or_rest n (NOr left right) r)
      else p_return left ts)"
| "p_and 0 ts = None"
| "p_and (Suc n) ts = pbind (p_not n ts) (\<lambda>left r. p_and_rest n left r)"
| "p_and_rest 0 left ts = None"
| "p_and_rest (Suc n) left ts =
     (if ts \<noteq> [] \<and> hd ts = TKw ''and''
      then pbind (p_not n (tl ts)) (\<lambda>right r. p_and_rest n (NAnd left right) r)
      else p_return left ts)"
| "p_not 0 ts = None"
| "p_not (Suc n) ts =
     (case ts of
        [] \<Rightarrow> p_comparison n ts
      | t # r \<Rightarrow>
          if t = TKw ''not'' then pbind (p_not n r) (\<lambda>x r'. p_return (NNot x) r')
          else if t = TPunct (CHR ''('') then
            pbind (p_or n r) (\<lambda>inner r'.
              if r' \<noteq> [] \<and> hd r' = TPunct (CHR '')'') then p_return inner (tl r') else p_fail)
          else (case t of
                  TLit (PyBool b) \<Rightarrow> if literal_ends r then p_return (NLit b) r else p_comparison n ts
                | _ \<Rightarrow> p_comparison n ts))"

definition parse_fuel :: "tok list \<Rightarrow> nat" where
  "parse_fuel ts = 4 * length ts + 4"

definition parse_tokens :: "tok list \<Rightarrow> (service_error + node) option" where
  "parse_tokens ts = (case p_or (parse_fuel ts) ts of
       None \<Rightarrow> None
     | Some (Inl e) \<Rightarrow> Some (Inl e)
     | Some (Inr (tree, r)) \<Rightarrow> Some (if r = [] then Inr tree else Inl ValueError))"

text \<open>\<open>None\<close>: not returning.\<close>

definition parse :: "string \<Rightarrow> (service_error + node) option" where
  "parse expression = (case tokens expression of Inl e \<Rightarrow> Some (Inl e) | Inr ts \<Rightarrow> parse_tokens ts)"

subsection \<open>The evaluator\<close>

function split_on :: "char \<Rightarrow> string \<Rightarrow> string list" where
  "split_on sep s =
     (case dropWhile (\<lambda>c. c \<noteq> sep) s of
        [] \<Rightarrow> [s]
      | _ # r \<Rightarrow> takeWhile (\<lambda>c. c \<noteq> sep) s # split_on sep r)"
  by auto
termination
  by (relation "measure (length \<circ> snd)")
    (auto, metis Suc_le_lessD length_Cons length_dropWhile_le)

fun walk :: "pyval \<Rightarrow> string list \<Rightarrow> pyval" where
  "walk current [] = current"
| "walk (PyObj kvs) (part # parts) =
     (case map_of kvs part of None \<Rightarrow> PyMissing | Some v \<Rightarrow> walk v parts)"
| "walk _ (part # parts) = PyMissing"

fun node_value :: "(rat \<Rightarrow> int) \<Rightarrow> args \<Rightarrow> operand \<Rightarrow> service_error + pyval" where
  "node_value lg args (OLit v) = Inr v"
| "node_value lg args (OList xs) = rbind (mapM (node_value lg args) xs) (\<lambda>vs. Inr (PyList vs))"
| "node_value lg args (OPath path) =
     (if path = SHAPE then rbind (arg_shape lg args) (\<lambda>s. Inr (PyStr s))
      else Inr (walk (PyObj args) (split_on (CHR ''.'') path)))"

text \<open>A comparison that raises \<open>TypeError\<close> is false.\<close>

definition py_compare :: "string \<Rightarrow> pyval \<Rightarrow> pyval \<Rightarrow> bool" where
  "py_compare op left right =
     (if left = PyMissing \<or> right = PyMissing then False
      else if op = ''=='' then py_eq left right
      else if op = ''!='' then \<not> py_eq left right
      else if op = ''in'' then py_in left right = Some True
      else if op = ''<'' then py_ord True left right = Some True
      else if op = ''<='' then py_ord False left right = Some True
      else if op = ''>'' then py_ord True right left = Some True
      else py_ord False right left = Some True)"

fun eval_node :: "(rat \<Rightarrow> int) \<Rightarrow> args \<Rightarrow> node \<Rightarrow> service_error + bool" where
  "eval_node lg args (NOr a b) = rbind (eval_node lg args a) (\<lambda>x. if x then Inr True else eval_node lg args b)"
| "eval_node lg args (NAnd a b) = rbind (eval_node lg args a) (\<lambda>x. if x then eval_node lg args b else Inr False)"
| "eval_node lg args (NNot a) = rbind (eval_node lg args a) (\<lambda>x. Inr (\<not> x))"
| "eval_node lg args (NCmp op a b) =
     rbind (node_value lg args a) (\<lambda>l. rbind (node_value lg args b) (\<lambda>r. Inr (py_compare op l r)))"
| "eval_node lg args (NLit b) = Inr b"

definition evaluate :: "(rat \<Rightarrow> int) \<Rightarrow> string \<Rightarrow> args \<Rightarrow> (service_error + bool) option" where
  "evaluate lg expression args =
     map_option (\<lambda>r. rbind r (eval_node lg args)) (parse expression)"

end
