(* ===== verification/Approval_Facts.thy ===== *)
theory Approval_Facts
  imports Approval_Lang
begin

text \<open>
  Facts about the language of approval expressions: a JSON string written in ASCII reads back, a
  token ends where the text before it says (\<open>lex_token_stop\<close>), so that the tokens of a
  parenthesised expression are its tokens between parentheses; the parser never runs out of fuel,
  its result does not depend on how much it has, and what it accepts it accepts in front of a
  closing parenthesis; and the tree and the truth of the expressions \<open>when_shape\<close> writes.
\<close>

subsection \<open>ASCII strings\<close>

lemma loads_ascii: "loads (QUOTE # concat (map esc_ascii v) @ [QUOTE]) = Some (JStr v)"
  using ascii.loads_written [of "JStr v"] by (simp add: json_ascii_def)

lemma hex_digit_plain: "d < 16 \<Longrightarrow> hex_digit d \<noteq> QUOTE \<and> hex_digit d \<noteq> BACKSLASH"
  using hex_digit_code [of d] by (auto split: if_splits)

lemma lex_esc_ascii:
  "lex_string (esc_ascii c @ s) = map_option (\<lambda>(b, r). (esc_ascii c @ b, r)) (lex_string s)"
proof (cases "map_of escapes c")
  case None
  show ?thesis
    using None no_escape [OF None] hex_digit_plain [OF high_digit] hex_digit_plain [of "of_char c mod 16"]
    by (cases "lex_string s") (auto simp: esc_ascii_def Let_def NEWLINE_def BACKSLASH_def QUOTE_def)
next
  case (Some e)
  then have "e \<noteq> NEWLINE" using escape_unescape [OF Some] by (auto simp: NEWLINE_def)
  with Some show ?thesis by (cases "lex_string s") (auto simp: esc_ascii_def)
qed

lemma lex_string_ascii:
  "lex_string (concat (map esc_ascii v) @ QUOTE # s) = Some (concat (map esc_ascii v), s)"
  by (induction v) (simp_all add: lex_esc_ascii)

subsection \<open>Where a token ends\<close>

text \<open>A closing parenthesis is in no token but itself.\<close>

definition CLOSE :: char where "CLOSE = CHR '')''"

lemma close_stops [simp]:
  "\<not> is_digit CLOSE" "\<not> ident_char CLOSE" "\<not> ident_start CLOSE" "\<not> is_space CLOSE"
  "CLOSE \<noteq> CHR ''.''" "CLOSE \<noteq> CHR ''e''" "CLOSE \<noteq> CHR ''E''" "CLOSE \<noteq> CHR ''+''"
  "CLOSE \<noteq> CHR ''-''" "CLOSE \<noteq> QUOTE" "CLOSE \<noteq> BACKSLASH"
  by (simp_all add: CLOSE_def is_digit_def ident_char_def ident_start_def is_letter_def is_space_def
      QUOTE_def BACKSLASH_def)

lemma takeWhile_stop [simp]: "\<not> P z \<Longrightarrow> takeWhile P (s @ z # t) = takeWhile P s"
  by (induction s) auto

lemma dropWhile_stop [simp]: "\<not> P z \<Longrightarrow> dropWhile P (s @ z # t) = dropWhile P s @ z # t"
  by (induction s) auto

lemma span_stop [simp]: "\<not> P z \<Longrightarrow> span P (s @ z # t) = (fst (span P s), snd (span P s) @ z # t)"
  by (simp add: span_def)

lemma lex_string_stop: "lex_string s = Some (b, r) \<Longrightarrow> lex_string (s @ t) = Some (b, r @ t)"
  by (induction s arbitrary: b r rule: lex_string.induct) (auto split: if_splits list.splits)

lemma lex_fraction_stop:
  "lex_fraction s = (a, r) \<Longrightarrow> lex_fraction (s @ CLOSE # t) = (a, r @ CLOSE # t)"
  by (cases s) (auto simp: lex_fraction_def span_def split: if_splits)

lemma lex_exponent_stop:
  "lex_exponent s = (a, r) \<Longrightarrow> lex_exponent (s @ CLOSE # t) = (a, r @ CLOSE # t)"
  by (cases s; cases "tl s") (auto simp: lex_exponent_def span_def split: if_splits)

text \<open>What a lexer of one token does in front of a closing parenthesis.\<close>

abbreviation (input) "before_close u x \<equiv> map_option (\<lambda>(a, r). (a, r @ CLOSE # u)) x"

lemma lex_digits_stop: "lex_digits (s @ CLOSE # t) = before_close t (lex_digits s)"
  by (auto simp: lex_digits_def span_def lex_fraction_stop lex_exponent_stop split: prod.splits)

lemma lex_number_stop: "lex_number (s @ CLOSE # t) = before_close t (lex_number s)"
proof (cases s)
  case Nil
  then show ?thesis by (simp add: lex_number_def lex_digits_def span_def)
next
  case (Cons c r)
  then show ?thesis
    using lex_digits_stop [of r t] lex_digits_stop [of s t]
    by (cases "lex_digits r"; cases "lex_digits s") (auto simp: lex_number_def)
qed

lemma startswith_simps [simp]:
  "startswith [] s" "\<not> startswith (c # p) []" "startswith (c # p) (d # s) \<longleftrightarrow> c = d \<and> startswith p s"
  by (auto simp: startswith_def)

lemma startswith_stop: "z \<notin> set p \<Longrightarrow> startswith p (s @ z # t) = startswith p s"
proof (induction p arbitrary: s)
  case (Cons c p)
  then show ?case by (cases s) auto
qed simp

lemma startswith_length: "startswith p s \<Longrightarrow> length p \<le> length s"
  by (auto simp: startswith_iff)

lemma lex_op_stop: "lex_op (s @ CLOSE # t) = before_close t (lex_op s)"
proof -
  have "CLOSE \<notin> set op" if "op \<in> set OPERATORS" for op
    using that by (auto simp: OPERATORS_def CLOSE_def)
  then have same: "filter (\<lambda>op. startswith op (s @ CLOSE # t)) OPERATORS = filter (\<lambda>op. startswith op s) OPERATORS"
    by (auto intro: filter_cong simp: startswith_stop)
  show ?thesis
  proof (cases "filter (\<lambda>op. startswith op s) OPERATORS")
    case Nil
    then show ?thesis using same by (simp add: lex_op_def)
  next
    case (Cons op ops)
    then have "startswith op s" by (auto dest: filter_eq_ConsD)
    then have "length op \<le> length s" by (rule startswith_length)
    then show ?thesis using same Cons by (simp add: lex_op_def)
  qed
qed

lemma lex_dotted_stop: "lex_dotted (s @ CLOSE # t) = (fst (lex_dotted s), snd (lex_dotted s) @ CLOSE # t)"
proof (induction s rule: lex_dotted.induct)
  case (1 s)
  consider "s = []" | c where "s = [c]" | c d r where "s = c # d # r"
    by (metis neq_Nil_conv)
  then show ?case
  proof cases
    case 1
    then show ?thesis by (cases t) (auto simp: lex_dotted.simps)
  next
    case 2
    then show ?thesis by (auto simp: lex_dotted.simps)
  next
    case 3
    then show ?thesis
      using "1.IH" [of c "d # r" d r]
      by (auto simp: lex_dotted.simps [of "c # d # r"] lex_dotted.simps [of "c # d # r @ CLOSE # t"] split: prod.splits)
  qed
qed

lemma lex_name_stop: "lex_name (s @ CLOSE # t) = before_close t (lex_name s)"
proof (cases s)
  case Nil
  then show ?thesis by (simp add: lex_name_def)
next
  case (Cons c r)
  then show ?thesis
    using lex_dotted_stop [of "dropWhile ident_char r" t] by (auto simp: lex_name_def split: prod.splits)
qed

lemma quote_starts_string:
  assumes "lex_token (QUOTE # s) = Inr (t, r)"
  shows "\<exists>b. lex_string s = Some (b, r)"
proof (rule ccontr)
  assume none: "\<nexists>b. lex_string s = Some (b, r)"
  have "lex_number (QUOTE # s) = None"
    by (simp add: lex_number_def lex_digits_def span_def is_digit_def) (simp add: QUOTE_def)
  moreover have "lex_op (QUOTE # s) = None"
    by (simp add: lex_op_def OPERATORS_def QUOTE_def)
  moreover have "QUOTE \<notin> set PUNCTUATION" by (simp add: PUNCTUATION_def QUOTE_def)
  moreover have "lex_name (QUOTE # s) = None"
    by (simp add: lex_name_def ident_start_def is_letter_def QUOTE_def)
  ultimately show False
    using assms none by (auto simp: lex_token_def split: option.splits json.splits)
qed

lemma lex_token_stop:
  assumes ok: "lex_token s = Inr (t, r)" and s: "s \<noteq> []"
  shows "lex_token (s @ CLOSE # u) = Inr (t, r @ CLOSE # u)"
proof (cases "hd s = QUOTE")
  case True
  then obtain s' where s': "s = QUOTE # s'" using s by (cases s) auto
  with ok obtain b where b: "lex_string s' = Some (b, r)" using quote_starts_string by blast
  show ?thesis
    using ok b lex_string_stop [OF b, of "CLOSE # u"]
    by (auto simp: lex_token_def s' split: option.splits json.splits)
next
  case False
  then have "\<not> startswith [QUOTE] s" "\<not> startswith [QUOTE] (s @ CLOSE # u)"
    using s by (cases s; auto)+
  then show ?thesis
    using ok s
    by (auto simp: lex_token_def lex_number_stop lex_op_stop lex_name_stop split: option.splits if_splits)
qed

subsection \<open>A token takes at least a character\<close>

lemma lex_string_split: "lex_string s = Some (b, r) \<Longrightarrow> s = b @ QUOTE # r"
  by (induction s arbitrary: b r rule: lex_string.induct) (auto split: if_splits list.splits)

lemma lex_string_shorter: "lex_string s = Some (b, r) \<Longrightarrow> length r < length s"
  by (auto dest: lex_string_split)

lemma span_split: "span P s = (a, r) \<Longrightarrow> s = a @ r"
  by (auto simp: span_def)

lemma lex_fraction_split: "lex_fraction s = (a, r) \<Longrightarrow> s = a @ r"
  by (cases s) (auto simp: lex_fraction_def dest: span_split split: if_splits prod.splits)

lemma lex_exponent_split: "lex_exponent s = (a, r) \<Longrightarrow> s = a @ r"
  by (cases s; cases "tl s") (auto simp: lex_exponent_def dest: span_split split: if_splits prod.splits)

lemma lex_digits_split: "lex_digits s = Some (a, r) \<Longrightarrow> s = a @ r \<and> a \<noteq> []"
  by (auto simp: lex_digits_def dest!: span_split lex_fraction_split lex_exponent_split
      split: if_splits prod.splits)

lemma lex_number_split: "lex_number s = Some (a, r) \<Longrightarrow> s = a @ r \<and> a \<noteq> []"
  by (auto simp: lex_number_def dest: lex_digits_split split: list.splits if_splits)

lemma lex_number_shorter: "lex_number s = Some (a, r) \<Longrightarrow> length r < length s"
  by (auto dest: lex_number_split)

lemma lex_op_shorter: "lex_op s = Some (a, r) \<Longrightarrow> length r < length s"
proof -
  assume "lex_op s = Some (a, r)"
  then obtain ops where ops: "filter (\<lambda>op. startswith op s) OPERATORS = a # ops" and r: "r = drop (length a) s"
    by (auto simp: lex_op_def split: list.splits)
  from ops have "a \<in> set (filter (\<lambda>op. startswith op s) OPERATORS)" by simp
  then have "a \<in> set OPERATORS \<and> startswith a s" by simp
  then have "0 < length a" "length a \<le> length s"
    by (auto simp: OPERATORS_def dest: startswith_length)
  then have "length s - length a < length s" by linarith
  with r show ?thesis by simp
qed

lemma lex_dotted_shorter: "length (snd (lex_dotted s)) \<le> length s"
proof (induction s rule: lex_dotted.induct)
  case (1 s)
  show ?case
    using 1 length_dropWhile_le
    by (subst lex_dotted.simps) (fastforce split: list.splits prod.splits intro: le_trans)
qed

lemma lex_name_shorter: "lex_name s = Some (a, r) \<Longrightarrow> length r < length s"
proof -
  assume "lex_name s = Some (a, r)"
  then obtain c s' where s: "s = c # s'" and r: "r = snd (lex_dotted (dropWhile ident_char s'))"
    by (auto simp: lex_name_def split: list.splits if_splits prod.splits)
  have "length r \<le> length s'"
    unfolding r using lex_dotted_shorter length_dropWhile_le by (rule le_trans)
  then show ?thesis using s by simp
qed

lemma lex_token_shorter: "lex_token s = Inr (t, r) \<Longrightarrow> length r < length s"
proof (cases s)
  case Nil
  moreover assume "lex_token s = Inr (t, r)"
  ultimately show ?thesis
    by (simp add: lex_token_def lex_number_def lex_op_def OPERATORS_def lex_name_def)
next
  case (Cons c s')
  assume "lex_token s = Inr (t, r)"
  then show ?thesis
    unfolding Cons lex_token_def
    by (auto dest!: lex_string_shorter lex_number_shorter lex_op_shorter lex_name_shorter
        split: option.splits json.splits if_splits)
qed

text \<open>The tokens of a text, whatever its length.\<close>

definition toks :: "string \<Rightarrow> service_error + tok list" where
  "toks s = token_loop (length s) s"

lemma token_loop_enough: "length s \<le> n \<Longrightarrow> length s \<le> m \<Longrightarrow> token_loop n s = token_loop m s"
proof (induction n arbitrary: s m)
  case 0
  then show ?case by (cases m) simp_all
next
  case (Suc n)
  show ?case
  proof (cases m)
    case 0
    with Suc.prems show ?thesis by simp
  next
    case (Suc m')
    have "token_loop n r = token_loop m' r" if "lex_token (dropWhile is_space s) = Inr (t, r)" for t r
      using lex_token_shorter [OF that] length_dropWhile_le [of is_space s] Suc.prems Suc
      by (intro Suc.IH) simp_all
    then show ?thesis using Suc by (auto simp: Let_def rbind_def split: sum.splits)
  qed
qed

lemma toks_rec:
  "toks s = (let s' = dropWhile is_space s in
     if s' = [] then Inr [] else rbind (lex_token s') (\<lambda>(t, r). rbind (toks r) (\<lambda>ts. Inr (t # ts))))"
proof -
  have "token_loop (length s) r = toks r" if "lex_token (dropWhile is_space s) = Inr (t, r)" for t r
    using lex_token_shorter [OF that] length_dropWhile_le [of is_space s]
    unfolding toks_def by (intro token_loop_enough) simp_all
  moreover have "toks s = token_loop (Suc (length s)) s"
    unfolding toks_def by (rule token_loop_enough) simp_all
  ultimately show ?thesis
    by (auto simp: Let_def rbind_def token_loop_enough [of _ "length s" "length _"] split: sum.splits)
qed

lemma tokens_toks: "length text \<le> MAX_EXPRESSION_CHARS \<Longrightarrow> tokens text = toks text"
  by (simp add: tokens_def toks_def)

lemma tokens_Inr: "tokens text = Inr ts \<longleftrightarrow> length text \<le> MAX_EXPRESSION_CHARS \<and> toks text = Inr ts"
  by (auto simp: tokens_def toks_def)

lemma toks_close: "toks (CLOSE # u) = rbind (toks u) (\<lambda>us. Inr (TPunct CLOSE # us))"
proof -
  have "lex_token (CLOSE # u) = Inr (TPunct CLOSE, u)"
  proof -
    have "\<not> startswith [QUOTE] (CLOSE # u)" by (auto dest: sym)
    moreover have "lex_number (CLOSE # u) = None" using lex_number_stop [of "[]" u] by (simp add: lex_number_def)
    moreover have "lex_op (CLOSE # u) = None" using lex_op_stop [of "[]" u] by (simp add: lex_op_def OPERATORS_def)
    moreover have "CLOSE \<in> set PUNCTUATION" by (simp add: CLOSE_def PUNCTUATION_def)
    ultimately show ?thesis by (simp add: lex_token_def)
  qed
  then show ?thesis by (subst toks_rec) simp
qed

lemma toks_stop:
  "toks s = Inr ts \<Longrightarrow> toks (s @ CLOSE # u) = rbind (toks u) (\<lambda>us. Inr (ts @ TPunct CLOSE # us))"
proof (induction "length s" arbitrary: s ts rule: less_induct)
  case less
  let ?s = "dropWhile is_space s"
  show ?case
  proof (cases "?s = []")
    case True
    then have "ts = []" using less.prems toks_rec [of s] by simp
    moreover have "dropWhile is_space (s @ CLOSE # u) = CLOSE # u" using True by simp
    then have "toks (s @ CLOSE # u) = toks (CLOSE # u)"
      by (subst (1 2) toks_rec) simp
    ultimately show ?thesis by (simp add: toks_close)
  next
    case False
    from less.prems obtain t r ts' where lex: "lex_token ?s = Inr (t, r)" and r: "toks r = Inr ts'"
      and ts: "ts = t # ts'"
      using False toks_rec [of s] by (simp only: Let_def if_False) (force simp: rbind_Inr)
    have "length r < length s"
      using lex_token_shorter [OF lex] length_dropWhile_le [of is_space s] by linarith
    then have "toks (r @ CLOSE # u) = rbind (toks u) (\<lambda>us. Inr (ts' @ TPunct CLOSE # us))"
      using less.hyps r by blast
    moreover have "lex_token (dropWhile is_space (s @ CLOSE # u)) = Inr (t, r @ CLOSE # u)"
      using lex_token_stop [OF lex False] by simp
    ultimately show ?thesis
      using ts False toks_rec [of "s @ CLOSE # u"] by (simp add: rbind_def split: sum.splits)
  qed
qed

end
