(* ===== verification/Approval_Parser.thy ===== *)
theory Approval_Parser
  imports Approval_Facts
begin

text \<open>
  The parser of approval expressions: it consumes tokens, more fuel never changes a result, the
  fuel \<open>parse_fuel\<close> is always enough (so \<open>parse\<close> returns), and what it accepts is accepted with the
  same tree in front of a closing parenthesis, the rest being left.
\<close>

lemma pbind_Inr [simp]:
  "pbind m f = Some (Inr z) \<longleftrightarrow> (\<exists>a r. m = Some (Inr (a, r)) \<and> f a r = Some (Inr z))"
  by (auto simp: pbind_def split: option.splits sum.splits)

lemma pbind_Some: "pbind m f = Some z \<longleftrightarrow>
    (\<exists>e. m = Some (Inl e) \<and> z = Inl e) \<or> (\<exists>a r. m = Some (Inr (a, r)) \<and> f a r = Some z)"
  by (auto simp: pbind_def split: option.splits sum.splits)

lemma pbind_None: "pbind m f = None \<longleftrightarrow> m = None \<or> (\<exists>a r. m = Some (Inr (a, r)) \<and> f a r = None)"
  by (auto simp: pbind_def split: option.splits sum.splits)

lemmas parser_splits = list.splits tok.splits pyval.splits if_splits option.splits

subsection \<open>Consumption\<close>

lemma operand_consumes:
  "p_operand n ts = Some (Inr (x, r)) \<Longrightarrow> length r < length ts"
  "p_items n items ts = Some (Inr (x, r)) \<Longrightarrow> length r < length ts"
proof (induction n ts and n items ts arbitrary: x r and x r rule: p_operand_p_items.induct)
  case (2 n ts)
  then show ?case by (fastforce split: parser_splits)
next
  case (4 n items ts)
  show ?case
  proof (cases "ts \<noteq> [] \<and> hd ts = TPunct (CHR '']'')")
    case True
    with "4.prems" show ?thesis by auto
  next
    case False
    with "4.prems" obtain y r' where y: "p_operand n ts = Some (Inr (y, r'))"
      and rest: "(if r' \<noteq> [] \<and> hd r' = TPunct (CHR '','') then p_items n (items @ [y]) (tl r')
        else if r' \<noteq> [] \<and> hd r' = TPunct (CHR '']'') then p_return (OList (items @ [y])) (tl r')
        else p_fail) = Some (Inr (x, r))"
      by (auto simp: Let_def)
    have "length r' < length ts" using "4.IH"(1) False y by blast
    moreover have "length r \<le> length r'"
    proof (cases "r' \<noteq> [] \<and> hd r' = TPunct (CHR '','')")
      case True
      then have "length r < length (tl r')" using "4.IH"(2) [OF False refl] rest by simp
      then show ?thesis by simp
    next
      case no: False
      then show ?thesis using rest by (auto split: if_splits)
    qed
    ultimately show ?thesis by simp
  qed
qed simp_all

lemma comparison_Inr:
  "p_comparison n ts = Some (Inr (x, r)) \<longleftrightarrow>
     (\<exists>a b t op r'. p_operand n ts = Some (Inr (a, t # r')) \<and> is_comparator t = Some op \<and>
        p_operand n r' = Some (Inr (b, r)) \<and> x = NCmp op a b)"
proof (cases "p_operand n ts")
  case (Some z)
  then show ?thesis
  proof (cases z)
    case (Inr ar)
    obtain a s where "ar = (a, s)" by (cases ar)
    with Some Inr show ?thesis by (cases s) (auto simp: p_comparison_def split: option.splits)
  qed (auto simp: p_comparison_def)
qed (auto simp: p_comparison_def)

lemma comparison_consumes: "p_comparison n ts = Some (Inr (x, r)) \<Longrightarrow> length r < length ts"
  by (fastforce simp: comparison_Inr dest: operand_consumes(1))

lemma parser_consumes:
  "p_or n ts = Some (Inr (x, r)) \<Longrightarrow> length r < length ts"
  "p_or_rest n left ts = Some (Inr (x, r)) \<Longrightarrow> length r \<le> length ts"
  "p_and n ts = Some (Inr (x, r)) \<Longrightarrow> length r < length ts"
  "p_and_rest n left ts = Some (Inr (x, r)) \<Longrightarrow> length r \<le> length ts"
  "p_not n ts = Some (Inr (x, r)) \<Longrightarrow> length r < length ts"
proof (induction n ts and n left ts and n ts and n left ts and n ts
    arbitrary: x r and x r and x r and x r and x r rule: p_or_p_or_rest_p_and_p_and_rest_p_not.induct)
  case (2 n ts)
  then show ?case by (fastforce dest: less_le_trans)
next
  case (4 n left ts)
  then show ?case by (cases ts) (fastforce split: if_splits)+
next
  case (6 n ts)
  then show ?case by fastforce
next
  case (8 n left ts)
  then show ?case by (cases ts) (fastforce split: if_splits)+
next
  case (10 n ts)
  then show ?case
    by (cases ts) (fastforce split: parser_splits dest: comparison_consumes)+
qed simp_all

subsection \<open>Fuel\<close>

text \<open>\<open>approx a b\<close>: with the fuel of \<open>a\<close> the result of \<open>b\<close>, or none.\<close>

definition approx :: "'a parsed \<Rightarrow> 'a parsed \<Rightarrow> bool" where
  "approx a b \<longleftrightarrow> a = None \<or> a = b"

lemma approx_refl [simp]: "approx a a" "approx None a"
  by (simp_all add: approx_def)

lemma approx_pbind:
  "approx m m' \<Longrightarrow> (\<And>a r. approx (f a r) (f' a r)) \<Longrightarrow> approx (pbind m f) (pbind m' f')"
  by (auto simp: approx_def pbind_def split: option.split sum.split)

lemma approx_trans: "approx a b \<Longrightarrow> approx b c \<Longrightarrow> approx a c"
  by (auto simp: approx_def)

lemma approx_if:
  "(c \<Longrightarrow> approx a a') \<Longrightarrow> (\<not> c \<Longrightarrow> approx b b') \<Longrightarrow> approx (if c then a else b) (if c then a' else b')"
  by simp

lemma operand_more: "approx (p_operand n ts) (p_operand (Suc n) ts) \<and>
    (\<forall>items. approx (p_items n items ts) (p_items (Suc n) items ts))"
proof (induction n arbitrary: ts)
  case (Suc n)
  have operand: "approx (p_operand n r) (p_operand (Suc n) r)"
    and items: "approx (p_items n xs r) (p_items (Suc n) xs r)" for r xs using Suc by blast+
  have "approx (p_operand (Suc n) ts) (p_operand (Suc (Suc n)) ts)"
    using items by (simp del: p_items.simps split: list.split tok.split)
  moreover have "approx (p_items (Suc n) xs ts) (p_items (Suc (Suc n)) xs ts)" for xs
    by (subst p_items.simps, subst p_items.simps)
      (unfold Let_def, intro approx_if approx_pbind operand items approx_refl)
  ultimately show ?case by blast
qed simp

lemma comparison_more: "approx (p_comparison n ts) (p_comparison (Suc n) ts)"
  unfolding p_comparison_def
  using operand_more by (auto simp del: p_operand.simps intro!: approx_pbind split: list.split option.split)

lemma parser_more:
  "approx (p_or n ts) (p_or (Suc n) ts) \<and> approx (p_and n ts) (p_and (Suc n) ts) \<and>
   approx (p_not n ts) (p_not (Suc n) ts) \<and>
   (\<forall>left. approx (p_or_rest n left ts) (p_or_rest (Suc n) left ts) \<and>
           approx (p_and_rest n left ts) (p_and_rest (Suc n) left ts))"
proof (induction n arbitrary: ts)
  case (Suc n)
  note simps = p_or.simps(2) p_and.simps(2) p_not.simps(2) p_or_rest.simps(2) p_and_rest.simps(2)
  have ih: "approx (p_or n r) (p_or (Suc n) r)" "approx (p_and n r) (p_and (Suc n) r)"
    "approx (p_not n r) (p_not (Suc n) r)" "approx (p_or_rest n x r) (p_or_rest (Suc n) x r)"
    "approx (p_and_rest n x r) (p_and_rest (Suc n) x r)" for r x using Suc by blast+
  have "approx (p_or (Suc n) ts) (p_or (Suc (Suc n)) ts)"
    by (subst simps, subst simps) (intro approx_pbind ih)
  moreover have "approx (p_and (Suc n) ts) (p_and (Suc (Suc n)) ts)"
    by (subst simps, subst simps) (intro approx_pbind ih)
  moreover have "approx (p_or_rest (Suc n) x ts) (p_or_rest (Suc (Suc n)) x ts)" for x
    by (subst simps, subst simps) (intro approx_if approx_pbind ih approx_refl)
  moreover have "approx (p_and_rest (Suc n) x ts) (p_and_rest (Suc (Suc n)) x ts)" for x
    by (subst simps, subst simps) (intro approx_if approx_pbind ih approx_refl)
  moreover have "approx (p_not (Suc n) ts) (p_not (Suc (Suc n)) ts)"
    by (subst simps, subst simps)
      (auto simp: ih comparison_more simp del: p_or.simps p_not.simps intro!: approx_if approx_pbind
        split: list.split tok.split pyval.split)
  ultimately show ?case by blast
qed simp

text \<open>A more generous supply changes nothing.\<close>

lemma more_fuel:
  assumes "\<And>n. approx (f n) (f (Suc n))" and "f n = Some z" and "n \<le> m"
  shows "f m = Some z"
  using assms(3)
proof (induction m rule: dec_induct)
  case (step m)
  then show ?case using assms(1) [of m] by (simp add: approx_def)
qed (rule assms(2))

lemma p_or_more: "p_or n ts = Some z \<Longrightarrow> n \<le> m \<Longrightarrow> p_or m ts = Some z"
  by (rule more_fuel [of "\<lambda>n. p_or n ts"]) (simp_all add: parser_more del: p_or.simps)

subsection \<open>Enough fuel\<close>

definition returns :: "'a parsed \<Rightarrow> bool" where
  "returns m \<longleftrightarrow> m \<noteq> None"

lemma returns_simps [simp]:
  "\<not> returns None" "returns (Some z)"
  "returns (pbind m f) \<longleftrightarrow> returns m \<and> (\<forall>a r. m = Some (Inr (a, r)) \<longrightarrow> returns (f a r))"
  by (auto simp: returns_def pbind_None)

lemma operand_returns:
  "(2 * length ts + 1 \<le> n \<longrightarrow> returns (p_operand n ts)) \<and>
   (\<forall>items. 2 * length ts + 2 \<le> n \<longrightarrow> returns (p_items n items ts))"
proof (induction n arbitrary: ts)
  case (Suc n)
  have operand: "2 * length r + 1 \<le> n \<Longrightarrow> returns (p_operand n r)"
    and items: "2 * length r + 2 \<le> n \<Longrightarrow> returns (p_items n xs r)" for r xs using Suc by blast+
  have "returns (p_operand (Suc n) ts)" if "2 * length ts + 1 \<le> Suc n"
    using that items by (subst p_operand.simps) (auto split: list.split tok.split)
  moreover have "returns (p_items (Suc n) xs ts)" if le: "2 * length ts + 2 \<le> Suc n" for xs
  proof -
    have step: "returns (p_items n ys (tl r))" if "p_operand n ts = Some (Inr (x, r))" for x r ys
      using operand_consumes(1) [OF that] le by (intro items) simp
    show ?thesis
      using le operand [of ts] step
      by (subst p_items.simps) (auto simp: Let_def simp del: p_items.simps p_operand.simps)
  qed
  ultimately show ?case by blast
qed simp

lemma comparison_returns: "2 * length ts + 1 \<le> n \<Longrightarrow> returns (p_comparison n ts)"
proof -
  assume le: "2 * length ts + 1 \<le> n"
  have right: "returns (p_operand n r')" if "p_operand n ts = Some (Inr (a, t # r'))" for a t r'
    using operand_consumes(1) [OF that] le by (intro mp [OF conjunct1 [OF operand_returns]]) simp
  show ?thesis
    unfolding p_comparison_def
    using le operand_returns [of ts n] right
    by (auto simp del: p_operand.simps split: list.split option.split)
qed

lemma parser_returns:
  "(4 * length ts + 4 \<le> n \<longrightarrow> returns (p_or n ts)) \<and> (4 * length ts + 3 \<le> n \<longrightarrow> returns (p_and n ts)) \<and>
   (4 * length ts + 2 \<le> n \<longrightarrow> returns (p_not n ts)) \<and>
   (\<forall>left. 4 * length ts + 1 \<le> n \<longrightarrow> returns (p_or_rest n left ts) \<and> returns (p_and_rest n left ts))"
proof (induction n arbitrary: ts)
  case (Suc n)
  have or: "4 * length r + 4 \<le> n \<Longrightarrow> returns (p_or n r)"
    and "and": "4 * length r + 3 \<le> n \<Longrightarrow> returns (p_and n r)"
    and "not": "4 * length r + 2 \<le> n \<Longrightarrow> returns (p_not n r)"
    and rests: "4 * length r + 1 \<le> n \<Longrightarrow> returns (p_or_rest n x r)"
      "4 * length r + 1 \<le> n \<Longrightarrow> returns (p_and_rest n x r)" for r x
    using Suc by blast+
  have "returns (p_or (Suc n) ts)" if le: "4 * length ts + 4 \<le> Suc n"
    using le "and" [of ts] rests
    by (subst p_or.simps) (fastforce dest!: parser_consumes(3))
  moreover have "returns (p_and (Suc n) ts)" if le: "4 * length ts + 3 \<le> Suc n"
    using le "not" [of ts] rests
    by (subst p_and.simps) (fastforce dest!: parser_consumes(5))
  moreover have "returns (p_or_rest (Suc n) x ts)" if le: "4 * length ts + 1 \<le> Suc n" for x
    using le "and" [of "tl ts"] rests
    by (subst p_or_rest.simps) (cases ts; fastforce dest!: parser_consumes(3))
  moreover have "returns (p_and_rest (Suc n) x ts)" if le: "4 * length ts + 1 \<le> Suc n" for x
    using le "not" [of "tl ts"] rests
    by (subst p_and_rest.simps) (cases ts; fastforce dest!: parser_consumes(5))
  moreover have "returns (p_not (Suc n) ts)" if le: "4 * length ts + 2 \<le> Suc n"
    using le or "not" comparison_returns
    by (subst p_not.simps)
      (auto simp del: p_or.simps p_not.simps split: list.split tok.split pyval.split)
  ultimately show ?case by blast
qed simp

lemma parse_tokens_returns: "parse_tokens ts \<noteq> None"
proof -
  have "returns (p_or (parse_fuel ts) ts)"
    using parser_returns [of ts "parse_fuel ts"] by (simp add: parse_fuel_def del: p_or.simps)
  then show ?thesis
    by (auto simp: parse_tokens_def returns_def simp del: p_or.simps split: option.splits sum.splits)
qed

subsection \<open>In front of a closing parenthesis\<close>

definition CLOSING :: tok where "CLOSING = TPunct CLOSE"

lemma closing_marks [simp]:
  "CLOSING \<noteq> TKw k" "CLOSING \<noteq> TPunct (CHR '']'')" "CLOSING \<noteq> TPunct (CHR '','')"
  "CLOSING \<noteq> TPunct (CHR ''['')" "CLOSING \<noteq> TLit v" "CLOSING \<noteq> TName p" "CLOSING \<noteq> TOp op"
  by (simp_all add: CLOSING_def CLOSE_def)

lemma operand_closed:
  "p_operand n ts = Some (Inr (x, r)) \<Longrightarrow> p_operand n (ts @ CLOSING # u) = Some (Inr (x, r @ CLOSING # u))"
  "p_items n items ts = Some (Inr (x, r)) \<Longrightarrow> p_items n items (ts @ CLOSING # u) = Some (Inr (x, r @ CLOSING # u))"
proof (induction n arbitrary: ts x r items)
  case (Suc n)
  {
    case 1
    then show ?case using Suc by (auto split: list.splits tok.splits if_splits)
  next
    case 2
    then show ?case
      using Suc by (cases ts) (fastforce simp: Let_def neq_Nil_conv split: if_splits)+
  }
qed simp_all

lemma comparison_closed:
  "p_comparison n ts = Some (Inr (x, r)) \<Longrightarrow> p_comparison n (ts @ CLOSING # u) = Some (Inr (x, r @ CLOSING # u))"
proof -
  assume "p_comparison n ts = Some (Inr (x, r))"
  then obtain a b t op r' where "p_operand n ts = Some (Inr (a, t # r'))" and "is_comparator t = Some op"
    and "p_operand n r' = Some (Inr (b, r))" and "x = NCmp op a b"
    unfolding comparison_Inr by blast
  then have "p_operand n (ts @ CLOSING # u) = Some (Inr (a, t # (r' @ CLOSING # u)))"
    and "p_operand n (r' @ CLOSING # u) = Some (Inr (b, r @ CLOSING # u))"
    and "is_comparator t = Some op" and "x = NCmp op a b"
    using operand_closed(1) [of n ts a "t # r'" u] operand_closed(1) [of n r' b r u] by simp_all
  then show ?thesis unfolding comparison_Inr by blast
qed

lemma literal_ends_closed [simp]: "literal_ends (r @ CLOSING # u) \<longleftrightarrow> literal_ends r"
  by (cases r) (auto simp: literal_ends_def CLOSING_def CLOSE_def)

lemma parser_closed:
  "(p_or n ts = Some (Inr (x, r)) \<longrightarrow> p_or n (ts @ CLOSING # u) = Some (Inr (x, r @ CLOSING # u))) \<and>
   (p_and n ts = Some (Inr (x, r)) \<longrightarrow> p_and n (ts @ CLOSING # u) = Some (Inr (x, r @ CLOSING # u))) \<and>
   (p_not n ts = Some (Inr (x, r)) \<longrightarrow> p_not n (ts @ CLOSING # u) = Some (Inr (x, r @ CLOSING # u))) \<and>
   (\<forall>left.
     (p_or_rest n left ts = Some (Inr (x, r)) \<longrightarrow>
        p_or_rest n left (ts @ CLOSING # u) = Some (Inr (x, r @ CLOSING # u))) \<and>
     (p_and_rest n left ts = Some (Inr (x, r)) \<longrightarrow>
        p_and_rest n left (ts @ CLOSING # u) = Some (Inr (x, r @ CLOSING # u))))"
proof (induction n arbitrary: ts x r)
  case (Suc n)
  have ih: "p_or n ts = Some (Inr (x, r)) \<Longrightarrow> p_or n (ts @ CLOSING # u) = Some (Inr (x, r @ CLOSING # u))"
    "p_and n ts = Some (Inr (x, r)) \<Longrightarrow> p_and n (ts @ CLOSING # u) = Some (Inr (x, r @ CLOSING # u))"
    "p_not n ts = Some (Inr (x, r)) \<Longrightarrow> p_not n (ts @ CLOSING # u) = Some (Inr (x, r @ CLOSING # u))"
    "p_or_rest n l ts = Some (Inr (x, r)) \<Longrightarrow> p_or_rest n l (ts @ CLOSING # u) = Some (Inr (x, r @ CLOSING # u))"
    "p_and_rest n l ts = Some (Inr (x, r)) \<Longrightarrow> p_and_rest n l (ts @ CLOSING # u) = Some (Inr (x, r @ CLOSING # u))"
    for ts x r l using Suc by blast+
  have "p_or (Suc n) (ts @ CLOSING # u) = Some (Inr (x, r @ CLOSING # u))"
    if "p_or (Suc n) ts = Some (Inr (x, r))"
    using that unfolding p_or.simps pbind_Inr by (blast intro: ih)
  moreover have "p_and (Suc n) (ts @ CLOSING # u) = Some (Inr (x, r @ CLOSING # u))"
    if "p_and (Suc n) ts = Some (Inr (x, r))"
    using that unfolding p_and.simps pbind_Inr by (blast intro: ih)
  moreover have "p_or_rest (Suc n) l (ts @ CLOSING # u) = Some (Inr (x, r @ CLOSING # u))"
    if "p_or_rest (Suc n) l ts = Some (Inr (x, r))" for l
  proof (cases ts)
    case (Cons t ts')
    show ?thesis
    proof (cases "t = TKw ''or''")
      case True
      with that Cons have "pbind (p_and n ts') (\<lambda>right r. p_or_rest n (NOr l right) r) = Some (Inr (x, r))" by simp
      then have "pbind (p_and n (ts' @ CLOSING # u)) (\<lambda>right r. p_or_rest n (NOr l right) r) = Some (Inr (x, r @ CLOSING # u))"
        unfolding pbind_Inr by (blast intro: ih)
      then show ?thesis using True Cons by simp
    qed (use that Cons in \<open>auto simp: neq_Nil_conv\<close>)
  qed (use that in auto)
  moreover have "p_and_rest (Suc n) l (ts @ CLOSING # u) = Some (Inr (x, r @ CLOSING # u))"
    if "p_and_rest (Suc n) l ts = Some (Inr (x, r))" for l
  proof (cases ts)
    case (Cons t ts')
    show ?thesis
    proof (cases "t = TKw ''and''")
      case True
      with that Cons have "pbind (p_not n ts') (\<lambda>right r. p_and_rest n (NAnd l right) r) = Some (Inr (x, r))" by simp
      then have "pbind (p_not n (ts' @ CLOSING # u)) (\<lambda>right r. p_and_rest n (NAnd l right) r) = Some (Inr (x, r @ CLOSING # u))"
        unfolding pbind_Inr by (blast intro: ih)
      then show ?thesis using True Cons by simp
    qed (use that Cons in \<open>auto simp: neq_Nil_conv\<close>)
  qed (use that in auto)
  moreover have "p_not (Suc n) (ts @ CLOSING # u) = Some (Inr (x, r @ CLOSING # u))"
    if prem: "p_not (Suc n) ts = Some (Inr (x, r))"
  proof (cases ts)
    case Nil
    with prem have "p_comparison n [] = Some (Inr (x, r))" by simp
    then show ?thesis by (auto dest: comparison_consumes)
  next
    case (Cons t ts')
    note comparison = comparison_closed [of n "t # ts'" x r u, simplified]
    consider "t = TKw ''not''" | "t = TPunct (CHR ''('')" | b where "t = TLit (PyBool b)"
      | "t \<noteq> TKw ''not''" "t \<noteq> TPunct (CHR ''('')" "\<nexists>b. t = TLit (PyBool b)"
      by blast
    then show ?thesis
    proof cases
      case 1
      with prem Cons obtain y where "p_not n ts' = Some (Inr (y, r))" and "x = NNot y" by auto
      then show ?thesis using 1 Cons ih(3) [of ts' y r] by simp
    next
      case 2
      from prem have "pbind (p_or n ts') (\<lambda>inner r'.
          if r' \<noteq> [] \<and> hd r' = TPunct (CHR '')'') then p_return inner (tl r') else p_fail) = Some (Inr (x, r))"
        using Cons 2 by simp
      then obtain r' where "p_or n ts' = Some (Inr (x, TPunct (CHR '')'') # r'))" and "r = r'"
        by (auto simp: neq_Nil_conv split: if_splits)
      then show ?thesis using Cons 2 ih(1) [of ts' x "TPunct (CHR '')'') # r'"] by simp
    next
      case (3 b)
      then show ?thesis using prem Cons comparison by (auto split: if_splits)
    next
      case 4
      then show ?thesis using prem Cons comparison by (auto split: tok.splits pyval.splits)
    qed
  qed
  ultimately show ?case by blast
qed simp

text \<open>So an expression between parentheses is that expression.\<close>

lemma parenthesised:
  assumes "parse_tokens ts = Some (Inr tree)" and "parse_fuel ts + 1 \<le> n"
  shows "p_not n (TPunct (CHR ''('') # ts @ CLOSING # u) = Some (Inr (tree, u))"
proof -
  obtain m where n: "n = Suc m" and m: "parse_fuel ts \<le> m" using assms(2) by (cases n) auto
  have "p_or (parse_fuel ts) ts = Some (Inr (tree, []))"
    using assms(1) by (auto simp: parse_tokens_def split: option.splits sum.splits if_splits)
  then have "p_or m (ts @ CLOSING # u) = Some (Inr (tree, CLOSING # u))"
    using p_or_more [OF _ m] parser_closed [of m ts tree "[]" u] by simp
  then show ?thesis by (simp add: n CLOSING_def CLOSE_def)
qed

subsection \<open>Every error is a \<open>ValueError\<close>\<close>

definition value_error :: "'a parsed \<Rightarrow> bool" where
  "value_error m \<longleftrightarrow> (\<forall>e. m = Some (Inl e) \<longrightarrow> e = ValueError)"

lemma value_error_simps [simp]:
  "value_error None" "value_error (Some (Inr z))" "value_error p_fail"
  by (simp_all add: value_error_def)

lemma value_error_pbind:
  "value_error m \<Longrightarrow> (\<And>a r. value_error (f a r)) \<Longrightarrow> value_error (pbind m f)"
  by (auto simp: value_error_def pbind_Some)

lemma operand_error: "value_error (p_operand n ts) \<and> (\<forall>items. value_error (p_items n items ts))"
proof (induction n arbitrary: ts)
  case (Suc n)
  have ih: "value_error (p_operand n r)" "value_error (p_items n xs r)" for r xs using Suc by blast+
  have "value_error (p_operand (Suc n) ts)"
    using ih by (subst p_operand.simps) (auto split: list.split tok.split)
  moreover have "value_error (p_items (Suc n) xs ts)" for xs
    by (subst p_items.simps) (auto simp: Let_def ih intro!: value_error_pbind simp del: p_operand.simps p_items.simps)
  ultimately show ?case by blast
qed simp

lemma comparison_error: "value_error (p_comparison n ts)"
  unfolding p_comparison_def
  using operand_error by (auto intro!: value_error_pbind simp del: p_operand.simps split: list.split option.split)

lemma parser_error:
  "value_error (p_or n ts) \<and> value_error (p_and n ts) \<and> value_error (p_not n ts) \<and>
   (\<forall>left. value_error (p_or_rest n left ts) \<and> value_error (p_and_rest n left ts))"
proof (induction n arbitrary: ts)
  case (Suc n)
  have ih: "value_error (p_or n r)" "value_error (p_and n r)" "value_error (p_not n r)"
    "value_error (p_or_rest n x r)" "value_error (p_and_rest n x r)" for r x using Suc by blast+
  have "value_error (p_or (Suc n) ts)" "value_error (p_and (Suc n) ts)"
    by (subst p_or.simps, intro value_error_pbind ih) (subst p_and.simps, intro value_error_pbind ih)
  moreover have "value_error (p_or_rest (Suc n) x ts)" for x
    by (subst p_or_rest.simps) (auto intro!: value_error_pbind ih simp del: p_and.simps p_or_rest.simps)
  moreover have "value_error (p_and_rest (Suc n) x ts)" for x
    by (subst p_and_rest.simps) (auto intro!: value_error_pbind ih simp del: p_not.simps p_and_rest.simps)
  moreover have "value_error (p_not (Suc n) ts)"
    by (subst p_not.simps)
      (auto simp: ih comparison_error simp del: p_or.simps p_not.simps intro!: value_error_pbind
        split: list.split tok.split pyval.split)
  ultimately show ?case by blast
qed simp

lemma lex_token_error: "lex_token s = Inl e \<Longrightarrow> e = ValueError"
  by (auto simp: lex_token_def split: option.splits json.splits if_splits)

lemma token_loop_error: "token_loop n s = Inl e \<Longrightarrow> e = ValueError"
  by (induction n arbitrary: s) (auto simp: Let_def rbind_Inl dest: lex_token_error split: if_splits prod.splits)


end
