(* ===== verification/Tool_Catalog.thy ===== *)
theory Tool_Catalog
  imports Approval_Lang Ids
begin

text \<open>
  The tool catalog (\<open>domain/tools.py\<close>, \<open>adapters/db/tool_repository.py\<close>): the descriptor of a tool
  with its risk tier, and the repository's \<open>by_name\<close>, \<open>ensure\<close> and \<open>upsert\<close> on the table \<open>tools\<close>,
  whose rows are unique per (tenant, workspace, name), the empty workspace being the tenant's own.

  \<^item> \<open>stable_hash\<close>, an argument, is the SHA-256 of the canonical JSON of a value.
  \<^item> \<open>now\<close> is the clock and \<open>tid\<close> the identifier \<open>new_id("tool")\<close> draws.
  \<^item> A row is its descriptor; \<open>workspace\<close> is the workspace column, \<open>workspace_id or ""\<close>.
\<close>

datatype SideEffects = READ | WRITE | IRREVERSIBLE

record annotations =
  an_read_only :: "bool option"
  an_destructive :: "bool option"
  an_idempotent :: "bool option"
  an_open_world :: "bool option"

definition no_annotations :: annotations where
  "no_annotations = \<lparr> an_read_only = None, an_destructive = None, an_idempotent = None, an_open_world = None \<rparr>"

definition risk_tier :: "SideEffects option \<Rightarrow> annotations \<Rightarrow> SideEffects" where
  "risk_tier side_effects an =
     (case side_effects of
        Some s \<Rightarrow> s
      | None \<Rightarrow> if an_read_only an = Some True then READ
                 else if an_destructive an = Some True then IRREVERSIBLE
                 else WRITE)"

text \<open>The fields an upsert compares (\<open>catalog_fields\<close>), and the rest of the descriptor.\<close>

record catalog_fields =
  td_description :: string
  td_input_schema :: "pyval option"
  td_required :: "string list"
  td_argument_entity_types :: "(string \<times> string) list"
  td_side_effects :: "SideEffects option"
  td_source :: string
  td_server :: "string option"
  td_examples :: "pyval list"
  td_redact :: "string list"
  td_annotations :: annotations
  td_approve_when :: "string option"

record tool =
  td_tool_id :: string
  td_tenant_id :: string
  td_workspace_id :: "string option"
  td_name :: string
  td_version :: nat
  td_fields :: catalog_fields
  td_schema_hash :: string
  td_created_at :: instant
  td_updated_at :: instant

abbreviation "approve_when t \<equiv> td_approve_when (td_fields t)"

definition risk :: "tool \<Rightarrow> SideEffects" where
  "risk t = risk_tier (td_side_effects (td_fields t)) (td_annotations (td_fields t))"

definition strip_name :: "string \<Rightarrow> string" where
  "strip_name s = rev (dropWhile is_space (rev (dropWhile is_space s)))"

definition with_schema_hash :: "(pyval \<Rightarrow> string) \<Rightarrow> tool \<Rightarrow> tool" where
  "with_schema_hash stable_hash t = t\<lparr> td_schema_hash :=
     stable_hash (PyObj [(''input'', case td_input_schema (td_fields t) of None \<Rightarrow> PyNone | Some v \<Rightarrow> v),
                         (''name'', PyStr (td_name t))]) \<rparr>"

text \<open>\<open>ToolDescriptor(tenant_id=..., name=...)\<close>: every other field its default.\<close>

definition default_fields :: catalog_fields where
  "default_fields = \<lparr> td_description = [], td_input_schema = None, td_required = [],
     td_argument_entity_types = [], td_side_effects = None, td_source = ''manual'', td_server = None,
     td_examples = [], td_redact = [], td_annotations = no_annotations, td_approve_when = None \<rparr>"

definition new_descriptor :: "string \<Rightarrow> instant \<Rightarrow> string \<Rightarrow> string \<Rightarrow> tool" where
  "new_descriptor tid now tenant_id name =
     \<lparr> td_tool_id = tid, td_tenant_id = tenant_id, td_workspace_id = None, td_name = strip_name name,
       td_version = 1, td_fields = default_fields, td_schema_hash = [], td_created_at = now,
       td_updated_at = now \<rparr>"

subsection \<open>The repository\<close>

definition workspace :: "tool \<Rightarrow> string" where
  "workspace t = (if truthy (td_workspace_id t) then or_empty (td_workspace_id t) else [])"

definition is_row :: "string \<Rightarrow> string \<Rightarrow> string \<Rightarrow> tool \<Rightarrow> bool" where
  "is_row tenant_id ws name t \<longleftrightarrow> td_tenant_id t = tenant_id \<and> workspace t = ws \<and> td_name t = name"

text \<open>\<open>by_name\<close>: the row of the workspace before the tenant's own (the empty workspace sorts
  first, the order is descending).\<close>

definition by_name :: "tool list \<Rightarrow> string \<Rightarrow> string \<Rightarrow> string option \<Rightarrow> tool option" where
  "by_name T tenant_id name workspace_id =
     (case (if truthy workspace_id then find (is_row tenant_id (or_empty workspace_id) name) T else None) of
        Some t \<Rightarrow> Some t
      | None \<Rightarrow> find (is_row tenant_id [] name) T)"

definition ensure :: "(pyval \<Rightarrow> string) \<Rightarrow> string \<Rightarrow> instant \<Rightarrow> string \<Rightarrow> string \<Rightarrow> tool list \<Rightarrow>
    (service_error + tool) \<times> tool list" where
  "ensure stable_hash tid now tenant_id name T =
     (case by_name T tenant_id name None of
        Some t \<Rightarrow> (Inr t, T)
      | None \<Rightarrow>
          let desc = with_schema_hash stable_hash (new_descriptor tid now tenant_id name);
              T' = (if list_ex (is_row tenant_id [] (td_name desc)) T then T else T @ [desc]) in
          (case by_name T' tenant_id name None of
             Some t \<Rightarrow> (Inr t, T')
           | None \<Rightarrow> (Inl AssertionError, T')))"

text \<open>\<open>fields\<close> (here \<open>sent\<close>): those fields from the request, the others as stored. It is \<open>None\<close> (all) or
  a set of field names; the callers modelled here name \<open>approve_when\<close> alone.\<close>

definition only_approve_when :: "catalog_fields \<Rightarrow> catalog_fields \<Rightarrow> catalog_fields" where
  "only_approve_when stored given = stored\<lparr> td_approve_when := td_approve_when given \<rparr>"

text \<open>The \<open>UPDATE\<close> of one row, by its identifier.\<close>

definition update_tool :: "instant \<Rightarrow> tool \<Rightarrow> tool list \<Rightarrow> tool list" where
  "update_tool now updated T = map (\<lambda>t.
     if td_tool_id t = td_tool_id updated
     then t\<lparr> td_fields := td_fields updated, td_schema_hash := td_schema_hash updated,
              td_version := td_version updated, td_updated_at := now \<rparr>
     else t) T"

definition upsert :: "(pyval \<Rightarrow> string) \<Rightarrow> string \<Rightarrow> instant \<Rightarrow>
    (catalog_fields \<Rightarrow> catalog_fields \<Rightarrow> catalog_fields) option \<Rightarrow> tool \<Rightarrow> tool list \<Rightarrow>
    (tool \<times> bool) \<times> tool list" where
  "upsert stable_hash tid now sent descriptor T =
     (let desc = with_schema_hash stable_hash descriptor;
          row = is_row (td_tenant_id desc) (workspace desc) (td_name desc) in
      case find row T of
        None \<Rightarrow> (let new = desc\<lparr> td_tool_id := tid \<rparr> in ((new, True), T @ [new]))
      | Some stored \<Rightarrow>
          let desc' = (case sent of
                None \<Rightarrow> desc
              | Some keep \<Rightarrow> with_schema_hash stable_hash
                  (desc\<lparr> td_fields := keep (td_fields stored) (td_fields desc) \<rparr>)) in
          if td_fields stored = td_fields desc' then ((stored, False), T)
          else
            let version = td_version stored + (if td_schema_hash stored \<noteq> td_schema_hash desc' then 1 else 0);
                updated = desc'\<lparr> td_tool_id := td_tool_id stored, td_version := version,
                                 td_created_at := td_created_at stored \<rparr> in
            ((updated, True), update_tool now updated T))"

subsection \<open>The table\<close>

definition catalog_ok :: "tool list \<Rightarrow> bool" where
  "catalog_ok T \<longleftrightarrow>
     distinct (map td_tool_id T) \<and> distinct (map (\<lambda>t. (td_tenant_id t, workspace t, td_name t)) T)"

lemma find_unique:
  assumes "catalog_ok T" and "t \<in> set T"
  shows "find (is_row (td_tenant_id t) (workspace t) (td_name t)) T = Some t"
proof -
  have inj: "inj_on (\<lambda>t. (td_tenant_id t, workspace t, td_name t)) (set T)"
    using assms(1) by (simp add: catalog_ok_def distinct_map)
  have "find (is_row (td_tenant_id t) (workspace t) (td_name t)) T \<noteq> None"
    using assms(2) by (auto simp: find_None_iff is_row_def)
  then obtain s where s: "find (is_row (td_tenant_id t) (workspace t) (td_name t)) T = Some s" by auto
  then have "s \<in> set T" "is_row (td_tenant_id t) (workspace t) (td_name t) s"
    by (auto simp: find_Some_iff)
  with inj assms(2) have "s = t" by (auto simp: is_row_def inj_on_def)
  with s show ?thesis by simp
qed

lemma by_name_in: "by_name T tenant_id name ws = Some t \<Longrightarrow>
    t \<in> set T \<and> td_tenant_id t = tenant_id \<and> td_name t = name"
  by (auto simp: by_name_def is_row_def find_Some_iff split: option.splits if_splits)

end
