(* ===== verification/Approval_Compose.thy ===== *)
theory Approval_Compose
  imports Approval_Parser Tool_Catalog
begin

text \<open>
  Composing a learned rule with what a tool already asks for (\<open>compose\<close> of
  \<open>modules/tools/approvals.py\<close>), and what the composed expression means: the tokens and the tree of
  \<open>when_shape\<close>, of a base between parentheses, and of their combination.
\<close>

datatype suggestion = AUTO_APPROVE | ALWAYS_ASK

definition compose :: "string option \<Rightarrow> SideEffects \<Rightarrow> suggestion \<Rightarrow> string \<Rightarrow> string" where
  "compose existing tier suggestion shape =
     (let base = (if truthy existing then or_empty existing
                  else if tier = IRREVERSIBLE then ''true'' else ''false'');
          clause = when_shape shape in
      case suggestion of
        ALWAYS_ASK \<Rightarrow> if base = ''false'' then clause else ''('' @ base @ '') or ('' @ clause @ '')''
      | AUTO_APPROVE \<Rightarrow> if base = ''true'' then ''not ('' @ clause @ '')''
                         else ''('' @ base @ '') and not ('' @ clause @ '')'')"

subsection \<open>Tokens\<close>

definition shape_tokens :: "string \<Rightarrow> tok list" where
  "shape_tokens shape = [TName SHAPE, TOp ''=='', TLit (PyStr shape)]"

lemma space_codes [simp]: "is_space (CHR '' '')"
  by (simp add: is_space_def)

lemma toks_space: "is_space c \<Longrightarrow> toks (c # s) = toks s"
  by (subst (1 2) toks_rec) simp

lemma toks_step:
  "lex_token (c # s) = Inr (t, r) \<Longrightarrow> \<not> is_space c \<Longrightarrow>
   toks (c # s) = rbind (toks r) (\<lambda>ts. Inr (t # ts))"
  by (subst toks_rec) simp

lemmas lexer_defs = lex_token_def lex_number_def lex_digits_def span_def lex_op_def OPERATORS_def
  PUNCTUATION_def lex_name_def ident_start_def ident_char_def is_letter_def is_digit_def QUOTE_def
  name_token_def KEYWORDS_def is_space_def

lemma toks_open: "toks (CHR ''('' # s) = rbind (toks s) (\<lambda>ts. Inr (TPunct (CHR ''('') # ts))"
  by (rule toks_step) (simp_all add: lexer_defs)

lemma dotted_nil [simp]: "lex_dotted [] = ([], [])"
  by (simp add: lex_dotted.simps)

lemma dotted_other [simp]: "c \<noteq> CHR ''.'' \<Longrightarrow> lex_dotted (c # s) = ([], c # s)"
  by (cases s) (simp_all add: lex_dotted.simps)

lemma toks_words:
  "toks (''or '' @ s) = rbind (toks s) (\<lambda>ts. Inr (TKw ''or'' # ts))"
  "toks (''and '' @ s) = rbind (toks s) (\<lambda>ts. Inr (TKw ''and'' # ts))"
  "toks (''not '' @ s) = rbind (toks s) (\<lambda>ts. Inr (TKw ''not'' # ts))"
  "toks (''shape '' @ s) = rbind (toks s) (\<lambda>ts. Inr (TName ''shape'' # ts))"
proof -
  have "lex_token (''or '' @ s) = Inr (TKw ''or'', CHR '' '' # s)"
    "lex_token (''and '' @ s) = Inr (TKw ''and'', CHR '' '' # s)"
    "lex_token (''not '' @ s) = Inr (TKw ''not'', CHR '' '' # s)"
    "lex_token (''shape '' @ s) = Inr (TName ''shape'', CHR '' '' # s)"
    by (simp_all add: lexer_defs)
  then show "toks (''or '' @ s) = rbind (toks s) (\<lambda>ts. Inr (TKw ''or'' # ts))"
    "toks (''and '' @ s) = rbind (toks s) (\<lambda>ts. Inr (TKw ''and'' # ts))"
    "toks (''not '' @ s) = rbind (toks s) (\<lambda>ts. Inr (TKw ''not'' # ts))"
    "toks (''shape '' @ s) = rbind (toks s) (\<lambda>ts. Inr (TName ''shape'' # ts))"
    using toks_step [of _ _ _ "CHR '' '' # s"] by (simp_all add: toks_space is_space_def)
qed

lemma toks_equals: "toks (''== '' @ s) = rbind (toks s) (\<lambda>ts. Inr (TOp ''=='' # ts))"
proof -
  have "lex_token (''== '' @ s) = Inr (TOp ''=='', CHR '' '' # s)"
    by (simp add: lexer_defs)
  then show ?thesis using toks_step [of _ _ _ "CHR '' '' # s"] by (simp add: toks_space is_space_def)
qed

lemma toks_json: "toks (json_ascii shape) = Inr [TLit (PyStr shape)]"
proof -
  have "toks [] = Inr []" by (simp add: toks_def)
  moreover have "lex_token (json_ascii shape) = Inr (TLit (PyStr shape), [])"
    using lex_string_ascii [of shape "[]"] loads_ascii [of shape]
    by (simp add: lex_token_def json_ascii_def)
  ultimately show ?thesis
    using toks_step [of QUOTE "concat (map esc_ascii shape) @ [QUOTE]" "TLit (PyStr shape)" "[]"]
    by (simp add: json_ascii_def is_space_def)
qed

lemma toks_when_shape: "toks (when_shape shape) = Inr (shape_tokens shape)"
  using toks_words(4) [of "''== '' @ json_ascii shape"]
  by (simp add: when_shape_def SHAPE_def toks_json toks_equals [simplified] shape_tokens_def)

text \<open>A text between parentheses.\<close>

lemma toks_parens:
  "toks a = Inr ts \<Longrightarrow> toks (CHR ''('' # a @ CHR '')'' # s) = rbind (toks s) (\<lambda>us. Inr (TPunct (CHR ''('') # ts @ CLOSING # us))"
  using toks_stop [of a ts s] by (cases "toks s") (simp_all add: toks_open CLOSING_def CLOSE_def)

subsection \<open>Trees\<close>

definition shape_node :: "string \<Rightarrow> node" where
  "shape_node shape = NCmp ''=='' (OPath SHAPE) (OLit (PyStr shape))"

lemma parse_shape_tokens: "parse_tokens (shape_tokens shape) = Some (Inr (shape_node shape))"
  by (simp add: parse_tokens_def parse_fuel_def shape_tokens_def shape_node_def p_comparison_def
      pbind_def eval_nat_numeral)

definition not_keyword :: "string \<Rightarrow> tok list \<Rightarrow> bool" where
  "not_keyword k u \<longleftrightarrow> u = [] \<or> hd u \<noteq> TKw k"

lemma rest_stops:
  "0 < n \<Longrightarrow> not_keyword ''or'' u \<Longrightarrow> p_or_rest n x u = Some (Inr (x, u))"
  "0 < n \<Longrightarrow> not_keyword ''and'' u \<Longrightarrow> p_and_rest n x u = Some (Inr (x, u))"
  by (cases n; auto simp: not_keyword_def)+

lemma parser_steps:
  "p_and n ts = Some (Inr (x, r)) \<Longrightarrow> p_or (Suc n) ts = p_or_rest n x r"
  "p_not n ts = Some (Inr (x, r)) \<Longrightarrow> p_and (Suc n) ts = p_and_rest n x r"
  "p_and n ts = Some (Inr (y, r)) \<Longrightarrow> p_or_rest (Suc n) x (TKw ''or'' # ts) = p_or_rest n (NOr x y) r"
  "p_not n ts = Some (Inr (y, r)) \<Longrightarrow> p_and_rest (Suc n) x (TKw ''and'' # ts) = p_and_rest n (NAnd x y) r"
proof -
  show "p_not n ts = Some (Inr (y, r)) \<Longrightarrow> p_and_rest (Suc n) x (TKw ''and'' # ts) = p_and_rest n (NAnd x y) r"
    by (subst p_and_rest.simps) (simp add: pbind_def del: p_and_rest.simps)
qed (simp_all add: pbind_def del: p_and_rest.simps)

lemma and_parens:
  assumes "parse_tokens ts = Some (Inr tree)" and "parse_fuel ts + 2 \<le> n" and "not_keyword ''and'' u"
  shows "p_and n (TPunct (CHR ''('') # ts @ CLOSING # u) = Some (Inr (tree, u))"
proof -
  obtain m where n: "n = Suc m" and m: "parse_fuel ts + 1 \<le> m"
    using assms(2) by (cases n) auto
  have "0 < m" using m by simp
  then show ?thesis
    unfolding n using parser_steps(2) [OF parenthesised [OF assms(1) m]] rest_stops(2) assms(3) by metis
qed

lemma parse_or:
  assumes "parse_tokens ts = Some (Inr a)" and "parse_tokens us = Some (Inr b)"
  shows "parse_tokens (TPunct (CHR ''('') # ts @ CLOSING # TKw ''or'' # TPunct (CHR ''('') # us @ [CLOSING])
    = Some (Inr (NOr a b))"
proof -
  let ?r = "TPunct (CHR ''('') # us @ [CLOSING]"
  let ?n = "4 * length ts + 4 * length us + 22"
  have first: "p_and (Suc ?n) (TPunct (CHR ''('') # ts @ CLOSING # TKw ''or'' # ?r) = Some (Inr (a, TKw ''or'' # ?r))"
    by (rule and_parens [OF assms(1)]) (simp_all add: parse_fuel_def not_keyword_def)
  have second: "p_and ?n ?r = Some (Inr (b, []))"
    by (rule and_parens [OF assms(2)]) (simp_all add: parse_fuel_def not_keyword_def)
  have "p_or (Suc (Suc ?n)) (TPunct (CHR ''('') # ts @ CLOSING # TKw ''or'' # ?r) = Some (Inr (NOr a b, []))"
    unfolding parser_steps(1) [OF first] parser_steps(3) [OF second]
    by (rule rest_stops) (simp_all add: not_keyword_def)
  then show ?thesis by (simp add: parse_tokens_def parse_fuel_def del: p_or.simps)
qed

lemma not_parens:
  assumes "parse_tokens us = Some (Inr b)" and "parse_fuel us + 2 \<le> n"
  shows "p_not n (TKw ''not'' # TPunct (CHR ''('') # us @ [CLOSING]) = Some (Inr (NNot b, []))"
proof -
  obtain m where n: "n = Suc m" and m: "parse_fuel us + 1 \<le> m" using assms(2) by (cases n) auto
  show ?thesis using parenthesised [OF assms(1) m, of "[]"] by (simp add: n)
qed

lemma parse_and_not:
  assumes "parse_tokens ts = Some (Inr a)" and "parse_tokens us = Some (Inr b)"
  shows "parse_tokens (TPunct (CHR ''('') # ts @ CLOSING # TKw ''and'' # TKw ''not'' # TPunct (CHR ''('') # us @ [CLOSING])
    = Some (Inr (NAnd a (NNot b)))"
proof -
  let ?r = "TKw ''not'' # TPunct (CHR ''('') # us @ [CLOSING]"
  let ?n = "4 * length ts + 4 * length us + 25"
  have first: "p_not (Suc ?n) (TPunct (CHR ''('') # ts @ CLOSING # TKw ''and'' # ?r) = Some (Inr (a, TKw ''and'' # ?r))"
    by (rule parenthesised [OF assms(1)]) (simp add: parse_fuel_def)
  have second: "p_not ?n ?r = Some (Inr (NNot b, []))"
    by (rule not_parens [OF assms(2)]) (simp add: parse_fuel_def)
  have "p_and (Suc (Suc ?n)) (TPunct (CHR ''('') # ts @ CLOSING # TKw ''and'' # ?r) = Some (Inr (NAnd a (NNot b), []))"
    unfolding parser_steps(2) [OF first] parser_steps(4) [OF second]
    by (rule rest_stops) (simp_all add: not_keyword_def)
  note third = this
  have "p_or (Suc (Suc (Suc ?n))) (TPunct (CHR ''('') # ts @ CLOSING # TKw ''and'' # ?r) = Some (Inr (NAnd a (NNot b), []))"
    unfolding parser_steps(1) [OF third] by (rule rest_stops) (simp_all add: not_keyword_def)
  then show ?thesis by (simp add: parse_tokens_def parse_fuel_def del: p_or.simps)
qed

lemma parse_not:
  assumes "parse_tokens us = Some (Inr b)"
  shows "parse_tokens (TKw ''not'' # TPunct (CHR ''('') # us @ [CLOSING]) = Some (Inr (NNot b))"
proof -
  let ?r = "TKw ''not'' # TPunct (CHR ''('') # us @ [CLOSING]"
  let ?n = "4 * length us + 14"
  have first: "p_not ?n ?r = Some (Inr (NNot b, []))"
    by (rule not_parens [OF assms]) (simp add: parse_fuel_def)
  have second: "p_and (Suc ?n) ?r = Some (Inr (NNot b, []))"
    unfolding parser_steps(2) [OF first] by (rule rest_stops) (simp_all add: not_keyword_def)
  have "p_or (Suc (Suc ?n)) ?r = Some (Inr (NNot b, []))"
    unfolding parser_steps(1) [OF second] by (rule rest_stops) (simp_all add: not_keyword_def)
  then show ?thesis by (simp add: parse_tokens_def parse_fuel_def del: p_or.simps)
qed

subsection \<open>Meaning\<close>

definition base_text :: "string option \<Rightarrow> SideEffects \<Rightarrow> string" where
  "base_text existing tier = (if truthy existing then or_empty existing
     else if tier = IRREVERSIBLE then ''true'' else ''false'')"

definition composed_tokens :: "tok list \<Rightarrow> suggestion \<Rightarrow> string \<Rightarrow> tok list" where
  "composed_tokens ts sg shape = (case sg of
     ALWAYS_ASK \<Rightarrow> TPunct (CHR ''('') # ts @ CLOSING # TKw ''or'' # TPunct (CHR ''('') # shape_tokens shape @ [CLOSING]
   | AUTO_APPROVE \<Rightarrow> TPunct (CHR ''('') # ts @ CLOSING # TKw ''and'' # TKw ''not'' # TPunct (CHR ''('') # shape_tokens shape @ [CLOSING])"

lemma toks_nil [simp]: "toks [] = Inr []"
  by (simp add: toks_def)

lemma toks_clause: "toks (CHR ''('' # when_shape shape @ '')'') = Inr (TPunct (CHR ''('') # shape_tokens shape @ [CLOSING])"
  using toks_parens [OF toks_when_shape, of shape "[]"] by simp

lemma toks_combined:
  assumes "toks base = Inr ts"
  shows "toks (''('' @ base @ '') or ('' @ when_shape shape @ '')'') = Inr (composed_tokens ts ALWAYS_ASK shape)"
    and "toks (''('' @ base @ '') and not ('' @ when_shape shape @ '')'') = Inr (composed_tokens ts AUTO_APPROVE shape)"
  using toks_parens [OF assms, of "'' or ('' @ when_shape shape @ '')''"]
    toks_parens [OF assms, of "'' and not ('' @ when_shape shape @ '')''"]
    toks_words(1) [of "CHR ''('' # when_shape shape @ '')''"]
    toks_words(2) [of "''not ('' @ when_shape shape @ '')''"]
    toks_words(3) [of "CHR ''('' # when_shape shape @ '')''"] toks_clause
  by (simp_all add: toks_space composed_tokens_def)

lemma literal_bases:
  "toks ''true'' = Inr [TLit (PyBool True)]" "toks ''false'' = Inr [TLit (PyBool False)]"
proof -
  have "lex_token ''true'' = Inr (TLit (PyBool True), [])" "lex_token ''false'' = Inr (TLit (PyBool False), [])"
    by (simp_all add: lexer_defs)
  then show "toks ''true'' = Inr [TLit (PyBool True)]" "toks ''false'' = Inr [TLit (PyBool False)]"
    using toks_step [of _ _ _ "[]"] by (simp_all add: is_space_def)
qed

lemma literal_trees:
  "parse_tokens [TLit (PyBool b)] = Some (Inr (NLit b))"
  by (simp add: parse_tokens_def parse_fuel_def pbind_def literal_ends_def eval_nat_numeral)

text \<open>What the tool asks for before: its expression, or its tier.\<close>

definition base_node :: "string option \<Rightarrow> SideEffects \<Rightarrow> node \<Rightarrow> bool" where
  "base_node existing tier tree \<longleftrightarrow>
     (if truthy existing then parse (or_empty existing) = Some (Inr tree) else tree = NLit (tier = IRREVERSIBLE))"

lemma base_tokens:
  assumes "base_node existing tier tree"
  shows "\<exists>ts. toks (base_text existing tier) = Inr ts \<and> parse_tokens ts = Some (Inr tree)"
proof (cases "truthy existing")
  case True
  then have "parse (or_empty existing) = Some (Inr tree)" using assms by (simp add: base_node_def)
  then have "\<exists>ts. toks (or_empty existing) = Inr ts \<and> parse_tokens ts = Some (Inr tree)"
    by (auto simp: parse_def tokens_Inr split: sum.splits)
  with True show ?thesis by (simp add: base_text_def)
next
  case False
  then show ?thesis using assms literal_bases literal_trees by (auto simp: base_node_def base_text_def)
qed

text \<open>The truth of the composed expression, given the base's; only the length can be too much.\<close>

definition ask_after :: "suggestion \<Rightarrow> bool \<Rightarrow> bool \<Rightarrow> bool" where
  "ask_after sg asked of_shape = (case sg of ALWAYS_ASK \<Rightarrow> asked \<or> of_shape | AUTO_APPROVE \<Rightarrow> asked \<and> \<not> of_shape)"

lemma eval_shape: "arg_shape lg args = Inr s \<Longrightarrow> eval_node lg args (shape_node shape) = Inr (s = shape)"
  by (auto simp: shape_node_def py_compare_def)

lemma composed_parses:
  assumes base: "base_node existing tier tree"
    and fits: "length (compose existing tier sg shape) \<le> MAX_EXPRESSION_CHARS"
  obtains node where "parse (compose existing tier sg shape) = Some (Inr node)"
    and "\<And>lg args s b. arg_shape lg args = Inr s \<Longrightarrow> eval_node lg args tree = Inr b \<Longrightarrow>
      eval_node lg args node = Inr (ask_after sg b (s = shape))"
proof -
  let ?base = "base_text existing tier" and ?text = "compose existing tier sg shape"
  note clause = parse_shape_tokens [of shape]
  obtain ts where ts: "toks ?base = Inr ts" "parse_tokens ts = Some (Inr tree)" using base_tokens [OF base] by blast
  have parse: "parse ?text = Some (Inr node)" if "toks ?text = Inr us" "parse_tokens us = Some (Inr node)" for us node
    using that fits by (simp add: parse_def tokens_toks)
  have literal: "tree = NLit b" if "?base = (if b then ''true'' else ''false'')" for b
  proof -
    have "ts = [TLit (PyBool b)]" using ts(1) that literal_bases by (cases b) simp_all
    then show ?thesis using ts(2) literal_trees [of b] by simp
  qed
  have spelled: "?text = (case sg of
      ALWAYS_ASK \<Rightarrow> if ?base = ''false'' then when_shape shape else ''('' @ ?base @ '') or ('' @ when_shape shape @ '')''
    | AUTO_APPROVE \<Rightarrow> if ?base = ''true'' then ''not ('' @ when_shape shape @ '')''
        else ''('' @ ?base @ '') and not ('' @ when_shape shape @ '')'')"
    by (simp only: compose_def base_text_def Let_def)
  consider "sg = ALWAYS_ASK" "?base = ''false''" | "sg = ALWAYS_ASK" "?base \<noteq> ''false''"
    | "sg = AUTO_APPROVE" "?base = ''true''" | "sg = AUTO_APPROVE" "?base \<noteq> ''true''"
    by (cases sg) auto
  then show thesis
  proof cases
    case 1
    have "toks ?text = Inr (shape_tokens shape)" using 1 spelled toks_when_shape by simp
    then have "parse ?text = Some (Inr (shape_node shape))" using clause by (rule parse)
    then show thesis using that 1 literal [of False] eval_shape by (auto simp: ask_after_def)
  next
    case 2
    have "parse ?text = Some (Inr (NOr tree (shape_node shape)))"
    proof (rule parse)
      show "toks ?text = Inr (composed_tokens ts ALWAYS_ASK shape)" using 2 spelled toks_combined(1) [OF ts(1)] by simp
      show "parse_tokens (composed_tokens ts ALWAYS_ASK shape) = Some (Inr (NOr tree (shape_node shape)))"
        using parse_or [OF ts(2) clause] by (simp add: composed_tokens_def)
    qed
    then show thesis using that 2 eval_shape by (auto simp: ask_after_def)
  next
    case 3
    have "toks (CHR ''('' # when_shape shape @ '')'') = Inr (TPunct (CHR ''('') # shape_tokens shape @ [CLOSING])"
      by (rule toks_clause)
    then have "toks ?text = Inr (TKw ''not'' # TPunct (CHR ''('') # shape_tokens shape @ [CLOSING])"
      using 3 spelled toks_words(3) [of "CHR ''('' # when_shape shape @ '')''"] by simp
    then have "parse ?text = Some (Inr (NNot (shape_node shape)))" using parse_not [OF clause] by (rule parse)
    then show thesis using that 3 literal [of True] eval_shape by (auto simp: ask_after_def)
  next
    case 4
    have "parse ?text = Some (Inr (NAnd tree (NNot (shape_node shape))))"
    proof (rule parse)
      show "toks ?text = Inr (composed_tokens ts AUTO_APPROVE shape)" using 4 spelled toks_combined(2) [OF ts(1)] by simp
      show "parse_tokens (composed_tokens ts AUTO_APPROVE shape) = Some (Inr (NAnd tree (NNot (shape_node shape))))"
        using parse_and_not [OF ts(2) clause] by (simp add: composed_tokens_def)
    qed
    then show thesis using that 4 eval_shape by (auto simp: ask_after_def)
  qed
qed

end
