(* ===== verification/Base64.thy ===== *)
theory Base64
  imports Json
begin

text \<open>
  \<open>base64.urlsafe_b64encode\<close> without its padding and \<open>base64.urlsafe_b64decode\<close> as the service uses
  them for opaque identifiers (\<open>modules/tools/approvals.py\<close>, \<open>api/pagination.py\<close>), byte for byte.

  The decoder is that of \<open>binascii.a2b_base64\<close> in its default, lenient mode: characters outside the
  alphabet are skipped, a padding that completes a group ends the input, and only a group left open
  at the end is an error. \<open>None\<close> is \<open>binascii.Error\<close>.
\<close>

definition b64_char :: "nat \<Rightarrow> char" where
  "b64_char n = (if n < 26 then char_of (65 + n) else if n < 52 then char_of (71 + n)
     else if n < 62 then char_of (n - 4) else if n = 62 then CHR ''-'' else CHR ''_'')"

definition b64_value :: "char \<Rightarrow> nat option" where
  "b64_value c = (let n = of_char c :: nat in
     if 65 \<le> n \<and> n \<le> 90 then Some (n - 65)
     else if 97 \<le> n \<and> n \<le> 122 then Some (n - 71)
     else if 48 \<le> n \<and> n \<le> 57 then Some (n + 4)
     else if c = CHR ''-'' \<or> c = CHR ''+'' then Some 62
     else if c = CHR ''_'' \<or> c = CHR ''/'' then Some 63
     else None)"

definition PAD :: char where "PAD = CHR ''=''"

fun b64encode :: "string \<Rightarrow> string" where
  "b64encode (a # b # c # s) =
     (let x = of_char a :: nat; y = of_char b :: nat; z = of_char c :: nat in
      b64_char (x div 4) # b64_char (x mod 4 * 16 + y div 16) #
      b64_char (y mod 16 * 4 + z div 64) # b64_char (z mod 64) # b64encode s)"
| "b64encode [a, b] =
     (let x = of_char a :: nat; y = of_char b :: nat in
      [b64_char (x div 4), b64_char (x mod 4 * 16 + y div 16), b64_char (y mod 16 * 4), PAD])"
| "b64encode [a] = (let x = of_char a :: nat in [b64_char (x div 4), b64_char (x mod 4 * 16), PAD, PAD])"
| "b64encode [] = []"

definition rstrip_pad :: "string \<Rightarrow> string" where
  "rstrip_pad s = rev (dropWhile (\<lambda>c. c = PAD) (rev s))"

definition opaque :: "string \<Rightarrow> string" where
  "opaque s = rstrip_pad (b64encode s)"

text \<open>The state of the decoder: how many characters of the group were read, the bits not yet
  written, and the padding seen since.\<close>

fun a2b :: "nat \<Rightarrow> nat \<Rightarrow> nat \<Rightarrow> string \<Rightarrow> string option" where
  "a2b quad left pads [] = (if quad = 0 then Some [] else None)"
| "a2b quad left pads (c # s) =
     (if c = PAD then
        (if 2 \<le> quad \<and> 4 \<le> quad + (pads + 1) then Some []
         else a2b quad left (if 2 \<le> quad then pads + 1 else pads) s)
      else (case b64_value c of
          None \<Rightarrow> a2b quad left pads s
        | Some v \<Rightarrow>
            if quad = 0 then a2b 1 v 0 s
            else if quad = 1 then map_option ((#) (char_of (left * 4 + v div 16))) (a2b 2 (v mod 16) 0 s)
            else if quad = 2 then map_option ((#) (char_of (left * 16 + v div 4))) (a2b 3 (v mod 4) 0 s)
            else map_option ((#) (char_of (left * 64 + v))) (a2b 0 0 0 s)))"

definition b64decode :: "string \<Rightarrow> string option" where
  "b64decode s = a2b 0 0 0 s"

text \<open>\<open>identifier + "=" * (-len(identifier) % 4)\<close>.\<close>

definition padded :: "string \<Rightarrow> string" where
  "padded s = s @ replicate ((4 - length s mod 4) mod 4) PAD"

definition transparent :: "string \<Rightarrow> string option" where
  "transparent s = b64decode (padded s)"

subsection \<open>Reading back\<close>

lemma b64_value_char [simp]: "n < 64 \<Longrightarrow> b64_value (b64_char n) = Some n"
proof -
  assume n: "n < 64"
  consider "n < 26" | "26 \<le> n" "n < 52" | "52 \<le> n" "n < 62" | "n = 62" | "n = 63" using n by linarith
  then show ?thesis
  proof cases
    case 1
    then show ?thesis by (simp add: b64_value_def b64_char_def of_char_of Let_def take_bit_eq_mod)
  next
    case 2
    then show ?thesis by (simp add: b64_value_def b64_char_def of_char_of Let_def take_bit_eq_mod)
  next
    case 3
    then have code: "of_char (b64_char n) = n - 4" and range: "48 \<le> n - 4" "n - 4 \<le> 57"
      by (auto simp: b64_char_def of_char_of take_bit_eq_mod)
    show ?thesis unfolding b64_value_def code using 3 range by simp
  qed (simp_all add: b64_value_def b64_char_def)
qed

lemma b64_char_not_pad [simp]: "n < 64 \<Longrightarrow> b64_char n \<noteq> PAD"
  using b64_value_char [of n] by (auto simp: PAD_def b64_value_def)

text \<open>The encoding without its padding.\<close>

fun b64_plain :: "string \<Rightarrow> string" where
  "b64_plain (a # b # c # s) =
     (let x = of_char a :: nat; y = of_char b :: nat; z = of_char c :: nat in
      b64_char (x div 4) # b64_char (x mod 4 * 16 + y div 16) #
      b64_char (y mod 16 * 4 + z div 64) # b64_char (z mod 64) # b64_plain s)"
| "b64_plain [a, b] =
     (let x = of_char a :: nat; y = of_char b :: nat in
      [b64_char (x div 4), b64_char (x mod 4 * 16 + y div 16), b64_char (y mod 16 * 4)])"
| "b64_plain [a] = (let x = of_char a :: nat in [b64_char (x div 4), b64_char (x mod 4 * 16)])"
| "b64_plain [] = []"

lemma byte_bounds [simp]:
  "(of_char (c :: char) :: nat) div 4 < 64" "(of_char c :: nat) div 64 < 4"
  "(of_char c :: nat) div 64 \<le> 3" "(of_char c :: nat) div 16 \<le> 15"
proof -
  have "(of_char c :: nat) < 256" by simp
  then show "(of_char (c :: char) :: nat) div 4 < 64" "(of_char c :: nat) div 64 < 4"
    "(of_char c :: nat) div 64 \<le> 3" "(of_char c :: nat) div 16 \<le> 15"
    by (simp_all add: less_mult_imp_div_less div_le_mono less_Suc_eq_le [symmetric])
qed

lemma sextets [simp]:
  "(of_char (a :: char) :: nat) mod 4 * 16 + of_char (b :: char) div 16 < 64"
  "(of_char (a :: char) :: nat) mod 16 * 4 + of_char (b :: char) div 64 < 64"
  "(of_char (a :: char) :: nat) mod 4 * 16 < 64" "(of_char (a :: char) :: nat) mod 16 * 4 < 64"
proof -
  have "(of_char a :: nat) mod 4 \<le> 3" "(of_char a :: nat) mod 16 \<le> 15"
    "(of_char b :: nat) div 16 \<le> 15" "(of_char b :: nat) div 64 \<le> 3"
    using byte_bounds [of b] by (simp_all add: less_Suc_eq_le [symmetric] del: byte_bounds)
  then show "(of_char (a :: char) :: nat) mod 4 * 16 + of_char (b :: char) div 16 < 64"
    "(of_char (a :: char) :: nat) mod 16 * 4 + of_char (b :: char) div 64 < 64"
    "(of_char (a :: char) :: nat) mod 4 * 16 < 64" "(of_char (a :: char) :: nat) mod 16 * 4 < 64"
    by linarith+
qed

lemma b64encode_plain: "\<exists>n. b64encode s = b64_plain s @ replicate n PAD"
  by (induction s rule: b64_plain.induct) (auto simp: Let_def intro: exI [of _ "Suc 0"] exI [of _ "Suc (Suc 0)"] exI [of _ 0])

lemma b64_plain_last: "s \<noteq> [] \<Longrightarrow> b64_plain s \<noteq> [] \<and> last (b64_plain s) \<noteq> PAD"
proof (induction s rule: b64_plain.induct)
  case (1 a b c s)
  then show ?case by (cases s) (auto simp: Let_def)
qed (auto simp: Let_def)

lemma opaque_plain: "opaque s = b64_plain s"
proof -
  obtain n where n: "b64encode s = b64_plain s @ replicate n PAD" using b64encode_plain by blast
  have "dropWhile (\<lambda>c. c = PAD) (rev (b64_plain s)) = rev (b64_plain s)"
  proof (cases "b64_plain s" rule: rev_cases)
    case (snoc xs x)
    then have "x \<noteq> PAD" using b64_plain_last [of s] by (cases "s = []") auto
    then show ?thesis using snoc by simp
  qed simp
  then show ?thesis by (simp add: opaque_def rstrip_pad_def n dropWhile_append)
qed

lemma byte_back:
  "char_of ((of_char a :: nat) div 4 * 4 + ((of_char a :: nat) mod 4 * 16 + of_char (b :: char) div 16) div 16) = a"
  "char_of (((of_char a :: nat) mod 4 * 16 + of_char b div 16) mod 16 * 16 + ((of_char b :: nat) mod 16 * 4 + of_char (c :: char) div 64) div 4) = b"
  "char_of (((of_char b :: nat) mod 16 * 4 + of_char c div 64) mod 4 * 64 + (of_char c :: nat) mod 64) = c"
  "char_of ((of_char a :: nat) div 4 * 4 + (of_char a mod 4 * 16) div 16) = a"
  "char_of (((of_char a :: nat) mod 4 * 16 + of_char b div 16) mod 16 * 16 + ((of_char b :: nat) mod 16 * 4) div 4) = b"
proof -
  have small: "(of_char b :: nat) div 16 < 16" "(of_char c :: nat) div 64 < 4" by simp_all
  then show "char_of ((of_char a :: nat) div 4 * 4 + ((of_char a :: nat) mod 4 * 16 + of_char (b :: char) div 16) div 16) = a"
    "char_of (((of_char a :: nat) mod 4 * 16 + of_char b div 16) mod 16 * 16 + ((of_char b :: nat) mod 16 * 4 + of_char (c :: char) div 64) div 4) = b"
    "char_of (((of_char b :: nat) mod 16 * 4 + of_char c div 64) mod 4 * 64 + (of_char c :: nat) mod 64) = c"
    "char_of (((of_char a :: nat) mod 4 * 16 + of_char b div 16) mod 16 * 16 + ((of_char b :: nat) mod 16 * 4) div 4) = b"
    by (simp_all only: div_mult_self3 mod_mult_self3 div_less mod_less add_0_right add_0
        mult.commute [of _ 4] mult.commute [of _ 16] mult.commute [of _ 64] mult_div_mod_eq char_of_char
        div_mult_self4 mod_mult_self4 if_False) simp_all
qed (simp add: mult.commute)

lemma a2b_sextet:
  "n < 64 \<Longrightarrow> a2b 0 l p (b64_char n # s) = a2b (Suc 0) n 0 s"
  "n < 64 \<Longrightarrow> a2b (Suc 0) l p (b64_char n # s) = map_option ((#) (char_of (l * 4 + n div 16))) (a2b 2 (n mod 16) 0 s)"
  "n < 64 \<Longrightarrow> a2b 2 l p (b64_char n # s) = map_option ((#) (char_of (l * 16 + n div 4))) (a2b 3 (n mod 4) 0 s)"
  "n < 64 \<Longrightarrow> a2b 3 l p (b64_char n # s) = map_option ((#) (char_of (l * 64 + n))) (a2b 0 0 0 s)"
  by simp_all

lemma a2b_plain: "a2b 0 0 0 (b64_plain s @ replicate ((4 - length (b64_plain s) mod 4) mod 4) PAD) = Some s"
proof (induction s rule: b64_plain.induct)
  case (1 a b c s)
  show ?case using 1 [OF refl refl refl] by (simp add: Let_def a2b_sextet byte_back del: a2b.simps)
next
  case (2 a b)
  have "a2b 3 m 0 [PAD] = Some []" for m by simp
  then show ?case by (simp add: Let_def a2b_sextet byte_back del: a2b.simps)
next
  case (3 a)
  have "a2b 2 m 0 [PAD, PAD] = Some []" for m by simp
  moreover have "replicate 2 PAD = [PAD, PAD]" by (simp add: numeral_2_eq_2)
  ultimately show ?case by (simp add: Let_def a2b_sextet byte_back del: a2b.simps)
qed simp

lemma transparent_opaque [simp]: "transparent (opaque s) = Some s"
  using a2b_plain [of s] by (simp add: transparent_def b64decode_def padded_def opaque_plain)

end
