(* ===== verification/Approvals.thy ===== *)
theory Approvals
  imports Approval_Compose Base64 Revisions Exec_Context
begin

text \<open>
  Learning from approval decisions: how a person's decision on a tool call is counted
  (\<open>FeedbackService._project_tool_call\<close> and the guards \<open>_counted_before\<close>, \<open>_backed\<close>, \<open>_spent\<close> of
  \<open>modules/feedback/service.py\<close>, the counters of \<open>adapters/db/tool_repository.py\<close>), the rule the
  counts support (\<open>domain/learning.py\<close>), and accepting it into the catalog
  (\<open>modules/tools/approvals.py\<close>).

  \<^item> A decision is a \<open>Feedback\<close> row on a tool call that was applied as it arrived (no review): the
    path decisions on tool calls take. \<open>fd_action\<close> is its projection's action. The metadata's
    \<open>tool\<close> and \<open>interrupt_id\<close> are strings or absent; \<open>args\<close> is any JSON value, \<open>PyNone\<close> when absent.
  \<^item> An invocation carries the fields the counting reads.
  \<^item> The unit of work serialises the jobs of one run, so a job is one step on the state.
  \<^item> \<open>lg\<close> is the magnitude of \<open>Approval_Lang\<close>, \<open>stable_hash\<close> the digest of canonical JSON.
\<close>

subsection \<open>State\<close>

datatype TargetKind = K_RUN | K_MEMORY | K_TOOL_CALL | K_PROCEDURE
datatype Verdict = CONFIRM | REJECT | CORRECT | APPROVE | EDIT
datatype Counter = C_APPROVALS | C_REJECTIONS | C_EDITS
datatype Action =
    A_NONE | MEMORY_REINFORCED | MEMORY_RETRACTED | MEMORY_SUPERSEDED | RUN_LABELLED
  | TOOL_CALL_COUNTED | PROCEDURE_REJECTED

record decision =
  fd_id :: string
  fd_tenant :: string
  fd_agent_id :: "string option"
  fd_run_id :: "string option"
  fd_reviewer :: "string option"
  fd_kind :: TargetKind
  fd_target_id :: string
  fd_verdict :: Verdict
  fd_tool :: "string option"
  fd_interrupt :: "string option"
  fd_args :: pyval
  fd_correction :: pyval
  fd_created :: instant
  fd_action :: "Action option"

record invocation =
  iv_tenant :: string
  iv_run_id :: "string option"
  iv_agent_id :: "string option"
  iv_tool_name :: string
  iv_args_hash :: string

record counts =
  ct_agent_id :: string
  ct_tool :: string
  ct_arg_shape :: string
  ct_approvals :: nat
  ct_rejections :: nat
  ct_edits :: nat

type_synonym verdict_counts = "nat \<times> nat \<times> nat"

record learning =
  ln_tools :: "tool list"
  ln_patterns :: "(string \<times> counts) list"
  ln_stats :: "(string \<times> string) \<rightharpoonup> verdict_counts"
  ln_feedback :: "decision list"
  ln_calls :: "invocation list"
  ln_revisions :: revisions

subsection \<open>What the counts support\<close>

definition APPROVAL_MIN_SUPPORT :: nat where "APPROVAL_MIN_SUPPORT = 5"
definition APPROVAL_MIN_REVIEWERS :: nat where "APPROVAL_MIN_REVIEWERS = 2"
definition APPROVAL_DECISIONS_READ :: nat where "APPROVAL_DECISIONS_READ = 500"
definition LIST_LIMIT :: nat where "LIST_LIMIT = 100"
definition CALL_RECORD_CHECKS :: nat where "CALL_RECORD_CHECKS = 10"

definition support :: "counts \<Rightarrow> nat" where
  "support c = ct_approvals c + ct_rejections c + ct_edits c"

text \<open>The rates 0.95 and 0.5, cross-multiplied: \<open>approvals / support\<close> is the double nearest to the
  quotient, rounding is monotone, and \<open>0.95\<close> and \<open>0.5\<close> are the doubles nearest to 19/20 and 1/2, so
  for counts a double holds the two comparisons agree.\<close>

definition suggestion_of :: "counts \<Rightarrow> suggestion option" where
  "suggestion_of c =
     (if support c < APPROVAL_MIN_SUPPORT then None
      else if 95 * support c \<le> 100 * ct_approvals c then Some AUTO_APPROVE
      else if 2 * ct_approvals c \<le> support c then Some ALWAYS_ASK
      else None)"

subsection \<open>Counting\<close>

fun approval_counter :: "Verdict \<Rightarrow> Counter" where
  "approval_counter APPROVE = C_APPROVALS"
| "approval_counter CONFIRM = C_APPROVALS"
| "approval_counter REJECT = C_REJECTIONS"
| "approval_counter EDIT = C_EDITS"
| "approval_counter CORRECT = C_EDITS"

definition bump_counter :: "Counter \<Rightarrow> counts \<Rightarrow> counts" where
  "bump_counter k c = (case k of
     C_APPROVALS \<Rightarrow> c\<lparr> ct_approvals := ct_approvals c + 1 \<rparr>
   | C_REJECTIONS \<Rightarrow> c\<lparr> ct_rejections := ct_rejections c + 1 \<rparr>
   | C_EDITS \<Rightarrow> c\<lparr> ct_edits := ct_edits c + 1 \<rparr>)"

definition is_pattern :: "string \<Rightarrow> string \<Rightarrow> string \<Rightarrow> string \<Rightarrow> string \<times> counts \<Rightarrow> bool" where
  "is_pattern tenant agent tool shape r \<longleftrightarrow>
     fst r = tenant \<and> ct_agent_id (snd r) = agent \<and> ct_tool (snd r) = tool \<and> ct_arg_shape (snd r) = shape"

definition no_counts :: "string \<Rightarrow> string \<Rightarrow> string \<Rightarrow> counts" where
  "no_counts agent tool shape = \<lparr> ct_agent_id = agent, ct_tool = tool, ct_arg_shape = shape,
     ct_approvals = 0, ct_rejections = 0, ct_edits = 0 \<rparr>"

definition count_approval :: "string \<Rightarrow> string \<Rightarrow> string \<Rightarrow> string \<Rightarrow> Counter \<Rightarrow>
    (string \<times> counts) list \<Rightarrow> (string \<times> counts) list" where
  "count_approval tenant agent tool shape k P =
     (if list_ex (is_pattern tenant agent tool shape) P
      then map (\<lambda>r. if is_pattern tenant agent tool shape r then (fst r, bump_counter k (snd r)) else r) P
      else P @ [(tenant, bump_counter k (no_counts agent tool shape))])"

definition approval_pattern :: "(string \<times> counts) list \<Rightarrow> string \<Rightarrow> string \<Rightarrow> string \<Rightarrow> string \<Rightarrow> counts option" where
  "approval_pattern P tenant agent tool shape = map_option snd (find (is_pattern tenant agent tool shape) P)"

definition count_verdict :: "string \<Rightarrow> string \<Rightarrow> Counter \<Rightarrow> ((string \<times> string) \<rightharpoonup> verdict_counts) \<Rightarrow>
    ((string \<times> string) \<rightharpoonup> verdict_counts)" where
  "count_verdict tenant tool k S =
     (let (a, r, e) = (case S (tenant, tool) of None \<Rightarrow> (0, 0, 0) | Some v \<Rightarrow> v) in
      S((tenant, tool) \<mapsto> (case k of
          C_APPROVALS \<Rightarrow> (a + 1, r, e) | C_REJECTIONS \<Rightarrow> (a, r + 1, e) | C_EDITS \<Rightarrow> (a, r, e + 1))))"

text \<open>Newest first: \<open>ORDER BY created_at DESC, feedback_id DESC LIMIT n\<close>.\<close>

definition newest_page :: "nat \<Rightarrow> decision list \<Rightarrow> decision list" where
  "newest_page n ds = take n (rev (sort_key (\<lambda>d. (fd_created d, fd_id d)) ds))"

definition counted_decisions :: "decision list \<Rightarrow> string \<Rightarrow> string \<Rightarrow> string \<Rightarrow> nat \<Rightarrow> decision list" where
  "counted_decisions F tenant agent tool n = newest_page n (filter (\<lambda>d.
     fd_tenant d = tenant \<and> fd_kind d = K_TOOL_CALL \<and> or_empty (fd_agent_id d) = agent \<and>
     fd_tool d = Some tool \<and> fd_action d = Some TOOL_CALL_COUNTED) F)"

definition list_for :: "decision list \<Rightarrow> string \<Rightarrow> TargetKind \<Rightarrow> string \<Rightarrow> decision list" where
  "list_for F tenant kind target = newest_page LIST_LIMIT (filter (\<lambda>d.
     fd_tenant d = tenant \<and> fd_kind d = kind \<and> fd_target_id d = target) F)"

definition invocations_for_run :: "invocation list \<Rightarrow> string \<Rightarrow> string \<Rightarrow> invocation list" where
  "invocations_for_run C tenant run = filter (\<lambda>c. iv_tenant c = tenant \<and> iv_run_id c = Some run) C"

definition is_dict :: "pyval \<Rightarrow> bool" where
  "is_dict v = (case v of PyObj _ \<Rightarrow> True | _ \<Rightarrow> False)"

definition approves :: "decision \<Rightarrow> bool" where
  "approves d \<longleftrightarrow> fd_kind d = K_TOOL_CALL \<and> approval_counter (fd_verdict d) = C_APPROVALS"

definition recorded :: "(pyval \<Rightarrow> string) \<Rightarrow> invocation list \<Rightarrow> decision \<Rightarrow> nat" where
  "recorded stable_hash C d =
     length (filter (\<lambda>c. iv_agent_id c = fd_agent_id d \<and> Some (iv_tool_name c) = fd_tool d \<and>
                          iv_args_hash c = stable_hash (fd_args d))
        (invocations_for_run C (fd_tenant d) (or_empty (fd_run_id d))))"

definition backed :: "(pyval \<Rightarrow> string) \<Rightarrow> invocation list \<Rightarrow> decision \<Rightarrow> bool" where
  "backed stable_hash C d \<longleftrightarrow> truthy (fd_run_id d) \<and> is_dict (fd_args d) \<and> 0 < recorded stable_hash C d"

definition spent :: "(pyval \<Rightarrow> string) \<Rightarrow> invocation list \<Rightarrow> decision list \<Rightarrow> decision \<Rightarrow> bool" where
  "spent stable_hash C F d =
     (let decisions = counted_decisions F (fd_tenant d) (or_empty (fd_agent_id d))
            (case fd_tool d of Some t \<Rightarrow> t | None \<Rightarrow> ''None'') APPROVAL_DECISIONS_READ;
          counted = length (filter (\<lambda>e. fd_run_id e = Some (or_empty (fd_run_id d)) \<and> approves e \<and>
                                        stable_hash (fd_args e) = stable_hash (fd_args d)) decisions)
      in recorded stable_hash C d \<le> counted)"

definition counted_before :: "decision list \<Rightarrow> decision \<Rightarrow> bool" where
  "counted_before F d = list_ex (\<lambda>e. fd_id e \<noteq> fd_id d \<and> fd_agent_id e = fd_agent_id d \<and>
      fd_run_id e = fd_run_id d \<and> fd_interrupt e = fd_interrupt d \<and>
      fd_action e = Some TOOL_CALL_COUNTED)
    (list_for F (fd_tenant d) (fd_kind d) (fd_target_id d))"

text \<open>The arguments a shape is taken of: a dictionary, else none.\<close>

definition dict_args :: "pyval \<Rightarrow> args" where
  "dict_args v = (case v of PyObj kvs \<Rightarrow> kvs | _ \<Rightarrow> [])"

definition shaped_args :: "decision \<Rightarrow> args" where
  "shaped_args d = dict_args (if \<not> is_dict (fd_args d) \<and> is_dict (fd_correction d) then fd_correction d else fd_args d)"

definition decided_tool :: "decision \<Rightarrow> string" where
  "decided_tool d = strip_name (or_empty (fd_tool d))"

definition count_decision :: "decision \<Rightarrow> string \<Rightarrow> learning \<Rightarrow> learning" where
  "count_decision d shape s =
     (let k = approval_counter (fd_verdict d) in
      s\<lparr> ln_stats := count_verdict (fd_tenant d) (decided_tool d) k (ln_stats s),
         ln_patterns := count_approval (fd_tenant d) (or_empty (fd_agent_id d)) (decided_tool d)
                          shape k (ln_patterns s) \<rparr>)"

definition project_tool_call :: "(rat \<Rightarrow> int) \<Rightarrow> (pyval \<Rightarrow> string) \<Rightarrow> decision \<Rightarrow> learning \<Rightarrow>
    service_error + (Action \<times> learning)" where
  "project_tool_call lg stable_hash d s =
     (if decided_tool d = [] then Inr (A_NONE, s)
      else if \<not> (truthy (fd_run_id d) \<and> truthy (fd_interrupt d) \<and> truthy (fd_reviewer d)) then Inr (A_NONE, s)
      else if counted_before (ln_feedback s) d then Inr (A_NONE, s)
      else if approves d \<and> \<not> backed stable_hash (ln_calls s) d then Inr (A_NONE, s)
      else if approves d \<and> spent stable_hash (ln_calls s) (ln_feedback s) d then Inr (A_NONE, s)
      else rbind (arg_shape lg (shaped_args d)) (\<lambda>shape. Inr (TOOL_CALL_COUNTED, count_decision d shape s)))"

definition set_projection :: "string \<Rightarrow> string \<Rightarrow> Action \<Rightarrow> decision list \<Rightarrow> decision list" where
  "set_projection tenant fid a F =
     map (\<lambda>d. if fd_tenant d = tenant \<and> fd_id d = fid then d\<lparr> fd_action := Some a \<rparr> else d) F"

text \<open>What the \<open>feedback.project\<close> job of a decision comes to: nothing stored under the id, already
  projected, looked at again with a higher attempt, or projected now.\<close>

datatype job_end = MISSING | DONE Action | AGAIN nat

definition project_decision :: "(rat \<Rightarrow> int) \<Rightarrow> (pyval \<Rightarrow> string) \<Rightarrow> string \<Rightarrow> string \<Rightarrow> nat \<Rightarrow> learning \<Rightarrow>
    service_error + (job_end \<times> learning)" where
  "project_decision lg stable_hash tenant fid attempt s =
     (case find (\<lambda>d. fd_tenant d = tenant \<and> fd_id d = fid) (ln_feedback s) of
        None \<Rightarrow> Inr (MISSING, s)
      | Some d \<Rightarrow>
          (case fd_action d of
             Some a \<Rightarrow> Inr (DONE a, s)
           | None \<Rightarrow>
               if attempt < CALL_RECORD_CHECKS \<and> approves d \<and> \<not> backed stable_hash (ln_calls s) d
               then Inr (AGAIN (attempt + 1), s)
               else rbind (project_tool_call lg stable_hash d s) (\<lambda>(a, s').
                      Inr (DONE a, s'\<lparr> ln_feedback := set_projection tenant fid a (ln_feedback s') \<rparr>))))"

subsection \<open>Suggestions\<close>

definition accepted :: "tool option \<Rightarrow> string \<Rightarrow> bool" where
  "accepted entry shape = (case entry of
     None \<Rightarrow> False
   | Some t \<Rightarrow> truthy (approve_when t) \<and> contains (when_shape shape) (or_empty (approve_when t)))"

definition offered :: "counts \<Rightarrow> tool option \<Rightarrow> suggestion option" where
  "offered c entry = (case (suggestion_of c, entry) of
     (Some AUTO_APPROVE, Some t) \<Rightarrow>
        if risk t = IRREVERSIBLE then None
        else if truthy (approve_when t) \<and> \<not> accepted entry (ct_arg_shape c) then None
        else Some AUTO_APPROVE
   | (s, _) \<Rightarrow> s)"

text \<open>The set of reviewers, as a list without repetition; \<open>arg_shape\<close> may raise.\<close>

definition reviewers :: "(rat \<Rightarrow> int) \<Rightarrow> learning \<Rightarrow> string \<Rightarrow> counts \<Rightarrow> service_error + string list" where
  "reviewers lg s tenant c =
     rbind (mapM (\<lambda>d. if truthy (fd_reviewer d) \<and> approval_counter (fd_verdict d) = C_APPROVALS
                       then rbind (arg_shape lg (dict_args (fd_args d)))
                              (\<lambda>shape. Inr (if shape = ct_arg_shape c then [or_empty (fd_reviewer d)] else []))
                       else Inr [])
             (counted_decisions (ln_feedback s) tenant (ct_agent_id c) (ct_tool c) APPROVAL_DECISIONS_READ))
       (\<lambda>found. Inr (remdups (concat found)))"

definition offer :: "(rat \<Rightarrow> int) \<Rightarrow> learning \<Rightarrow> string \<Rightarrow> counts \<Rightarrow> tool option \<Rightarrow>
    service_error + suggestion option" where
  "offer lg s tenant c entry =
     (let suggestion = offered c entry in
      if suggestion \<noteq> Some AUTO_APPROVE then Inr suggestion
      else rbind (reviewers lg s tenant c)
             (\<lambda>who. Inr (if APPROVAL_MIN_REVIEWERS \<le> length who then suggestion else None)))"

subsection \<open>Accepting\<close>

text \<open>\<open>suggestion_id\<close> and \<open>_decode\<close>. The reader of \<open>Json\<close> takes the compact UTF-8 documents the
  service writes; other JSON is \<open>None\<close>, as is an array or object nested in the three members, whose
  \<open>str()\<close> no stored identifier equals. Unpacking a string or an object yields its characters or keys.\<close>

definition suggestion_id :: "counts \<Rightarrow> string" where
  "suggestion_id c = opaque (utf8_encode (dumps_with json_ascii
     (JArr [JStr (ct_agent_id c), JStr (ct_tool c), JStr (ct_arg_shape c)])))"

fun py_str :: "json \<Rightarrow> string option" where
  "py_str (JStr s) = Some s"
| "py_str (JNum n) = Some (show_nat n)"
| "py_str JNull = Some ''None''"
| "py_str _ = None"

fun unpacked :: "json \<Rightarrow> string option list" where
  "unpacked (JArr vs) = map py_str vs"
| "unpacked (JObj kvs) = map (\<lambda>kv. Some (fst kv)) kvs"
| "unpacked (JStr s) = map (\<lambda>c. Some [c]) s"
| "unpacked _ = []"

definition decode_suggestion :: "string \<Rightarrow> service_error + string \<times> string \<times> string" where
  "decode_suggestion identifier =
     (case Option.bind (Option.bind (transparent identifier) utf8_decode) loads of
        None \<Rightarrow> Inl NotFound
      | Some v \<Rightarrow>
          (case unpacked v of
             [Some agent_id, Some tool, Some shape] \<Rightarrow> Inr (agent_id, tool, shape)
           | _ \<Rightarrow> Inl NotFound))"

definition unsupported :: service_error where
  "unsupported = Conflict ''the decisions no longer support this suggestion'' False"

definition never_less :: service_error where
  "never_less = Conflict ''a learned rule never makes it ask less'' False"

text \<open>The entry the rule goes into: the workspace's, the tenant's, or a new one.\<close>

definition catalog_entry :: "(pyval \<Rightarrow> string) \<Rightarrow> string \<Rightarrow> instant \<Rightarrow> exec_context \<Rightarrow> string \<Rightarrow> tool list \<Rightarrow>
    (service_error + tool) \<times> tool list" where
  "catalog_entry stable_hash tid now ctx tool T =
     (case by_name T (ctx_tenant_id ctx) tool (ctx_workspace_id ctx) of
        Some t \<Rightarrow> (Inr t, T)
      | None \<Rightarrow> ensure stable_hash tid now (ctx_tenant_id ctx) tool T)"

text \<open>\<open>accept\<close>. \<open>tid\<close> and \<open>now\<close> are the identifier and the clock a write may need.\<close>

definition accept :: "(rat \<Rightarrow> int) \<Rightarrow> (pyval \<Rightarrow> string) \<Rightarrow> string \<Rightarrow> instant \<Rightarrow> exec_context \<Rightarrow> string \<Rightarrow>
    learning \<Rightarrow> (service_error + tool) \<times> learning" where
  "accept lg stable_hash tid now ctx identifier s =
     (let tenant = ctx_tenant_id ctx in
      case decode_suggestion identifier of
        Inl e \<Rightarrow> (Inl e, s)
      | Inr (agent_id, tool, shape) \<Rightarrow>
          if agent_id \<noteq> or_empty (ctx_agent_id ctx) then (Inl NotFound, s)
          else (case approval_pattern (ln_patterns s) tenant agent_id tool shape of
            None \<Rightarrow> (Inl unsupported, s)
          | Some counts \<Rightarrow>
              if suggestion_of counts = None then (Inl unsupported, s)
              else
                (case catalog_entry stable_hash tid now ctx tool (ln_tools s) of
                   (Inl e, T) \<Rightarrow> (Inl e, s\<lparr> ln_tools := T \<rparr>)
                 | (Inr entry, T) \<Rightarrow>
                     let s1 = s\<lparr> ln_tools := T \<rparr> in
                     (case offer lg s1 tenant counts (Some entry) of
                        Inl e \<Rightarrow> (Inl e, s1)
                      | Inr None \<Rightarrow> (Inl never_less, s1)
                      | Inr (Some suggestion) \<Rightarrow>
                          if accepted (Some entry) shape then (Inr entry, s1)
                          else
                            let expression = compose (approve_when entry) (risk entry) suggestion shape in
                            (case parse expression of
                               Some (Inr _) \<Rightarrow>
                                 let sent = entry\<lparr> td_fields := (td_fields entry)\<lparr> td_approve_when := Some expression \<rparr> \<rparr>;
                                     ((stored, _), T2) = upsert stable_hash tid now (Some only_approve_when) sent T in
                                 (Inr stored, s1\<lparr> ln_tools := T2,
                                     ln_revisions := snd (rev_bump tenant R_TENANT [] (ln_revisions s1)) \<rparr>)
                             | _ \<Rightarrow> (Inl ValueError, s1))))))"

end
