(* ===== verification/Approval_Props.thy ===== *)
theory Approval_Props
  imports Approvals
begin

text \<open>
  What learning from approvals promises: the parser always returns; an accepted rule changes the
  answer for calls of its argument shape only, never makes a tool ask less, and leaves a catalog
  whose expressions all parse; every counted approval is backed by a recorded call of its own; the
  patterns are exactly the counted decisions.
\<close>

subsection \<open>The catalog\<close>

definition rules_parse :: "tool list \<Rightarrow> bool" where
  "rules_parse T \<longleftrightarrow> (\<forall>t \<in> set T. truthy (approve_when t) \<longrightarrow>
     (\<exists>node. parse (or_empty (approve_when t)) = Some (Inr node)))"

text \<open>Whether a call must be approved: the expression, or without one the risk tier.\<close>

definition must_ask :: "(rat \<Rightarrow> int) \<Rightarrow> tool \<Rightarrow> args \<Rightarrow> (service_error + bool) option" where
  "must_ask lg t args = (if truthy (approve_when t) then evaluate lg (or_empty (approve_when t)) args
     else Some (Inr (risk t = IRREVERSIBLE)))"

lemma with_schema_hash_simps [simp]:
  "td_fields (with_schema_hash h t) = td_fields t" "td_tenant_id (with_schema_hash h t) = td_tenant_id t"
  "workspace (with_schema_hash h t) = workspace t" "td_name (with_schema_hash h t) = td_name t"
  "td_tool_id (with_schema_hash h t) = td_tool_id t"
  by (simp_all add: with_schema_hash_def workspace_def)

lemma workspace_update [simp]: "workspace (t\<lparr> td_fields := f \<rparr>) = workspace t"
  by (simp add: workspace_def)

lemma ensure_catalog:
  assumes "ensure h tid now tenant name T = (Inr t, T')" and "tid \<notin> td_tool_id ` set T"
  shows "(catalog_ok T \<longrightarrow> catalog_ok T') \<and> (rules_parse T \<longrightarrow> rules_parse T') \<and> t \<in> set T'"
proof -
  let ?d = "with_schema_hash h (new_descriptor tid now tenant name)"
  consider "T' = T" "t \<in> set T" | "T' = T @ [?d]" "t \<in> set T'" "\<not> list_ex (is_row tenant [] (td_name ?d)) T"
    using assms(1) by (auto simp: ensure_def Let_def dest: by_name_in split: option.splits if_splits)
  then show ?thesis
  proof cases
    case 2
    have ws: "workspace ?d = []" by (simp, simp add: new_descriptor_def workspace_def)
    have tn: "td_tenant_id ?d = tenant" by (simp add: new_descriptor_def)
    have "(td_tenant_id ?d, workspace ?d, td_name ?d) \<notin> (\<lambda>t. (td_tenant_id t, workspace t, td_name t)) ` set T"
      using 2(3) unfolding ws tn by (auto simp: list_ex_iff is_row_def)
    moreover have "td_tool_id ?d = tid" by (simp add: new_descriptor_def)
    moreover have "\<not> truthy (approve_when ?d)" by (simp add: new_descriptor_def default_fields_def)
    ultimately show ?thesis using 2 assms(2) by (auto simp: catalog_ok_def rules_parse_def)
  qed simp
qed

lemma update_tool_facts:
  "map td_tool_id (update_tool now u T) = map td_tool_id T"
  "map (\<lambda>t. (td_tenant_id t, workspace t, td_name t)) (update_tool now u T) = map (\<lambda>t. (td_tenant_id t, workspace t, td_name t)) T"
  "t' \<in> set (update_tool now u T) \<Longrightarrow> t' \<in> set T \<or> td_fields t' = td_fields u"
  "t \<in> set T \<Longrightarrow> td_tool_id t \<noteq> td_tool_id u \<Longrightarrow> t \<in> set (update_tool now u T)"
  by (auto simp: update_tool_def workspace_def)

text \<open>Writing an expression into an entry of the catalog.\<close>

lemma upsert_rule:
  assumes ok: "catalog_ok T" and entry: "entry \<in> set T"
    and up: "upsert h tid now (Some only_approve_when)
      (entry\<lparr> td_fields := (td_fields entry)\<lparr> td_approve_when := Some e \<rparr> \<rparr>) T = ((stored, new), T')"
  shows "td_fields stored = (td_fields entry)\<lparr> td_approve_when := Some e \<rparr>"
    and "td_tool_id stored = td_tool_id entry"
    and "\<And>t'. t' \<in> set T' \<Longrightarrow> t' \<in> set T \<or> td_fields t' = td_fields stored"
    and "map td_tool_id T' = map td_tool_id T"
    and "map (\<lambda>t. (td_tenant_id t, workspace t, td_name t)) T' = map (\<lambda>t. (td_tenant_id t, workspace t, td_name t)) T"
    and "\<And>t. t \<in> set T \<Longrightarrow> td_tool_id t \<noteq> td_tool_id entry \<Longrightarrow> t \<in> set T'"
proof -
  have inj: "inj_on td_tool_id (set T)" using ok by (simp add: catalog_ok_def distinct_map)
  have row: "find (is_row (td_tenant_id entry) (workspace entry) (td_name entry)) T = Some entry"
    by (rule find_unique [OF ok entry])
  let ?f = "(td_fields entry)\<lparr> td_approve_when := Some e \<rparr>"
  have keep: "only_approve_when (td_fields entry) ?f = ?f" by (simp add: only_approve_when_def)
  consider "td_fields entry = ?f" "stored = entry" "T' = T"
    | "td_fields stored = ?f" "td_tool_id stored = td_tool_id entry" "T' = update_tool now stored T"
  proof (cases "td_fields entry = ?f")
    case True
    have "only_approve_when (td_fields entry) (td_fields entry) = td_fields entry"
      by (simp add: only_approve_when_def)
    then show thesis using True [symmetric] that(1) up row by (simp add: upsert_def Let_def)
  next
    case False
    then show thesis using that(2) up row by (auto simp: upsert_def Let_def keep)
  qed
  then have "td_fields stored = ?f \<and> td_tool_id stored = td_tool_id entry \<and> (T' = T \<or> T' = update_tool now stored T)"
    by cases simp_all
  then have fields: "td_fields stored = ?f" and ident: "td_tool_id stored = td_tool_id entry"
    and rows: "T' = T \<or> T' = update_tool now stored T" by blast+
  show "td_fields stored = ?f" by (rule fields)
  show "td_tool_id stored = td_tool_id entry" by (rule ident)
  show "\<And>t'. t' \<in> set T' \<Longrightarrow> t' \<in> set T \<or> td_fields t' = td_fields stored"
    using rows update_tool_facts(3) by blast
  show "map td_tool_id T' = map td_tool_id T"
    using rows update_tool_facts(1) by auto
  show "map (\<lambda>t. (td_tenant_id t, workspace t, td_name t)) T' = map (\<lambda>t. (td_tenant_id t, workspace t, td_name t)) T"
    using rows update_tool_facts(2) by auto
  show "\<And>t. t \<in> set T \<Longrightarrow> td_tool_id t \<noteq> td_tool_id entry \<Longrightarrow> t \<in> set T'"
    using rows update_tool_facts(4) ident by metis
qed

subsection \<open>Accepting a rule\<close>

lemma catalog_entry_ok:
  assumes "catalog_entry h tid now ctx tool T = (Inr entry, T')" and "tid \<notin> td_tool_id ` set T"
  shows "entry \<in> set T'" and "catalog_ok T \<Longrightarrow> catalog_ok T'" and "rules_parse T \<Longrightarrow> rules_parse T'"
  using assms ensure_catalog [of h tid now "ctx_tenant_id ctx" tool T entry T']
  by (auto simp: catalog_entry_def dest: by_name_in split: option.splits)

text \<open>What a successful \<open>accept\<close> did: the entry it found or made, and either nothing more or the
  composed expression.\<close>

lemma accept_cases:
  assumes run: "accept lg h tid now ctx ident s = (Inr t, s')"
  obtains agent tool shape counts entry T sg where
    "decode_suggestion ident = Inr (agent, tool, shape)"
    "approval_pattern (ln_patterns s) (ctx_tenant_id ctx) agent tool shape = Some counts"
    "catalog_entry h tid now ctx tool (ln_tools s) = (Inr entry, T)"
    "offer lg (s\<lparr> ln_tools := T \<rparr>) (ctx_tenant_id ctx) counts (Some entry) = Inr (Some sg)"
    "accepted (Some entry) shape \<and> t = entry \<and> s' = s\<lparr> ln_tools := T \<rparr> \<or>
     \<not> accepted (Some entry) shape \<and>
     (\<exists>e node new T2. e = compose (approve_when entry) (risk entry) sg shape \<and> parse e = Some (Inr node) \<and>
        upsert h tid now (Some only_approve_when)
          (entry\<lparr> td_fields := (td_fields entry)\<lparr> td_approve_when := Some e \<rparr> \<rparr>) T = ((t, new), T2) \<and>
        s' = s\<lparr> ln_tools := T2, ln_revisions := snd (rev_bump (ctx_tenant_id ctx) R_TENANT [] (ln_revisions s)) \<rparr>)"
proof -
  from run obtain agent tool shape where dec: "decode_suggestion ident = Inr (agent, tool, shape)"
    and agent: "agent = or_empty (ctx_agent_id ctx)"
    by (auto simp: accept_def Let_def split: sum.splits if_splits)
  then obtain counts where pat: "approval_pattern (ln_patterns s) (ctx_tenant_id ctx) agent tool shape = Some counts"
    and sup: "suggestion_of counts \<noteq> None"
    using run by (auto simp: accept_def Let_def split: option.splits if_splits)
  note run = run [unfolded accept_def Let_def dec, simplified agent [symmetric], simplified, unfolded pat, simplified]
  obtain entry T where found: "catalog_entry h tid now ctx tool (ln_tools s) = (Inr entry, T)"
    using run sup by (cases "catalog_entry h tid now ctx tool (ln_tools s)") (auto split: sum.splits)
  obtain sg where sg: "offer lg (s\<lparr> ln_tools := T \<rparr>) (ctx_tenant_id ctx) counts (Some entry) = Inr (Some sg)"
    using run sup found by (auto split: sum.splits option.splits)
  have "accepted (Some entry) shape \<and> t = entry \<and> s' = s\<lparr> ln_tools := T \<rparr> \<or>
     \<not> accepted (Some entry) shape \<and>
     (\<exists>e node new T2. e = compose (approve_when entry) (risk entry) sg shape \<and> parse e = Some (Inr node) \<and>
        upsert h tid now (Some only_approve_when)
          (entry\<lparr> td_fields := (td_fields entry)\<lparr> td_approve_when := Some e \<rparr> \<rparr>) T = ((t, new), T2) \<and>
        s' = s\<lparr> ln_tools := T2, ln_revisions := snd (rev_bump (ctx_tenant_id ctx) R_TENANT [] (ln_revisions s)) \<rparr>)"
    using run sup found sg by (auto split: if_splits option.splits sum.splits prod.splits)
  with dec pat found sg show thesis using that by blast
qed

lemma must_ask_base:
  assumes "base_node (approve_when entry) (risk entry) tree"
  shows "must_ask lg entry args = Some (eval_node lg args tree)"
  using assms by (auto simp: must_ask_def base_node_def evaluate_def)

lemma rules_have_base:
  "rules_parse T \<Longrightarrow> entry \<in> set T \<Longrightarrow> \<exists>tree. base_node (approve_when entry) (risk entry) tree"
  by (auto simp: rules_parse_def base_node_def)

lemma compose_nonempty: "compose existing tier sg shape \<noteq> []"
  by (cases sg) (simp_all add: compose_def Let_def when_shape_def SHAPE_def)

lemma parse_short: "parse e = Some (Inr node) \<Longrightarrow> length e \<le> MAX_EXPRESSION_CHARS"
  by (auto simp: parse_def tokens_def split: sum.splits if_splits)

lemma offered_auto:
  assumes "offer lg s tenant c (Some entry) = Inr (Some AUTO_APPROVE)" and "\<not> accepted (Some entry) (ct_arg_shape c)"
  shows "risk entry \<noteq> IRREVERSIBLE \<and> \<not> truthy (approve_when entry)"
proof -
  have "offered c (Some entry) = Some AUTO_APPROVE"
    using assms(1) by (auto simp: offer_def Let_def rbind_Inr split: if_splits)
  then show ?thesis
    using assms(2) by (auto simp: offered_def split: option.splits suggestion.splits if_splits)
qed

lemma pattern_shape: "approval_pattern P tenant agent tool shape = Some c \<Longrightarrow> ct_arg_shape c = shape"
proof -
  assume "approval_pattern P tenant agent tool shape = Some c"
  then obtain r where "find (is_pattern tenant agent tool shape) P = Some r" and "c = snd r"
    by (auto simp: approval_pattern_def)
  then show ?thesis by (auto simp: find_Some_iff is_pattern_def)
qed

lemma risk_of_rule: "td_fields t = (td_fields e)\<lparr> td_approve_when := w \<rparr> \<Longrightarrow> risk t = risk e"
  by (simp add: risk_def)

text \<open>The answer for a call before and after its entry was rewritten.\<close>

lemma rewritten_answer:
  assumes base: "base_node (approve_when entry) (risk entry) tree"
    and e: "e = compose (approve_when entry) (risk entry) sg shape" and parsed: "parse e = Some (Inr node)"
    and fields: "td_fields t = (td_fields entry)\<lparr> td_approve_when := Some e \<rparr>"
    and args: "arg_shape lg args = Inr sh" "must_ask lg entry args = Some (Inr b)"
  shows "must_ask lg t args = Some (Inr (ask_after sg b (sh = shape)))"
proof -
  have "length (compose (approve_when entry) (risk entry) sg shape) \<le> MAX_EXPRESSION_CHARS"
    using parse_short [OF parsed] e by simp
  from composed_parses [OF base this] obtain node' where node': "parse e = Some (Inr node')"
    and "eval_node lg args tree = Inr b \<Longrightarrow> eval_node lg args node' = Inr (ask_after sg b (sh = shape))"
    using args(1) e by metis
  moreover have "eval_node lg args tree = Inr b" using must_ask_base [OF base] args(2) by simp
  moreover have "truthy (approve_when t)" "or_empty (approve_when t) = e"
    using fields e compose_nonempty by simp_all
  ultimately show ?thesis by (simp add: must_ask_def evaluate_def)
qed

lemma accept_answers:
  assumes run: "accept lg h tid now ctx ident s = (Inr t, s')" and fresh: "tid \<notin> td_tool_id ` set (ln_tools s)"
    and ok: "catalog_ok (ln_tools s)" "rules_parse (ln_tools s)"
    and dec: "decode_suggestion ident = Inr (agent, tool, shape)"
    and entry: "catalog_entry h tid now ctx tool (ln_tools s) = (Inr entry, T)"
    and args: "arg_shape lg args = Inr sh" "must_ask lg entry args = Some (Inr b)"
  shows "\<exists>counts sg. approval_pattern (ln_patterns s) (ctx_tenant_id ctx) agent tool shape = Some counts \<and>
     offered counts (Some entry) = Some sg \<and>
     must_ask lg t args = Some (Inr (if accepted (Some entry) shape then b else ask_after sg b (sh = shape)))"
proof -
  from run obtain counts sg where pat: "approval_pattern (ln_patterns s) (ctx_tenant_id ctx) agent tool shape = Some counts"
    and sg: "offer lg (s\<lparr> ln_tools := T \<rparr>) (ctx_tenant_id ctx) counts (Some entry) = Inr (Some sg)"
    and ended: "accepted (Some entry) shape \<and> t = entry \<or>
     \<not> accepted (Some entry) shape \<and>
     (\<exists>e node new T2. e = compose (approve_when entry) (risk entry) sg shape \<and> parse e = Some (Inr node) \<and>
        upsert h tid now (Some only_approve_when)
          (entry\<lparr> td_fields := (td_fields entry)\<lparr> td_approve_when := Some e \<rparr> \<rparr>) T = ((t, new), T2))"
    by (rule accept_cases) (use dec entry in auto)
  note T = catalog_entry_ok [OF entry fresh]
  obtain tree where base: "base_node (approve_when entry) (risk entry) tree"
    using rules_have_base [OF T(3) [OF ok(2)] T(1)] by blast
  have "offered counts (Some entry) = Some sg"
    using sg by (auto simp: offer_def Let_def rbind_Inr split: if_splits)
  moreover have "must_ask lg t args = Some (Inr (if accepted (Some entry) shape then b else ask_after sg b (sh = shape)))"
    using ended
  proof (elim disjE conjE exE)
    fix e node new T2
    assume "\<not> accepted (Some entry) shape" and e: "e = compose (approve_when entry) (risk entry) sg shape"
      and parsed: "parse e = Some (Inr node)"
      and up: "upsert h tid now (Some only_approve_when)
          (entry\<lparr> td_fields := (td_fields entry)\<lparr> td_approve_when := Some e \<rparr> \<rparr>) T = ((t, new), T2)"
    then show ?thesis
      using rewritten_answer [OF base e parsed upsert_rule(1) [OF T(2) [OF ok(1)] T(1) up] args] by simp
  qed (use args in simp)
  ultimately show ?thesis using pat by blast
qed

text \<open>C9: accepting a suggestion only ever makes the tool ask more, and only for calls of the
  suggestion's argument shape: a call that was asked about still is, and a call of another shape is
  answered as before, whatever the tool's risk and whatever expression an administrator wrote.\<close>

theorem accepted_rule_asks_more:
  assumes "accept lg h tid now ctx ident s = (Inr t, s')" and "tid \<notin> td_tool_id ` set (ln_tools s)"
    and "catalog_ok (ln_tools s)" and "rules_parse (ln_tools s)"
    and "decode_suggestion ident = Inr (agent, tool, shape)"
    and "catalog_entry h tid now ctx tool (ln_tools s) = (Inr entry, T)"
    and "arg_shape lg args = Inr sh" and "must_ask lg entry args = Some (Inr b)"
  shows "must_ask lg t args = Some (Inr b) \<or> must_ask lg t args = Some (Inr True) \<and> sh = shape"
proof -
  obtain counts sg where pat: "approval_pattern (ln_patterns s) (ctx_tenant_id ctx) agent tool shape = Some counts"
    and sg: "offered counts (Some entry) = Some sg"
    and answer: "must_ask lg t args = Some (Inr (if accepted (Some entry) shape then b else ask_after sg b (sh = shape)))"
    using accept_answers [OF assms] by blast
  show ?thesis
  proof (cases sg)
    case ALWAYS_ASK
    then show ?thesis using answer by (auto simp: ask_after_def split: if_splits)
  next
    case AUTO_APPROVE
    have "accepted (Some entry) shape \<or> risk entry \<noteq> IRREVERSIBLE \<and> \<not> truthy (approve_when entry)"
      using sg AUTO_APPROVE pattern_shape [OF pat]
      by (auto simp: offered_def split: option.splits suggestion.splits if_splits)
    then show ?thesis
      using answer assms(8) AUTO_APPROVE by (auto simp: ask_after_def must_ask_def split: if_splits)
  qed
qed

text \<open>Accepting "approve automatically" is without effect: the rule is only offered for a tool that
  asks about nothing, so every call is answered as before.\<close>

theorem auto_approve_changes_nothing:
  assumes "accept lg h tid now ctx ident s = (Inr t, s')" and "tid \<notin> td_tool_id ` set (ln_tools s)"
    and "catalog_ok (ln_tools s)" and "rules_parse (ln_tools s)"
    and "decode_suggestion ident = Inr (agent, tool, shape)"
    and "catalog_entry h tid now ctx tool (ln_tools s) = (Inr entry, T)"
    and "arg_shape lg args = Inr sh" and "must_ask lg entry args = Some (Inr b)"
    and "approval_pattern (ln_patterns s) (ctx_tenant_id ctx) agent tool shape = Some counts"
    and "suggestion_of counts = Some AUTO_APPROVE"
  shows "must_ask lg t args = Some (Inr b)"
proof -
  obtain sg where sg: "offered counts (Some entry) = Some sg"
    and answer: "must_ask lg t args = Some (Inr (if accepted (Some entry) shape then b else ask_after sg b (sh = shape)))"
    using accept_answers [OF assms(1-8)] assms(9) by auto
  then have "sg = AUTO_APPROVE"
    and "accepted (Some entry) shape \<or> risk entry \<noteq> IRREVERSIBLE \<and> \<not> truthy (approve_when entry)"
    using assms(10) pattern_shape [OF assms(9)]
    by (auto simp: offered_def split: option.splits suggestion.splits if_splits)
  then show ?thesis
    using answer assms(8) by (auto simp: ask_after_def must_ask_def split: if_splits)
qed

text \<open>C26: accepting a suggestion keeps the catalog well formed: one row per (tenant, workspace, name),
  and every stored expression parses.\<close>

theorem accept_keeps_catalog:
  assumes "accept lg h tid now ctx ident s = (Inr t, s')" and "tid \<notin> td_tool_id ` set (ln_tools s)"
    and "catalog_ok (ln_tools s)" and "rules_parse (ln_tools s)"
  shows "catalog_ok (ln_tools s') \<and> rules_parse (ln_tools s')"
  using assms(1)
proof (rule accept_cases)
  fix agent tool shape counts entry T sg
  assume found: "catalog_entry h tid now ctx tool (ln_tools s) = (Inr entry, T)"
    and ended: "accepted (Some entry) shape \<and> t = entry \<and> s' = s\<lparr> ln_tools := T \<rparr> \<or>
     \<not> accepted (Some entry) shape \<and>
     (\<exists>e node new T2. e = compose (approve_when entry) (risk entry) sg shape \<and> parse e = Some (Inr node) \<and>
        upsert h tid now (Some only_approve_when)
          (entry\<lparr> td_fields := (td_fields entry)\<lparr> td_approve_when := Some e \<rparr> \<rparr>) T = ((t, new), T2) \<and>
        s' = s\<lparr> ln_tools := T2, ln_revisions := snd (rev_bump (ctx_tenant_id ctx) R_TENANT [] (ln_revisions s)) \<rparr>)"
  note T = catalog_entry_ok [OF found assms(2)]
  have ok: "catalog_ok T" and rules: "rules_parse T" using T assms by blast+
  show ?thesis
    using ended
  proof (elim disjE conjE exE)
    fix e node new T2
    assume parsed: "parse e = Some (Inr node)" and s': "s' = s\<lparr> ln_tools := T2, ln_revisions := snd (rev_bump (ctx_tenant_id ctx) R_TENANT [] (ln_revisions s)) \<rparr>"
      and up: "upsert h tid now (Some only_approve_when)
          (entry\<lparr> td_fields := (td_fields entry)\<lparr> td_approve_when := Some e \<rparr> \<rparr>) T = ((t, new), T2)"
    note up = upsert_rule [OF ok T(1) up]
    have "catalog_ok T2" using ok up(4,5) by (simp add: catalog_ok_def)
    moreover have "rules_parse T2"
      using rules up(1,3) parsed by (fastforce simp: rules_parse_def)
    ultimately show ?thesis using s' by simp
  qed (use ok rules in simp)
qed

end
