(* ===== verification/Approval_Counting.thy ===== *)
theory Approval_Counting
  imports Approval_Props
begin

text \<open>
  The counting of decisions as a state machine: decisions and calls arrive in any order, and the
  projection job of any decision may run at any moment. Two invariants: the approvals counted for an
  agent's tool and arguments in a run never outnumber the calls recorded for them, as long as the
  window of decisions that is read holds them all, and the patterns are the counted decisions,
  added up.
\<close>

subsection \<open>Steps\<close>

definition decision_ids :: "learning \<Rightarrow> (string \<times> string) list" where
  "decision_ids s = map (\<lambda>d. (fd_tenant d, fd_id d)) (ln_feedback s)"

inductive counting_step :: "(rat \<Rightarrow> int) \<Rightarrow> (pyval \<Rightarrow> string) \<Rightarrow> learning \<Rightarrow> learning \<Rightarrow> bool"
  for lg stable_hash where
  call: "counting_step lg stable_hash s (s\<lparr> ln_calls := ln_calls s @ [c] \<rparr>)"
| decide: "fd_action d = None \<Longrightarrow> fd_kind d = K_TOOL_CALL \<Longrightarrow>
    (fd_tenant d, fd_id d) \<notin> set (decision_ids s) \<Longrightarrow>
    counting_step lg stable_hash s (s\<lparr> ln_feedback := ln_feedback s @ [d] \<rparr>)"
| project: "project_decision lg stable_hash tenant fid attempt s = Inr (out, s') \<Longrightarrow>
    counting_step lg stable_hash s s'"

inductive_cases counting_stepE: "counting_step lg stable_hash s s'"

definition empty_learning :: "tool list \<Rightarrow> revisions \<Rightarrow> learning" where
  "empty_learning T R = \<lparr> ln_tools = T, ln_patterns = [], ln_stats = (\<lambda>_. None), ln_feedback = [],
     ln_calls = [], ln_revisions = R \<rparr>"

inductive counting_run :: "(rat \<Rightarrow> int) \<Rightarrow> (pyval \<Rightarrow> string) \<Rightarrow> learning \<Rightarrow> bool"
  for lg stable_hash where
  start: "counting_run lg stable_hash (empty_learning T R)"
| more: "counting_run lg stable_hash s \<Longrightarrow> counting_step lg stable_hash s s' \<Longrightarrow> counting_run lg stable_hash s'"

subsection \<open>A projection\<close>

text \<open>What a projection that changes something did: the decision had no projection and has one now.\<close>

lemma project_cases:
  assumes "project_decision lg h tenant fid attempt s = Inr (out, s')" and "s' \<noteq> s"
  obtains d a s1 where "find (\<lambda>d. fd_tenant d = tenant \<and> fd_id d = fid) (ln_feedback s) = Some d"
    and "fd_action d = None" and "project_tool_call lg h d s = Inr (a, s1)"
    and "s' = s1\<lparr> ln_feedback := set_projection tenant fid a (ln_feedback s1) \<rparr>"
  using assms
  by (auto simp: project_decision_def rbind_Inr split: option.splits if_splits)

lemma tool_call_ends:
  assumes "project_tool_call lg h d s = Inr (a, s1)"
  shows "a = A_NONE \<and> s1 = s \<or>
    a = TOOL_CALL_COUNTED \<and> decided_tool d \<noteq> [] \<and> \<not> counted_before (ln_feedback s) d \<and>
    (approves d \<longrightarrow> backed h (ln_calls s) d \<and> \<not> spent h (ln_calls s) (ln_feedback s) d) \<and>
    (\<exists>shape. arg_shape lg (shaped_args d) = Inr shape \<and> s1 = count_decision d shape s)"
  using assms unfolding project_tool_call_def by (auto simp: rbind_Inr split: if_splits)

lemma count_decision_keeps [simp]:
  "ln_feedback (count_decision d shape s) = ln_feedback s" "ln_calls (count_decision d shape s) = ln_calls s"
  "ln_tools (count_decision d shape s) = ln_tools s"
  by (simp_all add: count_decision_def Let_def)

lemma tool_call_keeps:
  "project_tool_call lg h d s = Inr (a, s1) \<Longrightarrow> ln_feedback s1 = ln_feedback s \<and> ln_calls s1 = ln_calls s"
  by (auto dest: tool_call_ends)

text \<open>The decision a job projects, in its place: what precedes and what follows it is as before.\<close>

lemma projected_place:
  assumes "find (\<lambda>d. fd_tenant d = tenant \<and> fd_id d = fid) F = Some d"
    and "distinct (map (\<lambda>d. (fd_tenant d, fd_id d)) F)"
  obtains A B where "F = A @ d # B" and "set_projection tenant fid a F = A @ d\<lparr> fd_action := Some a \<rparr> # B"
proof -
  have d: "fd_tenant d = tenant" "fd_id d = fid" and "d \<in> set F"
    using assms(1) by (auto simp: find_Some_iff)
  then obtain A B where F: "F = A @ d # B" by (meson split_list)
  have "\<forall>e \<in> set A \<union> set B. \<not> (fd_tenant e = tenant \<and> fd_id e = fid)"
    using assms(2) F d by (auto simp: image_iff)
  then have "set_projection tenant fid a F = A @ d\<lparr> fd_action := Some a \<rparr> # B"
    using F d by (auto simp: set_projection_def intro!: map_idI)
  with F show thesis using that by blast
qed

subsection \<open>Counted approvals and recorded calls\<close>

type_synonym call_key = "string \<times> string option \<times> string option \<times> string option \<times> string"

definition approval_key :: "(pyval \<Rightarrow> string) \<Rightarrow> decision \<Rightarrow> call_key" where
  "approval_key h d = (fd_tenant d, fd_run_id d, fd_agent_id d, fd_tool d, h (fd_args d))"

definition call_key :: "invocation \<Rightarrow> call_key" where
  "call_key c = (iv_tenant c, iv_run_id c, iv_agent_id c, Some (iv_tool_name c), iv_args_hash c)"

definition counted_approval :: "decision \<Rightarrow> bool" where
  "counted_approval d \<longleftrightarrow> approves d \<and> fd_action d = Some TOOL_CALL_COUNTED"

definition approvals_of :: "(pyval \<Rightarrow> string) \<Rightarrow> call_key \<Rightarrow> decision list \<Rightarrow> nat" where
  "approvals_of h k F = length (filter (\<lambda>d. counted_approval d \<and> approval_key h d = k) F)"

definition calls_of :: "call_key \<Rightarrow> invocation list \<Rightarrow> nat" where
  "calls_of k C = length (filter (\<lambda>c. call_key c = k) C)"

lemma length_filter_imp: "(\<And>x. x \<in> set xs \<Longrightarrow> P x \<Longrightarrow> Q x) \<Longrightarrow> length (filter P xs) \<le> length (filter Q xs)"
  by (induction xs) auto

lemma filter_newest: "length ds \<le> n \<Longrightarrow> length (filter P (newest_page n ds)) = length (filter P ds)"
  by (simp add: newest_page_def rev_filter [symmetric] filter_sort)

lemma backed_calls:
  "backed h C d \<Longrightarrow> recorded h C d = calls_of (approval_key h d) C"
  by (cases "fd_run_id d")
    (auto simp: backed_def recorded_def calls_of_def approval_key_def call_key_def invocations_for_run_def
      intro!: arg_cong [where f = length] filter_cong)

lemma spent_counts:
  assumes window: "length F \<le> APPROVAL_DECISIONS_READ" and bk: "backed h C d" and tool: "fd_tool d = Some t"
    and free: "\<not> spent h C F d"
  shows "approvals_of h (approval_key h d) F < recorded h C d"
proof -
  let ?P = "\<lambda>d'. fd_tenant d' = fd_tenant d \<and> fd_kind d' = K_TOOL_CALL \<and>
     or_empty (fd_agent_id d') = or_empty (fd_agent_id d) \<and> fd_tool d' = Some t \<and> fd_action d' = Some TOOL_CALL_COUNTED"
  let ?Q = "\<lambda>e. fd_run_id e = Some (or_empty (fd_run_id d)) \<and> approves e \<and> h (fd_args e) = h (fd_args d)"
  have len: "length (filter ?P F) \<le> APPROVAL_DECISIONS_READ" using window length_filter_le le_trans by blast
  obtain run where run: "fd_run_id d = Some run" using bk by (cases "fd_run_id d") (auto simp: backed_def)
  have "approvals_of h (approval_key h d) F \<le> length (filter ?Q (filter ?P F))"
    unfolding approvals_of_def filter_filter
    by (rule length_filter_imp) (auto simp: counted_approval_def approval_key_def approves_def tool run)
  also have "\<dots> = length (filter ?Q (newest_page APPROVAL_DECISIONS_READ (filter ?P F)))"
    using filter_newest [OF len] by simp
  also have "\<dots> < recorded h C d"
    using free tool by (simp add: spent_def counted_decisions_def Let_def)
  finally show ?thesis .
qed

definition approvals_backed :: "(pyval \<Rightarrow> string) \<Rightarrow> learning \<Rightarrow> bool" where
  "approvals_backed h s \<longleftrightarrow> (\<forall>k. approvals_of h k (ln_feedback s) \<le> calls_of k (ln_calls s))"

definition ids_distinct :: "learning \<Rightarrow> bool" where
  "ids_distinct s \<longleftrightarrow> distinct (decision_ids s)"

lemma approvals_of_append: "approvals_of h k (A @ d # B) =
    approvals_of h k A + (if counted_approval d \<and> approval_key h d = k then 1 else 0) + approvals_of h k B"
  by (simp add: approvals_of_def)

lemma approval_key_action [simp]: "approval_key h (d\<lparr> fd_action := a \<rparr>) = approval_key h d"
  by (simp add: approval_key_def)

lemma project_counts_one:
  assumes "find (\<lambda>d. fd_tenant d = tenant \<and> fd_id d = fid) F = Some d" and "fd_action d = None"
    and "distinct (map (\<lambda>d. (fd_tenant d, fd_id d)) F)"
  shows "approvals_of h k (set_projection tenant fid a F) =
    approvals_of h k F + (if approves d \<and> a = TOOL_CALL_COUNTED \<and> approval_key h d = k then 1 else 0)"
proof -
  obtain A B where F: "F = A @ d # B" and F': "set_projection tenant fid a F = A @ d\<lparr> fd_action := Some a \<rparr> # B"
    by (rule projected_place [OF assms(1,3)])
  have "counted_approval (d\<lparr> fd_action := Some a \<rparr>) \<longleftrightarrow> approves d \<and> a = TOOL_CALL_COUNTED"
    by (simp add: counted_approval_def approves_def)
  moreover have "\<not> counted_approval d" using assms(2) by (simp add: counted_approval_def)
  moreover have "approvals_of h k F = approvals_of h k (A @ d # B)" by (simp only: F)
  ultimately show ?thesis unfolding F' approvals_of_append by simp
qed

lemma project_ids:
  assumes "project_decision lg h tenant fid attempt s = Inr (out, s')"
  shows "decision_ids s' = decision_ids s \<and> length (ln_feedback s') = length (ln_feedback s) \<and> ln_calls s' = ln_calls s"
proof (cases "s' = s")
  case False
  obtain d a s1 where s1: "project_tool_call lg h d s = Inr (a, s1)"
    and s': "s' = s1\<lparr> ln_feedback := set_projection tenant fid a (ln_feedback s1) \<rparr>"
    by (rule project_cases [OF assms False])
  have "ln_feedback s1 = ln_feedback s \<and> ln_calls s1 = ln_calls s"
    by (rule tool_call_keeps [OF s1])
  moreover have "map (\<lambda>d. (fd_tenant d, fd_id d)) (set_projection tenant fid a F) = map (\<lambda>d. (fd_tenant d, fd_id d)) F" for F
    by (simp add: set_projection_def)
  moreover have "length (set_projection tenant fid a F) = length F" for F
    by (simp add: set_projection_def)
  ultimately show ?thesis using s' by (simp add: decision_ids_def)
qed simp

lemma decided_tool_named: "decided_tool d \<noteq> [] \<Longrightarrow> \<exists>t. fd_tool d = Some t"
  by (cases "fd_tool d") (auto simp: decided_tool_def strip_name_def)

lemma project_backed [inv_intros]:
  assumes run: "project_decision lg h tenant fid attempt s = Inr (out, s')"
    and inv: "approvals_backed h s" "ids_distinct s" and window: "length (ln_feedback s) \<le> APPROVAL_DECISIONS_READ"
  shows "approvals_backed h s'"
proof (cases "s' = s")
  case False
  obtain d a s1 where d: "find (\<lambda>d. fd_tenant d = tenant \<and> fd_id d = fid) (ln_feedback s) = Some d" "fd_action d = None"
    and s1: "project_tool_call lg h d s = Inr (a, s1)"
    and s': "s' = s1\<lparr> ln_feedback := set_projection tenant fid a (ln_feedback s1) \<rparr>"
    by (rule project_cases [OF run False])
  have dist: "distinct (map (\<lambda>d. (fd_tenant d, fd_id d)) (ln_feedback s))"
    using inv(2) by (simp add: ids_distinct_def decision_ids_def)
  have step: "approvals_of h k (ln_feedback s') = approvals_of h k (ln_feedback s) +
      (if approves d \<and> a = TOOL_CALL_COUNTED \<and> approval_key h d = k then 1 else 0)" for k
  proof -
    have "ln_feedback s1 = ln_feedback s" using tool_call_keeps [OF s1] by simp
    then show ?thesis using project_counts_one [OF d dist, of h k a] s' by simp
  qed
  have calls: "ln_calls s' = ln_calls s" using project_ids [OF run] by simp
  have room: "approvals_of h (approval_key h d) (ln_feedback s) < calls_of (approval_key h d) (ln_calls s)"
    if "approves d" "a = TOOL_CALL_COUNTED"
  proof -
    note counted = that
    have "decided_tool d \<noteq> []" using tool_call_ends [OF s1] counted by blast
    then obtain t where t: "fd_tool d = Some t" using decided_tool_named by blast
    have bk: "backed h (ln_calls s) d" and free: "\<not> spent h (ln_calls s) (ln_feedback s) d"
      using tool_call_ends [OF s1] counted by blast+
    show ?thesis using spent_counts [OF window bk t free] backed_calls [OF bk] by simp
  qed
  show ?thesis
    unfolding approvals_backed_def calls
  proof (intro allI)
    fix k
    have "approvals_of h k (ln_feedback s) \<le> calls_of k (ln_calls s)" using inv(1) unfolding approvals_backed_def by blast
    then show "approvals_of h k (ln_feedback s') \<le> calls_of k (ln_calls s)"
      using step [of k] room by (auto split: if_splits)
  qed
qed (use inv in simp)

lemma step_grows: "counting_step lg h s s' \<Longrightarrow> length (ln_feedback s) \<le> length (ln_feedback s')"
  by (auto elim!: counting_stepE dest: project_ids)

lemma run_ids: "counting_run lg h s \<Longrightarrow> ids_distinct s"
proof (induction rule: counting_run.induct)
  case (start T R)
  then show ?case by (simp add: ids_distinct_def decision_ids_def empty_learning_def)
next
  case (more s s')
  from more.hyps(2) show ?case
  proof cases
    case (call c)
    then show ?thesis using more.IH by (simp add: ids_distinct_def decision_ids_def)
  next
    case (decide d)
    then show ?thesis using more.IH by (auto simp: ids_distinct_def decision_ids_def)
  next
    case (project tenant fid attempt out)
    then show ?thesis using more.IH project_ids by (simp add: ids_distinct_def)
  qed
qed

text \<open>C10: however decisions, calls and projection jobs interleave, the approvals counted for one
  agent's tool and arguments in one run never outnumber the calls recorded for them, as long as the
  window of decisions read holds every decision.\<close>

theorem counted_approvals_backed:
  assumes "counting_run lg h s" and "length (ln_feedback s) \<le> APPROVAL_DECISIONS_READ"
  shows "approvals_of h k (ln_feedback s) \<le> calls_of k (ln_calls s)"
proof -
  have "approvals_backed h s"
    using assms
  proof (induction rule: counting_run.induct)
    case (start T R)
    then show ?case by (simp add: approvals_backed_def approvals_of_def empty_learning_def)
  next
    case (more s s')
    have window: "length (ln_feedback s) \<le> APPROVAL_DECISIONS_READ"
      using step_grows [OF more.hyps(2)] more.prems by simp
    note inv = more.IH [OF window]
    from more.hyps(2) show ?case
    proof cases
      case (call c)
      have "calls_of k (ln_calls s) \<le> calls_of k (ln_calls s')" for k by (simp add: call calls_of_def)
      moreover have "ln_feedback s' = ln_feedback s" by (simp add: call)
      ultimately show ?thesis using inv unfolding approvals_backed_def by (metis le_trans)
    next
      case (decide d)
      then show ?thesis using inv by (simp add: approvals_backed_def approvals_of_def counted_approval_def)
    next
      case (project tenant fid attempt out)
      then show ?thesis by (rule project_backed [OF _ inv run_ids [OF more.hyps(1)] window])
    qed
  qed
  then show ?thesis unfolding approvals_backed_def by blast
qed

end
