(* ===== verification/Approval_Tally.thy ===== *)
theory Approval_Tally
  imports Approval_Counting
begin

text \<open>
  The patterns a suggestion rests on are the counted decisions, added up; and what an interrupt,
  an accepted rule and an opaque suggestion identifier amount to.
\<close>

subsection \<open>One counter\<close>

definition counter_of :: "Counter \<Rightarrow> counts \<Rightarrow> nat" where
  "counter_of k c = (case k of C_APPROVALS \<Rightarrow> ct_approvals c | C_REJECTIONS \<Rightarrow> ct_rejections c | C_EDITS \<Rightarrow> ct_edits c)"

lemma counter_bump: "counter_of k (bump_counter j c) = counter_of k c + (if j = k then 1 else 0)"
  by (cases k; cases j) (simp_all add: counter_of_def bump_counter_def)

lemma bump_keys [simp]:
  "ct_agent_id (bump_counter k c) = ct_agent_id c" "ct_tool (bump_counter k c) = ct_tool c"
  "ct_arg_shape (bump_counter k c) = ct_arg_shape c"
  by (cases k; simp add: bump_counter_def)+

definition pattern_count :: "Counter \<Rightarrow> (string \<times> counts) list \<Rightarrow> string \<Rightarrow> string \<Rightarrow> string \<Rightarrow> string \<Rightarrow> nat" where
  "pattern_count k P tenant agent tool shape =
     (case approval_pattern P tenant agent tool shape of None \<Rightarrow> 0 | Some c \<Rightarrow> counter_of k c)"

lemma is_pattern_bump [simp]:
  "is_pattern tenant agent tool shape (fst r, bump_counter k (snd r)) = is_pattern tenant agent tool shape r"
  by (simp add: is_pattern_def)

lemma is_pattern_unique:
  "is_pattern t a l s r \<Longrightarrow> is_pattern t' a' l' s' r \<longleftrightarrow> t = t' \<and> a = a' \<and> l = l' \<and> s = s'"
  by (auto simp: is_pattern_def)

lemma find_bumped:
  "find (is_pattern t' a' l' s') (map (\<lambda>r. if is_pattern t a l s r then (fst r, bump_counter k (snd r)) else r) P) =
   map_option (\<lambda>r. if is_pattern t a l s r then (fst r, bump_counter k (snd r)) else r) (find (is_pattern t' a' l' s') P)"
  by (induction P) auto

lemma find_append: "find P (xs @ ys) = (case find P xs of None \<Rightarrow> find P ys | Some x \<Rightarrow> Some x)"
  by (induction xs) auto

lemma find_none: "find P xs = None \<longleftrightarrow> \<not> list_ex P xs"
  by (induction xs) auto

lemma pattern_count_approval:
  "pattern_count k (count_approval t a l s j P) t' a' l' s' =
   pattern_count k P t' a' l' s' + (if (t, a, l, s) = (t', a', l', s') \<and> j = k then 1 else 0)"
proof (cases "list_ex (is_pattern t a l s) P")
  case True
  show ?thesis
  proof (cases "find (is_pattern t' a' l' s') P")
    case None
    then have "(t, a, l, s) \<noteq> (t', a', l', s')" using True by (auto simp: find_none)
    then show ?thesis
      using True None by (auto simp: pattern_count_def count_approval_def approval_pattern_def find_bumped)
  next
    case (Some r)
    then have "is_pattern t' a' l' s' r" by (auto simp: find_Some_iff)
    then have "is_pattern t a l s r \<longleftrightarrow> (t, a, l, s) = (t', a', l', s')"
      using is_pattern_unique [of t' a' l' s' r t a l s] by auto
    then show ?thesis
      using True Some
      by (simp add: pattern_count_def count_approval_def approval_pattern_def find_bumped counter_bump)
  qed
next
  case False
  let ?new = "(t, bump_counter j (no_counts a l s))"
  have new: "is_pattern t' a' l' s' ?new \<longleftrightarrow> (t, a, l, s) = (t', a', l', s')"
    by (auto simp: is_pattern_def no_counts_def)
  have zero: "counter_of k (no_counts a l s) = 0" by (cases k) (simp_all add: counter_of_def no_counts_def)
  show ?thesis
  proof (cases "find (is_pattern t' a' l' s') P")
    case None
    then show ?thesis
      using False new zero
      by (auto simp: pattern_count_def count_approval_def approval_pattern_def find_append counter_bump)
  next
    case (Some r)
    then have "(t, a, l, s) \<noteq> (t', a', l', s')" using False find_none by (metis option.distinct(1) prod.inject)
    then show ?thesis
      using False Some
      by (auto simp: pattern_count_def count_approval_def approval_pattern_def find_append)
  qed
qed

subsection \<open>Patterns are counted decisions\<close>

definition tallied :: "(rat \<Rightarrow> int) \<Rightarrow> Counter \<Rightarrow> string \<Rightarrow> string \<Rightarrow> string \<Rightarrow> string \<Rightarrow> decision \<Rightarrow> bool" where
  "tallied lg k tenant agent tool shape d \<longleftrightarrow>
     fd_action d = Some TOOL_CALL_COUNTED \<and> fd_tenant d = tenant \<and> or_empty (fd_agent_id d) = agent \<and>
     decided_tool d = tool \<and> arg_shape lg (shaped_args d) = Inr shape \<and> approval_counter (fd_verdict d) = k"

definition tally :: "(rat \<Rightarrow> int) \<Rightarrow> Counter \<Rightarrow> string \<Rightarrow> string \<Rightarrow> string \<Rightarrow> string \<Rightarrow> decision list \<Rightarrow> nat" where
  "tally lg k tenant agent tool shape F = length (filter (tallied lg k tenant agent tool shape) F)"

lemma action_keeps [simp]:
  "decided_tool (d\<lparr> fd_action := a \<rparr>) = decided_tool d" "shaped_args (d\<lparr> fd_action := a \<rparr>) = shaped_args d"
  by (simp_all add: decided_tool_def shaped_args_def)

lemma tally_projected:
  assumes d: "find (\<lambda>d. fd_tenant d = tenant \<and> fd_id d = fid) F = Some d" "fd_action d = None"
    and dist: "distinct (map (\<lambda>d. (fd_tenant d, fd_id d)) F)"
  shows "tally lg k t g l s (set_projection tenant fid a F) =
    tally lg k t g l s F + (if tallied lg k t g l s (d\<lparr> fd_action := Some a \<rparr>) then 1 else 0)"
proof -
  obtain A B where F: "F = A @ d # B" and F': "set_projection tenant fid a F = A @ d\<lparr> fd_action := Some a \<rparr> # B"
    by (rule projected_place [OF d(1) dist])
  have "\<not> tallied lg k t g l s d" using d(2) by (simp add: tallied_def)
  then have "tally lg k t g l s F = tally lg k t g l s A + tally lg k t g l s B" by (simp add: F tally_def)
  then show ?thesis unfolding F' by (simp add: tally_def)
qed

lemma patterns_sum:
  assumes "counting_run lg h s"
  shows "pattern_count k (ln_patterns s) tenant agent tool shape = tally lg k tenant agent tool shape (ln_feedback s)"
  using assms
proof (induction arbitrary: k tenant agent tool shape rule: counting_run.induct)
  case (start T R)
  then show ?case by (simp add: pattern_count_def approval_pattern_def tally_def empty_learning_def)
next
  case (more s s')
  from more.hyps(2) show ?case
  proof cases
    case (call c)
    then show ?thesis using more.IH by simp
  next
    case (decide d)
    then show ?thesis using more.IH by (simp add: tally_def tallied_def)
  next
    case (project t fid attempt out)
    show ?thesis
    proof (cases "s' = s")
      case False
      obtain d a s1 where d: "find (\<lambda>d. fd_tenant d = t \<and> fd_id d = fid) (ln_feedback s) = Some d" "fd_action d = None"
        and s1: "project_tool_call lg h d s = Inr (a, s1)"
        and s': "s' = s1\<lparr> ln_feedback := set_projection t fid a (ln_feedback s1) \<rparr>"
        by (rule project_cases [OF project False])
      have dist: "distinct (map (\<lambda>d. (fd_tenant d, fd_id d)) (ln_feedback s))"
        using run_ids [OF more.hyps(1)] by (simp add: ids_distinct_def decision_ids_def)
      note place = tally_projected [OF d dist, of lg k tenant agent tool shape a]
      from tool_call_ends [OF s1] show ?thesis
      proof (elim disjE conjE exE)
        fix sh
        assume a: "a = TOOL_CALL_COUNTED" and sh: "arg_shape lg (shaped_args d) = Inr sh"
          and counted: "s1 = count_decision d sh s"
        have "pattern_count k (ln_patterns s') tenant agent tool shape =
          pattern_count k (ln_patterns s) tenant agent tool shape +
          (if tallied lg k tenant agent tool shape (d\<lparr> fd_action := Some a \<rparr>) then 1 else 0)"
          using s' counted a sh
          by (simp add: count_decision_def Let_def pattern_count_approval tallied_def)
        then show ?thesis using more.IH place s' counted by simp
      next
        assume "a = A_NONE" "s1 = s"
        then show ?thesis using more.IH place s' by (simp add: tallied_def)
      qed
    qed (use more.IH in simp)
  qed
qed

text \<open>C24: whatever the order of decisions, calls and jobs, the counters of a pattern are exactly the
  decisions of that agent, tool and argument shape that were counted, each once.\<close>

theorem patterns_are_decisions:
  assumes "counting_run lg h s"
  shows "pattern_count k (ln_patterns s) tenant agent tool shape = tally lg k tenant agent tool shape (ln_feedback s)"
  using assms by (rule patterns_sum)

subsection \<open>Opaque identifiers\<close>

lemma suggestion_decodes:
  "decode_suggestion (suggestion_id c) = Inr (ct_agent_id c, ct_tool c, ct_arg_shape c)"
  by (simp add: decode_suggestion_def suggestion_id_def ascii.loads_written del: dumps_with.simps)

text \<open>The identifier a suggestion is listed under names it: decoding gives back the agent, the
  tool and the argument shape, whatever characters they hold.\<close>

theorem suggestion_id_names_it:
  "decode_suggestion (suggestion_id c) = Inr (ct_agent_id c, ct_tool c, ct_arg_shape c)"
  by (rule suggestion_decodes)

subsection \<open>What the guards miss\<close>

lemma contains_infix: "contains p (a @ p @ b)"
proof (induction a)
  case Nil
  have "startswith p (p @ b)" by simp
  then show ?case by (cases "p @ b") (simp_all add: startswith_def)
next
  case (Cons c a)
  then show ?case by simp
qed

text \<open>Once "approve automatically" was accepted for a shape, accepting "always ask" for it leaves
  the entry as it is, and calls of that shape are still not asked about: the rule is looked for as a
  substring of the expression, where its negation holds it too.\<close>

theorem always_ask_lost:
  assumes "accept lg h tid now ctx ident s = (Inr t, s')"
    and "decode_suggestion ident = Inr (agent, tool, shape)"
    and "catalog_entry h tid now ctx tool (ln_tools s) = (Inr entry, T)"
    and "approve_when entry = Some (compose None WRITE AUTO_APPROVE shape)"
    and "length (compose None WRITE AUTO_APPROVE shape) \<le> MAX_EXPRESSION_CHARS"
    and "arg_shape lg args = Inr shape"
  shows "t = entry \<and> must_ask lg t args = Some (Inr False)"
proof -
  let ?e = "compose None WRITE AUTO_APPROVE shape"
  have "?e = (''(false) and not ('' @ when_shape shape @ '')'')"
    by (simp add: compose_def)
  then have acc: "accepted (Some entry) shape"
    using assms(4) contains_infix [of "when_shape shape" "''(false) and not (''" "'')''"]
    by (simp add: accepted_def compose_nonempty del: contains.simps append.simps)
  from assms(1) have t: "t = entry"
  proof (rule accept_cases)
    fix agent' tool' shape' counts entry' T' sg
    assume "decode_suggestion ident = Inr (agent', tool', shape')"
      and found: "catalog_entry h tid now ctx tool' (ln_tools s) = (Inr entry', T')"
      and ended: "accepted (Some entry') shape' \<and> t = entry' \<and> s' = s\<lparr> ln_tools := T' \<rparr> \<or>
        \<not> accepted (Some entry') shape' \<and>
        (\<exists>e node new T2. e = compose (approve_when entry') (risk entry') sg shape' \<and> parse e = Some (Inr node) \<and>
          upsert h tid now (Some only_approve_when)
            (entry'\<lparr> td_fields := (td_fields entry')\<lparr> td_approve_when := Some e \<rparr> \<rparr>) T' = ((t, new), T2) \<and>
          s' = s\<lparr> ln_tools := T2, ln_revisions := snd (rev_bump (ctx_tenant_id ctx) R_TENANT [] (ln_revisions s)) \<rparr>)"
    then have "tool' = tool" "shape' = shape" using assms(2) by simp_all
    then have "entry' = entry" "shape' = shape" using found assms(3) by simp_all
    then show "t = entry" using ended acc by blast
  qed
  have base: "base_node None WRITE (NLit False)" by (simp add: base_node_def)
  obtain node where node: "parse ?e = Some (Inr node)"
    and answer: "\<And>lg args s b. arg_shape lg args = Inr s \<Longrightarrow> eval_node lg args (NLit False) = Inr b \<Longrightarrow>
      eval_node lg args node = Inr (ask_after AUTO_APPROVE b (s = shape))"
    by (rule composed_parses [OF base assms(5)]) blast
  have "eval_node lg args node = Inr False"
    using answer [OF assms(6), of False] by (simp add: ask_after_def)
  then show ?thesis
    using t assms(4) compose_nonempty node by (simp add: must_ask_def evaluate_def)
qed

text \<open>A composed expression too long to parse is refused when it is accepted.\<close>

lemma parse_long: "MAX_EXPRESSION_CHARS < length e \<Longrightarrow> parse e = Some (Inl ValueError)"
  by (simp add: parse_def tokens_def)

text \<open>Two decisions of one interrupt.\<close>

definition rejection :: "string \<Rightarrow> string \<Rightarrow> decision" where
  "rejection fid target = \<lparr> fd_id = fid, fd_tenant = ''t'', fd_agent_id = Some ''a'', fd_run_id = Some ''r'',
     fd_reviewer = Some ''ann'', fd_kind = K_TOOL_CALL, fd_target_id = target, fd_verdict = REJECT,
     fd_tool = Some ''pay'', fd_interrupt = Some ''i'', fd_args = PyNone, fd_correction = PyNone,
     fd_created = 0, fd_action = None \<rparr>"

lemma rejection_fields [simp]:
  "fd_id (rejection i x) = i" "fd_tenant (rejection i x) = ''t''" "fd_agent_id (rejection i x) = Some ''a''"
  "fd_run_id (rejection i x) = Some ''r''" "fd_reviewer (rejection i x) = Some ''ann''"
  "fd_kind (rejection i x) = K_TOOL_CALL" "fd_target_id (rejection i x) = x" "fd_verdict (rejection i x) = REJECT"
  "fd_tool (rejection i x) = Some ''pay''" "fd_interrupt (rejection i x) = Some ''i''"
  "fd_action (rejection i x) = None" "fd_created (rejection i x) = 0"
  "decided_tool (rejection i x) = ''pay''" "arg_shape lg (shaped_args (rejection i x)) = Inr []"
  "\<not> approves (rejection i x)"
  by (simp_all add: rejection_def decided_tool_def strip_name_def is_space_def shaped_args_def dict_args_def
      is_dict_def arg_shape_def approves_def)

lemma rejection_projects:
  "\<not> counted_before (ln_feedback s) (rejection i x) \<Longrightarrow>
   project_tool_call lg h (rejection i x) s = Inr (TOOL_CALL_COUNTED, count_decision (rejection i x) [] s)"
  by (simp add: project_tool_call_def)

definition counted :: "decision \<Rightarrow> decision" where
  "counted d = d\<lparr> fd_action := Some TOOL_CALL_COUNTED \<rparr>"

text \<open>A decision on an interrupt is counted again when it names another target: the guard reads
  the decisions stored under the target the client chose, so one interrupt is two rejections.\<close>

theorem interrupt_counts_twice:
  "\<exists>s d e. counting_run lg h s \<and> set (ln_feedback s) = {d, e} \<and> fd_id d \<noteq> fd_id e \<and>
     fd_run_id d = fd_run_id e \<and> fd_interrupt d = fd_interrupt e \<and> fd_agent_id d = fd_agent_id e \<and>
     fd_action d = Some TOOL_CALL_COUNTED \<and> fd_action e = Some TOOL_CALL_COUNTED \<and>
     pattern_count C_REJECTIONS (ln_patterns s) ''t'' ''a'' ''pay'' [] = 2"
proof -
  let ?d = "rejection ''1'' ''x''" and ?e = "rejection ''2'' ''y''"
  let ?s0 = "empty_learning [] (\<lambda>_. None)"
  let ?s1 = "?s0\<lparr> ln_feedback := [?d] \<rparr>"
  let ?s2 = "(count_decision ?d [] ?s1)\<lparr> ln_feedback := [counted ?d] \<rparr>"
  let ?s3 = "?s2\<lparr> ln_feedback := [counted ?d, ?e] \<rparr>"
  let ?s4 = "(count_decision ?e [] ?s3)\<lparr> ln_feedback := [counted ?d, counted ?e] \<rparr>"
  have fresh: "\<not> counted_before [?d] ?d" "\<not> counted_before [counted ?d, ?e] ?e"
    by (simp_all add: counted_before_def list_for_def newest_page_def counted_def LIST_LIMIT_def)
  have first: "project_decision lg h ''t'' ''1'' 0 ?s1 = Inr (DONE TOOL_CALL_COUNTED, ?s2)"
    using rejection_projects [of ?s1 "''1''" "''x''" lg h] fresh
    by (simp add: project_decision_def set_projection_def counted_def)
  have second: "project_decision lg h ''t'' ''2'' 0 ?s3 = Inr (DONE TOOL_CALL_COUNTED, ?s4)"
    using rejection_projects [of ?s3 "''2''" "''y''" lg h] fresh
    by (simp add: project_decision_def set_projection_def counted_def)
  have "counting_run lg h ?s0" by (rule counting_run.start)
  moreover have "counting_step lg h ?s0 ?s1"
    using counting_step.decide [of ?d ?s0 lg h] by (simp add: decision_ids_def empty_learning_def)
  moreover have "counting_step lg h ?s1 ?s2" using first by (rule counting_step.project)
  moreover have "counting_step lg h ?s2 ?s3"
    using counting_step.decide [of ?e ?s2 lg h] by (simp add: decision_ids_def counted_def)
  moreover have "counting_step lg h ?s3 ?s4" using second by (rule counting_step.project)
  ultimately have run: "counting_run lg h ?s4" by (blast intro: counting_run.more)
  have "pattern_count C_REJECTIONS (ln_patterns ?s4) ''t'' ''a'' ''pay'' [] = 2"
    unfolding patterns_sum [OF run] by (simp add: tally_def tallied_def counted_def)
  then show ?thesis
    using run by (intro exI [of _ ?s4] exI [of _ "counted ?d"] exI [of _ "counted ?e"]) (simp add: counted_def)
qed

end
