(* ===== verification/Approval_Examples.thy ===== *)
theory Approval_Examples
  imports Approval_Tally
begin

text \<open>
  Concrete runs of the approval rules, at which the properties of \<open>Approval_Props\<close>,
  \<open>Approval_Counting\<close> and \<open>Approval_Tally\<close> hold with all their hypotheses.
\<close>

subsection \<open>Accepting\<close>

definition no_magnitude :: "rat \<Rightarrow> int" where "no_magnitude q = 0"
definition one_hash :: "pyval \<Rightarrow> string" where "one_hash v = ''h''"

definition agent_ctx :: exec_context where
  "agent_ctx = \<lparr> ctx_tenant_id = ''t'', ctx_workspace_id = None, ctx_user_id = None, ctx_thread_id = None,
     ctx_session_id = None, ctx_turn_id = None, ctx_work_id = None, ctx_task_id = None,
     ctx_agent_id = Some ''a'', ctx_agent_group_id = None, ctx_agent_run_id = None,
     ctx_parent_agent_run_id = None, ctx_request_id = ''q'', ctx_correlation_id = ''q'',
     ctx_causation_id = None, ctx_trace_id = ''q'', ctx_custom_metadata = [] \<rparr>"

definition pay_tool :: "string option \<Rightarrow> tool" where
  "pay_tool rule = \<lparr> td_tool_id = ''p'', td_tenant_id = ''t'', td_workspace_id = None, td_name = ''pay'',
     td_version = 1, td_fields = default_fields\<lparr> td_approve_when := rule \<rparr>, td_schema_hash = ''h'',
     td_created_at = 0, td_updated_at = 0 \<rparr>"

definition pay_counts :: "nat \<Rightarrow> nat \<Rightarrow> counts" where
  "pay_counts yes no = \<lparr> ct_agent_id = ''a'', ct_tool = ''pay'', ct_arg_shape = [], ct_approvals = yes,
     ct_rejections = no, ct_edits = 0 \<rparr>"

definition approval :: "string \<Rightarrow> string \<Rightarrow> decision" where
  "approval fid who = (rejection fid ''x'')\<lparr> fd_verdict := APPROVE, fd_reviewer := Some who, fd_args := PyObj [] \<rparr>"

definition pay_state :: "string option \<Rightarrow> nat \<Rightarrow> nat \<Rightarrow> learning" where
  "pay_state rule yes no = \<lparr> ln_tools = [pay_tool rule], ln_patterns = [(''t'', pay_counts yes no)],
     ln_stats = (\<lambda>_. None), ln_feedback = [counted (approval ''1'' ''ann''), counted (approval ''2'' ''bob'')],
     ln_calls = [], ln_revisions = (\<lambda>_. None) \<rparr>"

lemma ctx_fields [simp]:
  "ctx_tenant_id agent_ctx = ''t''" "ctx_workspace_id agent_ctx = None" "ctx_agent_id agent_ctx = Some ''a''"
  by (simp_all add: agent_ctx_def)

lemma counts_fields [simp]:
  "ct_agent_id (pay_counts y n) = ''a''" "ct_tool (pay_counts y n) = ''pay''" "ct_arg_shape (pay_counts y n) = []"
  "ct_approvals (pay_counts y n) = y" "support (pay_counts y n) = y + n"
  by (simp_all add: pay_counts_def support_def)

lemma tool_fields [simp]:
  "td_tool_id (pay_tool r) = ''p''" "td_tenant_id (pay_tool r) = ''t''" "workspace (pay_tool r) = []"
  "td_name (pay_tool r) = ''pay''" "td_fields (pay_tool r) = default_fields\<lparr> td_approve_when := r \<rparr>"
  "risk (pay_tool r) = WRITE"
  by (simp_all add: pay_tool_def workspace_def risk_def risk_tier_def default_fields_def no_annotations_def)

lemma state_fields [simp]:
  "ln_tools (pay_state r y n) = [pay_tool r]" "ln_patterns (pay_state r y n) = [(''t'', pay_counts y n)]"
  "ln_feedback (pay_state r y n) = [counted (approval ''1'' ''ann''), counted (approval ''2'' ''bob'')]"
  by (simp_all add: pay_state_def)

lemma pay_catalog: "catalog_ok (ln_tools (pay_state r y n))"
  by (simp add: catalog_ok_def)

lemma pay_entry: "catalog_entry h tid now agent_ctx ''pay'' (ln_tools (pay_state r y n)) = (Inr (pay_tool r), [pay_tool r])"
  by (simp add: catalog_entry_def by_name_def is_row_def)

lemma pay_pattern: "approval_pattern (ln_patterns (pay_state r y n)) ''t'' ''a'' ''pay'' [] = Some (pay_counts y n)"
  by (simp add: approval_pattern_def is_pattern_def)

lemma pay_decodes: "decode_suggestion (suggestion_id (pay_counts y n)) = Inr (''a'', ''pay'', [])"
  by (simp add: suggestion_decodes)

lemma never_rule: "rules_parse (ln_tools (pay_state None y n))"
  by (simp add: rules_parse_def)

lemma pay_offer_ask: "offer lg (pay_state r 0 5) ''t'' (pay_counts 0 5) (Some (pay_tool r)) = Inr (Some ALWAYS_ASK)"
  by (simp add: offer_def offered_def suggestion_of_def APPROVAL_MIN_SUPPORT_def)

lemma tools_same [simp]: "(pay_state r y n)\<lparr> ln_tools := [pay_tool r] \<rparr> = pay_state r y n"
  by (simp add: pay_state_def)

lemma rule_lengths:
  "length (compose None WRITE ALWAYS_ASK []) \<le> MAX_EXPRESSION_CHARS"
  "length (compose None WRITE AUTO_APPROVE []) \<le> MAX_EXPRESSION_CHARS"
  by (simp_all add: compose_def when_shape_def SHAPE_def json_ascii_def MAX_EXPRESSION_CHARS_def)

lemma rule_parses: "\<exists>node. parse (compose None WRITE sg []) = Some (Inr node)"
proof -
  have base: "base_node None WRITE (NLit False)" by (simp add: base_node_def)
  have "length (compose None WRITE sg []) \<le> MAX_EXPRESSION_CHARS" using rule_lengths by (cases sg) simp_all
  then show ?thesis by (rule composed_parses [OF base]) blast
qed

definition ruled :: "suggestion \<Rightarrow> tool" where
  "ruled sg = (let e = compose None WRITE sg [] in fst (fst (upsert one_hash ''n'' 9 (Some only_approve_when)
     ((pay_tool None)\<lparr> td_fields := (td_fields (pay_tool None))\<lparr> td_approve_when := Some e \<rparr> \<rparr>) [pay_tool None])))"

lemma pay_accepts:
  assumes offer: "offer no_magnitude (pay_state None y n) ''t'' (pay_counts y n) (Some (pay_tool None)) = Inr (Some sg)"
    and sup: "suggestion_of (pay_counts y n) \<noteq> None"
  shows "\<exists>s'. accept no_magnitude one_hash ''n'' 9 agent_ctx (suggestion_id (pay_counts y n)) (pay_state None y n) = (Inr (ruled sg), s')"
proof -
  obtain node where "parse (compose None WRITE sg []) = Some (Inr node)" using rule_parses by blast
  moreover have "\<not> accepted (Some (pay_tool None)) []" by (simp add: accepted_def)
  ultimately show ?thesis
    using offer sup
    by (simp add: accept_def Let_def pay_decodes pay_pattern [simplified] pay_entry [simplified] ruled_def split: prod.split)
qed

text \<open>The answers before and after.\<close>

lemma pay_never [simp]: "must_ask lg (pay_tool None) args = Some (Inr False)"
  by (simp add: must_ask_def)

lemma fresh_id: "''n'' \<notin> td_tool_id ` set (ln_tools (pay_state r y n))"
  by simp

lemma offer_auto: "offer no_magnitude (pay_state None 5 0) ''t'' (pay_counts 5 0) (Some (pay_tool None)) = Inr (Some AUTO_APPROVE)"
proof -
  have fields: "fd_verdict (counted (approval i w)) = APPROVE" "fd_reviewer (counted (approval i w)) = Some w"
    "fd_args (counted (approval i w)) = PyObj []" "fd_tenant (counted (approval i w)) = ''t''"
    "fd_kind (counted (approval i w)) = K_TOOL_CALL" "fd_agent_id (counted (approval i w)) = Some ''a''"
    "fd_tool (counted (approval i w)) = Some ''pay''" "fd_action (counted (approval i w)) = Some TOOL_CALL_COUNTED"
    "fd_id (counted (approval i w)) = i" "fd_created (counted (approval i w)) = 0" for i w
    by (simp_all add: counted_def approval_def)
  have "counted_decisions (ln_feedback (pay_state None 5 0)) ''t'' ''a'' ''pay'' APPROVAL_DECISIONS_READ =
      [counted (approval ''2'' ''bob''), counted (approval ''1'' ''ann'')]"
    by (simp add: counted_decisions_def newest_page_def fields APPROVAL_DECISIONS_READ_def)
  then have "reviewers no_magnitude (pay_state None 5 0) ''t'' (pay_counts 5 0) = Inr [''bob'', ''ann'']"
    by (simp add: reviewers_def fields dict_args_def arg_shape_def del: state_fields)
  then show ?thesis
    by (simp add: offer_def offered_def suggestion_of_def APPROVAL_MIN_SUPPORT_def APPROVAL_MIN_REVIEWERS_def accepted_def)
qed

theorem accepted_rule_asks_more_witness:
  "must_ask no_magnitude (ruled ALWAYS_ASK) [] = Some (Inr False) \<or>
   must_ask no_magnitude (ruled ALWAYS_ASK) [] = Some (Inr True) \<and> ([] :: string) = []"
proof -
  obtain s' where run: "accept no_magnitude one_hash ''n'' 9 agent_ctx (suggestion_id (pay_counts 0 5)) (pay_state None 0 5) = (Inr (ruled ALWAYS_ASK), s')"
    using pay_accepts [OF pay_offer_ask] by (auto simp: suggestion_of_def APPROVAL_MIN_SUPPORT_def)
  show ?thesis
    by (rule accepted_rule_asks_more [OF run fresh_id pay_catalog never_rule pay_decodes pay_entry])
      (simp_all add: arg_shape_def)
qed

theorem auto_approve_changes_nothing_witness:
  "must_ask no_magnitude (ruled AUTO_APPROVE) [] = Some (Inr False)"
proof -
  obtain s' where run: "accept no_magnitude one_hash ''n'' 9 agent_ctx (suggestion_id (pay_counts 5 0)) (pay_state None 5 0) = (Inr (ruled AUTO_APPROVE), s')"
    using pay_accepts [OF offer_auto] by (auto simp: suggestion_of_def APPROVAL_MIN_SUPPORT_def)
  show ?thesis
    by (rule auto_approve_changes_nothing [where counts = "pay_counts 5 0", OF run fresh_id pay_catalog never_rule pay_decodes pay_entry])
      (simp_all add: arg_shape_def approval_pattern_def is_pattern_def suggestion_of_def APPROVAL_MIN_SUPPORT_def)
qed

theorem accept_keeps_catalog_witness:
  "\<exists>s'. accept no_magnitude one_hash ''n'' 9 agent_ctx (suggestion_id (pay_counts 0 5)) (pay_state None 0 5) = (Inr (ruled ALWAYS_ASK), s') \<and>
     catalog_ok (ln_tools s') \<and> rules_parse (ln_tools s')"
proof -
  obtain s' where run: "accept no_magnitude one_hash ''n'' 9 agent_ctx (suggestion_id (pay_counts 0 5)) (pay_state None 0 5) = (Inr (ruled ALWAYS_ASK), s')"
    using pay_accepts [OF pay_offer_ask] by (auto simp: suggestion_of_def APPROVAL_MIN_SUPPORT_def)
  then show ?thesis using accept_keeps_catalog [OF run fresh_id pay_catalog never_rule] by blast
qed

definition auto_rule :: string where "auto_rule = compose None WRITE AUTO_APPROVE []"

theorem always_ask_lost_witness:
  "must_ask no_magnitude (pay_tool (Some auto_rule)) [] = Some (Inr False)"
proof -
  let ?t = "pay_tool (Some auto_rule)" and ?s = "pay_state (Some auto_rule) 0 5"
  have "auto_rule = ''(false) and not ('' @ when_shape [] @ '')''" by (simp add: auto_rule_def compose_def)
  then have "accepted (Some ?t) []"
    using contains_infix [of "when_shape []" "''(false) and not (''" "'')''"] compose_nonempty [of None WRITE AUTO_APPROVE "[]"]
    by (simp add: accepted_def auto_rule_def [symmetric] del: contains.simps append.simps)
  then have "accept no_magnitude one_hash ''n'' 9 agent_ctx (suggestion_id (pay_counts 0 5)) ?s = (Inr ?t, ?s)"
    using pay_pattern [of "Some auto_rule" 0 5] pay_entry [of one_hash "''n''" 9 "Some auto_rule" 0 5] pay_offer_ask [of no_magnitude "Some auto_rule"]
    by (simp add: accept_def Let_def pay_decodes suggestion_of_def APPROVAL_MIN_SUPPORT_def)
  from always_ask_lost [OF this pay_decodes pay_entry] show ?thesis
    using rule_lengths by (simp add: auto_rule_def arg_shape_def)
qed

subsection \<open>Counting\<close>

definition pay_call :: invocation where
  "pay_call = \<lparr> iv_tenant = ''t'', iv_run_id = Some ''r'', iv_agent_id = Some ''a'', iv_tool_name = ''pay'', iv_args_hash = ''h'' \<rparr>"

definition counted_state :: learning where
  "counted_state = (count_decision (approval ''1'' ''ann'') []
      ((empty_learning [] (\<lambda>_. None))\<lparr> ln_calls := [pay_call], ln_feedback := [approval ''1'' ''ann''] \<rparr>))
    \<lparr> ln_feedback := [counted (approval ''1'' ''ann'')] \<rparr>"

lemma counted_fields [simp]:
  "ln_feedback counted_state = [counted (approval ''1'' ''ann'')]" "ln_calls counted_state = [pay_call]"
  by (simp_all add: counted_state_def)

lemma approval_fields [simp]:
  "fd_id (approval i w) = i" "fd_tenant (approval i w) = ''t''" "fd_agent_id (approval i w) = Some ''a''"
  "fd_run_id (approval i w) = Some ''r''" "fd_reviewer (approval i w) = Some w" "fd_kind (approval i w) = K_TOOL_CALL"
  "fd_verdict (approval i w) = APPROVE" "fd_tool (approval i w) = Some ''pay''" "fd_interrupt (approval i w) = Some ''i''"
  "fd_action (approval i w) = None" "fd_args (approval i w) = PyObj []" "decided_tool (approval i w) = ''pay''"
  "fd_target_id (approval i w) = ''x''"
  "arg_shape lg (shaped_args (approval i w)) = Inr []" "approves (approval i w)"
  by (simp_all add: approval_def approves_def shaped_args_def dict_args_def is_dict_def arg_shape_def)
    (simp add: decided_tool_def strip_name_def is_space_def)

lemma counted_run: "counting_run no_magnitude one_hash counted_state"
proof -
  let ?d = "approval ''1'' ''ann''" and ?s0 = "empty_learning [] (\<lambda>_. None)"
  let ?s1 = "?s0\<lparr> ln_calls := [pay_call] \<rparr>"
  let ?s2 = "?s1\<lparr> ln_feedback := [?d] \<rparr>"
  have rec: "recorded one_hash [pay_call] ?d = 1"
    by (simp add: recorded_def invocations_for_run_def pay_call_def one_hash_def)
  have "project_tool_call no_magnitude one_hash ?d ?s2 = Inr (TOOL_CALL_COUNTED, count_decision ?d [] ?s2)"
    using rec by (simp add: project_tool_call_def counted_before_def list_for_def newest_page_def backed_def spent_def
        counted_decisions_def is_dict_def LIST_LIMIT_def)
  then have "project_decision no_magnitude one_hash ''t'' ''1'' 0 ?s2 = Inr (DONE TOOL_CALL_COUNTED, counted_state)"
    using rec by (simp add: project_decision_def backed_def is_dict_def set_projection_def counted_def counted_state_def)
  then have "counting_step no_magnitude one_hash ?s2 counted_state" by (rule counting_step.project)
  moreover have "counting_step no_magnitude one_hash ?s1 ?s2"
    using counting_step.decide [of ?d ?s1 no_magnitude one_hash] by (simp add: decision_ids_def empty_learning_def)
  moreover have "counting_step no_magnitude one_hash ?s0 ?s1"
    using counting_step.call [of no_magnitude one_hash ?s0 pay_call] by (simp add: empty_learning_def)
  ultimately show ?thesis by (blast intro: counting_run.start counting_run.more)
qed

theorem counted_approvals_backed_witness:
  "approvals_of one_hash (call_key pay_call) (ln_feedback counted_state) = 1 \<and>
   approvals_of one_hash (call_key pay_call) (ln_feedback counted_state) \<le> calls_of (call_key pay_call) (ln_calls counted_state)"
  using counted_approvals_backed [OF counted_run, of "call_key pay_call"]
  by (simp add: APPROVAL_DECISIONS_READ_def)
    (simp add: approvals_of_def counted_approval_def counted_def approves_def approval_key_def call_key_def pay_call_def one_hash_def)

theorem patterns_are_decisions_witness:
  "pattern_count C_APPROVALS (ln_patterns counted_state) ''t'' ''a'' ''pay'' [] =
   tally no_magnitude C_APPROVALS ''t'' ''a'' ''pay'' [] (ln_feedback counted_state)"
  by (rule patterns_are_decisions [OF counted_run])

end
