(* ===== verification/Memory_Table.thy ===== *)
theory Memory_Table
  imports Domain_Memory Revisions Py_Value
begin

text \<open>
  The table of memories and the operations feedback runs on it: \<open>SqlMemoryRepository\<close>
  (\<open>adapters/db/memory_repository.py\<close>) with the cascade that retracts what was derived from a
  changed memory, the revision links of \<open>modules/memory/revisions.py\<close>, and
  \<open>reinstate\<close> (\<open>modules/memory/replacement.py\<close>).

  \<^item> A row is the memory it reads back as. Fields that nothing here reads or writes (type, lifetime,
    visibility, language, the triple, importance, custom metadata, contradictions) are left out;
    \<open>me_metadata\<close> is the system metadata without the members that mirror a column.
  \<^item> A confidence is a finite double, held as the rational it is.
  \<^item> \<open>now\<close> is the service's clock, \<open>db_now\<close> the database's \<open>now()\<close>.
  \<^item> \<open>md_invalidated\<close> is \<open>invalidated_memories\<close>, the dependents retracted in this transaction.
  \<^item> An operation that raises ends the transaction, so it gives the error alone.
\<close>

subsection \<open>Rows\<close>

record EvidenceRef =
  er_source_type :: string
  er_source_id :: string
  er_agent_id :: "string option"
  er_agent_run_id :: "string option"
  er_observed_at :: instant

record Memory =
  me_memory_id :: string
  me_tenant_id :: string
  me_scope :: Scope
  me_visibility_keys :: "string list"
  me_owner :: string
  me_content :: string
  me_hash :: string
  me_temporal :: TemporalState
  me_evidence :: "EvidenceRef list"
  me_confidence :: rat
  me_reinforcement :: int
  me_access_count :: nat
  me_last_accessed :: "instant option"
  me_metadata :: "(string \<times> pyval) list"
  me_provider :: string
  me_expires_at :: "instant option"
  me_indexed_at :: "instant option"
  me_derived_slot :: "string option"
  me_created_at :: instant
  me_updated_at :: instant
  me_revision :: nat
  me_deleted_at :: "instant option"

record dependency =
  dp_tenant :: string
  dp_derived :: string
  dp_source :: string
  dp_revision :: nat

record memory_db =
  md_rows :: "Memory list"
  md_deps :: "dependency list"
  md_invalidated :: "Memory list"

abbreviation "status m \<equiv> tp_status (me_temporal m)"

fun py_bool :: "pyval \<Rightarrow> bool" where
  "py_bool PyNone = False"
| "py_bool (PyBool b) = b"
| "py_bool (PyInt i) = (i \<noteq> 0)"
| "py_bool (PyFloat f) = (f \<noteq> Finite 0)"
| "py_bool (PyStr s) = (s \<noteq> [])"
| "py_bool (PyList vs) = (vs \<noteq> [])"
| "py_bool (PyObj kvs) = (kvs \<noteq> [])"
| "py_bool PyMissing = True"

definition py_get :: "(string \<times> pyval) list \<Rightarrow> string \<Rightarrow> pyval" where
  "py_get kvs k = (case map_of kvs k of None \<Rightarrow> PyNone | Some v \<Rightarrow> v)"

definition mem_expired :: "instant \<Rightarrow> Memory \<Rightarrow> bool" where
  "mem_expired now m = (case me_expires_at m of None \<Rightarrow> False | Some e \<Rightarrow> e \<le> now)"

definition invalid_derived :: "instant \<Rightarrow> Memory \<Rightarrow> bool" where
  "invalid_derived now m \<longleftrightarrow>
     (truthy (me_derived_slot m) \<or> py_bool (py_get (me_metadata m) ''source_revisions'')) \<and>
     (status m = TS_RETRACTED \<or> mem_expired now m)"

subsection \<open>The cascade\<close>

text \<open>The recursive query of \<open>_invalidate_dependents\<close>, evaluated as the database does: each turn adds
  what is derived from what was found. A turn that adds nothing ends it; there are at most as many
  turns as dependencies.\<close>

definition derived_from :: "dependency list \<Rightarrow> string \<Rightarrow> string list \<Rightarrow> string list" where
  "derived_from deps t ids = map dp_derived (filter (\<lambda>d. dp_tenant d = t \<and> dp_source d \<in> set ids) deps)"

fun affected_from :: "nat \<Rightarrow> dependency list \<Rightarrow> string \<Rightarrow> string list \<Rightarrow> string list" where
  "affected_from 0 deps t found = found"
| "affected_from (Suc n) deps t found = affected_from n deps t (remdups (found @ derived_from deps t found))"

definition affected :: "dependency list \<Rightarrow> string \<Rightarrow> string list \<Rightarrow> string list" where
  "affected deps t ids = affected_from (length deps) deps t (derived_from deps t ids)"

definition retracted_row :: "instant \<Rightarrow> Memory \<Rightarrow> Memory" where
  "retracted_row db_now m = m\<lparr> me_temporal := (me_temporal m)\<lparr> tp_status := TS_RETRACTED \<rparr>,
     me_indexed_at := None, me_updated_at := db_now, me_revision := me_revision m + 1 \<rparr>"

definition cascades_to :: "memory_db \<Rightarrow> string \<Rightarrow> string list \<Rightarrow> Memory \<Rightarrow> bool" where
  "cascades_to db t ids m \<longleftrightarrow> me_tenant_id m = t \<and> status m \<noteq> TS_RETRACTED \<and>
     me_memory_id m \<in> set (affected (md_deps db) t ids)"

definition invalidate_dependents :: "instant \<Rightarrow> string \<Rightarrow> string list \<Rightarrow> memory_db \<Rightarrow> memory_db" where
  "invalidate_dependents db_now t ids db =
     (if ids = [] then db
      else let hit = cascades_to db t ids in
        db\<lparr> md_rows := map (\<lambda>m. if hit m then retracted_row db_now m else m) (md_rows db),
            md_invalidated := md_invalidated db @ map (retracted_row db_now) (filter hit (md_rows db)) \<rparr>)"

subsection \<open>The repository\<close>

definition row_at :: "Memory list \<Rightarrow> string \<Rightarrow> Memory option" where
  "row_at rows i = find (\<lambda>m. me_memory_id m = i) rows"

definition mem_get :: "instant \<Rightarrow> memory_db \<Rightarrow> string \<Rightarrow> string \<Rightarrow> Memory option" where
  "mem_get now db t i =
     (case row_at (md_rows db) i of
        None \<Rightarrow> None
      | Some m \<Rightarrow> if me_tenant_id m \<noteq> t \<or> me_deleted_at m \<noteq> None \<or> invalid_derived now m then None else Some m)"

definition mem_get_many :: "instant \<Rightarrow> memory_db \<Rightarrow> string \<Rightarrow> string list \<Rightarrow> Memory list" where
  "mem_get_many now db t ids =
     (let rows = filter (\<lambda>m. me_tenant_id m = t \<and> me_memory_id m \<in> set ids \<and> me_deleted_at m = None \<and>
                   \<not> invalid_derived now m) (md_rows db)
      in List.map_filter (row_at rows) ids)"

text \<open>What \<open>update\<close> leaves in the row \<open>r\<close>: the columns it writes are the memory's.\<close>

definition written :: "Memory \<Rightarrow> Memory \<Rightarrow> Memory" where
  "written r m = m\<lparr> me_tenant_id := me_tenant_id r, me_scope := me_scope r,
     me_visibility_keys := me_visibility_keys r, me_owner := me_owner r, me_provider := me_provider r,
     me_temporal := (me_temporal m)\<lparr> tp_observed_at := tp_observed_at (me_temporal r) \<rparr>,
     me_access_count := max (me_access_count r) (me_access_count m),
     me_last_accessed := (case me_last_accessed m of None \<Rightarrow> me_last_accessed r | Some a \<Rightarrow> Some a),
     me_derived_slot := me_derived_slot r, me_created_at := me_created_at r, me_deleted_at := me_deleted_at r,
     me_indexed_at := None, me_revision := me_revision r + 1 \<rparr>"

definition put_row :: "Memory \<Rightarrow> Memory list \<Rightarrow> Memory list" where
  "put_row m rows = map (\<lambda>x. if me_memory_id x = me_memory_id m then m else x) rows"

definition mem_update :: "instant \<Rightarrow> Memory \<Rightarrow> memory_db \<Rightarrow> service_error + memory_db" where
  "mem_update db_now m db =
     (case row_at (md_rows db) (me_memory_id m) of
        None \<Rightarrow> Inl LookupError
      | Some r \<Rightarrow>
          if me_tenant_id r \<noteq> me_tenant_id m then Inl LookupError
          else Inr (invalidate_dependents db_now (me_tenant_id m) [me_memory_id m]
                     (db\<lparr> md_rows := put_row (written r m) (md_rows db) \<rparr>)))"

definition source_ids :: "Memory \<Rightarrow> string list" where
  "source_ids m = sort (remdups (map er_source_id (filter (\<lambda>e. er_source_type e = ''memory'') (me_evidence m))))"

text \<open>\<open>source_revisions\<close> is a dictionary, or absent.\<close>

definition expected_revision :: "Memory \<Rightarrow> string \<Rightarrow> pyval" where
  "expected_revision m i =
     (case py_get (me_metadata m) ''source_revisions'' of PyObj kvs \<Rightarrow> py_get kvs i | _ \<Rightarrow> PyNone)"

definition source_rows :: "instant \<Rightarrow> memory_db \<Rightarrow> Memory \<Rightarrow> string list \<Rightarrow> service_error + Memory list" where
  "source_rows now db m keys =
     (let ids = source_ids m;
          rows = filter (\<lambda>r. me_tenant_id r = me_tenant_id m \<and> me_memory_id r \<in> set ids) (md_rows db) in
      if ids = [] then Inr []
      else if length rows \<noteq> length ids \<or>
              list_ex (\<lambda>r. me_deleted_at r \<noteq> None \<or> status r \<noteq> TS_CURRENT \<or> mem_expired now r \<or>
                 \<not> py_eq (expected_revision m (me_memory_id r)) (PyInt (int (me_revision r))) \<or>
                 \<not> set keys \<subseteq> set (me_visibility_keys r)) rows
        then Inl ValidationFailed
      else if keys = [] then Inl ValidationFailed
      else Inr rows)"

definition mem_add :: "instant \<Rightarrow> Memory \<Rightarrow> string list \<Rightarrow> memory_db \<Rightarrow> service_error + memory_db" where
  "mem_add now m keys db =
     rbind (source_rows now db m keys) (\<lambda>sources.
       if row_at (md_rows db) (me_memory_id m) \<noteq> None then Inl IntegrityError
       else Inr (db\<lparr> md_rows := md_rows db @ [m\<lparr> me_visibility_keys := keys, me_indexed_at := None,
                                                 me_deleted_at := None \<rparr>],
                     md_deps := md_deps db @ map (\<lambda>s. \<lparr> dp_tenant = me_tenant_id m, dp_derived = me_memory_id m,
                        dp_source = me_memory_id s, dp_revision = me_revision s \<rparr>) sources \<rparr>))"

definition sources_of :: "Memory \<Rightarrow> (string \<times> string) list" where
  "sources_of m = map (\<lambda>e. (er_source_type e, er_source_id e)) (me_evidence m)"

definition twins :: "memory_db \<Rightarrow> string \<Rightarrow> Memory \<Rightarrow> bool \<Rightarrow> Memory list" where
  "twins db t m current_only =
     filter (\<lambda>x. me_tenant_id x = t \<and> me_hash x = me_hash m \<and> me_owner x = me_owner m \<and>
        me_memory_id x \<noteq> me_memory_id m \<and> me_deleted_at x = None \<and>
        (current_only \<longrightarrow> status x = TS_CURRENT) \<and> set (sources_of m) \<inter> set (sources_of x) \<noteq> {}) (md_rows db)"

text \<open>\<open>replaced_by\<close> of \<open>domain/memory.py\<close>: the newer memory the marker names.\<close>

definition replaced_by :: "(string \<times> pyval) list \<Rightarrow> string option" where
  "replaced_by metadata =
     (case py_get metadata ''replaced_by'' of
        PyObj mark \<Rightarrow> (case py_get mark ''memory_id'' of PyStr i \<Rightarrow> if i = [] then None else Some i | _ \<Rightarrow> None)
      | _ \<Rightarrow> None)"

definition replaced_by_any :: "memory_db \<Rightarrow> string \<Rightarrow> string list \<Rightarrow> Memory list" where
  "replaced_by_any db t ids = filter (\<lambda>m. me_tenant_id m = t \<and>
     (case replaced_by (me_metadata m) of None \<Rightarrow> False | Some i \<Rightarrow> i \<in> set ids)) (md_rows db)"

subsection \<open>Revisions\<close>

text \<open>\<open>memory_revision_keys\<close> and \<open>touched_revisions\<close>: sets, and each counter is moved once, so the
  order of the list carries nothing.\<close>

definition memory_revision_keys :: "Memory \<Rightarrow> revision_key list" where
  "memory_revision_keys m =
     (let named = concat (map (\<lambda>(k, i). if truthy i then [(k, or_empty i)] else [])
            [(R_USER, sc_user_id (me_scope m)), (R_THREAD, sc_thread_id (me_scope m)),
             (R_AGENT, sc_agent_id (me_scope m))]);
          keys = remdups (named @ audience_revision_keys (me_tenant_id m) (me_visibility_keys m))
      in if keys = [] then [(R_TENANT, [])] else keys)"

definition touched_revisions :: "Memory list \<Rightarrow> (string \<times> RevisionKind \<times> string) list" where
  "touched_revisions ms =
     remdups (concat (map (\<lambda>m. map (\<lambda>(k, i). (me_tenant_id m, k, i)) (memory_revision_keys m)) ms))"

definition bump_memory_revisions :: "Memory list \<Rightarrow> revisions \<Rightarrow> revisions" where
  "bump_memory_revisions ms R = fold (\<lambda>(t, k, i) R. snd (rev_bump t k i R)) (touched_revisions ms) R"

subsection \<open>Links\<close>

definition supersede :: "instant \<Rightarrow> instant \<Rightarrow> Memory \<Rightarrow> Memory \<Rightarrow> memory_db \<Rightarrow> service_error + (Memory \<times> memory_db)" where
  "supersede now db_now old new db =
     (let t = me_temporal old in
      rbind (mem_update db_now (old\<lparr> me_temporal := t\<lparr> tp_status := TS_SUPERSEDED,
               tp_superseded_by := Some (me_memory_id new),
               tp_valid_to := (case tp_valid_to t of None \<Rightarrow> Some now | Some v \<Rightarrow> Some v) \<rparr>,
               me_updated_at := now \<rparr>) db)
        (\<lambda>db'. Inr (new\<lparr> me_temporal := (me_temporal new)\<lparr> tp_supersedes := Some (me_memory_id old) \<rparr> \<rparr>, db')))"

definition retract :: "instant \<Rightarrow> instant \<Rightarrow> Memory \<Rightarrow> memory_db \<Rightarrow> service_error + memory_db" where
  "retract now db_now m db =
     (let t = me_temporal m in
      mem_update db_now (m\<lparr> me_temporal := t\<lparr> tp_status := TS_RETRACTED,
          tp_valid_to := (case tp_valid_to t of None \<Rightarrow> Some now | Some v \<Rightarrow> Some v) \<rparr>,
          me_updated_at := now \<rparr>) db)"

text \<open>A loop whose body may raise.\<close>

fun each :: "('a \<Rightarrow> 's \<Rightarrow> 'e + 's) \<Rightarrow> 'a list \<Rightarrow> 's \<Rightarrow> 'e + 's" where
  "each f [] s = Inr s"
| "each f (x # xs) s = rbind (f x s) (each f xs)"

definition superseded_mark :: "Memory \<Rightarrow> bool" where
  "superseded_mark m \<longleftrightarrow> (case py_get (me_metadata m) ''replaced_by'' of
     PyObj mark \<Rightarrow> py_get mark ''grade'' = PyStr ''SUPERSEDED'' | _ \<Rightarrow> False)"

definition reinstated :: "instant \<Rightarrow> string list \<Rightarrow> Memory \<Rightarrow> Memory" where
  "reinstated now ids m =
     (let metadata = assoc_del ''replaced_by'' (me_metadata m); t = me_temporal m in
      if superseded_mark m \<and> status m = TS_SUPERSEDED \<and>
         (case tp_superseded_by t of None \<Rightarrow> False | Some i \<Rightarrow> i \<in> set ids)
      then m\<lparr> me_metadata := assoc_del ''supersede_reason'' metadata, me_updated_at := now,
              me_temporal := t\<lparr> tp_status := TS_CURRENT, tp_superseded_by := None, tp_valid_to := None \<rparr> \<rparr>
      else m\<lparr> me_metadata := metadata, me_updated_at := now \<rparr>)"

definition reinstate :: "instant \<Rightarrow> instant \<Rightarrow> string \<Rightarrow> string list \<Rightarrow> memory_db \<Rightarrow>
    service_error + (Memory list \<times> memory_db)" where
  "reinstate now db_now t gone db =
     (let found = map (reinstated now gone) (filter (\<lambda>m. me_deleted_at m = None) (replaced_by_any db t gone))
      in rbind (each (mem_update db_now) found db) (\<lambda>db'. Inr (found, db')))"

subsection \<open>What a cascade reaches\<close>

definition derivations :: "dependency list \<Rightarrow> string \<Rightarrow> (string \<times> string) set" where
  "derivations deps t = {(dp_source d, dp_derived d) | d. d \<in> set deps \<and> dp_tenant d = t}"

lemma set_derived_from: "set (derived_from deps t ids) = derivations deps t `` set ids"
  by (auto simp: derived_from_def derivations_def)

text \<open>One turn of the query, and the turns after which nothing is added.\<close>

definition turn :: "('a \<times> 'a) set \<Rightarrow> 'a set \<Rightarrow> 'a set" where
  "turn R X = X \<union> R `` X"

lemma turn_iff: "x \<in> turn R X \<longleftrightarrow> x \<in> X \<or> (\<exists>y \<in> X. (y, x) \<in> R)"
  by (auto simp: turn_def)

lemma set_affected_from: "set (affected_from n deps t found) = (turn (derivations deps t) ^^ n) (set found)"
proof (induction n arbitrary: found)
  case (Suc n)
  have "set (affected_from (Suc n) deps t found) = (turn (derivations deps t) ^^ n) (turn (derivations deps t) (set found))"
    using Suc.IH [of "remdups (found @ derived_from deps t found)"]
    by (simp add: set_derived_from turn_def [of _ "set found"])
  then show ?case by (simp add: funpow_swap1)
qed simp

lemma turns_reach: "(turn R ^^ n) X \<subseteq> R\<^sup>* `` X"
proof (induction n)
  case (Suc n)
  have "turn R (R\<^sup>* `` X) \<subseteq> R\<^sup>* `` X" by (auto simp: turn_iff) (meson ImageI rtrancl.rtrancl_into_rtrancl)
  moreover have "turn R ((turn R ^^ n) X) \<subseteq> turn R (R\<^sup>* `` X)" using Suc unfolding turn_def by blast
  ultimately show ?case by simp
qed auto

lemma turns_grow: "X \<subseteq> (turn R ^^ n) X" for R :: "('a \<times> 'a) set"
  by (induction n) (auto simp: turn_iff)

lemma turns_stop:
  assumes "turn R ((turn R ^^ n) X) = (turn R ^^ n) X"
  shows "(turn R ^^ n) X = R\<^sup>* `` X"
proof
  let ?S = "(turn R ^^ n) X"
  have "?S \<union> R `` ?S = ?S" using assms unfolding turn_def [of R ?S] .
  then have "R `` ?S \<subseteq> ?S" by blast
  then have "R\<^sup>* `` ?S = ?S" by (rule Image_closed_trancl)
  then show "R\<^sup>* `` X \<subseteq> ?S" using turns_grow [of X n R] by blast
qed (rule turns_reach)

lemma turns_count:
  assumes "finite B" and "\<And>m. (turn R ^^ m) X \<subseteq> B"
    and "\<And>m. m < n \<Longrightarrow> turn R ((turn R ^^ m) X) \<noteq> (turn R ^^ m) X"
  shows "n \<le> card ((turn R ^^ n) X)"
  using assms(3)
proof (induction n)
  case (Suc n)
  have "(turn R ^^ n) X \<subset> (turn R ^^ Suc n) X"
    using Suc.prems [of n] by (auto simp: turn_iff)
  moreover have "finite ((turn R ^^ Suc n) X)" using assms(1,2) finite_subset by blast
  ultimately have "card ((turn R ^^ n) X) < card ((turn R ^^ Suc n) X)" by (rule psubset_card_mono [rotated])
  with Suc show ?case by fastforce
qed simp

lemma turns_suffice:
  assumes "finite B" and "X \<subseteq> B" and "Range R \<subseteq> B" and "card B \<le> n"
  shows "(turn R ^^ n) X = R\<^sup>* `` X"
proof -
  have inside: "(turn R ^^ m) X \<subseteq> B" for m
  proof (induction m)
    case (Suc m)
    then show ?case using assms(3) by (auto simp: turn_iff subset_iff)
  qed (use assms(2) in simp)
  have "\<exists>m \<le> n. turn R ((turn R ^^ m) X) = (turn R ^^ m) X"
  proof (rule ccontr)
    assume "\<not> ?thesis"
    then have "Suc n \<le> card ((turn R ^^ Suc n) X)"
      using turns_count [OF assms(1) inside, of "Suc n"] by auto
    moreover have "card ((turn R ^^ Suc n) X) \<le> card B" using assms(1) inside card_mono by blast
    ultimately show False using assms(4) by simp
  qed
  then obtain m where m: "m \<le> n" "turn R ((turn R ^^ m) X) = (turn R ^^ m) X" by blast
  have "(turn R ^^ (m + k)) X = (turn R ^^ m) X" for k
    using m(2) by (induction k) simp_all
  then have "(turn R ^^ n) X = (turn R ^^ m) X" using m(1) by (metis le_add_diff_inverse)
  with turns_stop [OF m(2)] show ?thesis by simp
qed

text \<open>The cascade over derived memories ends, cycles or not, and reaches exactly what is derived from the
  changed memories in the tenant, directly or through other derived memories.\<close>

lemma affected_set:
  "d \<in> set (affected deps t ids) \<longleftrightarrow> (\<exists>s \<in> set ids. (s, d) \<in> (derivations deps t)\<^sup>+)"
proof -
  let ?R = "derivations deps t"
  have "?R \<subseteq> (\<lambda>d. (dp_source d, dp_derived d)) ` set deps" by (auto simp: derivations_def)
  then have fin: "finite ?R" by (rule finite_subset) simp
  have "card (Range ?R) \<le> card (set (map dp_derived deps))"
    by (rule card_mono) (auto simp: derivations_def)
  also have "\<dots> \<le> length deps" using card_length [of "map dp_derived deps"] by simp
  finally have "set (affected deps t ids) = ?R\<^sup>* `` (?R `` set ids)"
    unfolding affected_def set_affected_from set_derived_from
    by (intro turns_suffice [of "Range ?R"]) (auto simp: fin finite_Range)
  also have "\<dots> = ?R\<^sup>+ `` set ids"
    by (auto simp: trancl_unfold_left Image_iff)
  finally show ?thesis by auto
qed

end
