(* ===== verification/Feedback_Model.thy ===== *)
theory Feedback_Model
  imports Approvals Memory_Table Outbox
begin

text \<open>
  Feedback records (\<open>domain/feedback.py\<close>), what makes one a person's vote
  (\<open>modules/feedback/votes.py\<close>), their table (\<open>adapters/db/feedback_repository.py\<close>), and the state the
  feedback service works on.

  \<^item> The metadata's \<open>tool\<close>, \<open>interrupt_id\<close> and \<open>args\<close> are fields, as in \<open>Approvals\<close>. The trace, score and
    comment, which nothing here reads, are left out.
  \<^item> Of an evidence reference its source's type and id are kept.
  \<^item> The table is the list of its rows in the order they were stored; its key is (tenant, id).
\<close>

subsection \<open>Records\<close>

datatype FeedbackSource = S_HUMAN | S_INTERRUPT | S_JUDGE | S_SYSTEM

fun OUTCOME_PRECEDENCE :: "FeedbackSource \<Rightarrow> nat" where
  "OUTCOME_PRECEDENCE S_SYSTEM = 1"
| "OUTCOME_PRECEDENCE S_JUDGE = 2"
| "OUTCOME_PRECEDENCE S_INTERRUPT = 3"
| "OUTCOME_PRECEDENCE S_HUMAN = 3"

definition outcome_teaches :: "FeedbackSource \<Rightarrow> bool \<Rightarrow> bool" where
  "outcome_teaches source success \<longleftrightarrow> \<not> success \<or> source \<noteq> S_SYSTEM"

datatype ReviewState = RS_PENDING | RS_APPROVED | RS_DISMISSED

record FeedbackReview =
  rv_state :: ReviewState
  rv_reviewed_by :: "string option"
  rv_reviewed_at :: "instant option"
  rv_note :: "string option"
  rv_replaced_by :: "string option"

record FeedbackProjection =
  pj_action :: Action
  pj_memory_id :: "string option"
  pj_memory_ids :: "string list"
  pj_run_id :: "string option"
  pj_superseded_by :: "string option"
  pj_reversed :: "string option"
  pj_reason :: "string option"
  pj_projected_at :: instant

record Feedback =
  fb_id :: string
  fb_tenant :: string
  fb_workspace :: "string option"
  fb_user :: "string option"
  fb_agent :: "string option"
  fb_run :: "string option"
  fb_kind :: TargetKind
  fb_target :: string
  fb_verdict :: Verdict
  fb_correction :: pyval
  fb_reviewer :: "string option"
  fb_source :: FeedbackSource
  fb_evidence :: "(string \<times> string) list"
  fb_tool :: "string option"
  fb_interrupt :: "string option"
  fb_args :: pyval
  fb_created_at :: instant
  fb_projection :: "FeedbackProjection option"
  fb_review :: "FeedbackReview option"
  fb_vote :: "bool option"

definition in_state :: "ReviewState \<Rightarrow> Feedback \<Rightarrow> bool" where
  "in_state st r \<longleftrightarrow> (case fb_review r of None \<Rightarrow> False | Some v \<Rightarrow> rv_state v = st)"

abbreviation waits :: "Feedback \<Rightarrow> bool" where
  "waits \<equiv> in_state RS_PENDING"

definition cited_memory_ids :: "nat \<Rightarrow> Feedback \<Rightarrow> string list" where
  "cited_memory_ids most r =
     take most (fromkeys (map snd (filter (\<lambda>(ty, i). ty = ''memory'' \<or> startswith ''mem_'' i) (fb_evidence r))))"

definition projected :: "Action \<Rightarrow> instant \<Rightarrow> FeedbackProjection" where
  "projected a now = \<lparr> pj_action = a, pj_memory_id = None, pj_memory_ids = [], pj_run_id = None,
     pj_superseded_by = None, pj_reversed = None, pj_reason = None, pj_projected_at = now \<rparr>"

definition unprojected :: "string \<Rightarrow> instant \<Rightarrow> FeedbackProjection" where
  "unprojected reason now = (projected A_NONE now)\<lparr> pj_reason := Some reason \<rparr>"

definition REPLACED_REASON :: string where
  "REPLACED_REASON = ''replaced by a newer vote from the same user''"

subsection \<open>Votes\<close>

definition VOTE_TARGETS :: "TargetKind list" where "VOTE_TARGETS = [K_RUN, K_MEMORY, K_PROCEDURE]"
definition CORRECTING_VERDICTS :: "Verdict list" where "CORRECTING_VERDICTS = [CORRECT, EDIT]"
definition AFFIRMING_VERDICTS :: "Verdict list" where "AFFIRMING_VERDICTS = [CONFIRM, APPROVE]"
definition HUMAN_SOURCES :: "FeedbackSource list" where "HUMAN_SOURCES = [S_HUMAN, S_INTERRUPT]"
definition AUTOMATED_SOURCES :: "FeedbackSource list" where "AUTOMATED_SOURCES = [S_SYSTEM, S_JUDGE]"

definition ALREADY_COUNTED_REASON :: string where
  "ALREADY_COUNTED_REASON = ''the same vote from the same user already counts''"

definition STOOD_DOWN :: "string option list" where
  "STOOD_DOWN = [Some REPLACED_REASON, Some ALREADY_COUNTED_REASON]"

definition correction_text :: "pyval \<Rightarrow> string" where
  "correction_text v = (case v of
     PyStr s \<Rightarrow> strip_name s
   | PyObj kvs \<Rightarrow> (case py_get kvs ''content'' of PyStr s \<Rightarrow> strip_name s | _ \<Rightarrow> [])
   | _ \<Rightarrow> [])"

definition rewrites_text :: "Feedback \<Rightarrow> bool" where
  "rewrites_text r \<longleftrightarrow> fb_verdict r \<in> set CORRECTING_VERDICTS \<and> correction_text (fb_correction r) \<noteq> []"

definition classify :: "bool \<Rightarrow> bool \<Rightarrow> Feedback \<Rightarrow> bool" where
  "classify trusted run_vouched r =
     (if trusted \<or> fb_kind r \<notin> set VOTE_TARGETS then False
      else if run_vouched \<and> fb_source r \<in> set AUTOMATED_SOURCES then False
      else \<not> (fb_kind r = K_MEMORY \<and> rewrites_text r))"

definition is_vote :: "Feedback \<Rightarrow> bool" where
  "is_vote r = (case fb_vote r of
     Some v \<Rightarrow> v
   | None \<Rightarrow> if fb_source r \<notin> set HUMAN_SOURCES \<or> fb_kind r \<notin> set VOTE_TARGETS then False
             else \<not> (fb_kind r = K_MEMORY \<and> rewrites_text r))"

definition thumbs_up :: "Feedback \<Rightarrow> bool" where
  "thumbs_up r \<longleftrightarrow> fb_verdict r \<in> set AFFIRMING_VERDICTS"

definition same_thumb :: "Feedback \<Rightarrow> Feedback \<Rightarrow> bool" where
  "same_thumb a b \<longleftrightarrow> thumbs_up a = thumbs_up b"

definition voter_key :: "string option \<Rightarrow> string option \<Rightarrow> string option" where
  "voter_key user_id agent_id = (case user_id of
     Some u \<Rightarrow> Some (''user:'' @ u)
   | None \<Rightarrow> (case agent_id of Some a \<Rightarrow> Some (''agent:'' @ a) | None \<Rightarrow> None))"

subsection \<open>The table\<close>

definition has_id :: "string \<Rightarrow> string \<Rightarrow> Feedback \<Rightarrow> bool" where
  "has_id t i r \<longleftrightarrow> fb_tenant r = t \<and> fb_id r = i"

definition fb_get :: "Feedback list \<Rightarrow> string \<Rightarrow> string \<Rightarrow> Feedback option" where
  "fb_get F t i = find (has_id t i) F"

definition fb_add :: "Feedback \<Rightarrow> Feedback list \<Rightarrow> Feedback list" where
  "fb_add r F = (if list_ex (has_id (fb_tenant r) (fb_id r)) F then F else F @ [r])"

definition on_target :: "string \<Rightarrow> TargetKind \<Rightarrow> string \<Rightarrow> Feedback \<Rightarrow> bool" where
  "on_target t kind target r \<longleftrightarrow> fb_tenant r = t \<and> fb_kind r = kind \<and> fb_target r = target"

text \<open>\<open>_voter\<close>: one voter's rows.\<close>

definition by_voter :: "string option \<Rightarrow> string option \<Rightarrow> Feedback \<Rightarrow> bool" where
  "by_voter user_id agent_id r \<longleftrightarrow>
     (case user_id of Some u \<Rightarrow> fb_user r = Some u
      | None \<Rightarrow> fb_user r = None \<and> fb_agent r = agent_id)"

text \<open>\<open>_is_vote\<close>: the flag, or the source of a record older than it.\<close>

definition voted :: "Feedback \<Rightarrow> bool" where
  "voted r = (case fb_vote r of Some v \<Rightarrow> v | None \<Rightarrow> fb_source r \<in> set HUMAN_SOURCES)"

definition stamp :: "Feedback \<Rightarrow> instant \<times> string" where
  "stamp r = (fb_created_at r, fb_id r)"

definition pending_on :: "Feedback list \<Rightarrow> string \<Rightarrow> TargetKind \<Rightarrow> string \<Rightarrow> (string option \<times> string option) option \<Rightarrow>
    nat \<Rightarrow> Feedback list" where
  "pending_on F t kind target voter most =
     take most (sort_key stamp (filter (\<lambda>r. on_target t kind target r \<and> waits r \<and>
       (case voter of None \<Rightarrow> True | Some (u, a) \<Rightarrow> by_voter u a r \<and> voted r)) F))"

text \<open>\<open>_page\<close>: newest first, after the row \<open>before\<close> names.\<close>

definition fb_page :: "(instant \<times> string) option \<Rightarrow> nat \<Rightarrow> Feedback list \<Rightarrow> Feedback list" where
  "fb_page before most F = take most (rev (sort_key stamp
     (filter (\<lambda>r. case before of None \<Rightarrow> True | Some b \<Rightarrow> stamp r < b) F)))"

definition applied_votes :: "Feedback list \<Rightarrow> string \<Rightarrow> TargetKind \<Rightarrow> string \<Rightarrow> string option \<Rightarrow> string option \<Rightarrow>
    nat \<Rightarrow> Feedback list" where
  "applied_votes F t kind target u a most = fb_page None most
     (filter (\<lambda>r. on_target t kind target r \<and> in_state RS_APPROVED r \<and> voted r \<and> by_voter u a r) F)"

definition fb_list_for :: "Feedback list \<Rightarrow> string \<Rightarrow> TargetKind \<Rightarrow> string \<Rightarrow> (instant \<times> string) option \<Rightarrow> nat \<Rightarrow>
    Feedback list" where
  "fb_list_for F t kind target before most = fb_page before most (filter (on_target t kind target) F)"

definition list_pending :: "Feedback list \<Rightarrow> string \<Rightarrow> ReviewState \<Rightarrow> (instant \<times> string) option \<Rightarrow> nat \<Rightarrow>
    Feedback list" where
  "list_pending F t st before most = fb_page before most (filter (\<lambda>r. fb_tenant r = t \<and> in_state st r) F)"

definition review_counts :: "Feedback list \<Rightarrow> string \<Rightarrow> string option \<Rightarrow> string option \<Rightarrow> ReviewState \<Rightarrow> nat" where
  "review_counts F t u a st = length (filter (\<lambda>r. fb_tenant r = t \<and> in_state st r \<and>
     (case fb_review r of Some v \<Rightarrow> rv_replaced_by v = None | None \<Rightarrow> False) \<and> fb_user r = u \<and> fb_agent r = a) F)"

definition fb_set_projection :: "string \<Rightarrow> string \<Rightarrow> FeedbackProjection \<Rightarrow> Feedback list \<Rightarrow> Feedback list" where
  "fb_set_projection t i p = map (\<lambda>r. if has_id t i r then r\<lparr> fb_projection := Some p \<rparr> else r)"

definition fb_set_review :: "string \<Rightarrow> string \<Rightarrow> FeedbackReview \<Rightarrow> Feedback list \<Rightarrow> Feedback list" where
  "fb_set_review t i v = map (\<lambda>r. if has_id t i r then r\<lparr> fb_review := Some v \<rparr> else r)"

subsection \<open>State\<close>

record RunOutcome =
  ro_success :: bool
  ro_note :: string
  ro_source :: FeedbackSource
  ro_recorded_at :: instant

datatype ProcedureStatus = PS_CANDIDATE | PS_ACTIVE | PS_RETIRED | PS_REJECTED

record StoredProcedure =
  sp_tenant :: string
  sp_id :: string
  sp_status :: ProcedureStatus
  sp_updated_at :: instant

text \<open>A call is paired with \<open>learned_at\<close>, when the learning job last read it.\<close>

record feedback_world =
  fw_feedback :: "Feedback list"
  fw_memory :: memory_db
  fw_outcomes :: "(string \<times> string) \<rightharpoonup> RunOutcome"
  fw_procedures :: "StoredProcedure list"
  fw_patterns :: "(string \<times> counts) list"
  fw_stats :: "(string \<times> string) \<rightharpoonup> verdict_counts"
  fw_calls :: "(invocation \<times> instant option) list"
  fw_revisions :: revisions
  fw_outbox :: outbox

text \<open>What a request or a job is given: the clocks, the id a correction's memory gets, the digests, the
  magnitude of \<open>Approval_Lang\<close>, and the answers of the authorization service.\<close>

record feedback_env =
  fe_now :: instant
  fe_db_now :: instant
  fe_memory_id :: string
  fe_normalized_hash :: "string \<Rightarrow> string"
  fe_content_hash :: "string \<Rightarrow> string"
  fe_stable_hash :: "pyval \<Rightarrow> string"
  fe_lg :: "rat \<Rightarrow> int"
  fe_is_tenant_admin :: "exec_context \<Rightarrow> bool"
  fe_visible :: "exec_context \<Rightarrow> Memory \<Rightarrow> bool"

definition CALL_RECORD_WAIT_SECONDS :: nat where "CALL_RECORD_WAIT_SECONDS = 30"

definition job_key :: "Feedback \<Rightarrow> nat \<Rightarrow> string" where
  "job_key r tries = ''feedback:'' @ fb_tenant r @ CHR '':'' # fb_id r @
     (if tries = 0 then [] else CHR '':'' # show_nat tries)"

definition fb_enqueue :: "feedback_env \<Rightarrow> JobSpec \<Rightarrow> feedback_world \<Rightarrow> feedback_world" where
  "fb_enqueue env spec w = w\<lparr> fw_outbox := snd (outbox_add (fe_now env) spec (fw_outbox w)) \<rparr>"

definition schedule :: "feedback_env \<Rightarrow> Feedback \<Rightarrow> nat \<Rightarrow> feedback_world \<Rightarrow> feedback_world" where
  "schedule env r tries = fb_enqueue env
     \<lparr> js_task_name = ''feedback.project'', js_queue = Q_RECONCILE,
       js_payload = [(''tenant_id'', Some (fb_tenant r)), (''feedback_id'', Some (fb_id r))] @
         (if tries = 0 then [] else [(''attempt'', Some (show_nat tries))]),
       js_idempotency_key = Some (job_key r tries), js_lock = None, js_priority = None,
       js_schedule_in_seconds = (if tries = 0 then None else Some CALL_RECORD_WAIT_SECONDS),
       js_tenant_id = Some (fb_tenant r) \<rparr>"

text \<open>A list in a payload is one member per item.\<close>

definition index_job :: "string \<Rightarrow> string list \<Rightarrow> string option \<Rightarrow> JobSpec" where
  "index_job t ids key =
     \<lparr> js_task_name = ''memory.index'', js_queue = Q_EMBEDDING,
       js_payload = (''tenant_id'', Some t) # map (\<lambda>i. (''memory_ids'', Some i)) ids,
       js_idempotency_key = key, js_lock = None, js_priority = None, js_schedule_in_seconds = None,
       js_tenant_id = Some t \<rparr>"

text \<open>\<open>_reindex\<close>, called on at least one memory.\<close>

definition reindex :: "feedback_env \<Rightarrow> Memory list \<Rightarrow> feedback_world \<Rightarrow> feedback_world" where
  "reindex env ms w =
     (let ids = sort (map me_memory_id ms);
          w1 = fb_enqueue env (index_job (me_tenant_id (hd ms)) ids
                 (Some (''memidx:feedback:'' @ fe_content_hash env (py_join ''|'' ids)))) w
      in w1\<lparr> fw_revisions := bump_memory_revisions ms (fw_revisions w1) \<rparr>)"

text \<open>\<open>SqlUnitOfWork.commit\<close>: the dependents retracted in the transaction move their readers'
  revisions and are indexed again.\<close>

definition commit_dependents :: "feedback_env \<Rightarrow> feedback_world \<Rightarrow> feedback_world" where
  "commit_dependents env w =
     (let gone = md_invalidated (fw_memory w);
          w1 = w\<lparr> fw_revisions := bump_memory_revisions gone (fw_revisions w),
                  fw_memory := (fw_memory w)\<lparr> md_invalidated := [] \<rparr> \<rparr>
      in fold (\<lambda>t. fb_enqueue env (index_job t
             (sort (remdups (map me_memory_id (filter (\<lambda>m. me_tenant_id m = t) gone)))) None))
           (remdups (map me_tenant_id gone)) w1)"

end
