(* ===== verification/Feedback_Projector.thy ===== *)
theory Feedback_Projector
  imports Feedback_Model
begin

text \<open>
  What a judgement does (\<open>FeedbackService.project\<close> and its helpers, \<open>modules/feedback/service.py\<close>):
  the \<open>feedback.project\<close> job of one record, in one transaction. A job that raises changes nothing.

  \<^item> A confidence is moved by adding two doubles and rounding the sum to a double (\<open>fl\<close>).
  \<^item> The reasons of the projections of tool calls, which nothing reads, are not kept.
\<close>

subsection \<open>Confidence\<close>

definition fl :: "rat \<Rightarrow> rat" where
  "fl q = (case round_double \<bar>q\<bar> of Finite v \<Rightarrow> if q < 0 then - v else v | _ \<Rightarrow> q)"

definition REINFORCEMENT_STEP :: rat where "REINFORCEMENT_STEP = fl (1 / 10)"
definition CITED_CONFIDENCE_STEP :: rat where "CITED_CONFIDENCE_STEP = fl (1 / 20)"
definition CONFIDENCE_FLOOR :: rat where "CONFIDENCE_FLOOR = fl (1 / 20)"
definition CITED_MEMORIES_MAX :: nat where "CITED_MEMORIES_MAX = 20"

definition reinforced :: "instant \<Rightarrow> Memory \<Rightarrow> Memory" where
  "reinforced now m = m\<lparr> me_reinforcement := me_reinforcement m + 1,
     me_confidence := min 1 (fl (me_confidence m + REINFORCEMENT_STEP)), me_updated_at := now \<rparr>"

definition unreinforced :: "instant \<Rightarrow> Memory \<Rightarrow> Memory" where
  "unreinforced now m = m\<lparr> me_reinforcement := max 0 (me_reinforcement m - 1),
     me_confidence := max CONFIDENCE_FLOOR (fl (me_confidence m - REINFORCEMENT_STEP)), me_updated_at := now \<rparr>"

definition adjusted :: "rat \<Rightarrow> int \<Rightarrow> instant \<Rightarrow> Memory \<Rightarrow> Memory" where
  "adjusted step reinforce now m = m\<lparr>
     me_confidence := min 1 (max CONFIDENCE_FLOOR (fl (me_confidence m + step))),
     me_reinforcement := max 0 (me_reinforcement m + reinforce), me_updated_at := now \<rparr>"

definition on_memory :: "(memory_db \<Rightarrow> service_error + memory_db) \<Rightarrow> feedback_world \<Rightarrow> service_error + feedback_world" where
  "on_memory f w = rbind (f (fw_memory w)) (\<lambda>db. Inr (w\<lparr> fw_memory := db \<rparr>))"

definition adjust :: "feedback_env \<Rightarrow> string \<Rightarrow> string list \<Rightarrow> rat \<Rightarrow> int \<Rightarrow> feedback_world \<Rightarrow>
    service_error + (string list \<times> feedback_world)" where
  "adjust env t ids step reinforce w =
     (if ids = [] then Inr ([], w)
      else let ms = map (adjusted step reinforce (fe_now env))
                      (filter (\<lambda>m. me_deleted_at m = None \<and> status m = TS_CURRENT)
                        (mem_get_many (fe_now env) (fw_memory w) t ids)) in
        rbind (on_memory (each (mem_update (fe_db_now env)) ms) w) (\<lambda>w1.
          Inr (sort (map me_memory_id ms), if ms = [] then w1 else reindex env ms w1)))"

definition adjust_cited :: "feedback_env \<Rightarrow> Feedback \<Rightarrow> bool \<Rightarrow> feedback_world \<Rightarrow>
    service_error + (string list \<times> feedback_world)" where
  "adjust_cited env r affirmed = adjust env (fb_tenant r) (cited_memory_ids CITED_MEMORIES_MAX r)
     (if affirmed then CITED_CONFIDENCE_STEP else - CITED_CONFIDENCE_STEP) (if affirmed then 1 else 0)"

subsection \<open>Memories\<close>

definition reinforce :: "feedback_env \<Rightarrow> Memory \<Rightarrow> feedback_world \<Rightarrow> service_error + (FeedbackProjection \<times> feedback_world)" where
  "reinforce env m w =
     (let m' = reinforced (fe_now env) m in
      rbind (on_memory (mem_update (fe_db_now env) m') w) (\<lambda>w1.
        Inr ((projected MEMORY_REINFORCED (fe_now env))\<lparr> pj_memory_id := Some (me_memory_id m) \<rparr>, reindex env [m'] w1)))"

definition retract_all :: "feedback_env \<Rightarrow> Memory \<Rightarrow> feedback_world \<Rightarrow> service_error + (FeedbackProjection \<times> feedback_world)" where
  "retract_all env m w =
     (let ms = m # twins (fw_memory w) (me_tenant_id m) m True in
      rbind (on_memory (each (retract (fe_now env) (fe_db_now env)) ms) w) (\<lambda>w1.
      rbind (reinstate (fe_now env) (fe_db_now env) (me_tenant_id m) (map me_memory_id ms) (fw_memory w1)) (\<lambda>(back, db).
        Inr ((projected MEMORY_RETRACTED (fe_now env))\<lparr> pj_memory_id := Some (me_memory_id m) \<rparr>,
             reindex env (ms @ back) (w1\<lparr> fw_memory := db \<rparr>)))))"

text \<open>The memory a correction writes: a fresh row with the corrected text, the old evidence and the
  record that corrected it.\<close>

definition corrected_memory :: "feedback_env \<Rightarrow> Memory \<Rightarrow> Feedback \<Rightarrow> string \<Rightarrow> Memory" where
  "corrected_memory env m r content = m\<lparr>
     me_memory_id := fe_memory_id env, me_content := content, me_hash := fe_normalized_hash env content,
     me_confidence := max (me_confidence m) (fl (9 / 10)), me_reinforcement := 1, me_access_count := 0,
     me_last_accessed := None,
     me_evidence := me_evidence m @ [\<lparr> er_source_type = ''feedback'', er_source_id = fb_id r,
        er_agent_id = fb_agent r, er_agent_run_id = fb_run r, er_observed_at = fe_now env \<rparr>],
     me_temporal := (me_temporal m)\<lparr> tp_observed_at := fe_now env, tp_valid_from := Some (fe_now env), tp_valid_to := None \<rparr>,
     me_metadata := [(''corrected_by'', PyStr (fb_id r)),
        (''reviewer'', case fb_reviewer r of None \<Rightarrow> PyNone | Some v \<Rightarrow> PyStr v)],
     me_expires_at := None, me_derived_slot := None,
     me_created_at := fe_now env, me_updated_at := fe_now env, me_revision := 1 \<rparr>"

definition correct :: "feedback_env \<Rightarrow> Memory \<Rightarrow> Feedback \<Rightarrow> feedback_world \<Rightarrow> service_error + (FeedbackProjection \<times> feedback_world)" where
  "correct env m r w =
     (let now = fe_now env; content = correction_text (fb_correction r) in
      if content = [] then
        Inr ((unprojected ''the correction carries no text (a string or {content: ...})'' now)\<lparr>
               pj_memory_id := Some (me_memory_id m) \<rparr>, w)
      else
        let new = corrected_memory env m r content; others = twins (fw_memory w) (me_tenant_id m) m True in
        rbind (supersede now (fe_db_now env) m new (fw_memory w)) (\<lambda>(linked, db).
        rbind (each (\<lambda>twin db. rbind (supersede now (fe_db_now env) twin linked db) (\<lambda>(_, db'). Inr db')) others db) (\<lambda>db1.
        rbind (mem_add now linked (me_visibility_keys m) db1) (\<lambda>db2.
          Inr ((projected MEMORY_SUPERSEDED now)\<lparr> pj_memory_id := Some (me_memory_id m),
                  pj_superseded_by := Some (me_memory_id linked) \<rparr>,
               reindex env (m # linked # others) (w\<lparr> fw_memory := db2 \<rparr>))))))"

fun status_word :: "TemporalStatus \<Rightarrow> string" where
  "status_word TS_CURRENT = ''current''"
| "status_word TS_SUPERSEDED = ''superseded''"
| "status_word TS_EXPIRED = ''expired''"
| "status_word TS_CONTRADICTED = ''contradicted''"
| "status_word TS_RETRACTED = ''retracted''"
| "status_word TS_ARCHIVED = ''archived''"

definition project_memory :: "feedback_env \<Rightarrow> Feedback \<Rightarrow> feedback_world \<Rightarrow>
    service_error + (FeedbackProjection \<times> feedback_world)" where
  "project_memory env r w =
     (case mem_get (fe_now env) (fw_memory w) (fb_tenant r) (fb_target r) of
        None \<Rightarrow> Inr ((unprojected ''the memory is gone'' (fe_now env))\<lparr> pj_memory_id := Some (fb_target r) \<rparr>, w)
      | Some m \<Rightarrow>
          if status m \<noteq> TS_CURRENT then
            Inr ((unprojected (''the memory is '' @ status_word (status m)) (fe_now env))\<lparr>
                   pj_memory_id := Some (me_memory_id m) \<rparr>, w)
          else if fb_verdict r \<in> set AFFIRMING_VERDICTS then reinforce env m w
          else if fb_verdict r = REJECT then retract_all env m w
          else correct env m r w)"

subsection \<open>Runs\<close>

fun verdict_value :: "Verdict \<Rightarrow> string" where
  "verdict_value CONFIRM = ''confirm''"
| "verdict_value REJECT = ''reject''"
| "verdict_value CORRECT = ''correct''"
| "verdict_value APPROVE = ''approve''"
| "verdict_value EDIT = ''edit''"

definition set_outcome :: "string \<Rightarrow> string \<Rightarrow> RunOutcome \<Rightarrow> feedback_world \<Rightarrow> feedback_world" where
  "set_outcome t run oc w = w\<lparr> fw_outcomes := (fw_outcomes w)((t, run) \<mapsto> oc),
     fw_calls := map (\<lambda>(c, learned). if iv_tenant c = t \<and> iv_run_id c = Some run then (c, None) else (c, learned)) (fw_calls w) \<rparr>"

definition label_run :: "feedback_env \<Rightarrow> Feedback \<Rightarrow> bool \<Rightarrow> bool \<Rightarrow> feedback_world \<Rightarrow> bool \<times> feedback_world" where
  "label_run env r success learn w =
     (let t = fb_tenant r; run = fb_target r; rank = OUTCOME_PRECEDENCE (fb_source r) in
      if (case fw_outcomes w (t, run) of None \<Rightarrow> False | Some oc \<Rightarrow> rank < OUTCOME_PRECEDENCE (ro_source oc))
      then (False, w)
      else
        let w1 = set_outcome t run \<lparr> ro_success = success,
               ro_note = ''feedback '' @ fb_id r @ '': '' @ verdict_value (fb_verdict r),
               ro_source = fb_source r, ro_recorded_at = fe_now env \<rparr> w
        in (True, if learn then fb_enqueue env
              \<lparr> js_task_name = ''tools.learn'', js_queue = Q_RECONCILE, js_payload = [(''tenant_id'', Some t)],
                js_idempotency_key = None, js_lock = None, js_priority = None, js_schedule_in_seconds = None,
                js_tenant_id = Some t \<rparr> w1 else w1))"

definition project_run :: "feedback_env \<Rightarrow> Feedback \<Rightarrow> feedback_world \<Rightarrow>
    service_error + (FeedbackProjection \<times> feedback_world)" where
  "project_run env r w =
     (let affirmed = fb_verdict r \<in> set AFFIRMING_VERDICTS; teaches = outcome_teaches (fb_source r) affirmed in
      case label_run env r affirmed teaches w of (labelled, w1) \<Rightarrow>
        if \<not> labelled then
          Inr ((unprojected ''a higher-ranked source already decided the run's outcome'' (fe_now env))\<lparr>
                 pj_run_id := Some (fb_target r) \<rparr>, w1)
        else rbind (if teaches then adjust_cited env r affirmed w1 else Inr ([], w1)) (\<lambda>(ids, w2).
          Inr ((projected RUN_LABELLED (fe_now env))\<lparr> pj_memory_ids := ids, pj_run_id := Some (fb_target r) \<rparr>, w2)))"

subsection \<open>Tool calls and procedures\<close>

definition decision_of :: "Feedback \<Rightarrow> decision" where
  "decision_of r = \<lparr> fd_id = fb_id r, fd_tenant = fb_tenant r, fd_agent_id = fb_agent r, fd_run_id = fb_run r,
     fd_reviewer = fb_reviewer r, fd_kind = fb_kind r, fd_target_id = fb_target r, fd_verdict = fb_verdict r,
     fd_tool = fb_tool r, fd_interrupt = fb_interrupt r, fd_args = fb_args r, fd_correction = fb_correction r,
     fd_created = fb_created_at r, fd_action = map_option pj_action (fb_projection r) \<rparr>"

definition learning_of :: "feedback_world \<Rightarrow> learning" where
  "learning_of w = \<lparr> ln_tools = [], ln_patterns = fw_patterns w, ln_stats = fw_stats w,
     ln_feedback = map decision_of (fw_feedback w), ln_calls = map fst (fw_calls w), ln_revisions = fw_revisions w \<rparr>"

definition project_tool :: "feedback_env \<Rightarrow> Feedback \<Rightarrow> feedback_world \<Rightarrow>
    service_error + (FeedbackProjection \<times> feedback_world)" where
  "project_tool env r w =
     rbind (project_tool_call (fe_lg env) (fe_stable_hash env) (decision_of r) (learning_of w)) (\<lambda>(a, s).
       Inr (projected a (fe_now env), w\<lparr> fw_patterns := ln_patterns s, fw_stats := ln_stats s \<rparr>))"

definition is_procedure :: "string \<Rightarrow> string \<Rightarrow> StoredProcedure \<Rightarrow> bool" where
  "is_procedure t i p \<longleftrightarrow> sp_tenant p = t \<and> sp_id p = i"

definition set_procedure :: "instant \<Rightarrow> ProcedureStatus \<Rightarrow> (StoredProcedure \<Rightarrow> bool) \<Rightarrow> StoredProcedure list \<Rightarrow>
    bool \<times> StoredProcedure list" where
  "set_procedure now st Q ps = (list_ex Q ps,
     map (\<lambda>p. if Q p then p\<lparr> sp_status := st, sp_updated_at := now \<rparr> else p) ps)"

definition reject_procedure :: "instant \<Rightarrow> string \<Rightarrow> string \<Rightarrow> StoredProcedure list \<Rightarrow> bool \<times> StoredProcedure list" where
  "reject_procedure now t i = set_procedure now PS_REJECTED (is_procedure t i)"

definition restore_procedure :: "instant \<Rightarrow> string \<Rightarrow> string \<Rightarrow> StoredProcedure list \<Rightarrow> bool \<times> StoredProcedure list" where
  "restore_procedure now t i = set_procedure now PS_ACTIVE (\<lambda>p. is_procedure t i p \<and> sp_status p = PS_REJECTED)"

definition bump_tenant :: "string \<Rightarrow> feedback_world \<Rightarrow> feedback_world" where
  "bump_tenant t w = w\<lparr> fw_revisions := snd (rev_bump t R_TENANT [] (fw_revisions w)) \<rparr>"

definition project_procedure :: "feedback_env \<Rightarrow> Feedback \<Rightarrow> feedback_world \<Rightarrow>
    service_error + (FeedbackProjection \<times> feedback_world)" where
  "project_procedure env r w =
     (if fb_verdict r \<noteq> REJECT then
        Inr (unprojected (''a '' @ verdict_value (fb_verdict r) @ '' of a procedure is recorded'') (fe_now env), w)
      else case reject_procedure (fe_now env) (fb_tenant r) (fb_target r) (fw_procedures w) of (found, ps) \<Rightarrow>
        if \<not> found then Inr (unprojected ''no such procedure'' (fe_now env), w)
        else Inr (projected PROCEDURE_REJECTED (fe_now env), bump_tenant (fb_tenant r) (w\<lparr> fw_procedures := ps \<rparr>)))"

definition project_target :: "feedback_env \<Rightarrow> Feedback \<Rightarrow> feedback_world \<Rightarrow>
    service_error + (FeedbackProjection \<times> feedback_world)" where
  "project_target env r w = (case fb_kind r of
     K_MEMORY \<Rightarrow> project_memory env r w
   | K_RUN \<Rightarrow> project_run env r w
   | K_TOOL_CALL \<Rightarrow> project_tool env r w
   | K_PROCEDURE \<Rightarrow> project_procedure env r w)"

subsection \<open>Undoing\<close>

definition lift_retraction :: "feedback_env \<Rightarrow> Memory \<Rightarrow> instant \<Rightarrow> feedback_world \<Rightarrow> service_error + feedback_world" where
  "lift_retraction env m retracted_at w =
     (let ms = map (\<lambda>x. x\<lparr> me_temporal := (me_temporal x)\<lparr> tp_status := TS_CURRENT, tp_valid_to := None \<rparr>,
                          me_updated_at := fe_now env \<rparr>)
                 (filter (\<lambda>x. status x = TS_RETRACTED \<and> tp_valid_to (me_temporal x) = Some retracted_at)
                   (m # twins (fw_memory w) (me_tenant_id m) m False)) in
      rbind (on_memory (each (mem_update (fe_db_now env)) ms) w) (\<lambda>w1.
        Inr (if ms = [] then w1 else reindex env ms w1)))"

definition reverse_memory :: "feedback_env \<Rightarrow> Feedback \<Rightarrow> FeedbackProjection \<Rightarrow> feedback_world \<Rightarrow>
    service_error + feedback_world" where
  "reverse_memory env prior p w =
     (case mem_get (fe_now env) (fw_memory w) (fb_tenant prior) (fb_target prior) of
        None \<Rightarrow> Inr w
      | Some m \<Rightarrow>
          if pj_action p = MEMORY_REINFORCED then
            (if status m = TS_CURRENT then
               let m' = unreinforced (fe_now env) m in
               rbind (on_memory (mem_update (fe_db_now env) m') w) (\<lambda>w1. Inr (reindex env [m'] w1))
             else Inr w)
          else if pj_action p = MEMORY_RETRACTED then lift_retraction env m (pj_projected_at p) w
          else Inr w)"

definition reverse_projection :: "feedback_env \<Rightarrow> Feedback \<Rightarrow> FeedbackProjection \<Rightarrow> feedback_world \<Rightarrow>
    service_error + feedback_world" where
  "reverse_projection env prior p w =
     (if fb_kind prior = K_RUN \<and> pj_memory_ids p \<noteq> [] then
        rbind (adjust env (fb_tenant prior) (pj_memory_ids p)
                (if thumbs_up prior then - CITED_CONFIDENCE_STEP else CITED_CONFIDENCE_STEP)
                (if thumbs_up prior then - 1 else 0) w) (\<lambda>(_, w1). Inr w1)
      else if fb_kind prior = K_PROCEDURE then
        Inr (if pj_action p = PROCEDURE_REJECTED then
               (case restore_procedure (fe_now env) (fb_tenant prior) (fb_target prior) (fw_procedures w) of (found, ps) \<Rightarrow>
                  if found then bump_tenant (fb_tenant prior) (w\<lparr> fw_procedures := ps \<rparr>) else w)
             else w)
      else if fb_kind prior = K_MEMORY then reverse_memory env prior p w
      else Inr w)"

subsection \<open>Votes\<close>

definition APPLIED_VOTES :: nat where "APPLIED_VOTES = 20"

text \<open>The rows \<open>_settle_earlier\<close> goes through: the voter's approved votes on the target, newest first,
  up to \<open>r\<close> and without it.\<close>

definition earlier_votes :: "Feedback list \<Rightarrow> Feedback \<Rightarrow> Feedback list" where
  "earlier_votes F r = filter (\<lambda>f. fb_id f \<noteq> fb_id r \<and> is_vote f \<and> stamp f \<le> stamp r)
     (applied_votes F (fb_tenant r) (fb_kind r) (fb_target r) (fb_user r) (fb_agent r) APPLIED_VOTES)"

definition stands :: "Feedback \<Rightarrow> bool" where
  "stands f \<longleftrightarrow> (case fb_projection f of None \<Rightarrow> False | Some p \<Rightarrow> pj_reason p \<notin> set STOOD_DOWN)"

definition settle_earlier :: "instant \<Rightarrow> Feedback \<Rightarrow> Feedback list \<Rightarrow> Feedback option \<times> Feedback list" where
  "settle_earlier now r F =
     (let rows = earlier_votes F r in
      (find stands rows,
       fold (\<lambda>f. fb_set_projection (fb_tenant r) (fb_id f) (unprojected REPLACED_REASON now))
         (filter (\<lambda>f. fb_projection f = None) rows) F))"

definition counted_already :: "instant \<Rightarrow> Feedback \<Rightarrow> FeedbackProjection" where
  "counted_already now r = (unprojected ALREADY_COUNTED_REASON now)\<lparr>
     pj_memory_id := (if fb_kind r = K_MEMORY then Some (fb_target r) else None),
     pj_run_id := (if fb_kind r = K_RUN then Some (fb_target r) else None) \<rparr>"

definition project_vote :: "feedback_env \<Rightarrow> Feedback \<Rightarrow> feedback_world \<Rightarrow>
    service_error + (FeedbackProjection \<times> feedback_world)" where
  "project_vote env r w =
     (if voter_key (fb_user r) (fb_agent r) = None then project_target env r w
      else case settle_earlier (fe_now env) r (fw_feedback w) of (prior, F) \<Rightarrow>
        let w1 = w\<lparr> fw_feedback := F \<rparr> in
        (case prior of
           None \<Rightarrow> project_target env r w1
         | Some v \<Rightarrow>
             if same_thumb v r then Inr (counted_already (fe_now env) r, w1)
             else rbind (reverse_projection env v (the (fb_projection v)) w1) (\<lambda>w2.
               rbind (project_target env r w2) (\<lambda>(p, w3). Inr (p\<lparr> pj_reversed := Some (fb_id v) \<rparr>, w3)))))"

subsection \<open>The job\<close>

datatype projection_end = NO_RECORD | PROJECTED FeedbackProjection | WAITS_FOR_REVIEW | LOOKED_AT_AGAIN

definition project :: "feedback_env \<Rightarrow> string \<Rightarrow> string \<Rightarrow> nat \<Rightarrow> feedback_world \<Rightarrow>
    service_error + (projection_end \<times> feedback_world)" where
  "project env t i tries w =
     (case fb_get (fw_feedback w) t i of
        None \<Rightarrow> Inr (NO_RECORD, w)
      | Some r \<Rightarrow>
          (case fb_projection r of
             Some p \<Rightarrow> Inr (PROJECTED p, w)
           | None \<Rightarrow>
               if waits r then Inr (WAITS_FOR_REVIEW, w)
               else if tries < CALL_RECORD_CHECKS \<and> approves (decision_of r) \<and>
                       \<not> backed (fe_stable_hash env) (map fst (fw_calls w)) (decision_of r)
                 then Inr (LOOKED_AT_AGAIN, commit_dependents env (schedule env r (tries + 1) w))
               else rbind (if fb_review r \<noteq> None \<and> is_vote r then project_vote env r w else project_target env r w)
                 (\<lambda>(p, w1). Inr (PROJECTED p,
                    commit_dependents env (w1\<lparr> fw_feedback := fb_set_projection t i p (fw_feedback w1) \<rparr>)))))"

end
