(* ===== verification/Feedback_Service.thy ===== *)
theory Feedback_Service
  imports Feedback_Projector
begin

text \<open>
  The feedback service's requests (\<open>modules/feedback/service.py\<close>): storing a judgement or leaving it
  for review, reviewing one or many, and reading them. A request runs in one transaction, so one that
  raises changes nothing and gives the error alone; the locks it takes order the transactions and
  carry no state. A voter's key, the record and the memory named by a request are read in it.
\<close>

subsection \<open>Who may judge what\<close>

definition get_memory :: "feedback_env \<Rightarrow> exec_context \<Rightarrow> string \<Rightarrow> feedback_world \<Rightarrow> service_error + Memory" where
  "get_memory env ctx i w =
     (case mem_get (fe_now env) (fw_memory w) (ctx_tenant_id ctx) i of
        None \<Rightarrow> Inl NotFound
      | Some m \<Rightarrow> if fe_visible env ctx m then Inr m else Inl (ScopeDenied ''not visible in this scope''))"

definition authorize_memory_verdict :: "feedback_env \<Rightarrow> exec_context \<Rightarrow> Feedback \<Rightarrow> feedback_world \<Rightarrow> service_error + unit" where
  "authorize_memory_verdict env ctx r w =
     rbind (get_memory env ctx (fb_target r) w) (\<lambda>m.
       if \<not> rewrites_text r then Inr ()
       else
         let owner_ok = me_owner m \<in> {principal_id ctx,
               ''user:'' @ (case ctx_user_id ctx of None \<Rightarrow> ''None'' | Some u \<Rightarrow> u)};
             admin = \<not> is_agent ctx \<and> fe_is_tenant_admin env ctx
         in if \<not> owner_ok \<and> \<not> admin then Inl (ScopeDenied ''only the owner (or a tenant admin) can rewrite a memory'')
            else Inr ())"

definition claims_other :: "string option \<Rightarrow> string option \<Rightarrow> bool" where
  "claims_other claimed header \<longleftrightarrow> claimed \<noteq> None \<and> header \<noteq> None \<and> claimed \<noteq> header"

definition admit :: "feedback_env \<Rightarrow> exec_context \<Rightarrow> Feedback \<Rightarrow> feedback_world \<Rightarrow> service_error + unit" where
  "admit env ctx r w =
     (if claims_other (Some (fb_tenant r)) (Some (ctx_tenant_id ctx)) \<or> claims_other (fb_workspace r) (ctx_workspace_id ctx) \<or>
         claims_other (fb_user r) (ctx_user_id ctx) then Inl ValidationFailed
      else rbind (if fb_kind r = K_MEMORY then authorize_memory_verdict env ctx r w else Inr ()) (\<lambda>_.
        rbind (mapM (\<lambda>i. get_memory env ctx i w) (cited_memory_ids CITED_MEMORIES_MAX r)) (\<lambda>_. Inr ())))"

definition needs_review :: "feedback_env \<Rightarrow> exec_context \<Rightarrow> Feedback \<Rightarrow> bool \<Rightarrow> bool \<Rightarrow> bool" where
  "needs_review env ctx r trusted run_vouched =
     (if trusted then False
      else if fb_source r = S_JUDGE then True
      else if run_vouched \<and> fb_source r = S_SYSTEM \<and> fb_kind r = K_RUN \<and> ctx_agent_run_id ctx \<noteq> None \<and>
              Some (fb_target r) = ctx_agent_run_id ctx \<and> cited_memory_ids 1 r = [] then False
      else if fb_kind r = K_TOOL_CALL then False
      else if fb_kind r = K_MEMORY \<and> rewrites_text r then False
      else is_agent ctx \<or> \<not> fe_is_tenant_admin env ctx)"

subsection \<open>One vote per voter and target\<close>

definition dismissal :: "instant \<Rightarrow> string \<Rightarrow> string \<Rightarrow> FeedbackReview" where
  "dismissal now note who = \<lparr> rv_state = RS_DISMISSED, rv_reviewed_by = None, rv_reviewed_at = Some now,
     rv_note = Some note, rv_replaced_by = Some who \<rparr>"

definition applied_vote :: "Feedback list \<Rightarrow> Feedback \<Rightarrow> Feedback option" where
  "applied_vote F v =
     find (\<lambda>f. fb_id f \<noteq> fb_id v \<and> is_vote f \<and> stamp f < stamp v \<and>
              \<not> (case fb_projection f of None \<Rightarrow> False | Some p \<Rightarrow> pj_reason p = Some ALREADY_COUNTED_REASON))
       (applied_votes F (fb_tenant v) (fb_kind v) (fb_target v) (fb_user v) (fb_agent v) APPLIED_VOTES)"

definition PENDING_READ :: nat where "PENDING_READ = 1000"

definition replace_vote :: "Feedback \<Rightarrow> string \<Rightarrow> Feedback \<Rightarrow> Feedback list \<Rightarrow> Feedback list" where
  "replace_vote v who f F =
     (case fb_get F (fb_tenant v) (fb_id f) of
        None \<Rightarrow> F
      | Some old \<Rightarrow>
          if \<not> waits old then F
          else fb_set_projection (fb_tenant v) (fb_id old) (unprojected REPLACED_REASON (fb_created_at v))
                 (fb_set_review (fb_tenant v) (fb_id old) (dismissal (fb_created_at v) REPLACED_REASON who) F))"

definition replace_earlier_votes :: "Feedback \<Rightarrow> string \<Rightarrow> Feedback list \<Rightarrow> Feedback list" where
  "replace_earlier_votes v who F = fold (replace_vote v who)
     (pending_on F (fb_tenant v) (fb_kind v) (fb_target v) (Some (fb_user v, fb_agent v)) PENDING_READ) F"

definition count_once :: "Feedback \<Rightarrow> Feedback list \<Rightarrow> Feedback \<times> Feedback list" where
  "count_once v F =
     (case applied_vote F v of
        Some c \<Rightarrow>
          if same_thumb c v then
            (v\<lparr> fb_review := Some (dismissal (fb_created_at v) ALREADY_COUNTED_REASON (fb_id c)),
                fb_projection := Some (unprojected ALREADY_COUNTED_REASON (fb_created_at v)) \<rparr>,
             replace_earlier_votes v (fb_id c) F)
          else (v, replace_earlier_votes v (fb_id v) F)
      | None \<Rightarrow> (v, replace_earlier_votes v (fb_id v) F))"

subsection \<open>Submitting\<close>

definition record_to_store :: "instant \<Rightarrow> exec_context \<Rightarrow> Feedback \<Rightarrow> bool \<Rightarrow> bool \<Rightarrow> Feedback" where
  "record_to_store now ctx r trusted run_vouched =
     (let s = r\<lparr> fb_workspace := por (fb_workspace r) (ctx_workspace_id ctx), fb_user := por (fb_user r) (ctx_user_id ctx),
                 fb_agent := por (fb_agent r) (ctx_agent_id ctx), fb_run := por (fb_run r) (ctx_agent_run_id ctx),
                 fb_created_at := now, fb_projection := None, fb_review := None \<rparr>
      in s\<lparr> fb_vote := Some (classify trusted run_vouched s) \<rparr>)"

definition pending_review :: FeedbackReview where
  "pending_review = \<lparr> rv_state = RS_PENDING, rv_reviewed_by = None, rv_reviewed_at = None, rv_note = None,
     rv_replaced_by = None \<rparr>"

definition submit :: "feedback_env \<Rightarrow> exec_context \<Rightarrow> Feedback \<Rightarrow> bool \<Rightarrow> bool \<Rightarrow> feedback_world \<Rightarrow>
    service_error + ((Feedback \<times> bool) \<times> feedback_world)" where
  "submit env ctx r trusted run_vouched w =
     rbind (admit env ctx r w) (\<lambda>_.
       case fb_get (fw_feedback w) (ctx_tenant_id ctx) (fb_id r) of
         Some existing \<Rightarrow> Inr ((existing, False), w)
       | None \<Rightarrow>
           let s0 = record_to_store (fe_now env) ctx r trusted run_vouched;
               s1 = (if needs_review env ctx s0 trusted run_vouched then s0\<lparr> fb_review := Some pending_review \<rparr> else s0);
               voter = voter_key (por (fb_user r) (ctx_user_id ctx)) (por (fb_agent r) (ctx_agent_id ctx));
               (s2, F) = (if waits s1 \<and> voter \<noteq> None \<and> is_vote s1 then count_once s1 (fw_feedback w)
                          else (s1, fw_feedback w));
               w1 = w\<lparr> fw_feedback := fb_add s2 F \<rparr>
           in Inr ((s2, True), if fb_review s2 = None then schedule env s2 0 w1 else w1))"

subsection \<open>Reviewing\<close>

definition decide :: "feedback_env \<Rightarrow> Feedback \<Rightarrow> bool \<Rightarrow> string \<Rightarrow> string option \<Rightarrow> feedback_world \<Rightarrow>
    Feedback \<times> feedback_world" where
  "decide env r approve who note w =
     (let v = \<lparr> rv_state = (if approve then RS_APPROVED else RS_DISMISSED), rv_reviewed_by = Some who,
                rv_reviewed_at = Some (fe_now env), rv_note = note, rv_replaced_by = None \<rparr>;
          p = unprojected ''dismissed in review'' (fe_now env);
          F = fb_set_review (fb_tenant r) (fb_id r) v (fw_feedback w)
      in if approve then (r\<lparr> fb_review := Some v, fb_projection := None \<rparr>, schedule env r 0 (w\<lparr> fw_feedback := F \<rparr>))
         else (r\<lparr> fb_review := Some v, fb_projection := Some p \<rparr>,
               w\<lparr> fw_feedback := fb_set_projection (fb_tenant r) (fb_id r) p F \<rparr>))"

definition review :: "feedback_env \<Rightarrow> string \<Rightarrow> string \<Rightarrow> bool \<Rightarrow> string \<Rightarrow> string option \<Rightarrow> feedback_world \<Rightarrow>
    service_error + (Feedback \<times> feedback_world)" where
  "review env t i approve who note w =
     (case fb_get (fw_feedback w) t i of
        None \<Rightarrow> Inl NotFound
      | Some r \<Rightarrow> if \<not> waits r then Inl (Conflict ''not waiting for review'' False)
                  else Inr (decide env r approve who note w))"

definition BULK_REVIEW_MAX :: nat where "BULK_REVIEW_MAX = 500"

datatype reviewed = BY_IDS "string list" | BY_TARGET TargetKind string

text \<open>The loop over the records read: those still waiting are decided, the others left as they are.\<close>

fun decide_all :: "feedback_env \<Rightarrow> bool \<Rightarrow> string \<Rightarrow> string option \<Rightarrow> Feedback list \<Rightarrow> feedback_world \<Rightarrow>
    (Feedback list \<times> Feedback list) \<times> feedback_world" where
  "decide_all env approve who note [] w = (([], []), w)"
| "decide_all env approve who note (r # rs) w =
     (if waits r then
        (case decide env r approve who note w of (r', w1) \<Rightarrow>
           case decide_all env approve who note rs w1 of ((decided, unchanged), w2) \<Rightarrow> ((r' # decided, unchanged), w2))
      else
        (case decide_all env approve who note rs w of ((decided, unchanged), w2) \<Rightarrow> ((decided, r # unchanged), w2)))"

definition review_many :: "feedback_env \<Rightarrow> string \<Rightarrow> reviewed \<Rightarrow> bool \<Rightarrow> string \<Rightarrow> string option \<Rightarrow> feedback_world \<Rightarrow>
    service_error + ((Feedback list \<times> Feedback list \<times> bool) \<times> feedback_world)" where
  "review_many env t what approve who note w =
     rbind (case what of
         BY_IDS given \<Rightarrow>
           (let ids = fromkeys given in
            if ids = [] \<or> BULK_REVIEW_MAX < length ids then Inl ValidationFailed else Inr (ids, False))
       | BY_TARGET kind target \<Rightarrow>
           (let found = pending_on (fw_feedback w) t kind target None (BULK_REVIEW_MAX + 1)
            in Inr (map fb_id (take BULK_REVIEW_MAX found), BULK_REVIEW_MAX < length found)))
       (\<lambda>(ids, more).
         let found = map (fb_get (fw_feedback w) t) ids in
         if None \<in> set found then Inl NotFound
         else (case decide_all env approve who note (map the found) w of ((decided, unchanged), w1) \<Rightarrow>
                 Inr ((decided, unchanged, more), w1)))"

subsection \<open>Reading\<close>

definition own_record :: "exec_context \<Rightarrow> Feedback \<Rightarrow> bool" where
  "own_record ctx r \<longleftrightarrow> ctx_user_id ctx \<noteq> None \<and> fb_user r = ctx_user_id ctx \<or>
     ctx_workspace_id ctx \<noteq> None \<and> fb_workspace r = ctx_workspace_id ctx"

definition record_visible :: "feedback_env \<Rightarrow> exec_context \<Rightarrow> feedback_world \<Rightarrow> Feedback \<Rightarrow> bool" where
  "record_visible env ctx w r =
     (if fb_kind r = K_MEMORY then (case get_memory env ctx (fb_target r) w of Inl _ \<Rightarrow> False | Inr _ \<Rightarrow> True)
      else own_record ctx r \<or> fe_is_tenant_admin env ctx)"

definition get_feedback :: "feedback_env \<Rightarrow> exec_context \<Rightarrow> string \<Rightarrow> feedback_world \<Rightarrow> service_error + Feedback" where
  "get_feedback env ctx i w =
     (case fb_get (fw_feedback w) (ctx_tenant_id ctx) i of
        None \<Rightarrow> Inl NotFound
      | Some r \<Rightarrow> if record_visible env ctx w r then Inr r else Inl NotFound)"

text \<open>The loop of \<open>list_for\<close>: pages of \<open>most\<close> rows until \<open>most\<close> shown ones are found or a page is short.\<close>

definition after_cursor :: "(instant \<times> string) option \<Rightarrow> Feedback \<Rightarrow> bool" where
  "after_cursor before r \<longleftrightarrow> (case before of None \<Rightarrow> True | Some b \<Rightarrow> stamp r < b)"

lemma set_fb_page: "set (fb_page before most G) \<subseteq> {r \<in> set G. after_cursor before r}"
  by (auto simp: fb_page_def after_cursor_def dest!: in_set_takeD)

lemma length_filter_mono: "(\<And>x. x \<in> set xs \<Longrightarrow> P x \<Longrightarrow> Q x) \<Longrightarrow> length (filter P xs) \<le> length (filter Q xs)"
  by (induction xs) auto

lemma length_filter_strict:
  assumes "\<And>x. P x \<Longrightarrow> Q x" and "a \<in> set xs" and "Q a" and "\<not> P a"
  shows "length (filter P xs) < length (filter Q xs)"
proof -
  have "filter P xs = filter P (filter Q xs)" using assms(1) by (auto intro: filter_cong)
  moreover have "length (filter P (filter Q xs)) < length (filter Q xs)"
    by (rule length_filter_less [of a]) (use assms in auto)
  ultimately show ?thesis by simp
qed

function collect_shown :: "(Feedback \<Rightarrow> bool) \<Rightarrow> Feedback list \<Rightarrow> nat \<Rightarrow> (instant \<times> string) option \<Rightarrow> Feedback list \<Rightarrow>
    Feedback list" where
  "collect_shown shown G most before out =
     (if length out < most then
        let rows = fb_page before most G; out' = out @ filter shown rows in
        if length rows < most then out'
        else collect_shown shown G most (Some (stamp (last rows))) out'
      else out)"
  by pat_completeness auto
termination
proof (relation "measure (\<lambda>(shown, G, most, before, out). length (filter (after_cursor before) G))", goal_cases)
  case (2 shown G most before out rows out')
  have "rows \<noteq> []" using 2 by (auto simp: not_less)
  then have cursor: "last rows \<in> set G" "after_cursor before (last rows)"
    using set_fb_page [of before most G] 2(2) last_in_set by blast+
  have "length (filter (after_cursor (Some (stamp (last rows)))) G) < length (filter (after_cursor before) G)"
    by (rule length_filter_strict [of _ _ "last rows"]) (use cursor in \<open>auto simp: after_cursor_def split: option.splits\<close>)
  then show ?case by simp
qed simp

declare collect_shown.simps [simp del]

definition list_feedback :: "feedback_env \<Rightarrow> exec_context \<Rightarrow> TargetKind \<Rightarrow> string \<Rightarrow> (instant \<times> string) option \<Rightarrow> nat \<Rightarrow>
    feedback_world \<Rightarrow> service_error + Feedback list" where
  "list_feedback env ctx kind target before most w =
     (let t = ctx_tenant_id ctx; F = fw_feedback w in
      if kind = K_MEMORY then rbind (get_memory env ctx target w) (\<lambda>_. Inr (fb_list_for F t kind target before most))
      else Inr (take most (collect_shown (\<lambda>r. fe_is_tenant_admin env ctx \<or> own_record ctx r)
             (filter (on_target t kind target) F) most before [])))"

definition review_queue :: "string \<Rightarrow> ReviewState \<Rightarrow> (instant \<times> string) option \<Rightarrow> nat \<Rightarrow> feedback_world \<Rightarrow>
    (Feedback \<times> (ReviewState \<Rightarrow> nat)) list" where
  "review_queue t st before most w =
     map (\<lambda>r. (r, review_counts (fw_feedback w) t (fb_user r) (fb_agent r))) (list_pending (fw_feedback w) t st before most)"

end
