(* ===== verification/Feedback_Votes.thy ===== *)
theory Feedback_Votes
  imports Feedback_Service
begin

text \<open>
  The votes as a state machine: judgements are submitted, reviewed and projected in any order, and
  anything else in the service may happen between. The invariant \<open>votes_ok\<close> of the table is kept by
  every step; from it, one vote of a voter waits per target, a decision is final, and of the votes
  that were applied only the newest still counts.
\<close>

subsection \<open>Voters and targets\<close>

definition voter :: "Feedback \<Rightarrow> string option \<times> string option" where
  "voter r = (case fb_user r of Some u \<Rightarrow> (Some u, None) | None \<Rightarrow> (None, fb_agent r))"

definition ballot :: "Feedback \<Rightarrow> string \<times> TargetKind \<times> string \<times> string option \<times> string option" where
  "ballot r = (fb_tenant r, fb_kind r, fb_target r, voter r)"

lemma by_voter_iff: "by_voter (fb_user a) (fb_agent a) b \<longleftrightarrow> voter b = voter a"
  by (auto simp: by_voter_def voter_def split: option.splits)

lemma same_ballot: "ballot b = ballot a \<longleftrightarrow>
    on_target (fb_tenant a) (fb_kind a) (fb_target a) b \<and> by_voter (fb_user a) (fb_agent a) b"
  by (auto simp: ballot_def on_target_def by_voter_iff)

text \<open>A vote somebody cast, and one that was approved.\<close>

definition cast_vote :: "Feedback \<Rightarrow> bool" where
  "cast_vote r \<longleftrightarrow> is_vote r \<and> voter_key (fb_user r) (fb_agent r) \<noteq> None"

definition approved_vote :: "Feedback \<Rightarrow> bool" where
  "approved_vote r \<longleftrightarrow> cast_vote r \<and> in_state RS_APPROVED r"

lemma voter_key_voter: "voter_key (fb_user r) (fb_agent r) \<noteq> None \<longleftrightarrow> voter r \<noteq> (None, None)"
  by (auto simp: voter_key_def voter_def split: option.splits)

lemma cast_same: "ballot a = ballot b \<Longrightarrow> cast_vote a \<longleftrightarrow> is_vote a \<and> voter_key (fb_user b) (fb_agent b) \<noteq> None"
  unfolding cast_vote_def voter_key_voter by (simp add: ballot_def)

subsection \<open>Updates of the table\<close>

text \<open>Only the review and the projection of a record ever change.\<close>

definition same_vote :: "Feedback \<Rightarrow> Feedback \<Rightarrow> bool" where
  "same_vote r r' \<longleftrightarrow> (\<exists>v p. r' = r\<lparr> fb_review := v, fb_projection := p \<rparr>)"

lemma same_vote_refl [simp]: "same_vote r r"
  unfolding same_vote_def by (intro exI [of _ "fb_review r"] exI [of _ "fb_projection r"]) simp

lemma same_voteE:
  assumes "same_vote r r'"
  shows "fb_id r' = fb_id r" "fb_tenant r' = fb_tenant r" "fb_created_at r' = fb_created_at r" "ballot r' = ballot r"
    "fb_vote r' = fb_vote r" "is_vote r' = is_vote r" "cast_vote r' = cast_vote r" "stamp r' = stamp r"
    "thumbs_up r' = thumbs_up r" "voted r' = voted r" "has_id t i r' = has_id t i r"
proof -
  obtain v p where r': "r' = r\<lparr> fb_review := v, fb_projection := p \<rparr>" using assms unfolding same_vote_def by blast
  show "fb_id r' = fb_id r" "fb_tenant r' = fb_tenant r" "fb_created_at r' = fb_created_at r" "ballot r' = ballot r"
    "fb_vote r' = fb_vote r" "is_vote r' = is_vote r" "cast_vote r' = cast_vote r" "stamp r' = stamp r"
    "thumbs_up r' = thumbs_up r" "voted r' = voted r" "has_id t i r' = has_id t i r"
    unfolding r'
    by (simp_all add: ballot_def voter_def is_vote_def rewrites_text_def cast_vote_def stamp_def thumbs_up_def
        voted_def has_id_def cong: option.case_cong if_cong)
qed

lemma review_only: "fb_projection r = p \<Longrightarrow> r\<lparr> fb_review := v, fb_projection := p \<rparr> = r\<lparr> fb_review := v \<rparr>"
  by (cases r) simp

definition same_votes :: "(Feedback \<Rightarrow> Feedback) \<Rightarrow> bool" where
  "same_votes g \<longleftrightarrow> (\<forall>r. same_vote r (g r))"

lemma same_votesD: "same_votes g \<Longrightarrow> same_vote r (g r)"
  by (simp add: same_votes_def)

definition ids :: "Feedback list \<Rightarrow> (string \<times> string) list" where
  "ids F = map (\<lambda>r. (fb_tenant r, fb_id r)) F"

lemma ids_map: "same_votes g \<Longrightarrow> ids (map g F) = ids F"
  by (simp add: ids_def same_voteE [OF same_votesD])

lemma id_unique: "distinct (ids F) \<Longrightarrow> r \<in> set F \<Longrightarrow> has_id (fb_tenant s) (fb_id s) r \<Longrightarrow> s \<in> set F \<Longrightarrow> r = s"
  by (auto simp: ids_def has_id_def distinct_map inj_on_def)

lemma fb_get_unique:
  assumes "distinct (ids F)" and "r \<in> set F"
  shows "fb_get F (fb_tenant r) (fb_id r) = Some r"
proof -
  obtain s where "fb_get F (fb_tenant r) (fb_id r) = Some s"
    using assms(2) by (cases "find (has_id (fb_tenant r) (fb_id r)) F") (auto simp: fb_get_def find_None_iff has_id_def)
  moreover from this have "s \<in> set F" "has_id (fb_tenant r) (fb_id r) s" by (auto simp: fb_get_def find_Some_iff)
  ultimately show ?thesis using id_unique [OF assms(1) _ _ assms(2)] by auto
qed

lemma fb_get_Some: "fb_get F t i = Some r \<Longrightarrow> r \<in> set F \<and> fb_tenant r = t \<and> fb_id r = i"
  by (auto simp: fb_get_def find_Some_iff has_id_def)

lemma fb_get_None: "fb_get F t i = None \<longleftrightarrow> (t, i) \<notin> set (ids F)"
  by (auto simp: fb_get_def find_None_iff has_id_def ids_def)

definition replaced_vote :: "instant \<Rightarrow> string \<Rightarrow> Feedback \<Rightarrow> Feedback" where
  "replaced_vote now who r = r\<lparr> fb_review := Some (dismissal now REPLACED_REASON who),
     fb_projection := Some (unprojected REPLACED_REASON now) \<rparr>"

lemma replaced_vote_same: "same_vote r (replaced_vote now who r)"
  by (auto simp: same_vote_def replaced_vote_def)

lemma replaced_vote_state [simp]: "in_state st (replaced_vote now who r) \<longleftrightarrow> st = RS_DISMISSED"
  by (auto simp: in_state_def replaced_vote_def dismissal_def)

lemma replace_vote_map:
  assumes "distinct (ids F)"
  shows "replace_vote v who f F = map (\<lambda>r. if has_id (fb_tenant v) (fb_id f) r \<and> waits r
           then replaced_vote (fb_created_at v) who r else r) F"
proof (cases "fb_get F (fb_tenant v) (fb_id f)")
  case None
  then have "\<forall>r \<in> set F. \<not> has_id (fb_tenant v) (fb_id f) r" by (simp add: fb_get_def find_None_iff)
  then have "map (\<lambda>r. if has_id (fb_tenant v) (fb_id f) r \<and> waits r then replaced_vote (fb_created_at v) who r else r) F = F"
    by (intro map_idI) auto
  then show ?thesis using None by (simp add: replace_vote_def)
next
  case (Some old)
  note old = fb_get_Some [OF Some]
  have only: "r = old" if "r \<in> set F" "has_id (fb_tenant v) (fb_id f) r" for r
    using id_unique [OF assms that(1)] that(2) old by (auto simp: has_id_def)
  have hold: "has_id (fb_tenant v) (fb_id old) = has_id (fb_tenant v) (fb_id f)"
    using old by (auto simp: has_id_def fun_eq_iff)
  show ?thesis
  proof (cases "waits old")
    case True
    have "replace_vote v who f F = map (\<lambda>r. if has_id (fb_tenant v) (fb_id f) r then replaced_vote (fb_created_at v) who r else r) F"
      using Some True by (simp add: replace_vote_def fb_set_projection_def fb_set_review_def hold replaced_vote_def
          has_id_def comp_def if_distrib cong: if_cong)
    also have "\<dots> = map (\<lambda>r. if has_id (fb_tenant v) (fb_id f) r \<and> waits r then replaced_vote (fb_created_at v) who r else r) F"
      by (rule map_cong [OF refl]) (use only True in metis)
    finally show ?thesis .
  next
    case False
    then have "\<forall>r \<in> set F. \<not> (has_id (fb_tenant v) (fb_id f) r \<and> waits r)" using only by blast
    then have "map (\<lambda>r. if has_id (fb_tenant v) (fb_id f) r \<and> waits r then replaced_vote (fb_created_at v) who r else r) F = F"
      by (intro map_idI) auto
    then show ?thesis using Some False by (simp add: replace_vote_def)
  qed
qed

lemma fold_replace_vote:
  assumes "distinct (ids F)"
  shows "fold (replace_vote v who) fs F = map (\<lambda>r. if (\<exists>f \<in> set fs. has_id (fb_tenant v) (fb_id f) r) \<and> waits r
           then replaced_vote (fb_created_at v) who r else r) F"
  using assms
proof (induction fs arbitrary: F)
  case (Cons f fs)
  let ?g = "\<lambda>r. if has_id (fb_tenant v) (fb_id f) r \<and> waits r then replaced_vote (fb_created_at v) who r else r"
  have "same_votes ?g" by (simp add: same_votes_def replaced_vote_same)
  then have "distinct (ids (map ?g F))" using Cons.prems by (simp add: ids_map)
  from Cons.IH [OF this] show ?case
    by (auto simp: replace_vote_map [OF Cons.prems] same_voteE [OF replaced_vote_same])
qed simp

lemma fold_set_projection:
  "fold (\<lambda>f. fb_set_projection t (fb_id f) p) fs F =
     map (\<lambda>r. if \<exists>f \<in> set fs. has_id t (fb_id f) r then r\<lparr> fb_projection := Some p \<rparr> else r) F"
  by (induction fs arbitrary: F) (auto simp: fb_set_projection_def has_id_def)

end
