(* ===== verification/Feedback_Chain.thy ===== *)
theory Feedback_Chain
  imports Feedback_Votes
begin

text \<open>
  What holds of the table of votes at any time (\<open>votes_ok\<close>), and of the approved votes in it
  (\<open>chain_ok\<close>): on one ballot they are projected in the order they were cast, and each one that was
  applied undid the one applied before it. This theory shows what each kind of update does to them.
\<close>

subsection \<open>The invariants\<close>

definition in_order :: "Feedback list \<Rightarrow> bool" where
  "in_order F \<longleftrightarrow> sorted_wrt (\<lambda>a b. fb_created_at a < fb_created_at b) F"

definition record_ok :: "Feedback \<Rightarrow> bool" where
  "record_ok r \<longleftrightarrow> fb_vote r \<noteq> None \<and> (waits r \<longrightarrow> fb_projection r = None) \<and>
     (in_state RS_DISMISSED r \<longrightarrow> fb_projection r \<noteq> None)"

definition only_last_waits :: "Feedback list \<Rightarrow> bool" where
  "only_last_waits F \<longleftrightarrow> (\<forall>r \<in> set F. \<forall>s \<in> set F. ballot r = ballot s \<longrightarrow> cast_vote r \<longrightarrow> cast_vote s \<longrightarrow>
     fb_created_at r < fb_created_at s \<longrightarrow> fb_review s \<noteq> None \<longrightarrow> \<not> waits r)"

definition votes_ok :: "Feedback list \<Rightarrow> bool" where
  "votes_ok F \<longleftrightarrow> distinct (ids F) \<and> in_order F \<and> (\<forall>r \<in> set F. record_ok r) \<and> only_last_waits F"

definition previous :: "Feedback list \<Rightarrow> Feedback \<Rightarrow> Feedback option" where
  "previous A s = find (\<lambda>f. stands f \<and> ballot f = ballot s \<and> fb_created_at f < fb_created_at s) (rev A)"

definition settled_in_order :: "Feedback list \<Rightarrow> bool" where
  "settled_in_order A \<longleftrightarrow> (\<forall>r \<in> set A. \<forall>s \<in> set A. ballot r = ballot s \<longrightarrow> fb_created_at r < fb_created_at s \<longrightarrow>
     fb_projection s \<noteq> None \<longrightarrow> fb_projection r \<noteq> None)"

definition undoes :: "Feedback \<Rightarrow> string option" where
  "undoes s = Option.bind (fb_projection s) pj_reversed"

definition chain_ok :: "Feedback list \<Rightarrow> bool" where
  "chain_ok A \<longleftrightarrow> settled_in_order A \<and>
     (\<forall>s \<in> set A. stands s \<longrightarrow> undoes s = map_option fb_id (previous A s) \<and>
        (\<forall>r. previous A s = Some r \<longrightarrow> \<not> same_thumb r s))"

definition approved_votes :: "Feedback list \<Rightarrow> Feedback list" where
  "approved_votes F = filter approved_vote F"

text \<open>The votes the service reads when it looks for a voter's earlier ones all fit in one page.\<close>

definition votes_within :: "Feedback list \<Rightarrow> bool" where
  "votes_within F \<longleftrightarrow> (\<forall>b. length (filter (\<lambda>r. ballot r = b \<and> in_state RS_APPROVED r \<and> voted r) F) \<le> APPLIED_VOTES)"

lemma voted_is_vote: "record_ok r \<Longrightarrow> voted r = is_vote r"
  by (auto simp: record_ok_def voted_def is_vote_def)

lemma in_state_one: "in_state a r \<Longrightarrow> in_state b r \<Longrightarrow> a = b"
  by (auto simp: in_state_def split: option.splits)

lemma in_state_reviewed: "in_state a r \<Longrightarrow> fb_review r \<noteq> None"
  by (auto simp: in_state_def split: option.splits)

subsection \<open>Order and pages\<close>

lemma in_order_map: "same_votes g \<Longrightarrow> in_order (map g F) = in_order F"
  by (simp add: in_order_def sorted_wrt_map same_voteE [OF same_votesD])

lemma in_order_filter: "in_order F \<Longrightarrow> in_order (filter P F)"
  by (simp add: in_order_def sorted_wrt_filter)

lemma in_order_stamps: "in_order F \<Longrightarrow> sorted (map stamp F)"
  unfolding in_order_def by (induction F) (auto simp: stamp_def less_imp_le)

lemma in_order_distinct: "in_order F \<Longrightarrow> r \<in> set F \<Longrightarrow> s \<in> set F \<Longrightarrow> fb_created_at r = fb_created_at s \<Longrightarrow> r = s"
  unfolding in_order_def by (induction F) auto

lemma first_page:
  assumes "in_order F" and "length (filter P F) \<le> n"
  shows "fb_page None n (filter P F) = rev (filter P F)"
  using in_order_stamps [OF in_order_filter [OF assms(1)]] assms(2)
  by (simp add: fb_page_def sort_key_id_if_sorted)

lemma applied_votes_eq:
  assumes "in_order F" and "votes_within F"
  shows "applied_votes F (fb_tenant r) (fb_kind r) (fb_target r) (fb_user r) (fb_agent r) APPLIED_VOTES =
    rev (filter (\<lambda>f. ballot f = ballot r \<and> in_state RS_APPROVED f \<and> voted f) F)"
proof -
  have "(\<lambda>f. on_target (fb_tenant r) (fb_kind r) (fb_target r) f \<and> in_state RS_APPROVED f \<and> voted f \<and>
           by_voter (fb_user r) (fb_agent r) f) = (\<lambda>f. ballot f = ballot r \<and> in_state RS_APPROVED f \<and> voted f)"
    by (auto simp: same_ballot fun_eq_iff)
  moreover have "length (filter (\<lambda>f. ballot f = ballot r \<and> in_state RS_APPROVED f \<and> voted f) F) \<le> APPLIED_VOTES"
    using assms(2) unfolding votes_within_def by (rule spec)
  ultimately show ?thesis
    unfolding applied_votes_def by (simp add: first_page [OF assms(1)])
qed

lemma find_filter: "find P (filter Q xs) = find (\<lambda>x. P x \<and> Q x) xs"
  by (induction xs) auto

lemma find_rev_filter: "find P (filter Q (rev (filter R xs))) = find (\<lambda>x. P x \<and> Q x \<and> R x) (rev xs)"
  by (simp add: rev_filter find_filter conj_ac)

lemma find_map: "find P (map g xs) = map_option g (find (\<lambda>x. P (g x)) xs)"
  by (induction xs) auto

lemma find_skip: "\<not> P y \<Longrightarrow> find P (xs @ y # ys) = find P (xs @ ys)"
  by (induction xs) auto

lemma find_cong_set: "(\<And>x. x \<in> set xs \<Longrightarrow> P x = Q x) \<Longrightarrow> find P xs = find Q xs"
  by (induction xs) auto

subsection \<open>Adding a record\<close>

lemma votes_ok_add:
  assumes "votes_ok F" and "fb_get F (fb_tenant s) (fb_id s) = None" and "\<forall>r \<in> set F. fb_created_at r < fb_created_at s"
    and "record_ok s" and "fb_review s \<noteq> None \<Longrightarrow> cast_vote s \<Longrightarrow> \<forall>r \<in> set F. ballot r = ballot s \<longrightarrow> cast_vote r \<longrightarrow> \<not> waits r"
  shows "votes_ok (F @ [s])"
  using assms
  by (auto simp: votes_ok_def in_order_def sorted_wrt_append fb_get_None ids_def only_last_waits_def dest: less_asym)

subsection \<open>Changing reviews and projections\<close>

lemma votes_ok_map:
  assumes "votes_ok F" and "same_votes g" and "\<And>r. r \<in> set F \<Longrightarrow> record_ok (g r)"
    and "\<And>r. r \<in> set F \<Longrightarrow> waits (g r) \<Longrightarrow> waits r"
    and "\<And>r. r \<in> set F \<Longrightarrow> fb_review (g r) \<noteq> None \<Longrightarrow> fb_review r \<noteq> None"
  shows "votes_ok (map g F)"
proof -
  note same = same_voteE [OF same_votesD [OF assms(2)]]
  have "only_last_waits (map g F)"
    unfolding only_last_waits_def
  proof (intro ballI impI)
    fix r' s' assume "r' \<in> set (map g F)" and "s' \<in> set (map g F)" and later: "ballot r' = ballot s'" "cast_vote r'"
      "cast_vote s'" "fb_created_at r' < fb_created_at s'" "fb_review s' \<noteq> None"
    then obtain r s where r: "r \<in> set F" "r' = g r" and s: "s \<in> set F" "s' = g s" by auto
    have "fb_review s \<noteq> None" using assms(5) s later(5) by blast
    then have "\<not> waits r"
      using assms(1) r(1) s(1) later(1-4) unfolding r(2) s(2) same votes_ok_def only_last_waits_def by blast
    then show "\<not> waits r'" using assms(4) r by blast
  qed
  moreover have "\<forall>r \<in> set (map g F). record_ok r" using assms(3) by auto
  ultimately show ?thesis
    using assms(1) by (simp add: votes_ok_def ids_map [OF assms(2)] in_order_map [OF assms(2)])
qed

lemma approved_votes_map:
  assumes "\<And>r. r \<in> set F \<Longrightarrow> approved_vote r \<Longrightarrow> g r = r" and "\<And>r. r \<in> set F \<Longrightarrow> \<not> approved_vote r \<Longrightarrow> \<not> approved_vote (g r)"
  shows "approved_votes (map g F) = approved_votes F"
  using assms unfolding approved_votes_def by (induction F) auto

text \<open>One record, in its place.\<close>

lemma unique_place:
  assumes "distinct (ids F)" and "q \<in> set F"
  obtains X Y where "F = X @ q # Y"
    and "\<And>h. map (\<lambda>r. if has_id (fb_tenant q) (fb_id q) r then h r else r) F = X @ h q # Y"
proof -
  obtain X Y where F: "F = X @ q # Y" using assms(2) by (meson split_list)
  have "\<not> has_id (fb_tenant q) (fb_id q) r" if "r \<in> set X \<union> set Y" for r
    using assms(1) that unfolding F by (auto simp: ids_def has_id_def image_iff)
  then have "map (\<lambda>r. if has_id (fb_tenant q) (fb_id q) r then h r else r) F = X @ h q # Y" for h
    unfolding F by (auto simp: has_id_def intro!: map_idI)
  with F show thesis using that by blast
qed

subsection \<open>Approving a vote\<close>

lemma chain_insert:
  assumes "chain_ok (A @ B)" and "fb_projection q = None" and "\<forall>s \<in> set (A @ B). ballot q = ballot s \<longrightarrow> \<not> fb_created_at q < fb_created_at s"
  shows "chain_ok (A @ q # B)"
proof -
  have down: "\<not> stands q" using assms(2) by (simp add: stands_def)
  have prev: "previous (A @ q # B) s = previous (A @ B) s" for s
    using down by (simp add: previous_def find_skip)
  have "settled_in_order (A @ q # B)"
    using assms unfolding chain_ok_def settled_in_order_def by auto
  moreover have "stands s \<longrightarrow> undoes s = map_option fb_id (previous (A @ q # B) s) \<and>
      (\<forall>r. previous (A @ q # B) s = Some r \<longrightarrow> \<not> same_thumb r s)" if "s \<in> set (A @ q # B)" for s
    using assms(1) that down unfolding prev chain_ok_def by auto
  ultimately show ?thesis by (simp add: chain_ok_def)
qed

lemma chain_approve:
  assumes "votes_ok F" and "chain_ok (approved_votes F)" and "q \<in> set F" and "waits q" and "rv_state v = RS_APPROVED"
  shows "chain_ok (approved_votes (fb_set_review (fb_tenant q) (fb_id q) v F))"
proof -
  let ?q = "q\<lparr> fb_review := Some v \<rparr>"
  have dist: "distinct (ids F)" using assms(1) by (simp add: votes_ok_def)
  obtain X Y where F: "F = X @ q # Y"
    and upd: "\<And>h. map (\<lambda>r. if has_id (fb_tenant q) (fb_id q) r then h r else r) F = X @ h q # Y"
    by (rule unique_place [OF dist assms(3)]) blast
  have F': "fb_set_review (fb_tenant q) (fb_id q) v F = X @ ?q # Y" by (simp add: fb_set_review_def upd)
  have out: "\<not> approved_vote q" using assms(4) by (auto simp: approved_vote_def dest: in_state_one)
  have same: "same_vote q ?q" unfolding same_vote_def by (intro exI [of _ "Some v"] exI [of _ "fb_projection q"]) simp
  show ?thesis
  proof (cases "approved_vote ?q")
    case True
    then have "cast_vote q" by (simp add: approved_vote_def same_voteE [OF same])
    have later: "ballot q = ballot s \<longrightarrow> \<not> fb_created_at q < fb_created_at s" if "s \<in> set F" "approved_vote s" for s
    proof (intro impI notI)
      assume "ballot q = ballot s" and "fb_created_at q < fb_created_at s"
      moreover have "fb_review s \<noteq> None" "cast_vote s" using that(2) in_state_reviewed unfolding approved_vote_def by auto
      moreover have "only_last_waits F" using assms(1) by (simp add: votes_ok_def)
      ultimately have "\<not> waits q" unfolding only_last_waits_def using assms(3) that(1) \<open>cast_vote q\<close> by simp
      then show False using assms(4) by contradiction
    qed
    have "chain_ok (approved_votes X @ ?q # approved_votes Y)"
    proof (rule chain_insert)
      show "chain_ok (approved_votes X @ approved_votes Y)" using assms(2) out by (simp add: F approved_votes_def)
      show "fb_projection ?q = None" using assms(1,3,4) by (simp add: votes_ok_def record_ok_def)
      show "\<forall>s \<in> set (approved_votes X @ approved_votes Y). ballot ?q = ballot s \<longrightarrow> \<not> fb_created_at ?q < fb_created_at s"
        using later unfolding same_voteE [OF same] by (auto simp: F approved_votes_def)
    qed
    then show ?thesis using True by (simp add: F' approved_votes_def)
  next
    case False
    then show ?thesis using assms(2) out unfolding F' unfolding F by (simp add: approved_votes_def)
  qed
qed

subsection \<open>Projecting a vote\<close>

definition closed_vote :: "instant \<Rightarrow> Feedback \<Rightarrow> Feedback" where
  "closed_vote now f = f\<lparr> fb_projection := Some (unprojected REPLACED_REASON now) \<rparr>"

definition before_vote :: "Feedback \<Rightarrow> Feedback \<Rightarrow> bool" where
  "before_vote q f \<longleftrightarrow> ballot f = ballot q \<and> fb_created_at f < fb_created_at q"

definition projected_vote :: "instant \<Rightarrow> Feedback \<Rightarrow> FeedbackProjection \<Rightarrow> Feedback \<Rightarrow> Feedback" where
  "projected_vote now q p f =
     (if f = q then q\<lparr> fb_projection := Some p \<rparr>
      else if before_vote q f \<and> fb_projection f = None then closed_vote now f else f)"

lemma same_vote_projection [simp]: "same_vote f (f\<lparr> fb_projection := p \<rparr>)"
  unfolding same_vote_def by (intro exI [of _ "fb_review f"] exI [of _ p]) simp

lemma same_vote_review [simp]: "same_vote f (f\<lparr> fb_review := v \<rparr>)"
  unfolding same_vote_def by (intro exI [of _ v] exI [of _ "fb_projection f"]) simp

lemma projected_vote_same: "same_votes (projected_vote now q p)"
  by (simp add: same_votes_def projected_vote_def closed_vote_def)

lemma closed_not_stands [simp]: "\<not> stands (closed_vote now f)"
  by (simp add: stands_def closed_vote_def unprojected_def STOOD_DOWN_def)

lemma stands_projection: "stands f \<Longrightarrow> fb_projection f \<noteq> None"
  by (cases "fb_projection f") (simp_all add: stands_def)

lemma chain_project:
  assumes chain: "chain_ok A" and ord: "in_order A" and q: "q \<in> set A" "fb_projection q = None"
    and stood: "stands (q\<lparr> fb_projection := Some p \<rparr>) \<Longrightarrow> pj_reversed p = map_option fb_id (previous A q)"
    and thumb: "\<And>v. stands (q\<lparr> fb_projection := Some p \<rparr>) \<Longrightarrow> previous A q = Some v \<Longrightarrow> \<not> same_thumb v q"
  shows "chain_ok (map (projected_vote now q p) A)"
proof -
  let ?g = "projected_vote now q p"
  note same = same_voteE [OF same_votesD [OF projected_vote_same [of now q p]]]
  have settled: "settled_in_order A" using chain by (simp add: chain_ok_def)
  have kept: "fb_projection (?g f) \<noteq> None" if "fb_projection f \<noteq> None \<or> f = q \<or> before_vote q f" for f
    using that by (auto simp: projected_vote_def closed_vote_def)
  have made: "f = q \<or> before_vote q f \<or> fb_projection f \<noteq> None" if "fb_projection (?g f) \<noteq> None" for f
    using that by (auto simp: projected_vote_def split: if_splits)
  have "settled_in_order (map ?g A)"
    unfolding settled_in_order_def
  proof (intro ballI impI)
    fix r' s' assume "r' \<in> set (map ?g A)" and "s' \<in> set (map ?g A)" and later: "ballot r' = ballot s'"
      "fb_created_at r' < fb_created_at s'" "fb_projection s' \<noteq> None"
    then obtain r s where r: "r \<in> set A" "r' = ?g r" and s: "s \<in> set A" "s' = ?g s" by auto
    note rs = later(1,2) [unfolded r(2) s(2) same]
    consider "s = q" | "before_vote q s" | "fb_projection s \<noteq> None" using made later(3) s(2) by blast
    then have "fb_projection r \<noteq> None \<or> r = q \<or> before_vote q r"
      by cases (use rs settled r(1) s(1) in \<open>auto simp: before_vote_def settled_in_order_def\<close>)
    then show "fb_projection r' \<noteq> None" using kept r(2) by blast
  qed
  moreover have "undoes (?g s) = map_option fb_id (previous (map ?g A) (?g s)) \<and>
      (\<forall>r. previous (map ?g A) (?g s) = Some r \<longrightarrow> \<not> same_thumb r (?g s))" if s: "s \<in> set A" and up: "stands (?g s)" for s
  proof -
    have skip: "stands (?g x) \<and> ballot x = ballot s \<and> fb_created_at x < fb_created_at s \<longleftrightarrow>
        stands x \<and> ballot x = ballot s \<and> fb_created_at x < fb_created_at s" if x: "x \<in> set A" for x
    proof (cases "x = q")
      case True
      have "\<not> (ballot q = ballot s \<and> fb_created_at q < fb_created_at s)"
      proof
        assume later: "ballot q = ballot s \<and> fb_created_at q < fb_created_at s"
        then have "?g s = s" by (auto simp: projected_vote_def before_vote_def)
        then show False using settled q s later stands_projection [OF up] unfolding settled_in_order_def by metis
      qed
      then show ?thesis using True by blast
    next
      case False
      then show ?thesis by (auto simp: projected_vote_def stands_projection)
    qed
    have prev: "previous (map ?g A) (?g s) = map_option ?g (previous A s)"
      unfolding previous_def rev_map find_map same by (rule arg_cong [where f = "map_option ?g"], rule find_cong_set) (simp add: skip)
    have ids: "map_option fb_id (previous (map ?g A) (?g s)) = map_option fb_id (previous A s)"
      by (cases "previous A s") (simp_all add: prev same)
    have thumbs: "same_thumb (?g v) (?g s) = same_thumb v s" for v by (simp add: same_thumb_def same)
    consider (own) "s = q" | (other) "?g s = s" "stands s"
      using up by (auto simp: projected_vote_def split: if_splits)
    then show ?thesis
    proof cases
      case own
      then have g: "?g s = q\<lparr> fb_projection := Some p \<rparr>" by (simp add: projected_vote_def)
      have "stands (q\<lparr> fb_projection := Some p \<rparr>)" using up g by simp
      then have "undoes (?g s) = map_option fb_id (previous A s)" "\<forall>v. previous A s = Some v \<longrightarrow> \<not> same_thumb v s"
        using stood thumb own g by (auto simp: undoes_def)
      then show ?thesis using ids thumbs by (auto simp: prev)
    next
      case other
      then have "undoes s = map_option fb_id (previous A s)" "\<forall>v. previous A s = Some v \<longrightarrow> \<not> same_thumb v s"
        using chain s by (auto simp: chain_ok_def)
      then show ?thesis using ids thumbs [unfolded other(1)] unfolding other(1) by (auto simp: prev [unfolded other(1)])
    qed
  qed
  ultimately show ?thesis by (auto simp: chain_ok_def)
qed

end
