(* ===== verification/Feedback_Steps.thy ===== *)
theory Feedback_Steps
  imports Feedback_Chain
begin

text \<open>
  The service's steps on the table of feedback: a submission, a review of one or many, a projection,
  and anything else in the service, which leaves the table as it is. Every step keeps \<open>votes_ok\<close>; while
  a voter's approved votes on a target fit in the page the service reads, it keeps \<open>chain_ok\<close>.
\<close>

subsection \<open>What never changes\<close>

definition final :: "Feedback \<Rightarrow> Feedback \<Rightarrow> bool" where
  "final r r' \<longleftrightarrow> (\<not> waits r \<longrightarrow> fb_review r' = fb_review r) \<and>
     (\<forall>p. fb_projection r = Some p \<longrightarrow> fb_projection r' = Some p)"

definition later_table :: "Feedback list \<Rightarrow> Feedback list \<Rightarrow> bool" where
  "later_table F F' \<longleftrightarrow> (\<exists>g G. F' = map g F @ G \<and> same_votes g \<and> (\<forall>r \<in> set F. final r (g r)))"

lemma later_map: "same_votes g \<Longrightarrow> (\<And>r. r \<in> set F \<Longrightarrow> final r (g r)) \<Longrightarrow> later_table F (map g F)"
  unfolding later_table_def by (intro exI [of _ g] exI [of _ "[]"]) simp

lemma later_add: "same_votes g \<Longrightarrow> (\<And>r. r \<in> set F \<Longrightarrow> final r (g r)) \<Longrightarrow> later_table F (map g F @ G)"
  unfolding later_table_def by blast

lemma later_refl [simp]: "later_table F F"
  using later_map [of "\<lambda>r. r" F] by (simp add: same_votes_def final_def)

lemma final_approved: "final r r' \<Longrightarrow> in_state RS_APPROVED r \<Longrightarrow> in_state RS_APPROVED r'"
  using in_state_one [of RS_APPROVED r RS_PENDING] by (auto simp: final_def in_state_def)

lemma final_trans: "final r r' \<Longrightarrow> final r' r'' \<Longrightarrow> final r r''"
  unfolding final_def in_state_def by auto

lemma same_vote_trans: "same_vote r r' \<Longrightarrow> same_vote r' r'' \<Longrightarrow> same_vote r r''"
proof -
  assume "same_vote r r'" and "same_vote r' r''"
  then obtain v p v' p' where "r' = r\<lparr> fb_review := v, fb_projection := p \<rparr>" "r'' = r'\<lparr> fb_review := v', fb_projection := p' \<rparr>"
    unfolding same_vote_def by blast
  then have "r'' = r\<lparr> fb_review := v', fb_projection := p' \<rparr>" by simp
  then show ?thesis unfolding same_vote_def by blast
qed

lemma later_trans:
  assumes "later_table F F'" and "later_table F' F''"
  shows "later_table F F''"
proof -
  obtain g G where g: "F' = map g F @ G" "same_votes g" "\<forall>r \<in> set F. final r (g r)"
    using assms(1) unfolding later_table_def by blast
  obtain h H where h: "F'' = map h F' @ H" "same_votes h" "\<forall>r \<in> set F'. final r (h r)"
    using assms(2) unfolding later_table_def by blast
  have "F'' = map (h \<circ> g) F @ (map h G @ H)" using g h by simp
  moreover have "same_votes (h \<circ> g)"
    unfolding same_votes_def comp_def using same_vote_trans [OF same_votesD [OF g(2)] same_votesD [OF h(2)]] by blast
  moreover have "\<forall>r \<in> set F. final r ((h \<circ> g) r)" using g h final_trans by auto
  ultimately show ?thesis unfolding later_table_def by blast
qed

lemma later_within:
  assumes "later_table F F'" and "votes_within F'"
  shows "votes_within F"
  unfolding votes_within_def
proof
  fix b
  obtain g G where g: "F' = map g F @ G" "same_votes g" "\<forall>r \<in> set F. final r (g r)"
    using assms(1) unfolding later_table_def by blast
  let ?P = "\<lambda>r. ballot r = b \<and> in_state RS_APPROVED r \<and> voted r"
  have "length (filter ?P F) \<le> length (filter (\<lambda>r. ?P (g r)) F)"
    by (rule length_filter_mono) (use g(2,3) final_approved same_voteE [OF same_votesD [OF g(2)]] in auto)
  also have "\<dots> = length (filter ?P (map g F))" by (simp add: filter_map comp_def)
  also have "\<dots> \<le> length (filter ?P F')" by (simp add: g(1))
  finally show "length (filter ?P F) \<le> APPLIED_VOTES"
    using assms(2) unfolding votes_within_def by (meson le_trans)
qed

text \<open>A record is found again under its id.\<close>

lemma later_same_id:
  assumes "later_table F F'" and "r \<in> set F"
  shows "\<exists>r' \<in> set F'. same_vote r r' \<and> final r r'"
  using assms unfolding later_table_def by (auto dest: same_votesD)

subsection \<open>Steps\<close>

inductive feedback_step :: "feedback_world \<Rightarrow> feedback_world \<Rightarrow> bool" where
  submitted: "submit env ctx r trusted vouched w = Inr (out, w') \<Longrightarrow>
    \<forall>s \<in> set (fw_feedback w). fb_created_at s < fe_now env \<Longrightarrow> feedback_step w w'"
| reviewed: "review env t i approve who note w = Inr (out, w') \<Longrightarrow> feedback_step w w'"
| reviewed_many: "review_many env t what approve who note w = Inr (out, w') \<Longrightarrow> feedback_step w w'"
| projected: "project env t i tries w = Inr (out, w') \<Longrightarrow> feedback_step w w'"
| elsewhere: "fw_feedback w' = fw_feedback w \<Longrightarrow> feedback_step w w'"

inductive feedback_run :: "feedback_world \<Rightarrow> bool" where
  start: "fw_feedback w = [] \<Longrightarrow> feedback_run w"
| more: "feedback_run w \<Longrightarrow> feedback_step w w' \<Longrightarrow> feedback_run w'"

text \<open>What a step does to the table: it keeps the invariants and the final decisions.\<close>

definition keeps_table :: "Feedback list \<Rightarrow> Feedback list \<Rightarrow> bool" where
  "keeps_table F F' \<longleftrightarrow> later_table F F' \<and> votes_ok F' \<and>
     (votes_within F' \<longrightarrow> chain_ok (approved_votes F) \<longrightarrow> chain_ok (approved_votes F'))"

lemma keeps_refl [simp]: "votes_ok F \<Longrightarrow> keeps_table F F"
  by (simp add: keeps_table_def)

lemma keeps_trans: "keeps_table F F' \<Longrightarrow> keeps_table F' F'' \<Longrightarrow> keeps_table F F''"
  unfolding keeps_table_def using later_trans later_within by blast

subsection \<open>Submitting\<close>

lemma one_waits:
  assumes ok: "votes_ok F" and v: "voter_key (fb_user v) (fb_agent v) \<noteq> None"
  shows "pending_on F (fb_tenant v) (fb_kind v) (fb_target v) (Some (fb_user v, fb_agent v)) PENDING_READ =
    sort_key stamp (filter (\<lambda>r. ballot r = ballot v \<and> waits r \<and> voted r) F)" (is "_ = sort_key stamp ?W")
proof -
  have same: "x = y" if "x \<in> set ?W" "y \<in> set ?W" for x y
  proof -
    have xy: "x \<in> set F" "y \<in> set F" "ballot x = ballot y" "waits x" "waits y" "cast_vote x" "cast_vote y"
      using that ok v by (auto simp: votes_ok_def voted_is_vote cast_same [of _ v])
    moreover have "fb_review x \<noteq> None" "fb_review y \<noteq> None" using xy in_state_reviewed by blast+
    ultimately have "\<not> fb_created_at x < fb_created_at y" "\<not> fb_created_at y < fb_created_at x"
      using ok unfolding votes_ok_def only_last_waits_def by metis+
    then show "x = y" using in_order_distinct [of F x y] ok xy(1,2) by (auto simp: votes_ok_def)
  qed
  have "distinct F" using ok by (auto simp: votes_ok_def ids_def distinct_map)
  then have "distinct ?W" by simp
  then have "length ?W = card (set ?W)" by (rule distinct_card [symmetric])
  also have "\<dots> \<le> 1" using same by (cases ?W) (auto simp: card_le_Suc0_iff_eq)
  finally have "length (sort_key stamp ?W) \<le> PENDING_READ" by (simp add: PENDING_READ_def)
  moreover have "filter (\<lambda>r. on_target (fb_tenant v) (fb_kind v) (fb_target v) r \<and> waits r \<and>
      by_voter (fb_user v) (fb_agent v) r \<and> voted r) F = ?W"
    by (rule filter_cong) (auto simp: same_ballot)
  ultimately show ?thesis by (simp add: pending_on_def)
qed

lemma replace_earlier_map:
  assumes ok: "votes_ok F" and v: "voter_key (fb_user v) (fb_agent v) \<noteq> None"
  shows "replace_earlier_votes v who F = map (\<lambda>r. if ballot r = ballot v \<and> waits r \<and> cast_vote r
    then replaced_vote (fb_created_at v) who r else r) F"
proof -
  have dist: "distinct (ids F)" using ok by (simp add: votes_ok_def)
  have "replace_earlier_votes v who F = map (\<lambda>r. if (\<exists>f \<in> set F. (ballot f = ballot v \<and> waits f \<and> voted f) \<and>
      has_id (fb_tenant v) (fb_id f) r) \<and> waits r then replaced_vote (fb_created_at v) who r else r) F"
    unfolding replace_earlier_votes_def one_waits [OF ok v] fold_replace_vote [OF dist] by (rule map_cong) auto
  also have "\<dots> = map (\<lambda>r. if ballot r = ballot v \<and> waits r \<and> cast_vote r
    then replaced_vote (fb_created_at v) who r else r) F"
  proof (rule map_cong [OF refl])
    fix r assume r: "r \<in> set F"
    have "voted f = cast_vote f" if "f \<in> set F" "ballot f = ballot v" for f
      using that ok v by (simp add: votes_ok_def voted_is_vote cast_same [of f v])
    moreover have "f = r" if "f \<in> set F" "ballot f = ballot v" "has_id (fb_tenant v) (fb_id f) r" for f
      using id_unique [OF dist that(1), of r] that r by (auto simp: ballot_def has_id_def)
    moreover have "has_id (fb_tenant v) (fb_id r) r" if "ballot r = ballot v" using that by (auto simp: ballot_def has_id_def)
    ultimately show "(if (\<exists>f \<in> set F. (ballot f = ballot v \<and> waits f \<and> voted f) \<and> has_id (fb_tenant v) (fb_id f) r) \<and> waits r
        then replaced_vote (fb_created_at v) who r else r) =
      (if ballot r = ballot v \<and> waits r \<and> cast_vote r then replaced_vote (fb_created_at v) who r else r)"
      using r by metis
  qed
  finally show ?thesis .
qed

lemma replace_keeps:
  fixes who :: string
  assumes ok: "votes_ok F" and v: "voter_key (fb_user v) (fb_agent v) \<noteq> None"
  defines "g \<equiv> \<lambda>r. if ballot r = ballot v \<and> waits r \<and> cast_vote r then replaced_vote (fb_created_at v) who r else r"
  shows "replace_earlier_votes v who F = map g F" and "same_votes g" and "votes_ok (map g F)"
    and "\<And>r. r \<in> set F \<Longrightarrow> final r (g r)" and "approved_votes (map g F) = approved_votes F"
    and "\<forall>r \<in> set (map g F). ballot r = ballot v \<longrightarrow> cast_vote r \<longrightarrow> \<not> waits r"
proof -
  show "replace_earlier_votes v who F = map g F" unfolding g_def by (rule replace_earlier_map [OF ok v])
  show same: "same_votes g" by (simp add: g_def same_votes_def replaced_vote_same)
  have waits_in: "waits (g r) \<Longrightarrow> waits r" for r by (auto simp: g_def split: if_splits)
  show fin: "final r (g r)" if "r \<in> set F" for r
    using that ok by (auto simp: final_def g_def votes_ok_def record_ok_def)
  show "votes_ok (map g F)"
  proof (rule votes_ok_map [OF ok same])
    fix r assume "r \<in> set F"
    then have "record_ok r" using ok by (simp add: votes_ok_def)
    then show "record_ok (g r)"
      by (auto simp: g_def record_ok_def same_voteE [OF replaced_vote_same]) (auto simp: replaced_vote_def)
    show "fb_review r \<noteq> None" if "fb_review (g r) \<noteq> None"
      using that in_state_reviewed by (auto simp: g_def split: if_splits)
  qed (rule waits_in)
  show "approved_votes (map g F) = approved_votes F"
    by (rule approved_votes_map) (auto simp: g_def approved_vote_def dest: in_state_one)
  show "\<forall>r \<in> set (map g F). ballot r = ballot v \<longrightarrow> cast_vote r \<longrightarrow> \<not> waits r"
    by (auto simp: g_def same_voteE [OF replaced_vote_same])
qed

lemma enqueue_table [simp]: "fw_feedback (fb_enqueue env spec w) = fw_feedback w"
  "fw_feedback (schedule env r n w) = fw_feedback w"
  by (simp_all add: fb_enqueue_def schedule_def)

text \<open>A record as a submission stores it, added after the voter's waiting votes were replaced.\<close>

lemma keeps_add:
  assumes ok: "votes_ok F" and g: "same_votes g" "votes_ok (map g F)" "\<And>r. r \<in> set F \<Longrightarrow> final r (g r)"
      "approved_votes (map g F) = approved_votes F"
    and s: "fb_get F (fb_tenant s) (fb_id s) = None" "\<forall>r \<in> set F. fb_created_at r < fb_created_at s" "record_ok s"
      "\<not> in_state RS_APPROVED s"
    and alone: "fb_review s \<noteq> None \<Longrightarrow> cast_vote s \<Longrightarrow> \<forall>r \<in> set (map g F). ballot r = ballot s \<longrightarrow> cast_vote r \<longrightarrow> \<not> waits r"
  shows "keeps_table F (map g F @ [s])"
  unfolding keeps_table_def
proof (intro conjI impI)
  show "later_table F (map g F @ [s])" using later_add g(1,3) by blast
  show "votes_ok (map g F @ [s])"
  proof (rule votes_ok_add [OF g(2) _ _ s(3) alone])
    show "fb_get (map g F) (fb_tenant s) (fb_id s) = None" using s(1) by (simp add: fb_get_None ids_map [OF g(1)])
    show "\<forall>r \<in> set (map g F). fb_created_at r < fb_created_at s"
      using s(2) by (simp add: same_voteE [OF same_votesD [OF g(1)]])
  qed
  assume "chain_ok (approved_votes F)"
  then show "chain_ok (approved_votes (map g F @ [s]))"
    using g(4) s(4) by (simp add: approved_votes_def approved_vote_def)
qed

lemma stored_fields:
  "fb_id (record_to_store now ctx r tr vo) = fb_id r" "fb_tenant (record_to_store now ctx r tr vo) = fb_tenant r"
  "fb_created_at (record_to_store now ctx r tr vo) = now" "fb_projection (record_to_store now ctx r tr vo) = None"
  "fb_review (record_to_store now ctx r tr vo) = None" "\<exists>b. fb_vote (record_to_store now ctx r tr vo) = Some b"
  "fb_user (record_to_store now ctx r tr vo) = por (fb_user r) (ctx_user_id ctx)"
  "fb_agent (record_to_store now ctx r tr vo) = por (fb_agent r) (ctx_agent_id ctx)"
  by (simp_all add: record_to_store_def Let_def)

lemma admit_tenant: "admit env ctx r w = Inr u \<Longrightarrow> fb_tenant r = ctx_tenant_id ctx"
  by (auto simp: admit_def claims_other_def split: if_splits)

text \<open>What a submission that stores something comes to.\<close>

lemma submit_cases:
  assumes "submit env ctx r tr vo w = Inr (out, w')"
  obtains (seen) "w' = w" "fst out \<in> set (fw_feedback w)" "\<not> snd out"
  | (stored) s0 s1 s2 F where "fb_get (fw_feedback w) (fb_tenant r) (fb_id r) = None" "out = (s2, True)"
      "s0 = record_to_store (fe_now env) ctx r tr vo"
      "s1 = (if needs_review env ctx s0 tr vo then s0\<lparr> fb_review := Some pending_review \<rparr> else s0)"
      "(s2, F) = (if waits s1 \<and> cast_vote s1 then count_once s1 (fw_feedback w) else (s1, fw_feedback w))"
      "fw_feedback w' = fb_add s2 F"
      "w' = (if fb_review s2 = None then schedule env s2 0 (w\<lparr> fw_feedback := fb_add s2 F \<rparr>) else w\<lparr> fw_feedback := fb_add s2 F \<rparr>)"
proof -
  have adm: "admit env ctx r w = Inr ()" and t: "fb_tenant r = ctx_tenant_id ctx"
    using assms admit_tenant by (auto simp: submit_def rbind_Inr)
  show thesis
  proof (cases "fb_get (fw_feedback w) (ctx_tenant_id ctx) (fb_id r)")
    case (Some e)
    then show thesis using assms seen fb_get_Some [OF Some] by (auto simp: submit_def adm)
  next
    case None
    define s0 where "s0 = record_to_store (fe_now env) ctx r tr vo"
    define s1 where "s1 = (if needs_review env ctx s0 tr vo then s0\<lparr> fb_review := Some pending_review \<rparr> else s0)"
    have "fb_user s1 = por (fb_user r) (ctx_user_id ctx)" "fb_agent s1 = por (fb_agent r) (ctx_agent_id ctx)"
      by (simp_all add: s1_def s0_def stored_fields)
    then have cast: "(waits s1 \<and> voter_key (por (fb_user r) (ctx_user_id ctx)) (por (fb_agent r) (ctx_agent_id ctx)) \<noteq> None \<and>
        is_vote s1) = (waits s1 \<and> cast_vote s1)"
      by (auto simp: cast_vote_def)
    obtain s2 F where s2: "(if waits s1 \<and> cast_vote s1 then count_once s1 (fw_feedback w) else (s1, fw_feedback w)) = (s2, F)"
      by fastforce
    have "submit env ctx r tr vo w = Inr ((s2, True), if fb_review s2 = None then schedule env s2 0 (w\<lparr> fw_feedback := fb_add s2 F \<rparr>)
        else w\<lparr> fw_feedback := fb_add s2 F \<rparr>)"
      unfolding submit_def adm rbind_simps None option.case Let_def s0_def [symmetric] s1_def [symmetric] cast s2 by simp
    then show thesis using assms None t s2 by (intro stored [OF _ _ s0_def s1_def]) auto
  qed
qed

lemma submit_keeps:
  assumes run: "submit env ctx r tr vo w = Inr (out, w')" and ok: "votes_ok (fw_feedback w)"
    and clock: "\<forall>s \<in> set (fw_feedback w). fb_created_at s < fe_now env"
  shows "keeps_table (fw_feedback w) (fw_feedback w')"
  using run
proof (cases rule: submit_cases)
  case seen
  then show ?thesis using ok by simp
next
  case (stored s0 s1 s2 F)
  let ?F = "fw_feedback w"
  have s1: "fb_id s1 = fb_id r" "fb_tenant s1 = fb_tenant r" "fb_created_at s1 = fe_now env" "fb_projection s1 = None"
    "fb_vote s1 \<noteq> None" "fb_review s1 = None \<or> fb_review s1 = Some pending_review"
    by (auto simp: stored(3,4) stored_fields)
  have new: "fb_get ?F (fb_tenant s1) (fb_id s1) = None" using stored(1) s1 by simp
  have state: "in_state st s1 \<longleftrightarrow> fb_review s1 \<noteq> None \<and> st = RS_PENDING" for st
    using s1(6) by (auto simp: in_state_def pending_review_def)
  have ok1: "record_ok s1" "\<not> in_state RS_APPROVED s1" using s1 state by (auto simp: record_ok_def)
  have id: "same_votes (\<lambda>r. r)" "\<And>r. final r r" by (auto simp: same_votes_def final_def)
  show ?thesis
  proof (cases "waits s1 \<and> cast_vote s1")
    case False
    then have "s2 = s1" "F = ?F" using stored(5) by auto
    then have "fw_feedback w' = map (\<lambda>r. r) ?F @ [s1]"
      using stored(6) new by (simp add: fb_add_def fb_get_def find_None_iff list_ex_iff)
    moreover have "keeps_table ?F (map (\<lambda>r. r) ?F @ [s1])"
      using ok id new clock s1(3) ok1 False state by (intro keeps_add) auto
    ultimately show ?thesis by simp
  next
    case True
    then have v: "voter_key (fb_user s1) (fb_agent s1) \<noteq> None" by (simp add: cast_vote_def)
    have "\<exists>who. F = replace_earlier_votes s1 who ?F \<and> (s2 = s1 \<or>
        s2 = s1\<lparr> fb_review := Some (dismissal (fb_created_at s1) ALREADY_COUNTED_REASON who),
                 fb_projection := Some (unprojected ALREADY_COUNTED_REASON (fb_created_at s1)) \<rparr>)"
      using stored(5) True by (auto simp: count_once_def split: option.splits if_splits)
    then obtain who where F: "F = replace_earlier_votes s1 who ?F" and s2: "s2 = s1 \<or>
        s2 = s1\<lparr> fb_review := Some (dismissal (fb_created_at s1) ALREADY_COUNTED_REASON who),
                 fb_projection := Some (unprojected ALREADY_COUNTED_REASON (fb_created_at s1)) \<rparr>" by blast
    note rep = replace_keeps [where who = who, OF ok v]
    have same: "same_vote s1 s2" using s2 by (elim disjE) (simp, simp add: same_vote_def, blast)
    note s2f = same_voteE [OF same]
    have ok2: "record_ok s2" "\<not> in_state RS_APPROVED s2"
      using s2 ok1 by (auto simp: record_ok_def in_state_def dismissal_def)
    have "fb_get F (fb_tenant s2) (fb_id s2) = None"
      using new unfolding F rep(1) fb_get_None ids_map [OF rep(2)] s2f .
    then have "fw_feedback w' = F @ [s2]"
      using stored(6) by (simp add: fb_add_def fb_get_def find_None_iff list_ex_iff)
    moreover have "keeps_table ?F (F @ [s2])"
      unfolding F rep(1)
    proof (rule keeps_add [OF ok rep(2-5)])
      show "fb_get ?F (fb_tenant s2) (fb_id s2) = None" using new by (simp only: s2f)
      show "\<forall>r \<in> set ?F. fb_created_at r < fb_created_at s2" using clock by (simp only: s2f s1(3))
      show "record_ok s2" and "\<not> in_state RS_APPROVED s2" by (fact ok2)+
      show "\<forall>r \<in> set (map (\<lambda>r. if ballot r = ballot s1 \<and> waits r \<and> cast_vote r
          then replaced_vote (fb_created_at s1) who r else r) ?F). ballot r = ballot s2 \<longrightarrow> cast_vote r \<longrightarrow> \<not> waits r"
        using rep(6) by (simp only: s2f)
    qed
    ultimately show ?thesis by simp
  qed
qed

subsection \<open>Reviewing\<close>

lemma same_vote_both: "same_vote f (f\<lparr> fb_review := v, fb_projection := p \<rparr>)"
  unfolding same_vote_def by (intro exI [of _ v] exI [of _ p]) simp

lemma decide_keeps:
  assumes ok: "votes_ok (fw_feedback w)" and q: "q \<in> set (fw_feedback w)" "waits q"
    and run: "decide env q approve who note w = (q', w')"
  shows "keeps_table (fw_feedback w) (fw_feedback w')"
    and "\<exists>v p. fw_feedback w' = map (\<lambda>r. if has_id (fb_tenant q) (fb_id q) r
           then r\<lparr> fb_review := v, fb_projection := p \<rparr> else r) (fw_feedback w)"
proof -
  let ?F = "fw_feedback w"
  let ?v = "\<lparr> rv_state = (if approve then RS_APPROVED else RS_DISMISSED), rv_reviewed_by = Some who,
    rv_reviewed_at = Some (fe_now env), rv_note = note, rv_replaced_by = None \<rparr>"
  let ?p = "if approve then None else Some (unprojected ''dismissed in review'' (fe_now env))"
  let ?h = "\<lambda>r. r\<lparr> fb_review := Some ?v, fb_projection := ?p \<rparr>"
  let ?g = "\<lambda>r. if has_id (fb_tenant q) (fb_id q) r then ?h r else r"
  have dist: "distinct (ids ?F)" using ok by (simp add: votes_ok_def)
  have only: "r = q" if "r \<in> set ?F" "has_id (fb_tenant q) (fb_id q) r" for r
    using id_unique [OF dist that q(1)] .
  have none: "fb_projection q = None" using ok q by (simp add: votes_ok_def record_ok_def)
  have set_approved: "fb_set_review (fb_tenant q) (fb_id q) ?v ?F = map ?g ?F" if approve
    unfolding fb_set_review_def
  proof (rule map_cong [OF refl])
    fix r assume r: "r \<in> set ?F"
    show "(if has_id (fb_tenant q) (fb_id q) r then r\<lparr> fb_review := Some ?v \<rparr> else r) = ?g r"
    proof (cases "has_id (fb_tenant q) (fb_id q) r")
      case h: True
      then have "fb_projection r = None" using only [OF r] none by simp
      then have "r\<lparr> fb_review := Some ?v, fb_projection := None \<rparr> = r\<lparr> fb_review := Some ?v \<rparr>" by (rule review_only)
      then show ?thesis using h that by simp
    qed simp
  qed
  have F': "fw_feedback w' = map ?g ?F"
  proof (cases approve)
    case True
    then show ?thesis using run set_approved by (auto simp: decide_def Let_def)
  next
    case False
    then show ?thesis using run
      by (auto simp: decide_def Let_def fb_set_review_def fb_set_projection_def has_id_def)
  qed
  then show "\<exists>v p. fw_feedback w' = map (\<lambda>r. if has_id (fb_tenant q) (fb_id q) r
      then r\<lparr> fb_review := v, fb_projection := p \<rparr> else r) ?F" by (intro exI)
  have same: "same_votes ?g" by (simp add: same_votes_def same_vote_both)
  have st: "in_state st (?h r) \<longleftrightarrow> st = (if approve then RS_APPROVED else RS_DISMISSED)" for st r
    by (auto simp: in_state_def)
  have "votes_ok (map ?g ?F)"
  proof (rule votes_ok_map [OF ok same])
    fix r assume r: "r \<in> set ?F"
    then have "record_ok r" using ok by (simp add: votes_ok_def)
    then show "record_ok (?g r)" by (auto simp: record_ok_def st)
    show "waits r" if "waits (?g r)" using that by (auto simp: st split: if_splits)
    show "fb_review r \<noteq> None" if "fb_review (?g r) \<noteq> None"
      using that only [OF r] in_state_reviewed [OF q(2)] by (auto split: if_splits)
  qed
  moreover have "later_table ?F (map ?g ?F)"
  proof (rule later_map [OF same])
    fix r assume r: "r \<in> set ?F"
    show "final r (?g r)"
    proof (cases "has_id (fb_tenant q) (fb_id q) r")
      case True
      then show ?thesis using only [OF r True] q(2) none by (simp add: final_def)
    qed (simp add: final_def)
  qed
  moreover have "chain_ok (approved_votes (map ?g ?F))" if chain: "chain_ok (approved_votes ?F)"
  proof (cases approve)
    case True
    then show ?thesis using chain_approve [OF ok chain q, of ?v] set_approved [OF True] by simp
  next
    case False
    have "approved_votes (map ?g ?F) = approved_votes ?F"
      by (rule approved_votes_map) (use False only q(2) st in \<open>auto simp: approved_vote_def dest: in_state_one\<close>)
    then show ?thesis using chain by simp
  qed
  ultimately show "keeps_table ?F (fw_feedback w')" by (simp add: keeps_table_def F')
qed

lemma decide_all_keeps:
  assumes "votes_ok (fw_feedback w)" and "set rs \<subseteq> set (fw_feedback w)" and "distinct (ids rs)"
    and "decide_all env approve who note rs w = (out, w')"
  shows "keeps_table (fw_feedback w) (fw_feedback w')"
  using assms
proof (induction rs arbitrary: w out)
  case (Cons q rs)
  let ?F = "fw_feedback w"
  show ?case
  proof (cases "waits q")
    case False
    then show ?thesis
      using Cons.prems by (intro Cons.IH [of w "(fst out, tl (snd out))"]) (auto simp: ids_def split: prod.splits)
  next
    case True
    obtain q' w1 where d: "decide env q approve who note w = (q', w1)" by fastforce
    obtain o1 where rest: "decide_all env approve who note rs w1 = (o1, w')"
      using Cons.prems(4) True d by (auto split: prod.splits)
    have q: "q \<in> set ?F" using Cons.prems(2) by simp
    have keeps: "keeps_table ?F (fw_feedback w1)" by (rule decide_keeps(1) [OF Cons.prems(1) q True d])
    obtain v p where F1: "fw_feedback w1 = map (\<lambda>r. if has_id (fb_tenant q) (fb_id q) r
        then r\<lparr> fb_review := v, fb_projection := p \<rparr> else r) ?F"
      using decide_keeps(2) [OF Cons.prems(1) q True d] by (elim exE)
    have "x \<in> set (fw_feedback w1)" if x: "x \<in> set rs" for x
    proof -
      have "\<not> has_id (fb_tenant q) (fb_id q) x" using Cons.prems(3) x by (auto simp: ids_def has_id_def image_iff)
      moreover have "x \<in> set ?F" using Cons.prems(2) x by auto
      ultimately show ?thesis unfolding F1 by (force simp: image_iff)
    qed
    then have sub: "set rs \<subseteq> set (fw_feedback w1)" by blast
    have "votes_ok (fw_feedback w1)" using keeps by (simp add: keeps_table_def)
    moreover have "distinct (ids rs)" using Cons.prems(3) by (simp add: ids_def)
    ultimately have "keeps_table (fw_feedback w1) (fw_feedback w')" using sub rest by (intro Cons.IH)
    then show ?thesis using keeps keeps_trans by blast
  qed
qed simp

lemma review_keeps:
  assumes "review env t i approve who note w = Inr (out, w')" and "votes_ok (fw_feedback w)"
  shows "keeps_table (fw_feedback w) (fw_feedback w')"
proof -
  obtain q where "fb_get (fw_feedback w) t i = Some q" "waits q" "decide env q approve who note w = (out, w')"
    using assms(1) by (auto simp: review_def split: option.splits if_splits)
  then show ?thesis using decide_keeps(1) [OF assms(2)] fb_get_Some by blast
qed

lemma pending_on_ids:
  assumes "distinct (ids F)"
  shows "distinct (map fb_id (pending_on F t kind target vo most))"
proof -
  let ?P = "\<lambda>r. on_target t kind target r \<and> waits r \<and> (case vo of None \<Rightarrow> True | Some (u, a) \<Rightarrow> by_voter u a r \<and> voted r)"
  have "distinct F" "inj_on (\<lambda>r. (fb_tenant r, fb_id r)) (set F)" using assms by (simp_all add: ids_def distinct_map)
  then have "distinct (sort_key stamp (filter ?P F))" "inj_on fb_id (set (filter ?P F))"
    by (auto simp: inj_on_def on_target_def)
  then have "distinct (map fb_id (sort_key stamp (filter ?P F)))" by (simp add: distinct_map)
  then show ?thesis unfolding pending_on_def take_map [symmetric] by (rule distinct_take)
qed

lemma read_ids:
  assumes "distinct is" and "None \<notin> set (map (fb_get F t) is)"
  shows "set (map the (map (fb_get F t) is)) \<subseteq> set F" and "distinct (ids (map the (map (fb_get F t) is)))"
proof -
  have got: "the (fb_get F t i) \<in> set F \<and> fb_tenant (the (fb_get F t i)) = t \<and> fb_id (the (fb_get F t i)) = i"
    if "i \<in> set is" for i
    using that assms(2) fb_get_Some [of F t i] by (cases "fb_get F t i") (auto simp: image_iff)
  then show "set (map the (map (fb_get F t) is)) \<subseteq> set F" by auto
  have "ids (map the (map (fb_get F t) is)) = map (Pair t) is" using got by (simp add: ids_def)
  then show "distinct (ids (map the (map (fb_get F t) is)))" using assms(1) by (simp add: distinct_map inj_on_def)
qed

lemma review_many_keeps:
  assumes run: "review_many env t what approve who note w = Inr (out, w')" and ok: "votes_ok (fw_feedback w)"
  shows "keeps_table (fw_feedback w) (fw_feedback w')"
proof -
  let ?F = "fw_feedback w"
  have dist: "distinct (ids ?F)" using ok by (simp add: votes_ok_def)
  obtain "is" more where chosen: "(case what of
         BY_IDS given \<Rightarrow>
           (let ids = fromkeys given in
            if ids = [] \<or> BULK_REVIEW_MAX < length ids then Inl ValidationFailed else Inr (ids, False))
       | BY_TARGET kind target \<Rightarrow>
           (let found = pending_on ?F t kind target None (BULK_REVIEW_MAX + 1)
            in Inr (map fb_id (take BULK_REVIEW_MAX found), BULK_REVIEW_MAX < length found))) = Inr (is, more)"
      and rest: "(let found = map (fb_get ?F t) is in
         if None \<in> set found then Inl NotFound
         else (case decide_all env approve who note (map the found) w of ((decided, unchanged), w1) \<Rightarrow>
                 Inr ((decided, unchanged, more), w1))) = Inr (out, w')"
    using run by (auto simp only: review_many_def rbind_Inr prod.case)
  have "distinct is"
  proof (cases what)
    case (BY_IDS given)
    then show ?thesis using chosen by (auto simp: Let_def split: if_splits)
  next
    case (BY_TARGET kind target)
    then have "is = take BULK_REVIEW_MAX (map fb_id (pending_on ?F t kind target None (BULK_REVIEW_MAX + 1)))"
      using chosen by (auto simp: Let_def take_map)
    then show ?thesis using pending_on_ids [OF dist] by (simp add: distinct_take)
  qed
  moreover from rest have none: "None \<notin> set (map (fb_get ?F t) is)" by (auto simp: Let_def split: if_splits)
  moreover obtain o1 where "decide_all env approve who note (map the (map (fb_get ?F t) is)) w = (o1, w')"
    using rest none by (auto simp only: Let_def if_False split: prod.splits)
  ultimately have i: "distinct is" "None \<notin> set (map (fb_get ?F t) is)"
      "decide_all env approve who note (map the (map (fb_get ?F t) is)) w = (o1, w')" by blast+
  show ?thesis by (rule decide_all_keeps [OF ok read_ids [OF i(1,2)] i(3)])
qed

end
