(* ===== verification/Feedback_Run.thy ===== *)
theory Feedback_Run
  imports Feedback_Steps
begin

text \<open>
  The projection as a step of the table, and the runs of the service: submissions, reviews and
  projections in any order, with anything else in the service between them.
\<close>

subsection \<open>What a projection leaves alone\<close>

lemma reindex_table [simp]: "fw_feedback (reindex env ms w) = fw_feedback w"
  by (simp add: reindex_def Let_def)

lemma bump_tenant_table [simp]: "fw_feedback (bump_tenant t w) = fw_feedback w"
  by (simp add: bump_tenant_def)

lemma fold_enqueue_table: "fw_feedback (fold (\<lambda>t. fb_enqueue env (f t)) ts w) = fw_feedback w"
  by (induction ts arbitrary: w) simp_all

lemma commit_table [simp]: "fw_feedback (commit_dependents env w) = fw_feedback w"
  by (simp add: commit_dependents_def Let_def fold_enqueue_table)

lemma on_memory_table: "on_memory f w = Inr w' \<Longrightarrow> fw_feedback w' = fw_feedback w"
  by (auto simp: on_memory_def rbind_Inr)

lemma adjust_table: "adjust env t mids step n w = Inr (out, w') \<Longrightarrow> fw_feedback w' = fw_feedback w"
  by (auto simp: adjust_def Let_def rbind_Inr dest: on_memory_table split: if_splits)

lemma reinforce_table: "reinforce env m w = Inr (p, w') \<Longrightarrow> fw_feedback w' = fw_feedback w \<and> pj_reversed p = None"
  by (auto simp: reinforce_def Let_def rbind_Inr projected_def dest: on_memory_table)

lemma retract_all_table: "retract_all env m w = Inr (p, w') \<Longrightarrow> fw_feedback w' = fw_feedback w \<and> pj_reversed p = None"
  by (auto simp: retract_all_def Let_def rbind_Inr projected_def dest: on_memory_table)

lemma correct_table: "correct env m r w = Inr (p, w') \<Longrightarrow> fw_feedback w' = fw_feedback w \<and> pj_reversed p = None"
  by (auto simp: correct_def Let_def rbind_Inr projected_def unprojected_def split: if_splits prod.splits)

lemma project_memory_table:
  "project_memory env r w = Inr (p, w') \<Longrightarrow> fw_feedback w' = fw_feedback w \<and> pj_reversed p = None"
  by (auto simp: project_memory_def projected_def unprojected_def split: option.splits if_splits
      dest: reinforce_table retract_all_table correct_table)

lemma label_run_table: "label_run env r s l w = (b, w') \<Longrightarrow> fw_feedback w' = fw_feedback w"
  by (auto simp: label_run_def Let_def set_outcome_def split: if_splits)

lemma project_run_table:
  "project_run env r w = Inr (p, w') \<Longrightarrow> fw_feedback w' = fw_feedback w \<and> pj_reversed p = None"
  by (auto simp: project_run_def Let_def rbind_Inr projected_def unprojected_def adjust_cited_def
      split: if_splits prod.splits dest!: label_run_table adjust_table)

lemma project_tool_table:
  "project_tool env r w = Inr (p, w') \<Longrightarrow> fw_feedback w' = fw_feedback w \<and> pj_reversed p = None"
  by (auto simp: project_tool_def rbind_Inr projected_def)

lemma project_procedure_table:
  "project_procedure env r w = Inr (p, w') \<Longrightarrow> fw_feedback w' = fw_feedback w \<and> pj_reversed p = None"
  by (auto simp: project_procedure_def projected_def unprojected_def split: if_splits prod.splits)

lemma project_target_table:
  assumes "project_target env r w = Inr (p, w')"
  shows "fw_feedback w' = fw_feedback w" and "pj_reversed p = None"
  using assms project_memory_table project_run_table project_tool_table project_procedure_table
  by (auto simp: project_target_def split: TargetKind.splits)

lemma reverse_projection_table:
  "reverse_projection env v p w = Inr w' \<Longrightarrow> fw_feedback w' = fw_feedback w"
  by (auto simp: reverse_projection_def reverse_memory_def lift_retraction_def Let_def rbind_Inr
      split: if_splits option.splits prod.splits dest!: adjust_table on_memory_table)

subsection \<open>A projection that is no vote\<close>

lemma projections_keep:
  assumes ok: "votes_ok F" and same: "same_votes g"
    and only: "\<And>r. r \<in> set F \<Longrightarrow> g r = r \<or> (\<exists>p. g r = r\<lparr> fb_projection := Some p \<rparr>) \<and> fb_projection r = None \<and> \<not> waits r"
  shows "later_table F (map g F)" and "votes_ok (map g F)"
proof -
  have st: "in_state st (g r) = in_state st r" "fb_review (g r) = fb_review r" if "r \<in> set F" for st r
    using only [OF that] by (auto simp: in_state_def)
  show "later_table F (map g F)"
    by (rule later_map [OF same]) (use only in \<open>force simp: final_def\<close>)
  show "votes_ok (map g F)"
  proof (rule votes_ok_map [OF ok same])
    fix r assume r: "r \<in> set F"
    then have "record_ok r" using ok by (simp add: votes_ok_def)
    then show "record_ok (g r)" using only [OF r] st(1) [OF r] by (auto simp: record_ok_def)
    show "waits r" if "waits (g r)" using that st r by simp
    show "fb_review r \<noteq> None" if "fb_review (g r) \<noteq> None" using that st r by simp
  qed
qed

lemma set_projection_keeps:
  assumes ok: "votes_ok F" and q: "q \<in> set F" "fb_projection q = None" "\<not> waits q" "\<not> approved_vote q"
  shows "keeps_table F (fb_set_projection (fb_tenant q) (fb_id q) p F)"
proof -
  let ?g = "\<lambda>r. if has_id (fb_tenant q) (fb_id q) r then r\<lparr> fb_projection := Some p \<rparr> else r"
  have same: "same_votes ?g" by (simp add: same_votes_def)
  have own: "r = q" if "r \<in> set F" "has_id (fb_tenant q) (fb_id q) r" for r
    using ok by (intro id_unique [OF _ that q(1)]) (simp add: votes_ok_def)
  have only: "?g r = r \<or> (\<exists>p. ?g r = r\<lparr> fb_projection := Some p \<rparr>) \<and> fb_projection r = None \<and> \<not> waits r"
    if "r \<in> set F" for r
    using own [OF that] q(2,3) by auto
  have "approved_votes (map ?g F) = approved_votes F"
  proof (rule approved_votes_map)
    fix r assume r: "r \<in> set F"
    show "?g r = r" if "approved_vote r" using own [OF r] that q(4) by auto
    show "\<not> approved_vote (?g r)" if "\<not> approved_vote r"
      using that own [OF r] q(4) same_voteE(7) [OF same_votesD [OF same]] by (auto simp: approved_vote_def in_state_def)
  qed
  with projections_keep [OF ok same only] show ?thesis unfolding keeps_table_def fb_set_projection_def by simp
qed

subsection \<open>A projection of a vote\<close>

lemma earlier_votes_eq:
  assumes ok: "votes_ok F" and few: "votes_within F" and q: "q \<in> set F" "approved_vote q"
  shows "earlier_votes F q = rev (filter (before_vote q) (approved_votes F))"
proof -
  have ord: "in_order F" and dist: "distinct (ids F)" using ok by (simp_all add: votes_ok_def)
  have same: "(fb_id f \<noteq> fb_id q \<and> is_vote f \<and> stamp f \<le> stamp q) \<and> ballot f = ballot q \<and> in_state RS_APPROVED f \<and> voted f \<longleftrightarrow>
      before_vote q f \<and> approved_vote f" if f: "f \<in> set F" for f
  proof (cases "ballot f = ballot q")
    case True
    have vote: "voted f = is_vote f" using ok f by (simp add: votes_ok_def voted_is_vote)
    have "cast_vote f = is_vote f" using cast_same [OF True] q(2) by (simp add: approved_vote_def cast_vote_def)
    moreover have "fb_id f \<noteq> fb_id q \<and> stamp f \<le> stamp q \<longleftrightarrow> fb_created_at f < fb_created_at q"
    proof (cases "f = q")
      case False
      then have "fb_created_at f \<noteq> fb_created_at q" using in_order_distinct [OF ord f q(1)] by blast
      moreover have "fb_id f \<noteq> fb_id q" using id_unique [OF dist f _ q(1)] False True by (auto simp: ballot_def has_id_def)
      ultimately show ?thesis by (auto simp: stamp_def)
    qed simp
    ultimately show ?thesis using True vote by (auto simp: approved_vote_def before_vote_def)
  qed (simp add: before_vote_def)
  have "earlier_votes F q = rev (filter (\<lambda>f. (fb_id f \<noteq> fb_id q \<and> is_vote f \<and> stamp f \<le> stamp q) \<and>
      ballot f = ballot q \<and> in_state RS_APPROVED f \<and> voted f) F)"
    unfolding earlier_votes_def applied_votes_eq [OF ord few] by (simp add: rev_filter conj_ac)
  also have "\<dots> = rev (filter (\<lambda>f. before_vote q f \<and> approved_vote f) F)"
    by (rule arg_cong [where f = rev], rule filter_cong [OF refl]) (rule same)
  finally show ?thesis by (simp add: approved_votes_def conj_commute)
qed

text \<open>The table after a vote's projection, whatever the page of earlier votes held.\<close>

definition settled :: "instant \<Rightarrow> Feedback \<Rightarrow> FeedbackProjection \<Rightarrow> Feedback list \<Rightarrow> Feedback \<Rightarrow> Feedback" where
  "settled now q p rows f =
     (if has_id (fb_tenant q) (fb_id q) f then f\<lparr> fb_projection := Some p \<rparr>
      else if \<exists>g \<in> set rows. fb_projection g = None \<and> has_id (fb_tenant q) (fb_id g) f then closed_vote now f else f)"

lemma settled_same: "same_votes (settled now q p rows)"
  by (simp add: same_votes_def settled_def closed_vote_def)

lemma settled_table: "fb_set_projection (fb_tenant q) (fb_id q) p (snd (settle_earlier now q F)) =
    map (settled now q p (earlier_votes F q)) F"
  unfolding settle_earlier_def Let_def snd_conv fold_set_projection
  unfolding fb_set_projection_def map_map
proof (rule map_cong [OF refl])
  fix f
  have one: "(\<exists>g \<in> set (filter (\<lambda>g. fb_projection g = None) rows). has_id (fb_tenant q) (fb_id g) f) \<longleftrightarrow>
      (\<exists>g \<in> set rows. fb_projection g = None \<and> has_id (fb_tenant q) (fb_id g) f)" for rows by auto
  have id: "has_id (fb_tenant q) (fb_id q) (f\<lparr> fb_projection := x \<rparr>) = has_id (fb_tenant q) (fb_id q) f" for x
    by (simp add: has_id_def)
  show "((\<lambda>r. if has_id (fb_tenant q) (fb_id q) r then r\<lparr> fb_projection := Some p \<rparr> else r) \<circ>
      (\<lambda>r. if \<exists>g \<in> set (filter (\<lambda>g. fb_projection g = None) (earlier_votes F q)). has_id (fb_tenant q) (fb_id g) r
           then r\<lparr> fb_projection := Some (unprojected REPLACED_REASON now) \<rparr> else r)) f =
    settled now q p (earlier_votes F q) f"
    unfolding comp_def one settled_def closed_vote_def by (simp add: id)
qed

lemma earlier_votes_in:
  "f \<in> set (earlier_votes F q) \<Longrightarrow> f \<in> set F \<and> fb_tenant f = fb_tenant q \<and> in_state RS_APPROVED f"
  by (auto simp: earlier_votes_def applied_votes_def on_target_def dest!: subsetD [OF set_fb_page])

lemma settled_keeps:
  assumes ok: "votes_ok F" and q: "q \<in> set F" "fb_projection q = None" "\<not> waits q"
  shows "later_table F (map (settled now q p (earlier_votes F q)) F)" and "votes_ok (map (settled now q p (earlier_votes F q)) F)"
proof -
  have dist: "distinct (ids F)" using ok by (simp add: votes_ok_def)
  have only: "settled now q p (earlier_votes F q) r = r \<or>
      (\<exists>x. settled now q p (earlier_votes F q) r = r\<lparr> fb_projection := Some x \<rparr>) \<and> fb_projection r = None \<and> \<not> waits r"
    if r: "r \<in> set F" for r
  proof -
    have "r = q" if "has_id (fb_tenant q) (fb_id q) r" using id_unique [OF dist r that q(1)] .
    moreover have "r = g \<and> \<not> waits g" if g: "g \<in> set (earlier_votes F q)" "has_id (fb_tenant q) (fb_id g) r" for g
      using id_unique [OF dist r, of g] earlier_votes_in [OF g(1)] g(2) by (auto dest: in_state_one)
    ultimately show ?thesis using q(2,3) by (auto simp: settled_def closed_vote_def)
  qed
  show "later_table F (map (settled now q p (earlier_votes F q)) F)" "votes_ok (map (settled now q p (earlier_votes F q)) F)"
    by (rule projections_keep [OF ok settled_same only], assumption)+
qed

lemma settled_eq:
  assumes ok: "votes_ok F" and few: "votes_within F" and q: "q \<in> set F" "approved_vote q" and f: "f \<in> set F"
  shows "settled now q p (earlier_votes F q) f = (if approved_vote f then projected_vote now q p f else f)"
proof -
  note rows = earlier_votes_eq [OF assms(1-4)]
  have dist: "distinct (ids F)" using ok by (simp add: votes_ok_def)
  have "g = f" if "g \<in> set F" "before_vote q g" "has_id (fb_tenant q) (fb_id g) f" for g
    using id_unique [OF dist that(1), of f] that f by (auto simp: before_vote_def ballot_def has_id_def)
  moreover have "has_id (fb_tenant q) (fb_id f) f" if "before_vote q f"
    using that by (auto simp: before_vote_def ballot_def has_id_def)
  ultimately have "(\<exists>g \<in> set (earlier_votes F q). fb_projection g = None \<and> has_id (fb_tenant q) (fb_id g) f) \<longleftrightarrow>
      approved_vote f \<and> before_vote q f \<and> fb_projection f = None"
    using f unfolding rows approved_votes_def by auto
  moreover have "has_id (fb_tenant q) (fb_id q) f \<longleftrightarrow> f = q"
    using id_unique [OF dist f _ q(1)] by (auto simp: has_id_def)
  ultimately show ?thesis using q(2) by (auto simp: settled_def projected_vote_def)
qed

lemma prior_vote:
  assumes "votes_ok F" and "votes_within F" and "q \<in> set F" and "approved_vote q"
  shows "fst (settle_earlier now q F) = previous (approved_votes F) q"
  by (simp add: settle_earlier_def earlier_votes_eq [OF assms] rev_filter find_filter previous_def before_vote_def)

lemma settled_chain:
  assumes ok: "votes_ok F" and few: "votes_within F" and q: "q \<in> set F" "fb_projection q = None" "approved_vote q"
    and made: "stands (q\<lparr> fb_projection := Some p \<rparr>) \<Longrightarrow> pj_reversed p = map_option fb_id (previous (approved_votes F) q) \<and>
      (\<forall>v. previous (approved_votes F) q = Some v \<longrightarrow> \<not> same_thumb v q)"
    and chain: "chain_ok (approved_votes F)"
  shows "chain_ok (approved_votes (map (settled now q p (earlier_votes F q)) F))"
proof -
  have st: "in_state st (projected_vote now q p f) = in_state st f" for st f
    by (simp add: projected_vote_def closed_vote_def in_state_def)
  then have appr: "approved_vote (projected_vote now q p f) = approved_vote f" for f
    using same_voteE(7) [OF same_votesD [OF projected_vote_same]] by (simp add: approved_vote_def)
  have eq: "map (settled now q p (earlier_votes F q)) F = map (\<lambda>f. if approved_vote f then projected_vote now q p f else f) F"
    by (rule map_cong [OF refl]) (rule settled_eq [OF ok few q(1,3)])
  have "approved_votes (map (\<lambda>f. if approved_vote f then projected_vote now q p f else f) F) =
      map (projected_vote now q p) (approved_votes F)"
    unfolding approved_votes_def by (induction F) (simp_all add: appr)
  moreover have "in_order (approved_votes F)" using ok by (simp add: votes_ok_def approved_votes_def in_order_filter)
  ultimately show ?thesis
    unfolding eq using chain_project [OF chain _ _ q(2), of p now] made q(1,3) by (simp add: approved_votes_def)
qed

subsection \<open>The projection as a step\<close>

lemma reviewed_states: "record_ok r \<Longrightarrow> fb_review r \<noteq> None \<Longrightarrow> fb_projection r = None \<Longrightarrow> \<not> waits r \<Longrightarrow> in_state RS_APPROVED r"
  by (auto simp: record_ok_def in_state_def intro: ReviewState.exhaust)

lemma project_vote_made:
  assumes run: "project_vote env q w = Inr (p, w')" and v: "voter_key (fb_user q) (fb_agent q) \<noteq> None"
    and s: "settle_earlier (fe_now env) q (fw_feedback w) = (prior, F1)"
  shows "fw_feedback w' = F1" and "stands (q\<lparr> fb_projection := Some p \<rparr>) \<Longrightarrow>
      pj_reversed p = map_option fb_id prior \<and> (\<forall>v. prior = Some v \<longrightarrow> \<not> same_thumb v q)"
proof -
  let ?w1 = "w\<lparr> fw_feedback := F1 \<rparr>"
  have "fw_feedback w' = F1 \<and> (stands (q\<lparr> fb_projection := Some p \<rparr>) \<longrightarrow>
      pj_reversed p = map_option fb_id prior \<and> (\<forall>v. prior = Some v \<longrightarrow> \<not> same_thumb v q))"
  proof (cases prior)
    case None
    then have "project_target env q ?w1 = Inr (p, w')" using run v s by (simp add: project_vote_def Let_def)
    from project_target_table [OF this] show ?thesis using None by simp
  next
    case (Some u)
    show ?thesis
    proof (cases "same_thumb u q")
      case True
      then have "p = counted_already (fe_now env) q" "w' = ?w1" using run v s Some by (simp_all add: project_vote_def Let_def)
      then show ?thesis by (simp add: stands_def counted_already_def unprojected_def STOOD_DOWN_def)
    next
      case False
      obtain w2 p3 where "reverse_projection env u (the (fb_projection u)) ?w1 = Inr w2"
          "project_target env q w2 = Inr (p3, w')" "p = p3\<lparr> pj_reversed := Some (fb_id u) \<rparr>"
        using run v s Some False by (auto simp: project_vote_def Let_def rbind_Inr)
      then show ?thesis using reverse_projection_table project_target_table(1) Some False by fastforce
    qed
  qed
  then show "fw_feedback w' = F1" and "stands (q\<lparr> fb_projection := Some p \<rparr>) \<Longrightarrow>
      pj_reversed p = map_option fb_id prior \<and> (\<forall>v. prior = Some v \<longrightarrow> \<not> same_thumb v q)" by blast+
qed

lemma project_vote_keeps:
  assumes ok: "votes_ok (fw_feedback w)" and q: "q \<in> set (fw_feedback w)" "fb_projection q = None" "approved_vote q"
    and run: "project_vote env q w = Inr (p, w')"
  shows "keeps_table (fw_feedback w) (fb_set_projection (fb_tenant q) (fb_id q) p (fw_feedback w'))"
proof -
  let ?F = "fw_feedback w"
  have v: "voter_key (fb_user q) (fb_agent q) \<noteq> None" and state: "\<not> waits q"
    using q(3) by (auto simp: approved_vote_def cast_vote_def dest: in_state_one)
  obtain prior F1 where s: "settle_earlier (fe_now env) q ?F = (prior, F1)" by fastforce
  note made = project_vote_made [OF run v s]
  have F': "fb_set_projection (fb_tenant q) (fb_id q) p (fw_feedback w') = map (settled (fe_now env) q p (earlier_votes ?F q)) ?F"
    using settled_table [of q p "fe_now env" ?F] s made(1) by simp
  note keeps = settled_keeps [OF ok q(1,2) state]
  show ?thesis
    unfolding F' keeps_table_def
  proof (intro conjI impI keeps)
    assume few: "votes_within (map (settled (fe_now env) q p (earlier_votes ?F q)) ?F)" and chain: "chain_ok (approved_votes ?F)"
    have few0: "votes_within ?F" by (rule later_within [OF keeps(1) few])
    have "prior = previous (approved_votes ?F) q" using prior_vote [OF ok few0 q(1,3), of "fe_now env"] s by simp
    then show "chain_ok (approved_votes (map (settled (fe_now env) q p (earlier_votes ?F q)) ?F))"
      using made(2) by (intro settled_chain [OF ok few0 q _ chain]) simp
  qed
qed

lemma project_keeps:
  assumes ok: "votes_ok (fw_feedback w)" and run: "project env t i tries w = Inr (out, w')"
  shows "keeps_table (fw_feedback w) (fw_feedback w')"
proof (cases "fb_get (fw_feedback w) t i")
  case None
  then show ?thesis using run ok by (simp add: project_def)
next
  case (Some q)
  note at = fb_get_Some [OF Some]
  have "record_ok q" using ok at by (simp add: votes_ok_def)
  show ?thesis
  proof (cases "fb_projection q = None \<and> \<not> waits q \<and> \<not> (tries < CALL_RECORD_CHECKS \<and> approves (decision_of q) \<and>
      \<not> backed (fe_stable_hash env) (map fst (fw_calls w)) (decision_of q))")
    case False
    then have "fw_feedback w' = fw_feedback w" using run Some by (auto simp: project_def split: option.splits if_splits)
    then show ?thesis using ok by simp
  next
    case True
    obtain p w1 where p: "(if fb_review q \<noteq> None \<and> is_vote q then project_vote env q w else project_target env q w) = Inr (p, w1)"
      and F': "fw_feedback w' = fb_set_projection (fb_tenant q) (fb_id q) p (fw_feedback w1)"
      using run Some True at by (auto simp: project_def rbind_Inr split: if_splits)
    show ?thesis
    proof (cases "approved_vote q")
      case vote: True
      then have "project_vote env q w = Inr (p, w1)"
        using p in_state_reviewed by (auto simp: approved_vote_def cast_vote_def)
      then show ?thesis using project_vote_keeps [OF ok _ _ vote] at True F' by simp
    next
      case False
      have "fw_feedback w1 = fw_feedback w"
      proof (cases "fb_review q \<noteq> None \<and> is_vote q")
        case vote: True
        then have "voter_key (fb_user q) (fb_agent q) = None"
          using False reviewed_states [OF \<open>record_ok q\<close>] True by (auto simp: approved_vote_def cast_vote_def)
        then show ?thesis using p vote project_target_table(1) by (simp add: project_vote_def)
      qed (use p project_target_table(1) in auto)
      then show ?thesis using F' set_projection_keeps [OF ok _ _ _ False] at True by simp
    qed
  qed
qed

subsection \<open>Every step, every run\<close>

lemma feedback_step_keeps:
  assumes "feedback_step w w'" and "votes_ok (fw_feedback w)"
  shows "keeps_table (fw_feedback w) (fw_feedback w')"
  using assms
proof (cases rule: feedback_step.cases)
  case (submitted env ctx r trusted vouched out)
  then show ?thesis using submit_keeps assms(2) by blast
next
  case (reviewed env t i approve who msg out)
  then show ?thesis using review_keeps assms(2) by blast
next
  case (reviewed_many env t what approve who msg out)
  then show ?thesis using review_many_keeps assms(2) by blast
next
  case (projected env t i tries out)
  then show ?thesis using project_keeps assms(2) by blast
next
  case elsewhere
  then show ?thesis using assms(2) by simp
qed

lemma run_votes_ok: "feedback_run w \<Longrightarrow> votes_ok (fw_feedback w)"
proof (induction rule: feedback_run.induct)
  case (start w)
  then show ?case by (simp add: votes_ok_def ids_def in_order_def only_last_waits_def)
next
  case (more w w')
  then show ?case using feedback_step_keeps by (simp add: keeps_table_def)
qed

lemma run_chain_ok: "feedback_run w \<Longrightarrow> votes_within (fw_feedback w) \<Longrightarrow> chain_ok (approved_votes (fw_feedback w))"
proof (induction rule: feedback_run.induct)
  case (start w)
  then show ?case by (simp add: chain_ok_def approved_votes_def settled_in_order_def)
next
  case (more w w')
  then show ?case using feedback_step_keeps [OF more(2) run_votes_ok [OF more(1)]] later_within by (auto simp: keeps_table_def)
qed

end
