(* ===== verification/Feedback_Props.thy ===== *)
theory Feedback_Props
  imports Feedback_Run
begin

text \<open>What the feedback service promises, over any run of submissions, reviews and projections.\<close>

subsection \<open>Votes\<close>

text \<open>C12: whatever was submitted, reviewed and projected, in any order, at most one vote of a voter
  waits for review per target.\<close>

theorem one_pending_vote:
  assumes "feedback_run w" and "r \<in> set (fw_feedback w)" and "s \<in> set (fw_feedback w)"
    and "waits r" and "waits s" and "cast_vote r" and "cast_vote s" and "ballot r = ballot s"
  shows "r = s"
proof -
  have ok: "votes_ok (fw_feedback w)" by (rule run_votes_ok [OF assms(1)])
  have "fb_review r \<noteq> None" "fb_review s \<noteq> None" using assms(4,5) in_state_reviewed by blast+
  then have "\<not> fb_created_at r < fb_created_at s" "\<not> fb_created_at s < fb_created_at r"
    using ok assms unfolding votes_ok_def only_last_waits_def by metis+
  then show ?thesis using ok assms(2,3) in_order_distinct by (auto simp: votes_ok_def)
qed

text \<open>C37: a decision is final. Nothing that happens later takes a record out of the table, changes what
  it says, reviews it again once it was decided or dismissed, or projects it a second time.\<close>

theorem decided_is_final:
  assumes "feedback_run w" and "feedback_step\<^sup>*\<^sup>* w w'" and "r \<in> set (fw_feedback w)"
  shows "\<exists>v p. r\<lparr> fb_review := v, fb_projection := p \<rparr> \<in> set (fw_feedback w') \<and>
    (\<not> waits r \<longrightarrow> v = fb_review r) \<and> (fb_projection r \<noteq> None \<longrightarrow> p = fb_projection r)"
proof -
  have "later_table (fw_feedback w) (fw_feedback w') \<and> votes_ok (fw_feedback w')"
    using assms(2)
  proof (induction rule: rtranclp_induct)
    case base
    then show ?case by (simp add: run_votes_ok [OF assms(1)])
  next
    case (step x y)
    then have "keeps_table (fw_feedback x) (fw_feedback y)" by (intro feedback_step_keeps) auto
    then show ?case using step.IH later_trans by (auto simp: keeps_table_def)
  qed
  then obtain r' where r': "r' \<in> set (fw_feedback w')" "same_vote r r'" "final r r'"
    using later_same_id assms(3) by blast
  then obtain v p where "r' = r\<lparr> fb_review := v, fb_projection := p \<rparr>" unfolding same_vote_def by (elim exE)
  then show ?thesis using r'(1,3) by (intro exI [of _ v] exI [of _ p]) (auto simp: final_def)
qed

lemma newest_before:
  "in_order A \<Longrightarrow> find P (rev A) = Some v \<Longrightarrow> x \<in> set A \<Longrightarrow> P x \<Longrightarrow> v \<in> set A \<and> P v \<and> fb_created_at x \<le> fb_created_at v"
proof (induction A rule: rev_induct)
  case (snoc y A)
  then show ?case by (auto simp: in_order_def sorted_wrt_append less_imp_le split: if_splits)
qed simp

lemma undone_by_next:
  assumes chain: "chain_ok A" and ord: "in_order A" and r: "r \<in> set A" "stands r"
    and s: "s \<in> set A" "stands s" "ballot s = ballot r" "fb_created_at r < fb_created_at s"
  shows "\<exists>u \<in> set A. stands u \<and> ballot u = ballot r \<and> fb_created_at r < fb_created_at u \<and>
    undoes u = Some (fb_id r) \<and> \<not> same_thumb r u"
proof -
  let ?S = "{u \<in> set A. stands u \<and> ballot u = ballot r \<and> fb_created_at r < fb_created_at u}"
  have "finite ?S" "?S \<noteq> {}" using s by auto
  then have "Min (fb_created_at ` ?S) \<in> fb_created_at ` ?S" by (intro Min_in) auto
  then obtain u where u: "u \<in> ?S" "fb_created_at u = Min (fb_created_at ` ?S)" by auto
  have least: "fb_created_at u \<le> fb_created_at x" if "x \<in> ?S" for x using u(2) that \<open>finite ?S\<close> by simp
  let ?P = "\<lambda>f. stands f \<and> ballot f = ballot u \<and> fb_created_at f < fb_created_at u"
  have rP: "?P r" using r u by simp
  then obtain v where v: "previous A u = Some v"
    using r(1) by (cases "previous A u") (auto simp: previous_def find_None_iff)
  then have new: "v \<in> set A" "?P v" "fb_created_at r \<le> fb_created_at v"
    using newest_before [OF ord _ r(1), of ?P v] rP by (auto simp: previous_def)
  have "\<not> fb_created_at r < fb_created_at v"
  proof
    assume "fb_created_at r < fb_created_at v"
    then have "v \<in> ?S" using new u(1) by simp
    then show False using least new(2) by fastforce
  qed
  then have "fb_created_at v = fb_created_at r" using new(3) by linarith
  then have "v = r" by (rule in_order_distinct [OF ord new(1) r(1)])
  then have "undoes u = Some (fb_id r) \<and> \<not> same_thumb r u"
    using chain u(1) v by (auto simp: chain_ok_def)
  then show ?thesis using u(1) by blast
qed


subsection \<open>Review before effect, and one effect\<close>

lemma set_projection_ids: "ids (fb_set_projection t i p F) = ids F"
  by (auto simp: ids_def fb_set_projection_def)

lemma set_review_ids: "ids (fb_set_review t i v F) = ids F"
  by (auto simp: ids_def fb_set_review_def)

lemma replace_earlier_ids: "ids (replace_earlier_votes v who F) = ids F"
proof -
  have one: "ids (replace_vote v who f F) = ids F" for f F
    by (simp add: replace_vote_def set_projection_ids set_review_ids split: option.splits)
  have "ids (fold (replace_vote v who) fs F) = ids F" for fs
    by (induction fs arbitrary: F) (simp_all add: one)
  then show ?thesis by (simp add: replace_earlier_votes_def)
qed

lemma fb_get_add: "fb_get F (fb_tenant r) (fb_id r) = None \<Longrightarrow> fb_get (fb_add r F) (fb_tenant r) (fb_id r) = Some r"
proof -
  assume none: "fb_get F (fb_tenant r) (fb_id r) = None"
  then have "fb_add r F = F @ [r]" by (auto simp: fb_add_def fb_get_def find_None_iff list_ex_iff)
  moreover have "find P F = None \<Longrightarrow> P x \<Longrightarrow> find P (F @ [x]) = Some x" for P and x :: Feedback
    by (induction F) (auto split: if_splits)
  ultimately show ?thesis using none by (simp add: fb_get_def has_id_def)
qed

lemma fb_get_projection:
  "fb_get (fb_set_projection t i p F) t i = map_option (\<lambda>x. x\<lparr> fb_projection := Some p \<rparr>) (fb_get F t i)"
  unfolding fb_get_def fb_set_projection_def by (induction F) (auto simp: has_id_def)

text \<open>C36: a judgement that needs a review changes nothing but the table of feedback when it is
  submitted, and its projection job, whenever it runs before the review, changes nothing at all.\<close>

theorem held_until_reviewed:
  assumes "submit env ctx r trusted vouched w = Inr ((s, True), w')"
    and "needs_review env ctx (record_to_store (fe_now env) ctx r trusted vouched) trusted vouched"
  shows "w'\<lparr> fw_feedback := fw_feedback w \<rparr> = w \<and>
    (\<exists>out. project env' (fb_tenant s) (fb_id s) tries w' = Inr (out, w'))"
  using assms(1)
proof (cases rule: submit_cases)
  case (stored s0 s1 s2 F)
  have s1: "s1 = s0\<lparr> fb_review := Some pending_review \<rparr>" using stored(3,4) assms(2) by simp
  have ids: "ids F = ids (fw_feedback w)"
    using stored(5) by (auto simp: count_once_def replace_earlier_ids split: if_splits option.splits)
  have s2: "s2 = s1 \<or> fb_projection s2 \<noteq> None \<and> fb_review s2 \<noteq> None \<and> fb_tenant s2 = fb_tenant s1 \<and> fb_id s2 = fb_id s1"
    using stored(5) by (auto simp: count_once_def split: if_splits option.splits)
  then have same: "fb_tenant s2 = fb_tenant r" "fb_id s2 = fb_id r" "fb_review s2 \<noteq> None"
    using s1 by (auto simp: stored(3) stored_fields)
  then have w': "w' = w\<lparr> fw_feedback := fb_add s2 F \<rparr>" using stored(7) by (simp only: if_False)
  have "fb_get F (fb_tenant s2) (fb_id s2) = None"
    using stored(1) same ids by (simp add: fb_get_None)
  then have get: "fb_get (fb_add s2 F) (fb_tenant s2) (fb_id s2) = Some s2" by (rule fb_get_add)
  have "s = s2" using stored(2) by simp
  moreover have "fb_projection s2 \<noteq> None \<or> waits s2"
    using s2 s1 by (auto simp: in_state_def pending_review_def)
  ultimately have "\<exists>out. project env' (fb_tenant s) (fb_id s) tries w' = Inr (out, w')"
    using get by (auto simp: project_def w' split: option.splits)
  then show ?thesis by (simp add: w')
qed auto

lemma settle_earlier_ids: "ids (snd (settle_earlier now q F)) = ids F"
proof -
  have "ids (fold (\<lambda>f. fb_set_projection t (fb_id f) p) fs F) = ids F" for t p fs
    by (induction fs arbitrary: F) (simp_all add: set_projection_ids)
  then show ?thesis by (simp add: settle_earlier_def Let_def)
qed

lemma projection_ids:
  assumes "(if c then project_vote env q w else project_target env q w) = Inr (p, w')"
  shows "ids (fw_feedback w') = ids (fw_feedback w)"
proof (cases "c \<and> voter_key (fb_user q) (fb_agent q) \<noteq> None")
  case True
  then have run: "project_vote env q w = Inr (p, w')" and v: "voter_key (fb_user q) (fb_agent q) \<noteq> None"
    using assms by simp_all
  obtain prior F where s: "settle_earlier (fe_now env) q (fw_feedback w) = (prior, F)" by fastforce
  show ?thesis using project_vote_made(1) [OF run v s] settle_earlier_ids [of "fe_now env" q "fw_feedback w"] s by simp
next
  case False
  then have "project_target env q w = Inr (p, w')" using assms by (auto simp: project_vote_def split: if_splits)
  then show ?thesis by (simp add: project_target_table(1))
qed

text \<open>C38: the projection job may run any number of times: once it has projected a record, another run,
  at any time, answers the same projection and changes nothing.\<close>

theorem projected_once:
  assumes "project env t i tries w = Inr (PROJECTED p, w')"
  shows "project env' t i tries' w' = Inr (PROJECTED p, w')"
proof -
  obtain q where q: "fb_get (fw_feedback w) t i = Some q" using assms by (cases "fb_get (fw_feedback w) t i") (auto simp: project_def)
  show ?thesis
  proof (cases "fb_projection q")
    case (Some x)
    then show ?thesis using assms q by (simp add: project_def)
  next
    case None
    obtain w1 where p: "(if fb_review q \<noteq> None \<and> is_vote q then project_vote env q w else project_target env q w) = Inr (p, w1)"
      and F': "fw_feedback w' = fb_set_projection t i p (fw_feedback w1)"
      using assms q None by (auto simp: project_def rbind_Inr split: if_splits)
    have "fb_get (fw_feedback w1) t i \<noteq> None"
      using q projection_ids [OF p] by (metis fb_get_None option.distinct(1))
    then obtain x where x: "fb_get (fw_feedback w1) t i = Some x" by blast
    have "fb_get (fw_feedback w') t i = Some (x\<lparr> fb_projection := Some p \<rparr>)"
      by (simp add: F' fb_get_projection x)
    then show ?thesis by (simp add: project_def)
  qed
qed

subsection \<open>Lists\<close>

text \<open>The rows after a cursor, newest first.\<close>

definition newest_first :: "(instant \<times> string) option \<Rightarrow> Feedback list \<Rightarrow> Feedback list" where
  "newest_first before G = rev (sort_key stamp (filter (after_cursor before) G))"

lemma fb_page_newest: "fb_page before most G = take most (newest_first before G)"
  by (simp add: fb_page_def newest_first_def after_cursor_def [abs_def])

lemma newest_sorted:
  assumes "distinct (map stamp G)"
  shows "sorted_wrt (\<lambda>x y. stamp y < stamp x) (newest_first before G)"
proof -
  let ?S = "sort_key stamp (filter (after_cursor before) G)"
  have "distinct (map stamp ?S)" using assms by (simp add: distinct_map inj_on_def)
  moreover have "sorted (map stamp ?S)" by simp
  ultimately have "sorted_wrt (<) (map stamp ?S)" by (simp add: strict_sorted_iff)
  then show ?thesis by (simp add: newest_first_def sorted_wrt_rev sorted_wrt_map)
qed

lemma filter_newest_first: "filter P (newest_first before G) = rev (sort_key stamp (filter P (filter (after_cursor before) G)))"
  by (simp only: newest_first_def rev_filter [symmetric] filter_sort)

lemma newest_next:
  assumes dist: "distinct (map stamp G)" and n: "0 < n" "n \<le> length (newest_first before G)"
  shows "newest_first (Some (stamp (last (take n (newest_first before G))))) G = drop n (newest_first before G)"
proof -
  let ?L = "newest_first before G"
  let ?c = "last (take n ?L)"
  have ne: "take n ?L \<noteq> []" using n by auto
  have split: "take n ?L = butlast (take n ?L) @ [?c]" using ne by simp
  have "sorted_wrt (\<lambda>x y. stamp y < stamp x) (take n ?L @ drop n ?L)" using newest_sorted [OF dist] by simp
  then have s: "sorted_wrt (\<lambda>x y. stamp y < stamp x) (take n ?L)" "\<forall>x \<in> set (take n ?L). \<forall>y \<in> set (drop n ?L). stamp y < stamp x"
    unfolding sorted_wrt_append by blast+
  have "\<forall>x \<in> set (butlast (take n ?L)). stamp ?c < stamp x"
    using s(1) unfolding split [symmetric] by (subst (asm) split) (simp add: sorted_wrt_append)
  then have low: "\<forall>x \<in> set (take n ?L). \<not> stamp x < stamp ?c"
  proof (intro ballI)
    fix x assume "x \<in> set (take n ?L)"
    then have "x \<in> set (butlast (take n ?L)) \<or> x = ?c"
      using arg_cong [OF split, of set] by (auto simp del: append_butlast_last_id)
    then show "\<not> stamp x < stamp ?c" using \<open>\<forall>x \<in> set (butlast (take n ?L)). stamp ?c < stamp x\<close> less_asym by blast
  qed
  have "?c \<in> set ?L" by (rule in_set_takeD [OF last_in_set [OF ne]])
  then have c: "after_cursor before ?c" by (simp add: newest_first_def)
  have "filter (after_cursor (Some (stamp ?c))) G = filter (after_cursor (Some (stamp ?c))) (filter (after_cursor before) G)"
    unfolding filter_filter using c by (intro filter_cong) (auto simp: after_cursor_def split: option.splits)
  then have "newest_first (Some (stamp ?c)) G = filter (after_cursor (Some (stamp ?c))) ?L"
    unfolding newest_first_def [of "Some (stamp ?c)"] filter_newest_first by (rule arg_cong)
  also have "\<dots> = filter (after_cursor (Some (stamp ?c))) (take n ?L) @ filter (after_cursor (Some (stamp ?c))) (drop n ?L)"
    by (simp flip: filter_append)
  also have "\<dots> = drop n ?L"
    using low s(2) last_in_set [OF ne] by (auto simp: after_cursor_def filter_empty_conv)
  finally show ?thesis .
qed

lemma collect_shown_all:
  assumes dist: "distinct (map stamp G)"
  shows "take most (collect_shown shown G most before out) = take most (out @ filter shown (newest_first before G))"
  using dist
proof (induction shown G most before out rule: collect_shown.induct)
  case (1 shown G most before out)
  let ?L = "newest_first before G"
  show ?case
  proof (cases "length out < most")
    case False
    then show ?thesis by (simp add: collect_shown.simps [of shown G most before out])
  next
    case more: True
    show ?thesis
    proof (cases "length ?L < most")
      case True
      then show ?thesis using more by (simp add: collect_shown.simps [of shown G most before out] fb_page_newest)
    next
      case False
      then have rows: "length (take most ?L) = most" by simp
      have next_page: "newest_first (Some (stamp (last (take most ?L)))) G = drop most ?L"
        using newest_next [OF 1(2), of most before] more False by simp
      have "collect_shown shown G most before out =
          collect_shown shown G most (Some (stamp (last (take most ?L)))) (out @ filter shown (take most ?L))"
        using more rows by (subst collect_shown.simps) (simp add: fb_page_newest Let_def)
      also have "take most \<dots> = take most ((out @ filter shown (take most ?L)) @ filter shown (drop most ?L))"
        using 1(1) [OF more refl refl _ 1(2)] rows next_page by (simp add: fb_page_newest)
      also have "\<dots> = take most (out @ filter shown ?L)" by (simp flip: filter_append)
      finally show ?thesis .
    qed
  qed
qed


end
