(* ===== verification/Feedback_Memory.thy ===== *)
theory Feedback_Memory
  imports Feedback_Projector
begin

text \<open>
  What a rejection does to the memories: the memory is retracted, its copies with the same source are,
  everything derived from any of them is, and nothing that a retraction brings back undoes that.
\<close>

subsection \<open>Updates and the retracted rows\<close>

definition all_retracted :: "string \<Rightarrow> string set \<Rightarrow> memory_db \<Rightarrow> bool" where
  "all_retracted t D db \<longleftrightarrow>
     (\<forall>x \<in> set (md_rows db). me_tenant_id x = t \<longrightarrow> me_memory_id x \<in> D \<longrightarrow> status x = TS_RETRACTED)"

lemma written_fields [simp]: "me_memory_id (written r m) = me_memory_id m" "me_tenant_id (written r m) = me_tenant_id r"
  "status (written r m) = status m"
  by (simp_all add: written_def)

lemma retracted_row_fields [simp]: "me_memory_id (retracted_row n m) = me_memory_id m"
  "me_tenant_id (retracted_row n m) = me_tenant_id m" "status (retracted_row n m) = TS_RETRACTED"
  by (simp_all add: retracted_row_def)

lemma mem_update_cases:
  assumes "mem_update n m db = Inr db'"
  obtains r where "row_at (md_rows db) (me_memory_id m) = Some r" "me_tenant_id r = me_tenant_id m"
    "db' = invalidate_dependents n (me_tenant_id m) [me_memory_id m] (db\<lparr> md_rows := put_row (written r m) (md_rows db) \<rparr>)"
  using assms that by (auto simp: mem_update_def split: option.splits if_splits)

lemma mem_update_deps [simp]: "mem_update n m db = Inr db' \<Longrightarrow> md_deps db' = md_deps db"
  by (auto simp: mem_update_def invalidate_dependents_def Let_def split: option.splits if_splits)

lemma mem_update_retracted:
  assumes run: "mem_update n m db = Inr db'" and "all_retracted t D db"
    and own: "me_tenant_id m = t \<Longrightarrow> me_memory_id m \<in> D \<Longrightarrow> status m = TS_RETRACTED"
  shows "all_retracted t D db'"
proof -
  obtain r where r: "me_tenant_id r = me_tenant_id m"
    and db': "db' = invalidate_dependents n (me_tenant_id m) [me_memory_id m] (db\<lparr> md_rows := put_row (written r m) (md_rows db) \<rparr>)"
    by (rule mem_update_cases [OF run])
  have "all_retracted t D (db\<lparr> md_rows := put_row (written r m) (md_rows db) \<rparr>)"
    using assms(2) own r by (auto simp: all_retracted_def put_row_def)
  then show ?thesis by (auto simp: db' all_retracted_def invalidate_dependents_def Let_def)
qed

text \<open>Updating a retracted memory retracts what is derived from it.\<close>

definition with_derived :: "dependency list \<Rightarrow> string \<Rightarrow> string \<Rightarrow> string set" where
  "with_derived deps t i = insert i {d. (i, d) \<in> (derivations deps t)\<^sup>+}"

lemma affected_one: "d \<in> set (affected deps t [i]) \<longleftrightarrow> (i, d) \<in> (derivations deps t)\<^sup>+"
  using affected_set [of d deps t "[i]"] by simp

lemma mem_update_takes_derived:
  assumes run: "mem_update n m db = Inr db'" and "status m = TS_RETRACTED"
  shows "all_retracted (me_tenant_id m) (with_derived (md_deps db) (me_tenant_id m) (me_memory_id m)) db'"
proof -
  obtain r where r: "me_tenant_id r = me_tenant_id m"
    and db': "db' = invalidate_dependents n (me_tenant_id m) [me_memory_id m] (db\<lparr> md_rows := put_row (written r m) (md_rows db) \<rparr>)"
    by (rule mem_update_cases [OF run])
  let ?rows = "put_row (written r m) (md_rows db)"
  have own: "status x = TS_RETRACTED" if "x \<in> set ?rows" "me_memory_id x = me_memory_id m" for x
    using that assms(2) by (auto simp: put_row_def split: if_splits)
  show ?thesis
    unfolding all_retracted_def
  proof (intro ballI impI)
    fix x assume x: "x \<in> set (md_rows db')" and t: "me_tenant_id x = me_tenant_id m"
      and d: "me_memory_id x \<in> with_derived (md_deps db) (me_tenant_id m) (me_memory_id m)"
    let ?hit = "cascades_to (db\<lparr> md_rows := ?rows \<rparr>) (me_tenant_id m) [me_memory_id m]"
    obtain y where y: "y \<in> set ?rows" and xy: "x = (if ?hit y then retracted_row n y else y)"
      using x by (auto simp: db' invalidate_dependents_def Let_def)
    then have "me_tenant_id y = me_tenant_id m" "me_memory_id y = me_memory_id x" using t by (auto split: if_splits)
    then show "status x = TS_RETRACTED"
      using xy d own [OF y] by (auto simp: cascades_to_def affected_one with_derived_def)
  qed
qed

lemma each_keeps:
  assumes "each f xs s = Inr s'" and "P s" and "\<And>x s s'. x \<in> set xs \<Longrightarrow> f x s = Inr s' \<Longrightarrow> P s \<Longrightarrow> P s'"
  shows "P s'"
  using assms by (induction xs arbitrary: s) (auto simp: rbind_Inr)

subsection \<open>A rejection\<close>

lemma reinstate_retracted:
  assumes run: "reinstate now n u gone db = Inr (restored, db')" and "all_retracted t D db"
  shows "all_retracted t D db'"
proof -
  let ?found = "map (reinstated now gone) (filter (\<lambda>m. me_deleted_at m = None) (replaced_by_any db u gone))"
  have run: "each (mem_update n) ?found db = Inr db'" using run by (auto simp: reinstate_def Let_def rbind_Inr)
  have own: "status x = TS_RETRACTED" if x: "x \<in> set ?found" "me_tenant_id x = t" "me_memory_id x \<in> D" for x
  proof -
    obtain m where "m \<in> set (md_rows db)" "x = reinstated now gone m" using x(1) by (auto simp: replaced_by_any_def)
    moreover from this have "me_tenant_id m = t" "me_memory_id m \<in> D" using x(2,3) by (simp_all add: reinstated_def Let_def split: if_splits)
    ultimately show ?thesis using assms(2) by (simp add: all_retracted_def reinstated_def Let_def)
  qed
  show ?thesis
  proof (rule each_keeps [where P = "all_retracted t D", OF run assms(2)])
    fix x s s' assume "x \<in> set ?found" and one: "mem_update n x s = Inr s'" "all_retracted t D s"
    then show "all_retracted t D s'" by (intro mem_update_retracted [OF one] own)
  qed
qed

lemma retract_retracted:
  assumes "retract now n m db = Inr db'" and "all_retracted t D db"
  shows "all_retracted t D db'"
  using assms by (auto simp: retract_def Let_def elim!: mem_update_retracted)

text \<open>C13: rejecting a memory retracts it, and with it every memory derived from it, directly or through
  others; what the rejection brings back is never one of those.\<close>

theorem rejection_takes_derived:
  assumes run: "project_memory env r w = Inr (p, w')" and "pj_action p = MEMORY_RETRACTED"
    and x: "x \<in> set (md_rows (fw_memory w'))" "me_tenant_id x = fb_tenant r"
    and "me_memory_id x = fb_target r \<or> (fb_target r, me_memory_id x) \<in> (derivations (md_deps (fw_memory w)) (fb_tenant r))\<^sup>+"
  shows "status x = TS_RETRACTED"
proof -
  obtain m where m: "mem_get (fe_now env) (fw_memory w) (fb_tenant r) (fb_target r) = Some m" and rej: "retract_all env m w = Inr (p, w')"
    using run assms(2)
    by (auto simp: project_memory_def unprojected_def projected_def reinforce_def correct_def Let_def rbind_Inr
        split: option.splits if_splits prod.splits)
  have at: "me_tenant_id m = fb_tenant r" "me_memory_id m = fb_target r"
    using m by (auto simp: mem_get_def row_at_def find_Some_iff split: option.splits if_splits)
  let ?D = "with_derived (md_deps (fw_memory w)) (fb_tenant r) (fb_target r)"
  obtain db1 db2 restored where first: "retract (fe_now env) (fe_db_now env) m (fw_memory w) = Inr db1"
    and twins: "each (retract (fe_now env) (fe_db_now env)) (twins (fw_memory w) (me_tenant_id m) m True) db1 = Inr db2"
    and last: "reinstate (fe_now env) (fe_db_now env) (me_tenant_id m)
      (map me_memory_id (m # twins (fw_memory w) (me_tenant_id m) m True)) db2 = Inr (restored, fw_memory w')"
    using rej by (auto simp: retract_all_def Let_def rbind_Inr on_memory_def reindex_def fb_enqueue_def)
  have "all_retracted (fb_tenant r) ?D db1"
    using first at by (auto simp: retract_def Let_def dest!: mem_update_takes_derived)
  then have "all_retracted (fb_tenant r) ?D db2"
    by (rule each_keeps [where P = "all_retracted (fb_tenant r) ?D", OF twins]) (rule retract_retracted)
  then have "all_retracted (fb_tenant r) ?D (fw_memory w')" by (rule reinstate_retracted [OF last])
  then show ?thesis using x assms(5) by (auto simp: all_retracted_def with_derived_def)
qed

subsection \<open>A correction of a derived memory\<close>

lemma corrected_metadata: "expected_revision (corrected_memory env m r content) i = PyNone"
  by (simp add: expected_revision_def corrected_memory_def py_get_def)

lemma corrected_sources: "source_ids (corrected_memory env m r content) = source_ids m"
  by (simp add: source_ids_def corrected_memory_def)

lemma supersede_new: "supersede now n old new db = Inr (linked, db') \<Longrightarrow>
    linked = new\<lparr> me_temporal := (me_temporal new)\<lparr> tp_supersedes := Some (me_memory_id old) \<rparr> \<rparr>"
  by (auto simp: supersede_def Let_def rbind_Inr)

lemma source_rows_unrevised:
  assumes "source_ids m \<noteq> []" and "\<And>i. expected_revision m i = PyNone"
  shows "source_rows now db m keys = Inl ValidationFailed"
proof -
  let ?rows = "filter (\<lambda>r. me_tenant_id r = me_tenant_id m \<and> me_memory_id r \<in> set (source_ids m)) (md_rows db)"
  show ?thesis
  proof (cases "length ?rows = length (source_ids m)")
    case True
    then have "?rows \<noteq> []" using assms(1) by (metis length_0_conv)
    then show ?thesis
      using assms by (cases ?rows) (simp_all add: source_rows_def Let_def)
  next
    case False
    then show ?thesis using assms(1) by (simp add: source_rows_def Let_def)
  qed
qed

text \<open>C40: a memory derived from others cannot be corrected: the corrected text is never stored, the
  projection of the judgement raises and leaves everything as it was.\<close>

theorem derived_not_corrected:
  assumes "fb_verdict r \<in> {CORRECT, EDIT}" and "correction_text (fb_correction r) \<noteq> []"
    and "mem_get (fe_now env) (fw_memory w) (fb_tenant r) (fb_target r) = Some m" and "status m = TS_CURRENT"
    and "source_ids m \<noteq> []"
  shows "\<exists>e. project_memory env r w = Inl e"
proof -
  let ?new = "corrected_memory env m r (correction_text (fb_correction r))"
  have no: "source_rows now db (?new\<lparr> me_temporal := t \<rparr>) keys = Inl ValidationFailed" for now db t keys
    by (rule source_rows_unrevised)
      (use assms(5) corrected_sources [of env m r] corrected_metadata [of env m r]
        in \<open>simp_all add: source_ids_def expected_revision_def\<close>)
  have "correct env m r w \<noteq> Inr out" for out
  proof
    assume "correct env m r w = Inr out"
    then obtain linked db db1 db2 where
      "supersede (fe_now env) (fe_db_now env) m ?new (fw_memory w) = Inr (linked, db)"
      "mem_add (fe_now env) linked (me_visibility_keys m) db1 = Inr db2"
      using assms(2) by (cases out) (auto simp: correct_def Let_def rbind_Inr split: prod.splits)
    then show False using no by (auto simp: mem_add_def rbind_Inr dest!: supersede_new)
  qed
  moreover have "project_memory env r w = correct env m r w"
    using assms(1,3,4) by (auto simp: project_memory_def AFFIRMING_VERDICTS_def)
  ultimately show ?thesis by (cases "correct env m r w") auto
qed

subsection \<open>Undoing a rejection of a procedure\<close>

text \<open>Undoing a rejection makes the procedure active, whatever its status was and whoever else rejected it.\<close>

lemma undone_rejection_activates:
  "snd (restore_procedure now t i (snd (reject_procedure before t i ps))) =
     map (\<lambda>p. if is_procedure t i p then p\<lparr> sp_status := PS_ACTIVE, sp_updated_at := now \<rparr> else p) ps"
  by (simp add: restore_procedure_def reject_procedure_def set_procedure_def is_procedure_def)

text \<open>The second look at a record and the first at the record named after it share a job key.\<close>

lemma job_keys_collide: "job_key (r\<lparr> fb_id := fb_id r @ '':1'' \<rparr>) 0 = job_key r 1"
proof -
  have "show_nat 1 = ''1''" by code_simp
  then show ?thesis by (simp add: job_key_def)
qed

end
