(* ===== verification/Feedback_Examples.thy ===== *)
theory Feedback_Examples
  imports Feedback_Props Feedback_Memory
begin

text \<open>
  A concrete run of the feedback service, at which the properties of \<open>Feedback_Props\<close> and
  \<open>Feedback_Memory\<close> hold with all their hypotheses: a user approves a run's answer and changes her
  mind, and both votes are reviewed and projected.
\<close>

subsection \<open>A run\<close>

definition ann :: exec_context where
  "ann = \<lparr> ctx_tenant_id = ''t'', ctx_workspace_id = None, ctx_user_id = Some ''u'', ctx_thread_id = None,
     ctx_session_id = None, ctx_turn_id = None, ctx_work_id = None, ctx_task_id = None,
     ctx_agent_id = None, ctx_agent_group_id = None, ctx_agent_run_id = None,
     ctx_parent_agent_run_id = None, ctx_request_id = ''q'', ctx_correlation_id = ''q'',
     ctx_causation_id = None, ctx_trace_id = ''q'', ctx_custom_metadata = [] \<rparr>"

definition at_time :: "instant \<Rightarrow> feedback_env" where
  "at_time now = \<lparr> fe_now = now, fe_db_now = now, fe_memory_id = ''n'', fe_normalized_hash = (\<lambda>s. s),
     fe_content_hash = (\<lambda>s. s), fe_stable_hash = (\<lambda>_. ''h''), fe_lg = (\<lambda>_. 0),
     fe_is_tenant_admin = (\<lambda>_. False), fe_visible = (\<lambda>_ _. True) \<rparr>"

definition judgement :: "string \<Rightarrow> TargetKind \<Rightarrow> string \<Rightarrow> Verdict \<Rightarrow> Feedback" where
  "judgement i kind target verdict = \<lparr> fb_id = i, fb_tenant = ''t'', fb_workspace = None, fb_user = None,
     fb_agent = None, fb_run = None, fb_kind = kind, fb_target = target, fb_verdict = verdict, fb_correction = PyNone,
     fb_reviewer = None, fb_source = S_HUMAN, fb_evidence = [], fb_tool = None, fb_interrupt = None,
     fb_args = PyNone, fb_created_at = 0, fb_projection = None, fb_review = None, fb_vote = None \<rparr>"

text \<open>The votes on run \<open>r\<close> as they are stored, reviewed and projected.\<close>

definition on_run :: "string \<Rightarrow> Verdict \<Rightarrow> Feedback" where
  "on_run i = judgement i K_RUN ''r''"

definition waiting_vote :: "string \<Rightarrow> Verdict \<Rightarrow> instant \<Rightarrow> Feedback" where
  "waiting_vote i verdict now = (on_run i verdict)\<lparr> fb_user := Some ''u'', fb_created_at := now, fb_vote := Some True,
     fb_review := Some pending_review \<rparr>"

definition agreed :: "instant \<Rightarrow> Feedback \<Rightarrow> Feedback" where
  "agreed now r = r\<lparr> fb_review := Some \<lparr> rv_state = RS_APPROVED, rv_reviewed_by = Some ''admin'',
     rv_reviewed_at = Some now, rv_note = None, rv_replaced_by = None \<rparr> \<rparr>"

definition applied :: "instant \<Rightarrow> string option \<Rightarrow> Feedback \<Rightarrow> Feedback" where
  "applied now undone r = r\<lparr> fb_projection := Some ((projected RUN_LABELLED now)\<lparr>
     pj_run_id := Some ''r'', pj_reversed := undone \<rparr>) \<rparr>"

definition world :: "Feedback list \<Rightarrow> feedback_world" where
  "world F = \<lparr> fw_feedback = F, fw_memory = \<lparr> md_rows = [], md_deps = [], md_invalidated = [] \<rparr>,
     fw_outcomes = (\<lambda>_. None), fw_procedures = [], fw_patterns = [], fw_stats = (\<lambda>_. None), fw_calls = [],
     fw_revisions = (\<lambda>_. None), fw_outbox = \<lparr> ob_rows = [], ob_next = 1 \<rparr> \<rparr>"

lemma world_table [simp]: "fw_feedback (world F) = F"
  by (simp add: world_def)

definition liked :: "Feedback list" where "liked = [applied 3 None (agreed 2 (waiting_vote ''f'' APPROVE 1))]"
definition torn :: Feedback where "torn = agreed 5 (waiting_vote ''g'' REJECT 4)"

definition table_after :: "service_error + ('a \<times> feedback_world) \<Rightarrow> service_error + Feedback list" where
  "table_after = map_sum id (fw_feedback \<circ> snd)"

lemma table_afterE: "table_after x = Inr F \<Longrightarrow> \<exists>out w'. x = Inr (out, w') \<and> fw_feedback w' = F"
  by (cases x) (auto simp: table_after_def)

text \<open>A user likes the answer of a run and changes her mind.\<close>

lemma vote1: "table_after (submit (at_time 1) ann (on_run ''f'' APPROVE) False False (world [])) = Inr [waiting_vote ''f'' APPROVE 1]"
  by code_simp

lemma vote2: "table_after (review (at_time 2) ''t'' ''f'' True ''admin'' None (world [waiting_vote ''f'' APPROVE 1])) =
    Inr [agreed 2 (waiting_vote ''f'' APPROVE 1)]"
  by code_simp

lemma vote3: "table_after (project (at_time 3) ''t'' ''f'' 0 (world [agreed 2 (waiting_vote ''f'' APPROVE 1)])) = Inr liked"
  by code_simp

lemma vote4: "table_after (submit (at_time 4) ann (on_run ''g'' REJECT) False False (world liked)) =
    Inr (liked @ [waiting_vote ''g'' REJECT 4])"
  by code_simp

lemma vote5: "table_after (review (at_time 5) ''t'' ''g'' True ''admin'' None (world (liked @ [waiting_vote ''g'' REJECT 4]))) =
    Inr (liked @ [torn])"
  by code_simp

lemma vote6: "table_after (project (at_time 6) ''t'' ''g'' 0 (world (liked @ [torn]))) =
    Inr (liked @ [applied 6 (Some ''f'') torn])"
  by code_simp

text \<open>Anything else may happen between two steps, so a run goes on from any world with the same table.\<close>

lemma at_time_now [simp]: "fe_now (at_time n) = n"
  by (simp add: at_time_def)

lemma run_on: "feedback_run w \<Longrightarrow> feedback_step w w' \<Longrightarrow> fw_feedback w' = F \<Longrightarrow> feedback_run (world F)"
  using feedback_run.more [OF feedback_run.more elsewhere] by simp

lemma run_submit:
  assumes "feedback_run (world F)" and "table_after (submit (at_time n) ctx r tr vo (world F)) = Inr F'"
    and "list_all (\<lambda>s. fb_created_at s < n) F"
  shows "feedback_run (world F')"
  using table_afterE [OF assms(2)] assms(1,3) by (auto simp: list_all_iff intro!: run_on [OF assms(1) submitted])

lemma run_review:
  assumes "feedback_run (world F)" and "table_after (review env t i ok who msg (world F)) = Inr F'"
  shows "feedback_run (world F')"
  using table_afterE [OF assms(2)] by (auto intro: run_on [OF assms(1) reviewed])

lemma run_project:
  assumes "feedback_run (world F)" and "table_after (project env t i n (world F)) = Inr F'"
  shows "feedback_run (world F')"
  using table_afterE [OF assms(2)] by (auto intro: run_on [OF assms(1) feedback_step.projected])

lemma created [simp]: "fb_created_at (waiting_vote i v n) = n" "fb_created_at (agreed k r) = fb_created_at r"
  "fb_created_at (applied k u r) = fb_created_at r"
  by (simp_all add: waiting_vote_def agreed_def applied_def)

lemma runs: "feedback_run (world [waiting_vote ''f'' APPROVE 1])" "feedback_run (world (liked @ [torn]))"
  "feedback_run (world (liked @ [applied 6 (Some ''f'') torn]))"
proof -
  have "feedback_run (world [])" by (rule feedback_run.start) simp
  then show run1: "feedback_run (world [waiting_vote ''f'' APPROVE 1])" by (rule run_submit [OF _ vote1]) simp
  note run3 = run_project [OF run_review [OF run1 vote2] vote3]
  have "list_all (\<lambda>s. fb_created_at s < 4) liked" by (simp add: liked_def)
  then show run5: "feedback_run (world (liked @ [torn]))" by (intro run_review [OF run_submit [OF run3 vote4] vote5])
  show "feedback_run (world (liked @ [applied 6 (Some ''f'') torn]))" by (rule run_project [OF run5 vote6])
qed

lemma same_records: "same_vote r (applied n u r)" "same_vote r (agreed n r)"
  unfolding applied_def agreed_def by (rule same_vote_projection same_vote_review)+

lemmas same_fields [simp] = same_records [THEN same_voteE(1)] same_records [THEN same_voteE(4)] same_records [THEN same_voteE(7)]

lemma states [simp]: "in_state st (applied n u r) = in_state st r" "in_state st (agreed n r) \<longleftrightarrow> st = RS_APPROVED"
  "waits (waiting_vote i v n)" "stands (applied n u r)" "undoes (applied n u r) = u"
  by (auto simp: in_state_def applied_def agreed_def waiting_vote_def pending_review_def stands_def undoes_def projected_def STOOD_DOWN_def)

lemma waiting_fields [simp]: "fb_id (waiting_vote i v n) = i" "ballot (waiting_vote i v n) = (''t'', K_RUN, ''r'', Some ''u'', None)" "cast_vote (waiting_vote i v n)"
  by (simp_all add: waiting_vote_def on_run_def judgement_def ballot_def voter_def cast_vote_def is_vote_def voter_key_def)

subsection \<open>Votes\<close>

theorem one_pending_vote_witness:
  "hd (filter waits (fw_feedback (world [waiting_vote ''f'' APPROVE 1]))) = waiting_vote ''f'' APPROVE 1"
  by (rule one_pending_vote [OF runs(1)]) simp_all

theorem decided_is_final_witness:
  "\<exists>w'. project (at_time 6) ''t'' ''g'' 0 (world (liked @ [torn])) = w' \<and> \<not> isl w' \<and>
     (\<exists>v p. torn\<lparr> fb_review := v, fb_projection := p \<rparr> \<in> set (fw_feedback (snd (projr w'))) \<and> v = fb_review torn)"
proof -
  obtain out w' where run: "project (at_time 6) ''t'' ''g'' 0 (world (liked @ [torn])) = Inr (out, w')"
    using table_afterE [OF vote6] by blast
  have "feedback_step\<^sup>*\<^sup>* (world (liked @ [torn])) w'"
    by (rule r_into_rtranclp) (rule feedback_step.projected [OF run])
  from decided_is_final [OF runs(2) this, of torn] obtain v p where
    "torn\<lparr> fb_review := v, fb_projection := p \<rparr> \<in> set (fw_feedback w')" "\<not> waits torn \<longrightarrow> v = fb_review torn" by auto
  then show ?thesis using run by (auto simp: torn_def)
qed


subsection \<open>The job and the lists\<close>

theorem held_until_reviewed_witness:
  "\<exists>w'. (\<exists>s. submit (at_time 1) ann (on_run ''f'' APPROVE) False False (world []) = Inr ((s, True), w')) \<and>
     w'\<lparr> fw_feedback := [] \<rparr> = world []"
proof -
  have "map_sum id (snd \<circ> fst) (submit (at_time 1) ann (on_run ''f'' APPROVE) False False (world [])) = Inr True"
    by code_simp
  then obtain s w' where run: "submit (at_time 1) ann (on_run ''f'' APPROVE) False False (world []) = Inr ((s, True), w')"
    by (cases "submit (at_time 1) ann (on_run ''f'' APPROVE) False False (world [])") auto
  have "needs_review (at_time 1) ann (record_to_store (fe_now (at_time 1)) ann (on_run ''f'' APPROVE) False False) False False"
    by code_simp
  from held_until_reviewed [OF run this] show ?thesis using run by auto
qed

theorem projected_once_witness:
  "\<exists>p w'. project (at_time 3) ''t'' ''f'' 0 (world [agreed 2 (waiting_vote ''f'' APPROVE 1)]) = Inr (PROJECTED p, w') \<and>
     project (at_time 9) ''t'' ''f'' 1 w' = Inr (PROJECTED p, w')"
proof -
  have "map_sum id (\<lambda>(e, _). case e of PROJECTED _ \<Rightarrow> True | _ \<Rightarrow> False)
      (project (at_time 3) ''t'' ''f'' 0 (world [agreed 2 (waiting_vote ''f'' APPROVE 1)])) = Inr True" by code_simp
  then obtain p w' where run: "project (at_time 3) ''t'' ''f'' 0 (world [agreed 2 (waiting_vote ''f'' APPROVE 1)]) = Inr (PROJECTED p, w')"
    by (cases "project (at_time 3) ''t'' ''f'' 0 (world [agreed 2 (waiting_vote ''f'' APPROVE 1)])")
      (auto split: projection_end.splits)
  from projected_once [OF run] run show ?thesis by blast
qed


subsection \<open>A repeated vote is stored\<close>

text \<open>\<open>submit\<close> is documented to return the vote that counts and to store nothing when a voter repeats it; it
  stores the repeat, dismissed, and returns it as new.\<close>

lemma repeat_is_stored:
  "map_sum id (\<lambda>((s, new), w'). (new, fb_id s, in_state RS_DISMISSED s, length (fw_feedback w')))
     (submit (at_time 6) ann (on_run ''h'' APPROVE) False False (world liked)) = Inr (True, ''h'', True, 2)"
  by code_simp

subsection \<open>A change of mind that is dropped\<close>

text \<open>Ann likes an answer, then dislikes it, then likes it again, and the last vote is projected first: it
  counts already, and the dislike is closed without being applied. Her next dislike is dismissed as
  counted already, by the vote that never counted, and her like stands.\<close>

definition liked_again :: "Feedback list" where
  "liked_again = liked @ [torn\<lparr> fb_projection := Some (unprojected REPLACED_REASON 8) \<rparr>,
     (agreed 7 (waiting_vote ''h'' APPROVE 6))\<lparr> fb_projection := Some (counted_already 8 (waiting_vote ''h'' APPROVE 6)) \<rparr>]"

lemma vote7: "table_after (submit (at_time 6) ann (on_run ''h'' APPROVE) False False (world (liked @ [torn]))) =
    Inr (liked @ [torn, waiting_vote ''h'' APPROVE 6])"
  by code_simp

lemma vote8: "table_after (review (at_time 7) ''t'' ''h'' True ''admin'' None (world (liked @ [torn, waiting_vote ''h'' APPROVE 6]))) =
    Inr (liked @ [torn, agreed 7 (waiting_vote ''h'' APPROVE 6)])"
  by code_simp

lemma vote9: "table_after (project (at_time 8) ''t'' ''h'' 0 (world (liked @ [torn, agreed 7 (waiting_vote ''h'' APPROVE 6)]))) =
    Inr liked_again"
  by code_simp

lemma vote10: "map_sum id (\<lambda>((s, b), w'). (b, in_state RS_DISMISSED s, thumbs_up s, map (\<lambda>r. (fb_id r, thumbs_up r)) (filter stands (fw_feedback w'))))
    (submit (at_time 9) ann (on_run ''k'' REJECT) False False (world liked_again)) =
    Inr (True, True, False, [(''f'', True)])"
  by code_simp

lemma change_of_mind_dropped:
  "\<exists>w s w'. feedback_run w \<and> submit (at_time 9) ann (on_run ''k'' REJECT) False False w = Inr ((s, True), w') \<and>
     in_state RS_DISMISSED s \<and> (\<forall>r \<in> set (fw_feedback w'). stands r \<longrightarrow> thumbs_up r)"
proof -
  have "list_all (\<lambda>s. fb_created_at s < 6) (liked @ [torn])" by (simp add: liked_def torn_def)
  from run_project [OF run_review [OF run_submit [OF runs(2) vote7 this] vote8] vote9]
  have run: "feedback_run (world liked_again)" .
  obtain s w' where sub: "submit (at_time 9) ann (on_run ''k'' REJECT) False False (world liked_again) = Inr ((s, True), w')"
    and dis: "in_state RS_DISMISSED s" and up: "map (\<lambda>r. (fb_id r, thumbs_up r)) (filter stands (fw_feedback w')) = [(''f'', True)]"
    using vote10 by (cases "submit (at_time 9) ann (on_run ''k'' REJECT) False False (world liked_again)") auto
  have "\<forall>r \<in> set (fw_feedback w'). stands r \<longrightarrow> thumbs_up r"
  proof (intro ballI impI)
    fix r assume "r \<in> set (fw_feedback w')" and "stands r"
    then have "(fb_id r, thumbs_up r) \<in> set (map (\<lambda>r. (fb_id r, thumbs_up r)) (filter stands (fw_feedback w')))" by simp
    then show "thumbs_up r" unfolding up by simp
  qed
  then show ?thesis using run sub dis by blast
qed

subsection \<open>Memories\<close>

text \<open>A memory and one derived from it.\<close>

definition fact :: "string \<Rightarrow> EvidenceRef list \<Rightarrow> Memory" where
  "fact i evidence = \<lparr> me_memory_id = i, me_tenant_id = ''t'', me_scope = \<lparr> sc_level = L_TENANT, sc_tenant_id = ''t'',
     sc_workspace_id = None, sc_user_id = None, sc_thread_id = None, sc_agent_id = None, sc_agent_group_id = None \<rparr>,
     me_visibility_keys = [''tenant:t''], me_owner = ''user:u'', me_content = i, me_hash = i,
     me_temporal = \<lparr> tp_status = TS_CURRENT, tp_valid_from = None, tp_valid_to = None, tp_observed_at = 0,
       tp_superseded_by = None, tp_supersedes = None, tp_contradicts = [] \<rparr>,
     me_evidence = evidence, me_confidence = 1, me_reinforcement = 1, me_access_count = 0, me_last_accessed = None,
     me_metadata = [], me_provider = ''native'', me_expires_at = None, me_indexed_at = None, me_derived_slot = None,
     me_created_at = 0, me_updated_at = 0, me_revision = 1, me_deleted_at = None \<rparr>"

definition from_memory :: "string \<Rightarrow> EvidenceRef" where
  "from_memory i = \<lparr> er_source_type = ''memory'', er_source_id = i, er_agent_id = None, er_agent_run_id = None,
     er_observed_at = 0 \<rparr>"

definition memory_world :: feedback_world where
  "memory_world = (world [])\<lparr> fw_memory := \<lparr> md_rows = [fact ''m'' [], fact ''d'' [from_memory ''m'']],
     md_deps = [\<lparr> dp_tenant = ''t'', dp_derived = ''d'', dp_source = ''m'', dp_revision = 1 \<rparr>], md_invalidated = [] \<rparr> \<rparr>"

lemma rejected:
  "map_sum id (\<lambda>(p, w'). (pj_action p, map (\<lambda>m. (me_tenant_id m, me_memory_id m)) (md_rows (fw_memory w'))))
     (project_memory (at_time 5) (judgement ''j'' K_MEMORY ''m'' REJECT) memory_world) =
   Inr (MEMORY_RETRACTED, [(''t'', ''m''), (''t'', ''d'')])"
  by code_simp

theorem rejection_takes_derived_witness:
  "\<exists>p w' x. project_memory (at_time 5) (judgement ''j'' K_MEMORY ''m'' REJECT) memory_world = Inr (p, w') \<and>
     x \<in> set (md_rows (fw_memory w')) \<and> me_memory_id x = ''d'' \<and> status x = TS_RETRACTED"
proof -
  obtain p w' where run: "project_memory (at_time 5) (judgement ''j'' K_MEMORY ''m'' REJECT) memory_world = Inr (p, w')"
    and p: "pj_action p = MEMORY_RETRACTED"
    and rows: "map (\<lambda>m. (me_tenant_id m, me_memory_id m)) (md_rows (fw_memory w')) = [(''t'', ''m''), (''t'', ''d'')]"
    using rejected by (cases "project_memory (at_time 5) (judgement ''j'' K_MEMORY ''m'' REJECT) memory_world") auto
  have "(''t'', ''d'') \<in> set (map (\<lambda>m. (me_tenant_id m, me_memory_id m)) (md_rows (fw_memory w')))" unfolding rows by simp
  then obtain x where x: "x \<in> set (md_rows (fw_memory w'))" "me_tenant_id x = ''t''" "me_memory_id x = ''d''" by auto
  have "(''m'', ''d'') \<in> derivations (md_deps (fw_memory memory_world)) ''t''"
    by (simp add: derivations_def memory_world_def)
  then have "status x = TS_RETRACTED"
    using x by (intro rejection_takes_derived [OF run p x(1)]) (auto simp: judgement_def)
  then show ?thesis using run x by blast
qed

theorem derived_not_corrected_witness:
  "\<exists>e. project_memory (at_time 5) ((judgement ''j'' K_MEMORY ''d'' CORRECT)\<lparr> fb_correction := PyStr ''x'' \<rparr>) memory_world = Inl e"
proof (rule derived_not_corrected)
  let ?r = "(judgement ''j'' K_MEMORY ''d'' CORRECT)\<lparr> fb_correction := PyStr ''x'' \<rparr>"
  show "fb_verdict ?r \<in> {CORRECT, EDIT}" by (simp add: judgement_def)
  show "correction_text (fb_correction ?r) \<noteq> []" by code_simp
  show "mem_get (fe_now (at_time 5)) (fw_memory memory_world) (fb_tenant ?r) (fb_target ?r) = Some (fact ''d'' [from_memory ''m''])"
    by code_simp
  show "status (fact ''d'' [from_memory ''m'']) = TS_CURRENT" by (simp add: fact_def)
  show "source_ids (fact ''d'' [from_memory ''m'']) \<noteq> []" by code_simp
qed

end
